(* ===== verification/KyPrelude.thy ===== *)
theory KyPrelude
  imports Main "HOL-Library.Word" "HOL-Library.Sublist" "HOL-Library.Char_ord"
    "HOL-Library.List_Lexorder"
begin

text \<open>
  The shared layer of the KyDNS development: Go strings and the functions of the
  standard packages \<^verbatim>\<open>strings\<close> and \<^verbatim>\<open>strconv\<close> the sources call, Go maps as finite
  association lists with the interface they promise, the result type of a fallible
  operation, and the generic lemmas the component theories share.

  A Go string is a sequence of bytes and is modelled as \<^typ>\<open>string\<close>. The functions below are
  exact on ASCII text; on bytes of 128 and above \<open>ToLower\<close>, \<open>TrimSpace\<close> and \<open>Fields\<close> leave
  the byte alone, where Go would decode UTF-8 first.
\<close>

named_theorems str_simps \<open>evaluation and rewriting of the string functions\<close>
named_theorems map_simps \<open>lookup after an update of a Go map\<close>

section \<open>Results\<close>

type_synonym ('e, 'a) result = "'e + 'a"

definition is_ok :: "('e, 'a) result \<Rightarrow> bool" where
  "is_ok r = (case r of Inl _ \<Rightarrow> False | Inr _ \<Rightarrow> True)"

fun map_result :: "('a \<Rightarrow> ('e, 'b) result) \<Rightarrow> 'a list \<Rightarrow> ('e, 'b list) result" where
  "map_result f [] = Inr []"
| "map_result f (x # xs) =
     (case f x of Inl e \<Rightarrow> Inl e
      | Inr y \<Rightarrow> (case map_result f xs of Inl e \<Rightarrow> Inl e | Inr ys \<Rightarrow> Inr (y # ys)))"

section \<open>Bytes and characters\<close>

definition char_code :: "char \<Rightarrow> int" where
  "char_code c = of_char c"

definition is_digit :: "char \<Rightarrow> bool" where
  "is_digit c = (48 \<le> char_code c \<and> char_code c \<le> 57)"

definition is_lower :: "char \<Rightarrow> bool" where
  "is_lower c = (97 \<le> char_code c \<and> char_code c \<le> 122)"

definition is_upper :: "char \<Rightarrow> bool" where
  "is_upper c = (65 \<le> char_code c \<and> char_code c \<le> 90)"

definition lower_char :: "char \<Rightarrow> char" where
  "lower_char c = (if is_upper c then char_of (char_code c + 32) else c)"

definition upper_char :: "char \<Rightarrow> char" where
  "upper_char c = (if is_lower c then char_of (char_code c - 32) else c)"

definition is_space :: "char \<Rightarrow> bool" where
  "is_space c = (c = CHR '' '' \<or> (9 \<le> char_code c \<and> char_code c \<le> 13))"

section \<open>Package strings\<close>

definition ToLower :: "string \<Rightarrow> string" where
  "ToLower s = map lower_char s"

definition ToUpper :: "string \<Rightarrow> string" where
  "ToUpper s = map upper_char s"

definition TrimSpace :: "string \<Rightarrow> string" where
  "TrimSpace s = rev (dropWhile is_space (rev (dropWhile is_space s)))"

definition HasPrefix :: "string \<Rightarrow> string \<Rightarrow> bool" where
  "HasPrefix s p = (take (length p) s = p)"

definition HasSuffix :: "string \<Rightarrow> string \<Rightarrow> bool" where
  "HasSuffix s t = (length t \<le> length s \<and> drop (length s - length t) s = t)"

definition TrimPrefix :: "string \<Rightarrow> string \<Rightarrow> string" where
  "TrimPrefix s p = (if HasPrefix s p then drop (length p) s else s)"

definition TrimSuffix :: "string \<Rightarrow> string \<Rightarrow> string" where
  "TrimSuffix s t = (if HasSuffix s t then take (length s - length t) s else s)"

definition ContainsAny :: "string \<Rightarrow> string \<Rightarrow> bool" where
  "ContainsAny s cs = list_ex (\<lambda>c. c \<in> set cs) s"

fun split_by :: "(char \<Rightarrow> bool) \<Rightarrow> string \<Rightarrow> string list" where
  "split_by P [] = [[]]"
| "split_by P (c # s) =
     (if P c then [] # split_by P s
      else (case split_by P s of [] \<Rightarrow> [[c]] | w # ws \<Rightarrow> (c # w) # ws))"

definition Split :: "string \<Rightarrow> char \<Rightarrow> string list" where
  "Split s c = split_by (\<lambda>x. x = c) s"

definition Fields :: "string \<Rightarrow> string list" where
  "Fields s = filter (\<lambda>w. w \<noteq> []) (split_by is_space s)"

fun Join :: "string list \<Rightarrow> string \<Rightarrow> string" where
  "Join [] sep = []"
| "Join [w] sep = w"
| "Join (w # v # ws) sep = w @ sep @ Join (v # ws) sep"

section \<open>Printing numbers\<close>

definition digit_char :: "int \<Rightarrow> char" where
  "digit_char d = char_of (48 + d)"

function show_dec :: "int \<Rightarrow> string" where
  "show_dec n = (if n < 10 then [digit_char n] else show_dec (n div 10) @ [digit_char (n mod 10)])"
  by pat_completeness auto
termination
  by (relation "measure nat") auto

declare show_dec.simps [simp del]

definition hex_char :: "int \<Rightarrow> char" where
  "hex_char d = (if d < 10 then char_of (48 + d) else char_of (87 + d))"

function show_hex :: "int \<Rightarrow> string" where
  "show_hex n = (if n < 16 then [hex_char n] else show_hex (n div 16) @ [hex_char (n mod 16)])"
  by pat_completeness auto
termination
  by (relation "measure nat") auto

declare show_hex.simps [simp del]

section \<open>Parsing numbers\<close>

definition hex_val :: "char \<Rightarrow> int option" where
  "hex_val c =
     (if is_digit c then Some (char_code c - 48)
      else if 97 \<le> char_code c \<and> char_code c \<le> 102 then Some (char_code c - 87)
      else if 65 \<le> char_code c \<and> char_code c \<le> 70 then Some (char_code c - 55)
      else None)"

definition is_hex :: "char \<Rightarrow> bool" where
  "is_hex c = (hex_val c \<noteq> None)"

definition hex_num :: "string \<Rightarrow> int" where
  "hex_num s = foldl (\<lambda>a c. a * 16 + (case hex_val c of None \<Rightarrow> 0 | Some d \<Rightarrow> d)) 0 s"

definition dec_num :: "string \<Rightarrow> int" where
  "dec_num s = foldl (\<lambda>a c. a * 10 + (char_code c - 48)) 0 s"

text \<open>
  \<^verbatim>\<open>strconv.ParseUint(s, 16, 32)\<close>: a non-empty run of hexadecimal digits whose value fits
  32 bits (base 16 given explicitly, so no prefix and no underscore is accepted).
\<close>

definition ParseUint16 :: "string \<Rightarrow> int option" where
  "ParseUint16 s =
     (if s = [] \<or> \<not> list_all is_hex s then None
      else if hex_num s < 2 ^ 32 then Some (hex_num s) else None)"

text \<open>\<^verbatim>\<open>strconv.ParseInt(s, 10, 64)\<close>: an optional sign, then digits, within 64 signed bits.\<close>

definition ParseInt64 :: "string \<Rightarrow> int option" where
  "ParseInt64 s =
     (let neg = HasPrefix s ''-'';
          d = (if HasPrefix s ''-'' \<or> HasPrefix s ''+'' then drop 1 s else s);
          v = (if neg then - dec_num d else dec_num d)
      in if d = [] \<or> \<not> list_all is_digit d then None
         else if - (2 ^ 63) \<le> v \<and> v < 2 ^ 63 then Some v else None)"

section \<open>Go maps\<close>

text \<open>
  A Go map is a finite association list with distinct keys. The order of the list is the
  order in which a \<^verbatim>\<open>range\<close> over the map visits the entries; Go leaves that order open,
  and every theorem about such an iteration is about a result that does not depend on it.
\<close>

type_synonym ('k, 'v) gomap = "('k \<times> 'v) list"

definition m_get :: "('k, 'v) gomap \<Rightarrow> 'k \<Rightarrow> 'v option" where
  "m_get m k = map_of m k"

definition m_del :: "'k \<Rightarrow> ('k, 'v) gomap \<Rightarrow> ('k, 'v) gomap" where
  "m_del k m = filter (\<lambda>e. fst e \<noteq> k) m"

definition m_put :: "'k \<Rightarrow> 'v \<Rightarrow> ('k, 'v) gomap \<Rightarrow> ('k, 'v) gomap" where
  "m_put k v m = (k, v) # m_del k m"

definition m_wf :: "('k, 'v) gomap \<Rightarrow> bool" where
  "m_wf m = distinct (map fst m)"

definition m_has :: "('k, 'v) gomap \<Rightarrow> 'k \<Rightarrow> bool" where
  "m_has m k = (m_get m k \<noteq> None)"


section \<open>Lemmas on results\<close>

lemma map_result_Inr_length: "map_result f xs = Inr ys \<Longrightarrow> length ys = length xs"
  by (induction xs arbitrary: ys) (auto split: sum.splits)

lemma map_result_Inr_nth:
  "map_result f xs = Inr ys \<Longrightarrow> i < length xs \<Longrightarrow> f (xs ! i) = Inr (ys ! i)"
proof (induction xs arbitrary: ys i)
  case Nil
  then show ?case by simp
next
  case (Cons x xs)
  then show ?case by (cases i) (auto split: sum.splits)
qed

lemma map_result_Inr_set:
  "map_result f xs = Inr ys \<Longrightarrow> y \<in> set ys \<Longrightarrow> \<exists>x \<in> set xs. f x = Inr y"
  by (induction xs arbitrary: ys) (auto split: sum.splits)

lemma map_result_Inr_iff:
  "is_ok (map_result f xs) = list_all (\<lambda>x. is_ok (f x)) xs"
  by (induction xs) (auto simp: is_ok_def split: sum.splits)

lemma dropWhile_hd: "\<not> P (hd s) \<Longrightarrow> dropWhile P s = s"
  by (cases s) simp_all

lemma set_Join: "set (Join ws sep) \<subseteq> (\<Union>w \<in> set ws. set w) \<union> set sep"
  by (induction ws sep rule: Join.induct) auto

section \<open>Folds where the last writer wins\<close>

text \<open>
  A loop that overwrites an entry: after it, the entry holds what the last iteration that wrote
  it put there.
\<close>

lemma fold_last_writer:
  assumes "\<And>x s. g (f x s) = (if P x then v x else g s)"
  shows "g (fold f xs s) = (case find P (rev xs) of Some x \<Rightarrow> v x | None \<Rightarrow> g s)"
proof (induction xs rule: rev_induct)
  case Nil
  then show ?case by simp
next
  case (snoc x xs)
  then show ?case by (simp add: assms)
qed

lemma fold_same_writer:
  assumes "\<And>x s. g (f x s) = (if P x then v else g s)"
  shows "g (fold f xs s) = (if list_ex P xs then v else g s)"
  by (induction xs arbitrary: s) (auto simp: assms)

lemma fold_keeps:
  assumes "\<And>x s. g (f x s) = g s"
  shows "g (fold f xs s) = g s"
  by (induction xs arbitrary: s) (auto simp: assms)

lemma fold_invariant:
  assumes "\<And>x s. x \<in> set xs \<Longrightarrow> P s \<Longrightarrow> P (f x s)" and "P s"
  shows "P (fold f xs s)"
  using assms by (induction xs arbitrary: s) auto

lemma find_rev_None: "find P (rev xs) = None \<longleftrightarrow> (\<forall>x \<in> set xs. \<not> P x)"
  by (auto simp: find_None_iff)

lemma find_SomeD: "find P xs = Some x \<Longrightarrow> x \<in> set xs \<and> P x"
  by (auto simp: find_Some_iff)

section \<open>Lemmas on characters\<close>

lemma char_code_less: "0 \<le> char_code c" "char_code c < 256"
proof -
  have "char_code c = int (of_char c)" by (simp only: char_code_def of_nat_of_char)
  moreover have "of_char c < (256 :: nat)" by simp
  ultimately show "0 \<le> char_code c" and "char_code c < 256" by simp_all
qed

lemma char_of_code [simp]: "char_of (char_code c) = c"
  by (simp add: char_code_def)

lemma code_char_of: "0 \<le> n \<Longrightarrow> n < 256 \<Longrightarrow> char_code (char_of n) = n"
  by (simp add: char_code_def)

lemma lower_char_idem [simp]: "lower_char (lower_char c) = lower_char c"
proof (cases "is_upper c")
  case True
  then have "char_code c + 32 < 256" and "\<not> is_upper (char_of (char_code c + 32))"
    by (auto simp: is_upper_def code_char_of)
  with True show ?thesis by (simp add: lower_char_def)
qed (simp add: lower_char_def)

lemma lower_char_id: "\<not> is_upper c \<Longrightarrow> lower_char c = c"
  by (simp add: lower_char_def)

lemma lower_char_not_upper: "\<not> is_upper (lower_char c)"
proof (cases "is_upper c")
  case True
  then have "char_code c + 32 < 256" by (simp add: is_upper_def)
  then have "\<not> is_upper (char_of (char_code c + 32))"
    using True by (simp add: is_upper_def code_char_of)
  with True show ?thesis by (simp add: lower_char_def)
qed (simp add: lower_char_def)

lemma lower_char_eq_iff:
  "\<not> is_upper d \<Longrightarrow> \<not> is_lower d \<Longrightarrow> lower_char c = d \<longleftrightarrow> c = d"
proof -
  assume nu: "\<not> is_upper d" and nl: "\<not> is_lower d"
  show ?thesis
  proof (cases "is_upper c")
    case True
    then have "char_code c + 32 < 256" by (simp add: is_upper_def)
    then have "is_lower (lower_char c)"
      using True by (simp add: lower_char_def is_lower_def is_upper_def code_char_of)
    with nl nu True show ?thesis by auto
  qed (simp add: lower_char_def)
qed

lemma lower_char_dot [simp]: "lower_char c = CHR ''.'' \<longleftrightarrow> c = CHR ''.''"
  by (rule lower_char_eq_iff) (simp_all add: is_upper_def is_lower_def char_code_def)

lemma digit_cases:
  "0 \<le> d \<Longrightarrow> d < 10 \<Longrightarrow> (d :: int) \<in> {0, 1, 2, 3, 4, 5, 6, 7, 8, 9}"
  by simp presburger

lemma code_digit_char: "0 \<le> d \<Longrightarrow> d < 10 \<Longrightarrow> char_code (digit_char d) = 48 + d"
  by (simp add: digit_char_def code_char_of)

lemma is_digit_digit_char: "0 \<le> d \<Longrightarrow> d < 10 \<Longrightarrow> is_digit (digit_char d)"
  by (simp add: is_digit_def code_digit_char)

lemma code_hex_char:
  "0 \<le> d \<Longrightarrow> d < 16 \<Longrightarrow> char_code (hex_char d) = (if d < 10 then 48 + d else 87 + d)"
  by (simp add: hex_char_def code_char_of)

lemma hex_val_hex_char: "0 \<le> d \<Longrightarrow> d < 16 \<Longrightarrow> hex_val (hex_char d) = Some d"
  by (auto simp: hex_val_def is_digit_def code_hex_char)

lemma is_hex_hex_char: "0 \<le> d \<Longrightarrow> d < 16 \<Longrightarrow> is_hex (hex_char d)"
  by (simp add: is_hex_def hex_val_hex_char)

lemma hex_char_not_upper: "0 \<le> d \<Longrightarrow> d < 16 \<Longrightarrow> \<not> is_upper (hex_char d)"
  by (auto simp: is_upper_def code_hex_char)

lemma is_hex_neq: "is_hex c \<Longrightarrow> c \<noteq> CHR ''.'' \<and> c \<noteq> CHR '':'' \<and> c \<noteq> CHR ''%''"
  by (auto simp: is_hex_def hex_val_def is_digit_def char_code_def)

lemma is_digit_hex: "is_digit c \<Longrightarrow> is_hex c"
  by (simp add: is_hex_def hex_val_def)

lemma is_digit_not_upper: "is_digit c \<Longrightarrow> \<not> is_upper c"
  by (simp add: is_digit_def is_upper_def)

lemma show_dec_digits: "0 \<le> n \<Longrightarrow> list_all is_digit (show_dec n)"
proof (induction n rule: show_dec.induct)
  case (1 n)
  show ?case
  proof (cases "n < 10")
    case True
    with 1 show ?thesis by (simp add: show_dec.simps [of n] is_digit_digit_char)
  next
    case False
    with 1 show ?thesis by (simp add: show_dec.simps [of n] is_digit_digit_char)
  qed
qed

lemma dec_num_show_dec: "0 \<le> n \<Longrightarrow> dec_num (show_dec n) = n"
proof (induction n rule: show_dec.induct)
  case (1 n)
  show ?case
  proof (cases "n < 10")
    case True
    with 1 show ?thesis by (simp add: show_dec.simps [of n] dec_num_def code_digit_char)
  next
    case False
    with 1 have "dec_num (show_dec (n div 10)) = n div 10" by simp
    with False show ?thesis
      by (simp add: show_dec.simps [of n] dec_num_def code_digit_char)
  qed
qed

lemma show_dec_not_Nil [simp]: "show_dec n \<noteq> []"
  by (subst show_dec.simps) simp

lemma hd_show_dec: "0 < n \<Longrightarrow> hd (show_dec n) \<noteq> CHR ''0''"
proof (induction n rule: show_dec.induct)
  case (1 n)
  show ?case
  proof (cases "n < 10")
    case True
    have "char_code (digit_char n) \<noteq> char_code CHR ''0''"
      using True 1 by (simp add: code_digit_char) (simp add: char_code_def)
    with True show ?thesis by (auto simp: show_dec.simps [of n])
  next
    case False
    with 1 show ?thesis by (simp add: show_dec.simps [of n])
  qed
qed

section \<open>Lemmas on strings\<close>

lemma ToLower_idem [simp]: "ToLower (ToLower s) = ToLower s"
  by (simp add: ToLower_def)

lemma ToLower_append [simp]: "ToLower (s @ t) = ToLower s @ ToLower t"
  by (simp add: ToLower_def)

lemma ToLower_Nil [simp]: "ToLower [] = []" "ToLower s = [] \<longleftrightarrow> s = []"
  by (simp_all add: ToLower_def)

lemma length_ToLower [simp]: "length (ToLower s) = length s"
  by (simp add: ToLower_def)

lemma ToLower_id: "list_all (\<lambda>c. \<not> is_upper c) s \<Longrightarrow> ToLower s = s"
  by (induction s) (auto simp: ToLower_def lower_char_id)

lemma ToLower_no_upper: "list_all (\<lambda>c. \<not> is_upper c) (ToLower s)"
  by (induction s) (auto simp: ToLower_def lower_char_not_upper)

lemma HasSuffix_iff: "HasSuffix s t \<longleftrightarrow> (\<exists>p. s = p @ t)"
proof
  assume "HasSuffix s t"
  then have "s = take (length s - length t) s @ t"
    by (metis HasSuffix_def append_take_drop_id)
  then show "\<exists>p. s = p @ t" by blast
qed (auto simp: HasSuffix_def)

lemma HasSuffix_append [simp]: "HasSuffix (p @ t) t"
  by (auto simp: HasSuffix_iff)

lemma HasSuffix_refl [simp]: "HasSuffix t t" "HasSuffix s []"
  by (auto simp: HasSuffix_def)

lemma HasSuffix_trans: "HasSuffix s t \<Longrightarrow> HasSuffix t u \<Longrightarrow> HasSuffix s u"
  by (auto simp: HasSuffix_iff)

lemma HasPrefix_iff: "HasPrefix s p \<longleftrightarrow> (\<exists>t. s = p @ t)"
  by (metis HasPrefix_def append_eq_conv_conj append_take_drop_id)

lemma TrimSuffix_append [simp]: "TrimSuffix (p @ t) t = p"
  by (simp add: TrimSuffix_def)

lemma TrimSuffix_append_char [simp]: "TrimSuffix (p @ [c]) [c] = p"
  by (rule TrimSuffix_append)

lemma HasSuffix_char: "HasSuffix s [c] \<longleftrightarrow> s \<noteq> [] \<and> last s = c"
  by (auto simp: HasSuffix_iff) (metis append_butlast_last_id)

lemma TrimSuffix_no: "\<not> HasSuffix s t \<Longrightarrow> TrimSuffix s t = s"
  by (simp add: TrimSuffix_def)

subsection \<open>Splitting and joining\<close>

lemma split_by_not_Nil [simp]: "split_by P s \<noteq> []"
  by (induction s) (auto split: list.splits)

lemma Split_not_Nil [simp]: "Split s c \<noteq> []"
  by (simp add: Split_def)

lemma split_by_no: "list_all (\<lambda>c. \<not> P c) s \<Longrightarrow> split_by P s = [s]"
  by (induction s) auto

lemma split_by_append:
  "list_all (\<lambda>c. \<not> P c) w \<Longrightarrow> P c \<Longrightarrow> split_by P (w @ c # s) = w # split_by P s"
  by (induction w) auto

lemma split_by_parts: "w \<in> set (split_by P s) \<Longrightarrow> list_all (\<lambda>c. \<not> P c) w"
proof (induction s arbitrary: w)
  case Nil
  then show ?case by simp
next
  case (Cons a s)
  then show ?case by (cases "split_by P s") (auto split: if_splits)
qed

lemma Split_Join:
  "ws \<noteq> [] \<Longrightarrow> list_all (list_all (\<lambda>x. x \<noteq> c)) ws \<Longrightarrow> Split (Join ws [c]) c = ws"
proof (induction ws)
  case Nil
  then show ?case by simp
next
  case (Cons w ws)
  show ?case
  proof (cases ws)
    case Nil
    with Cons.prems show ?thesis by (simp add: Split_def split_by_no)
  next
    case (Cons v vs)
    with Cons.prems Cons.IH show ?thesis
      by (simp add: Split_def split_by_append)
  qed
qed

lemma Join_Cons: "ws \<noteq> [] \<Longrightarrow> Join (w # ws) sep = w @ sep @ Join ws sep"
  by (cases ws) auto

lemma Join_Split: "Join (Split s c) [c] = s"
proof (induction s)
  case Nil
  then show ?case by (simp add: Split_def)
next
  case (Cons a s)
  show ?case
  proof (cases "split_by (\<lambda>x. x = c) s")
    case Nil
    then show ?thesis by simp
  next
    case (Cons w ws)
    with Cons.IH show ?thesis
      by (cases ws) (auto simp: Split_def)
  qed
qed

section \<open>Go maps\<close>

text \<open>
  The interface of a Go map: what a lookup returns after each update, and that every update
  keeps the keys distinct. The components are clients of this interface.
\<close>

locale go_map =
  fixes empty :: "'m"
    and get :: "'m \<Rightarrow> 'k \<Rightarrow> 'v option"
    and put :: "'k \<Rightarrow> 'v \<Rightarrow> 'm \<Rightarrow> 'm"
    and del :: "'k \<Rightarrow> 'm \<Rightarrow> 'm"
    and wf :: "'m \<Rightarrow> bool"
    and size_of :: "'m \<Rightarrow> nat"
  assumes get_empty: "get empty k = None"
    and get_put: "get (put k v m) j = (if j = k then Some v else get m j)"
    and get_del: "get (del k m) j = (if j = k then None else get m j)"
    and wf_empty: "wf empty"
    and wf_put: "wf m \<Longrightarrow> wf (put k v m)"
    and wf_del: "wf m \<Longrightarrow> wf (del k m)"
    and size_empty: "size_of empty = 0"
    and size_put: "wf m \<Longrightarrow> size_of (put k v m) = (if get m k = None then Suc (size_of m) else size_of m)"
    and size_del: "wf m \<Longrightarrow> size_of (del k m) = (if get m k = None then size_of m else size_of m - 1)"
begin

lemma get_put_same: "get (put k v m) k = Some v"
  by (simp add: get_put)

lemma get_put_other: "j \<noteq> k \<Longrightarrow> get (put k v m) j = get m j"
  by (simp add: get_put)

lemma get_del_same: "get (del k m) k = None"
  by (simp add: get_del)

text \<open>A counter kept per key never takes more entries than its ceiling.\<close>

lemma capped_put:
  "wf m \<Longrightarrow> size_of m \<le> cap \<Longrightarrow>
   size_of (if get m k \<noteq> None \<or> size_of m < cap then put k v m else m) \<le> cap"
  by (simp add: size_put)

end

lemma m_get_del [simp]: "m_get (m_del k m) j = (if j = k then None else m_get m j)"
  by (induction m) (auto simp: m_get_def m_del_def)

lemma m_get_put [simp]: "m_get (m_put k v m) j = (if j = k then Some v else m_get m j)"
proof (cases "j = k")
  case True
  then show ?thesis by (simp add: m_put_def m_get_def)
next
  case False
  then have "m_get (m_put k v m) j = m_get (m_del k m) j"
    by (simp add: m_put_def m_get_def)
  with False show ?thesis by simp
qed

lemma m_get_Nil [simp]: "m_get [] k = None"
  by (simp add: m_get_def)

lemma m_wf_Nil [simp]: "m_wf []"
  by (simp add: m_wf_def)

lemma m_del_keys: "map fst (m_del k m) = filter (\<lambda>x. x \<noteq> k) (map fst m)"
  by (induction m) (auto simp: m_del_def)

lemma m_wf_del [simp, intro]: "m_wf m \<Longrightarrow> m_wf (m_del k m)"
  by (simp add: m_wf_def m_del_keys)

lemma m_wf_put [simp, intro]: "m_wf m \<Longrightarrow> m_wf (m_put k v m)"
  by (simp add: m_wf_def m_put_def m_del_keys)

lemma m_get_None_iff: "m_get m k = None \<longleftrightarrow> k \<notin> fst ` set m"
  by (simp add: m_get_def map_of_eq_None_iff)

lemma m_get_Some_in: "m_get m k = Some v \<Longrightarrow> (k, v) \<in> set m"
  by (simp add: m_get_def map_of_SomeD)

lemma m_get_in: "m_wf m \<Longrightarrow> (k, v) \<in> set m \<Longrightarrow> m_get m k = Some v"
  by (simp add: m_get_def m_wf_def)

lemma m_get_iff: "m_wf m \<Longrightarrow> m_get m k = Some v \<longleftrightarrow> (k, v) \<in> set m"
  by (auto intro: m_get_in dest: m_get_Some_in)

lemma length_m_del:
  "m_wf m \<Longrightarrow> length (m_del k m) = (if m_get m k = None then length m else length m - 1)"
proof (induction m)
  case Nil
  then show ?case by (simp add: m_del_def)
next
  case (Cons e m)
  obtain j w where e: "e = (j, w)" by (cases e)
  from Cons.prems e have wf: "m_wf m" and j: "j \<notin> fst ` set m"
    by (auto simp: m_wf_def)
  show ?case
  proof (cases "j = k")
    case True
    with j have "m_del k m = m"
      by (auto simp: m_del_def filter_id_conv)
    with True e show ?thesis by (simp add: m_del_def m_get_def)
  next
    case False
    have "m_get m k \<noteq> None \<Longrightarrow> length m > 0" by (cases m) auto
    with False e Cons.IH [OF wf] show ?thesis
      by (auto simp: m_del_def m_get_def)
  qed
qed

lemma m_get_Some_pos: "m_get m k = Some v \<Longrightarrow> 0 < length m"
  by (cases m) auto

lemma length_m_put:
  "m_wf m \<Longrightarrow> length (m_put k v m) = (if m_get m k = None then Suc (length m) else length m)"
  by (auto simp: m_put_def length_m_del dest: m_get_Some_pos)

interpretation gm: go_map "[] :: ('k, 'v) gomap" m_get m_put m_del m_wf length
  by unfold_locales (auto simp: length_m_put length_m_del)

lemmas gomap_simps = m_get_put m_get_del m_get_Nil
declare gomap_simps [map_simps]


section \<open>Holders of a published snapshot\<close>

text \<open>
  The zone, the blacklist policy and the settings each live behind a holder with the same
  promise: a rebuild pulls its source and builds completely before it publishes, so a rebuild
  that fails leaves what is being served exactly as it was. \<open>build\<close> says what a rebuild
  from this source in this state comes to.
\<close>

locale snapshot_holder =
  fixes rebuild :: "'src \<Rightarrow> 'h \<Rightarrow> 'e option \<times> 'h"
    and current :: "'h \<Rightarrow> 's option"
    and build :: "'src \<Rightarrow> 'h \<Rightarrow> ('e, 's) result"
  assumes rebuild_fails: "build src h = Inl e \<Longrightarrow> fst (rebuild src h) = Some e \<and> current (snd (rebuild src h)) = current h"
    and rebuild_builds: "build src h = Inr s \<Longrightarrow> fst (rebuild src h) = None \<and> current (snd (rebuild src h)) = Some s"
begin

lemma rebuild_error_iff: "fst (rebuild src h) \<noteq> None \<longleftrightarrow> (\<exists>e. build src h = Inl e)"
  by (cases "build src h") (auto dest: rebuild_fails rebuild_builds)

lemma rebuild_keeps: "fst (rebuild src h) \<noteq> None \<Longrightarrow> current (snd (rebuild src h)) = current h"
  using rebuild_error_iff rebuild_fails by metis

lemma still_serving: "current h \<noteq> None \<Longrightarrow> current (snd (rebuild src h)) \<noteq> None"
  by (cases "build src h") (auto dest: rebuild_fails rebuild_builds)

lemma run_still_serving:
  "current h \<noteq> None \<Longrightarrow> current (fold (\<lambda>src h. snd (rebuild src h)) srcs h) \<noteq> None"
  by (induction srcs arbitrary: h) (simp_all add: still_serving del: not_None_eq)

text \<open>After any run of rebuilds, what is served is what the last one that succeeded built.\<close>

lemma run_last_success:
  assumes "current (fold (\<lambda>src h. snd (rebuild src h)) srcs h) \<noteq> current h"
  shows "\<exists>pre src post. srcs = pre @ src # post \<and>
    build src (fold (\<lambda>src h. snd (rebuild src h)) pre h) =
      Inr (the (current (fold (\<lambda>src h. snd (rebuild src h)) srcs h))) \<and>
    current (fold (\<lambda>src h. snd (rebuild src h)) srcs h) \<noteq> None"
  using assms
proof (induction srcs rule: rev_induct)
  case Nil
  then show ?case by simp
next
  case (snoc x xs)
  let ?run = "\<lambda>xs. fold (\<lambda>src h. snd (rebuild src h)) xs h"
  show ?case
  proof (cases "build x (?run xs)")
    case (Inl e)
    then have keep: "current (?run (xs @ [x])) = current (?run xs)" by (simp add: rebuild_fails)
    with snoc obtain pre src post where "xs = pre @ src # post"
      "build src (?run pre) = Inr (the (current (?run xs)))" "current (?run xs) \<noteq> None"
      by auto
    then have "xs @ [x] = pre @ src # (post @ [x])" by simp
    then show ?thesis using keep \<open>build src (?run pre) = _\<close> \<open>current (?run xs) \<noteq> None\<close> by metis
  next
    case (Inr s)
    then have "current (?run (xs @ [x])) = Some s" by (simp add: rebuild_builds)
    then show ?thesis using Inr by (intro exI [of _ xs] exI [of _ x] exI [of _ "[]"]) simp
  qed
qed

end

end
