(* ===== verification/Netip.thy ===== *)
theory Netip
  imports KyPrelude
begin

text \<open>
  The parts of the Go standard packages \<^verbatim>\<open>net/netip\<close> and \<^verbatim>\<open>net\<close> the sources call: IP
  addresses, CIDR prefixes and hardware addresses, with their parsers and printers. Addresses
  keep their machine width: \<open>32 word\<close> for IPv4 and \<open>128 word\<close> for IPv6.
\<close>

unbundle bit_operations_syntax

section \<open>Addresses\<close>

datatype addr = AddrZero | Addr4 "32 word" | Addr6 "128 word" string

definition addr_valid :: "addr \<Rightarrow> bool" where
  "addr_valid a = (a \<noteq> AddrZero)"

fun is4 :: "addr \<Rightarrow> bool" where
  "is4 (Addr4 _) = True"
| "is4 _ = False"

fun is6 :: "addr \<Rightarrow> bool" where
  "is6 (Addr6 _ _) = True"
| "is6 _ = False"

definition in4in6 :: "128 word \<Rightarrow> bool" where
  "in4in6 w = (drop_bit 32 w = 65535)"

fun Unmap :: "addr \<Rightarrow> addr" where
  "Unmap (Addr6 w z) = (if in4in6 w then Addr4 (ucast w) else Addr6 w z)"
| "Unmap a = a"

fun WithZone :: "addr \<Rightarrow> string \<Rightarrow> addr" where
  "WithZone (Addr6 w _) z = Addr6 w z"
| "WithZone a _ = a"

fun IsUnspecified :: "addr \<Rightarrow> bool" where
  "IsUnspecified (Addr4 w) = (w = 0)"
| "IsUnspecified (Addr6 w z) = (w = 0 \<and> z = [])"
| "IsUnspecified AddrZero = False"

text \<open>\<^verbatim>\<open>Addr.Next\<close>: the following address, or the zero \<^verbatim>\<open>Addr\<close> after the last one.\<close>

fun addr_next :: "addr \<Rightarrow> addr" where
  "addr_next (Addr4 w) = (if w + 1 = 0 then AddrZero else Addr4 (w + 1))"
| "addr_next (Addr6 w z) = (if w + 1 = 0 then AddrZero else Addr6 (w + 1) z)"
| "addr_next AddrZero = AddrZero"

fun bit_len :: "addr \<Rightarrow> nat" where
  "bit_len AddrZero = 0"
| "bit_len (Addr4 _) = 32"
| "bit_len (Addr6 _ _) = 128"

text \<open>\<^verbatim>\<open>Addr.Less\<close>: by width, then by value, then by zone.\<close>

fun addr_less :: "addr \<Rightarrow> addr \<Rightarrow> bool" where
  "addr_less (Addr4 v) (Addr4 w) = (v < w)"
| "addr_less (Addr6 v y) (Addr6 w z) = (v < w \<or> (v = w \<and> y < z))"
| "addr_less a b = (bit_len a < bit_len b)"

instantiation addr :: linorder
begin

definition less_addr :: "addr \<Rightarrow> addr \<Rightarrow> bool" where
  "less_addr a b = addr_less a b"

definition less_eq_addr :: "addr \<Rightarrow> addr \<Rightarrow> bool" where
  "less_eq_addr a b = (a = b \<or> addr_less a b)"

instance
proof
  fix x y z :: addr
  show "x < y \<longleftrightarrow> x \<le> y \<and> \<not> y \<le> x"
    by (cases x; cases y) (auto simp: less_addr_def less_eq_addr_def)
  show "x \<le> x" by (simp add: less_eq_addr_def)
  show "x \<le> y \<Longrightarrow> y \<le> z \<Longrightarrow> x \<le> z"
    by (cases x; cases y; cases z) (auto simp: less_eq_addr_def)
  show "x \<le> y \<Longrightarrow> y \<le> x \<Longrightarrow> x = y"
    by (cases x; cases y) (auto simp: less_eq_addr_def)
  show "x \<le> y \<or> y \<le> x"
    by (cases x; cases y) (auto simp: less_eq_addr_def not_less le_less)
qed

end

text \<open>The bytes of an IPv4 address and the 16-bit groups of an IPv6 address, highest first.\<close>

fun digits_of :: "int \<Rightarrow> nat \<Rightarrow> int \<Rightarrow> int list" where
  "digits_of b 0 v = []"
| "digits_of b (Suc n) v = digits_of b n (v div b) @ [v mod b]"

definition octets :: "32 word \<Rightarrow> int list" where
  "octets w = digits_of 256 4 (uint w)"

definition of_octets :: "int list \<Rightarrow> 32 word" where
  "of_octets bs = word_of_int (foldl (\<lambda>a b. a * 256 + b) 0 bs)"

definition groups :: "128 word \<Rightarrow> int list" where
  "groups w = digits_of 65536 8 (uint w)"

definition nibbles :: "128 word \<Rightarrow> int list" where
  "nibbles w = digits_of 16 32 (uint w)"

definition of_groups :: "int list \<Rightarrow> 128 word" where
  "of_groups gs = word_of_int (foldl (\<lambda>a g. a * 65536 + g) 0 gs)"

section \<open>Parsing addresses\<close>

text \<open>One octet: one to three digits without a leading zero, at most 255.\<close>

definition parse_octet :: "string \<Rightarrow> int option" where
  "parse_octet s =
     (if s = [] \<or> \<not> list_all is_digit s then None
      else if length s > 1 \<and> hd s = CHR ''0'' then None
      else if dec_num s > 255 then None else Some (dec_num s))"

fun opt_all :: "'a option list \<Rightarrow> 'a list option" where
  "opt_all [] = Some []"
| "opt_all (None # xs) = None"
| "opt_all (Some x # xs) = map_option ((#) x) (opt_all xs)"

definition parse4_fields :: "string \<Rightarrow> int list option" where
  "parse4_fields s =
     (let ws = Split s CHR ''.''
      in if length ws = 4 then opt_all (map parse_octet ws) else None)"

definition parse4 :: "string \<Rightarrow> addr option" where
  "parse4 s = map_option (\<lambda>bs. Addr4 (of_octets bs)) (parse4_fields s)"

text \<open>
  The loop of \<^verbatim>\<open>parseIPv6\<close>: the groups read so far, the position of the ellipsis if one was
  met, and the text left. At most eight groups are read.
\<close>

function parse6_loop ::
  "int list \<Rightarrow> nat option \<Rightarrow> string \<Rightarrow> (int list \<times> nat option \<times> string) option" where
  "parse6_loop gs ell s =
     (if length gs \<ge> 8 then Some (gs, ell, s)
      else let d = takeWhile is_hex s; r = dropWhile is_hex s
      in if d = [] \<or> length d > 4 then None
         else (case r of
             [] \<Rightarrow> Some (gs @ [hex_num d], ell, [])
           | c # r' \<Rightarrow>
               if c = CHR ''.'' then
                 (if (ell = None \<and> length gs \<noteq> 6) \<or> length gs > 6 then None
                  else (case parse4_fields s of
                      Some [a, b, e, f] \<Rightarrow> Some (gs @ [a * 256 + b, e * 256 + f], ell, [])
                    | _ \<Rightarrow> None))
               else if c \<noteq> CHR '':'' \<or> r' = [] then None
               else if hd r' = CHR '':'' then
                 (if ell \<noteq> None then None
                  else if tl r' = [] then Some (gs @ [hex_num d], Some (length gs + 1), [])
                  else parse6_loop (gs @ [hex_num d]) (Some (length gs + 1)) (tl r'))
               else parse6_loop (gs @ [hex_num d]) ell r'))"
  by pat_completeness auto
termination
  by (relation "measure (\<lambda>(gs, ell, s). 8 - length gs)") auto

declare parse6_loop.simps [simp del]

definition parse6_groups :: "string \<Rightarrow> int list option" where
  "parse6_groups s =
     (let start = (if HasPrefix s ''::'' then Some 0 else None);
          s' = (if HasPrefix s ''::'' then drop 2 s else s)
      in if start = Some 0 \<and> s' = [] then Some (replicate 8 0)
         else (case parse6_loop [] start s' of
             None \<Rightarrow> None
           | Some (gs, ell, rest) \<Rightarrow>
               if rest \<noteq> [] then None
               else if length gs < 8 then
                 (case ell of None \<Rightarrow> None
                  | Some e \<Rightarrow> Some (take e gs @ replicate (8 - length gs) 0 @ drop e gs))
               else if ell \<noteq> None then None else Some gs))"

definition parse6 :: "string \<Rightarrow> addr option" where
  "parse6 s =
     (let body = takeWhile (\<lambda>c. c \<noteq> CHR ''%'') s;
          rest = dropWhile (\<lambda>c. c \<noteq> CHR ''%'') s
      in if rest \<noteq> [] \<and> tl rest = [] then None
         else map_option (\<lambda>gs. Addr6 (of_groups gs) (tl rest)) (parse6_groups body))"

definition ParseAddr :: "string \<Rightarrow> addr option" where
  "ParseAddr s =
     (case dropWhile (\<lambda>c. c \<notin> set ''.:%'') s of
        [] \<Rightarrow> None
      | c # _ \<Rightarrow> if c = CHR ''.'' then parse4 s else if c = CHR '':'' then parse6 s else None)"

section \<open>Host and port\<close>

text \<open>\<^verbatim>\<open>net.SplitHostPort\<close>: the port follows the last colon; a host with colons is in brackets.\<close>

definition SplitHostPort :: "string \<Rightarrow> (string \<times> string) option" where
  "SplitHostPort s =
     (if CHR '':'' \<notin> set s then None
      else let port = rev (takeWhile (\<lambda>c. c \<noteq> CHR '':'') (rev s));
               before = take (length s - length port - 1) s
      in if hd s = CHR ''['' then
           (let host = takeWhile (\<lambda>c. c \<noteq> CHR '']'') (tl s)
            in if before \<noteq> CHR ''['' # host @ '']'' then None
               else if CHR ''['' \<in> set (tl s) \<or> CHR '']'' \<in> set port then None
               else Some (host, port))
         else if CHR '':'' \<in> set before \<or> CHR ''['' \<in> set s \<or> CHR '']'' \<in> set s then None
         else Some (before, port))"

section \<open>Printing addresses\<close>

definition show4 :: "32 word \<Rightarrow> string" where
  "show4 w = Join (map show_dec (octets w)) ''.''"

definition zero_run :: "int list \<Rightarrow> nat \<Rightarrow> nat" where
  "zero_run gs i = length (takeWhile (\<lambda>g. g = 0) (drop i gs))"

fun best_run :: "int list \<Rightarrow> nat list \<Rightarrow> nat \<times> nat \<Rightarrow> nat \<times> nat" where
  "best_run gs [] best = best"
| "best_run gs (i # is) (st, len) =
     best_run gs is (if zero_run gs i \<ge> 2 \<and> zero_run gs i > len then (i, zero_run gs i) else (st, len))"

definition show6 :: "128 word \<Rightarrow> string" where
  "show6 w =
     (if in4in6 w then ''::ffff:'' @ show4 (ucast w)
      else let gs = groups w; (st, len) = best_run gs [0..<8] (0, 0)
      in if len = 0 then Join (map show_hex gs) '':''
         else Join (map show_hex (take st gs)) '':'' @ ''::'' @ Join (map show_hex (drop (st + len) gs)) '':'')"

fun show_addr :: "addr \<Rightarrow> string" where
  "show_addr AddrZero = ''invalid IP''"
| "show_addr (Addr4 w) = show4 w"
| "show_addr (Addr6 w z) = show6 w @ (if z = [] then [] else ''%'' @ z)"

section \<open>Prefixes\<close>

datatype netprefix = Prefix (paddr: addr) (pbits: nat)

fun prefix_valid :: "netprefix \<Rightarrow> bool" where
  "prefix_valid (Prefix (Addr4 _) b) = (b \<le> 32)"
| "prefix_valid (Prefix (Addr6 _ z) b) = (z = [] \<and> b \<le> 128)"
| "prefix_valid _ = False"

fun Masked :: "netprefix \<Rightarrow> netprefix" where
  "Masked (Prefix (Addr4 w) b) = Prefix (Addr4 (w AND NOT (mask (32 - b)))) b"
| "Masked (Prefix (Addr6 w z) b) = Prefix (Addr6 (w AND NOT (mask (128 - b))) z) b"
| "Masked p = p"

text \<open>
  \<^verbatim>\<open>Prefix.Contains\<close>: never true for an invalid prefix, an address with a zone, or an address
  of the other family; otherwise the leading bits agree.
\<close>

fun Contains :: "netprefix \<Rightarrow> addr \<Rightarrow> bool" where
  "Contains (Prefix (Addr4 p) b) (Addr4 x) = (b \<le> 32 \<and> drop_bit (32 - b) (x XOR p) = 0)"
| "Contains (Prefix (Addr6 p y) b) (Addr6 x z) =
     (y = [] \<and> b \<le> 128 \<and> z = [] \<and> drop_bit (128 - b) (x XOR p) = 0)"
| "Contains _ _ = False"

definition ParsePrefix :: "string \<Rightarrow> netprefix option" where
  "ParsePrefix s =
     (if CHR ''/'' \<notin> set s then None
      else let bs = rev (takeWhile (\<lambda>c. c \<noteq> CHR ''/'') (rev s));
               as = take (length s - length bs - 1) s
      in case ParseAddr as of
           None \<Rightarrow> None
         | Some a \<Rightarrow>
             if (case a of Addr6 _ z \<Rightarrow> z \<noteq> [] | _ \<Rightarrow> False) then None
             else if bs = [] \<or> \<not> list_all is_digit bs then None
             else if length bs > 1 \<and> hd bs = CHR ''0'' then None
             else if dec_num bs > int (bit_len a) then None
             else Some (Prefix a (nat (dec_num bs))))"

definition show_prefix :: "netprefix \<Rightarrow> string" where
  "show_prefix p = show_addr (paddr p) @ ''/'' @ show_dec (int (pbits p))"

section \<open>Hardware addresses\<close>

text \<open>
  \<^verbatim>\<open>net.ParseMAC\<close>: pairs separated by colons or dashes, quadruples separated by dots, or, as
  the toolchain this module requires accepts, no separator at all.
\<close>

definition xtoi2 :: "string \<Rightarrow> int option" where
  "xtoi2 s = (if length s = 2 \<and> list_all is_hex s then Some (hex_num s) else None)"

definition mac_len_ok :: "nat \<Rightarrow> bool" where
  "mac_len_ok n = (n = 6 \<or> n = 8 \<or> n = 20)"

fun pairs_of :: "string \<Rightarrow> string list" where
  "pairs_of (a # b # s) = [a, b] # pairs_of s"
| "pairs_of [a] = [[a]]"
| "pairs_of [] = []"

definition ParseMAC :: "string \<Rightarrow> int list option" where
  "ParseMAC s =
     (if length s < 12 then None
      else if s ! 2 = CHR '':'' \<or> s ! 2 = CHR ''-'' then
        (let ws = Split s (s ! 2)
         in if mac_len_ok (length ws) then opt_all (map xtoi2 ws) else None)
      else if s ! 4 = CHR ''.'' then
        (let ws = Split s CHR ''.''
         in if mac_len_ok (2 * length ws) \<and> list_all (\<lambda>w. length w = 4) ws
            then opt_all (map xtoi2 (concat (map pairs_of ws))) else None)
      else (let ws = pairs_of s
         in if mac_len_ok (length ws) then opt_all (map xtoi2 ws) else None))"

definition show_mac :: "int list \<Rightarrow> string" where
  "show_mac hw = Join (map (\<lambda>b. [hex_char (b div 16), hex_char (b mod 16)]) hw) '':''"


section \<open>Lemmas on digits\<close>

lemma length_digits_of [simp]: "length (digits_of b n v) = n"
  by (induction n arbitrary: v) auto

lemma digits_of_range: "0 < b \<Longrightarrow> d \<in> set (digits_of b n v) \<Longrightarrow> 0 \<le> d \<and> d < b"
  by (induction n arbitrary: v) auto

lemma foldl_digits_of:
  "0 < b \<Longrightarrow> foldl (\<lambda>a d. a * b + d) 0 (digits_of b n v) = v mod b ^ n"
proof (induction n arbitrary: v)
  case 0
  then show ?case by simp
next
  case (Suc n)
  then have "foldl (\<lambda>a d. a * b + d) 0 (digits_of b (Suc n) v) = (v div b) mod b ^ n * b + v mod b"
    by simp
  also have "\<dots> = v mod (b * b ^ n)"
    using Suc.prems by (simp add: zmod_zmult2_eq)
  finally show ?case by simp
qed

lemma of_octets_octets: "of_octets (octets w) = w"
proof -
  have "uint w < 2 ^ 32" using uint_lt2p [of w] by simp
  then have "uint w mod 256 ^ 4 = uint w" by simp
  then show ?thesis by (simp add: of_octets_def octets_def foldl_digits_of del: digits_of.simps)
qed

lemma of_groups_groups: "of_groups (groups w) = w"
proof -
  have "foldl (\<lambda>a g. a * 65536 + g) 0 (groups w) = uint w mod 65536 ^ 8"
    unfolding groups_def by (rule foldl_digits_of) simp
  also have "\<dots> = uint w" using uint_bounded [of w] by simp
  finally show ?thesis by (simp add: of_groups_def)
qed

lemma octets_range: "b \<in> set (octets w) \<Longrightarrow> 0 \<le> b \<and> b < 256"
  unfolding octets_def by (rule digits_of_range) auto

lemma length_octets [simp]: "length (octets w) = 4"
  unfolding octets_def by (rule length_digits_of)

section \<open>Lemmas on prefixes\<close>

lemma xor_0_iff: "(x :: 'a :: len word) XOR y = 0 \<longleftrightarrow> x = y"
  by (metis bit.xor_left_self bit.xor_self xor.right_neutral)

lemma drop_bit_masked: "drop_bit n (w :: 'a :: len word) AND drop_bit n (NOT (mask n)) = drop_bit n w"
  by (rule bit_word_eqI) (auto simp: bit_simps dest: bit_imp_le_length)

lemma Contains4 [simp]:
  "Contains (Prefix (Addr4 p) b) (Addr4 x) \<longleftrightarrow> b \<le> 32 \<and> drop_bit (32 - b) x = drop_bit (32 - b) p"
  by (simp add: drop_bit_xor xor_0_iff)

lemma Contains6 [simp]:
  "Contains (Prefix (Addr6 p y) b) (Addr6 x z) \<longleftrightarrow>
     y = [] \<and> b \<le> 128 \<and> z = [] \<and> drop_bit (128 - b) x = drop_bit (128 - b) p"
  by (simp add: drop_bit_xor xor_0_iff)

declare Contains.simps(1,2) [simp del]

lemma Contains_Masked [simp]: "Contains (Masked p) a = Contains p a"
  by (cases "(p, a)" rule: Contains.cases) (auto simp: drop_bit_masked)

lemma Masked_idem [simp]: "Masked (Masked p) = Masked p"
  by (cases p rule: Masked.cases) (simp_all add: and.assoc)

lemma Masked_bits [simp]: "pbits (Masked p) = pbits p"
  by (cases p rule: Masked.cases) simp_all

lemma Masked_valid [simp]: "prefix_valid (Masked p) = prefix_valid p"
  by (cases p rule: Masked.cases) simp_all

lemma Contains_network: "prefix_valid p \<Longrightarrow> Contains p (paddr (Masked p))"
  by (cases p rule: Masked.cases) (auto simp: drop_bit_masked)

lemma Contains_is4: "Contains p (Addr4 x) \<Longrightarrow> is4 (paddr p)"
  by (cases "(p, Addr4 x)" rule: Contains.cases) auto

lemma Contains_valid_addr: "Contains p a \<Longrightarrow> prefix_valid p \<and> a \<noteq> AddrZero"
  by (cases "(p, a)" rule: Contains.cases) auto

text \<open>Prefixes that share an address are nested: the one with more bits is inside the other.\<close>

lemma drop_bit_mono_eq:
  "m \<le> n \<Longrightarrow> drop_bit m (x :: 'a :: len word) = drop_bit m y \<Longrightarrow> drop_bit n x = drop_bit n y"
proof -
  assume le: "m \<le> n" and eq: "drop_bit m x = drop_bit m y"
  have "drop_bit n z = drop_bit (n - m) (drop_bit m z)" for z :: "'a word"
    using le by (simp add: drop_bit_drop_bit)
  from this [of x] this [of y] eq show ?thesis by (simp only:)
qed

lemma Contains_Addr4E:
  assumes "Contains p (Addr4 x)"
  obtains u where "p = Prefix (Addr4 u) (pbits p)" and "pbits p \<le> 32"
    and "drop_bit (32 - pbits p) x = drop_bit (32 - pbits p) u"
  using assms by (cases "(p, Addr4 x)" rule: Contains.cases) auto

lemma Contains_Addr6E:
  assumes "Contains p (Addr6 x z)"
  obtains u where "p = Prefix (Addr6 u []) (pbits p)" and "pbits p \<le> 128" and "z = []"
    and "drop_bit (128 - pbits p) x = drop_bit (128 - pbits p) u"
  using assms by (cases "(p, Addr6 x z)" rule: Contains.cases) auto

lemma Contains_Prefix4:
  "Contains (Prefix (Addr4 u) n) b \<longleftrightarrow>
     n \<le> 32 \<and> (\<exists>y. b = Addr4 y \<and> drop_bit (32 - n) y = drop_bit (32 - n) u)"
  by (cases b) auto

lemma Contains_Prefix6:
  "Contains (Prefix (Addr6 u []) n) b \<longleftrightarrow>
     n \<le> 128 \<and> (\<exists>y. b = Addr6 y [] \<and> drop_bit (128 - n) y = drop_bit (128 - n) u)"
  by (cases b) auto

lemma Contains_nested:
  assumes "Contains p a" and "Contains q a" and le: "pbits q \<le> pbits p" and "Contains p b"
  shows "Contains q b"
proof (cases a)
  case AddrZero
  with assms(1) Contains_valid_addr show ?thesis by blast
next
  case (Addr4 x)
  obtain u where p: "p = Prefix (Addr4 u) (pbits p)" "drop_bit (32 - pbits p) x = drop_bit (32 - pbits p) u"
    using Contains_Addr4E assms(1) Addr4 by metis
  obtain v where q: "q = Prefix (Addr4 v) (pbits q)" "pbits q \<le> 32"
    "drop_bit (32 - pbits q) x = drop_bit (32 - pbits q) v"
    using Contains_Addr4E assms(2) Addr4 by metis
  obtain y where y: "b = Addr4 y" "drop_bit (32 - pbits p) y = drop_bit (32 - pbits p) u"
    using assms(4) p(1) Contains_Prefix4 by metis
  have "drop_bit (32 - pbits q) y = drop_bit (32 - pbits q) x"
    by (rule drop_bit_mono_eq [of "32 - pbits p"]) (use y(2) p(2) le in auto)
  then show ?thesis using q y(1) Contains_Prefix4 by metis
next
  case (Addr6 x z)
  obtain u where p: "p = Prefix (Addr6 u []) (pbits p)" "drop_bit (128 - pbits p) x = drop_bit (128 - pbits p) u"
    using Contains_Addr6E assms(1) Addr6 by metis
  obtain v where q: "q = Prefix (Addr6 v []) (pbits q)" "pbits q \<le> 128"
    "drop_bit (128 - pbits q) x = drop_bit (128 - pbits q) v"
    using Contains_Addr6E assms(2) Addr6 by metis
  obtain y where y: "b = Addr6 y []" "drop_bit (128 - pbits p) y = drop_bit (128 - pbits p) u"
    using assms(4) p(1) Contains_Prefix6 by metis
  have "drop_bit (128 - pbits q) y = drop_bit (128 - pbits q) x"
    by (rule drop_bit_mono_eq [of "128 - pbits p"]) (use y(2) p(2) le in auto)
  then show ?thesis using q y(1) Contains_Prefix6 by metis
qed

section \<open>Parsing what was printed\<close>

lemma parse_octet_show: "0 \<le> n \<Longrightarrow> n < 256 \<Longrightarrow> parse_octet (show_dec n) = Some n"
proof -
  assume n: "0 \<le> n" "n < 256"
  have "hd (show_dec n) = CHR ''0'' \<Longrightarrow> length (show_dec n) = 1"
    using n hd_show_dec [of n] by (cases "n = 0") (auto simp: show_dec.simps [of 0])
  with n show ?thesis
    by (auto simp: parse_octet_def show_dec_digits dec_num_show_dec)
qed

lemma opt_all_map: "(\<And>x. x \<in> set xs \<Longrightarrow> f x = Some (g x)) \<Longrightarrow> opt_all (map f xs) = Some (map g xs)"
  by (induction xs) auto

lemma show_dec_no_dot: "0 \<le> n \<Longrightarrow> list_all (\<lambda>c. c \<noteq> CHR ''.'') (show_dec n)"
  using show_dec_digits [of n] by (auto simp: list_all_iff dest!: is_digit_hex is_hex_neq)

lemma parse4_fields_show:
  assumes "length bs = 4" and "\<And>b. b \<in> set bs \<Longrightarrow> 0 \<le> b \<and> b < 256"
  shows "parse4_fields (Join (map show_dec bs) ''.'') = Some bs"
proof -
  have "Split (Join (map show_dec bs) ''.'') CHR ''.'' = map show_dec bs"
    using assms show_dec_no_dot by (intro Split_Join) (auto simp: list_all_iff)
  moreover have "opt_all (map parse_octet (map show_dec bs)) = Some (map id bs)"
    unfolding map_map by (rule opt_all_map) (auto simp: parse_octet_show assms)
  ultimately show ?thesis using assms by (simp add: parse4_fields_def)
qed

lemma dropWhile_none: "list_all P s \<Longrightarrow> dropWhile P (s @ t) = dropWhile P t"
  by (induction s) auto

lemma takeWhile_none: "list_all P s \<Longrightarrow> takeWhile P (s @ t) = s @ takeWhile P t"
  by (induction s) auto

lemma ParseAddr_dotted:
  assumes "list_all is_digit w"
  shows "ParseAddr (w @ ''.'' @ t) = parse4 (w @ ''.'' @ t)"
proof -
  have "list_all (\<lambda>c. c \<notin> set ''.:%'') w"
    using assms by (auto simp: list_all_iff dest!: is_digit_hex is_hex_neq)
  from dropWhile_none [OF this] show ?thesis by (simp add: ParseAddr_def)
qed

lemma ParseAddr_fields:
  assumes "length bs = 4" and "\<And>b. b \<in> set bs \<Longrightarrow> 0 \<le> b \<and> b < 256"
  shows "ParseAddr (Join (map show_dec bs) ''.'') = Some (Addr4 (of_octets bs))"
proof -
  from assms(1) obtain x y zs where bs: "bs = x # y # zs"
    by (cases bs; cases "tl bs") auto
  have "list_all is_digit (show_dec x)" using assms(2) bs by (simp add: show_dec_digits)
  from ParseAddr_dotted [OF this] bs have "ParseAddr (Join (map show_dec bs) ''.'') = parse4 (Join (map show_dec bs) ''.'')"
    by simp
  then show ?thesis using parse4_fields_show [OF assms] by (simp add: parse4_def)
qed

lemma parse_show4: "ParseAddr (show4 w) = Some (Addr4 w)"
  using ParseAddr_fields [of "octets w"] octets_range [of _ w]
  by (simp add: show4_def of_octets_octets)

subsection \<open>Eight groups of four hexadecimal digits\<close>

lemma parse6_loop_full:
  assumes "length gs + length ws = 8" and "ws \<noteq> []"
    and "\<And>w. w \<in> set ws \<Longrightarrow> length w = 4 \<and> list_all is_hex w"
  shows "parse6_loop gs None (Join ws '':'') = Some (gs @ map hex_num ws, None, [])"
  using assms
proof (induction ws arbitrary: gs)
  case Nil
  then show ?case by simp
next
  case (Cons w ws)
  then have w: "length w = 4" "list_all is_hex w" by auto
  then have "w \<noteq> []" by auto
  note w = w this
  have len: "\<not> length gs \<ge> 8" using Cons.prems(1) by simp
  have colon: "\<not> is_hex CHR '':''" using is_hex_neq by blast
  show ?case
  proof (cases ws)
    case Nil
    have tw: "takeWhile is_hex w = w" "dropWhile is_hex w = []"
      using w by (simp_all add: takeWhile_eq_all_conv dropWhile_eq_Nil_conv list_all_iff)
    from Nil len w show ?thesis by (simp add: parse6_loop.simps [of gs] Let_def tw)
  next
    case (Cons v vs)
    have tw: "takeWhile is_hex (w @ CHR '':'' # t) = w"
      "dropWhile is_hex (w @ CHR '':'' # t) = CHR '':'' # t" for t
      using w colon by (simp_all add: takeWhile_none dropWhile_none)
    have v: "length v = 4" "list_all is_hex v" using Cons.prems(3) Cons by auto
    then obtain c cs where vc: "v = c # cs" "is_hex c" by (cases v) auto
    have c: "c \<noteq> CHR '':''" using vc is_hex_neq by blast
    obtain r where r: "Join ws '':'' = c # r" using Cons vc by (cases vs) auto
    have IH: "parse6_loop (gs @ [hex_num w]) None (Join ws '':'') =
      Some ((gs @ [hex_num w]) @ map hex_num ws, None, [])"
      by (rule Cons.IH) (use Cons.prems Cons in auto)
    have "Join (w # ws) '':'' = w @ '':'' @ Join ws '':''" using Cons by simp
    then have "parse6_loop gs None (Join (w # ws) '':'') = parse6_loop (gs @ [hex_num w]) None (Join ws '':'')"
      using len w r c by (simp add: parse6_loop.simps [of gs] Let_def tw)
    with IH show ?thesis by simp
  qed
qed

lemma ParseAddr_groups:
  assumes "length ws = 8" and "\<And>w. w \<in> set ws \<Longrightarrow> length w = 4 \<and> list_all is_hex w"
  shows "ParseAddr (Join ws '':'') = Some (Addr6 (of_groups (map hex_num ws)) [])"
proof -
  obtain v u vs where ws: "ws = v # u # vs" using assms(1)
    by (cases ws; cases "tl ws") auto
  let ?s = "Join ws '':''"
  have v: "list_all is_hex v" "length v = 4" using assms ws by auto
  have s: "?s = v @ '':'' @ Join (u # vs) '':''" using ws by simp
  have nohex: "list_all (\<lambda>c. c \<notin> set ''.:%'') v"
    using v by (auto simp: list_all_iff dest: is_hex_neq)
  have chars: "set (Join us '':'') \<subseteq> (\<Union> (set ` set us)) \<union> {CHR '':''}" for us
    by (induction us "'':''" rule: Join.induct) auto
  have nopct: "list_all (\<lambda>c. c \<noteq> CHR ''%'') ?s"
    using chars [of ws] assms(2) by (fastforce simp: list_all_iff dest: is_hex_neq)
  have body: "takeWhile (\<lambda>c. c \<noteq> CHR ''%'') ?s = ?s" "dropWhile (\<lambda>c. c \<noteq> CHR ''%'') ?s = []"
    using nopct by (simp_all add: list_all_iff)
  obtain c cs where vc: "v = c # cs" "is_hex c" using v by (cases v) auto
  have np: "\<not> HasPrefix ?s ''::''"
    using s vc is_hex_neq [of c] by (auto simp: HasPrefix_iff)
  have "parse6_loop [] None ?s = Some (map hex_num ws, None, [])"
    using parse6_loop_full [of "[]" ws] assms ws by simp
  then have "parse6_groups ?s = Some (map hex_num ws)"
    using np assms(1) by (simp add: parse6_groups_def)
  then have "parse6 ?s = Some (Addr6 (of_groups (map hex_num ws)) [])"
    by (simp add: parse6_def body)
  moreover have "ParseAddr ?s = parse6 ?s"
    unfolding ParseAddr_def using dropWhile_none [OF nohex] s by simp
  ultimately show ?thesis by simp
qed

end
