(* ===== verification/DhcpAlloc.thy ===== *)
theory DhcpAlloc
  imports Netip
begin

text \<open>
  The address allocator of the built-in DHCP server, \<^verbatim>\<open>internal/dhcpd/alloc.go\<close>. The clock is an
  argument of each operation (\<^verbatim>\<open>a.now()\<close>, in nanoseconds), the mutex makes each operation one
  step, and the maps are Go maps. A missing key reads as the zero value where the code
  indexes a map without asking whether the key is there.
\<close>

section \<open>State\<close>

definition quarantineFor :: int where
  "quarantineFor = 10 * 60 * 1000000000"

record lease =
  l_MAC :: string
  l_IP :: addr
  l_Hostname :: string
  l_Expires :: int

record config =
  Subnet :: netprefix
  Start :: addr
  End :: addr
  Host :: addr
  Gateway :: addr
  LeaseTime :: int

record allocator =
  cfg :: config
  byMAC :: "(string, lease) gomap"
  byIP :: "(addr, string) gomap"
  reserved :: "(string, addr) gomap"
  reservedIP :: "(addr, string) gomap"
  quarantine :: "(addr, int) gomap"

definition NewAllocator :: "config \<Rightarrow> allocator" where
  "NewAllocator c =
     \<lparr>cfg = c, byMAC = [], byIP = [], reserved = [], reservedIP = [], quarantine = []\<rparr>"

definition Load :: "lease list \<Rightarrow> allocator \<Rightarrow> allocator" where
  "Load ls a =
     fold (\<lambda>l a. a\<lparr>byMAC := m_put (l_MAC l) l (byMAC a), byIP := m_put (l_IP l) (l_MAC l) (byIP a)\<rparr>)
       ls (a\<lparr>byMAC := [], byIP := []\<rparr>)"

definition SetReservations :: "(string, addr) gomap \<Rightarrow> allocator \<Rightarrow> allocator" where
  "SetReservations r a =
     fold (\<lambda>(mac, ip) a. a\<lparr>reserved := m_put mac ip (reserved a), reservedIP := m_put ip mac (reservedIP a)\<rparr>)
       r (a\<lparr>reserved := [], reservedIP := []\<rparr>)"

section \<open>Tests on an address\<close>

definition u32 :: "addr \<Rightarrow> 32 word" where
  "u32 a = (case a of Addr4 w \<Rightarrow> w | _ \<Rightarrow> 0)"

definition inRange :: "config \<Rightarrow> addr \<Rightarrow> bool" where
  "inRange c ip =
     (if \<not> is4 ip \<or> \<not> is4 (Start c) \<or> \<not> is4 (End c) then False
      else u32 (Start c) \<le> u32 ip \<and> u32 ip \<le> u32 (End c))"

definition protected :: "config \<Rightarrow> addr \<Rightarrow> bool" where
  "protected c ip = (ip = Host c \<or> ip = Gateway c)"

definition usable :: "config \<Rightarrow> addr \<Rightarrow> bool" where
  "usable c ip = (inRange c ip \<and> \<not> protected c ip)"

definition heldByAnotherLocked :: "allocator \<Rightarrow> addr \<Rightarrow> string \<Rightarrow> int \<Rightarrow> bool" where
  "heldByAnotherLocked a ip mac now =
     (case m_get (byIP a) ip of
        None \<Rightarrow> False
      | Some holder \<Rightarrow>
          if holder = mac then False
          else (case m_get (byMAC a) holder of None \<Rightarrow> False | Some l \<Rightarrow> now < l_Expires l))"

definition free :: "allocator \<Rightarrow> addr \<Rightarrow> string \<Rightarrow> int \<Rightarrow> bool" where
  "free a ip mac now =
     (if \<not> usable (cfg a) ip then False
      else if (case m_get (quarantine a) ip of None \<Rightarrow> False | Some until \<Rightarrow> now < until) then False
      else if (case m_get (reservedIP a) ip of None \<Rightarrow> False | Some holder \<Rightarrow> holder \<noteq> mac) then False
      else \<not> heldByAnotherLocked a ip mac now)"

definition nameTakenLocked :: "allocator \<Rightarrow> string \<Rightarrow> string \<Rightarrow> int \<Rightarrow> bool" where
  "nameTakenLocked a hostname mac now =
     (if hostname = [] then False
      else list_ex (\<lambda>(_, l). l_MAC l \<noteq> mac \<and> l_Hostname l = hostname \<and> now < l_Expires l) (byMAC a))"

section \<open>Allocation\<close>

text \<open>The scan of rule 4, from an address up to the end of the range.\<close>

function lowest_free :: "allocator \<Rightarrow> string \<Rightarrow> int \<Rightarrow> addr \<Rightarrow> addr option" where
  "lowest_free a mac now ip =
     (if inRange (cfg a) ip then
        (if free a ip mac now then Some ip else lowest_free a mac now (addr_next ip))
      else None)"
  by pat_completeness auto
termination
proof (relation "measure (\<lambda>(a, mac, now, ip). case ip of Addr4 w \<Rightarrow> 2 ^ 32 - unat w | _ \<Rightarrow> 0)", goal_cases)
  case 1
  show ?case by simp
next
  case (2 a mac now ip)
  from 2(1) obtain w where w: "ip = Addr4 w" by (cases ip) (auto simp: inRange_def)
  have "unat w < 2 ^ LENGTH(32)" by (rule unsigned_less)
  then have lt: "unat w < 2 ^ 32" by simp
  show ?case
  proof (cases "w + 1 = 0")
    case True
    with w lt show ?thesis by simp
  next
    case False
    then have "unat (w + 1) = Suc (unat w)" using unatSuc [of w] by (simp add: add.commute)
    with False w lt show ?thesis by simp
  qed
qed

declare lowest_free.simps [simp del]

definition commit ::
  "allocator \<Rightarrow> string \<Rightarrow> string \<Rightarrow> int \<Rightarrow> int \<Rightarrow> bool \<Rightarrow> addr \<Rightarrow> bool
   \<Rightarrow> (lease \<times> bool) option \<times> allocator" where
  "commit a mac hostname now ttl tentative ip fresh =
     (let prev = m_get (byMAC a) mac;
          held = (case prev of None \<Rightarrow> False | Some p \<Rightarrow> now < l_Expires p);
          macs = (case m_get (byIP a) ip of
                    Some holder \<Rightarrow> if holder \<noteq> mac then m_del holder (byMAC a) else byMAC a
                  | None \<Rightarrow> byMAC a);
          ips = (case prev of
                   Some p \<Rightarrow> if l_IP p \<noteq> ip then m_del (l_IP p) (byIP a) else byIP a
                 | None \<Rightarrow> byIP a);
          l0 = \<lparr>l_MAC = mac, l_IP = ip, l_Hostname = hostname, l_Expires = now + ttl\<rparr>;
          l = (case prev of
                 Some p \<Rightarrow>
                   if tentative \<and> held \<and> l_IP p = ip
                   then l0\<lparr>l_Hostname := l_Hostname p,
                           l_Expires := (if l_Expires l0 < l_Expires p then l_Expires p else l_Expires l0)\<rparr>
                   else l0
               | None \<Rightarrow> l0)
      in (Some (l, fresh), a\<lparr>byMAC := m_put mac l macs, byIP := m_put ip mac ips\<rparr>))"

text \<open>
  The four rules of \<open>allocate\<close>, from the last: a requested address that is free, else the
  lowest free one; before that the renewal of what the client holds, and for a tentative hold
  the lease it is still using; before that its reservation. The result is the lease and whether
  the address is new to the client, or \<open>None\<close>.
\<close>

definition rule34 ::
  "allocator \<Rightarrow> int \<Rightarrow> string \<Rightarrow> string \<Rightarrow> addr \<Rightarrow> int \<Rightarrow> bool \<Rightarrow> (lease \<times> bool) option \<times> allocator" where
  "rule34 a now mac hostname requested ttl tentative =
     (if addr_valid requested \<and> free a requested mac now
      then commit a mac hostname now ttl tentative requested True
      else (case lowest_free a mac now (Start (cfg a)) of
          Some ip \<Rightarrow> commit a mac hostname now ttl tentative ip True
        | None \<Rightarrow> (None, a)))"

definition not_reserved :: "allocator \<Rightarrow> addr \<Rightarrow> bool" where
  "not_reserved a ip = (m_get (reservedIP a) ip = None \<or> m_get (reservedIP a) ip = Some [])"

definition rule2 ::
  "allocator \<Rightarrow> int \<Rightarrow> string \<Rightarrow> string \<Rightarrow> addr \<Rightarrow> int \<Rightarrow> bool \<Rightarrow> (lease \<times> bool) option \<times> allocator" where
  "rule2 a now mac hostname requested ttl tentative =
     (case m_get (byMAC a) mac of
        Some l \<Rightarrow>
          if usable (cfg a) (l_IP l) \<and> not_reserved a (l_IP l)
          then commit a mac hostname now ttl tentative (l_IP l) (\<not> now < l_Expires l)
          else if tentative \<and> now < l_Expires l \<and> \<not> protected (cfg a) (l_IP l) then (Some (l, False), a)
          else rule34 a now mac hostname requested ttl tentative
      | None \<Rightarrow> rule34 a now mac hostname requested ttl tentative)"

definition prev_lease :: "allocator \<Rightarrow> string \<Rightarrow> int \<Rightarrow> lease option" where
  "prev_lease a mac now =
     (case m_get (byMAC a) mac of Some p \<Rightarrow> if now < l_Expires p then Some p else None | None \<Rightarrow> None)"

definition allocate ::
  "allocator \<Rightarrow> int \<Rightarrow> string \<Rightarrow> string \<Rightarrow> addr \<Rightarrow> int \<Rightarrow> bool \<Rightarrow> (lease \<times> bool) option \<times> allocator" where
  "allocate a now mac hostname0 requested ttl tentative =
     (let hostname = (if nameTakenLocked a hostname0 mac now then [] else hostname0);
          rest = rule2 a now mac hostname requested ttl tentative
      in case m_get (reserved a) mac of
           Some ip \<Rightarrow>
             if protected (cfg a) ip then rest
             else if \<not> tentative then commit a mac hostname now ttl tentative ip False
             else if heldByAnotherLocked a ip mac now then rest
             else (case prev_lease a mac now of
                 Some p \<Rightarrow>
                   if l_IP p \<noteq> ip
                   then (Some (\<lparr>l_MAC = mac, l_IP = ip, l_Hostname = [], l_Expires = now + ttl\<rparr>, False), a)
                   else commit a mac hostname now ttl tentative ip False
               | None \<Rightarrow> commit a mac hostname now ttl tentative ip False)
         | None \<Rightarrow> rest)"

definition Allocate ::
  "allocator \<Rightarrow> int \<Rightarrow> string \<Rightarrow> string \<Rightarrow> addr \<Rightarrow> int \<Rightarrow> lease option \<times> allocator" where
  "Allocate a now mac hostname requested ttl =
     (let (r, a') = allocate a now mac hostname requested ttl False in (map_option fst r, a'))"

definition Offer ::
  "allocator \<Rightarrow> int \<Rightarrow> string \<Rightarrow> addr \<Rightarrow> int \<Rightarrow> (lease \<times> bool) option \<times> allocator" where
  "Offer a now mac requested hold = allocate a now mac [] requested hold True"

section \<open>Release, decline, quarantine, leases\<close>

definition Release :: "allocator \<Rightarrow> string \<Rightarrow> addr \<Rightarrow> bool \<times> allocator" where
  "Release a mac ip =
     (case m_get (byMAC a) mac of
        None \<Rightarrow> (False, a)
      | Some l \<Rightarrow>
          if l_IP l \<noteq> ip then (False, a)
          else (True, a\<lparr>byIP := m_del (l_IP l) (byIP a), byMAC := m_del mac (byMAC a)\<rparr>))"

definition Decline :: "allocator \<Rightarrow> int \<Rightarrow> string \<Rightarrow> addr \<Rightarrow> bool \<times> allocator" where
  "Decline a now mac ip =
     (if mac = [] \<or> m_get (byIP a) ip \<noteq> Some mac then (False, a)
      else let a1 = a\<lparr>byMAC := m_del mac (byMAC a), byIP := m_del ip (byIP a)\<rparr>
      in (True, if inRange (cfg a1) ip
                then a1\<lparr>quarantine := m_put ip (now + quarantineFor) (quarantine a1)\<rparr> else a1))"

definition reservationFor :: "allocator \<Rightarrow> string \<Rightarrow> addr option" where
  "reservationFor a mac = m_get (reserved a) mac"

definition Quarantine :: "allocator \<Rightarrow> int \<Rightarrow> addr \<Rightarrow> allocator" where
  "Quarantine a now ip = a\<lparr>quarantine := m_put ip (now + quarantineFor) (quarantine a)\<rparr>"

definition Leases :: "allocator \<Rightarrow> int \<Rightarrow> lease list" where
  "Leases a now = filter (\<lambda>l. now < l_Expires l) (map snd (byMAC a))"


section \<open>Invariant: leases and addresses correspond one to one\<close>

definition alloc_inv :: "allocator \<Rightarrow> bool" where
  "alloc_inv a =
     (m_wf (byMAC a) \<and> m_wf (byIP a) \<and>
      (\<forall>m l. m_get (byMAC a) m = Some l \<longrightarrow> l_MAC l = m \<and> m_get (byIP a) (l_IP l) = Some m) \<and>
      (\<forall>ip m. m_get (byIP a) ip = Some m \<longrightarrow> (\<exists>l. m_get (byMAC a) m = Some l \<and> l_IP l = ip)))"

lemma alloc_invD:
  assumes "alloc_inv a"
  shows "m_wf (byMAC a)" and "m_wf (byIP a)"
    and "m_get (byMAC a) m = Some l \<Longrightarrow> l_MAC l = m"
    and "m_get (byMAC a) m = Some l \<Longrightarrow> m_get (byIP a) (l_IP l) = Some m"
    and "m_get (byIP a) ip = Some m \<Longrightarrow> \<exists>l. m_get (byMAC a) m = Some l \<and> l_IP l = ip"
  using assms by (auto simp: alloc_inv_def)

lemma alloc_inv_unique:
  "alloc_inv a \<Longrightarrow> m_get (byMAC a) m = Some l \<Longrightarrow> m_get (byMAC a) m' = Some l' \<Longrightarrow> l_IP l = l_IP l' \<Longrightarrow> m = m'"
  by (metis alloc_invD(4) option.inject)

lemma NewAllocator_inv: "alloc_inv (NewAllocator c)"
  by (simp add: alloc_inv_def NewAllocator_def)

text \<open>What a commit leaves in the two maps.\<close>

definition commit_lease :: "allocator \<Rightarrow> string \<Rightarrow> string \<Rightarrow> int \<Rightarrow> int \<Rightarrow> bool \<Rightarrow> addr \<Rightarrow> lease" where
  "commit_lease a mac hostname now ttl tentative ip =
     (case m_get (byMAC a) mac of
        Some p \<Rightarrow>
          if tentative \<and> now < l_Expires p \<and> l_IP p = ip
          then \<lparr>l_MAC = mac, l_IP = ip, l_Hostname = l_Hostname p, l_Expires = max (l_Expires p) (now + ttl)\<rparr>
          else \<lparr>l_MAC = mac, l_IP = ip, l_Hostname = hostname, l_Expires = now + ttl\<rparr>
      | None \<Rightarrow> \<lparr>l_MAC = mac, l_IP = ip, l_Hostname = hostname, l_Expires = now + ttl\<rparr>)"

lemma commit_lease_sel [simp]:
  "l_MAC (commit_lease a mac hostname now ttl tentative ip) = mac"
  "l_IP (commit_lease a mac hostname now ttl tentative ip) = ip"
  by (auto simp: commit_lease_def split: option.split)

lemma commit_fst:
  "fst (commit a mac hostname now ttl tentative ip fresh) = Some (commit_lease a mac hostname now ttl tentative ip, fresh)"
  by (auto simp: commit_def commit_lease_def Let_def max_def split: option.split)

lemma commit_frame:
  "cfg (snd (commit a mac hostname now ttl tentative ip fresh)) = cfg a"
  "reserved (snd (commit a mac hostname now ttl tentative ip fresh)) = reserved a"
  "reservedIP (snd (commit a mac hostname now ttl tentative ip fresh)) = reservedIP a"
  "quarantine (snd (commit a mac hostname now ttl tentative ip fresh)) = quarantine a"
  by (simp_all add: commit_def Let_def)

lemma commit_byMAC:
  "m_get (byMAC (snd (commit a mac hostname now ttl tentative ip fresh))) m =
     (if m = mac then Some (commit_lease a mac hostname now ttl tentative ip)
      else if m_get (byIP a) ip = Some m then None else m_get (byMAC a) m)"
  by (auto simp: commit_def commit_lease_def Let_def max_def split: option.split)

lemma commit_byIP:
  "m_get (byIP (snd (commit a mac hostname now ttl tentative ip fresh))) j =
     (if j = ip then Some mac
      else (case m_get (byMAC a) mac of
          Some p \<Rightarrow> if l_IP p = j then None else m_get (byIP a) j
        | None \<Rightarrow> m_get (byIP a) j))"
  by (auto simp: commit_def Let_def split: option.split)

lemma commit_wf:
  "alloc_inv a \<Longrightarrow> m_wf (byMAC (snd (commit a mac hostname now ttl tentative ip fresh))) \<and>
    m_wf (byIP (snd (commit a mac hostname now ttl tentative ip fresh)))"
  by (auto simp: commit_def Let_def alloc_inv_def split: option.split)

lemma commit_inv:
  assumes "alloc_inv a"
  shows "alloc_inv (snd (commit a mac hostname now ttl tentative ip fresh))"
proof -
  let ?b = "snd (commit a mac hostname now ttl tentative ip fresh)"
  note inv = alloc_invD [OF assms]
  have "l_MAC l = m \<and> m_get (byIP ?b) (l_IP l) = Some m" if m: "m_get (byMAC ?b) m = Some l" for m l
  proof (cases "m = mac")
    case True
    with m show ?thesis by (auto simp: commit_byMAC commit_byIP)
  next
    case False
    with m have old: "m_get (byMAC a) m = Some l" and ne: "m_get (byIP a) ip \<noteq> Some m"
      by (auto simp: commit_byMAC split: if_splits)
    have "l_IP l \<noteq> ip" using inv(4) [OF old] ne by auto
    moreover have "m_get (byMAC a) mac = Some p \<Longrightarrow> l_IP p \<noteq> l_IP l" for p
      using alloc_inv_unique [OF assms old] False by metis
    ultimately show ?thesis using inv(3,4) [OF old] by (auto simp: commit_byIP split: option.split)
  qed
  moreover have "\<exists>l. m_get (byMAC ?b) m = Some l \<and> l_IP l = j" if j: "m_get (byIP ?b) j = Some m" for j m
  proof (cases "j = ip")
    case True
    with j show ?thesis by (auto simp: commit_byMAC commit_byIP)
  next
    case False
    with j have old: "m_get (byIP a) j = Some m"
      and ne: "\<And>p. m_get (byMAC a) mac = Some p \<Longrightarrow> l_IP p \<noteq> j"
      by (auto simp: commit_byIP split: option.splits if_splits)
    obtain l where l: "m_get (byMAC a) m = Some l" "l_IP l = j" using inv(5) [OF old] by auto
    have "m \<noteq> mac" using ne l by auto
    moreover have "m_get (byIP a) ip \<noteq> Some m" using inv(5) [of ip m] l False by auto
    ultimately show ?thesis using l by (auto simp: commit_byMAC)
  qed
  ultimately show ?thesis using commit_wf [OF assms] by (auto simp: alloc_inv_def)
qed

section \<open>How an allocation can end\<close>

text \<open>
  Every path through \<open>allocate\<close> is a commit to some address or leaves the state alone. The
  cases record why the address was chosen.
\<close>

inductive alloc_outcome ::
  "allocator \<Rightarrow> int \<Rightarrow> string \<Rightarrow> string \<Rightarrow> addr \<Rightarrow> int \<Rightarrow> bool \<Rightarrow> (lease \<times> bool) option \<times> allocator \<Rightarrow> bool"
  for a now mac hn requested ttl tentative
where
  by_reservation: "m_get (reserved a) mac = Some ip \<Longrightarrow> \<not> protected (cfg a) ip \<Longrightarrow>
    tentative \<longrightarrow> \<not> heldByAnotherLocked a ip mac now \<and> (\<forall>p. prev_lease a mac now = Some p \<longrightarrow> l_IP p = ip) \<Longrightarrow>
    alloc_outcome a now mac hn requested ttl tentative (commit a mac hn now ttl tentative ip False)"
| by_promise: "m_get (reserved a) mac = Some ip \<Longrightarrow> \<not> protected (cfg a) ip \<Longrightarrow> tentative \<Longrightarrow>
    prev_lease a mac now = Some p \<Longrightarrow> l_IP p \<noteq> ip \<Longrightarrow>
    alloc_outcome a now mac hn requested ttl tentative
      (Some (\<lparr>l_MAC = mac, l_IP = ip, l_Hostname = [], l_Expires = now + ttl\<rparr>, False), a)"
| by_renewal: "m_get (byMAC a) mac = Some p \<Longrightarrow> usable (cfg a) (l_IP p) \<Longrightarrow>
    alloc_outcome a now mac hn requested ttl tentative
      (commit a mac hn now ttl tentative (l_IP p) (\<not> now < l_Expires p))"
| by_holding: "tentative \<Longrightarrow> prev_lease a mac now = Some p \<Longrightarrow> \<not> protected (cfg a) (l_IP p) \<Longrightarrow>
    alloc_outcome a now mac hn requested ttl tentative (Some (p, False), a)"
| by_pool: "free a ip mac now \<Longrightarrow>
    tentative \<longrightarrow> (\<forall>p. prev_lease a mac now = Some p \<longrightarrow> protected (cfg a) (l_IP p)) \<Longrightarrow>
    alloc_outcome a now mac hn requested ttl tentative (commit a mac hn now ttl tentative ip True)"
| exhausted: "lowest_free a mac now (Start (cfg a)) = None \<Longrightarrow>
    alloc_outcome a now mac hn requested ttl tentative (None, a)"

lemma lowest_free_free: "lowest_free a mac now ip = Some j \<Longrightarrow> free a j mac now"
proof (induction a mac now ip rule: lowest_free.induct)
  case (1 a mac now ip)
  then show ?case by (auto simp: lowest_free.simps [of a mac now ip] split: if_splits)
qed

lemma prev_leaseD: "prev_lease a mac now = Some p \<Longrightarrow> m_get (byMAC a) mac = Some p \<and> now < l_Expires p"
  by (auto simp: prev_lease_def split: option.splits if_splits)

lemma rule34_outcome:
  assumes "tentative \<longrightarrow> (\<forall>p. prev_lease a mac now = Some p \<longrightarrow> protected (cfg a) (l_IP p))"
  shows "alloc_outcome a now mac hn requested ttl tentative (rule34 a now mac hn requested ttl tentative)"
  using assms lowest_free_free
  by (auto simp: rule34_def intro!: by_pool exhausted split: option.split)

lemma rule2_outcome:
  "alloc_outcome a now mac hn requested ttl tentative (rule2 a now mac hn requested ttl tentative)"
proof (cases "m_get (byMAC a) mac")
  case None
  then show ?thesis by (simp add: rule2_def rule34_outcome prev_lease_def)
next
  case (Some l)
  consider (renew) "usable (cfg a) (l_IP l) \<and> not_reserved a (l_IP l)"
    | (hold) "\<not> (usable (cfg a) (l_IP l) \<and> not_reserved a (l_IP l))"
        "tentative \<and> now < l_Expires l \<and> \<not> protected (cfg a) (l_IP l)"
    | (pool) "\<not> (usable (cfg a) (l_IP l) \<and> not_reserved a (l_IP l))"
        "\<not> (tentative \<and> now < l_Expires l \<and> \<not> protected (cfg a) (l_IP l))"
    by blast
  then show ?thesis
  proof cases
    case renew
    then show ?thesis using by_renewal [OF Some] by (simp add: rule2_def Some)
  next
    case hold
    then show ?thesis using by_holding [of tentative a mac now l] by (auto simp: rule2_def Some prev_lease_def)
  next
    case pool
    then have "rule2 a now mac hn requested ttl tentative = rule34 a now mac hn requested ttl tentative"
      by (auto simp: rule2_def Some)
    then show ?thesis using rule34_outcome pool(2) by (simp add: prev_lease_def Some)
  qed
qed

lemma allocate_outcome:
  "alloc_outcome a now mac (if nameTakenLocked a hn mac now then [] else hn) requested ttl tentative
     (allocate a now mac hn requested ttl tentative)"
proof (cases "m_get (reserved a) mac")
  case None
  then show ?thesis by (simp add: allocate_def rule2_outcome)
next
  case (Some ip)
  note res = by_reservation [OF Some]
  consider "protected (cfg a) ip" | "\<not> protected (cfg a) ip" "\<not> tentative"
    | "\<not> protected (cfg a) ip" "tentative" "heldByAnotherLocked a ip mac now"
    | "\<not> protected (cfg a) ip" "tentative" "\<not> heldByAnotherLocked a ip mac now"
    by blast
  then show ?thesis
  proof cases
    case 4
    then show ?thesis
      using res by_promise [OF Some 4(1,2)] Some
      by (cases "prev_lease a mac now") (auto simp: allocate_def)
  qed (use res Some rule2_outcome in \<open>auto simp: allocate_def\<close>)
qed


section \<open>Every operation keeps the invariant\<close>

lemma allocate_inv: "alloc_inv a \<Longrightarrow> alloc_inv (snd (allocate a now mac hn requested ttl tentative))"
  using allocate_outcome [of a now mac hn requested ttl tentative]
  by (cases rule: alloc_outcome.cases) (simp_all add: commit_inv)

lemma Release_inv: "alloc_inv a \<Longrightarrow> alloc_inv (snd (Release a mac ip))"
proof (cases "fst (Release a mac ip)")
  case True
  assume inv: "alloc_inv a"
  from True obtain l where l: "m_get (byMAC a) mac = Some l" "l_IP l = ip"
    by (auto simp: Release_def split: option.splits if_splits)
  then have b: "snd (Release a mac ip) = a\<lparr>byIP := m_del ip (byIP a), byMAC := m_del mac (byMAC a)\<rparr>"
    by (simp add: Release_def)
  have "l_IP l' \<noteq> ip" if "m_get (byMAC a) m = Some l'" "m \<noteq> mac" for m l'
    using alloc_inv_unique [OF inv that(1) l(1)] that(2) l(2) by auto
  moreover have "m_get (byIP a) j = Some mac \<Longrightarrow> j = ip" for j
    using alloc_invD(5) [OF inv] l by fastforce
  ultimately show ?thesis
    using inv unfolding b by (fastforce simp: alloc_inv_def)
next
  case False
  then have "snd (Release a mac ip) = a" by (auto simp: Release_def split: option.splits)
  then show "alloc_inv a \<Longrightarrow> ?thesis" by simp
qed

text \<open>A decline that is honoured drops the lease a release would drop, and may quarantine.\<close>

lemma Decline_Release:
  assumes "alloc_inv a"
  shows "fst (Decline a now mac ip) \<Longrightarrow> fst (Release a mac ip)"
    and "byMAC (snd (Decline a now mac ip)) = (if fst (Decline a now mac ip) then byMAC (snd (Release a mac ip)) else byMAC a)"
    and "byIP (snd (Decline a now mac ip)) = (if fst (Decline a now mac ip) then byIP (snd (Release a mac ip)) else byIP a)"
  using alloc_invD(5) [OF assms, of ip mac]
  by (auto simp: Decline_def Release_def Let_def split: option.splits if_splits)

lemma alloc_inv_maps: "byMAC b = byMAC a \<Longrightarrow> byIP b = byIP a \<Longrightarrow> alloc_inv a \<Longrightarrow> alloc_inv b"
  by (simp add: alloc_inv_def)

lemma Decline_inv: "alloc_inv a \<Longrightarrow> alloc_inv (snd (Decline a now mac ip))"
  using Decline_Release(2,3) [of a now mac ip] Release_inv [of a mac ip]
  by (cases "fst (Decline a now mac ip)") (auto intro: alloc_inv_maps)

lemma Quarantine_inv: "alloc_inv a \<Longrightarrow> alloc_inv (Quarantine a now ip)"
  by (rule alloc_inv_maps) (simp_all add: Quarantine_def)

lemma SetReservations_maps:
  "byMAC (SetReservations r a) = byMAC a" "byIP (SetReservations r a) = byIP a" "cfg (SetReservations r a) = cfg a"
  unfolding SetReservations_def
  by (subst fold_keeps; simp split: prod.split)+

lemma SetReservations_inv: "alloc_inv a \<Longrightarrow> alloc_inv (SetReservations r a)"
  by (rule alloc_inv_maps) (simp_all add: SetReservations_maps)

definition load_ok :: "lease list \<Rightarrow> bool" where
  "load_ok ls = (distinct (map l_MAC ls) \<and> distinct (map l_IP ls))"

lemma Load_maps:
  assumes "load_ok ls"
  shows "m_get (byMAC (Load ls a)) m = find (\<lambda>l. l_MAC l = m) ls"
    and "m_get (byIP (Load ls a)) ip = map_option l_MAC (find (\<lambda>l. l_IP l = ip) ls)"
    and "m_wf (byMAC (Load ls a))" and "m_wf (byIP (Load ls a))"
proof -
  have last: "find P (rev xs) = find P xs" if "\<forall>x \<in> set xs. \<forall>y \<in> set xs. P x \<longrightarrow> P y \<longrightarrow> x = y" for P and xs :: "lease list"
  proof (cases "find P xs")
    case None
    then have "find P (rev xs) = None" by (auto simp: find_None_iff)
    with None show ?thesis by simp
  next
    case (Some x)
    then have "x \<in> set xs" "P x" by (auto dest: find_SomeD)
    then have "find P (rev xs) \<noteq> None" by (auto simp: find_None_iff)
    then obtain y where y: "find P (rev xs) = Some y" by blast
    then have "y \<in> set xs" "P y" by (auto dest: find_SomeD)
    then show ?thesis using that \<open>x \<in> set xs\<close> \<open>P x\<close> y Some by auto
  qed
  have "m_get (byMAC (Load ls a)) m = (case find (\<lambda>l. l_MAC l = m) (rev ls) of Some l \<Rightarrow> Some l
      | None \<Rightarrow> m_get (byMAC (a\<lparr>byMAC := [], byIP := []\<rparr>)) m)"
    unfolding Load_def by (rule fold_last_writer) simp
  also have "find (\<lambda>l. l_MAC l = m) (rev ls) = find (\<lambda>l. l_MAC l = m) ls"
    by (rule last) (use assms in \<open>auto simp: load_ok_def distinct_map dest: inj_onD\<close>)
  finally show "m_get (byMAC (Load ls a)) m = find (\<lambda>l. l_MAC l = m) ls" by (simp split: option.split)
  have "m_get (byIP (Load ls a)) ip = (case find (\<lambda>l. l_IP l = ip) (rev ls) of Some l \<Rightarrow> Some (l_MAC l)
      | None \<Rightarrow> m_get (byIP (a\<lparr>byMAC := [], byIP := []\<rparr>)) ip)"
    unfolding Load_def by (rule fold_last_writer) simp
  also have "find (\<lambda>l. l_IP l = ip) (rev ls) = find (\<lambda>l. l_IP l = ip) ls"
    by (rule last) (use assms in \<open>auto simp: load_ok_def distinct_map dest: inj_onD\<close>)
  finally show "m_get (byIP (Load ls a)) ip = map_option l_MAC (find (\<lambda>l. l_IP l = ip) ls)"
    by (simp split: option.split)
  show "m_wf (byMAC (Load ls a))" "m_wf (byIP (Load ls a))"
    unfolding Load_def by (rule fold_invariant; simp)+
qed

lemma Load_inv: "load_ok ls \<Longrightarrow> alloc_inv (Load ls a)"
proof -
  assume ok: "load_ok ls"
  have d: "x = y" if "x \<in> set ls" "y \<in> set ls" "l_IP x = l_IP y \<or> l_MAC x = l_MAC y" for x y
    using ok that by (auto simp: load_ok_def distinct_map dest: inj_onD)
  have f: "find P ls = Some x" if "x \<in> set ls" "P x" "\<And>y. y \<in> set ls \<Longrightarrow> P y \<Longrightarrow> y = x" for P x
  proof -
    have "find P ls \<noteq> None" using that(1,2) by (auto simp: find_None_iff)
    then obtain y where "find P ls = Some y" by blast
    then show ?thesis using that(3) find_SomeD by metis
  qed
  show ?thesis
    unfolding alloc_inv_def Load_maps(1,2) [OF ok]
    using Load_maps(3,4) [OF ok]
    by (auto dest!: find_SomeD intro!: f d)
qed

datatype alloc_op =
    OpLoad "lease list"
  | OpReserve "(string, addr) gomap"
  | OpAllocate string string addr int
  | OpOffer string addr int
  | OpRelease string addr
  | OpDecline string addr
  | OpQuarantine addr

fun alloc_exec :: "int \<times> alloc_op \<Rightarrow> allocator \<Rightarrow> allocator" where
  "alloc_exec (now, OpLoad ls) a = Load ls a"
| "alloc_exec (now, OpReserve r) a = SetReservations r a"
| "alloc_exec (now, OpAllocate mac hn req ttl) a = snd (Allocate a now mac hn req ttl)"
| "alloc_exec (now, OpOffer mac req hold) a = snd (Offer a now mac req hold)"
| "alloc_exec (now, OpRelease mac ip) a = snd (Release a mac ip)"
| "alloc_exec (now, OpDecline mac ip) a = snd (Decline a now mac ip)"
| "alloc_exec (now, OpQuarantine ip) a = Quarantine a now ip"

fun op_ok :: "int \<times> alloc_op \<Rightarrow> bool" where
  "op_ok (now, OpLoad ls) = load_ok ls"
| "op_ok _ = True"

lemma snd_Allocate: "snd (Allocate a now mac hn req ttl) = snd (allocate a now mac hn req ttl False)"
  by (simp add: Allocate_def split: prod.split)

lemma fst_Allocate:
  "fst (Allocate a now mac hn req ttl) = map_option fst (fst (allocate a now mac hn req ttl False))"
  by (simp add: Allocate_def split: prod.split)

lemma alloc_exec_inv: "op_ok e \<Longrightarrow> alloc_inv a \<Longrightarrow> alloc_inv (alloc_exec e a)"
  by (cases "(e, a)" rule: alloc_exec.cases)
     (auto simp: Load_inv SetReservations_inv Release_inv Decline_inv Quarantine_inv allocate_inv
       snd_Allocate Offer_def)

lemma alloc_run_inv: "list_all op_ok es \<Longrightarrow> alloc_inv a \<Longrightarrow> alloc_inv (fold alloc_exec es a)"
  by (induction es arbitrary: a) (simp_all add: alloc_exec_inv)

text \<open>
  C3: no two clients are ever committed to one address. After any sequence of allocator
  operations (restores of rows with distinct clients and addresses, reservation changes,
  offers, requests, releases, declines and quarantines, at any times) two leases with the same
  address are the same client's, and the address index names exactly that client.
\<close>

theorem no_duplicate_addresses:
  assumes "list_all op_ok es"
    and "m_get (byMAC (fold alloc_exec es (NewAllocator c))) m = Some l"
    and "m_get (byMAC (fold alloc_exec es (NewAllocator c))) m' = Some l'"
    and "l_IP l = l_IP l'"
  shows "m = m' \<and> m_get (byIP (fold alloc_exec es (NewAllocator c))) (l_IP l) = Some m"
proof -
  have "alloc_inv (fold alloc_exec es (NewAllocator c))"
    by (rule alloc_run_inv [OF assms(1) NewAllocator_inv])
  with assms(2-4) show ?thesis by (auto dest: alloc_inv_unique alloc_invD(4))
qed

definition lan_cfg :: config where
  "lan_cfg = \<lparr>Subnet = Prefix (Addr4 0x0A000000) 24, Start = Addr4 0x0A000064, End = Addr4 0x0A000066,
     Host = Addr4 0x0A000001, Gateway = Addr4 0x0A000002, LeaseTime = 3600000000000\<rparr>"

definition lan_ops :: "(int \<times> alloc_op) list" where
  "lan_ops = [(1, OpOffer ''m1'' AddrZero 60), (2, OpAllocate ''m1'' ''nas'' (Addr4 0x0A000064) 100),
              (3, OpAllocate ''m2'' ''nas'' (Addr4 0x0A000064) 100)]"

lemma lan_ops_run:
  "m_get (byMAC (fold alloc_exec lan_ops (NewAllocator lan_cfg))) ''m1'' =
     Some \<lparr>l_MAC = ''m1'', l_IP = Addr4 0x0A000064, l_Hostname = ''nas'', l_Expires = 102\<rparr>"
  "m_get (byMAC (fold alloc_exec lan_ops (NewAllocator lan_cfg))) ''m2'' =
     Some \<lparr>l_MAC = ''m2'', l_IP = Addr4 0x0A000065, l_Hostname = [], l_Expires = 103\<rparr>"
  by code_simp+

theorem no_duplicate_addresses_witness:
  "m_get (byIP (fold alloc_exec lan_ops (NewAllocator lan_cfg))) (Addr4 0x0A000064) = Some ''m1''"
  using no_duplicate_addresses [of lan_ops lan_cfg "''m1''" _ "''m1''", OF _ lan_ops_run(1) lan_ops_run(1)]
  by (simp add: lan_ops_def)


section \<open>What a client may be given\<close>

lemma free_usable: "free a ip mac now \<Longrightarrow> usable (cfg a) ip"
  by (auto simp: free_def split: if_splits)

lemma free_not_held: "free a ip mac now \<Longrightarrow> \<not> heldByAnotherLocked a ip mac now"
  by (auto simp: free_def split: if_splits)

lemma allocate_not_protected:
  assumes "fst (allocate a now mac hn requested ttl tentative) = Some (l, fresh)"
  shows "\<not> protected (cfg a) (l_IP l)"
  using allocate_outcome [of a now mac hn requested ttl tentative] assms
  by (cases rule: alloc_outcome.cases) (auto simp: commit_fst usable_def dest: free_usable)

text \<open>
  The server never offers or leases its own address or the gateway's, whatever the range,
  the reservations and the rows it restored: every lease an allocation returns, tentative or not,
  is for another address.
\<close>

theorem never_hands_out_protected:
  assumes "fst (allocate a now mac hn requested ttl tentative) = Some (l, fresh)"
  shows "l_IP l \<noteq> Host (cfg a) \<and> l_IP l \<noteq> Gateway (cfg a)"
  using allocate_not_protected [OF assms] by (simp add: protected_def)

theorem never_hands_out_protected_witness:
  "l_IP (fst (the (fst (allocate (NewAllocator (lan_cfg\<lparr>Start := Addr4 0x0A000001\<rparr>)) 0 ''m1'' [] AddrZero 60 True))))
     \<noteq> Addr4 0x0A000001"
proof -
  let ?a = "NewAllocator (lan_cfg\<lparr>Start := Addr4 0x0A000001\<rparr>)"
  have "fst (allocate ?a 0 ''m1'' [] AddrZero 60 True) =
    Some (\<lparr>l_MAC = ''m1'', l_IP = Addr4 0x0A000003, l_Hostname = [], l_Expires = 60\<rparr>, True)" by code_simp
  from never_hands_out_protected [OF this] this show ?thesis
    by (simp add: NewAllocator_def lan_cfg_def)
qed

text \<open>A commit leaves every live lease of another client alone, unless it is on that address.\<close>

lemma commit_other:
  assumes "alloc_inv a" and "m_get (byMAC a) m = Some l" and "m \<noteq> mac" and "now < l_Expires l"
    and "\<not> heldByAnotherLocked a ip mac now"
  shows "m_get (byMAC (snd (commit a mac hn now ttl tentative ip fresh))) m = Some l"
proof -
  have "m_get (byIP a) ip \<noteq> Some m"
    using assms(2-5) by (auto simp: heldByAnotherLocked_def)
  with assms(2,3) show ?thesis by (simp add: commit_byMAC)
qed

lemma not_held_own:
  assumes "alloc_inv a" and "m_get (byMAC a) mac = Some p"
  shows "\<not> heldByAnotherLocked a (l_IP p) mac now"
  using alloc_invD(4) [OF assms] by (simp add: heldByAnotherLocked_def)

definition keeps_lease :: "allocator \<Rightarrow> string \<Rightarrow> lease \<Rightarrow> bool" where
  "keeps_lease b m l =
     (\<exists>l'. m_get (byMAC b) m = Some l' \<and> l_IP l' = l_IP l \<and> l_Hostname l' = l_Hostname l \<and>
        l_Expires l \<le> l_Expires l')"

lemma keeps_lease_same: "m_get (byMAC b) m = Some l \<Longrightarrow> keeps_lease b m l"
  by (auto simp: keeps_lease_def)

lemma tentative_commit_own:
  assumes "m_get (byMAC a) mac = Some l" and "now < l_Expires l"
  shows "keeps_lease (snd (commit a mac hn now ttl True (l_IP l) fresh)) mac l"
  using assms by (auto simp: keeps_lease_def commit_byMAC commit_lease_def)

lemma tentative_commit_keeps:
  assumes "alloc_inv a" and "m_get (byMAC a) m = Some l" and "now < l_Expires l"
    and "\<not> heldByAnotherLocked a ip mac now" and "m = mac \<longrightarrow> l_IP l = ip"
  shows "keeps_lease (snd (commit a mac hn now ttl True ip fresh)) m l"
proof (cases "m = mac")
  case True
  then show ?thesis using assms tentative_commit_own by auto
next
  case False
  then show ?thesis using commit_other [OF assms(1,2) _ assms(3,4)] keeps_lease_same by blast
qed

text \<open>
  An offer keeps every unexpired lease: same address, same name, until the same time or later;
  the only exception is the asking client's own lease on the server's or the gateway's address.
\<close>

lemma Offer_keeps_leases:
  assumes "alloc_inv a" and "m_get (byMAC a) m = Some l" and "now < l_Expires l"
    and "m = mac \<longrightarrow> \<not> protected (cfg a) (l_IP l)"
  shows "keeps_lease (snd (Offer a now mac requested hold)) m l"
proof -
  have pl: "m = mac \<Longrightarrow> prev_lease a mac now = Some l"
    using assms(2,3) by (simp add: prev_lease_def)
  from allocate_outcome [of a now mac "[]" requested hold True]
  have "keeps_lease (snd (allocate a now mac [] requested hold True)) m l"
  proof (cases rule: alloc_outcome.cases)
    case (by_reservation ip)
    then show ?thesis using tentative_commit_keeps [OF assms(1-3)] pl by auto
  next
    case (by_renewal p)
    then have "m = mac \<longrightarrow> l_IP l = l_IP p" using assms(2) by auto
    with by_renewal show ?thesis
      using tentative_commit_keeps [OF assms(1-3) not_held_own [OF assms(1) by_renewal(2)]] by simp
  next
    case (by_pool ip)
    then show ?thesis using tentative_commit_keeps [OF assms(1-3) free_not_held] pl assms(4) by auto
  qed (use assms(2) keeps_lease_same in auto)
  then show ?thesis by (simp add: Offer_def)
qed

definition lan_alloc :: allocator where
  "lan_alloc = fold alloc_exec lan_ops (NewAllocator lan_cfg)"

lemma lan_alloc_inv: "alloc_inv lan_alloc"
  unfolding lan_alloc_def by (rule alloc_run_inv [OF _ NewAllocator_inv]) (simp add: lan_ops_def)

text \<open>
  A REQUEST takes an address in use from another client only when that address is reserved
  for the one that asks. Every other client's unexpired lease is exactly as it was.
\<close>

theorem Allocate_evicts_only_for_a_reservation:
  assumes "alloc_inv a" and "m_get (byMAC a) m = Some l" and "now < l_Expires l" and "m \<noteq> mac"
    and "m_get (reserved a) mac \<noteq> Some (l_IP l)"
  shows "m_get (byMAC (snd (Allocate a now mac hn requested ttl))) m = Some l"
proof -
  from allocate_outcome [of a now mac hn requested ttl False]
  have "m_get (byMAC (snd (allocate a now mac hn requested ttl False))) m = Some l"
  proof (cases rule: alloc_outcome.cases)
    case (by_reservation ip)
    with assms(5) have "l_IP l \<noteq> ip" by auto
    then have "m_get (byIP a) ip \<noteq> Some m" using alloc_invD(5) [OF assms(1), of ip m] assms(2) by auto
    then show ?thesis using by_reservation(1) assms(2,4) by (simp add: commit_byMAC)
  next
    case (by_renewal p)
    then show ?thesis using commit_other [OF assms(1,2,4,3) not_held_own [OF assms(1)]] by auto
  next
    case (by_pool ip)
    then show ?thesis using commit_other [OF assms(1,2,4,3) free_not_held] by auto
  qed (use assms(2) in auto)
  then show ?thesis by (simp add: snd_Allocate)
qed

theorem Allocate_evicts_only_for_a_reservation_witness:
  "m_get (byMAC (snd (Allocate lan_alloc 50 ''m3'' ''nas'' (Addr4 0x0A000064) 60))) ''m1'' =
     Some \<lparr>l_MAC = ''m1'', l_IP = Addr4 0x0A000064, l_Hostname = ''nas'', l_Expires = 102\<rparr>"
proof -
  have "reserved lan_alloc = []" by code_simp
  then show ?thesis
    using Allocate_evicts_only_for_a_reservation
      [OF lan_alloc_inv lan_ops_run(1) [folded lan_alloc_def], of 50 "''m3''"]
    by simp
qed

section \<open>Names\<close>

definition names_unique :: "int \<Rightarrow> allocator \<Rightarrow> bool" where
  "names_unique now a =
     (\<forall>m l m' l'. m_get (byMAC a) m = Some l \<longrightarrow> m_get (byMAC a) m' = Some l' \<longrightarrow>
        now < l_Expires l \<longrightarrow> now < l_Expires l' \<longrightarrow> l_Hostname l \<noteq> [] \<longrightarrow> l_Hostname l = l_Hostname l' \<longrightarrow> m = m')"

lemma names_uniqueD:
  "names_unique now a \<Longrightarrow> m_get (byMAC a) m = Some l \<Longrightarrow> m_get (byMAC a) m' = Some l' \<Longrightarrow>
   now < l_Expires l \<Longrightarrow> now < l_Expires l' \<Longrightarrow> l_Hostname l \<noteq> [] \<Longrightarrow> l_Hostname l = l_Hostname l' \<Longrightarrow> m = m'"
  by (auto simp: names_unique_def)

lemma nameTaken_iff:
  assumes "alloc_inv a"
  shows "nameTakenLocked a hn mac now \<longleftrightarrow> hn \<noteq> [] \<and>
    (\<exists>m l. m \<noteq> mac \<and> m_get (byMAC a) m = Some l \<and> l_Hostname l = hn \<and> now < l_Expires l)"
  using alloc_invD(1,3) [OF assms] m_get_iff [OF alloc_invD(1) [OF assms]]
  by (auto simp: nameTakenLocked_def list_ex_iff)

lemma commit_names:
  assumes inv: "alloc_inv a" and uniq: "names_unique now a" and nt: "\<not> nameTakenLocked a hn mac now"
  shows "names_unique now (snd (commit a mac hn now ttl tentative ip fresh))"
proof -
  let ?b = "snd (commit a mac hn now ttl tentative ip fresh)"
  let ?l = "commit_lease a mac hn now ttl tentative ip"
  have own: "l_Hostname l \<noteq> l_Hostname ?l"
    if "m_get (byMAC a) m = Some l" "now < l_Expires l" "m \<noteq> mac" "l_Hostname l \<noteq> []" for m l
  proof (cases "l_Hostname ?l = hn")
    case True
    then show ?thesis using nt that nameTaken_iff [OF inv] by auto
  next
    case False
    then obtain p where p: "m_get (byMAC a) mac = Some p" "now < l_Expires p" "l_Hostname ?l = l_Hostname p"
      by (auto simp: commit_lease_def split: option.splits if_splits)
    then show ?thesis using names_uniqueD [OF uniq that(1) p(1)] that by auto
  qed
  have old: "m_get (byMAC ?b) m = Some l \<Longrightarrow> m \<noteq> mac \<Longrightarrow> m_get (byMAC a) m = Some l" for m l
    by (auto simp: commit_byMAC split: if_splits)
  have new: "m_get (byMAC ?b) mac = Some ?l" by (simp add: commit_byMAC)
  have "m = m'" if "m_get (byMAC ?b) m = Some l" "m_get (byMAC ?b) m' = Some l'"
      "now < l_Expires l" "now < l_Expires l'" "l_Hostname l \<noteq> []" "l_Hostname l = l_Hostname l'" for m l m' l'
    using that own [of m l] own [of m' l'] old [of m l] old [of m' l'] new
      names_uniqueD [OF uniq, of m l m' l'] by (cases "m = mac"; cases "m' = mac") auto
  then show ?thesis unfolding names_unique_def by blast
qed

lemma allocate_names:
  assumes "alloc_inv a" and "names_unique now a"
  shows "names_unique now (snd (allocate a now mac hn requested ttl tentative))"
proof -
  have "\<not> nameTakenLocked a (if nameTakenLocked a hn mac now then [] else hn) mac now"
    by (simp add: nameTakenLocked_def)
  note keep = commit_names [OF assms this]
  show ?thesis
    using allocate_outcome [of a now mac hn requested ttl tentative] keep assms(2)
    by (cases rule: alloc_outcome.cases) auto
qed

lemma names_unique_later: "now \<le> now' \<Longrightarrow> names_unique now a \<Longrightarrow> names_unique now' a"
  unfolding names_unique_def by (meson le_less_trans)

lemma names_unique_sub:
  "names_unique now a \<Longrightarrow> (\<And>m l. m_get (byMAC b) m = Some l \<Longrightarrow> m_get (byMAC a) m = Some l) \<Longrightarrow> names_unique now b"
  unfolding names_unique_def by blast

lemma alloc_exec_names:
  assumes "alloc_inv a" and "names_unique now a" and "\<And>ls. opr \<noteq> OpLoad ls"
  shows "names_unique now (alloc_exec (now, opr) a)"
proof -
  have rel: "m_get (byMAC (snd (Release a mac ip))) m = Some l \<Longrightarrow> m_get (byMAC a) m = Some l" for mac ip m l
    by (auto simp: Release_def split: option.splits if_splits)
  show ?thesis
  proof (cases opr)
    case (OpDecline mac ip)
    have "m_get (byMAC (snd (Decline a now mac ip))) m = Some l \<Longrightarrow> m_get (byMAC a) m = Some l" for m l
      using Decline_Release(2) [OF assms(1)] rel by (simp split: if_splits)
    with OpDecline show ?thesis using names_unique_sub [OF assms(2)] by simp
  next
    case (OpRelease mac ip)
    then show ?thesis using names_unique_sub [OF assms(2) rel] by simp
  qed (use assms allocate_names in \<open>auto simp: snd_Allocate Offer_def SetReservations_maps Quarantine_def
         intro: names_unique_sub [OF assms(2)]\<close>)
qed

fun clock_ok :: "int \<Rightarrow> (int \<times> alloc_op) list \<Rightarrow> bool" where
  "clock_ok t [] = True"
| "clock_ok t ((now, opr) # es) = (t \<le> now \<and> (case opr of OpLoad _ \<Rightarrow> False | _ \<Rightarrow> True) \<and> clock_ok now es)"

fun last_time :: "int \<Rightarrow> (int \<times> alloc_op) list \<Rightarrow> int" where
  "last_time t [] = t"
| "last_time t ((now, _) # es) = last_time now es"

lemma alloc_run_names:
  "clock_ok t es \<Longrightarrow> alloc_inv a \<Longrightarrow> names_unique t a \<Longrightarrow> names_unique (last_time t es) (fold alloc_exec es a)"
proof (induction t es arbitrary: a rule: clock_ok.induct)
  case (1 t)
  then show ?case by simp
next
  case (2 t now opr es)
  have "op_ok (now, opr)" and nl: "\<And>ls. opr \<noteq> OpLoad ls"
    using "2.prems"(1) by (auto split: alloc_op.splits)
  then have "alloc_inv (alloc_exec (now, opr) a)" using alloc_exec_inv "2.prems"(2) by blast
  moreover have "names_unique now (alloc_exec (now, opr) a)"
    using alloc_exec_names [OF "2.prems"(2) names_unique_later [OF _ "2.prems"(3)] nl] "2.prems"(1) by simp
  ultimately show ?case using "2.IH" "2.prems"(1) by simp
qed

lemma Leases_get:
  assumes "alloc_inv a" and "l \<in> set (Leases a now)"
  shows "\<exists>m. m_get (byMAC a) m = Some l"
proof -
  from assms(2) obtain m where "(m, l) \<in> set (byMAC a)" unfolding Leases_def by auto
  then show ?thesis using m_get_iff [OF alloc_invD(1) [OF assms(1)]] by blast
qed

lemma clock_ok_op_ok: "clock_ok t es \<Longrightarrow> list_all op_ok es"
  by (induction t es rule: clock_ok.induct) (auto split: alloc_op.splits)

text \<open>
  Option 12 is first come, first served. Under a clock that does not go back, after any
  sequence of operations two unexpired leases never carry the same hostname, so a client
  cannot take over a name another one is using.
\<close>

theorem live_hostnames_are_unique:
  assumes "clock_ok 0 es"
    and "l \<in> set (Leases (fold alloc_exec es (NewAllocator c)) (last_time 0 es))"
    and "l' \<in> set (Leases (fold alloc_exec es (NewAllocator c)) (last_time 0 es))"
    and "l_Hostname l \<noteq> []" and "l_Hostname l = l_Hostname l'"
  shows "l = l'"
proof -
  let ?a = "fold alloc_exec es (NewAllocator c)"
  have inv: "alloc_inv ?a" by (rule alloc_run_inv [OF clock_ok_op_ok [OF assms(1)] NewAllocator_inv])
  have "names_unique 0 (NewAllocator c)" by (simp add: names_unique_def NewAllocator_def)
  from alloc_run_names [OF assms(1) NewAllocator_inv this]
  have uniq: "names_unique (last_time 0 es) ?a" .
  obtain m m' where m: "m_get (byMAC ?a) m = Some l" "m_get (byMAC ?a) m' = Some l'"
    using Leases_get [OF inv assms(2)] Leases_get [OF inv assms(3)] by blast
  have "last_time 0 es < l_Expires l" "last_time 0 es < l_Expires l'"
    using assms(2,3) by (simp_all add: Leases_def)
  from names_uniqueD [OF uniq m this assms(4,5)] have "m = m'" .
  with m show ?thesis by simp
qed

theorem live_hostnames_are_unique_witness:
  "clock_ok 0 lan_ops \<and>
   filter (\<lambda>l. l_Hostname l = ''nas'') (Leases (fold alloc_exec lan_ops (NewAllocator lan_cfg)) (last_time 0 lan_ops)) =
     [\<lparr>l_MAC = ''m1'', l_IP = Addr4 0x0A000064, l_Hostname = ''nas'', l_Expires = 102\<rparr>]"
proof -
  let ?ls = "Leases (fold alloc_exec lan_ops (NewAllocator lan_cfg)) (last_time 0 lan_ops)"
  let ?l = "\<lparr>l_MAC = ''m1'', l_IP = Addr4 0x0A000064, l_Hostname = ''nas'', l_Expires = 102\<rparr>"
  have ck: "clock_ok 0 lan_ops" by (simp add: lan_ops_def)
  have ls: "?ls = [\<lparr>l_MAC = ''m2'', l_IP = Addr4 0x0A000065, l_Hostname = [], l_Expires = 103\<rparr>, ?l]" by code_simp
  then have "?l \<in> set ?ls" by simp
  from live_hostnames_are_unique [OF ck this this] have "?l = ?l" by simp
  with ck ls show ?thesis by simp
qed

section \<open>Exhaustion\<close>

lemma word_step_le:
  fixes w v :: "32 word"
  assumes "w < v"
  shows "w + 1 \<noteq> 0" and "w + 1 \<le> v" and "w \<le> w + 1"
proof -
  from assms have lt: "unat w < unat v" by (simp add: word_less_nat_alt)
  moreover have "unat v < 2 ^ LENGTH(32)" by (rule unsigned_less)
  ultimately have "unat (w + 1) = Suc (unat w)" by (simp add: unat_word_ariths)
  with lt show "w + 1 \<noteq> 0" and "w + 1 \<le> v" and "w \<le> w + 1" by (auto simp: word_le_nat_alt)
qed

lemma lowest_free_None:
  assumes "lowest_free a mac now (Addr4 w) = None"
    and "u32 (Start (cfg a)) \<le> w"
  shows "inRange (cfg a) (Addr4 v) \<Longrightarrow> w \<le> v \<Longrightarrow> \<not> free a (Addr4 v) mac now"
  using assms
proof (induction a mac now "Addr4 w" arbitrary: w rule: lowest_free.induct)
  case (1 a mac now w)
  show ?case
  proof (cases "inRange (cfg a) (Addr4 w)")
    case True
    have nf: "\<not> free a (Addr4 w) mac now" and next_: "lowest_free a mac now (addr_next (Addr4 w)) = None"
      using "1.prems"(3) True by (auto simp: lowest_free.simps [of a mac now "Addr4 w"] split: if_splits)
    show ?thesis
    proof (cases "w = v")
      case True
      with nf show ?thesis by simp
    next
      case False
      with "1.prems"(2) have lt: "w < v" by simp
      note le = word_step_le(2) [OF lt]
      have "addr_next (Addr4 w) = Addr4 (w + 1)" using word_step_le(1) [OF lt] by simp
      then show ?thesis using "1.hyps" [OF True nf] "1.prems"(1,4) le next_ lt word_step_le(3) [OF lt] by simp
    qed
  next
    case False
    then have "\<not> inRange (cfg a) (Addr4 v)" using "1.prems"(2,4) by (auto simp: inRange_def u32_def)
    then show ?thesis using "1.prems"(1) by blast
  qed
qed

text \<open>
  The answer "no address" means the pool is exhausted: when an allocation returns nothing,
  no address of the configured range is free for this client, and the allocator is unchanged.
\<close>

theorem exhausted_means_no_free_address:
  assumes "fst (allocate a now mac hn requested ttl tentative) = None"
  shows "\<not> free a ip mac now \<and> snd (allocate a now mac hn requested ttl tentative) = a"
proof -
  have lf: "lowest_free a mac now (Start (cfg a)) = None"
    and st: "snd (allocate a now mac hn requested ttl tentative) = a"
    using allocate_outcome [of a now mac hn requested ttl tentative] assms
    by (cases rule: alloc_outcome.cases; auto simp: commit_fst)+
  have "\<not> free a ip mac now"
  proof
    assume f: "free a ip mac now"
    then have r: "inRange (cfg a) ip" using free_usable usable_def by blast
    then obtain w v where w: "Start (cfg a) = Addr4 w" "ip = Addr4 v" "w \<le> v"
      by (cases ip; cases "Start (cfg a)") (auto simp: inRange_def u32_def split: if_splits)
    then show False using lowest_free_None [of a mac now w v] lf r f by (simp add: u32_def)
  qed
  with st show ?thesis by simp
qed

theorem exhausted_means_no_free_address_witness:
  "let a = snd (Allocate lan_alloc 4 ''m3'' [] AddrZero 100)
   in fst (allocate a 5 ''m4'' [] AddrZero 60 True) = None \<and> \<not> free a (Addr4 0x0A000065) ''m4'' 5"
proof -
  let ?a = "snd (Allocate lan_alloc 4 ''m3'' [] AddrZero 100)"
  have n: "fst (allocate ?a 5 ''m4'' [] AddrZero 60 True) = None" by code_simp
  from exhausted_means_no_free_address [OF n] n show ?thesis by (simp add: Let_def)
qed

text \<open>
  A RELEASE or a DECLINE acts only on the binding it names. Both are refused unless the
  client holds exactly that address, and neither ever changes another client's lease.
\<close>

theorem release_and_decline_are_narrow:
  assumes "alloc_inv a"
  shows "(fst (Release a mac ip) \<longleftrightarrow> (\<exists>l. m_get (byMAC a) mac = Some l \<and> l_IP l = ip)) \<and>
    (fst (Decline a now mac ip) \<longleftrightarrow> mac \<noteq> [] \<and> (\<exists>l. m_get (byMAC a) mac = Some l \<and> l_IP l = ip)) \<and>
    (m \<noteq> mac \<longrightarrow> m_get (byMAC (snd (Release a mac ip))) m = m_get (byMAC a) m \<and>
                m_get (byMAC (snd (Decline a now mac ip))) m = m_get (byMAC a) m)"
proof -
  have "m_get (byIP a) ip = Some mac \<longleftrightarrow> (\<exists>l. m_get (byMAC a) mac = Some l \<and> l_IP l = ip)"
    using alloc_invD(4,5) [OF assms] by blast
  then show ?thesis
    by (auto simp: Release_def Decline_def Let_def split: option.split)
qed

theorem release_and_decline_are_narrow_witness:
  "\<not> fst (Decline lan_alloc 4 ''m2'' (Addr4 0x0A000064)) \<and> fst (Release lan_alloc ''m1'' (Addr4 0x0A000064))"
proof -
  have "m_get (byMAC lan_alloc) ''m1'' \<noteq> None"
    and m1: "map_option l_IP (m_get (byMAC lan_alloc) ''m1'') = Some (Addr4 0x0A000064)"
    and m2: "map_option l_IP (m_get (byMAC lan_alloc) ''m2'') = Some (Addr4 0x0A000065)" by code_simp+
  then show ?thesis
    using release_and_decline_are_narrow [OF lan_alloc_inv, of "''m1''" "Addr4 0x0A000064" 4]
      release_and_decline_are_narrow [OF lan_alloc_inv, of "''m2''" "Addr4 0x0A000064" 4]
    by auto
qed

end
