(* ===== verification/StoreModel.thy ===== *)
theory StoreModel
  imports KyPrelude
begin

text \<open>
  The rows of the database, from \<^verbatim>\<open>internal/store/model.go\<close>: one record per Go struct, one
  field per struct field. Identifiers and Unix times are unbounded integers here; the store never
  does arithmetic on them.
\<close>

record view =
  view_Name :: string
  view_Subnets :: "string list"

record address =
  addr_ID :: int
  addr_Address :: string
  addr_View :: string

record service =
  svc_ID :: int
  svc_Name :: string
  svc_Addresses :: "address list"
  svc_Aliases :: "string list"
  svc_CheckURL :: string
  svc_CheckInsecure :: bool
  svc_ProxyAddress :: string
  svc_RouteViaProxy :: bool
  svc_MAC :: string

record record_row =
  rec_ID :: int
  rec_Name :: string
  rec_Type :: string
  rec_Value :: string
  rec_View :: string

record token =
  tok_ID :: int
  tok_Label :: string
  tok_Hash :: string
  tok_CreatedAt :: int
  tok_LastUsedAt :: int

record blacklist_settings =
  bs_Enabled :: bool
  bs_BlockTTL :: int

record blacklist_list =
  bl_ID :: int
  bl_Name :: string
  bl_URL :: string
  bl_Format :: string
  bl_Description :: string
  bl_Enabled :: bool
  bl_Builtin :: bool
  bl_IntervalSeconds :: int
  bl_LastAttemptAt :: int
  bl_LastOKAt :: int
  bl_LastError :: string
  bl_ETag :: string
  bl_LastModified :: string
  bl_EntryCount :: int
  bl_SkippedCount :: int
  bl_Snapshot :: "string list"

record blacklist_rule =
  br_ID :: int
  br_Kind :: string
  br_Domain :: string

record settings =
  PrivateDomain :: string
  ReverseZones :: "string list"
  Upstreams :: "string list"
  AllowQuery :: "string list"
  AllowTailscale :: bool
  TTL :: int
  CacheMinTTL :: int
  CacheMaxTTL :: int
  NegativeMaxTTL :: int
  CacheEntries :: int
  LogQueries :: bool
  LogClientIP :: bool
  DHCPLeaseFile :: string
  DiscoveryInterval :: int
  HealthInterval :: int
  HealthTimeout :: int
  HealthWorkers :: int
  DHCPEnabled :: bool
  DHCPInterface :: string
  DHCPRangeStart :: string
  DHCPRangeEnd :: string
  DHCPGateway :: string
  DHCPLeaseSeconds :: int
  DHCPSecondaryDNS :: string
  DHCPAllowForeign :: bool

record dhcp_lease_row =
  dl_MAC :: string
  dl_IP :: string
  dl_Hostname :: string
  dl_ExpiresAt :: int
  dl_LastSeen :: int

section \<open>Errors\<close>

text \<open>
  The errors of the store: the sentinels of \<^verbatim>\<open>store.go\<close>, wrapped with what they are about, and a failure of the
  database itself. A service adds the validation errors of \<^verbatim>\<open>internal/registry/validate.go\<close>; of those the
  field and the code are kept, not the message for people.
\<close>

datatype store_error =
    ErrNotFound string
  | ErrDuplicateCIDR string
  | ErrViewInUse string
  | ErrDuplicateName string
  | ErrDB string

datatype app_error =
    Invalid string string
  | StoreErr store_error
  | OtherErr string

definition lift_store :: "(store_error, 'a) result \<Rightarrow> (app_error, 'a) result" where
  "lift_store r = (case r of Inl e \<Rightarrow> Inl (StoreErr e) | Inr x \<Rightarrow> Inr x)"

section \<open>Identifiers\<close>

text \<open>What SQLite gives an \<^verbatim>\<open>INTEGER PRIMARY KEY\<close> left out of an insertion: one more than the largest in the table.\<close>

definition next_id :: "int list \<Rightarrow> int" where
  "next_id ids = (if ids = [] then 1 else Max (set ids) + 1)"

lemma next_id_fresh: "next_id ids \<notin> set ids"
proof
  assume "next_id ids \<in> set ids"
  then have "ids \<noteq> []" and "next_id ids \<le> Max (set ids)" by (auto simp: next_id_def)
  then show False by (simp add: next_id_def)
qed

lemma next_id_gt: "i \<in> set ids \<Longrightarrow> i < next_id ids"
  using Max_ge [of "set ids" i] by (auto simp: next_id_def)

lemma next_id_pos: "(\<And>i. i \<in> set ids \<Longrightarrow> 0 < i) \<Longrightarrow> 0 < next_id ids"
proof (cases ids)
  case (Cons a rest)
  assume "\<And>i. i \<in> set ids \<Longrightarrow> 0 < i"
  then have "0 < a" using Cons by simp
  then show ?thesis using next_id_gt [of a ids] Cons by simp
qed (simp add: next_id_def)

end
