(* ===== verification/DhcpReserve.thy ===== *)
theory DhcpReserve
  imports DhcpAlloc StoreModel
begin

text \<open>
  Reservations, \<^verbatim>\<open>internal/dhcpd/reserve.go\<close>, and the one spelling of a hardware address,
  \<^verbatim>\<open>normalizeMAC\<close> of \<^verbatim>\<open>internal/dhcpd/server.go\<close>. A claim is a service's bid for a
  reservation; it is judged against all the others, and what survives is a pairing of clients
  and addresses that is one to one.
\<close>

section \<open>Definitions\<close>

definition normalizeMAC :: "string \<Rightarrow> string" where
  "normalizeMAC s0 =
     (let s = TrimSpace s0
      in case ParseMAC s of Some hw \<Rightarrow> show_mac hw | None \<Rightarrow> ToLower s)"

text \<open>The reasons of a problem, and the sentence each one is shown as.\<close>

datatype reason =
    NetworkOrBroadcast addr netprefix
  | NoAddress netprefix
  | ManyAddresses int netprefix
  | MACClaimed int string
  | AddrClaimed int addr

fun reason_text :: "reason \<Rightarrow> string" where
  "reason_text (NetworkOrBroadcast a p) =
     show_addr a @ '' is the network or broadcast address of '' @ show_prefix p @
     '', which no device may be given; give the service another address''"
| "reason_text (NoAddress p) =
     ''no address inside the DHCP subnet '' @ show_prefix p @ ''; give it one to activate the reservation''"
| "reason_text (ManyAddresses n p) =
     show_dec n @ '' addresses inside the DHCP subnet '' @ show_prefix p @ ''; a reservation needs exactly one''"
| "reason_text (MACClaimed n mac) =
     show_dec n @ '' services claim the MAC '' @ mac @ ''; remove it from all but one to activate the reservation''"
| "reason_text (AddrClaimed n a) =
     show_dec n @ '' services claim the address '' @ show_addr a @ ''; give each its own to activate the reservation''"

record reservation_problem =
  rp_Service :: string
  rp_MAC :: string
  rp_Reason :: reason

record claim =
  c_name :: string
  c_mac :: string
  c_addr :: addr
  c_why :: "reason option"

definition broadcastOf :: "netprefix \<Rightarrow> addr" where
  "broadcastOf p =
     (case paddr (Masked p) of Addr4 w \<Rightarrow> Addr4 (w OR mask (32 - pbits p)) | _ \<Rightarrow> AddrZero)"

text \<open>The distinct addresses of a service inside the subnet, the keys of \<^verbatim>\<open>seen\<close>.\<close>

definition seen_in :: "netprefix \<Rightarrow> service \<Rightarrow> addr list" where
  "seen_in subnet svc =
     remdups (filter (Contains subnet)
       (map Unmap (List.map_filter (\<lambda>a. ParseAddr (addr_Address a)) (svc_Addresses svc))))"

definition claim_of :: "netprefix \<Rightarrow> service \<Rightarrow> claim option" where
  "claim_of subnet svc =
     (let mac = normalizeMAC (svc_MAC svc);
          c = \<lparr>c_name = svc_Name svc, c_mac = mac, c_addr = AddrZero, c_why = None\<rparr>
      in if mac = [] then None
         else case seen_in subnet svc of
             [a] \<Rightarrow>
               if a = paddr (Masked subnet) \<or> a = broadcastOf subnet
               then Some (c\<lparr>c_addr := a, c_why := Some (NetworkOrBroadcast a subnet)\<rparr>)
               else Some (c\<lparr>c_addr := a\<rparr>)
           | [] \<Rightarrow> Some (c\<lparr>c_why := Some (NoAddress subnet)\<rparr>)
           | as \<Rightarrow> Some (c\<lparr>c_why := Some (ManyAddresses (int (length as)) subnet)\<rparr>))"

definition tally :: "('a \<Rightarrow> 'b) \<Rightarrow> 'a list \<Rightarrow> 'b \<Rightarrow> nat" where
  "tally f xs k = length (filter (\<lambda>x. f x = k) xs)"

text \<open>The two rounds: a contested client address disables its claims, then a contested address does.\<close>

definition mac_judge :: "claim list \<Rightarrow> claim \<Rightarrow> claim" where
  "mac_judge cs c =
     (let n = tally c_mac cs (c_mac c)
      in if n > 1 then c\<lparr>c_why := Some (MACClaimed (int n) (c_mac c))\<rparr> else c)"

definition mac_round :: "claim list \<Rightarrow> claim list" where
  "mac_round cs = map (mac_judge cs) cs"

definition standing :: "claim list \<Rightarrow> claim list" where
  "standing cs = filter (\<lambda>c. c_why c = None) cs"

definition addr_judge :: "claim list \<Rightarrow> claim \<Rightarrow> claim" where
  "addr_judge cs c =
     (let n = tally c_addr (standing cs) (c_addr c)
      in if c_why c = None \<and> n > 1 then c\<lparr>c_why := Some (AddrClaimed (int n) (c_addr c))\<rparr> else c)"

definition addr_round :: "claim list \<Rightarrow> claim list" where
  "addr_round cs = map (addr_judge cs) cs"

definition Reservations ::
  "service list \<Rightarrow> netprefix \<Rightarrow> (string, addr) gomap \<times> reservation_problem list" where
  "Reservations svcs subnet =
     (let cs = addr_round (mac_round (List.map_filter (claim_of subnet) svcs))
      in (fold (\<lambda>c out. m_put (c_mac c) (c_addr c) out) (standing cs) [],
          List.map_filter (\<lambda>c. map_option (\<lambda>w. \<lparr>rp_Service = c_name c, rp_MAC = c_mac c, rp_Reason = w\<rparr>) (c_why c)) cs))"

section \<open>The pairing is one to one\<close>

lemma tally_unique:
  assumes "tally f xs (f x) \<le> 1" and "x \<in> set xs" and "y \<in> set xs" and "f x = f y"
  shows "x = y"
proof -
  have "x \<in> set (filter (\<lambda>z. f z = f x) xs)" "y \<in> set (filter (\<lambda>z. f z = f x) xs)" using assms(2-4) by auto
  moreover obtain z where "set (filter (\<lambda>z. f z = f x) xs) \<subseteq> {z}"
    using assms(1) unfolding tally_def
    by (cases "filter (\<lambda>z. f z = f x) xs"; cases "tl (filter (\<lambda>z. f z = f x) xs)") auto
  ultimately show ?thesis by blast
qed

lemma in_map_filter: "y \<in> set (List.map_filter f xs) \<longleftrightarrow> (\<exists>x \<in> set xs. f x = Some y)"
  by (auto simp: List.map_filter_def image_iff)

lemma judge_sel [simp]: "c_mac (mac_judge cs c) = c_mac c" "c_mac (addr_judge cs c) = c_mac c"
  by (simp_all add: mac_judge_def addr_judge_def Let_def)

lemma mac_judge_None:
  "c_why (mac_judge cs c) = None \<longleftrightarrow> c_why c = None \<and> tally c_mac cs (c_mac c) \<le> 1"
  "tally c_mac cs (c_mac c) \<le> 1 \<Longrightarrow> mac_judge cs c = c"
  by (simp_all add: mac_judge_def Let_def)

lemma addr_judge_None:
  "c_why (addr_judge cs c) = None \<longleftrightarrow> c_why c = None \<and> tally c_addr (standing cs) (c_addr c) \<le> 1"
  "tally c_addr (standing cs) (c_addr c) \<le> 1 \<Longrightarrow> addr_judge cs c = c"
  by (auto simp: addr_judge_def Let_def not_less)

lemma mac_round_standing:
  "c \<in> set (standing (mac_round cs)) \<longleftrightarrow> c \<in> set cs \<and> c_why c = None \<and> tally c_mac cs (c_mac c) \<le> 1"
  unfolding standing_def mac_round_def
  by (auto simp: mac_judge_None image_iff intro: bexI [of _ c])

lemma addr_round_standing:
  "c \<in> set (standing (addr_round cs)) \<longleftrightarrow>
     c \<in> set (standing cs) \<and> tally c_addr (standing cs) (c_addr c) \<le> 1"
proof
  assume "c \<in> set (standing (addr_round cs))"
  then obtain d where "d \<in> set cs" "c = addr_judge cs d" "c_why (addr_judge cs d) = None"
    by (auto simp: standing_def addr_round_def)
  then show "c \<in> set (standing cs) \<and> tally c_addr (standing cs) (c_addr c) \<le> 1"
    using addr_judge_None [of cs d] by (auto simp: standing_def)
next
  assume h: "c \<in> set (standing cs) \<and> tally c_addr (standing cs) (c_addr c) \<le> 1"
  then have "addr_judge cs c = c" "c \<in> set cs" "c_why c = None"
    using addr_judge_None(2) by (auto simp: standing_def)
  then show "c \<in> set (standing (addr_round cs))"
    unfolding standing_def addr_round_def by (auto simp: image_iff intro!: bexI [of _ c])
qed

lemma fold_put_get:
  assumes "\<And>c d. c \<in> set cs \<Longrightarrow> d \<in> set cs \<Longrightarrow> c_mac c = c_mac d \<Longrightarrow> c = d"
  shows "m_get (fold (\<lambda>c out. m_put (c_mac c) (c_addr c) out) cs []) mac = Some ip \<longleftrightarrow>
    (\<exists>c \<in> set cs. c_mac c = mac \<and> c_addr c = ip)"
proof -
  have eq: "m_get (fold (\<lambda>c out. m_put (c_mac c) (c_addr c) out) cs []) mac =
    (case find (\<lambda>c. c_mac c = mac) (rev cs) of Some c \<Rightarrow> Some (c_addr c) | None \<Rightarrow> m_get [] mac)"
    by (rule fold_last_writer) auto
  show ?thesis
  proof (cases "find (\<lambda>c. c_mac c = mac) (rev cs)")
    case None
    then have "\<forall>c \<in> set cs. c_mac c \<noteq> mac" by (simp add: find_rev_None)
    then show ?thesis using None by (auto simp: eq)
  next
    case (Some d)
    then have "d \<in> set cs" "c_mac d = mac" by (auto dest: find_SomeD)
    then show ?thesis using eq Some assms by auto
  qed
qed

text \<open>What a standing claim says of the service that made it.\<close>

lemma claim_of_mac: "claim_of subnet svc = Some c \<Longrightarrow> c_mac c = normalizeMAC (svc_MAC svc) \<and> c_mac c \<noteq> [] \<and> c_name c = svc_Name svc"
  by (auto simp: claim_of_def Let_def split: if_splits list.splits)

lemma claim_of_None: "claim_of subnet svc = None \<longleftrightarrow> normalizeMAC (svc_MAC svc) = []"
  by (auto simp: claim_of_def Let_def split: list.splits)

lemma claim_of_standing:
  assumes "claim_of subnet svc = Some c" and "c_why c = None"
  shows "seen_in subnet svc = [c_addr c]" and "c_addr c \<noteq> paddr (Masked subnet)" and "c_addr c \<noteq> broadcastOf subnet"
  using assms by (auto simp: claim_of_def Let_def split: if_splits list.splits)

lemma tally_claims:
  "tally c_mac (List.map_filter (claim_of subnet) svcs) mac =
     (if mac = [] then 0 else tally (\<lambda>s. normalizeMAC (svc_MAC s)) svcs mac)"
proof (induction svcs)
  case Nil
  then show ?case by (simp add: tally_def List.map_filter_simps)
next
  case (Cons s svcs)
  then show ?case
    using claim_of_mac [of subnet s] claim_of_None [of subnet s]
    by (cases "claim_of subnet s") (auto simp: tally_def List.map_filter_simps)
qed

definition bids :: "service list \<Rightarrow> netprefix \<Rightarrow> claim list" where
  "bids svcs subnet = List.map_filter (claim_of subnet) svcs"

lemma Reservations_get:
  "m_get (fst (Reservations svcs subnet)) mac = Some ip \<longleftrightarrow>
     (\<exists>c \<in> set (standing (addr_round (mac_round (bids svcs subnet)))). c_mac c = mac \<and> c_addr c = ip)"
  unfolding Reservations_def Let_def fst_conv bids_def [symmetric]
proof (rule fold_put_get)
  fix c d
  assume "c \<in> set (standing (addr_round (mac_round (bids svcs subnet))))"
    "d \<in> set (standing (addr_round (mac_round (bids svcs subnet))))" "c_mac c = c_mac d"
  then show "c = d"
    using tally_unique [of c_mac "bids svcs subnet" c d] by (auto simp: addr_round_standing mac_round_standing)
qed

lemma Reservations_problem:
  "(\<exists>p \<in> set (snd (Reservations svcs subnet)). rp_MAC p = mac) \<longleftrightarrow>
     (\<exists>c \<in> set (addr_round (mac_round (bids svcs subnet))). c_mac c = mac \<and> c_why c \<noteq> None)"
  unfolding Reservations_def Let_def snd_conv bids_def [symmetric]
  by (auto simp: in_map_filter Bex_def) fastforce

lemma rounds_macs: "c_mac ` set (addr_round (mac_round cs)) = c_mac ` set cs"
  by (simp add: addr_round_def mac_round_def image_image)

text \<open>A claim that stands comes out of both rounds as it went in.\<close>

lemma rounds_origin:
  assumes "c \<in> set (addr_round (mac_round cs))"
  shows "\<exists>b \<in> set cs. c_mac b = c_mac c \<and> (b \<in> set (standing (addr_round (mac_round cs))) \<longrightarrow> c = b)"
proof -
  from assms obtain b where b: "b \<in> set cs" "c = addr_judge (mac_round cs) (mac_judge cs b)"
    by (auto simp: addr_round_def mac_round_def)
  have "c = b" if "b \<in> set (standing (addr_round (mac_round cs)))"
    using that b(2) mac_judge_None(2) [of cs b] addr_judge_None(2) [of "mac_round cs" b]
    by (simp add: addr_round_standing mac_round_standing)
  with b show ?thesis by auto
qed

lemma Reservations_reserved:
  assumes "m_get (fst (Reservations svcs subnet)) mac = Some ip"
  obtains c where "c \<in> set (bids svcs subnet)" and "c \<in> set (standing (addr_round (mac_round (bids svcs subnet))))"
    and "c_mac c = mac" and "c_addr c = ip" and "c_why c = None"
    and "tally c_mac (bids svcs subnet) mac \<le> 1"
    and "c \<in> set (standing (mac_round (bids svcs subnet)))"
    and "tally c_addr (standing (mac_round (bids svcs subnet))) ip \<le> 1"
  using assms that by (auto simp: Reservations_get addr_round_standing mac_round_standing)

lemma Reservations_None_iff:
  assumes "mac \<in> c_mac ` set (bids svcs subnet)"
  shows "m_get (fst (Reservations svcs subnet)) mac = None \<longleftrightarrow>
    (\<exists>p \<in> set (snd (Reservations svcs subnet)). rp_MAC p = mac)"
proof
  let ?cs = "addr_round (mac_round (bids svcs subnet))"
  assume none: "m_get (fst (Reservations svcs subnet)) mac = None"
  from assms obtain c where c: "c \<in> set ?cs" "c_mac c = mac" using rounds_macs [of "bids svcs subnet"] by (metis imageE)
  have "c \<notin> set (standing ?cs)" using c none Reservations_get [of svcs subnet mac "c_addr c"] by auto
  with c(1) have "c_why c \<noteq> None" by (simp add: standing_def)
  with c show "\<exists>p \<in> set (snd (Reservations svcs subnet)). rp_MAC p = mac" by (auto simp: Reservations_problem)
next
  let ?cs = "addr_round (mac_round (bids svcs subnet))"
  assume "\<exists>p \<in> set (snd (Reservations svcs subnet)). rp_MAC p = mac"
  then obtain c where c: "c \<in> set ?cs" "c_mac c = mac" "c_why c \<noteq> None" by (auto simp: Reservations_problem)
  from rounds_origin [OF c(1)] obtain b where b: "b \<in> set (bids svcs subnet)" "c_mac b = mac"
    "b \<in> set (standing ?cs) \<Longrightarrow> c = b" using c(2) by auto
  show "m_get (fst (Reservations svcs subnet)) mac = None"
  proof (rule ccontr)
    assume "m_get (fst (Reservations svcs subnet)) mac \<noteq> None"
    then obtain ip where "m_get (fst (Reservations svcs subnet)) mac = Some ip" by blast
    then obtain d where d: "d \<in> set (bids svcs subnet)" "d \<in> set (standing ?cs)" "c_mac d = mac"
      "tally c_mac (bids svcs subnet) mac \<le> 1" "c_why d = None" by (rule Reservations_reserved)
    then have "d = b" using tally_unique [of c_mac "bids svcs subnet" d b] b(1,2) by simp
    with d b(3) c(3) show False by simp
  qed
qed

text \<open>
  C36: a reservation pairs one client with one address. Every reserved address lies in the DHCP
  subnet and is neither its network nor its broadcast address; exactly one service names the
  client, that address is the only one it has in the subnet, and no other client has it.
  A client that some service names either has a reservation or is reported as a problem,
  never both and never neither.
\<close>

theorem Reservations_one_to_one:
  assumes "svc \<in> set svcs" and "normalizeMAC (svc_MAC svc) = mac" and "mac \<noteq> []"
  shows "(m_get (fst (Reservations svcs subnet)) mac = None \<longleftrightarrow>
            (\<exists>p \<in> set (snd (Reservations svcs subnet)). rp_MAC p = mac)) \<and>
         (\<forall>ip. m_get (fst (Reservations svcs subnet)) mac = Some ip \<longrightarrow>
            Contains subnet ip \<and> ip \<noteq> paddr (Masked subnet) \<and> ip \<noteq> broadcastOf subnet \<and>
            seen_in subnet svc = [ip] \<and>
            tally (\<lambda>s. normalizeMAC (svc_MAC s)) svcs mac = 1 \<and>
            (\<forall>mac'. m_get (fst (Reservations svcs subnet)) mac' = Some ip \<longrightarrow> mac' = mac))"
proof (intro conjI [OF Reservations_None_iff] allI impI)
  obtain b where b: "claim_of subnet svc = Some b" "b \<in> set (bids svcs subnet)" "c_mac b = mac"
    using assms claim_of_None [of subnet svc] claim_of_mac [of subnet svc] by (auto simp: bids_def in_map_filter)
  then show "mac \<in> c_mac ` set (bids svcs subnet)" by auto
  fix ip
  assume "m_get (fst (Reservations svcs subnet)) mac = Some ip"
  then obtain c where c: "c \<in> set (bids svcs subnet)" "c_mac c = mac" "c_addr c = ip" "c_why c = None"
    "tally c_mac (bids svcs subnet) mac \<le> 1" "c \<in> set (standing (mac_round (bids svcs subnet)))"
    "tally c_addr (standing (mac_round (bids svcs subnet))) ip \<le> 1" by (rule Reservations_reserved)
  have "b = c" using tally_unique [of c_mac "bids svcs subnet" c b] b(2,3) c(1,2,5) by simp
  note st = claim_of_standing [OF b(1) [unfolded \<open>b = c\<close>] c(4), unfolded c(3)]
  have "ip \<in> set (seen_in subnet svc)" by (simp add: st)
  then have "Contains subnet ip" by (auto simp: seen_in_def)
  moreover have "tally (\<lambda>s. normalizeMAC (svc_MAC s)) svcs mac = 1"
  proof -
    have "svc \<in> set (filter (\<lambda>s. normalizeMAC (svc_MAC s) = mac) svcs)" using assms by simp
    then have "0 < tally (\<lambda>s. normalizeMAC (svc_MAC s)) svcs mac" unfolding tally_def by (rule length_pos_if_in_set)
    then show ?thesis using c(5) tally_claims [of subnet svcs mac] assms(3) by (simp add: bids_def)
  qed
  moreover have "mac' = mac" if other: "m_get (fst (Reservations svcs subnet)) mac' = Some ip" for mac'
  proof -
    from other obtain d where "c_mac d = mac'" "c_addr d = ip" "d \<in> set (standing (mac_round (bids svcs subnet)))"
      by (rule Reservations_reserved)
    then show ?thesis using tally_unique [OF _ c(6), of c_addr d] c(2,3,7) by simp
  qed
  ultimately show "Contains subnet ip \<and> ip \<noteq> paddr (Masked subnet) \<and> ip \<noteq> broadcastOf subnet \<and>
            seen_in subnet svc = [ip] \<and>
            tally (\<lambda>s. normalizeMAC (svc_MAC s)) svcs mac = 1 \<and>
            (\<forall>mac'. m_get (fst (Reservations svcs subnet)) mac' = Some ip \<longrightarrow> mac' = mac)"
    using st by blast
qed

definition lan_service :: "string \<Rightarrow> string \<Rightarrow> string list \<Rightarrow> service" where
  "lan_service n mac as =
     \<lparr>svc_ID = 1, svc_Name = n, svc_Addresses = map (\<lambda>a. \<lparr>addr_ID = 1, addr_Address = a, addr_View = []\<rparr>) as,
      svc_Aliases = [], svc_CheckURL = [], svc_CheckInsecure = False, svc_ProxyAddress = [],
      svc_RouteViaProxy = False, svc_MAC = mac\<rparr>"

definition lan_services :: "service list" where
  "lan_services =
     [lan_service ''nas'' ''02-00-00-00-00-0A'' [''10.0.0.50'', ''100.64.0.5''],
      lan_service ''tv'' ''02:00:00:00:00:0b'' [''10.0.0.51''],
      lan_service ''tv2'' ''02:00:00:00:00:0c'' [''10.0.0.51'']]"

theorem Reservations_one_to_one_witness:
  "m_get (fst (Reservations lan_services (Prefix (Addr4 0x0A000000) 24))) ''02:00:00:00:00:0a'' = Some (Addr4 0x0A000032) \<and>
   Contains (Prefix (Addr4 0x0A000000) 24) (Addr4 0x0A000032) \<and>
   map rp_Reason (snd (Reservations lan_services (Prefix (Addr4 0x0A000000) 24))) =
     [AddrClaimed 2 (Addr4 0x0A000033), AddrClaimed 2 (Addr4 0x0A000033)]"
proof -
  let ?s = "lan_service ''nas'' ''02-00-00-00-00-0A'' [''10.0.0.50'', ''100.64.0.5'']"
  let ?r = "Reservations lan_services (Prefix (Addr4 0x0A000000) 24)"
  have s: "?s \<in> set lan_services" by (simp add: lan_services_def)
  have n: "normalizeMAC (svc_MAC ?s) = ''02:00:00:00:00:0a''" by code_simp
  have r: "m_get (fst ?r) ''02:00:00:00:00:0a'' = Some (Addr4 0x0A000032)"
    "map rp_Reason (snd ?r) = [AddrClaimed 2 (Addr4 0x0A000033), AddrClaimed 2 (Addr4 0x0A000033)]" by code_simp+
  from Reservations_one_to_one [OF s n, of "Prefix (Addr4 0x0A000000) 24"] r show ?thesis by blast
qed

text \<open>Handed to the allocator, the pairing makes its two reservation maps inverse to each other.\<close>

lemma SetReservations_inverse:
  assumes "m_wf r" and "\<And>mac mac' ip. m_get r mac = Some ip \<Longrightarrow> m_get r mac' = Some ip \<Longrightarrow> mac = mac'"
  shows "m_get (reserved (SetReservations r a)) mac = m_get r mac"
    and "m_get (reservedIP (SetReservations r a)) ip = Some mac \<longleftrightarrow> m_get r mac = Some ip"
proof -
  have mem: "(m, i) \<in> set r \<longleftrightarrow> m_get r m = Some i" for m i using m_get_iff [OF assms(1)] by blast
  let ?f = "\<lambda>(mac, ip) (a :: allocator). a\<lparr>reserved := m_put mac ip (reserved a), reservedIP := m_put ip mac (reservedIP a)\<rparr>"
  have 1: "m_get (reserved (fold ?f r (a\<lparr>reserved := [], reservedIP := []\<rparr>))) mac =
     (case find (\<lambda>e. fst e = mac) (rev r) of Some e \<Rightarrow> Some (snd e) | None \<Rightarrow> m_get (reserved (a\<lparr>reserved := [], reservedIP := []\<rparr>)) mac)"
    by (rule fold_last_writer) (auto split: prod.split)
  have 2: "m_get (reservedIP (fold ?f r (a\<lparr>reserved := [], reservedIP := []\<rparr>))) ip =
     (case find (\<lambda>e. snd e = ip) (rev r) of Some e \<Rightarrow> Some (fst e) | None \<Rightarrow> m_get (reservedIP (a\<lparr>reserved := [], reservedIP := []\<rparr>)) ip)"
    by (rule fold_last_writer) (auto split: prod.split)
  show "m_get (reserved (SetReservations r a)) mac = m_get r mac"
  proof (cases "find (\<lambda>e. fst e = mac) (rev r)")
    case None
    then have "m_get r mac = None" by (auto simp: find_rev_None m_get_None_iff)
    with None 1 show ?thesis by (simp add: SetReservations_def)
  next
    case (Some e)
    then have "e \<in> set r" "fst e = mac" by (auto dest: find_SomeD)
    then have "m_get r mac = Some (snd e)" using mem [of "fst e" "snd e", unfolded prod.collapse] by simp
    with Some 1 show ?thesis by (simp add: SetReservations_def)
  qed
  show "m_get (reservedIP (SetReservations r a)) ip = Some mac \<longleftrightarrow> m_get r mac = Some ip"
  proof (cases "find (\<lambda>e. snd e = ip) (rev r)")
    case None
    then have "m_get r mac \<noteq> Some ip" using mem by (fastforce simp: find_rev_None)
    with None 2 show ?thesis by (simp add: SetReservations_def)
  next
    case (Some e)
    then have "e \<in> set r" "snd e = ip" by (auto dest: find_SomeD)
    then have "m_get r (fst e) = Some ip" using mem [of "fst e" "snd e", unfolded prod.collapse] by simp
    with Some 2 show ?thesis using assms(2) by (auto simp: SetReservations_def)
  qed
qed

end
