(* ===== verification/DhcpServer.thy ===== *)
theory DhcpServer
  imports DhcpReserve
begin

text \<open>
  The packet path of the built-in DHCP server, \<^verbatim>\<open>internal/dhcpd/server.go\<close>, over the allocator
  and the lease table of \<^verbatim>\<open>internal/store/dhcplease.go\<close>.

  A packet is what the \<^verbatim>\<open>dhcpv4\<close> library decodes: the fields and options the code reads. A
  reply is the list of modifiers the code hands to that library. What the world answers while a
  packet is handled (the clock, the address probe, whether a database statement succeeds) is the
  environment \<open>denv\<close>; the clock is read once per packet.
\<close>

section \<open>The lease table\<close>

type_synonym lease_table = "dhcp_lease_row list"

definition DHCPLeases :: "lease_table \<Rightarrow> dhcp_lease_row list" where
  "DHCPLeases t = sort_key dl_IP t"

definition upsert_row :: "dhcp_lease_row \<Rightarrow> lease_table \<Rightarrow> lease_table" where
  "upsert_row l t =
     (if list_ex (\<lambda>r. dl_MAC r = dl_MAC l) t
      then map (\<lambda>r. if dl_MAC r = dl_MAC l then l else r) t else t @ [l])"

definition PutDHCPLease :: "dhcp_lease_row \<Rightarrow> lease_table \<Rightarrow> lease_table" where
  "PutDHCPLease l t = upsert_row l (filter (\<lambda>r. \<not> (dl_IP r = dl_IP l \<and> dl_MAC r \<noteq> dl_MAC l)) t)"

definition DeleteDHCPLease :: "string \<Rightarrow> lease_table \<Rightarrow> lease_table" where
  "DeleteDHCPLease mac t = filter (\<lambda>r. dl_MAC r \<noteq> mac) t"

definition DeleteExpiredDHCPLeases :: "int \<Rightarrow> lease_table \<Rightarrow> lease_table \<times> int" where
  "DeleteExpiredDHCPLeases now t =
     (let keep = filter (\<lambda>r. \<not> dl_ExpiresAt r \<le> now) t in (keep, int (length t) - int (length keep)))"

section \<open>Messages and state\<close>

datatype message_type =
    Discover | OfferMsg | Request | DeclineMsg | Ack | Nak | ReleaseMsg | Inform | NoType

record dmsg =
  m_XID :: "32 word"
  m_Type :: message_type
  m_ClientHWAddr :: "int list"
  m_ClientIPAddr :: "int list"
  m_RequestedIPAddress :: "int list"
  m_ServerIdentifier :: "int list"
  m_HostName :: string

datatype modifier =
    WithMessageType message_type
  | WithServerIP addr
  | OptServerIdentifier addr
  | OptSubnetMask nat
  | OptIPAddressLeaseTime int
  | WithYourIP addr
  | OptRouter addr
  | OptDNS "addr list"
  | OptDomainName string

text \<open>What handling a packet does outside the server: sends a reply, or calls \<^verbatim>\<open>OnChange\<close>.\<close>

datatype deffect = Send "modifier list" | OnChange

record doptions =
  o_Addr :: addr
  o_Cfg :: config
  o_DNS :: "addr list"
  o_Domain :: string

record denv =
  e_now :: int
  e_InUse :: "addr \<Rightarrow> bool"
  e_put_ok :: bool
  e_del_ok :: bool

record dserver =
  sv_Alloc :: allocator
  sv_Store :: lease_table
  sv_ignored :: "(32 word, bool) gomap"

definition offerHold :: int where
  "offerHold = 60 * 1000000000"

definition unix :: "int \<Rightarrow> int" where
  "unix t = t div 1000000000"

definition AddrFromSlice :: "int list \<Rightarrow> addr option" where
  "AddrFromSlice bs =
     (if length bs = 4 then Some (Addr4 (of_octets bs))
      else if length bs = 16 then Some (Addr6 (word_of_int (foldl (\<lambda>a b. a * 256 + b) 0 bs)) [])
      else None)"

section \<open>Untrusted text\<close>

definition hostname_char :: "char \<Rightarrow> bool" where
  "hostname_char c = (is_lower c \<or> is_digit c \<or> c = CHR ''-'')"

definition sanitizeHostname :: "string \<Rightarrow> string" where
  "sanitizeHostname h0 =
     (let h = takeWhile (\<lambda>c. c \<noteq> CHR ''.'') (ToLower (TrimSpace h0))
      in if h = [] \<or> length h > 63 then []
         else if \<not> list_all hostname_char h then []
         else if hd h = CHR ''-'' \<or> last h = CHR ''-'' then []
         else h)"

section \<open>Replies\<close>

definition toIPs :: "addr list \<Rightarrow> addr list" where
  "toIPs as = filter addr_valid as"

definition reply :: "doptions \<Rightarrow> message_type \<Rightarrow> addr \<Rightarrow> deffect" where
  "reply opt t yours =
     Send ([WithMessageType t, WithServerIP (o_Addr opt), OptServerIdentifier (o_Addr opt),
            OptSubnetMask (pbits (Subnet (o_Cfg opt))), OptIPAddressLeaseTime (LeaseTime (o_Cfg opt))] @
           (if addr_valid yours then [WithYourIP yours] else []) @
           (if addr_valid (Gateway (o_Cfg opt)) then [OptRouter (Gateway (o_Cfg opt))] else []) @
           (if toIPs (o_DNS opt) \<noteq> [] then [OptDNS (toIPs (o_DNS opt))] else []) @
           (if o_Domain opt \<noteq> [] then [OptDomainName (o_Domain opt)] else []))"

definition nak :: "doptions \<Rightarrow> deffect" where
  "nak opt = Send [WithMessageType Nak, OptServerIdentifier (o_Addr opt)]"

definition named_addr :: "int list \<Rightarrow> addr option" where
  "named_addr bs =
     (case AddrFromSlice bs of
        None \<Rightarrow> None
      | Some a \<Rightarrow> let b = Unmap a in if addr_valid b \<and> \<not> IsUnspecified b then Some b else None)"

definition askedFor :: "dmsg \<Rightarrow> addr" where
  "askedFor m =
     (case named_addr (m_RequestedIPAddress m) of
        Some a \<Rightarrow> a
      | None \<Rightarrow> (case named_addr (m_ClientIPAddr m) of Some a \<Rightarrow> a | None \<Rightarrow> AddrZero))"

section \<open>Allocation for a packet\<close>

definition requested_addr :: "dmsg \<Rightarrow> addr" where
  "requested_addr m =
     (case AddrFromSlice (m_RequestedIPAddress m) of Some ip \<Rightarrow> Unmap ip | None \<Rightarrow> AddrZero)"

definition srv_offer :: "denv \<Rightarrow> string \<Rightarrow> dmsg \<Rightarrow> allocator \<Rightarrow> lease option \<times> allocator" where
  "srv_offer e mac m a =
     (case Offer a (e_now e) mac (requested_addr m) offerHold of
        (None, a1) \<Rightarrow> (None, a1)
      | (Some (l, fresh), a1) \<Rightarrow>
          if fresh \<and> e_InUse e (l_IP l)
          then let a2 = Quarantine a1 (e_now e) (l_IP l);
                   a3 = snd (Release a2 mac (l_IP l));
                   (r, a4) = Offer a3 (e_now e) mac AddrZero offerHold
               in (map_option fst r, a4)
          else (Some l, a1))"

definition srv_request :: "doptions \<Rightarrow> denv \<Rightarrow> string \<Rightarrow> dmsg \<Rightarrow> allocator \<Rightarrow> lease option \<times> allocator" where
  "srv_request opt e mac m a =
     Allocate a (e_now e) mac (sanitizeHostname (m_HostName m)) (requested_addr m) (LeaseTime (o_Cfg opt))"

definition srv_allocate ::
  "doptions \<Rightarrow> denv \<Rightarrow> string \<Rightarrow> dmsg \<Rightarrow> bool \<Rightarrow> allocator \<Rightarrow> lease option \<times> allocator" where
  "srv_allocate opt e mac m commit_it a =
     (if \<not> commit_it then srv_offer e mac m a else srv_request opt e mac m a)"

section \<open>Handlers\<close>

definition offer :: "doptions \<Rightarrow> denv \<Rightarrow> dmsg \<Rightarrow> string \<Rightarrow> dserver \<Rightarrow> dserver \<times> deffect list" where
  "offer opt e m mac s =
     (case srv_allocate opt e mac m False (sv_Alloc s) of
        (None, a) \<Rightarrow> (s\<lparr>sv_Alloc := a\<rparr>, [])
      | (Some l, a) \<Rightarrow> (s\<lparr>sv_Alloc := a\<rparr>, [reply opt OfferMsg (l_IP l)]))"

definition lease_row :: "denv \<Rightarrow> lease \<Rightarrow> dhcp_lease_row" where
  "lease_row e l =
     \<lparr>dl_MAC = l_MAC l, dl_IP = show_addr (l_IP l), dl_Hostname = l_Hostname l,
      dl_ExpiresAt = unix (l_Expires l), dl_LastSeen = unix (e_now e)\<rparr>"

definition ack :: "doptions \<Rightarrow> denv \<Rightarrow> dmsg \<Rightarrow> string \<Rightarrow> dserver \<Rightarrow> dserver \<times> deffect list" where
  "ack opt e m mac s =
     (let asked = askedFor m
      in if addr_valid asked \<and> \<not> Contains (Subnet (o_Cfg opt)) asked then (s, [nak opt])
         else (case srv_allocate opt e mac m True (sv_Alloc s) of
             (None, a) \<Rightarrow> (s\<lparr>sv_Alloc := a\<rparr>, [nak opt])
           | (Some l, a) \<Rightarrow>
               if addr_valid asked \<and> l_IP l \<noteq> asked then (s\<lparr>sv_Alloc := a\<rparr>, [nak opt])
               else (s\<lparr>sv_Alloc := a,
                       sv_Store := (if e_put_ok e then PutDHCPLease (lease_row e l) (sv_Store s) else sv_Store s)\<rparr>,
                     [reply opt Ack (l_IP l), OnChange])))"

definition delete_row :: "denv \<Rightarrow> string \<Rightarrow> dserver \<Rightarrow> dserver" where
  "delete_row e mac s = (if e_del_ok e then s\<lparr>sv_Store := DeleteDHCPLease mac (sv_Store s)\<rparr> else s)"

definition on_release :: "doptions \<Rightarrow> denv \<Rightarrow> dmsg \<Rightarrow> string \<Rightarrow> dserver \<Rightarrow> dserver \<times> deffect list" where
  "on_release opt e m mac s =
     (case (AddrFromSlice (m_ClientIPAddr m), AddrFromSlice (m_ServerIdentifier m)) of
        (Some ip, Some server) \<Rightarrow>
          if IsUnspecified ip \<or> Unmap server \<noteq> o_Addr opt then (s, [])
          else (case Release (sv_Alloc s) mac (Unmap ip) of
              (False, _) \<Rightarrow> (s, [])
            | (True, a) \<Rightarrow> (delete_row e mac (s\<lparr>sv_Alloc := a\<rparr>), [OnChange]))
      | _ \<Rightarrow> (s, []))"

definition on_decline :: "denv \<Rightarrow> dmsg \<Rightarrow> string \<Rightarrow> dserver \<Rightarrow> dserver \<times> deffect list" where
  "on_decline e m mac s =
     (case AddrFromSlice (m_RequestedIPAddress m) of
        None \<Rightarrow> (s, [])
      | Some ip \<Rightarrow>
          (case Decline (sv_Alloc s) (e_now e) mac (Unmap ip) of
             (False, _) \<Rightarrow> (s, [])
           | (True, a) \<Rightarrow> (delete_row e mac (s\<lparr>sv_Alloc := a\<rparr>), [OnChange])))"

definition inform :: "doptions \<Rightarrow> deffect" where
  "inform opt = reply opt Ack AddrZero"

definition ignoreXID :: "32 word \<Rightarrow> dserver \<Rightarrow> dserver" where
  "ignoreXID xid s = s\<lparr>sv_ignored := m_put xid True (sv_ignored s)\<rparr>"

definition unignoreXID :: "32 word \<Rightarrow> dserver \<Rightarrow> dserver" where
  "unignoreXID xid s = s\<lparr>sv_ignored := m_del xid (sv_ignored s)\<rparr>"

definition isIgnored :: "dserver \<Rightarrow> 32 word \<Rightarrow> bool" where
  "isIgnored s xid = (m_get (sv_ignored s) xid = Some True)"

definition handle :: "doptions \<Rightarrow> denv \<Rightarrow> dmsg option \<Rightarrow> dserver \<Rightarrow> dserver \<times> deffect list" where
  "handle opt e msg s =
     (case msg of
        None \<Rightarrow> (s, [])
      | Some m \<Rightarrow>
          let mac = normalizeMAC (show_mac (m_ClientHWAddr m))
          in if mac = [] then (s, [])
             else if isIgnored s (m_XID m) then (s, [])
             else (case m_Type m of
                 Discover \<Rightarrow> offer opt e m mac s
               | Request \<Rightarrow> ack opt e m mac s
               | ReleaseMsg \<Rightarrow> on_release opt e m mac s
               | DeclineMsg \<Rightarrow> on_decline e m mac s
               | Inform \<Rightarrow> (s, [inform opt])
               | _ \<Rightarrow> (s, [])))"

section \<open>Restart and publication\<close>

definition row_lease :: "dhcp_lease_row \<Rightarrow> lease option" where
  "row_lease r =
     map_option (\<lambda>ip. \<lparr>l_MAC = dl_MAC r, l_IP = ip, l_Hostname = dl_Hostname r,
                      l_Expires = dl_ExpiresAt r * 1000000000\<rparr>) (ParseAddr (dl_IP r))"

text \<open>\<^verbatim>\<open>restore\<close>: whether it succeeded, and the server. The two flags say whether each of the two
  database calls does; the server does not start when one fails.\<close>

definition restore :: "bool \<Rightarrow> bool \<Rightarrow> int \<Rightarrow> dserver \<Rightarrow> bool \<times> dserver" where
  "restore prune_ok rows_ok now s =
     (if \<not> prune_ok then (False, s)
      else let t = fst (DeleteExpiredDHCPLeases (unix now) (sv_Store s)); s1 = s\<lparr>sv_Store := t\<rparr>
      in if \<not> rows_ok then (False, s1)
         else (True, s1\<lparr>sv_Alloc := Load (List.map_filter row_lease (DHCPLeases t)) (sv_Alloc s1)\<rparr>))"

record disc_lease =
  d_MAC :: string
  d_IP :: string
  d_Hostname :: string
  d_Expires :: int

definition srv_Leases :: "dserver \<Rightarrow> int \<Rightarrow> disc_lease list" where
  "srv_Leases s now =
     map (\<lambda>l. \<lparr>d_MAC = l_MAC l, d_IP = show_addr (l_IP l), d_Hostname = l_Hostname l, d_Expires = l_Expires l\<rparr>)
       (filter (\<lambda>l. l_Hostname l \<noteq> []) (sort_key l_IP (Leases (sv_Alloc s) now)))"

section \<open>The lease table keeps its keys\<close>

text \<open>
  What the server relies on of the lease table: one row per client and one per address, a stored
  row is there until it is deleted, replaced or expired, and storing a row clears whatever row
  would share a key with it.
\<close>

locale lease_store =
  fixes put :: "dhcp_lease_row \<Rightarrow> 's \<Rightarrow> 's"
    and del :: "string \<Rightarrow> 's \<Rightarrow> 's"
    and prune :: "int \<Rightarrow> 's \<Rightarrow> 's"
    and rows :: "'s \<Rightarrow> dhcp_lease_row list"
    and ok :: "'s \<Rightarrow> bool"
  assumes rows_put: "set (rows (put r s)) = insert r {x \<in> set (rows s). dl_MAC x \<noteq> dl_MAC r \<and> dl_IP x \<noteq> dl_IP r}"
    and rows_del: "set (rows (del m s)) = {x \<in> set (rows s). dl_MAC x \<noteq> m}"
    and rows_prune: "set (rows (prune t s)) = {x \<in> set (rows s). t < dl_ExpiresAt x}"
    and ok_put: "ok s \<Longrightarrow> ok (put r s)"
    and ok_del: "ok s \<Longrightarrow> ok (del m s)"
    and ok_prune: "ok s \<Longrightarrow> ok (prune t s)"
    and ok_keys: "ok s \<Longrightarrow> distinct (map dl_MAC (rows s)) \<and> distinct (map dl_IP (rows s))"
begin

lemma put_survives: "t < dl_ExpiresAt r \<Longrightarrow> r \<in> set (rows (prune t (put r s)))"
  by (simp add: rows_put rows_prune)

lemma rows_all:
  assumes "\<forall>x \<in> set (rows s). P x"
  shows "P r \<Longrightarrow> \<forall>x \<in> set (rows (put r s)). P x" and "\<forall>x \<in> set (rows (del m s)). P x"
    and "\<forall>x \<in> set (rows (prune t s)). P x"
  using assms by (auto simp: rows_put rows_del rows_prune)

lemma one_row:
  "ok s \<Longrightarrow> x \<in> set (rows s) \<Longrightarrow> y \<in> set (rows s) \<Longrightarrow> dl_MAC x = dl_MAC y \<or> dl_IP x = dl_IP y \<Longrightarrow> x = y"
  using ok_keys [of s] by (auto simp: distinct_map dest: inj_onD)

end

definition table_keys :: "lease_table \<Rightarrow> bool" where
  "table_keys t = (distinct (map dl_MAC t) \<and> distinct (map dl_IP t))"

lemma table_keysI: "distinct (map dl_MAC t) \<Longrightarrow> inj_on dl_IP (set t) \<Longrightarrow> table_keys t"
  by (simp add: table_keys_def distinct_map)

lemma table_keysD: "table_keys t \<Longrightarrow> distinct (map dl_MAC (sort_key dl_IP t)) \<and> distinct (map dl_IP (sort_key dl_IP t))"
  by (simp add: table_keys_def distinct_map)

lemma table_keys_filter: "table_keys t \<Longrightarrow> table_keys (filter P t)"
  by (auto simp: table_keys_def distinct_map intro: inj_on_subset)

lemma set_PutDHCPLease:
  "set (PutDHCPLease r t) = insert r {x \<in> set t. dl_MAC x \<noteq> dl_MAC r \<and> dl_IP x \<noteq> dl_IP r}"
  by (auto simp: PutDHCPLease_def upsert_row_def list_ex_iff image_iff)

lemma PutDHCPLease_keys:
  assumes "table_keys t"
  shows "table_keys (PutDHCPLease r t)"
proof (rule table_keysI)
  let ?u = "filter (\<lambda>x. \<not> (dl_IP x = dl_IP r \<and> dl_MAC x \<noteq> dl_MAC r)) t"
  have "distinct (map dl_MAC ?u)" using table_keys_filter [OF assms] by (simp add: table_keys_def)
  moreover have c: "dl_MAC \<circ> (\<lambda>x. if dl_MAC x = dl_MAC r then r else x) = dl_MAC" by auto
  ultimately show "distinct (map dl_MAC (PutDHCPLease r t))"
    unfolding PutDHCPLease_def upsert_row_def by (auto simp: list_ex_iff c)
  have "inj_on dl_IP (set t)" using assms by (simp add: table_keys_def distinct_map)
  then show "inj_on dl_IP (set (PutDHCPLease r t))"
    by (auto simp: set_PutDHCPLease inj_on_def)
qed

interpretation lease_tab: lease_store PutDHCPLease DeleteDHCPLease "\<lambda>t s. fst (DeleteExpiredDHCPLeases t s)"
    DHCPLeases table_keys
  by unfold_locales
     (auto simp: DHCPLeases_def set_PutDHCPLease DeleteDHCPLease_def DeleteExpiredDHCPLeases_def Let_def
       intro: PutDHCPLease_keys table_keys_filter dest: table_keysD)

section \<open>Restart\<close>

definition rows4 :: "lease_table \<Rightarrow> bool" where
  "rows4 t = (\<forall>r \<in> set (DHCPLeases t). \<exists>w. dl_IP r = show4 w)"

lemma row_lease_4:
  assumes "dl_IP r = show4 w"
  shows "row_lease r = Some \<lparr>l_MAC = dl_MAC r, l_IP = Addr4 w, l_Hostname = dl_Hostname r,
    l_Expires = dl_ExpiresAt r * 1000000000\<rparr>"
  using assms by (simp add: row_lease_def parse_show4)

lemma map_filter_total: "\<forall>x \<in> set xs. f x \<noteq> None \<Longrightarrow> List.map_filter f xs = map (\<lambda>x. the (f x)) xs"
  by (induction xs) (auto simp: List.map_filter_simps)

lemma restored_leases:
  assumes "rows4 t"
  shows "List.map_filter row_lease (DHCPLeases t) = map (\<lambda>r. the (row_lease r)) (DHCPLeases t)"
  using assms by (intro map_filter_total) (auto simp: rows4_def row_lease_4)

lemma row_lease_inj:
  assumes "rows4 t" and "x \<in> set (DHCPLeases t)" and "y \<in> set (DHCPLeases t)"
    and "l_IP (the (row_lease x)) = l_IP (the (row_lease y))"
  shows "dl_IP x = dl_IP y"
proof -
  from assms(1-3) obtain v w where "dl_IP x = show4 v" "dl_IP y = show4 w" unfolding rows4_def by blast
  then show ?thesis using assms(4) by (simp add: row_lease_4)
qed

lemma restored_load_ok:
  assumes "table_keys t" and "rows4 t"
  shows "load_ok (List.map_filter row_lease (DHCPLeases t))"
proof -
  have macs: "map l_MAC (map (\<lambda>r. the (row_lease r)) (DHCPLeases t)) = map dl_MAC (DHCPLeases t)"
    using assms(2) by (auto simp: rows4_def row_lease_4)
  have "distinct (DHCPLeases t)" and inj: "inj_on dl_IP (set (DHCPLeases t))"
    using lease_tab.ok_keys [OF assms(1)] by (auto simp: distinct_map)
  moreover have "inj_on (\<lambda>r. l_IP (the (row_lease r))) (set (DHCPLeases t))"
    by (rule inj_onI) (metis row_lease_inj [OF assms(2)] inj inj_onD)
  ultimately have "distinct (map l_IP (map (\<lambda>r. the (row_lease r)) (DHCPLeases t)))"
    by (simp add: distinct_map comp_def)
  then show ?thesis
    using lease_tab.ok_keys [OF assms(1)] macs by (simp only: load_ok_def restored_leases [OF assms(2)])
qed

end
