(* ===== verification/DhcpSafety.thy ===== *)
theory DhcpSafety
  imports DhcpServer
begin

text \<open>
  What the DHCP server promises its clients across packets, reservation changes, database
  failures and restarts: the invariant of the allocator together with its lease table, the
  contract of REQUEST and DISCOVER, and that an acknowledged lease survives a restart.
\<close>

section \<open>The server invariant\<close>

definition res4 :: "allocator \<Rightarrow> bool" where
  "res4 a = (\<forall>mac ip. m_get (reserved a) mac = Some ip \<longrightarrow> is4 ip)"

definition srv_inv :: "dserver \<Rightarrow> bool" where
  "srv_inv s = (alloc_inv (sv_Alloc s) \<and> res4 (sv_Alloc s) \<and> table_keys (sv_Store s) \<and> rows4 (sv_Store s))"

lemma allocate_reserved:
  "reserved (snd (allocate a now mac hn requested ttl tentative)) = reserved a"
  "cfg (snd (allocate a now mac hn requested ttl tentative)) = cfg a"
  using allocate_outcome [of a now mac hn requested ttl tentative]
  by (cases rule: alloc_outcome.cases; simp add: commit_frame)+

lemma inRange_is4: "inRange c ip \<Longrightarrow> is4 ip"
  by (auto simp: inRange_def split: if_splits)

lemma is4E: "is4 ip \<Longrightarrow> (\<And>w. ip = Addr4 w \<Longrightarrow> thesis) \<Longrightarrow> thesis"
  by (cases ip) auto

lemma allocate_is4:
  assumes "res4 a" and "fst (allocate a now mac hn requested ttl False) = Some (l, fresh)"
  shows "is4 (l_IP l)"
  using allocate_outcome [of a now mac hn requested ttl False] assms
  by (cases rule: alloc_outcome.cases)
     (auto simp: commit_fst res4_def usable_def dest!: free_usable intro: inRange_is4)

lemma allocate_MAC:
  assumes "alloc_inv a" and "fst (allocate a now mac hn requested ttl tentative) = Some (l, fresh)"
  shows "l_MAC l = mac"
  using allocate_outcome [of a now mac hn requested ttl tentative] assms
  by (cases rule: alloc_outcome.cases) (auto simp: commit_fst dest: prev_leaseD alloc_invD(3))

lemma Release_reserved: "reserved (snd (Release a mac ip)) = reserved a"
  by (auto simp: Release_def split: option.split)

lemma Decline_reserved: "reserved (snd (Decline a now mac ip)) = reserved a"
  by (auto simp: Decline_def Let_def)

lemma Load_reserved: "reserved (Load ls a) = reserved a"
  unfolding Load_def by (subst fold_keeps) simp_all

definition alloc_ok :: "allocator \<Rightarrow> bool" where
  "alloc_ok a = (alloc_inv a \<and> res4 a)"

lemma alloc_ok_steps:
  assumes "alloc_ok a"
  shows "alloc_ok (snd (allocate a now mac hn requested ttl tentative))"
    and "alloc_ok (snd (Release a mac ip))" and "alloc_ok (snd (Decline a now mac ip))"
    and "alloc_ok (Quarantine a now ip)"
  using assms
  by (auto simp: alloc_ok_def res4_def allocate_inv Release_inv Decline_inv Quarantine_inv allocate_reserved
      Release_reserved Decline_reserved Quarantine_def [of a] intro: alloc_inv_maps)

lemma srv_inv_alt: "srv_inv s \<longleftrightarrow> alloc_ok (sv_Alloc s) \<and> table_keys (sv_Store s) \<and> rows4 (sv_Store s)"
  by (auto simp: srv_inv_def alloc_ok_def)

lemma srv_offer_ok: "alloc_ok a \<Longrightarrow> alloc_ok (snd (srv_offer e mac m a))"
  using alloc_ok_steps
  by (auto simp: srv_offer_def Offer_def Let_def split: option.splits prod.splits) (metis snd_conv)+

lemma rows4_put: "rows4 t \<Longrightarrow> dl_IP r = show4 w \<Longrightarrow> rows4 (PutDHCPLease r t)"
  unfolding rows4_def by (rule lease_tab.rows_all) auto

lemma rows4_del: "rows4 t \<Longrightarrow> rows4 (DeleteDHCPLease mac t)"
  unfolding rows4_def by (rule lease_tab.rows_all)

lemma rows4_prune: "rows4 t \<Longrightarrow> rows4 (fst (DeleteExpiredDHCPLeases now t))"
  unfolding rows4_def by (rule lease_tab.rows_all)

text \<open>The outcomes of a REQUEST.\<close>

lemma ack_cases:
  obtains (refused) "addr_valid (askedFor m)" "\<not> Contains (Subnet (o_Cfg opt)) (askedFor m)" "ack opt e m mac s = (s, [nak opt])"
  | (none) a where "srv_request opt e mac m (sv_Alloc s) = (None, a)" "ack opt e m mac s = (s\<lparr>sv_Alloc := a\<rparr>, [nak opt])"
  | (other) l a where "srv_request opt e mac m (sv_Alloc s) = (Some l, a)" "addr_valid (askedFor m)" "l_IP l \<noteq> askedFor m"
      "ack opt e m mac s = (s\<lparr>sv_Alloc := a\<rparr>, [nak opt])"
  | (granted) l a where "srv_request opt e mac m (sv_Alloc s) = (Some l, a)" "addr_valid (askedFor m) \<longrightarrow> l_IP l = askedFor m"
      "addr_valid (askedFor m) \<longrightarrow> Contains (Subnet (o_Cfg opt)) (askedFor m)"
      "ack opt e m mac s =
         (s\<lparr>sv_Alloc := a, sv_Store := (if e_put_ok e then PutDHCPLease (lease_row e l) (sv_Store s) else sv_Store s)\<rparr>,
          [reply opt Ack (l_IP l), OnChange])"
proof (cases "addr_valid (askedFor m) \<and> \<not> Contains (Subnet (o_Cfg opt)) (askedFor m)")
  case True
  then show thesis using refused by (simp add: ack_def Let_def)
next
  case False
  obtain r a where ra: "srv_request opt e mac m (sv_Alloc s) = (r, a)" by fastforce
  show thesis
  proof (cases r)
    case None
    have "ack opt e m mac s = (s\<lparr>sv_Alloc := a\<rparr>, [nak opt])"
      unfolding ack_def Let_def srv_allocate_def using None ra False by auto
    then show thesis using none [of a] None ra by blast
  next
    case (Some l)
    show thesis
    proof (cases "addr_valid (askedFor m) \<and> l_IP l \<noteq> askedFor m")
      case True
      have "ack opt e m mac s = (s\<lparr>sv_Alloc := a\<rparr>, [nak opt])"
        unfolding ack_def Let_def srv_allocate_def using Some ra False True by auto
      then show thesis using other [of l a] Some ra True by blast
    next
      case nother: False
      have "ack opt e m mac s =
         (s\<lparr>sv_Alloc := a, sv_Store := (if e_put_ok e then PutDHCPLease (lease_row e l) (sv_Store s) else sv_Store s)\<rparr>,
          [reply opt Ack (l_IP l), OnChange])"
        unfolding ack_def Let_def srv_allocate_def using Some ra False nother by auto
      then show thesis using granted [of l a] Some ra False nother by blast
    qed
  qed
qed

lemma srv_request_ok:
  assumes "alloc_ok a" and "srv_request opt e mac m a = (r, a')"
  shows "alloc_ok a'" and "r = Some l \<Longrightarrow> is4 (l_IP l) \<and> l_MAC l = mac"
proof -
  have r: "r = fst (srv_request opt e mac m a)" and a': "a' = snd (srv_request opt e mac m a)" using assms(2) by auto
  show "alloc_ok a'" unfolding a' srv_request_def snd_Allocate by (rule alloc_ok_steps [OF assms(1)])
  show "is4 (l_IP l) \<and> l_MAC l = mac" if "r = Some l"
    using that assms(1) allocate_is4 allocate_MAC
    unfolding r srv_request_def fst_Allocate alloc_ok_def by fastforce
qed

lemma ack_inv:
  assumes "srv_inv s"
  shows "srv_inv (fst (ack opt e m mac s))"
proof -
  note ok = srv_request_ok [of "sv_Alloc s" opt e mac m]
  show ?thesis
  proof (cases rule: ack_cases [of m opt e mac s])
    case (granted l a)
    then have l: "is4 (l_IP l)" and a: "alloc_ok a" using ok assms by (auto simp: srv_inv_alt)
    from l obtain w where "l_IP l = Addr4 w" by (rule is4E)
    then have "rows4 (PutDHCPLease (lease_row e l) (sv_Store s))"
      using assms rows4_put [of "sv_Store s" "lease_row e l" w] by (simp add: srv_inv_alt lease_row_def)
    then show ?thesis using assms a granted lease_tab.ok_put by (simp add: srv_inv_alt)
  qed (use assms ok in \<open>auto simp: srv_inv_alt\<close>)
qed

lemma offer_inv: "srv_inv s \<Longrightarrow> srv_inv (fst (offer opt e m mac s))"
  using srv_offer_ok [of "sv_Alloc s" e mac m]
  by (auto simp: offer_def srv_allocate_def srv_inv_alt split: prod.splits option.splits)

lemma delete_row_inv: "srv_inv s \<Longrightarrow> srv_inv (delete_row e mac s)"
  by (simp add: delete_row_def srv_inv_alt lease_tab.ok_del rows4_del)

lemma release_inv: "srv_inv s \<Longrightarrow> srv_inv (fst (on_release opt e m mac s))"
proof -
  assume inv: "srv_inv s"
  have "srv_inv (delete_row e mac (s\<lparr>sv_Alloc := snd (Release (sv_Alloc s) mac ip)\<rparr>))" for ip
    by (rule delete_row_inv) (use inv alloc_ok_steps(2) in \<open>auto simp: srv_inv_alt\<close>)
  then show ?thesis using inv by (auto simp: on_release_def split: option.splits prod.splits bool.splits) (metis snd_conv)
qed

lemma decline_inv: "srv_inv s \<Longrightarrow> srv_inv (fst (on_decline e m mac s))"
proof -
  assume inv: "srv_inv s"
  have "srv_inv (delete_row e mac (s\<lparr>sv_Alloc := snd (Decline (sv_Alloc s) now mac ip)\<rparr>))" for now ip
    by (rule delete_row_inv) (use inv alloc_ok_steps(3) in \<open>auto simp: srv_inv_alt\<close>)
  then show ?thesis using inv by (auto simp: on_decline_def split: option.splits prod.splits bool.splits) (metis snd_conv)
qed

lemma handle_inv: "srv_inv s \<Longrightarrow> srv_inv (fst (handle opt e msg s))"
  by (auto simp: handle_def Let_def offer_inv ack_inv release_inv decline_inv split: option.split message_type.split)

section \<open>Events\<close>

text \<open>
  The life of a server: packets with what the world answered, changes of the services that hold
  reservations, restarts (a new process with an empty allocator, whose two database calls may
  fail), and the probes that make it ignore a transaction.
\<close>

datatype devent =
    Packet denv "dmsg option"
  | SetServices "service list"
  | Restart "service list" bool bool int
  | ProbeStart "32 word"
  | ProbeEnd "32 word"

fun dexec :: "doptions \<Rightarrow> devent \<Rightarrow> dserver \<Rightarrow> dserver" where
  "dexec opt (Packet e m) s = fst (handle opt e m s)"
| "dexec opt (SetServices svcs) s =
     s\<lparr>sv_Alloc := SetReservations (fst (Reservations svcs (Subnet (o_Cfg opt)))) (sv_Alloc s)\<rparr>"
| "dexec opt (Restart svcs prune_ok rows_ok now) s =
     snd (restore prune_ok rows_ok now
       \<lparr>sv_Alloc = SetReservations (fst (Reservations svcs (Subnet (o_Cfg opt)))) (NewAllocator (o_Cfg opt)),
        sv_Store = sv_Store s, sv_ignored = []\<rparr>)"
| "dexec opt (ProbeStart xid) s = ignoreXID xid s"
| "dexec opt (ProbeEnd xid) s = unignoreXID xid s"

definition boot :: "doptions \<Rightarrow> dserver" where
  "boot opt = \<lparr>sv_Alloc = NewAllocator (o_Cfg opt), sv_Store = [], sv_ignored = []\<rparr>"

lemma Reservations_wf: "m_wf (fst (Reservations svcs subnet))"
  unfolding Reservations_def Let_def fst_conv by (rule fold_invariant) auto

lemma Contains_is4_addr: "is4 (paddr p) \<Longrightarrow> Contains p ip \<Longrightarrow> is4 ip"
  by (cases p; cases ip; cases "paddr p") auto

lemma Reservations_is4:
  assumes "is4 (paddr subnet)" and "m_get (fst (Reservations svcs subnet)) mac = Some ip"
  shows "is4 ip"
proof -
  from assms(2) obtain c where c: "c \<in> set (bids svcs subnet)" "c_addr c = ip" "c_why c = None"
    by (rule Reservations_reserved)
  then obtain svc where "claim_of subnet svc = Some c" by (auto simp: bids_def in_map_filter)
  from claim_of_standing(1) [OF this c(3)] c(2) have "ip \<in> set (seen_in subnet svc)" by simp
  then have "Contains subnet ip" by (auto simp: seen_in_def)
  with assms(1) show ?thesis by (rule Contains_is4_addr)
qed

lemma SetReservations_res4:
  assumes "m_wf r" and "\<And>mac ip. m_get r mac = Some ip \<Longrightarrow> is4 ip"
  shows "res4 (SetReservations r a)"
  unfolding SetReservations_def
proof (rule fold_invariant)
  fix e b
  assume "e \<in> set r" and "res4 (b :: allocator)"
  moreover obtain mac ip where "e = (mac, ip)" by (cases e)
  ultimately show "res4 ((\<lambda>(mac, ip) a. a\<lparr>reserved := m_put mac ip (reserved a), reservedIP := m_put ip mac (reservedIP a)\<rparr>) e b)"
    using assms m_get_iff [OF assms(1)] by (auto simp: res4_def)
qed (simp add: res4_def)

lemma reserve_ok:
  assumes "is4 (paddr subnet)" and "alloc_inv a"
  shows "alloc_ok (SetReservations (fst (Reservations svcs subnet)) a)"
  using SetReservations_inv [OF assms(2)] SetReservations_res4 [OF Reservations_wf Reservations_is4 [OF assms(1)]]
  by (simp add: alloc_ok_def)

lemma restore_inv:
  assumes "srv_inv s"
  shows "srv_inv (snd (restore prune_ok rows_ok now s))"
proof -
  let ?t = "fst (DeleteExpiredDHCPLeases (unix now) (sv_Store s))"
  have t: "table_keys ?t" "rows4 ?t" using assms lease_tab.ok_prune rows4_prune by (auto simp: srv_inv_alt)
  from Load_inv [OF restored_load_ok [OF t]] have "alloc_ok (Load (List.map_filter row_lease (DHCPLeases ?t)) (sv_Alloc s))"
    using assms by (simp add: alloc_ok_def srv_inv_alt res4_def Load_reserved)
  with t assms show ?thesis by (simp add: restore_def Let_def srv_inv_alt)
qed

lemma dexec_inv:
  assumes "is4 (paddr (Subnet (o_Cfg opt)))" and "srv_inv s"
  shows "srv_inv (dexec opt ev s)"
proof (cases ev)
  case (Packet e m)
  then show ?thesis using handle_inv [OF assms(2)] by simp
next
  case (SetServices svcs)
  then show ?thesis using assms reserve_ok [OF assms(1)] by (simp add: srv_inv_alt alloc_ok_def)
next
  case (Restart svcs prune_ok rows_ok now)
  let ?a = "SetReservations (fst (Reservations svcs (Subnet (o_Cfg opt)))) (NewAllocator (o_Cfg opt))"
  have "srv_inv \<lparr>sv_Alloc = ?a, sv_Store = sv_Store s, sv_ignored = []\<rparr>"
    using assms reserve_ok [OF assms(1) NewAllocator_inv] by (simp add: srv_inv_alt)
  then show ?thesis using Restart restore_inv by simp
qed (use assms in \<open>simp_all add: srv_inv_alt ignoreXID_def unignoreXID_def\<close>)

lemma boot_inv: "srv_inv (boot opt)"
  by (simp add: srv_inv_alt boot_def alloc_ok_def NewAllocator_inv res4_def table_keys_def rows4_def DHCPLeases_def)
     (simp add: NewAllocator_def)

lemma run_inv: "is4 (paddr (Subnet (o_Cfg opt))) \<Longrightarrow> srv_inv (fold (dexec opt) evs (boot opt))"
  by (rule fold_invariant) (simp_all add: dexec_inv boot_inv)

section \<open>What an ACK is worth\<close>

lemma reply_inj:
  assumes "reply opt t ip = reply opt t' ip'" and "addr_valid ip"
  shows "t = t' \<and> ip = ip'"
  using assms by (auto simp: reply_def split: if_splits)

lemma handle_ack:
  assumes "handle opt e (Some m) s = (s', [reply opt Ack ip, OnChange])"
  shows "ack opt e m (normalizeMAC (show_mac (m_ClientHWAddr m))) s = (s', [reply opt Ack ip, OnChange])"
  using assms
  by (auto simp: handle_def Let_def inform_def offer_def on_release_def on_decline_def
      split: message_type.splits if_splits option.splits prod.splits bool.splits)

lemma commit_expires: "l_Expires (commit_lease a mac hn now ttl False ip) = now + ttl"
  by (simp add: commit_lease_def split: option.split)

lemma allocate_expires:
  assumes "fst (allocate a now mac hn requested ttl False) = Some (l, fresh)"
  shows "l_Expires l = now + ttl"
  using allocate_outcome [of a now mac hn requested ttl False] assms
  by (cases rule: alloc_outcome.cases) (auto simp: commit_fst commit_expires)

lemma granted_lease:
  assumes "srv_inv s" and "handle opt e (Some m) s = (s', [reply opt Ack ip, OnChange])" and "e_put_ok e"
  obtains l where "l_IP l = ip" "is4 ip" "l_MAC l = normalizeMAC (show_mac (m_ClientHWAddr m))"
    "l_Expires l = e_now e + LeaseTime (o_Cfg opt)" "sv_Store s' = PutDHCPLease (lease_row e l) (sv_Store s)"
proof -
  let ?mac = "normalizeMAC (show_mac (m_ClientHWAddr m))"
  have ok: "alloc_ok (sv_Alloc s)" using assms(1) by (simp add: srv_inv_alt)
  note eq = handle_ack [OF assms(2)]
  show thesis
  proof (cases rule: ack_cases [of m opt e ?mac s])
    case (granted l a)
    from srv_request_ok(2) [OF ok granted(1)] have l: "is4 (l_IP l)" "l_MAC l = ?mac" by simp_all
    then have "addr_valid (l_IP l)" by (cases "l_IP l") (auto simp: addr_valid_def)
    moreover have "reply opt Ack (l_IP l) = reply opt Ack ip" using granted(4) eq by simp
    ultimately have ip: "l_IP l = ip" using reply_inj by blast
    from granted(1) obtain f where "fst (allocate (sv_Alloc s) (e_now e) ?mac (sanitizeHostname (m_HostName m))
        (requested_addr m) (LeaseTime (o_Cfg opt)) False) = Some (l, f)"
      by (auto simp: srv_request_def Allocate_def split: prod.splits)
    then have "l_Expires l = e_now e + LeaseTime (o_Cfg opt)" by (rule allocate_expires)
    then show thesis using that l ip granted(4) eq assms(3) by auto
  qed (use eq in \<open>auto simp: nak_def\<close>)
qed

lemma Load_get:
  assumes "load_ok ls" and "l \<in> set ls"
  shows "m_get (byMAC (Load ls a)) (l_MAC l) = Some l" and "m_get (byIP (Load ls a)) (l_IP l) = Some (l_MAC l)"
proof -
  have "find (\<lambda>x. l_MAC x = l_MAC l) ls \<noteq> None" using assms(2) by (auto simp: find_None_iff)
  then obtain x where x: "find (\<lambda>x. l_MAC x = l_MAC l) ls = Some x" by blast
  then have "x \<in> set ls" "l_MAC x = l_MAC l" by (auto dest: find_SomeD)
  then have "x = l" using assms by (auto simp: load_ok_def distinct_map dest: inj_onD)
  then show m: "m_get (byMAC (Load ls a)) (l_MAC l) = Some l" using x Load_maps(1) [OF assms(1)] by simp
  show "m_get (byIP (Load ls a)) (l_IP l) = Some (l_MAC l)" by (rule alloc_invD(4) [OF Load_inv [OF assms(1)] m])
qed

text \<open>
  C8: an acknowledged lease survives a restart. In any reachable state, when a REQUEST is
  acknowledged and its row is stored, a server restarted before the lease runs out (in whole
  seconds) holds that address for that client again, until the stored time, and until then it is
  free for no other client.
\<close>

theorem acked_lease_survives_restart:
  assumes "is4 (paddr (Subnet (o_Cfg opt)))"
    and "s = fold (dexec opt) evs (boot opt)"
    and "handle opt e (Some m) s = (s', [reply opt Ack ip, OnChange])"
    and "e_put_ok e"
    and "mac = normalizeMAC (show_mac (m_ClientHWAddr m))"
    and "until = unix (e_now e + LeaseTime (o_Cfg opt))" and "unix now < until"
    and "a = sv_Alloc (dexec opt (Restart svcs True True now) s')"
  shows "(\<exists>l. m_get (byMAC a) mac = Some l \<and> l_IP l = ip \<and> l_Expires l = until * 1000000000) \<and>
         (\<forall>mac' t. mac' \<noteq> mac \<longrightarrow> t < until * 1000000000 \<longrightarrow> \<not> free a ip mac' t)"
proof -
  have inv: "srv_inv s" using run_inv [OF assms(1)] assms(2) by simp
  from granted_lease [OF inv assms(3,4)] obtain l where l: "l_IP l = ip" "is4 ip" "l_MAC l = mac"
    "l_Expires l = e_now e + LeaseTime (o_Cfg opt)" "sv_Store s' = PutDHCPLease (lease_row e l) (sv_Store s)"
    using assms(5) by blast
  from l(2) obtain w where w: "ip = Addr4 w" by (rule is4E)
  let ?t = "fst (DeleteExpiredDHCPLeases (unix now) (sv_Store s'))"
  let ?ls = "List.map_filter row_lease (DHCPLeases ?t)"
  let ?l = "\<lparr>l_MAC = mac, l_IP = ip, l_Hostname = l_Hostname l, l_Expires = until * 1000000000\<rparr>"
  have inv': "srv_inv s'" using handle_inv [OF inv, of opt e "Some m"] assms(3) by simp
  have t: "table_keys ?t" "rows4 ?t" using inv' lease_tab.ok_prune rows4_prune by (auto simp: srv_inv_alt)
  have "lease_row e l \<in> set (DHCPLeases ?t)"
    unfolding l(5) by (rule lease_tab.put_survives) (use assms(6,7) l(4) in \<open>simp add: lease_row_def\<close>)
  moreover have "row_lease (lease_row e l) = Some ?l"
    using row_lease_4 [of "lease_row e l" w] l w assms(6) by (simp add: lease_row_def)
  ultimately have mem: "?l \<in> set ?ls" by (auto simp: in_map_filter)
  have a: "a = Load ?ls (SetReservations (fst (Reservations svcs (Subnet (o_Cfg opt)))) (NewAllocator (o_Cfg opt)))"
    using assms(8) by (simp add: restore_def Let_def)
  note get = Load_get [OF restored_load_ok [OF t] mem, folded a]
  have "m_get (byMAC a) mac = Some ?l" "m_get (byIP a) ip = Some mac" using get unfolding a by simp_all
  then show ?thesis by (auto simp: free_def heldByAnotherLocked_def)
qed

definition lan_opt :: doptions where
  "lan_opt = \<lparr>o_Addr = Addr4 0x0A000001, o_Cfg = lan_cfg, o_DNS = [Addr4 0x0A000001], o_Domain = ''lan''\<rparr>"

definition quiet :: "int \<Rightarrow> denv" where
  "quiet now = \<lparr>e_now = now, e_InUse = (\<lambda>_. False), e_put_ok = True, e_del_ok = True\<rparr>"

definition packet :: "message_type \<Rightarrow> int \<Rightarrow> int list \<Rightarrow> string \<Rightarrow> dmsg" where
  "packet t mac requested name =
     \<lparr>m_XID = 7, m_Type = t, m_ClientHWAddr = [2, 0, 0, 0, 0, mac], m_ClientIPAddr = [0, 0, 0, 0],
      m_RequestedIPAddress = requested, m_ServerIdentifier = [10, 0, 0, 1], m_HostName = name\<rparr>"

definition lan_events :: "devent list" where
  "lan_events = [Packet (quiet 1000000000) (Some (packet Discover 10 [] []))]"

theorem acked_lease_survives_restart_witness:
  "let s = fold (dexec lan_opt) lan_events (boot lan_opt);
       s' = fst (handle lan_opt (quiet 2000000000) (Some (packet Request 10 [10, 0, 0, 100] ''NAS'')) s)
   in m_get (byMAC (sv_Alloc (dexec lan_opt (Restart [] True True 9000000000) s'))) ''02:00:00:00:00:0a'' \<noteq> None \<and>
      \<not> free (sv_Alloc (dexec lan_opt (Restart [] True True 9000000000) s')) (Addr4 0x0A000064) ''02:00:00:00:00:0b'' 9000000000"
proof -
  let ?s = "fold (dexec lan_opt) lan_events (boot lan_opt)"
  let ?m = "packet Request 10 [10, 0, 0, 100] ''NAS''"
  let ?h = "handle lan_opt (quiet 2000000000) (Some ?m) ?s"
  have c: "is4 (paddr (Subnet (o_Cfg lan_opt)))" by code_simp
  have "snd ?h = [reply lan_opt Ack (Addr4 0x0A000064), OnChange]" by code_simp
  then have h: "?h = (fst ?h, [reply lan_opt Ack (Addr4 0x0A000064), OnChange])" by (simp add: prod_eq_iff)
  have p: "e_put_ok (quiet 2000000000)" by (simp add: quiet_def)
  have mac: "''02:00:00:00:00:0a'' = normalizeMAC (show_mac (m_ClientHWAddr ?m))" by code_simp
  have u: "3602 = unix (e_now (quiet 2000000000) + LeaseTime (o_Cfg lan_opt))" by code_simp
  have n: "unix 9000000000 < 3602" by code_simp
  from acked_lease_survives_restart [OF c refl h p mac u n refl, of "[]"]
  show ?thesis unfolding Let_def by auto
qed

section \<open>The contract of REQUEST\<close>


lemma allocate_commits:
  assumes "fst (allocate a now mac hn requested ttl False) = Some (l, fresh)"
  shows "m_get (byMAC (snd (allocate a now mac hn requested ttl False))) mac = Some l"
  using allocate_outcome [of a now mac hn requested ttl False] assms
  by (cases rule: alloc_outcome.cases) (auto simp: commit_byMAC commit_fst)

text \<open>
  A REQUEST is answered once, with an ACK or a NAK. An ACK gives exactly the address the
  client named, when it named one, and that address lies in the subnet; it is never the server's or the
  gateway's; and the allocator holds it for this client for the full lease time. A NAK stores nothing.
\<close>

theorem request_contract:
  assumes "srv_inv s" and "m_Type m = Request" and "mac = normalizeMAC (show_mac (m_ClientHWAddr m))"
    and "mac \<noteq> []" and "\<not> isIgnored s (m_XID m)" and "handle opt e (Some m) s = (s', effs)"
  shows "(effs = [nak opt] \<and> sv_Store s' = sv_Store s) \<or>
         (\<exists>ip l. effs = [reply opt Ack ip, OnChange] \<and>
            (addr_valid (askedFor m) \<longrightarrow> ip = askedFor m \<and> Contains (Subnet (o_Cfg opt)) ip) \<and>
            \<not> protected (cfg (sv_Alloc s)) ip \<and>
            m_get (byMAC (sv_Alloc s')) mac = Some l \<and> l_IP l = ip \<and> l_Expires l = e_now e + LeaseTime (o_Cfg opt))"
proof -
  have eq: "ack opt e m mac s = (s', effs)" using assms(2-6) by (simp add: handle_def Let_def)
  show ?thesis
  proof (cases rule: ack_cases [of m opt e mac s])
    case (granted l a)
    from granted(1) obtain f where al: "fst (allocate (sv_Alloc s) (e_now e) mac (sanitizeHostname (m_HostName m))
        (requested_addr m) (LeaseTime (o_Cfg opt)) False) = Some (l, f)"
      and a: "a = snd (allocate (sv_Alloc s) (e_now e) mac (sanitizeHostname (m_HostName m))
        (requested_addr m) (LeaseTime (o_Cfg opt)) False)"
      by (auto simp: srv_request_def Allocate_def split: prod.splits)
    have "sv_Alloc s' = a" "effs = [reply opt Ack (l_IP l), OnChange]" using granted(4) eq by auto
    then show ?thesis
      using granted(2,3) allocate_commits [OF al] allocate_expires [OF al] allocate_not_protected [OF al] a by auto
  qed (use eq in auto)
qed

theorem request_contract_witness:
  "\<exists>l. m_get (byMAC (sv_Alloc (fst (handle lan_opt (quiet 5) (Some (packet Request 10 [10, 0, 0, 101] [])) (boot lan_opt)))))
        ''02:00:00:00:00:0a'' = Some l \<and> l_IP l = Addr4 0x0A000065 \<and> l_Expires l = 5 + 3600000000000"
proof -
  let ?m = "packet Request 10 [10, 0, 0, 101] []"
  let ?h = "handle lan_opt (quiet 5) (Some ?m) (boot lan_opt)"
  have m: "m_Type ?m = Request" "\<not> isIgnored (boot lan_opt) (m_XID ?m)"
    by (simp_all add: packet_def isIgnored_def boot_def)
  have mac: "''02:00:00:00:00:0a'' = normalizeMAC (show_mac (m_ClientHWAddr ?m))" by code_simp
  have e: "snd ?h \<noteq> [nak lan_opt]" "askedFor ?m = Addr4 0x0A000065"
    "e_now (quiet 5) + LeaseTime (o_Cfg lan_opt) = 5 + 3600000000000" by code_simp+
  have h: "?h = (fst ?h, snd ?h)" by simp
  from request_contract [OF boot_inv m(1) mac _ m(2) h] e show ?thesis
    by (auto simp: addr_valid_def)
qed

section \<open>A DISCOVER is harmless\<close>

lemma Offer_fresh:
  assumes "fst (allocate a now mac hn requested ttl True) = Some (l, True)" and "m_get (byMAC a) mac = Some p"
    and "now < l_Expires p"
  shows "protected (cfg a) (l_IP p)"
  using allocate_outcome [of a now mac hn requested ttl True] assms
  by (cases rule: alloc_outcome.cases) (auto simp: commit_fst prev_lease_def)

lemma keeps_lease_trans:
  "keeps_lease a m l \<Longrightarrow> (\<And>l'. m_get (byMAC a) m = Some l' \<Longrightarrow> l_IP l' = l_IP l \<Longrightarrow> l_Expires l \<le> l_Expires l' \<Longrightarrow> keeps_lease b m l') \<Longrightarrow>
   keeps_lease b m l"
  unfolding keeps_lease_def by (metis order_trans)

lemma Release_other: "m \<noteq> mac \<Longrightarrow> m_get (byMAC (snd (Release a mac ip))) m = m_get (byMAC a) m"
  by (auto simp: Release_def split: option.split)

lemma srv_offer_keeps:
  assumes inv: "alloc_inv a" and l: "m_get (byMAC a) m' = Some l" "e_now e < l_Expires l" "\<not> protected (cfg a) (l_IP l)"
  shows "keeps_lease (snd (srv_offer e mac m a)) m' l"
proof -
  obtain r a1 where o1: "Offer a (e_now e) mac (requested_addr m) offerHold = (r, a1)" by fastforce
  have keep1: "keeps_lease a1 m' l"
    using Offer_keeps_leases [OF inv l(1,2), of mac "requested_addr m" offerHold] l(3) o1 by simp
  show ?thesis
  proof (cases "\<exists>l0. r = Some (l0, True) \<and> e_InUse e (l_IP l0)")
    case False
    then show ?thesis using keep1 o1 by (auto simp: srv_offer_def Let_def split: option.splits prod.splits)
  next
    case True
    then obtain l0 where l0: "r = Some (l0, True)" "e_InUse e (l_IP l0)" by blast
    let ?a3 = "snd (Release (Quarantine a1 (e_now e) (l_IP l0)) mac (l_IP l0))"
    have ne: "m' \<noteq> mac"
      using Offer_fresh [of a "e_now e" mac "[]" "requested_addr m" offerHold l0 l] o1 l0(1) l
      by (auto simp: Offer_def)
    have inv1: "alloc_inv a1" using allocate_inv [OF inv] o1 by (simp add: Offer_def) (metis snd_conv)
    then have inv3: "alloc_inv ?a3" by (intro Release_inv Quarantine_inv)
    have same: "m_get (byMAC ?a3) m' = m_get (byMAC a1) m'"
      using Release_other [OF ne] by (simp add: Quarantine_def)
    have "keeps_lease (snd (Offer ?a3 (e_now e) mac AddrZero offerHold)) m' l"
      using keep1
    proof (rule keeps_lease_trans)
      fix l'
      assume "m_get (byMAC a1) m' = Some l'" "l_IP l' = l_IP l" "l_Expires l \<le> l_Expires l'"
      then show "keeps_lease (snd (Offer ?a3 (e_now e) mac AddrZero offerHold)) m' l'"
        using Offer_keeps_leases [OF inv3, of m' l' "e_now e" mac AddrZero offerHold] same l(2) ne by simp
    qed
    then show ?thesis using o1 l0 by (simp add: srv_offer_def Let_def case_prod_beta)
  qed
qed

text \<open>
  A DISCOVER, even one whose address answers the probe, takes nothing away: every unexpired
  lease, the asking client's included, keeps its address and its name and does not expire sooner
  (unless it is on the server's or the gateway's address); the lease table is untouched and the
  zone is not told to rebuild.
\<close>

theorem discover_is_harmless:
  assumes "srv_inv s" and "m_Type m = Discover" and "handle opt e (Some m) s = (s', effs)"
    and "m_get (byMAC (sv_Alloc s)) mac' = Some l" and "e_now e < l_Expires l"
    and "\<not> protected (cfg (sv_Alloc s)) (l_IP l)"
  shows "keeps_lease (sv_Alloc s') mac' l \<and> sv_Store s' = sv_Store s \<and> OnChange \<notin> set effs"
proof (cases "handle opt e (Some m) s = (s, [])")
  case True
  then show ?thesis using assms(3,4) by (auto intro: keeps_lease_same)
next
  case False
  let ?mac = "normalizeMAC (show_mac (m_ClientHWAddr m))"
  have eq: "offer opt e m ?mac s = (s', effs)"
    using assms(2,3) False by (auto simp: handle_def Let_def split: if_splits)
  have "keeps_lease (snd (srv_offer e ?mac m (sv_Alloc s))) mac' l"
    by (rule srv_offer_keeps) (use assms in \<open>auto simp: srv_inv_def\<close>)
  then show ?thesis
    using eq by (auto simp: offer_def srv_allocate_def reply_def split: prod.splits option.splits)
qed

theorem discover_is_harmless_witness:
  "let s = fst (handle lan_opt (quiet 5) (Some (packet Request 10 [10, 0, 0, 101] ''nas'')) (boot lan_opt));
       e = (quiet 6)\<lparr>e_InUse := (\<lambda>_. True)\<rparr>;
       s' = fst (handle lan_opt e (Some (packet Discover 11 [10, 0, 0, 101] [])) s)
   in keeps_lease (sv_Alloc s') ''02:00:00:00:00:0a''
        \<lparr>l_MAC = ''02:00:00:00:00:0a'', l_IP = Addr4 0x0A000065, l_Hostname = ''nas'', l_Expires = 3600000000005\<rparr>"
proof -
  let ?s = "fst (handle lan_opt (quiet 5) (Some (packet Request 10 [10, 0, 0, 101] ''nas'')) (boot lan_opt))"
  let ?e = "(quiet 6)\<lparr>e_InUse := (\<lambda>_. True)\<rparr>"
  let ?m = "packet Discover 11 [10, 0, 0, 101] []"
  let ?l = "\<lparr>l_MAC = ''02:00:00:00:00:0a'', l_IP = Addr4 0x0A000065, l_Hostname = ''nas'', l_Expires = 3600000000005\<rparr>"
  have inv: "srv_inv ?s" by (rule handle_inv [OF boot_inv])
  have h: "handle lan_opt ?e (Some ?m) ?s = (fst (handle lan_opt ?e (Some ?m) ?s), snd (handle lan_opt ?e (Some ?m) ?s))" by simp
  have g: "m_get (byMAC (sv_Alloc ?s)) ''02:00:00:00:00:0a'' = Some ?l" by code_simp
  have p: "\<not> protected (cfg (sv_Alloc ?s)) (l_IP ?l)" by code_simp
  from discover_is_harmless [OF inv _ h g _ p] show ?thesis
    by (simp add: Let_def packet_def quiet_def)
qed

section \<open>Names taken from packets\<close>

definition label_ok :: "string \<Rightarrow> bool" where
  "label_ok h = (h = [] \<or> (length h \<le> 63 \<and> list_all hostname_char h \<and> hd h \<noteq> CHR ''-'' \<and> last h \<noteq> CHR ''-''))"

lemma sanitizeHostname_label: "label_ok (sanitizeHostname h)"
  by (simp add: label_ok_def sanitizeHostname_def Let_def not_less)

definition alloc_labels :: "allocator \<Rightarrow> bool" where
  "alloc_labels a = (\<forall>mac l. m_get (byMAC a) mac = Some l \<longrightarrow> label_ok (l_Hostname l))"

definition srv_labels :: "dserver \<Rightarrow> bool" where
  "srv_labels s = (alloc_labels (sv_Alloc s) \<and> (\<forall>r \<in> set (DHCPLeases (sv_Store s)). label_ok (dl_Hostname r)))"

lemma alloc_labels_sub:
  "alloc_labels a \<Longrightarrow> (\<And>m l. m_get (byMAC b) m = Some l \<Longrightarrow> m_get (byMAC a) m = Some l) \<Longrightarrow> alloc_labels b"
  unfolding alloc_labels_def by blast

lemma commit_labels:
  assumes "alloc_labels a" and "label_ok hn"
  shows "alloc_labels (snd (commit a mac hn now ttl tentative ip fresh))"
    and "label_ok (l_Hostname (commit_lease a mac hn now ttl tentative ip))"
proof -
  show l: "label_ok (l_Hostname (commit_lease a mac hn now ttl tentative ip))"
    using assms by (auto simp: commit_lease_def alloc_labels_def split: option.split)
  show "alloc_labels (snd (commit a mac hn now ttl tentative ip fresh))"
    using assms(1) l by (auto simp: alloc_labels_def commit_byMAC split: if_splits)
qed

lemma allocate_labels:
  assumes "alloc_labels a" and "label_ok hn"
  shows "alloc_labels (snd (allocate a now mac hn requested ttl tentative))"
    and "fst (allocate a now mac hn requested ttl False) = Some (l, fresh) \<Longrightarrow> label_ok (l_Hostname l)"
proof -
  have hn: "label_ok (if nameTakenLocked a hn mac now then [] else hn)" using assms(2) by (simp add: label_ok_def)
  show "alloc_labels (snd (allocate a now mac hn requested ttl tentative))"
    using allocate_outcome [of a now mac hn requested ttl tentative]
    by (cases rule: alloc_outcome.cases) (use commit_labels(1) [OF assms(1) hn] assms(1) in auto)
  show "label_ok (l_Hostname l)" if "fst (allocate a now mac hn requested ttl False) = Some (l, fresh)"
    using allocate_outcome [of a now mac hn requested ttl False]
    by (cases rule: alloc_outcome.cases) (use that commit_labels(2) [OF assms(1) hn] in \<open>auto simp: commit_fst\<close>)
qed

lemma Release_labels: "alloc_labels a \<Longrightarrow> alloc_labels (snd (Release a mac ip))"
  by (erule alloc_labels_sub) (auto simp: Release_def split: option.splits if_splits)

lemma Decline_labels: "alloc_labels a \<Longrightarrow> alloc_labels (snd (Decline a now mac ip))"
  by (erule alloc_labels_sub) (auto simp: Decline_def Let_def split: if_splits)

lemma Quarantine_labels: "alloc_labels (Quarantine a now ip) = alloc_labels a"
  by (simp add: alloc_labels_def Quarantine_def)

lemma label_ok_Nil [simp]: "label_ok []"
  by (simp add: label_ok_def)

lemma srv_offer_labels: "alloc_labels a \<Longrightarrow> alloc_labels (snd (srv_offer e mac m a))"
  by (auto simp: srv_offer_def Offer_def Let_def case_prod_beta split: option.split)
     (auto intro!: allocate_labels(1) Release_labels simp: Quarantine_labels)

lemma ack_labels:
  assumes "srv_labels s"
  shows "srv_labels (fst (ack opt e m mac s))"
proof -
  let ?r = "allocate (sv_Alloc s) (e_now e) mac (sanitizeHostname (m_HostName m)) (requested_addr m) (LeaseTime (o_Cfg opt)) False"
  have lab: "alloc_labels (snd ?r)" "fst ?r = Some (l, f) \<Longrightarrow> label_ok (l_Hostname l)" for l f
    using allocate_labels [of "sv_Alloc s" "sanitizeHostname (m_HostName m)"] assms sanitizeHostname_label
    by (auto simp: srv_labels_def)
  have req: "srv_request opt e mac m (sv_Alloc s) = (map_option fst (fst ?r), snd ?r)"
    by (simp add: srv_request_def Allocate_def split: prod.split)
  show ?thesis
  proof (cases rule: ack_cases [of m opt e mac s])
    case (granted l a)
    then obtain f where "fst ?r = Some (l, f)" "a = snd ?r" using req by auto
    then have "label_ok (dl_Hostname (lease_row e l))" "alloc_labels a" using lab by (auto simp: lease_row_def)
    then show ?thesis
      using assms granted(4) lease_tab.rows_all(1) [of "sv_Store s" "\<lambda>r. label_ok (dl_Hostname r)" "lease_row e l"]
      by (simp add: srv_labels_def)
  qed (use assms lab req in \<open>auto simp: srv_labels_def\<close>)
qed

lemma delete_row_labels:
  assumes "srv_labels s" and "alloc_labels a"
  shows "srv_labels (delete_row e mac (s\<lparr>sv_Alloc := a\<rparr>))"
  using assms lease_tab.rows_all(2) [of "sv_Store s" "\<lambda>r. label_ok (dl_Hostname r)"]
  by (simp add: srv_labels_def delete_row_def)

lemma handle_labels:
  assumes "srv_labels s"
  shows "srv_labels (fst (handle opt e msg s))"
proof -
  have a: "alloc_labels (sv_Alloc s)" using assms by (simp add: srv_labels_def)
  have "srv_labels (fst (offer opt e m mac s))" for m mac
    using assms srv_offer_labels [OF a, of e mac m]
    by (auto simp: offer_def srv_allocate_def srv_labels_def split: prod.splits option.splits)
  moreover have "srv_labels (fst (on_release opt e m mac s))" for m mac
  proof -
    have "srv_labels (delete_row e mac (s\<lparr>sv_Alloc := snd (Release (sv_Alloc s) mac ip)\<rparr>))" for ip
      by (rule delete_row_labels [OF assms Release_labels [OF a]])
    then show ?thesis using assms by (auto simp: on_release_def split: option.splits prod.splits bool.splits) (metis snd_conv)
  qed
  moreover have "srv_labels (fst (on_decline e m mac s))" for m mac
  proof -
    have "srv_labels (delete_row e mac (s\<lparr>sv_Alloc := snd (Decline (sv_Alloc s) now mac ip)\<rparr>))" for now ip
      by (rule delete_row_labels [OF assms Decline_labels [OF a]])
    then show ?thesis using assms by (auto simp: on_decline_def split: option.splits prod.splits bool.splits) (metis snd_conv)
  qed
  ultimately show ?thesis
    using assms ack_labels by (auto simp: handle_def Let_def split: option.split message_type.split)
qed

lemma Load_labels: "(\<forall>l \<in> set ls. label_ok (l_Hostname l)) \<Longrightarrow> alloc_labels (Load ls a)"
  unfolding Load_def by (rule fold_invariant) (auto simp: alloc_labels_def split: if_splits)

lemma restore_labels:
  assumes "srv_labels s"
  shows "srv_labels (snd (restore prune_ok rows_ok now s))"
proof -
  let ?t = "fst (DeleteExpiredDHCPLeases (unix now) (sv_Store s))"
  have t: "\<forall>r \<in> set (DHCPLeases ?t). label_ok (dl_Hostname r)"
    using assms lease_tab.rows_all(3) [of "sv_Store s" "\<lambda>r. label_ok (dl_Hostname r)"] by (simp add: srv_labels_def)
  then have "alloc_labels (Load (List.map_filter row_lease (DHCPLeases ?t)) (sv_Alloc s))"
    by (intro Load_labels) (auto simp: in_map_filter row_lease_def)
  with t assms show ?thesis by (simp add: restore_def Let_def srv_labels_def)
qed

lemma dexec_labels: "srv_labels s \<Longrightarrow> srv_labels (dexec opt ev s)"
proof (cases ev)
  case (Restart svcs prune_ok rows_ok now)
  assume "srv_labels s"
  then have "srv_labels \<lparr>sv_Alloc = SetReservations (fst (Reservations svcs (Subnet (o_Cfg opt)))) (NewAllocator (o_Cfg opt)),
      sv_Store = sv_Store s, sv_ignored = []\<rparr>"
    by (simp add: srv_labels_def alloc_labels_def SetReservations_maps) (simp add: NewAllocator_def)
  with Restart show ?thesis using restore_labels by simp
next
  case (Packet e m)
  assume "srv_labels s"
  with Packet show ?thesis by (simp add: handle_labels)
qed (simp_all add: srv_labels_def alloc_labels_def SetReservations_maps ignoreXID_def unignoreXID_def)

lemma boot_labels: "srv_labels (boot opt)"
  by (simp add: srv_labels_def alloc_labels_def boot_def NewAllocator_def DHCPLeases_def)

lemma run_labels: "srv_labels (fold (dexec opt) evs (boot opt))"
  by (rule fold_invariant) (simp_all add: dexec_labels boot_labels)

text \<open>
  Whatever clients send as their hostname, after any run of the server, restarts included,
  every name it publishes to the zone is a DNS label: between 1 and 63 characters, lower-case letters, digits and
  hyphens only, with no hyphen at either end.
\<close>

theorem published_names_are_labels:
  assumes "is4 (paddr (Subnet (o_Cfg opt)))"
    and "d \<in> set (srv_Leases (fold (dexec opt) evs (boot opt)) now)"
  shows "d_Hostname d \<noteq> [] \<and> length (d_Hostname d) \<le> 63 \<and> list_all hostname_char (d_Hostname d) \<and>
    hd (d_Hostname d) \<noteq> CHR ''-'' \<and> last (d_Hostname d) \<noteq> CHR ''-''"
proof -
  let ?a = "sv_Alloc (fold (dexec opt) evs (boot opt))"
  from assms(2) obtain l where l: "l \<in> set (Leases ?a now)" "l_Hostname l \<noteq> []" "d_Hostname d = l_Hostname l"
    by (auto simp: srv_Leases_def)
  then obtain mac where "(mac, l) \<in> set (byMAC ?a)" by (auto simp: Leases_def)
  moreover have "m_wf (byMAC ?a)" using run_inv [OF assms(1)] alloc_invD(1) by (auto simp: srv_inv_def)
  ultimately have "m_get (byMAC ?a) mac = Some l" by (simp add: m_get_iff)
  with run_labels [of opt evs] have "label_ok (l_Hostname l)" by (auto simp: srv_labels_def alloc_labels_def)
  with l show ?thesis by (simp add: label_ok_def)
qed

theorem published_names_are_labels_witness:
  "map d_Hostname (srv_Leases (fold (dexec lan_opt)
      [Packet (quiet 1) (Some (packet Request 10 [] ''NAS.home.example'')),
       Packet (quiet 2) (Some (packet Request 11 [] ''-x''))] (boot lan_opt)) 3) = [''nas''] \<and>
   list_all hostname_char ''nas''"
proof -
  let ?evs = "[Packet (quiet 1) (Some (packet Request 10 [] ''NAS.home.example'')),
       Packet (quiet 2) (Some (packet Request 11 [] ''-x''))]"
  let ?ls = "srv_Leases (fold (dexec lan_opt) ?evs (boot lan_opt)) 3"
  have c: "is4 (paddr (Subnet (o_Cfg lan_opt)))" by code_simp
  have names: "map d_Hostname ?ls = [''nas'']" by code_simp
  then obtain d where d: "d \<in> set ?ls" "d_Hostname d = ''nas''" by (cases ?ls) auto
  from published_names_are_labels [OF c d(1)] d(2) names show ?thesis by simp
qed

section \<open>A refused REQUEST\<close>

definition asks_gateway :: "int \<Rightarrow> devent" where
  "asks_gateway n = Packet (quiet n) (Some (packet Request n [10, 0, 0, 2] ''printer''))"

lemma nak_evaluates:
  "snd (handle lan_opt (quiet 1) (Some (packet Request 1 [10, 0, 0, 2] ''printer'')) (boot lan_opt)) = [nak lan_opt]"
  "let s = fold (dexec lan_opt) [asks_gateway 1, asks_gateway 2, asks_gateway 3] (boot lan_opt)
   in snd (handle lan_opt (quiet 3599000000000) (Some (packet Discover 4 [] [])) s) = [] \<and>
      map d_Hostname (srv_Leases s 3599000000000) = [''printer''] \<and> sv_Store s = []"
  by code_simp+

text \<open>
  A REQUEST that is refused still takes an address. A client that asks for the gateway's
  address is answered with a NAK, but the allocator has already committed it to a pool address for the full
  lease time, under the name it sent: on a pool of three, three such requests from three clients,
  none of them acknowledged and nothing stored, leave no address to offer a fourth
  for the whole lease time, and the refused name is published.
\<close>

theorem refused_request_takes_an_address:
  "snd (handle lan_opt (quiet 1) (Some (packet Request 1 [10, 0, 0, 2] ''printer'')) (boot lan_opt)) = [nak lan_opt] \<and>
   (let s = fold (dexec lan_opt) [asks_gateway 1, asks_gateway 2, asks_gateway 3] (boot lan_opt)
    in snd (handle lan_opt (quiet 3599000000000) (Some (packet Discover 4 [] [])) s) = [] \<and>
       map d_Hostname (srv_Leases s 3599000000000) = [''printer''] \<and> sv_Store s = [])"
  using nak_evaluates by blast

end
