(* ===== verification/Policy.thy ===== *)
theory Policy
  imports StoreModel Netip "HOL-Library.Product_Lexorder"
begin

text \<open>
  What is filtered: \<^verbatim>\<open>internal/policy/normalize.go\<close>, \<^verbatim>\<open>set.go\<close>, \<^verbatim>\<open>snapshot.go\<close> and \<^verbatim>\<open>holder.go\<close>.
  \<^verbatim>\<open>idna.Lookup.ToASCII\<close> is outside the sources and is the argument \<open>toASCII\<close>, \<open>None\<close> when it fails.
\<close>

section \<open>Domain names\<close>

definition maxName :: nat where "maxName = 253"
definition maxLabel :: nat where "maxLabel = 63"

definition label_char :: "char \<Rightarrow> bool" where
  "label_char c = (is_lower c \<or> is_digit c \<or> c = CHR ''-'')"

definition validLabel :: "string \<Rightarrow> bool" where
  "validLabel s =
     (s \<noteq> [] \<and> length s \<le> maxLabel \<and> hd s \<noteq> CHR ''-'' \<and> last s \<noteq> CHR ''-'' \<and> list_all label_char s)"

definition Normalize :: "(string \<Rightarrow> string option) \<Rightarrow> string \<Rightarrow> string option" where
  "Normalize toASCII name =
     (let n = TrimSuffix (ToLower (TrimSpace name)) ''.''
      in if n = [] then None
         else if ParseAddr n \<noteq> None then None
         else case toASCII n of
           None \<Rightarrow> None
         | Some a \<Rightarrow>
             if maxName < length a \<or> CHR ''.'' \<notin> set a then None
             else if list_all validLabel (Split a CHR ''.'') then Some a else None)"

section \<open>Suffix sets\<close>

text \<open>A set is the map of its members; a nil set is \<open>None\<close>.\<close>

type_synonym dset = "(string, unit) gomap option"

definition NewSet :: "string list \<Rightarrow> dset" where
  "NewSet domains = Some (fold (\<lambda>d m. m_put d () m) domains [])"

function match_walk :: "(string, unit) gomap \<Rightarrow> string \<Rightarrow> bool" where
  "match_walk m name =
     (if m_has m name then True
      else case dropWhile (\<lambda>c. c \<noteq> CHR ''.'') name of [] \<Rightarrow> False | _ # rest \<Rightarrow> match_walk m rest)"
  by auto

lemma length_after_dot: "dropWhile P s = c # rest \<Longrightarrow> length rest < length s"
  using length_dropWhile_le [of P s] by simp

termination match_walk
  by (relation "measure (\<lambda>(m, s). length s)") (auto dest: length_after_dot)

declare match_walk.simps [simp del]

definition set_Match :: "dset \<Rightarrow> string \<Rightarrow> bool" where
  "set_Match s name = (case s of None \<Rightarrow> False | Some m \<Rightarrow> if m = [] then False else match_walk m name)"

definition set_Len :: "dset \<Rightarrow> int" where
  "set_Len s = (case s of None \<Rightarrow> 0 | Some m \<Rightarrow> int (length m))"

section \<open>Snapshots\<close>

definition PolicyForwarded :: string where "PolicyForwarded = ''forwarded''"
definition PolicyAllow :: string where "PolicyAllow = ''allow''"
definition PolicyDeny :: string where "PolicyDeny = ''deny''"
definition defaultBlockTTL :: int where "defaultBlockTTL = 60"

record decision =
  Blocked :: bool
  PolicyName :: string
  DecisionTTL :: "32 word"
  DecisionName :: string

record named_set =
  ns_name :: string
  ns_set :: dset

record psnapshot =
  ps_enabled :: bool
  ps_ttl :: "32 word"
  ps_deny :: dset
  ps_allow :: dset
  ps_lists :: "named_set list"

definition rules_of :: "string \<Rightarrow> blacklist_rule list \<Rightarrow> string list" where
  "rules_of kind rules = map br_Domain (filter (\<lambda>r. br_Kind r = kind) rules)"

definition policy_Build :: "blacklist_settings \<Rightarrow> blacklist_list list \<Rightarrow> blacklist_rule list \<Rightarrow> psnapshot" where
  "policy_Build st ls rules =
     (let ttl = (if bs_BlockTTL st \<le> 0 then defaultBlockTTL else bs_BlockTTL st)
      in \<lparr>ps_enabled = bs_Enabled st, ps_ttl = word_of_int ttl,
          ps_deny = NewSet (rules_of PolicyDeny rules), ps_allow = NewSet (rules_of PolicyAllow rules),
          ps_lists = map (\<lambda>l. \<lparr>ns_name = bl_Name l, ns_set = NewSet (bl_Snapshot l)\<rparr>)
            (filter (\<lambda>l. bl_Enabled l \<and> bl_Snapshot l \<noteq> []) ls)\<rparr>)"

definition Decide :: "(string \<Rightarrow> string option) \<Rightarrow> psnapshot option \<Rightarrow> string \<Rightarrow> decision" where
  "Decide toASCII snap name =
     (let forwarded = \<lparr>Blocked = False, PolicyName = PolicyForwarded, DecisionTTL = 0, DecisionName = []\<rparr>
      in case snap of
        None \<Rightarrow> forwarded
      | Some s \<Rightarrow>
          if \<not> ps_enabled s then forwarded
          else case Normalize toASCII name of
            None \<Rightarrow> forwarded
          | Some n \<Rightarrow>
              if set_Match (ps_deny s) n
              then \<lparr>Blocked = True, PolicyName = PolicyDeny, DecisionTTL = ps_ttl s, DecisionName = n\<rparr>
              else if set_Match (ps_allow s) n
              then \<lparr>Blocked = False, PolicyName = PolicyAllow, DecisionTTL = 0, DecisionName = n\<rparr>
              else case find (\<lambda>l. set_Match (ns_set l) n) (ps_lists s) of
                Some l \<Rightarrow> \<lparr>Blocked = True, PolicyName = ns_name l, DecisionTTL = ps_ttl s, DecisionName = n\<rparr>
              | None \<Rightarrow> \<lparr>Blocked = False, PolicyName = PolicyForwarded, DecisionTTL = 0, DecisionName = n\<rparr>)"

section \<open>The holder\<close>

record pholder =
  ph_cur :: "psnapshot option"
  ph_blocked :: "64 word"
  ph_byList :: "(string, 64 word) gomap"
  ph_byName :: "(string, 64 word) gomap"

definition policy_NewHolder :: pholder where
  "policy_NewHolder = \<lparr>ph_cur = None, ph_blocked = 0, ph_byList = [], ph_byName = []\<rparr>"

definition maxTrackedNames :: nat where "maxTrackedNames = 2000"

definition m_incr :: "string \<Rightarrow> (string, 64 word) gomap \<Rightarrow> (string, 64 word) gomap" where
  "m_incr k m = m_put k ((case m_get m k of None \<Rightarrow> 0 | Some v \<Rightarrow> v) + 1) m"

type_synonym psource = "(string, blacklist_settings \<times> blacklist_list list \<times> blacklist_rule list) result"

definition policy_Rebuild :: "psource \<Rightarrow> pholder \<Rightarrow> string option \<times> pholder" where
  "policy_Rebuild src h =
     (case src of
        Inl e \<Rightarrow> (Some e, h)
      | Inr (st, ls, rules) \<Rightarrow> (None, h\<lparr>ph_cur := Some (policy_Build st ls rules)\<rparr>))"

definition holder_Decide :: "(string \<Rightarrow> string option) \<Rightarrow> string \<Rightarrow> pholder \<Rightarrow> (bool \<times> string \<times> 32 word) \<times> pholder" where
  "holder_Decide toASCII name h =
     (let d = Decide toASCII (ph_cur h) name;
          h' = (if Blocked d
                then h\<lparr>ph_blocked := ph_blocked h + 1, ph_byList := m_incr (PolicyName d) (ph_byList h),
                       ph_byName :=
                         (if m_has (ph_byName h) (DecisionName d) \<or> length (ph_byName h) < maxTrackedNames
                          then m_incr (DecisionName d) (ph_byName h) else ph_byName h)\<rparr>
                else h)
      in ((Blocked d, PolicyName d, DecisionTTL d), h'))"

text \<open>
  \<^verbatim>\<open>TopBlocked\<close>: by count, highest first, then by name. The counts are compared as signed 64-bit
  integers; their difference does not wrap below two to the sixty-third.
\<close>

definition TopBlocked :: "int \<Rightarrow> pholder \<Rightarrow> (string \<times> 64 word) list" where
  "TopBlocked n h =
     (let out = sort_key (\<lambda>(name, count). (- sint count, name)) (ph_byName h)
      in if n < int (length out) then take (nat n) out else out)"

definition trackedNames :: "pholder \<Rightarrow> int" where
  "trackedNames h = int (length (ph_byName h))"

definition Counters :: "pholder \<Rightarrow> 64 word \<times> (string, 64 word) gomap" where
  "Counters h = (ph_blocked h, ph_byList h)"

section \<open>What a set matches\<close>

text \<open>A rule for a domain covers the name itself and its subdomains, and nothing else.\<close>

definition covers :: "string \<Rightarrow> string \<Rightarrow> bool" where
  "covers d n = (n = d \<or> HasSuffix n (''.'' @ d))"

lemma covers_iff: "covers d n \<longleftrightarrow> n = d \<or> (\<exists>p. n = p @ CHR ''.'' # d)"
  by (auto simp: covers_def HasSuffix_iff)

lemma coversE:
  assumes "covers d n"
  obtains "n = d" | p where "n = p @ CHR ''.'' # d"
  using assms unfolding covers_iff by blast

lemma coversI: "covers d (p @ CHR ''.'' # d)"
  unfolding covers_iff by blast

lemma covers_refl [simp]: "covers d d"
  by (simp add: covers_def)

lemma covers_under:
  assumes "covers d n"
  shows "covers d (p @ CHR ''.'' # n)"
  using assms
proof (cases rule: coversE)
  case 1
  then show ?thesis using coversI by simp
next
  case (2 q)
  then show ?thesis using coversI [of d "p @ CHR ''.'' # q"] by simp
qed

lemma covers_trans: "covers d n \<Longrightarrow> covers n k \<Longrightarrow> covers d k"
  by (erule coversE [of n k]) (simp_all add: covers_under)

lemma cut_at_first:
  assumes "c \<notin> set h" and "h @ c # rest = p @ c # d"
  shows "p = h \<and> rest = d \<or> (\<exists>q. p = h @ c # q \<and> rest = q @ c # d)"
  using assms
proof (induction h arbitrary: p)
  case Nil
  then show ?case by (cases p) auto
next
  case (Cons x h)
  then show ?case by (cases p) auto
qed

lemma dropWhile_first:
  "dropWhile (\<lambda>y. y \<noteq> c) n = x # rest \<Longrightarrow> \<exists>h. c \<notin> set h \<and> n = h @ c # rest"
proof (induction n)
  case (Cons a n)
  show ?case
  proof (cases "a = c")
    case True
    with Cons.prems show ?thesis by (intro exI [of _ "[]"]) simp
  next
    case False
    with Cons obtain h where "c \<notin> set h" "n = h @ c # rest" by auto
    with False show ?thesis by (intro exI [of _ "a # h"]) simp
  qed
qed simp

lemma no_first: "dropWhile (\<lambda>y. y \<noteq> c) n = [] \<Longrightarrow> c \<notin> set n"
  by auto

lemma covers_cut:
  assumes "dropWhile (\<lambda>c. c \<noteq> CHR ''.'') n = x # rest"
  shows "covers d n \<longleftrightarrow> n = d \<or> covers d rest"
proof -
  from dropWhile_first [OF assms] obtain h where h: "CHR ''.'' \<notin> set h" "n = h @ CHR ''.'' # rest" by blast
  have "covers d rest" if "n = p @ CHR ''.'' # d" for p
    using cut_at_first [OF h(1), of rest p d] h(2) that coversI covers_refl by metis
  then show ?thesis using h(2) covers_under [of d rest h] by (auto elim: coversE simp del: append_assoc)
qed

lemma covers_no_dot: "CHR ''.'' \<notin> set n \<Longrightarrow> covers d n \<longleftrightarrow> n = d"
  by (auto elim: coversE)

lemma match_walk_iff: "match_walk m n \<longleftrightarrow> (\<exists>d. m_has m d \<and> covers d n)"
proof (induction m n rule: match_walk.induct)
  case (1 m n)
  show ?case
  proof (cases "m_has m n")
    case True
    then have "match_walk m n" by (subst match_walk.simps) simp
    then show ?thesis using True covers_refl by blast
  next
    case False
    show ?thesis
    proof (cases "dropWhile (\<lambda>c. c \<noteq> CHR ''.'') n")
      case Nil
      have "\<not> match_walk m n" using False by (subst match_walk.simps) (simp add: Nil del: dropWhile_eq_Nil_conv)
      with False show ?thesis using covers_no_dot [OF no_first [OF Nil]] by auto
    next
      case (Cons x rest)
      then have "match_walk m n = match_walk m rest" using False by (subst match_walk.simps) simp
      with 1 [OF False Cons] show ?thesis using covers_cut [OF Cons] False by metis
    qed
  qed
qed

lemma m_has_NewSet: "m_has (fold (\<lambda>d m. m_put d () m) ds m0) d \<longleftrightarrow> d \<in> set ds \<or> m_has m0 d"
  by (induction ds arbitrary: m0) (auto simp: m_has_def)

lemma set_Match_iff: "set_Match (NewSet ds) n \<longleftrightarrow> (\<exists>d \<in> set ds. covers d n)"
proof -
  let ?m = "fold (\<lambda>d m. m_put d () m) ds []"
  have "set_Match (NewSet ds) n = (?m \<noteq> [] \<and> match_walk ?m n)" by (simp add: set_Match_def NewSet_def)
  moreover have "match_walk ?m n \<longleftrightarrow> (\<exists>d \<in> set ds. covers d n)"
    unfolding match_walk_iff m_has_NewSet by (auto simp: m_has_def)
  moreover have "match_walk [] n = False" by (simp add: match_walk_iff m_has_def)
  ultimately show ?thesis by metis
qed

section \<open>Precedence\<close>

text \<open>
  The documented order: an explicit deny, then an explicit allow, then the enabled lists, the
  first one that covers the name.
\<close>

definition verdict :: "blacklist_list list \<Rightarrow> blacklist_rule list \<Rightarrow> string \<Rightarrow> bool \<times> string" where
  "verdict ls rules n =
     (if \<exists>r \<in> set rules. br_Kind r = ''deny'' \<and> covers (br_Domain r) n then (True, ''deny'')
      else if \<exists>r \<in> set rules. br_Kind r = ''allow'' \<and> covers (br_Domain r) n then (False, ''allow'')
      else case find (\<lambda>l. bl_Enabled l \<and> (\<exists>d \<in> set (bl_Snapshot l). covers d n)) ls of
        Some l \<Rightarrow> (True, bl_Name l)
      | None \<Rightarrow> (False, ''forwarded''))"

lemma find_map_filter: "find P (map f (filter Q xs)) = map_option f (find (\<lambda>x. Q x \<and> P (f x)) xs)"
  by (induction xs) auto

lemma rules_of_covers:
  "(\<exists>d \<in> set (rules_of k rules). covers d n) \<longleftrightarrow> (\<exists>r \<in> set rules. br_Kind r = k \<and> covers (br_Domain r) n)"
  by (auto simp: rules_of_def)

lemma Decide_built:
  fixes ls :: "blacklist_list list" and rules :: "blacklist_rule list"
  assumes "bs_Enabled st" and "Normalize toASCII name = Some n"
  defines "d \<equiv> Decide toASCII (Some (policy_Build st ls rules)) name"
  shows "(Blocked d, PolicyName d) = verdict ls rules n" and "DecisionName d = n"
    and "DecisionTTL d = (if Blocked d then ps_ttl (policy_Build st ls rules) else 0)"
proof -
  let ?in = "\<lambda>l. bl_Enabled l \<and> (\<exists>x \<in> set (bl_Snapshot l). covers x n)"
  have sel: "(\<lambda>l. bl_Enabled l \<and> bl_Snapshot l \<noteq> [] \<and> (\<exists>x \<in> set (bl_Snapshot l). covers x n)) = ?in" by (rule ext) auto
  show "(Blocked d, PolicyName d) = verdict ls rules n" and "DecisionName d = n"
    and "DecisionTTL d = (if Blocked d then ps_ttl (policy_Build st ls rules) else 0)"
    using assms(1,2) unfolding d_def Decide_def verdict_def policy_Build_def Let_def
    by (auto simp: set_Match_iff rules_of_covers find_map_filter sel PolicyDeny_def PolicyAllow_def PolicyForwarded_def split: option.splits)
qed

lemma Decide_forwards:
  assumes "\<not> bs_Enabled st \<or> Normalize toASCII name = None"
  shows "Decide toASCII (Some (policy_Build st ls rules)) name =
    \<lparr>Blocked = False, PolicyName = ''forwarded'', DecisionTTL = 0, DecisionName = []\<rparr>"
  using assms by (auto simp: Decide_def policy_Build_def Let_def PolicyForwarded_def)

text \<open>
  C6: what the published policy does with a name is exactly the documented precedence over the
  settings, lists and rules it was built from: a rule or list entry covers the name itself and
  its subdomains at a label boundary; deny beats allow, allow beats every list, and disabled
  lists take no part. With filtering off, or for a name that is not a domain name, nothing is
  blocked. A block carries the configured TTL, sixty seconds when there is none.
\<close>

theorem Decide_refines_verdict:
  "let d = Decide toASCII (Some (policy_Build st ls rules)) name
   in (Blocked d, PolicyName d) =
        (case Normalize toASCII name of
           Some n \<Rightarrow> if bs_Enabled st then verdict ls rules n else (False, ''forwarded'')
         | None \<Rightarrow> (False, ''forwarded'')) \<and>
      DecisionTTL d =
        (if Blocked d then word_of_int (if bs_BlockTTL st \<le> 0 then 60 else bs_BlockTTL st) else 0)"
proof (cases "bs_Enabled st \<and> Normalize toASCII name \<noteq> None")
  case True
  then obtain n where n: "Normalize toASCII name = Some n" by blast
  then show ?thesis using True Decide_built [OF _ n, of st ls rules]
    by (simp add: Let_def) (simp add: policy_Build_def defaultBlockTTL_def)
next
  case False
  then show ?thesis using Decide_forwards [of st toASCII name ls rules] by (auto simp: Let_def split: option.split)
qed

section \<open>Canonical names\<close>

definition wf_domain :: "string \<Rightarrow> bool" where
  "wf_domain a = (length a \<le> 253 \<and> CHR ''.'' \<in> set a \<and> list_all validLabel (Split a CHR ''.''))"

lemma label_char_plain: "label_char c \<Longrightarrow> \<not> is_upper c \<and> \<not> is_space c \<and> c \<noteq> CHR ''.''"
  by (auto simp: label_char_def is_lower_def is_digit_def is_upper_def is_space_def char_code_def)

lemma Join_last: "ws \<noteq> [] \<Longrightarrow> last ws \<noteq> [] \<Longrightarrow> Join ws sep \<noteq> [] \<and> last (Join ws sep) = last (last ws)"
  by (induction ws sep rule: Join.induct) auto

lemma Join_hd: "ws \<noteq> [] \<Longrightarrow> hd ws \<noteq> [] \<Longrightarrow> hd (Join ws sep) = hd (hd ws)"
  by (induction ws sep rule: Join.induct) auto

lemma set_Join_chars: "c \<in> set (Join ws sep) \<Longrightarrow> c \<in> set sep \<or> (\<exists>w \<in> set ws. c \<in> set w)"
  by (induction ws sep rule: Join.induct) auto

lemma wf_domain_chars:
  assumes "wf_domain a"
  shows "c \<in> set a \<Longrightarrow> label_char c \<or> c = CHR ''.''" and "a \<noteq> []" and "label_char (hd a)" and "label_char (last a)"
proof -
  let ?ws = "Split a CHR ''.''"
  have ws: "\<forall>w \<in> set ?ws. w \<noteq> [] \<and> list_all label_char w"
    using assms by (auto simp: wf_domain_def list_all_iff validLabel_def)
  have a: "Join ?ws [CHR ''.''] = a" by (rule Join_Split)
  show "label_char c \<or> c = CHR ''.''" if "c \<in> set a"
    using set_Join_chars [of c ?ws "[CHR ''.'']"] that ws unfolding a by (auto simp: list_all_iff)
  have h: "hd ?ws \<in> set ?ws" "last ?ws \<in> set ?ws" by simp_all
  show "a \<noteq> []" using Join_last [of ?ws "[CHR ''.'']"] h(2) ws unfolding a by simp
  show "label_char (hd a)" using Join_hd [of ?ws "[CHR ''.'']"] bspec [OF ws h(1)] unfolding a by (simp add: list_all_iff)
  show "label_char (last a)" using Join_last [of ?ws "[CHR ''.'']"] bspec [OF ws h(2)] unfolding a by (simp add: list_all_iff)
qed

lemma wf_domain_trimmed:
  assumes "wf_domain a"
  shows "TrimSuffix (ToLower (TrimSpace a)) ''.'' = a"
proof -
  note c = wf_domain_chars [OF assms]
  have "TrimSpace a = a"
    using c label_char_plain by (simp add: TrimSpace_def dropWhile_hd hd_rev)
  moreover have "ToLower a = a"
    unfolding ToLower_def by (rule map_idI) (use c(1) label_char_plain lower_char_id lower_char_dot in blast)
  moreover have "\<not> HasSuffix a ''.''" using c(4) label_char_plain by (auto simp: HasSuffix_char)
  ultimately show ?thesis by (simp add: TrimSuffix_no)
qed

lemma Normalize_wf: "Normalize toASCII name = Some a \<Longrightarrow> wf_domain a"
  by (auto simp: Normalize_def Let_def wf_domain_def maxName_def not_less split: if_splits option.splits)

text \<open>
  A name the policy stores or matches is canonical. Whatever \<^verbatim>\<open>ToASCII\<close> returns, the result of
  normalizing has at most 253 bytes and at least two labels, each of one to 63 lower-case
  letters, digits and inner hyphens, with no final dot and no spaces. When conversion leaves a
  converted name alone, normalizing again changes nothing, unless conversion has produced an address.
\<close>

theorem Normalize_canonical:
  assumes "Normalize toASCII name = Some a"
  shows "wf_domain a \<and> \<not> HasSuffix a ''.'' \<and> (\<forall>c \<in> set a. is_lower c \<or> is_digit c \<or> c \<in> {CHR ''-'', CHR ''.''}) \<and>
    (toASCII a = Some a \<and> ParseAddr a = None \<longrightarrow> Normalize toASCII a = Some a)"
proof -
  have wf: "wf_domain a" using assms by (rule Normalize_wf)
  note c = wf_domain_chars [OF wf]
  have "\<not> HasSuffix a ''.''" using c(4) label_char_plain by (auto simp: HasSuffix_char)
  moreover have "\<forall>c \<in> set a. is_lower c \<or> is_digit c \<or> c \<in> {CHR ''-'', CHR ''.''}"
    using c(1) unfolding label_char_def by blast
  moreover have "toASCII a = Some a \<and> ParseAddr a = None \<longrightarrow> Normalize toASCII a = Some a"
    using wf c(2) wf_domain_trimmed [OF wf] by (auto simp: Normalize_def wf_domain_def maxName_def Let_def)
  ultimately show ?thesis using wf by blast
qed

theorem Normalize_canonical_witness:
  "Normalize Some '' Ads.Example. '' = Some ''ads.example'' \<and> wf_domain ''ads.example'' \<and> Normalize Some ''ads.example'' = Some ''ads.example''"
proof -
  have e: "Normalize Some '' Ads.Example. '' = Some ''ads.example''" by code_simp
  have "ParseAddr ''ads.example'' = None" by code_simp
  with Normalize_canonical [OF e] e show ?thesis by blast
qed

section \<open>Counters\<close>

datatype policy_op = PDecide string | PRebuild psource

fun policy_exec :: "(string \<Rightarrow> string option) \<Rightarrow> policy_op \<Rightarrow> pholder \<Rightarrow> pholder" where
  "policy_exec toASCII (PDecide name) h = snd (holder_Decide toASCII name h)"
| "policy_exec toASCII (PRebuild src) h = snd (policy_Rebuild src h)"

lemma sum_m_del:
  "m_wf m \<Longrightarrow> sum_list (map snd (m_del k m)) + (case m_get m k of None \<Rightarrow> 0 | Some v \<Rightarrow> v) = (sum_list (map snd m) :: 64 word)"
proof (induction m)
  case Nil
  then show ?case by (simp add: m_del_def)
next
  case (Cons e m)
  obtain j w where e: "e = (j, w)" by (cases e)
  from Cons.prems e have wf: "m_wf m" and j: "j \<notin> fst ` set m" by (auto simp: m_wf_def)
  show ?case
  proof (cases "j = k")
    case True
    with j have "m_del k m = m" by (auto simp: m_del_def filter_id_conv)
    with True e show ?thesis by (simp add: m_del_def m_get_def)
  next
    case False
    with e Cons.IH [OF wf] show ?thesis by (simp add: m_del_def m_get_def add.assoc)
  qed
qed

lemma sum_m_incr: "m_wf m \<Longrightarrow> sum_list (map snd (m_incr k m)) = sum_list (map snd m) + 1"
  using sum_m_del [of m k] by (simp add: m_incr_def m_put_def algebra_simps)

lemma m_wf_incr [simp]: "m_wf m \<Longrightarrow> m_wf (m_incr k m)"
  by (simp add: m_incr_def)

definition counters_ok :: "pholder \<Rightarrow> bool" where
  "counters_ok h = (m_wf (ph_byList h) \<and> m_wf (ph_byName h) \<and> length (ph_byName h) \<le> maxTrackedNames \<and>
     sum_list (map snd (ph_byList h)) = ph_blocked h)"

lemma policy_exec_ok: "counters_ok h \<Longrightarrow> counters_ok (policy_exec toASCII op h)"
proof (cases op)
  case (PDecide name)
  assume ok: "counters_ok h"
  let ?d = "Decide toASCII (ph_cur h) name"
  have "length (if m_get (ph_byName h) (DecisionName ?d) \<noteq> None \<or> length (ph_byName h) < maxTrackedNames
      then m_put (DecisionName ?d) v (ph_byName h) else ph_byName h) \<le> maxTrackedNames" for v
    by (rule gm.capped_put) (use ok in \<open>simp_all add: counters_ok_def\<close>)
  then show ?thesis using ok PDecide
    by (auto simp: counters_ok_def holder_Decide_def Let_def sum_m_incr m_has_def m_incr_def [of "DecisionName ?d"])
next
  case (PRebuild src)
  assume "counters_ok h"
  with PRebuild show ?thesis by (auto simp: policy_Rebuild_def counters_ok_def split: sum.splits prod.splits)
qed

text \<open>
  The block counters, after any run of decisions and rebuilds. The breakdown by list adds up to the
  total (modulo two to the sixty-fourth), and the breakdown by name never holds more than two
  thousand names, whatever names are asked for.
\<close>

theorem block_counters_bounded:
  "let h = fold (policy_exec toASCII) ops policy_NewHolder
   in sum_list (map snd (snd (Counters h))) = fst (Counters h) \<and> trackedNames h \<le> 2000 \<and> distinct (map fst (ph_byName h))"
proof -
  have "counters_ok (fold (policy_exec toASCII) ops policy_NewHolder)"
    by (rule fold_invariant) (blast intro: policy_exec_ok, simp add: counters_ok_def policy_NewHolder_def)
  then show ?thesis by (simp add: counters_ok_def Counters_def trackedNames_def maxTrackedNames_def m_wf_def Let_def)
qed

section \<open>The holder behind its interfaces\<close>

definition policy_Current :: "pholder \<Rightarrow> psnapshot option" where
  "policy_Current h = ph_cur h"

definition policy_build :: "psource \<Rightarrow> pholder \<Rightarrow> (string, psnapshot) result" where
  "policy_build src h = (case src of Inl e \<Rightarrow> Inl e | Inr (st, ls, rules) \<Rightarrow> Inr (policy_Build st ls rules))"

interpretation ph: snapshot_holder policy_Rebuild policy_Current policy_build
  by unfold_locales (auto simp: policy_Rebuild_def policy_Current_def policy_build_def split: sum.splits)

text \<open>
  What the DNS pipeline is promised of the policy: asking about a name changes counters only,
  never what the next question is answered, and a name that is let through changes nothing.
\<close>

locale policy_decider =
  fixes decide :: "string \<Rightarrow> 'p \<Rightarrow> (bool \<times> string \<times> 32 word) \<times> 'p"
  assumes decide_stable: "fst (decide n (snd (decide m p))) = fst (decide n p)"
    and decide_silent: "\<not> fst (fst (decide n p)) \<Longrightarrow> snd (decide n p) = p"
begin

lemma decide_after: "fst (decide n (fold (\<lambda>m p. snd (decide m p)) ms p)) = fst (decide n p)"
  by (induction ms arbitrary: p) (simp_all add: decide_stable)

end

lemma ph_cur_decide [simp]: "ph_cur (snd (holder_Decide toASCII name h)) = ph_cur h"
  by (simp add: holder_Decide_def Let_def)

lemma fst_holder_Decide: "ph_cur h = ph_cur h' \<Longrightarrow> fst (holder_Decide toASCII name h) = fst (holder_Decide toASCII name h')"
  by (simp add: holder_Decide_def Let_def)

interpretation pd: policy_decider "holder_Decide toASCII"
proof unfold_locales
  show "fst (holder_Decide toASCII n (snd (holder_Decide toASCII m p))) = fst (holder_Decide toASCII n p)" for n m p
    by (rule fst_holder_Decide) simp
  show "\<not> fst (fst (holder_Decide toASCII n p)) \<Longrightarrow> snd (holder_Decide toASCII n p) = p" for n p
    by (simp add: holder_Decide_def Let_def)
qed

end
