(* ===== verification/PolicyParse.thy ===== *)
theory PolicyParse
  imports Policy
begin

text \<open>
  The list parser, \<^verbatim>\<open>internal/policy/parse.go\<close>. The body is the bytes the reader yields and \<open>rerr\<close> the error it
  ends with, \<open>None\<close> for the end of the file. A \<^verbatim>\<open>bufio.Reader\<close> of 4096 bytes returns a line with its newline, the
  whole buffer when it is full without one, or what is left at the end.
\<close>

section \<open>Formats and lines\<close>

definition FormatDomains :: string where "FormatDomains = ''domains''"
definition FormatHosts :: string where "FormatHosts = ''hosts''"
definition FormatAdblock :: string where "FormatAdblock = ''adblock''"

definition ValidFormat :: "string \<Rightarrow> bool" where
  "ValidFormat f = (f = FormatDomains \<or> f = FormatHosts \<or> f = FormatAdblock)"

definition maxEntries :: int where "maxEntries = 2097152"
definition maxLineBytes :: int where "maxLineBytes = 4096"

definition localNames :: "string list" where
  "localNames = [''localhost'', ''localhost.localdomain'', ''local'', ''broadcasthost'', ''ip6-localhost'',
     ''ip6-loopback'', ''ip6-localnet'', ''ip6-mcastprefix'', ''ip6-allnodes'', ''ip6-allrouters'', ''ip6-allhosts'']"

definition lineDomains :: "string \<Rightarrow> string \<Rightarrow> string list option" where
  "lineDomains line format =
     (if format = FormatDomains then
        (if ContainsAny line [CHR '' '', CHR 0x09, CHR ''/''] then None else Some [line])
      else if format = FormatHosts then
        (let fields = Fields line in if length fields < 2 then None else Some (tl fields))
      else if format = FormatAdblock then
        (if \<not> HasPrefix line ''||'' \<or> ContainsAny line ''$/*#@'' then None
         else let rule = TrimSuffix (TrimPrefix line ''||'') ''^''
              in if rule = [] \<or> CHR ''^'' \<in> set rule then None else Some [rule])
      else None)"

section \<open>The reader\<close>

datatype slice_end = SliceLine | SliceFull | SliceEOF

definition ReadSlice :: "string \<Rightarrow> string \<times> slice_end \<times> string" where
  "ReadSlice body =
     (let l = takeWhile (\<lambda>c. c \<noteq> CHR 0x0A) body
      in if int (length l) < maxLineBytes
         then (if length l < length body then (l @ [CHR 0x0A], SliceLine, drop (length l + 1) body) else (body, SliceEOF, []))
         else (take (nat maxLineBytes) body, SliceFull, drop (nat maxLineBytes) body))"

lemma ReadSlice_shorter:
  "ReadSlice body = (raw, e, rest) \<Longrightarrow> e \<noteq> SliceEOF \<Longrightarrow> length rest < length body"
  using length_takeWhile_le [of "\<lambda>c. c \<noteq> CHR 0x0A" body] by (auto simp: ReadSlice_def Let_def maxLineBytes_def split: if_splits)

text \<open>The rest of a line that did not fit is read and dropped.\<close>

function discard :: "string \<Rightarrow> slice_end \<times> string" where
  "discard body =
     (case ReadSlice body of
        (raw, SliceFull, rest) \<Rightarrow> discard rest
      | (raw, e, rest) \<Rightarrow> (e, rest))"
  by auto

termination discard
  by (relation "measure length") (auto dest!: ReadSlice_shorter [OF sym])

declare discard.simps [simp del]

lemma discard_shorter: "discard body = (e, rest) \<Longrightarrow> length rest \<le> length body"
proof (induction body arbitrary: e rest rule: discard.induct)
  case (1 body)
  obtain raw k r where rs: "ReadSlice body = (raw, k, r)" by (metis prod.collapse)
  show ?case
  proof (cases k)
    case SliceFull
    then have "discard body = discard r" using rs by (simp add: discard.simps [of body])
    then have "length rest \<le> length r" using 1 rs SliceFull by (metis (no_types, lifting))
    then show ?thesis using ReadSlice_shorter [OF rs] SliceFull by simp
  qed (use 1(2) rs in \<open>auto simp: discard.simps [of body] ReadSlice_def Let_def split: if_splits\<close>)
qed

section \<open>Parse\<close>

record parse_result =
  Domains :: "string list"
  Skipped :: int

text \<open>
  The names of one line: \<open>added\<close> counts the usable ones, repeated or not, and the set of names seen
  so far is over its ceiling as soon as one more would not fit.
\<close>

fun add_names ::
  "(string \<Rightarrow> string option) \<Rightarrow> int \<Rightarrow> string list \<Rightarrow> int \<Rightarrow> (string, unit) gomap \<Rightarrow> (string, int \<times> (string, unit) gomap) result" where
  "add_names toASCII cap [] added seen = Inr (added, seen)"
| "add_names toASCII cap (name # names) added seen =
     (case Normalize toASCII name of
        None \<Rightarrow> add_names toASCII cap names added seen
      | Some n \<Rightarrow>
          if n \<in> set localNames then add_names toASCII cap names added seen
          else if m_has seen n then add_names toASCII cap names (added + 1) seen
          else let seen' = m_put n () seen
               in if cap < int (length seen') then Inl ''list exceeds the entry ceiling''
                  else add_names toASCII cap names (added + 1) seen')"

definition skip_line :: "string \<Rightarrow> bool" where
  "skip_line line = (line = [] \<or> HasPrefix line ''#'' \<or> HasPrefix line ''!'')"

definition parse_line ::
  "(string \<Rightarrow> string option) \<Rightarrow> string \<Rightarrow> int \<Rightarrow> string \<Rightarrow> int \<Rightarrow> (string, unit) gomap \<Rightarrow> (string, int \<times> (string, unit) gomap) result" where
  "parse_line toASCII format cap raw skipped seen =
     (let line = TrimSpace raw
      in if skip_line line then Inr (skipped, seen)
         else case lineDomains line format of
           None \<Rightarrow> Inr (skipped + 1, seen)
         | Some [] \<Rightarrow> Inr (skipped + 1, seen)
         | Some names \<Rightarrow>
             (case add_names toASCII cap names 0 seen of
                Inl e \<Rightarrow> Inl e
              | Inr (added, seen') \<Rightarrow> Inr (if added = 0 then skipped + 1 else skipped, seen')))"

function parse_loop ::
  "(string \<Rightarrow> string option) \<Rightarrow> string \<Rightarrow> int \<Rightarrow> string option \<Rightarrow> string \<Rightarrow> int \<Rightarrow> (string, unit) gomap
   \<Rightarrow> (string, int \<times> (string, unit) gomap) result" where
  "parse_loop toASCII format cap rerr body skipped seen =
     (case ReadSlice body of
        (raw, SliceFull, rest) \<Rightarrow>
          (case discard rest of
             (SliceLine, rest') \<Rightarrow> parse_loop toASCII format cap rerr rest' (skipped + 1) seen
           | (_, _) \<Rightarrow> (case rerr of Some e \<Rightarrow> Inl e | None \<Rightarrow> Inr (skipped + 1, seen)))
      | (raw, SliceLine, rest) \<Rightarrow>
          (case parse_line toASCII format cap raw skipped seen of
             Inl e \<Rightarrow> Inl e
           | Inr (skipped', seen') \<Rightarrow> parse_loop toASCII format cap rerr rest skipped' seen')
      | (raw, SliceEOF, rest) \<Rightarrow>
          (case rerr of
             Some e \<Rightarrow> Inl e
           | None \<Rightarrow> parse_line toASCII format cap raw skipped seen))"
  by auto

termination parse_loop
  by (relation "measure (\<lambda>(toASCII, format, cap, rerr, body, skipped, seen). length body)")
     (auto dest!: ReadSlice_shorter [OF sym] discard_shorter [OF sym])

declare parse_loop.simps [simp del]

definition parseLimit ::
  "(string \<Rightarrow> string option) \<Rightarrow> string \<Rightarrow> string option \<Rightarrow> string \<Rightarrow> int \<Rightarrow> (string, parse_result) result" where
  "parseLimit toASCII body rerr format cap =
     (if \<not> ValidFormat format then Inl (''unknown list format '' @ format)
      else case parse_loop toASCII format cap rerr body 0 [] of
        Inl e \<Rightarrow> Inl e
      | Inr (skipped, seen) \<Rightarrow> Inr \<lparr>Domains = sort (map fst seen), Skipped = skipped\<rparr>)"

definition Parse :: "(string \<Rightarrow> string option) \<Rightarrow> string \<Rightarrow> string option \<Rightarrow> string \<Rightarrow> (string, parse_result) result" where
  "Parse toASCII body rerr format = parseLimit toASCII body rerr format maxEntries"

section \<open>Reading line by line\<close>

lemma first_not_before: "c \<notin> set (takeWhile (\<lambda>x. x \<noteq> c) s)"
  by (auto dest: set_takeWhileD)

lemma ReadSlice_line:
  assumes "ReadSlice body = (raw, SliceLine, rest)"
  obtains l where "raw = l @ [CHR 0x0A]" "CHR 0x0A \<notin> set l" "body = l @ CHR 0x0A # rest" "int (length l) < maxLineBytes"
proof -
  let ?l = "takeWhile (\<lambda>c. c \<noteq> CHR 0x0A) body"
  have h: "int (length ?l) < maxLineBytes" "length ?l < length body" "raw = ?l @ [CHR 0x0A]" "rest = drop (length ?l + 1) body"
    using assms by (auto simp: ReadSlice_def Let_def split: if_splits)
  have nl: "CHR 0x0A \<notin> set ?l" by (rule first_not_before)
  have c: "body ! length ?l = CHR 0x0A" using nth_length_takeWhile [OF h(2)] by blast
  have "body = take (length ?l) body @ body ! length ?l # drop (Suc (length ?l)) body" by (rule id_take_nth_drop [OF h(2)])
  moreover have "take (length ?l) body = ?l" by (rule takeWhile_eq_take [symmetric])
  ultimately have "body = ?l @ CHR 0x0A # rest" unfolding c h(4) by simp
  then show thesis using that h(1,3) nl by blast
qed

lemma ReadSlice_full:
  assumes "ReadSlice body = (raw, SliceFull, rest)"
  shows "CHR 0x0A \<notin> set raw" and "body = raw @ rest" and "length raw = nat maxLineBytes"
proof -
  let ?l = "takeWhile (\<lambda>c. c \<noteq> CHR 0x0A) body"
  have h: "\<not> int (length ?l) < maxLineBytes" "raw = take (nat maxLineBytes) body" "rest = drop (nat maxLineBytes) body"
    using assms by (auto simp: ReadSlice_def Let_def split: if_splits)
  then have le: "nat maxLineBytes \<le> length ?l" by simp
  have "raw = take (nat maxLineBytes) ?l" unfolding h(2) using le by (subst takeWhile_eq_take) (simp add: min_absorb1)
  moreover have "CHR 0x0A \<notin> set ?l" by (rule first_not_before)
  ultimately show "CHR 0x0A \<notin> set raw" by (meson in_set_takeD)
  show "body = raw @ rest" by (simp add: h)
  show "length raw = nat maxLineBytes" using le length_takeWhile_le [of "\<lambda>c. c \<noteq> CHR 0x0A" body] by (simp add: h(2))
qed

lemma ReadSlice_eof:
  assumes "ReadSlice body = (raw, SliceEOF, rest)"
  shows "raw = body" and "CHR 0x0A \<notin> set body" and "int (length body) < maxLineBytes"
proof -
  let ?l = "takeWhile (\<lambda>c. c \<noteq> CHR 0x0A) body"
  have h: "raw = body" "\<not> length ?l < length body" "int (length ?l) < maxLineBytes"
    using assms by (auto simp: ReadSlice_def Let_def split: if_splits)
  then have l: "?l = body" by (metis append_eq_conv_conj length_append less_add_same_cancel1 length_greater_0_conv self_append_conv takeWhile_dropWhile_id)
  show "raw = body" by (fact h(1))
  show "CHR 0x0A \<notin> set body" using first_not_before [of "CHR 0x0A" body] unfolding l .
  show "int (length body) < maxLineBytes" using h(3) l by simp
qed

lemma discard_spec:
  "discard body = (e, rest) \<Longrightarrow>
   e = SliceLine \<and> (\<exists>l. CHR 0x0A \<notin> set l \<and> body = l @ CHR 0x0A # rest) \<or> e = SliceEOF \<and> CHR 0x0A \<notin> set body"
proof (induction body arbitrary: e rest rule: discard.induct)
  case (1 body)
  obtain raw k r where rs: "ReadSlice body = (raw, k, r)" by (metis prod.collapse)
  show ?case
  proof (cases k)
    case SliceLine
    then have "e = SliceLine" "rest = r" using 1(2) rs by (auto simp: discard.simps [of body])
    moreover obtain l where "CHR 0x0A \<notin> set l" "body = l @ CHR 0x0A # r" using ReadSlice_line rs SliceLine by blast
    ultimately show ?thesis by blast
  next
    case SliceFull
    note f = ReadSlice_full [OF rs [unfolded SliceFull]]
    have "discard r = (e, rest)" using 1(2) rs SliceFull by (simp add: discard.simps [of body])
    with 1(1) [OF rs [symmetric, unfolded SliceFull] refl refl this] f show ?thesis
      by (metis Un_iff append.assoc set_append)
  next
    case SliceEOF
    then show ?thesis using 1(2) rs ReadSlice_eof by (auto simp: discard.simps [of body])
  qed
qed

lemma Split_line: "c \<notin> set l \<Longrightarrow> Split (l @ c # rest) c = l # Split rest c"
  unfolding Split_def by (rule split_by_append) (auto simp: list_all_iff)

lemma Split_one: "c \<notin> set l \<Longrightarrow> Split l c = [l]"
  unfolding Split_def by (rule split_by_no) (auto simp: list_all_iff)

section \<open>What a list comes to\<close>

text \<open>
  The reference: the usable names of each line of the body, taken by itself. A line of 4096 bytes
  or more gives none.
\<close>

definition usable_names :: "(string \<Rightarrow> string option) \<Rightarrow> string list \<Rightarrow> string list" where
  "usable_names toASCII names = filter (\<lambda>n. n \<notin> set localNames) (List.map_filter (Normalize toASCII) names)"

definition line_names :: "(string \<Rightarrow> string option) \<Rightarrow> string \<Rightarrow> string \<Rightarrow> string list" where
  "line_names toASCII format line =
     (let l = TrimSpace line
      in if maxLineBytes \<le> int (length line) \<or> skip_line l then []
         else case lineDomains l format of None \<Rightarrow> [] | Some names \<Rightarrow> usable_names toASCII names)"

definition wasted :: "(string \<Rightarrow> string option) \<Rightarrow> string \<Rightarrow> string \<Rightarrow> bool" where
  "wasted toASCII format line =
     (maxLineBytes \<le> int (length line) \<or> \<not> skip_line (TrimSpace line) \<and> line_names toASCII format line = [])"

definition list_names :: "(string \<Rightarrow> string option) \<Rightarrow> string \<Rightarrow> string \<Rightarrow> string set" where
  "list_names toASCII format body = (\<Union>l \<in> set (Split body CHR 0x0A). set (line_names toASCII format l))"

definition yields :: "int \<Rightarrow> string set \<Rightarrow> int \<Rightarrow> (string, int \<times> (string, unit) gomap) result \<Rightarrow> bool" where
  "yields cap N n res =
     (case res of
        Inl e \<Rightarrow> e = ''list exceeds the entry ceiling'' \<and> cap < int (card N)
      | Inr (k, seen) \<Rightarrow> m_wf seen \<and> fst ` set seen = N \<and> int (length seen) \<le> cap \<and> k = n)"

lemma card_keys: "m_wf m \<Longrightarrow> card (fst ` set m) = length m"
  by (metis distinct_card length_map m_wf_def set_map)

lemma keys_put: "fst ` set (m_put k v m) = insert k (fst ` set m)"
  by (force simp: m_put_def m_del_def)

lemma add_names_yields:
  "m_wf seen \<Longrightarrow> int (length seen) \<le> cap \<Longrightarrow>
   yields cap (fst ` set seen \<union> set (usable_names toASCII names)) (added + int (length (usable_names toASCII names)))
     (add_names toASCII cap names added seen)"
proof (induction names arbitrary: added seen)
  case Nil
  then show ?case by (simp add: yields_def usable_names_def)
next
  case (Cons name names)
  let ?u = "usable_names toASCII names"
  show ?case
  proof (cases "\<exists>n. Normalize toASCII name = Some n \<and> n \<notin> set localNames")
    case False
    then have "usable_names toASCII (name # names) = ?u" "add_names toASCII cap (name # names) added seen = add_names toASCII cap names added seen"
      by (auto simp: usable_names_def split: option.split)
    then show ?thesis using Cons by simp
  next
    case True
    then obtain n where n: "Normalize toASCII name = Some n" "n \<notin> set localNames" by blast
    then have u: "usable_names toASCII (name # names) = n # ?u" by (simp add: usable_names_def)
    show ?thesis
    proof (cases "m_has seen n")
      case True
      then have "n \<in> fst ` set seen" by (metis m_get_None_iff m_has_def)
      then have "fst ` set seen \<union> set (n # ?u) = fst ` set seen \<union> set ?u" by auto
      then show ?thesis using Cons.IH [OF Cons.prems, of "added + 1"] n True u by (simp add: add.assoc)
    next
      case False
      let ?s = "m_put n () seen"
      have k: "fst ` set ?s \<union> set ?u = fst ` set seen \<union> set (n # ?u)" by (auto simp: keys_put)
      have wf: "m_wf ?s" using Cons.prems(1) by simp
      show ?thesis
      proof (cases "cap < int (length ?s)")
        case True
        have "length ?s \<le> card (fst ` set ?s \<union> set ?u)"
          unfolding card_keys [OF wf, symmetric] by (rule card_mono) auto
        then show ?thesis using n False True u k by (simp add: yields_def)
      next
        case F: False
        then show ?thesis using Cons.IH [OF wf, of "added + 1"] n False u k by (simp add: add.assoc)
      qed
    qed
  qed
qed

lemma dropWhile_snoc_space: "is_space c \<Longrightarrow> dropWhile is_space (rev (dropWhile is_space (l @ [c]))) = dropWhile is_space (rev (dropWhile is_space l))"
proof (cases "dropWhile is_space l = []")
  case True
  show "is_space c \<Longrightarrow> ?thesis" by (simp add: dropWhile_append True del: dropWhile_eq_Nil_conv)
next
  case False
  then obtain x where "x \<in> set l" "\<not> is_space x" by auto
  then show "is_space c \<Longrightarrow> ?thesis" by simp
qed

lemma TrimSpace_nl: "TrimSpace (l @ [CHR 0x0A]) = TrimSpace l"
proof -
  have "is_space CHR 0x0A" by (simp add: is_space_def char_code_def)
  from dropWhile_snoc_space [OF this, of l] show ?thesis by (simp add: TrimSpace_def)
qed

lemma parse_line_yields:
  assumes "m_wf seen" and "int (length seen) \<le> cap" and "int (length line) < maxLineBytes" and "TrimSpace raw = TrimSpace line"
  shows "yields cap (fst ` set seen \<union> set (line_names toASCII format line)) (skipped + (if wasted toASCII format line then 1 else 0))
    (parse_line toASCII format cap raw skipped seen)"
proof (cases "skip_line (TrimSpace line)")
  case True
  then show ?thesis using assms by (simp add: parse_line_def Let_def yields_def line_names_def wasted_def)
next
  case False
  show ?thesis
  proof (cases "lineDomains (TrimSpace line) format")
    case None
    then show ?thesis using assms False by (simp add: parse_line_def Let_def yields_def line_names_def wasted_def)
  next
    case (Some names)
    let ?u = "usable_names toASCII names"
    have ln: "line_names toASCII format line = ?u" using Some False assms(3) by (simp add: line_names_def Let_def)
    show ?thesis
    proof (cases "names = []")
      case True
      then have "?u = []" by (simp add: usable_names_def List.map_filter_def)
      then show ?thesis using True Some False assms ln by (simp add: parse_line_def Let_def yields_def wasted_def)
    next
      case ne: False
      then have p: "parse_line toASCII format cap raw skipped seen = (case add_names toASCII cap names 0 seen of
          Inl e \<Rightarrow> Inl e | Inr (added, seen') \<Rightarrow> Inr (if added = 0 then skipped + 1 else skipped, seen'))"
        using Some False assms(4) by (simp add: parse_line_def Let_def split: list.split)
      have w: "wasted toASCII format line \<longleftrightarrow> ?u = []" using ln False assms(3) by (simp add: wasted_def)
      from add_names_yields [OF assms(1,2), of toASCII names 0] show ?thesis
        unfolding p ln w by (auto simp: yields_def split: sum.splits)
    qed
  qed
qed

lemma yields_mono_error: "cap < int (card N) \<Longrightarrow> N \<subseteq> M \<Longrightarrow> finite M \<Longrightarrow> cap < int (card M)"
  using card_mono [of M N] by linarith

lemma finite_list_names [simp]: "finite (list_names toASCII format body)"
  by (simp add: list_names_def)

definition waste :: "(string \<Rightarrow> string option) \<Rightarrow> string \<Rightarrow> string \<Rightarrow> int" where
  "waste toASCII format body = int (length (filter (wasted toASCII format) (Split body CHR 0x0A)))"

lemma list_names_line:
  "CHR 0x0A \<notin> set l \<Longrightarrow> list_names toASCII format (l @ CHR 0x0A # rest) = set (line_names toASCII format l) \<union> list_names toASCII format rest"
  "CHR 0x0A \<notin> set l \<Longrightarrow> waste toASCII format (l @ CHR 0x0A # rest) = (if wasted toASCII format l then 1 else 0) + waste toASCII format rest"
  "CHR 0x0A \<notin> set l \<Longrightarrow> list_names toASCII format l = set (line_names toASCII format l)"
  "CHR 0x0A \<notin> set l \<Longrightarrow> waste toASCII format l = (if wasted toASCII format l then 1 else 0)"
  unfolding list_names_def waste_def by (simp_all add: Split_line Split_one)

lemma long_line: "maxLineBytes \<le> int (length l) \<Longrightarrow> line_names toASCII format l = [] \<and> wasted toASCII format l"
  by (simp add: line_names_def wasted_def Let_def)

lemma parse_loop_yields:
  "m_wf seen \<Longrightarrow> int (length seen) \<le> cap \<Longrightarrow>
   yields cap (fst ` set seen \<union> list_names toASCII format body) (skipped + waste toASCII format body)
     (parse_loop toASCII format cap None body skipped seen)"
proof (induction "length body" arbitrary: body skipped seen rule: less_induct)
  case less
  obtain raw k rest where rs: "ReadSlice body = (raw, k, rest)" by (metis prod.collapse)
  show ?case
  proof (cases k)
    case SliceLine
    obtain l where l: "raw = l @ [CHR 0x0A]" "CHR 0x0A \<notin> set l" "body = l @ CHR 0x0A # rest" "int (length l) < maxLineBytes"
      using ReadSlice_line rs SliceLine by blast
    let ?p = "parse_line toASCII format cap raw skipped seen"
    have y: "yields cap (fst ` set seen \<union> set (line_names toASCII format l)) (skipped + (if wasted toASCII format l then 1 else 0)) ?p"
      by (rule parse_line_yields) (use less.prems l TrimSpace_nl in simp_all)
    note n = list_names_line(1,2) [OF l(2), of toASCII format rest, folded l(3)]
    show ?thesis
    proof (cases ?p)
      case (Inl e)
      then have "parse_loop toASCII format cap None body skipped seen = Inl e" using rs SliceLine by (simp add: parse_loop.simps [of _ _ _ _ body])
      then show ?thesis using y Inl yields_mono_error [of cap _ "fst ` set seen \<union> list_names toASCII format body"] by (auto simp: yields_def n)
    next
      case (Inr x)
      obtain k' seen' where x: "x = (k', seen')" by (cases x)
      then have p: "parse_loop toASCII format cap None body skipped seen = parse_loop toASCII format cap None rest k' seen'"
        using rs SliceLine Inr by (simp add: parse_loop.simps [of _ _ _ _ body])
      have s: "m_wf seen'" "int (length seen') \<le> cap" "fst ` set seen' = fst ` set seen \<union> set (line_names toASCII format l)"
        "k' = skipped + (if wasted toASCII format l then 1 else 0)" using y Inr x by (auto simp: yields_def)
      have "length rest < length body" using l(3) by simp
      from less.hyps [OF this s(1,2), of k'] show ?thesis unfolding p n s(3,4) by (simp add: Un_assoc add.assoc)
    qed
  next
    case SliceFull
    note f = ReadSlice_full [OF rs [unfolded SliceFull]]
    obtain e r where d: "discard rest = (e, r)" by (cases "discard rest")
    from discard_spec [OF d] consider (line) l where "e = SliceLine" "CHR 0x0A \<notin> set l" "rest = l @ CHR 0x0A # r"
      | (eof) "e = SliceEOF" "CHR 0x0A \<notin> set rest" by blast
    then show ?thesis
    proof cases
      case line
      let ?l = "raw @ l"
      have b: "CHR 0x0A \<notin> set ?l" "body = ?l @ CHR 0x0A # r" "maxLineBytes \<le> int (length ?l)" using f line by simp_all
      note n = list_names_line(1,2) [OF b(1), of toASCII format r, folded b(2)]
      have p: "parse_loop toASCII format cap None body skipped seen = parse_loop toASCII format cap None r (skipped + 1) seen"
        using rs SliceFull d line(1) by (simp add: parse_loop.simps [of _ _ _ _ body])
      have "length r < length body" using b(2) by simp
      from less.hyps [OF this less.prems, of "skipped + 1"] long_line [OF b(3), of toASCII format] show ?thesis
        unfolding p n by (simp add: add.assoc)
    next
      case eof
      have b: "CHR 0x0A \<notin> set body" "maxLineBytes \<le> int (length body)" using f eof by simp_all
      have "parse_loop toASCII format cap None body skipped seen = Inr (skipped + 1, seen)"
        using rs SliceFull d eof(1) by (simp add: parse_loop.simps [of _ _ _ _ body])
      then show ?thesis using less.prems list_names_line(3,4) [OF b(1), of toASCII format] long_line [OF b(2), of toASCII format]
        by (simp add: yields_def)
    qed
  next
    case SliceEOF
    note f = ReadSlice_eof [OF rs [unfolded SliceEOF]]
    have "yields cap (fst ` set seen \<union> set (line_names toASCII format body)) (skipped + (if wasted toASCII format body then 1 else 0))
        (parse_line toASCII format cap body skipped seen)"
      by (rule parse_line_yields) (use less.prems f in simp_all)
    then show ?thesis using rs SliceEOF f(1) by (simp add: parse_loop.simps [of _ _ _ _ body] list_names_line(3,4) [OF f(2)])
  qed
qed

lemma parse_loop_error: "parse_loop toASCII format cap (Some e) body skipped seen = Inr x \<Longrightarrow> False"
proof (induction "length body" arbitrary: body skipped seen rule: less_induct)
  case less
  obtain raw k rest where rs: "ReadSlice body = (raw, k, rest)" by (metis prod.collapse)
  obtain d r where d: "discard rest = (d, r)" by (cases "discard rest")
  have sh: "k \<noteq> SliceEOF \<Longrightarrow> length rest < length body" "length r \<le> length rest"
    using ReadSlice_shorter [OF rs] discard_shorter [OF d] by simp_all
  show ?case
    using less.prems rs d sh less.hyps
    by (cases k; cases d) (fastforce simp: parse_loop.simps [of _ _ _ _ body] split: sum.splits prod.splits)+
qed

lemma sorted_keys: "m_wf m \<Longrightarrow> sort (map fst m) = sorted_list_of_set (fst ` set m)"
  unfolding set_map [symmetric] by (subst sorted_list_of_set_sort_remdups) (simp add: m_wf_def distinct_remdups_id)

lemma parseLimit_spec:
  assumes "0 \<le> cap"
  shows "parseLimit toASCII body None format cap =
     (if \<not> ValidFormat format then Inl (''unknown list format '' @ format)
      else if cap < int (card (list_names toASCII format body)) then Inl ''list exceeds the entry ceiling''
      else Inr \<lparr>Domains = sorted_list_of_set (list_names toASCII format body), Skipped = waste toASCII format body\<rparr>) \<and>
   (\<exists>e. parseLimit toASCII body (Some rerr) format cap = Inl e)"
proof
  have y: "yields cap (list_names toASCII format body) (waste toASCII format body) (parse_loop toASCII format cap None body 0 [])"
    using parse_loop_yields [of "[]" cap toASCII format body 0] assms by simp
  show "parseLimit toASCII body None format cap =
     (if \<not> ValidFormat format then Inl (''unknown list format '' @ format)
      else if cap < int (card (list_names toASCII format body)) then Inl ''list exceeds the entry ceiling''
      else Inr \<lparr>Domains = sorted_list_of_set (list_names toASCII format body), Skipped = waste toASCII format body\<rparr>)"
  proof (cases "parse_loop toASCII format cap None body 0 []")
    case (Inl e)
    then show ?thesis using y by (simp add: parseLimit_def yields_def)
  next
    case (Inr x)
    then obtain k seen where x: "x = (k, seen)" by (cases x)
    then have s: "m_wf seen" "fst ` set seen = list_names toASCII format body" "int (length seen) \<le> cap" "k = waste toASCII format body"
      using y Inr by (auto simp: yields_def)
    then have "\<not> cap < int (card (list_names toASCII format body))" using card_keys [OF s(1)] by simp
    then show ?thesis using Inr x s sorted_keys [OF s(1)] by (simp add: parseLimit_def)
  qed
  show "\<exists>e. parseLimit toASCII body (Some rerr) format cap = Inl e"
    using parse_loop_error [of toASCII format cap rerr body 0 "[]"]
    by (cases "parse_loop toASCII format cap (Some rerr) body 0 []") (auto simp: parseLimit_def)
qed

text \<open>
  C24: parsing a list is the same as taking its lines one by one. The result is the sorted set of the
  normalized names of the lines, local names left out, and the number of lines that gave
  nothing, over-long ones included; it is an error exactly when there are more names than the ceiling
  or the format is unknown. The bounded reader and the incremental ceiling make no
  difference, and a body that ends in a read error gives no result at all.
\<close>

theorem Parse_reference:
  "Parse toASCII body None format =
     (if \<not> ValidFormat format then Inl (''unknown list format '' @ format)
      else if 2097152 < int (card (list_names toASCII format body)) then Inl ''list exceeds the entry ceiling''
      else Inr \<lparr>Domains = sorted_list_of_set (list_names toASCII format body), Skipped = waste toASCII format body\<rparr>) \<and>
   (\<exists>e. Parse toASCII body (Some rerr) format = Inl e)"
  using parseLimit_spec [of maxEntries toASCII body format rerr] by (simp add: Parse_def maxEntries_def)

end
