(* ===== verification/BlacklistStore.thy ===== *)
theory BlacklistStore
  imports PolicyParse
begin

text \<open>
  The blacklist tables, \<^verbatim>\<open>internal/store/blacklist.go\<close>. A row of \<^verbatim>\<open>blacklist_lists\<close> is the list without its
  snapshot, together with the text of the snapshot column. Identifiers are those SQLite gives an
  \<^verbatim>\<open>INTEGER PRIMARY KEY\<close>: one more than the largest in the table. \<open>bt_version\<close> is the configuration version
  the triggers of \<^verbatim>\<open>store.go\<close> bump, once per row they fire for. An argument \<open>io\<close> is the error of the database for
  that statement, \<open>None\<close> when it runs.
\<close>

type_synonym list_row = "blacklist_list \<times> string"

record btables =
  bt_settings :: "blacklist_settings option"
  bt_lists :: "list_row list"
  bt_rules :: "blacklist_rule list"
  bt_version :: int

abbreviation row_id :: "list_row \<Rightarrow> int" where
  "row_id r \<equiv> bl_ID (fst r)"

abbreviation row_name :: "list_row \<Rightarrow> string" where
  "row_name r \<equiv> bl_Name (fst r)"

section \<open>Settings\<close>

definition BlacklistSettings :: "btables \<Rightarrow> blacklist_settings" where
  "BlacklistSettings t = (case bt_settings t of None \<Rightarrow> \<lparr>bs_Enabled = True, bs_BlockTTL = 60\<rparr> | Some b \<Rightarrow> b)"

text \<open>The version is bumped by an update of the row; there is no trigger on its insertion.\<close>

definition put_settings :: "blacklist_settings \<Rightarrow> btables \<Rightarrow> btables" where
  "put_settings b t =
     t\<lparr>bt_settings := Some b, bt_version := bt_version t + (if bt_settings t = None then 0 else 1)\<rparr>"

definition SetBlacklistSettings :: "string option \<Rightarrow> blacklist_settings \<Rightarrow> btables \<Rightarrow> (store_error, btables) result" where
  "SetBlacklistSettings io b t = (case io of Some e \<Rightarrow> Inl (ErrDB e) | None \<Rightarrow> Inr (put_settings b t))"

section \<open>Lists\<close>

definition scanList :: "bool \<Rightarrow> list_row \<Rightarrow> blacklist_list" where
  "scanList withBody r =
     (fst r)\<lparr>bl_Snapshot := (if withBody \<and> snd r \<noteq> [] then Split (snd r) CHR 0x0A else [])\<rparr>"

definition blacklistLists :: "bool \<Rightarrow> btables \<Rightarrow> blacklist_list list" where
  "blacklistLists withBody t =
     map (scanList withBody) (sort_key (\<lambda>r. (if bl_Builtin (fst r) then 0 else 1 :: int, row_name r)) (bt_lists t))"

definition BlacklistLists :: "btables \<Rightarrow> blacklist_list list" where
  "BlacklistLists t = blacklistLists True t"

definition BlacklistListMetas :: "btables \<Rightarrow> blacklist_list list" where
  "BlacklistListMetas t = blacklistLists False t"

definition BlacklistListByID :: "int \<Rightarrow> btables \<Rightarrow> (store_error, blacklist_list) result" where
  "BlacklistListByID i t =
     (case find (\<lambda>r. row_id r = i) (bt_lists t) of
        Some r \<Rightarrow> Inr (scanList True r)
      | None \<Rightarrow> Inl (ErrNotFound (''blacklist list '' @ show_dec i)))"

definition same_definition :: "blacklist_list \<Rightarrow> blacklist_list \<Rightarrow> bool" where
  "same_definition a b =
     (bl_Name a = bl_Name b \<and> bl_URL a = bl_URL b \<and> bl_Format a = bl_Format b \<and> bl_Description a = bl_Description b \<and>
      bl_Enabled a = bl_Enabled b \<and> bl_Builtin a = bl_Builtin b \<and> bl_IntervalSeconds a = bl_IntervalSeconds b)"

text \<open>An \<^verbatim>\<open>UPDATE\<close> of the rows that satisfy \<open>P\<close>, with the trigger that compares the definition columns.\<close>

definition update_lists :: "(list_row \<Rightarrow> bool) \<Rightarrow> (list_row \<Rightarrow> list_row) \<Rightarrow> btables \<Rightarrow> btables" where
  "update_lists P f t =
     t\<lparr>bt_lists := map (\<lambda>r. if P r then f r else r) (bt_lists t),
       bt_version := bt_version t +
         int (length (filter (\<lambda>r. P r \<and> \<not> same_definition (fst r) (fst (f r))) (bt_lists t)))\<rparr>"

definition delete_lists :: "(list_row \<Rightarrow> bool) \<Rightarrow> btables \<Rightarrow> btables" where
  "delete_lists P t =
     t\<lparr>bt_lists := filter (\<lambda>r. \<not> P r) (bt_lists t), bt_version := bt_version t + int (length (filter P (bt_lists t)))\<rparr>"

definition insert_list :: "blacklist_list \<Rightarrow> string \<Rightarrow> btables \<Rightarrow> int \<times> btables" where
  "insert_list l body t =
     (let i = next_id (map row_id (bt_lists t))
      in (i, t\<lparr>bt_lists := bt_lists t @ [(l\<lparr>bl_ID := i, bl_Snapshot := []\<rparr>, body)], bt_version := bt_version t + 1\<rparr>))"

text \<open>A new row from the definition columns; the other columns have their defaults.\<close>

definition definition_only :: "blacklist_list \<Rightarrow> blacklist_list" where
  "definition_only l = l\<lparr>bl_LastAttemptAt := 0, bl_LastOKAt := 0, bl_LastError := [], bl_ETag := [], bl_LastModified := [],
     bl_EntryCount := 0, bl_SkippedCount := 0\<rparr>"

definition PutBlacklistList :: "string option \<Rightarrow> blacklist_list \<Rightarrow> btables \<Rightarrow> (store_error, int \<times> btables) result" where
  "PutBlacklistList io l t =
     (case io of
        Some e \<Rightarrow> Inl (ErrDB e)
      | None \<Rightarrow>
          if bl_ID l = 0 then
            (if list_ex (\<lambda>r. row_name r = bl_Name l) (bt_lists t) then Inl (ErrDuplicateName (''list '' @ bl_Name l))
             else Inr (insert_list (definition_only l) [] t))
          else if \<not> list_ex (\<lambda>r. row_id r = bl_ID l) (bt_lists t) then Inl (ErrNotFound (''blacklist list '' @ show_dec (bl_ID l)))
          else if list_ex (\<lambda>r. row_name r = bl_Name l \<and> row_id r \<noteq> bl_ID l) (bt_lists t)
          then Inl (ErrDuplicateName (''list '' @ bl_Name l))
          else Inr (bl_ID l, update_lists (\<lambda>r. row_id r = bl_ID l)
            (\<lambda>r. ((fst r)\<lparr>bl_Name := bl_Name l, bl_URL := bl_URL l, bl_Format := bl_Format l, bl_Description := bl_Description l,
                        bl_Enabled := bl_Enabled l, bl_IntervalSeconds := bl_IntervalSeconds l\<rparr>, snd r)) t))"

definition SetBlacklistSnapshot ::
  "string option \<Rightarrow> int \<Rightarrow> string list \<Rightarrow> int \<Rightarrow> string \<Rightarrow> string \<Rightarrow> int \<Rightarrow> btables \<Rightarrow> (store_error, btables) result" where
  "SetBlacklistSnapshot io i domains skipped etag lastModified at t =
     (case io of
        Some e \<Rightarrow> Inl (ErrDB e)
      | None \<Rightarrow>
          if \<not> list_ex (\<lambda>r. row_id r = i) (bt_lists t) then Inl (ErrNotFound (''blacklist list '' @ show_dec i))
          else Inr (update_lists (\<lambda>r. row_id r = i)
            (\<lambda>r. ((fst r)\<lparr>bl_EntryCount := int (length domains), bl_SkippedCount := skipped, bl_ETag := etag,
                        bl_LastModified := lastModified, bl_LastOKAt := at, bl_LastAttemptAt := at, bl_LastError := []\<rparr>,
                  Join domains [CHR 0x0A])) t))"

definition SetBlacklistError :: "string option \<Rightarrow> int \<Rightarrow> string \<Rightarrow> int \<Rightarrow> btables \<Rightarrow> (store_error, btables) result" where
  "SetBlacklistError io i msg at t =
     (case io of
        Some e \<Rightarrow> Inl (ErrDB e)
      | None \<Rightarrow> Inr (update_lists (\<lambda>r. row_id r = i) (\<lambda>r. ((fst r)\<lparr>bl_LastError := msg, bl_LastAttemptAt := at\<rparr>, snd r)) t))"

definition TouchBlacklistAttempt :: "string option \<Rightarrow> int \<Rightarrow> int \<Rightarrow> btables \<Rightarrow> (store_error, btables) result" where
  "TouchBlacklistAttempt io i at t =
     (case io of
        Some e \<Rightarrow> Inl (ErrDB e)
      | None \<Rightarrow> Inr (update_lists (\<lambda>r. row_id r = i)
          (\<lambda>r. ((fst r)\<lparr>bl_LastAttemptAt := at, bl_LastOKAt := at, bl_LastError := []\<rparr>, snd r)) t))"

definition DeleteBlacklistList :: "string option \<Rightarrow> int \<Rightarrow> btables \<Rightarrow> (store_error, btables) result" where
  "DeleteBlacklistList io i t =
     (case io of
        Some e \<Rightarrow> Inl (ErrDB e)
      | None \<Rightarrow>
          if \<not> list_ex (\<lambda>r. row_id r = i) (bt_lists t) then Inl (ErrNotFound (''blacklist list '' @ show_dec i))
          else Inr (delete_lists (\<lambda>r. row_id r = i) t))"

section \<open>Rules\<close>

definition BlacklistRules :: "btables \<Rightarrow> blacklist_rule list" where
  "BlacklistRules t = sort_key (\<lambda>r. (br_Kind r, br_Domain r)) (bt_rules t)"

definition insert_rule :: "blacklist_rule \<Rightarrow> btables \<Rightarrow> (store_error, int \<times> btables) result" where
  "insert_rule r t =
     (if list_ex (\<lambda>x. br_Domain x = br_Domain r) (bt_rules t)
      then Inl (ErrDuplicateName (''a rule for '' @ br_Domain r @ '' already exists''))
      else let i = next_id (map br_ID (bt_rules t))
           in Inr (i, t\<lparr>bt_rules := bt_rules t @ [\<lparr>br_ID = i, br_Kind = br_Kind r, br_Domain = br_Domain r\<rparr>], bt_version := bt_version t + 1\<rparr>))"

definition PutBlacklistRule :: "string option \<Rightarrow> blacklist_rule \<Rightarrow> btables \<Rightarrow> (store_error, int \<times> btables) result" where
  "PutBlacklistRule io r t = (case io of Some e \<Rightarrow> Inl (ErrDB e) | None \<Rightarrow> insert_rule r t)"

definition delete_rules :: "(blacklist_rule \<Rightarrow> bool) \<Rightarrow> btables \<Rightarrow> btables" where
  "delete_rules P t =
     t\<lparr>bt_rules := filter (\<lambda>r. \<not> P r) (bt_rules t), bt_version := bt_version t + int (length (filter P (bt_rules t)))\<rparr>"

definition DeleteBlacklistRule :: "string option \<Rightarrow> int \<Rightarrow> btables \<Rightarrow> (store_error, btables) result" where
  "DeleteBlacklistRule io i t =
     (case io of
        Some e \<Rightarrow> Inl (ErrDB e)
      | None \<Rightarrow>
          if \<not> list_ex (\<lambda>r. br_ID r = i) (bt_rules t) then Inl (ErrNotFound (''blacklist rule '' @ show_dec i))
          else Inr (delete_rules (\<lambda>r. br_ID r = i) t))"

section \<open>Replacing the policy\<close>

fun insert_rules :: "blacklist_rule list \<Rightarrow> btables \<Rightarrow> (store_error, btables) result" where
  "insert_rules [] t = Inr t"
| "insert_rules (r # rs) t = (case insert_rule r t of Inl e \<Rightarrow> Inl e | Inr (_, t') \<Rightarrow> insert_rules rs t')"

text \<open>
  \<^verbatim>\<open>replaceBlacklistDefinitions\<close>, within a transaction of its caller. Rows are matched by name against the names
  there were at the start; a changed URL drops the downloaded body with it.
\<close>

definition redefine :: "blacklist_list \<Rightarrow> list_row \<Rightarrow> list_row" where
  "redefine l r =
     (let d = (fst r)\<lparr>bl_URL := bl_URL l, bl_Format := bl_Format l, bl_Description := bl_Description l,
                      bl_Enabled := bl_Enabled l, bl_Builtin := bl_Builtin l, bl_IntervalSeconds := bl_IntervalSeconds l\<rparr>
      in if bl_URL (fst r) \<noteq> bl_URL l then (definition_only d, []) else (d, snd r))"

fun redefine_lists :: "string list \<Rightarrow> blacklist_list list \<Rightarrow> btables \<Rightarrow> (store_error, btables) result" where
  "redefine_lists existing [] t = Inr t"
| "redefine_lists existing (l # ls) t =
     (if bl_Name l \<in> set existing
      then redefine_lists existing ls (update_lists (\<lambda>r. row_name r = bl_Name l) (redefine l) t)
      else if list_ex (\<lambda>r. row_name r = bl_Name l) (bt_lists t) then Inl (ErrDB ''UNIQUE constraint failed: blacklist_lists.name'')
      else redefine_lists existing ls (snd (insert_list (definition_only l) [] t)))"

definition replaceBlacklistDefinitions ::
  "blacklist_settings \<Rightarrow> blacklist_list list \<Rightarrow> blacklist_rule list \<Rightarrow> btables \<Rightarrow> (store_error, btables) result" where
  "replaceBlacklistDefinitions b ls rules t =
     (let existing = map row_name (bt_lists t)
      in case redefine_lists existing ls (put_settings b t) of
           Inl e \<Rightarrow> Inl e
         | Inr t1 \<Rightarrow>
             insert_rules rules (delete_rules (\<lambda>_. True)
               (delete_lists (\<lambda>r. row_name r \<in> set existing \<and> row_name r \<notin> bl_Name ` set ls) t1)))"

text \<open>\<^verbatim>\<open>ReplaceBlacklist\<close>: all rows are written anew; a URL that survives keeps the body last read under it.\<close>

definition kept_body :: "list_row list \<Rightarrow> string \<Rightarrow> list_row option" where
  "kept_body rows url = find (\<lambda>r. bl_URL (fst r) = url) (rev rows)"

definition with_kept :: "list_row option \<Rightarrow> blacklist_list \<Rightarrow> list_row" where
  "with_kept k l =
     (case k of
        None \<Rightarrow> (definition_only l, [])
      | Some (b, body) \<Rightarrow>
          (l\<lparr>bl_ETag := bl_ETag b, bl_LastModified := bl_LastModified b, bl_EntryCount := bl_EntryCount b,
             bl_SkippedCount := bl_SkippedCount b, bl_LastOKAt := bl_LastOKAt b, bl_LastAttemptAt := bl_LastAttemptAt b,
             bl_LastError := []\<rparr>, body))"

fun insert_lists :: "list_row list \<Rightarrow> blacklist_list list \<Rightarrow> btables \<Rightarrow> (store_error, btables) result" where
  "insert_lists old [] t = Inr t"
| "insert_lists old (l # ls) t =
     (if list_ex (\<lambda>r. row_name r = bl_Name l) (bt_lists t) then Inl (ErrDuplicateName (''list '' @ bl_Name l))
      else let (row, body) = with_kept (kept_body old (bl_URL l)) l
           in insert_lists old ls (snd (insert_list row body t)))"

definition ReplaceBlacklist ::
  "string option \<Rightarrow> blacklist_settings \<Rightarrow> blacklist_list list \<Rightarrow> blacklist_rule list \<Rightarrow> btables \<Rightarrow> (store_error, btables) result" where
  "ReplaceBlacklist io b ls rules t =
     (case io of
        Some e \<Rightarrow> Inl (ErrDB e)
      | None \<Rightarrow>
          let t1 = put_settings b (delete_lists (\<lambda>_. True) (delete_rules (\<lambda>_. True) t))
          in case insert_lists (bt_lists t) ls t1 of
               Inl e \<Rightarrow> Inl e
             | Inr t2 \<Rightarrow> insert_rules rules t2)"

end
