(* ===== verification/Blacklist.thy ===== *)
theory Blacklist
  imports BlacklistStore
begin

text \<open>
  The blacklist service: \<^verbatim>\<open>internal/policy/fetch.go\<close>, \<^verbatim>\<open>manifest.go\<close>, \<^verbatim>\<open>refresher.go\<close> and \<^verbatim>\<open>service.go\<close>. The state is the
  tables and the holder of the published policy. What comes from outside is an argument: the
  decoded manifest, the parse of a URL, the answer of the HTTP client, the errors of the database. Log lines are not modelled.
\<close>

section \<open>Downloads\<close>

definition MaxListBytes :: int where "MaxListBytes = 33554432"
definition maxRedirects :: int where "maxRedirects = 5"
definition userAgent :: string where "userAgent = ''kydns''"

record url =
  u_Scheme :: string
  u_Host :: string
  u_User :: bool

record fetch_result =
  fr_Body :: string
  fr_ETag :: string
  fr_LastModified :: string
  fr_NotModified :: bool

record http_request =
  rq_URL :: string
  rq_Headers :: "(string \<times> string) list"

record http_response =
  rs_StatusCode :: int
  rs_Status :: string
  rs_ETag :: string
  rs_LastModified :: string
  rs_Body :: string
  rs_ReadErr :: "string option"

text \<open>An error of the client: its text, and the cause inside the \<^verbatim>\<open>url.Error\<close> in its chain.\<close>

record http_error =
  he_text :: string
  he_cause :: "string option"

record fetch_env =
  fe_parse :: "string \<Rightarrow> (string, url) result"
  fe_request :: "string \<Rightarrow> string option"
  fe_do :: "http_request \<Rightarrow> (http_error, http_response) result"

text \<open>The client follows a redirect when this is \<open>None\<close>; \<open>via\<close> is the number of requests made already.\<close>

definition CheckRedirect :: "int \<Rightarrow> url \<Rightarrow> string option" where
  "CheckRedirect via u =
     (if maxRedirects \<le> via then Some (''stopped after '' @ show_dec maxRedirects @ '' redirects'')
      else if u_Scheme u \<noteq> ''https'' then Some (''redirect to a non-https URL ('' @ u_Scheme u @ '')'')
      else None)"

definition list_request :: "string \<Rightarrow> string \<Rightarrow> string \<Rightarrow> http_request" where
  "list_request rawURL etag lastModified =
     \<lparr>rq_URL = rawURL,
      rq_Headers = [(''User-Agent'', userAgent), (''Accept'', ''text/plain'')] @
        (if etag \<noteq> [] then [(''If-None-Match'', etag)] else []) @
        (if lastModified \<noteq> [] then [(''If-Modified-Since'', lastModified)] else [])\<rparr>"

text \<open>
  The body is read up to one byte past the ceiling. A body longer than the ceiling is an error even
  when reading on would fail; a failure before the ceiling is the error of the read.
\<close>

definition Fetch :: "fetch_env \<Rightarrow> int \<Rightarrow> string \<Rightarrow> string \<Rightarrow> string \<Rightarrow> (string, fetch_result) result" where
  "Fetch fe maxBytes rawURL etag lastModified =
     (case fe_parse fe rawURL of
        Inl e \<Rightarrow> Inl e
      | Inr u \<Rightarrow>
          if u_Scheme u \<noteq> ''https'' then Inl ''a list URL must be https''
          else case fe_request fe rawURL of
            Some e \<Rightarrow> Inl e
          | None \<Rightarrow>
              (case fe_do fe (list_request rawURL etag lastModified) of
                 Inl e \<Rightarrow> Inl (case he_cause e of Some c \<Rightarrow> ''download failed: '' @ c | None \<Rightarrow> he_text e)
               | Inr resp \<Rightarrow>
                   if rs_StatusCode resp = 304
                   then Inr \<lparr>fr_Body = [], fr_ETag = [], fr_LastModified = [], fr_NotModified = True\<rparr>
                   else if rs_StatusCode resp \<noteq> 200 then Inl (''status '' @ rs_Status resp)
                   else if maxBytes < int (length (rs_Body resp)) then Inl (''list exceeds '' @ show_dec maxBytes @ '' bytes'')
                   else case rs_ReadErr resp of
                     Some e \<Rightarrow> Inl e
                   | None \<Rightarrow> Inr \<lparr>fr_Body = rs_Body resp, fr_ETag = rs_ETag resp, fr_LastModified = rs_LastModified resp, fr_NotModified = False\<rparr>))"

section \<open>The manifest\<close>

record builtin =
  bi_Name :: string
  bi_Description :: string
  bi_URL :: string
  bi_Format :: string
  bi_License :: string
  bi_Attribution :: string
  bi_IntervalSeconds :: int

record manifest =
  mf_Version :: int
  mf_Lists :: "builtin list"

definition builtin_error :: "builtin \<Rightarrow> string option" where
  "builtin_error l =
     (if bi_Name l = [] \<or> bi_License l = [] \<or> bi_Attribution l = []
      then Some (''builtin manifest: '' @ bi_Name l @ '' lacks name, license or attribution'')
      else if \<not> ValidFormat (bi_Format l) then Some (''builtin manifest: '' @ bi_Name l @ '' declares format '' @ bi_Format l)
      else if bi_IntervalSeconds l \<le> 0 then Some (''builtin manifest: '' @ bi_Name l @ '' has no refresh interval'')
      else None)"

definition BuiltinManifest :: "(string, manifest) result \<Rightarrow> (string, manifest) result" where
  "BuiltinManifest decoded =
     (case decoded of
        Inl e \<Rightarrow> Inl (''builtin manifest: '' @ e)
      | Inr m \<Rightarrow>
          if mf_Version m < 1 then Inl ''builtin manifest: version is required''
          else case find (\<lambda>l. builtin_error l \<noteq> None) (mf_Lists m) of
            Some l \<Rightarrow> Inl (the (builtin_error l))
          | None \<Rightarrow> Inr m)"

definition builtin_row :: "builtin \<Rightarrow> blacklist_list" where
  "builtin_row b =
     \<lparr>bl_ID = 0, bl_Name = bi_Name b, bl_URL = bi_URL b, bl_Format = bi_Format b,
      bl_Description = bi_Description b @ '' ('' @ bi_License b @ '', '' @ bi_Attribution b @ '')'',
      bl_Enabled = True, bl_Builtin = True, bl_IntervalSeconds = bi_IntervalSeconds b,
      bl_LastAttemptAt = 0, bl_LastOKAt = 0, bl_LastError = [], bl_ETag = [], bl_LastModified = [],
      bl_EntryCount = 0, bl_SkippedCount = 0, bl_Snapshot = []\<rparr>"

text \<open>Each statement has its own error of the database: the first is the read of what is there, the others are the writes.\<close>

fun seed :: "(nat \<Rightarrow> string option) \<Rightarrow> nat \<Rightarrow> string list \<Rightarrow> builtin list \<Rightarrow> btables \<Rightarrow> store_error option \<times> btables" where
  "seed io k known [] t = (None, t)"
| "seed io k known (b # bs) t =
     (if bi_Name b \<in> set known then seed io k known bs t
      else case PutBlacklistList (io k) (builtin_row b) t of
        Inl e \<Rightarrow> (Some e, t)
      | Inr (_, t') \<Rightarrow> seed io (Suc k) known bs t')"

definition SeedBuiltins :: "(string, manifest) result \<Rightarrow> (nat \<Rightarrow> string option) \<Rightarrow> btables \<Rightarrow> app_error option \<times> btables" where
  "SeedBuiltins decoded io t =
     (case BuiltinManifest decoded of
        Inl e \<Rightarrow> (Some (OtherErr e), t)
      | Inr m \<Rightarrow>
          (case io 0 of
             Some e \<Rightarrow> (Some (StoreErr (ErrDB e)), t)
           | None \<Rightarrow>
               (case seed io 1 (map bl_Name (BlacklistListMetas t)) (mf_Lists m) t of (e, t') \<Rightarrow> (map_option StoreErr e, t'))))"

section \<open>State\<close>

record pol =
  po_tables :: btables
  po_holder :: pholder

text \<open>The source the holder pulls, from \<^verbatim>\<open>internal/app/serve.go\<close>; \<open>io\<close> is the error of reading the tables.\<close>

definition policy_source :: "string option \<Rightarrow> btables \<Rightarrow> psource" where
  "policy_source io t =
     (case io of Some e \<Rightarrow> Inl e | None \<Rightarrow> Inr (BlacklistSettings t, BlacklistLists t, BlacklistRules t))"

definition rebuilt :: "string option \<Rightarrow> pol \<Rightarrow> string option \<times> pol" where
  "rebuilt io p =
     (case policy_Rebuild (policy_source io (po_tables p)) (po_holder p) of (e, h) \<Rightarrow> (e, p\<lparr>po_holder := h\<rparr>))"

section \<open>Refreshing\<close>

text \<open>What one refresh meets: the clock, the network, and the errors of its three statements.\<close>

record renv =
  re_now :: int
  re_fetch :: fetch_env
  re_toASCII :: "string \<Rightarrow> string option"
  re_io_touch :: "string option"
  re_io_put :: "string option"
  re_io_err :: "string option"

fun error_text :: "store_error \<Rightarrow> string" where
  "error_text (ErrNotFound s) = ''not found: '' @ s"
| "error_text (ErrDuplicateName s) = ''name already exists: '' @ s"
| "error_text (ErrDB s) = s"

definition or_same :: "btables \<Rightarrow> (store_error, btables) result \<Rightarrow> btables" where
  "or_same t r = (case r of Inl e \<Rightarrow> t | Inr t' \<Rightarrow> t')"

definition fail_list :: "renv \<Rightarrow> blacklist_list \<Rightarrow> string \<Rightarrow> btables \<Rightarrow> btables" where
  "fail_list e l cause t = or_same t (SetBlacklistError (re_io_err e) (bl_ID l) cause (re_now e) t)"

definition refresh :: "renv \<Rightarrow> blacklist_list \<Rightarrow> btables \<Rightarrow> (bool \<times> bool) \<times> btables" where
  "refresh e l t =
     (case Fetch (re_fetch e) MaxListBytes (bl_URL l) (bl_ETag l) (bl_LastModified l) of
        Inl err \<Rightarrow> ((False, False), fail_list e l err t)
      | Inr res \<Rightarrow>
          if fr_NotModified res
          then ((True, False), or_same t (TouchBlacklistAttempt (re_io_touch e) (bl_ID l) (re_now e) t))
          else case Parse (re_toASCII e) (fr_Body res) None (bl_Format l) of
            Inl err \<Rightarrow> ((False, False), fail_list e l err t)
          | Inr parsed \<Rightarrow>
              if Domains parsed = [] then ((False, False), fail_list e l ''no usable domains in the downloaded body'' t)
              else case SetBlacklistSnapshot (re_io_put e) (bl_ID l) (Domains parsed) (Skipped parsed) (fr_ETag res) (fr_LastModified res) (re_now e) t of
                Inl err \<Rightarrow> ((False, False), fail_list e l (error_text err) t)
              | Inr t' \<Rightarrow> ((True, True), t'))"

fun refresh_each :: "(blacklist_list \<Rightarrow> renv) \<Rightarrow> blacklist_list list \<Rightarrow> btables \<Rightarrow> (bool \<times> bool) list \<times> btables" where
  "refresh_each e [] t = ([], t)"
| "refresh_each e (l # ls) t =
     (case refresh (e l) l t of (r, t1) \<Rightarrow> (case refresh_each e ls t1 of (rs, t2) \<Rightarrow> (r # rs, t2)))"

text \<open>The clock is read once for deciding what is due, and again for each download.\<close>

definition RefreshDue :: "string option \<Rightarrow> string option \<Rightarrow> int \<Rightarrow> (blacklist_list \<Rightarrow> renv) \<Rightarrow> pol \<Rightarrow> pol" where
  "RefreshDue io_list io_src now e p =
     (case io_list of
        Some _ \<Rightarrow> p
      | None \<Rightarrow>
          let due = filter (\<lambda>l. \<not> (\<not> bl_Enabled l \<or> now - bl_LastAttemptAt l < bl_IntervalSeconds l)) (BlacklistListMetas (po_tables p));
              (rs, t) = refresh_each e due (po_tables p);
              p1 = p\<lparr>po_tables := t\<rparr>
          in if list_ex snd rs then snd (rebuilt io_src p1) else p1)"

definition RefreshAll :: "string option \<Rightarrow> string option \<Rightarrow> (blacklist_list \<Rightarrow> renv) \<Rightarrow> pol \<Rightarrow> string list \<times> pol" where
  "RefreshAll io_list io_src e p =
     (case io_list of
        Some err \<Rightarrow> ([err], p)
      | None \<Rightarrow>
          let ls = filter bl_Enabled (BlacklistListMetas (po_tables p));
              (rs, t) = refresh_each e ls (po_tables p)
          in (map (\<lambda>(l, r). ''refresh failed: '' @ bl_Name l) (filter (\<lambda>(l, r). \<not> fst r) (zip ls rs)),
              snd (rebuilt io_src (p\<lparr>po_tables := t\<rparr>))))"

definition RefreshList :: "string option \<Rightarrow> renv \<Rightarrow> int \<Rightarrow> pol \<Rightarrow> app_error option \<times> pol" where
  "RefreshList io_src e i p =
     (case BlacklistListByID i (po_tables p) of
        Inl err \<Rightarrow> (Some (StoreErr err), p)
      | Inr l \<Rightarrow>
          (case refresh e l (po_tables p) of
             ((True, _), t) \<Rightarrow> (None, snd (rebuilt io_src (p\<lparr>po_tables := t\<rparr>)))
           | ((False, _), t) \<Rightarrow>
               (Some (OtherErr (case BlacklistListByID i t of
                  Inr after \<Rightarrow> if bl_LastError after \<noteq> [] then bl_LastError after else ''refresh failed''
                | Inl _ \<Rightarrow> ''refresh failed'')), p\<lparr>po_tables := t\<rparr>)))"

section \<open>The service\<close>

definition minInterval :: int where "minInterval = 300"
definition defaultInterval :: int where "defaultInterval = 86400"
definition maxBlockTTL :: int where "maxBlockTTL = 3600"

text \<open>Each write returns the error or its result; after a write that succeeded comes the rebuild, whose error is returned as it is.\<close>

type_synonym 'a outcome = "(app_error, 'a) result \<times> pol"

definition then_rebuild :: "string option \<Rightarrow> 'a \<Rightarrow> pol \<Rightarrow> 'a outcome" where
  "then_rebuild io_src x p =
     (case rebuilt io_src p of (None, p') \<Rightarrow> (Inr x, p') | (Some e, p') \<Rightarrow> (Inl (OtherErr e), p'))"

definition SetSettings :: "string option \<Rightarrow> string option \<Rightarrow> bool \<Rightarrow> int \<Rightarrow> pol \<Rightarrow> unit outcome" where
  "SetSettings io io_src enabled blockTTL p =
     (if blockTTL < 1 \<or> maxBlockTTL < blockTTL then (Inl (Invalid ''block_ttl'' ''block_ttl_range''), p)
      else case SetBlacklistSettings io \<lparr>bs_Enabled = enabled, bs_BlockTTL = blockTTL\<rparr> (po_tables p) of
        Inl e \<Rightarrow> (Inl (StoreErr e), p)
      | Inr t \<Rightarrow> then_rebuild io_src () (p\<lparr>po_tables := t\<rparr>))"

definition validListURL :: "(string \<Rightarrow> (string, url) result) \<Rightarrow> string \<Rightarrow> app_error option" where
  "validListURL parse raw =
     (if raw = [] then Some (Invalid ''url'' ''url_required'')
      else case parse raw of
        Inl _ \<Rightarrow> Some (Invalid ''url'' ''url_invalid'')
      | Inr u \<Rightarrow>
          if u_Scheme u \<noteq> ''https'' then Some (Invalid ''url'' ''url_not_https'')
          else if u_Host u = [] then Some (Invalid ''url'' ''url_invalid'')
          else if u_User u then Some (Invalid ''url'' ''url_has_credentials'')
          else None)"

definition validateList :: "(string \<Rightarrow> (string, url) result) \<Rightarrow> blacklist_list \<Rightarrow> (app_error, blacklist_list) result" where
  "validateList parse l0 =
     (let l = l0\<lparr>bl_Name := ToLower (TrimSpace (bl_Name l0)), bl_URL := TrimSpace (bl_URL l0),
                bl_Format := ToLower (TrimSpace (bl_Format l0)), bl_Description := TrimSpace (bl_Description l0)\<rparr>
      in if bl_Name l = [] then Inl (Invalid ''name'' ''name_required'')
         else if bl_Name l \<in> {PolicyAllow, PolicyDeny, PolicyForwarded} then Inl (Invalid ''name'' ''name_reserved'')
         else case validListURL parse (bl_URL l) of
           Some e \<Rightarrow> Inl e
         | None \<Rightarrow>
             let l1 = (if bl_Format l = [] then l\<lparr>bl_Format := FormatDomains\<rparr> else l)
             in if \<not> ValidFormat (bl_Format l1) then Inl (Invalid ''format'' ''format_unsupported'')
                else let l2 = (if bl_IntervalSeconds l1 = 0 then l1\<lparr>bl_IntervalSeconds := defaultInterval\<rparr> else l1)
                     in if bl_IntervalSeconds l2 < minInterval then Inl (Invalid ''interval_seconds'' ''interval_too_short'')
                        else Inr l2)"

definition PutList ::
  "string option \<Rightarrow> string option \<Rightarrow> (string \<Rightarrow> (string, url) result) \<Rightarrow> blacklist_list \<Rightarrow> pol \<Rightarrow> int outcome" where
  "PutList io io_src parse l0 p =
     (case validateList parse l0 of
        Inl e \<Rightarrow> (Inl e, p)
      | Inr l \<Rightarrow>
          (case (if bl_ID l \<noteq> 0 then
                   (case BlacklistListByID (bl_ID l) (po_tables p) of
                      Inl e \<Rightarrow> Inl (StoreErr e)
                    | Inr cur \<Rightarrow>
                        if bl_Builtin cur \<and> (bl_URL l \<noteq> bl_URL cur \<or> bl_Name l \<noteq> bl_Name cur)
                        then Inl (Invalid ''url'' ''builtin_immutable'')
                        else Inr (l\<lparr>bl_Builtin := bl_Builtin cur\<rparr>))
                 else Inr (l\<lparr>bl_Builtin := False\<rparr>)) of
             Inl e \<Rightarrow> (Inl e, p)
           | Inr l1 \<Rightarrow>
               (case PutBlacklistList io l1 (po_tables p) of
                  Inl e \<Rightarrow> (Inl (StoreErr e), p)
                | Inr (i, t) \<Rightarrow> then_rebuild io_src i (p\<lparr>po_tables := t\<rparr>))))"

definition DeleteList :: "string option \<Rightarrow> string option \<Rightarrow> int \<Rightarrow> pol \<Rightarrow> unit outcome" where
  "DeleteList io io_src i p =
     (case BlacklistListByID i (po_tables p) of
        Inl e \<Rightarrow> (Inl (StoreErr e), p)
      | Inr cur \<Rightarrow>
          if bl_Builtin cur then (Inl (Invalid ''id'' ''builtin_immutable''), p)
          else case DeleteBlacklistList io i (po_tables p) of
            Inl e \<Rightarrow> (Inl (StoreErr e), p)
          | Inr t \<Rightarrow> then_rebuild io_src () (p\<lparr>po_tables := t\<rparr>))"

definition valid_rule :: "(string \<Rightarrow> string option) \<Rightarrow> string \<Rightarrow> string \<Rightarrow> (app_error, blacklist_rule) result" where
  "valid_rule toASCII kind0 domain =
     (let kind = ToLower (TrimSpace kind0)
      in if kind \<noteq> PolicyAllow \<and> kind \<noteq> PolicyDeny then Inl (Invalid ''kind'' ''kind_invalid'')
         else case Normalize toASCII domain of
           None \<Rightarrow> Inl (Invalid ''domain'' ''domain_invalid'')
         | Some n \<Rightarrow> Inr \<lparr>br_ID = 0, br_Kind = kind, br_Domain = n\<rparr>)"

definition AddRule :: "string option \<Rightarrow> string option \<Rightarrow> (string \<Rightarrow> string option) \<Rightarrow> string \<Rightarrow> string \<Rightarrow> pol \<Rightarrow> int outcome" where
  "AddRule io io_src toASCII kind domain p =
     (case valid_rule toASCII kind domain of
        Inl e \<Rightarrow> (Inl e, p)
      | Inr r \<Rightarrow>
          (case PutBlacklistRule io r (po_tables p) of
             Inl e \<Rightarrow> (Inl (StoreErr e), p)
           | Inr (i, t) \<Rightarrow> then_rebuild io_src i (p\<lparr>po_tables := t\<rparr>)))"

definition DeleteRule :: "string option \<Rightarrow> string option \<Rightarrow> int \<Rightarrow> pol \<Rightarrow> unit outcome" where
  "DeleteRule io io_src i p =
     (case DeleteBlacklistRule io i (po_tables p) of
        Inl e \<Rightarrow> (Inl (StoreErr e), p)
      | Inr t \<Rightarrow> then_rebuild io_src () (p\<lparr>po_tables := t\<rparr>))"

definition Test :: "(string \<Rightarrow> string option) \<Rightarrow> string \<Rightarrow> pol \<Rightarrow> (app_error, decision) result" where
  "Test toASCII name p =
     (case Normalize toASCII name of
        None \<Rightarrow> Inl (Invalid ''name'' ''name_invalid'')
      | Some n \<Rightarrow> Inr (Decide toASCII (policy_Current (po_holder p)) n))"

definition ReplacePolicy ::
  "string option \<Rightarrow> (nat \<Rightarrow> string option) \<Rightarrow> string option \<Rightarrow> (string, manifest) result \<Rightarrow> (string \<Rightarrow> (string, url) result) \<Rightarrow> (string \<Rightarrow> string option) \<Rightarrow>
   blacklist_settings \<Rightarrow> blacklist_list list \<Rightarrow> blacklist_rule list \<Rightarrow> pol \<Rightarrow> unit outcome" where
  "ReplacePolicy io io_seed io_src decoded parse toASCII st ls rules p =
     (if bs_BlockTTL st < 1 \<or> maxBlockTTL < bs_BlockTTL st then (Inl (Invalid ''block_ttl'' ''block_ttl_range''), p)
      else case BuiltinManifest decoded of
        Inl e \<Rightarrow> (Inl (OtherErr e), p)
      | Inr m \<Rightarrow>
          (case map_result (validateList parse) ls of
             Inl e \<Rightarrow> (Inl e, p)
           | Inr vs \<Rightarrow>
               (case map_result (\<lambda>r. valid_rule toASCII (br_Kind r) (br_Domain r)) rules of
                  Inl e \<Rightarrow> (Inl e, p)
                | Inr rs \<Rightarrow>
                    (case ReplaceBlacklist io st (map (\<lambda>v. v\<lparr>bl_Builtin := bl_Name v \<in> set (map bi_Name (mf_Lists m))\<rparr>) vs) rs (po_tables p) of
                       Inl e \<Rightarrow> (Inl (StoreErr e), p)
                     | Inr t \<Rightarrow>
                         (case SeedBuiltins decoded io_seed t of
                            (Some e, t') \<Rightarrow> (Inl e, p\<lparr>po_tables := t'\<rparr>)
                          | (None, t') \<Rightarrow> then_rebuild io_src () (p\<lparr>po_tables := t'\<rparr>))))))"

end
