(* ===== verification/BlacklistSafety.thy ===== *)
theory BlacklistSafety
  imports Blacklist
begin

text \<open>
  Properties of the blacklist service: what a refresh may change, what an accepted or rejected
  write leaves, and the invariant of the tables.
\<close>

section \<open>The body column\<close>

lemma wf_domain_line: "wf_domain d \<Longrightarrow> d \<noteq> [] \<and> list_all (\<lambda>c. c \<noteq> CHR 0x0A) d"
proof -
  assume wf: "wf_domain d"
  have "\<not> label_char CHR 0x0A" by (simp add: label_char_def is_lower_def is_digit_def char_code_def)
  then have "CHR 0x0A \<notin> set d" using wf_domain_chars(1) [OF wf] by blast
  then show ?thesis using wf_domain_chars(2) [OF wf] by (auto simp: list_all_iff)
qed

lemma body_round_trip:
  assumes "\<forall>d \<in> set ds. wf_domain d" and "snd r = Join ds [CHR 0x0A]"
  shows "bl_Snapshot (scanList True r) = ds"
proof (cases ds)
  case Nil
  then show ?thesis using assms(2) by (simp add: scanList_def)
next
  case (Cons d rest)
  have ne: "ds \<noteq> []" "last ds \<in> set ds" using Cons by simp_all
  then have "Join ds [CHR 0x0A] \<noteq> []" using Join_last [of ds "[CHR 0x0A]"] assms(1) wf_domain_line by blast
  moreover have "Split (Join ds [CHR 0x0A]) CHR 0x0A = ds"
    by (rule Split_Join [OF ne(1)]) (use assms(1) wf_domain_line in \<open>auto simp: list_all_iff\<close>)
  ultimately show ?thesis using assms(2) by (simp add: scanList_def)
qed

lemma line_names_wf: "n \<in> set (line_names toASCII format l) \<Longrightarrow> wf_domain n"
  by (auto simp: line_names_def usable_names_def Let_def List.map_filter_def split: if_splits option.splits intro: Normalize_wf)

lemma Parse_wf:
  assumes "Parse toASCII body None format = Inr res"
  shows "\<forall>d \<in> set (Domains res). wf_domain d"
proof -
  have "Domains res = sorted_list_of_set (list_names toASCII format body)"
    using assms conjunct1 [OF parseLimit_spec [of maxEntries toASCII body format]] by (auto simp: Parse_def maxEntries_def split: if_splits)
  then show ?thesis by (auto simp: list_names_def intro: line_names_wf)
qed

section \<open>Refreshing keeps the last good data\<close>

text \<open>What a statement of the refresher may do to a row: everything but its identity and its definition.\<close>

definition keeps_row :: "list_row \<Rightarrow> list_row \<Rightarrow> bool" where
  "keeps_row r r' = (row_id r' = row_id r \<and> same_definition (fst r) (fst r'))"

definition keeps_tables :: "(list_row \<Rightarrow> list_row \<Rightarrow> bool) \<Rightarrow> btables \<Rightarrow> btables \<Rightarrow> bool" where
  "keeps_tables R t t' =
     (bt_version t' = bt_version t \<and> bt_rules t' = bt_rules t \<and> bt_settings t' = bt_settings t \<and>
      list_all2 (\<lambda>r r'. keeps_row r r' \<and> R r r') (bt_lists t) (bt_lists t'))"

lemma same_definition_refl [simp]: "same_definition l l"
  by (simp add: same_definition_def)

lemma keeps_row_refl [simp]: "keeps_row r r"
  by (simp add: keeps_row_def)

lemma update_lists_keeps:
  assumes "\<And>r. P r \<Longrightarrow> keeps_row r (f r) \<and> R r (f r)" and "\<And>r. \<not> P r \<Longrightarrow> R r r"
  shows "keeps_tables R t (update_lists P f t)"
proof -
  have "filter (\<lambda>r. P r \<and> \<not> same_definition (fst r) (fst (f r))) (bt_lists t) = []"
    using assms(1) by (auto simp: keeps_row_def filter_empty_conv)
  then show ?thesis using assms by (auto simp: keeps_tables_def update_lists_def list_all2_conv_all_nth)
qed

lemma keeps_tables_refl: "(\<And>r. R r r) \<Longrightarrow> keeps_tables R t t"
  by (simp add: keeps_tables_def list.rel_refl)

abbreviation same_body :: "list_row \<Rightarrow> list_row \<Rightarrow> bool" where
  "same_body \<equiv> (\<lambda>r r'. snd r' = snd r)"

lemma fail_list_keeps: "keeps_tables same_body t (fail_list e l cause t)"
proof (cases "re_io_err e")
  case None
  then show ?thesis
    by (simp add: fail_list_def or_same_def SetBlacklistError_def) (rule update_lists_keeps, simp_all add: keeps_row_def same_definition_def)
qed (simp add: fail_list_def or_same_def SetBlacklistError_def keeps_tables_refl)

lemma touch_keeps: "keeps_tables same_body t (or_same t (TouchBlacklistAttempt io i at t))"
proof (cases io)
  case None
  then show ?thesis
    by (simp add: or_same_def TouchBlacklistAttempt_def) (rule update_lists_keeps, simp_all add: keeps_row_def same_definition_def)
qed (simp add: or_same_def TouchBlacklistAttempt_def keeps_tables_refl)

text \<open>Where a changed row's body comes from: this download, parsed in the list's own format, and not empty.\<close>

definition downloaded :: "renv \<Rightarrow> blacklist_list \<Rightarrow> string list \<Rightarrow> bool" where
  "downloaded e l ds =
     (ds \<noteq> [] \<and> (\<exists>res parsed.
        Fetch (re_fetch e) MaxListBytes (bl_URL l) (bl_ETag l) (bl_LastModified l) = Inr res \<and> \<not> fr_NotModified res \<and>
        Parse (re_toASCII e) (fr_Body res) None (bl_Format l) = Inr parsed \<and> ds = Domains parsed))"

lemma refresh_cases:
  assumes "refresh e l t = ((ok, changed), t')"
  obtains (kept) "\<not> changed" "keeps_tables same_body t t'"
    | (installed) "changed" "ok" "keeps_tables (\<lambda>r r'. if row_id r = bl_ID l then downloaded e l (bl_Snapshot (scanList True r')) else r' = r) t t'"
proof (cases "Fetch (re_fetch e) MaxListBytes (bl_URL l) (bl_ETag l) (bl_LastModified l)")
  case (Inl err)
  then show thesis using assms kept fail_list_keeps by (auto simp: refresh_def)
next
  case F: (Inr res)
  show thesis
  proof (cases "fr_NotModified res")
    case True
    then show thesis using F assms kept touch_keeps by (auto simp: refresh_def)
  next
    case nm: False
    show thesis
    proof (cases "Parse (re_toASCII e) (fr_Body res) None (bl_Format l)")
      case (Inl err)
      then show thesis using F nm assms kept fail_list_keeps by (auto simp: refresh_def)
    next
      case P: (Inr parsed)
      show thesis
      proof (cases "Domains parsed = [] \<or> \<not> is_ok (SetBlacklistSnapshot (re_io_put e) (bl_ID l) (Domains parsed) (Skipped parsed) (fr_ETag res) (fr_LastModified res) (re_now e) t)")
        case True
        then show thesis using F nm P assms kept fail_list_keeps by (auto simp: refresh_def is_ok_def split: sum.splits if_splits)
      next
        case False
        then have t': "changed" "ok" "SetBlacklistSnapshot (re_io_put e) (bl_ID l) (Domains parsed) (Skipped parsed) (fr_ETag res) (fr_LastModified res) (re_now e) t = Inr t'"
          using F nm P assms by (auto simp: refresh_def is_ok_def split: sum.splits if_splits)
        have d: "downloaded e l (bl_Snapshot (scanList True r))" if "snd r = Join (Domains parsed) [CHR 0x0A]" for r
          using body_round_trip [OF Parse_wf [OF P] that] False F nm P unfolding downloaded_def by auto
        have "keeps_tables (\<lambda>r r'. if row_id r = bl_ID l then downloaded e l (bl_Snapshot (scanList True r')) else r' = r) t t'"
        proof -
          from t'(3) have "t' = update_lists (\<lambda>r. row_id r = bl_ID l)
            (\<lambda>r. ((fst r)\<lparr>bl_EntryCount := int (length (Domains parsed)), bl_SkippedCount := Skipped parsed, bl_ETag := fr_ETag res,
                bl_LastModified := fr_LastModified res, bl_LastOKAt := re_now e, bl_LastAttemptAt := re_now e, bl_LastError := []\<rparr>,
                Join (Domains parsed) [CHR 0x0A])) t"
            by (auto simp: SetBlacklistSnapshot_def split: option.splits if_splits)
          then show ?thesis by (simp only:) (rule update_lists_keeps, auto simp: keeps_row_def same_definition_def intro!: d)
        qed
        then show thesis using installed t' by blast
      qed
    qed
  qed
qed

text \<open>
  C31: a refresh never loses data. Whatever the network, the body and the database do, an attempt that does not
  succeed with new content leaves every stored body as it was, and one that does installs, for that list
  alone, exactly the non-empty list of domains parsed from this download; reading the stored text back
  gives those domains. In either case the rules, the settings, the definitions of the lists
  and the configuration version that replicas watch do not change.
\<close>

theorem refresh_keeps_last_good:
  assumes "refresh e l t = ((ok, changed), t')"
  shows "keeps_tables (\<lambda>r r'. if changed \<and> row_id r = bl_ID l then downloaded e l (bl_Snapshot (scanList True r')) else snd r' = snd r) t t' \<and>
    (changed \<longrightarrow> ok)"
  using assms
proof (cases rule: refresh_cases)
  case kept
  then show ?thesis by (simp add: keeps_tables_def)
next
  case installed
  then show ?thesis unfolding keeps_tables_def by (auto elim!: list_all2_mono split: if_splits)
qed

definition ads_list :: blacklist_list where
  "ads_list = \<lparr>bl_ID = 1, bl_Name = ''ads'', bl_URL = ''https://lists.example/ads'', bl_Format = ''domains'', bl_Description = [],
     bl_Enabled = True, bl_Builtin = False, bl_IntervalSeconds = 300, bl_LastAttemptAt = 0, bl_LastOKAt = 0, bl_LastError = [],
     bl_ETag = ''v1'', bl_LastModified = [], bl_EntryCount = 1, bl_SkippedCount = 0, bl_Snapshot = []\<rparr>"

definition ads_tables :: btables where
  "ads_tables = \<lparr>bt_settings = Some \<lparr>bs_Enabled = True, bs_BlockTTL = 60\<rparr>, bt_lists = [(ads_list, ''old.example'')], bt_rules = [], bt_version = 7\<rparr>"

definition https_env :: "string \<Rightarrow> renv" where
  "https_env body = \<lparr>re_now = 1000,
     re_fetch = \<lparr>fe_parse = (\<lambda>s. Inr \<lparr>u_Scheme = ''https'', u_Host = ''lists.example'', u_User = False\<rparr>), fe_request = (\<lambda>_. None),
       fe_do = (\<lambda>_. Inr \<lparr>rs_StatusCode = 200, rs_Status = ''200 OK'', rs_ETag = ''v2'', rs_LastModified = [], rs_Body = body, rs_ReadErr = None\<rparr>)\<rparr>,
     re_toASCII = Some, re_io_touch = None, re_io_put = None, re_io_err = None\<rparr>"

theorem refresh_keeps_last_good_witness:
  "map snd (bt_lists (snd (refresh (https_env ''# maintenance page'') ads_list ads_tables))) = [''old.example'']"
proof -
  let ?x = "refresh (https_env ''# maintenance page'') ads_list ads_tables"
  have c: "fst ?x = (False, False)" by code_simp
  then have x: "?x = ((False, False), snd ?x)" by (metis prod.collapse)
  from refresh_keeps_last_good [OF x] have "list_all2 (\<lambda>r r'. snd r' = snd r) (bt_lists ads_tables) (bt_lists (snd ?x))"
    by (auto simp: keeps_tables_def elim: list_all2_mono)
  then have "map snd (bt_lists (snd ?x)) = map snd (bt_lists ads_tables)"
    by (auto simp: list_all2_conv_all_nth intro: nth_equalityI)
  then show ?thesis by (simp add: ads_tables_def)
qed

section \<open>Writes through the service\<close>

datatype bl_op =
    OSetSettings bool int
  | OPutList blacklist_list
  | ODeleteList int
  | OAddRule string string
  | ODeleteRule int
  | OReplace blacklist_settings "blacklist_list list" "blacklist_rule list"

record benv =
  be_io :: "string option"
  be_io_src :: "string option"
  be_io_seed :: "nat \<Rightarrow> string option"
  be_manifest :: "(string, manifest) result"
  be_parse :: "string \<Rightarrow> (string, url) result"
  be_toASCII :: "string \<Rightarrow> string option"

definition done_with :: "'a outcome \<Rightarrow> app_error option \<times> pol" where
  "done_with x = (case x of (Inl e, p) \<Rightarrow> (Some e, p) | (Inr _, p) \<Rightarrow> (None, p))"

fun bl_exec :: "benv \<Rightarrow> bl_op \<Rightarrow> pol \<Rightarrow> app_error option \<times> pol" where
  "bl_exec e (OSetSettings enabled ttl) p = done_with (SetSettings (be_io e) (be_io_src e) enabled ttl p)"
| "bl_exec e (OPutList l) p = done_with (PutList (be_io e) (be_io_src e) (be_parse e) l p)"
| "bl_exec e (ODeleteList i) p = done_with (DeleteList (be_io e) (be_io_src e) i p)"
| "bl_exec e (OAddRule kind domain) p = done_with (AddRule (be_io e) (be_io_src e) (be_toASCII e) kind domain p)"
| "bl_exec e (ODeleteRule i) p = done_with (DeleteRule (be_io e) (be_io_src e) i p)"
| "bl_exec e (OReplace st ls rules) p =
     done_with (ReplacePolicy (be_io e) (be_io_seed e) (be_io_src e) (be_manifest e) (be_parse e) (be_toASCII e) st ls rules p)"

text \<open>The published policy is the one the tables define.\<close>

definition in_sync :: "pol \<Rightarrow> bool" where
  "in_sync p =
     (policy_Current (po_holder p) =
        Some (policy_Build (BlacklistSettings (po_tables p)) (BlacklistLists (po_tables p)) (BlacklistRules (po_tables p))))"

text \<open>
  A write with the flag set may also have stopped between two of its transactions: the tables have changed, what is served has not.
\<close>

definition good_write :: "bool \<Rightarrow> string option \<Rightarrow> pol \<Rightarrow> app_error option \<times> pol \<Rightarrow> bool" where
  "good_write halfway io p x =
     (case fst x of
        None \<Rightarrow> in_sync (snd x)
      | Some (Invalid _ _) \<Rightarrow> snd x = p
      | Some (StoreErr _) \<Rightarrow> snd x = p \<or> halfway \<and> po_holder (snd x) = po_holder p
      | Some (OtherErr m) \<Rightarrow> io = Some m)"

lemma good_rebuild [simp]: "good_write h io p (done_with (then_rebuild io x p'))"
  by (cases io) (simp_all add: good_write_def done_with_def then_rebuild_def rebuilt_def in_sync_def policy_source_def
      policy_Rebuild_def policy_Current_def)

lemma good_refused [simp]:
  "good_write h io p (done_with (Inl (Invalid f c), p))" "good_write h io p (done_with (Inl (StoreErr se), p))"
  by (simp_all add: good_write_def done_with_def)

text \<open>Validation only ever fails with a validation error.\<close>

definition is_invalid :: "app_error \<Rightarrow> bool" where
  "is_invalid e = (case e of Invalid _ _ \<Rightarrow> True | _ \<Rightarrow> False)"

lemma good_invalid: "is_invalid e \<Longrightarrow> good_write h io p (done_with (Inl e, p))"
  by (cases e) (simp_all add: is_invalid_def)

lemma validListURL_invalid: "validListURL parse raw = Some e \<Longrightarrow> is_invalid e"
  by (auto simp: validListURL_def is_invalid_def split: if_splits sum.splits)

lemma validateList_invalid: "validateList parse l = Inl e \<Longrightarrow> is_invalid e"
  by (auto simp: validateList_def Let_def split: if_splits option.splits dest: validListURL_invalid) (auto simp: is_invalid_def)

lemma valid_rule_invalid: "valid_rule toASCII k d = Inl e \<Longrightarrow> is_invalid e"
  by (auto simp: valid_rule_def Let_def is_invalid_def split: if_splits option.splits)

lemma map_result_Inl: "map_result f xs = Inl e \<Longrightarrow> \<exists>x \<in> set xs. f x = Inl e"
  by (induction xs) (auto split: sum.splits)

text \<open>Seeding a manifest whose names are distinct always finds room.\<close>

definition manifest_ok :: "benv \<Rightarrow> manifest \<Rightarrow> bool" where
  "manifest_ok e m = (BuiltinManifest (be_manifest e) = Inr m \<and> distinct (map bi_Name (mf_Lists m)))"

definition names_of :: "btables \<Rightarrow> string set" where
  "names_of t = row_name ` set (bt_lists t)"

lemma names_of_insert [simp]: "names_of (snd (insert_list l body t)) = insert (bl_Name l) (names_of t)"
  by (simp add: names_of_def insert_list_def Let_def)

lemma names_of_metas: "bl_Name ` set (BlacklistListMetas t) = names_of t"
proof -
  have "bl_Name \<circ> scanList False = row_name" by (rule ext) (simp add: scanList_def)
  then show ?thesis by (simp add: BlacklistListMetas_def blacklistLists_def names_of_def image_comp)
qed

lemma PutBlacklistList_new:
  "bl_ID l = 0 \<Longrightarrow> bl_Name l \<notin> names_of t \<Longrightarrow> PutBlacklistList None l t = Inr (insert_list (definition_only l) [] t)"
  by (simp add: PutBlacklistList_def list_ex_iff names_of_def) force

lemma seed_ok:
  assumes "distinct (map bi_Name bs)" and "\<forall>b \<in> set bs. bi_Name b \<in> set known \<or> bi_Name b \<notin> names_of t"
  shows "fst (seed (\<lambda>_. None) k known bs t) = None"
  using assms
proof (induction bs arbitrary: t k)
  case (Cons b bs)
  show ?case
  proof (cases "bi_Name b \<in> set known")
    case False
    let ?t = "snd (insert_list (definition_only (builtin_row b)) [] t)"
    have p: "PutBlacklistList None (builtin_row b) t = Inr (insert_list (definition_only (builtin_row b)) [] t)"
      by (rule PutBlacklistList_new) (use False Cons.prems in \<open>simp_all add: builtin_row_def\<close>)
    have "fst (seed (\<lambda>_. None) (Suc k) known bs ?t) = None"
    proof (rule Cons.IH)
      show "distinct (map bi_Name bs)" using Cons.prems(1) by simp
      have "bi_Name b' \<noteq> bi_Name b" if "b' \<in> set bs" for b' using Cons.prems(1) that by (metis distinct.simps(2) image_eqI list.simps(9) set_map)
      moreover have "names_of ?t = insert (bi_Name b) (names_of t)" by (simp add: builtin_row_def definition_only_def)
      ultimately show "\<forall>b' \<in> set bs. bi_Name b' \<in> set known \<or> bi_Name b' \<notin> names_of ?t" using Cons.prems(2) by simp
    qed
    with False p show ?thesis by (cases "insert_list (definition_only (builtin_row b)) [] t") simp
  qed (use Cons in simp)
qed simp

lemma SeedBuiltins_ok:
  assumes "manifest_ok e m"
  shows "fst (SeedBuiltins (be_manifest e) (\<lambda>_. None) t) = None"
proof -
  let ?known = "map bl_Name (BlacklistListMetas t)"
  have "fst (seed (\<lambda>_. None) 1 ?known (mf_Lists m) t) = None"
    by (rule seed_ok) (use assms in \<open>auto simp: manifest_ok_def names_of_metas\<close>)
  then show ?thesis using assms
    by (cases "seed (\<lambda>_. None) 1 ?known (mf_Lists m) t") (simp add: SeedBuiltins_def manifest_ok_def)
qed

lemma SeedBuiltins_error: "BuiltinManifest d = Inr m \<Longrightarrow> SeedBuiltins d io t = (Some err, t') \<Longrightarrow> \<exists>se. err = StoreErr se"
  by (auto simp: SeedBuiltins_def split: option.splits prod.splits)

lemma ReplacePolicy_good:
  assumes "manifest_ok e m"
  shows "good_write (\<exists>i. be_io_seed e i \<noteq> None) (be_io_src e) p (done_with (ReplacePolicy (be_io e) (be_io_seed e) (be_io_src e) (be_manifest e) (be_parse e) (be_toASCII e) st ls rules p))"
proof (cases "bs_BlockTTL st < 1 \<or> maxBlockTTL < bs_BlockTTL st")
  case True
  then show ?thesis by (auto simp: ReplacePolicy_def)
next
  case ttl: False
  have mf: "BuiltinManifest (be_manifest e) = Inr m" using assms by (simp add: manifest_ok_def)
  show ?thesis
  proof (cases "map_result (validateList (be_parse e)) ls")
    case (Inl err)
    then have "is_invalid err" using map_result_Inl [OF Inl] validateList_invalid by blast
    then show ?thesis using Inl ttl mf by (simp add: ReplacePolicy_def good_invalid)
  next
    case vs: (Inr vs)
    show ?thesis
    proof (cases "map_result (\<lambda>r. valid_rule (be_toASCII e) (br_Kind r) (br_Domain r)) rules")
      case (Inl err)
      then have "is_invalid err" using map_result_Inl [OF Inl] valid_rule_invalid by blast
      then show ?thesis using Inl vs ttl mf by (simp add: ReplacePolicy_def good_invalid)
    next
      case rs: (Inr rs)
      let ?r = "ReplaceBlacklist (be_io e) st (map (\<lambda>v. v\<lparr>bl_Builtin := bl_Name v \<in> set (map bi_Name (mf_Lists m))\<rparr>) vs) rs (po_tables p)"
      show ?thesis
      proof (cases ?r)
        case (Inl err)
        then show ?thesis using rs vs ttl mf by (simp add: ReplacePolicy_def)
      next
        case (Inr t)
        show ?thesis
        proof (cases "SeedBuiltins (be_manifest e) (be_io_seed e) t")
          case (Pair o' t')
          show ?thesis
          proof (cases o')
            case None
            then show ?thesis using Pair Inr rs vs ttl mf by (simp add: ReplacePolicy_def)
          next
            case (Some err)
            have "\<exists>i. be_io_seed e i \<noteq> None"
            proof (rule ccontr)
              assume "\<not> ?thesis"
              then have "be_io_seed e = (\<lambda>_. None)" by auto
              then show False using SeedBuiltins_ok [OF assms, of t] Pair Some by simp
            qed
            moreover obtain se where "err = StoreErr se" using SeedBuiltins_error [OF mf] Pair Some by blast
            ultimately show ?thesis using Pair Some Inr rs vs ttl mf by (simp add: ReplacePolicy_def good_write_def done_with_def)
          qed
        qed
      qed
    qed
  qed
qed

lemma PutList_good: "good_write False io_src p (done_with (PutList io io_src parse l p))"
proof (cases "validateList parse l")
  case (Inl err)
  then show ?thesis using validateList_invalid [OF Inl] by (simp add: PutList_def good_invalid)
next
  case (Inr v)
  then show ?thesis by (auto simp: PutList_def split: sum.splits if_splits)
qed

lemma AddRule_good: "good_write False io_src p (done_with (AddRule io io_src toASCII kind domain p))"
proof (cases "valid_rule toASCII kind domain")
  case (Inl err)
  then show ?thesis using valid_rule_invalid [OF Inl] by (simp add: AddRule_def good_invalid)
next
  case (Inr r)
  then show ?thesis by (auto simp: AddRule_def split: sum.splits)
qed

lemma bl_exec_good:
  assumes "manifest_ok e m"
  shows "good_write ((\<exists>st ls rules. op = OReplace st ls rules) \<and> (\<exists>i. be_io_seed e i \<noteq> None)) (be_io_src e) p (bl_exec e op p)"
proof (cases op)
  case (OReplace st ls rules)
  then show ?thesis using ReplacePolicy_good [OF assms] by simp
qed (auto simp: PutList_good AddRule_good SetSettings_def DeleteList_def DeleteRule_def split: sum.splits)

text \<open>
  C30: a write through the service is live or it has not happened. A write that reports success has
  published exactly the policy the tables now define; one that is refused, by validation or by the
  store, changes neither the tables nor what is served. The one exception is the replacement of the whole policy when the
  seeding of the shipped lists that follows it fails: the tables are replaced by then, and what is served stays the old policy. Any other error is that of a rebuild that could not read the tables
  back. The shipped manifest is valid, with distinct names.
\<close>

theorem service_write_live_or_nothing:
  assumes "manifest_ok e m" and "bl_exec e op p = (res, p')"
  shows "case res of
      None \<Rightarrow> policy_Current (po_holder p') =
        Some (policy_Build (BlacklistSettings (po_tables p')) (BlacklistLists (po_tables p')) (BlacklistRules (po_tables p')))
    | Some (Invalid f c) \<Rightarrow> p' = p
    | Some (StoreErr se) \<Rightarrow> p' = p \<or>
        (\<exists>st ls rules. op = OReplace st ls rules) \<and> (\<exists>i. be_io_seed e i \<noteq> None) \<and> po_holder p' = po_holder p
    | Some (OtherErr m) \<Rightarrow> be_io_src e = Some m"
  using bl_exec_good [OF assms(1), of op p] assms(2)
  by (auto simp: good_write_def in_sync_def split: option.splits app_error.splits)

definition steven_black :: builtin where
  "steven_black = \<lparr>bi_Name = ''steven-black'', bi_Description = ''Unified hosts file'',
     bi_URL = ''https://raw.githubusercontent.com/StevenBlack/hosts/master/hosts'', bi_Format = ''hosts'', bi_License = ''MIT'',
     bi_Attribution = ''StevenBlack/hosts contributors'', bi_IntervalSeconds = 86400\<rparr>"

definition shipped_env :: benv where
  "shipped_env = \<lparr>be_io = None, be_io_src = None, be_io_seed = (\<lambda>_. None),
     be_manifest = Inr \<lparr>mf_Version = 1, mf_Lists = [steven_black]\<rparr>,
     be_parse = (\<lambda>s. Inr \<lparr>u_Scheme = takeWhile (\<lambda>c. c \<noteq> CHR '':'') s, u_Host = ''host'', u_User = False\<rparr>), be_toASCII = Some\<rparr>"

lemma shipped_manifest_ok: "manifest_ok shipped_env \<lparr>mf_Version = 1, mf_Lists = [steven_black]\<rparr>"
  by (simp add: manifest_ok_def shipped_env_def BuiltinManifest_def steven_black_def builtin_error_def ValidFormat_def FormatHosts_def)

theorem service_write_live_or_nothing_witness:
  "snd (bl_exec shipped_env (OAddRule ''block'' ''ads.example'') \<lparr>po_tables = ads_tables, po_holder = policy_NewHolder\<rparr>) =
     \<lparr>po_tables = ads_tables, po_holder = policy_NewHolder\<rparr>"
proof -
  let ?p = "\<lparr>po_tables = ads_tables, po_holder = policy_NewHolder\<rparr>"
  let ?x = "bl_exec shipped_env (OAddRule ''block'' ''ads.example'') ?p"
  have "fst ?x = Some (Invalid ''kind'' ''kind_invalid'')" by code_simp
  then have x: "?x = (Some (Invalid ''kind'' ''kind_invalid''), snd ?x)" by (metis prod.collapse)
  from service_write_live_or_nothing [OF shipped_manifest_ok x] show ?thesis by simp
qed

text \<open>The exception happens: an import that turns filtering off fails at the seeding, and the stored policy and the served one part.\<close>

lemma failed_seed_parts_tables_and_policy:
  "let e = shipped_env\<lparr>be_io_seed := (\<lambda>_. Some ''disk'')\<rparr>; p = snd (bl_exec shipped_env (OSetSettings True 60) \<lparr>po_tables = ads_tables, po_holder = policy_NewHolder\<rparr>);
       (err, p') = bl_exec e (OReplace \<lparr>bs_Enabled = False, bs_BlockTTL = 60\<rparr> [] []) p
   in err = Some (StoreErr (ErrDB ''disk'')) \<and> \<not> bs_Enabled (BlacklistSettings (po_tables p')) \<and>
      map_option ps_enabled (policy_Current (po_holder p')) = Some True"
  by code_simp

section \<open>The invariant of the tables\<close>

definition reserved :: "string set" where
  "reserved = {''allow'', ''deny'', ''forwarded''}"

definition row_ok :: "list_row \<Rightarrow> bool" where
  "row_ok r = (0 < row_id r \<and> ValidFormat (bl_Format (fst r)) \<and> (bl_Builtin (fst r) \<or> row_name r \<notin> reserved))"

definition lists_ok :: "list_row list \<Rightarrow> bool" where
  "lists_ok rows = (distinct (map row_id rows) \<and> distinct (map row_name rows) \<and> list_all row_ok rows)"

definition rule_ok :: "blacklist_rule \<Rightarrow> bool" where
  "rule_ok r = (br_Kind r \<in> {''allow'', ''deny''} \<and> wf_domain (br_Domain r))"

definition rules_ok :: "blacklist_rule list \<Rightarrow> bool" where
  "rules_ok rules = (distinct (map br_ID rules) \<and> distinct (map br_Domain rules) \<and> list_all rule_ok rules)"

definition tables_ok :: "btables \<Rightarrow> bool" where
  "tables_ok t = (lists_ok (bt_lists t) \<and> rules_ok (bt_rules t))"

lemma insert_list_ok:
  assumes "tables_ok t" and "bl_Name l \<notin> names_of t" and "ValidFormat (bl_Format l)" and "bl_Builtin l \<or> bl_Name l \<notin> reserved"
  shows "tables_ok (snd (insert_list l body t))"
proof -
  let ?i = "next_id (map row_id (bt_lists t))"
  have "0 < ?i" by (rule next_id_pos) (use assms(1) in \<open>auto simp: tables_ok_def lists_ok_def list_all_iff row_ok_def\<close>)
  moreover have "?i \<notin> row_id ` set (bt_lists t)" using next_id_gt [of _ "map row_id (bt_lists t)"] by (metis less_irrefl set_map)
  ultimately show ?thesis using assms
    by (simp add: tables_ok_def lists_ok_def names_of_def insert_list_def Let_def row_ok_def)
qed

lemma update_lists_ok:
  assumes "tables_ok t" and "\<And>r. r \<in> set (bt_lists t) \<Longrightarrow> P r \<Longrightarrow> row_id (f r) = row_id r \<and> row_ok (f r)"
    and "distinct (map (\<lambda>r. row_name (if P r then f r else r)) (bt_lists t))"
  shows "tables_ok (update_lists P f t)"
proof -
  have i: "map row_id (map (\<lambda>r. if P r then f r else r) (bt_lists t)) = map row_id (bt_lists t)"
    using assms(2) by (auto simp: comp_def)
  have l: "lists_ok (map (\<lambda>r. if P r then f r else r) (bt_lists t))"
    unfolding lists_ok_def i using assms by (auto simp: tables_ok_def lists_ok_def list_all_iff comp_def)
  then show ?thesis using assms(1) by (simp add: tables_ok_def update_lists_def)
qed

lemma filter_rows_ok: "lists_ok rows \<Longrightarrow> lists_ok (filter Q rows)"
  by (auto simp: lists_ok_def list_all_iff distinct_map inj_on_def)

lemma filter_rules_ok: "rules_ok rules \<Longrightarrow> rules_ok (filter Q rules)"
  by (auto simp: rules_ok_def list_all_iff distinct_map inj_on_def)

lemma delete_ok:
  "tables_ok t \<Longrightarrow> tables_ok (delete_lists P t)" "tables_ok t \<Longrightarrow> tables_ok (delete_rules Q t)" "tables_ok t \<Longrightarrow> tables_ok (put_settings b t)"
  by (simp_all add: tables_ok_def delete_lists_def delete_rules_def put_settings_def filter_rows_ok filter_rules_ok)

lemma insert_rule_ok:
  assumes "tables_ok t" and "insert_rule r t = Inr (i, t')" and "rule_ok r"
  shows "tables_ok t'"
proof -
  let ?i = "next_id (map br_ID (bt_rules t))"
  have i: "?i \<notin> br_ID ` set (bt_rules t)" using next_id_gt [of _ "map br_ID (bt_rules t)"] by (metis less_irrefl set_map)
  have "br_Domain r \<notin> br_Domain ` set (bt_rules t)" using assms(2) by (auto simp: insert_rule_def list_ex_iff split: if_splits)
  then show ?thesis using assms i
    by (auto simp: insert_rule_def Let_def tables_ok_def rules_ok_def rule_ok_def split: if_splits)
qed

lemma insert_rules_ok: "tables_ok t \<Longrightarrow> insert_rules rs t = Inr t' \<Longrightarrow> list_all rule_ok rs \<Longrightarrow> tables_ok t'"
  by (induction rs arbitrary: t) (auto split: sum.splits prod.splits intro: insert_rule_ok)

lemma validateList_ok: "validateList parse l = Inr v \<Longrightarrow> ValidFormat (bl_Format v) \<and> bl_Name v \<notin> reserved \<and> bl_ID v = bl_ID l"
  by (auto simp: validateList_def Let_def reserved_def PolicyAllow_def PolicyDeny_def PolicyForwarded_def ValidFormat_def split: if_splits option.splits)

lemma valid_rule_ok: "valid_rule toASCII k d = Inr r \<Longrightarrow> rule_ok r"
  by (auto simp: valid_rule_def Let_def rule_ok_def PolicyAllow_def PolicyDeny_def Normalize_wf split: if_splits option.splits)

lemma definition_only_simps [simp]:
  "bl_Name (definition_only l) = bl_Name l" "bl_Format (definition_only l) = bl_Format l" "bl_Builtin (definition_only l) = bl_Builtin l"
  by (simp_all add: definition_only_def)

lemma name_clash: "list_ex (\<lambda>r. row_name r = n) (bt_lists t) \<longleftrightarrow> n \<in> names_of t"
  by (auto simp: list_ex_iff names_of_def)

lemma PutBlacklistList_ok:
  assumes "tables_ok t" and "PutBlacklistList io l t = Inr (i, t')" and "ValidFormat (bl_Format l)" and "bl_Builtin l \<or> bl_Name l \<notin> reserved"
    and "bl_ID l \<noteq> 0 \<Longrightarrow> \<exists>cur. BlacklistListByID (bl_ID l) t = Inr cur \<and> bl_Builtin cur = bl_Builtin l"
  shows "tables_ok t'"
proof (cases "bl_ID l = 0")
  case True
  then have "t' = snd (insert_list (definition_only l) [] t)" "bl_Name l \<notin> names_of t"
    using assms(2) by (auto simp: PutBlacklistList_def name_clash split: option.splits if_splits)
  then show ?thesis using insert_list_ok [OF assms(1)] assms(3,4) by simp
next
  case False
  let ?P = "\<lambda>r. row_id r = bl_ID l"
  let ?f = "\<lambda>r. ((fst r)\<lparr>bl_Name := bl_Name l, bl_URL := bl_URL l, bl_Format := bl_Format l, bl_Description := bl_Description l,
                        bl_Enabled := bl_Enabled l, bl_IntervalSeconds := bl_IntervalSeconds l\<rparr>, snd r)"
  have t': "t' = update_lists ?P ?f t" and clash: "\<forall>r \<in> set (bt_lists t). row_name r = bl_Name l \<longrightarrow> row_id r = bl_ID l"
    using assms(2) False by (auto simp: PutBlacklistList_def list_ex_iff split: option.splits if_splits)
  have d: "distinct (map row_id (bt_lists t))" "distinct (map row_name (bt_lists t))" "list_all row_ok (bt_lists t)"
    using assms(1) by (simp_all add: tables_ok_def lists_ok_def)
  obtain cur where cur: "BlacklistListByID (bl_ID l) t = Inr cur" "bl_Builtin cur = bl_Builtin l" using assms(5) False by blast
  then obtain r0 where r0: "r0 \<in> set (bt_lists t)" "row_id r0 = bl_ID l" "bl_Builtin (fst r0) = bl_Builtin l"
    by (auto simp: BlacklistListByID_def scanList_def split: option.splits dest!: find_SomeD)
  have same: "r = r0" if "r \<in> set (bt_lists t)" "row_id r = bl_ID l" for r
    using d(1) that r0 by (simp add: distinct_map inj_on_def)
  show ?thesis unfolding t'
  proof (rule update_lists_ok [OF assms(1)])
    show "row_id (?f r) = row_id r \<and> row_ok (?f r)" if "r \<in> set (bt_lists t)" "?P r" for r
      using that same [OF that] r0 d(3) assms(3,4) by (auto simp: row_ok_def list_all_iff)
    show "distinct (map (\<lambda>r. row_name (if ?P r then ?f r else r)) (bt_lists t))"
      using d(1,2) clash by (auto simp: distinct_map inj_on_def)
  qed
qed

lemma insert_lists_ok:
  assumes "tables_ok t" and "insert_lists old ls t = Inr t'"
    and "list_all (\<lambda>l. ValidFormat (bl_Format l) \<and> (bl_Builtin l \<or> bl_Name l \<notin> reserved)) ls"
  shows "tables_ok t'"
  using assms
proof (induction ls arbitrary: t)
  case (Cons l ls)
  obtain row body where k: "with_kept (kept_body old (bl_URL l)) l = (row, body)" by fastforce
  then have row: "bl_Name row = bl_Name l" "bl_Format row = bl_Format l" "bl_Builtin row = bl_Builtin l"
    by (auto simp: with_kept_def split: option.splits prod.splits)
  have "bl_Name row \<notin> names_of t" using Cons.prems(2) row k by (auto simp: name_clash split: if_splits)
  then have "tables_ok (snd (insert_list row body t))" by (rule insert_list_ok [OF Cons.prems(1)]) (use Cons.prems(3) row in auto)
  then show ?case by (rule Cons.IH) (use Cons.prems k in \<open>auto split: if_splits\<close>)
qed simp

lemma ReplaceBlacklist_ok:
  assumes "tables_ok t" and "ReplaceBlacklist io st ls rules t = Inr t'" and "list_all rule_ok rules"
    and "list_all (\<lambda>l. ValidFormat (bl_Format l) \<and> (bl_Builtin l \<or> bl_Name l \<notin> reserved)) ls"
  shows "tables_ok t'"
proof -
  let ?t1 = "put_settings st (delete_lists (\<lambda>_. True) (delete_rules (\<lambda>_. True) t))"
  obtain t2 where t2: "insert_lists (bt_lists t) ls ?t1 = Inr t2" "insert_rules rules t2 = Inr t'"
    using assms(2) by (auto simp: ReplaceBlacklist_def Let_def split: option.splits sum.splits)
  have "tables_ok ?t1" using assms(1) by (intro delete_ok)
  from insert_rules_ok [OF insert_lists_ok [OF this t2(1) assms(4)] t2(2) assms(3)] show ?thesis .
qed

lemma builtin_valid: "BuiltinManifest d = Inr m \<Longrightarrow> b \<in> set (mf_Lists m) \<Longrightarrow> ValidFormat (bi_Format b)"
proof -
  assume m: "BuiltinManifest d = Inr m" and b: "b \<in> set (mf_Lists m)"
  have "find (\<lambda>l. builtin_error l \<noteq> None) (mf_Lists m) = None"
    using m by (auto simp: BuiltinManifest_def split: sum.splits if_splits option.splits)
  then have "builtin_error b = None" using b by (auto simp: find_None_iff)
  then show ?thesis by (auto simp: builtin_error_def split: if_splits)
qed

lemma seed_tables_ok:
  assumes "tables_ok t" and "\<forall>b \<in> set bs. ValidFormat (bi_Format b)"
  shows "tables_ok (snd (seed io k known bs t))"
  using assms
proof (induction bs arbitrary: t k)
  case (Cons b bs)
  have "tables_ok t1" if "PutBlacklistList (io k) (builtin_row b) t = Inr (i, t1)" for i t1
    by (rule PutBlacklistList_ok [OF Cons.prems(1) that]) (use Cons.prems(2) in \<open>simp_all add: builtin_row_def\<close>)
  then show ?case using Cons by (auto split: sum.split)
qed simp

lemma SeedBuiltins_tables_ok: "tables_ok t \<Longrightarrow> tables_ok (snd (SeedBuiltins d io t))"
proof (cases "BuiltinManifest d")
  case (Inr m)
  assume "tables_ok t"
  from seed_tables_ok [OF this, of "mf_Lists m" io 1 "map bl_Name (BlacklistListMetas t)"] builtin_valid [OF Inr]
  have "tables_ok (snd (seed io 1 (map bl_Name (BlacklistListMetas t)) (mf_Lists m) t))" by blast
  then show ?thesis using Inr by (cases "seed io 1 (map bl_Name (BlacklistListMetas t)) (mf_Lists m) t") (simp add: SeedBuiltins_def \<open>tables_ok t\<close> split: option.split)
qed (simp add: SeedBuiltins_def)

lemma then_rebuild_tables [simp]: "po_tables (snd (done_with (then_rebuild io x p))) = po_tables p"
  by (auto simp: then_rebuild_def rebuilt_def done_with_def split: option.splits prod.splits)

lemma done_with_Inl [simp]: "snd (done_with (Inl e, p)) = p"
  by (simp add: done_with_def)

lemma ReplacePolicy_tables_ok:
  assumes "tables_ok (po_tables p)"
  shows "tables_ok (po_tables (snd (done_with (ReplacePolicy io io_seed io_src d parse toASCII st ls rules p))))"
proof -
  have *: "tables_ok (snd (SeedBuiltins d io_seed t))"
    if "map_result (validateList parse) ls = Inr vs" "map_result (\<lambda>r. valid_rule toASCII (br_Kind r) (br_Domain r)) rules = Inr rs"
      "ReplaceBlacklist io st (map (\<lambda>v. v\<lparr>bl_Builtin := bl_Name v \<in> set (map bi_Name (mf_Lists m))\<rparr>) vs) rs (po_tables p) = Inr t" for vs rs t m
  proof (rule SeedBuiltins_tables_ok, rule ReplaceBlacklist_ok [OF assms that(3)])
    show "list_all rule_ok rs" using map_result_Inr_set [OF that(2)] valid_rule_ok by (fastforce simp: list_all_iff)
    have "\<forall>v \<in> set vs. ValidFormat (bl_Format v) \<and> bl_Name v \<notin> reserved"
      using map_result_Inr_set [OF that(1)] validateList_ok by blast
    then show "list_all (\<lambda>l. ValidFormat (bl_Format l) \<and> (bl_Builtin l \<or> bl_Name l \<notin> reserved))
        (map (\<lambda>v. v\<lparr>bl_Builtin := bl_Name v \<in> set (map bi_Name (mf_Lists m))\<rparr>) vs)" by (auto simp: list_all_iff)
  qed
  show ?thesis
    using assms by (auto simp: ReplacePolicy_def split: sum.splits option.splits prod.splits dest!: *)
qed

lemma bl_exec_tables_ok:
  assumes "tables_ok (po_tables p)"
  shows "tables_ok (po_tables (snd (bl_exec e op p)))"
proof (cases op)
  case (OPutList l)
  show ?thesis
  proof (cases "validateList (be_parse e) l")
    case (Inr v)
    note v = validateList_ok [OF Inr]
    have new: "tables_ok t" if "PutBlacklistList io (v\<lparr>bl_Builtin := False\<rparr>) (po_tables p) = Inr (i, t)" "bl_ID v = 0" for io i t
      by (rule PutBlacklistList_ok [OF assms that(1)]) (use v that in simp_all)
    have old: "tables_ok t" if "PutBlacklistList io (v\<lparr>bl_Builtin := bl_Builtin cur\<rparr>) (po_tables p) = Inr (i, t)"
      "BlacklistListByID (bl_ID v) (po_tables p) = Inr cur" for io i t cur
      by (rule PutBlacklistList_ok [OF assms that(1)]) (use v that in simp_all)
    show ?thesis using OPutList Inr assms new old by (auto simp: PutList_def split: sum.splits if_splits)
  qed (use OPutList assms in \<open>simp add: PutList_def\<close>)
next
  case (OAddRule kind domain)
  show ?thesis
  proof (cases "valid_rule (be_toASCII e) kind domain")
    case (Inr r)
    have "tables_ok t" if "PutBlacklistRule io r (po_tables p) = Inr (i, t)" for io i t
      using insert_rule_ok [OF assms _ valid_rule_ok [OF Inr]] that by (auto simp: PutBlacklistRule_def split: option.splits)
    then show ?thesis using OAddRule Inr assms by (auto simp: AddRule_def split: sum.splits)
  qed (use OAddRule assms in \<open>simp add: AddRule_def\<close>)
next
  case (OReplace st ls rules)
  then show ?thesis using ReplacePolicy_tables_ok [OF assms] by simp
qed (use assms delete_ok in \<open>auto simp: SetSettings_def DeleteList_def DeleteRule_def SetBlacklistSettings_def DeleteBlacklistList_def
       DeleteBlacklistRule_def split: sum.splits option.splits if_splits\<close>)

lemma keeps_tables_ok:
  assumes "keeps_tables R t t'" and "tables_ok t"
  shows "tables_ok t'"
proof -
  have k: "list_all2 keeps_row (bt_lists t) (bt_lists t')" and r: "bt_rules t' = bt_rules t"
    using assms(1) by (auto simp: keeps_tables_def elim: list_all2_mono)
  have i: "map row_id (bt_lists t') = map row_id (bt_lists t)" "map row_name (bt_lists t') = map row_name (bt_lists t)"
    using k by (auto simp: list_all2_conv_all_nth keeps_row_def same_definition_def intro!: nth_equalityI)
  have "list_all row_ok (bt_lists t')"
    using k assms(2) by (auto simp: list_all_length list_all2_conv_all_nth tables_ok_def lists_ok_def row_ok_def keeps_row_def same_definition_def)
  then show ?thesis using assms(2) i r by (simp add: tables_ok_def lists_ok_def)
qed

lemma refresh_tables_ok: "tables_ok t \<Longrightarrow> tables_ok (snd (refresh e l t))"
proof -
  assume ok: "tables_ok t"
  obtain a b t' where r: "refresh e l t = ((a, b), t')" by (metis prod.collapse)
  then have "\<exists>R. keeps_tables R t t'" by (cases rule: refresh_cases) blast+
  then show ?thesis using keeps_tables_ok ok r by auto
qed

lemma refresh_each_tables_ok: "tables_ok t \<Longrightarrow> tables_ok (snd (refresh_each e ls t))"
proof (induction ls arbitrary: t)
  case (Cons l ls)
  then have "tables_ok (snd (refresh_each e ls (snd (refresh (e l) l t))))" using refresh_tables_ok by blast
  then show ?case by (simp split: prod.split) (metis snd_conv)
qed simp

datatype bl_event =
    Write benv bl_op
  | Refresh "string option" "string option" int "blacklist_list \<Rightarrow> renv"

fun bl_step :: "bl_event \<Rightarrow> pol \<Rightarrow> pol" where
  "bl_step (Write e op) p = snd (bl_exec e op p)"
| "bl_step (Refresh io_list io_src now e) p = RefreshDue io_list io_src now e p"

definition bl_boot :: "(string, manifest) result \<Rightarrow> (nat \<Rightarrow> string option) \<Rightarrow> pol" where
  "bl_boot d io =
     \<lparr>po_tables = snd (SeedBuiltins d io \<lparr>bt_settings = Some \<lparr>bs_Enabled = True, bs_BlockTTL = 60\<rparr>, bt_lists = [], bt_rules = [], bt_version = 0\<rparr>),
      po_holder = policy_NewHolder\<rparr>"

lemma RefreshDue_tables_ok: "tables_ok (po_tables p) \<Longrightarrow> tables_ok (po_tables (RefreshDue io_list io_src now e p))"
  by (auto simp: RefreshDue_def rebuilt_def Let_def split: option.splits prod.splits)
     (metis refresh_each_tables_ok snd_conv)+

text \<open>
  The invariant of the blacklist, from an empty database through any sequence of writes and refreshes, whatever fails
  on the way. No domain has two rules, so none is both allowed and denied; every rule is an allow or a
  deny of a canonical domain name; list names are distinct and a list that is not shipped is never
  called allow, deny or forwarded, so the policy field of a log line names one cause.
\<close>

theorem blacklist_tables_invariant:
  "let t = po_tables (fold bl_step events (bl_boot d io))
   in distinct (map br_Domain (bt_rules t)) \<and>
      list_all (\<lambda>r. br_Kind r \<in> {''allow'', ''deny''} \<and> wf_domain (br_Domain r)) (bt_rules t) \<and>
      distinct (map row_name (bt_lists t)) \<and> distinct (map row_id (bt_lists t)) \<and>
      list_all (\<lambda>r. ValidFormat (bl_Format (fst r))) (bt_lists t) \<and>
      list_all (\<lambda>r. row_name r \<notin> {''allow'', ''deny'', ''forwarded''}) (filter (\<lambda>r. \<not> bl_Builtin (fst r)) (bt_lists t))"
proof -
  have "tables_ok (po_tables (fold bl_step events (bl_boot d io)))"
  proof (rule fold_invariant [where P = "\<lambda>p. tables_ok (po_tables p)"])
    show "tables_ok (po_tables (bl_step ev p))" if "tables_ok (po_tables p)" for ev p
      using that bl_exec_tables_ok RefreshDue_tables_ok by (cases ev) simp_all
    show "tables_ok (po_tables (bl_boot d io))"
      unfolding bl_boot_def by (simp, rule SeedBuiltins_tables_ok) (simp add: tables_ok_def lists_ok_def rules_ok_def)
  qed
  then show ?thesis unfolding Let_def tables_ok_def lists_ok_def rules_ok_def rule_ok_def [abs_def] row_ok_def [abs_def] reserved_def
    by (auto simp: list_all_iff)
qed

section \<open>A list that is pointed elsewhere\<close>

text \<open>
  Editing the URL of a list keeps the body and the validators of the old source: the policy goes on
  blocking what the old source listed, and the next request offers the old ETag to the new
  server. An import, by contrast, drops both.
\<close>

lemma repointed_list_keeps_old_body:
  "let p = snd (bl_exec shipped_env (OPutList (ads_list\<lparr>bl_URL := ''https://other.example/list''\<rparr>)) \<lparr>po_tables = ads_tables, po_holder = policy_NewHolder\<rparr>)
   in map (\<lambda>r. (bl_URL (fst r), bl_ETag (fst r), snd r)) (bt_lists (po_tables p)) = [(''https://other.example/list'', ''v1'', ''old.example'')] \<and>
      Blocked (Decide Some (policy_Current (po_holder p)) ''old.example'')"
  by code_simp

end
