(* ===== verification/StoreReg.thy ===== *)
theory StoreReg
  imports StoreModel "HOL-Library.Product_Lexorder"
begin

text \<open>
  The registry tables, the part of \<^verbatim>\<open>internal/store/store.go\<close> that holds views, services and records, with the
  constraints of the schema: primary keys, the unique indexes, the foreign keys and their cascades, and the
  triggers that bump \<^verbatim>\<open>config_version\<close> once for each row a statement inserts, updates or deletes.

  Columns nobody reads (\<^verbatim>\<open>created_at\<close>, the identifier of an alias) are left out. A nullable \<^verbatim>\<open>view_name\<close> is an option.
  An argument \<open>io\<close> is the error of the database for the operation, \<open>None\<close> when it runs; an operation that writes more than
  one row runs in a transaction, so a failure anywhere in it leaves the tables of its caller as they were.
\<close>

record address_row =
  ar_ID :: int
  ar_Service :: int
  ar_Address :: string
  ar_View :: "string option"

record alias_row =
  al_Service :: int
  al_Name :: string

record rec_row =
  rw_ID :: int
  rw_Name :: string
  rw_Type :: string
  rw_Value :: string
  rw_View :: "string option"

record rtables =
  rt_views :: "string list"
  rt_subnets :: "(string \<times> string) list"
  rt_services :: "service list"
  rt_addresses :: "address_row list"
  rt_aliases :: "alias_row list"
  rt_records :: "rec_row list"
  rt_version :: int

definition empty_registry :: rtables where
  "empty_registry = \<lparr>rt_views = [], rt_subnets = [], rt_services = [], rt_addresses = [], rt_aliases = [], rt_records = [], rt_version = 0\<rparr>"

definition fk_failed :: store_error where
  "fk_failed = ErrDB ''FOREIGN KEY constraint failed''"

definition nullable :: "string \<Rightarrow> string option" where
  "nullable s = (if s = [] then None else Some s)"

definition coalesce :: "string option \<Rightarrow> string" where
  "coalesce v = (case v of None \<Rightarrow> [] | Some s \<Rightarrow> s)"

definition bump :: "nat \<Rightarrow> rtables \<Rightarrow> rtables" where
  "bump n t = t\<lparr>rt_version := rt_version t + int n\<rparr>"

definition run_tx :: "string option \<Rightarrow> (store_error, 'a) result \<Rightarrow> (store_error, 'a) result" where
  "run_tx io r = (case io of Some e \<Rightarrow> Inl (ErrDB e) | None \<Rightarrow> r)"

section \<open>Views\<close>

definition insert_view :: "string \<Rightarrow> rtables \<Rightarrow> rtables" where
  "insert_view n t = (if n \<in> set (rt_views t) then t else bump 1 (t\<lparr>rt_views := rt_views t @ [n]\<rparr>))"

definition delete_subnets :: "(string \<times> string \<Rightarrow> bool) \<Rightarrow> rtables \<Rightarrow> rtables" where
  "delete_subnets P t =
     bump (length (filter P (rt_subnets t))) (t\<lparr>rt_subnets := filter (\<lambda>s. \<not> P s) (rt_subnets t)\<rparr>)"

text \<open>
  A CIDR taken by another view violates the unique index, one listed twice the primary key as well; both messages name
  \<^verbatim>\<open>view_subnets.cidr\<close>, which is what \<^verbatim>\<open>isUnique\<close> looks for.
\<close>

fun insert_subnets :: "string \<Rightarrow> string list \<Rightarrow> rtables \<Rightarrow> (store_error, rtables) result" where
  "insert_subnets v [] t = Inr t"
| "insert_subnets v (c # cs) t =
     (if c \<in> snd ` set (rt_subnets t) then Inl (ErrDuplicateCIDR c)
      else insert_subnets v cs (bump 1 (t\<lparr>rt_subnets := rt_subnets t @ [(v, c)]\<rparr>)))"

definition putView :: "view \<Rightarrow> rtables \<Rightarrow> (store_error, rtables) result" where
  "putView v t =
     insert_subnets (view_Name v) (view_Subnets v)
       (delete_subnets (\<lambda>s. fst s = view_Name v) (insert_view (view_Name v) t))"

definition PutView :: "string option \<Rightarrow> view \<Rightarrow> rtables \<Rightarrow> (store_error, rtables) result" where
  "PutView io v t = run_tx io (putView v t)"

text \<open>The rows of the outer join, in its order, and the loop that gathers them.\<close>

definition view_rows :: "rtables \<Rightarrow> (string \<times> string) list" where
  "view_rows t = concat (map (\<lambda>n.
     let cs = sort (map snd (filter (\<lambda>s. fst s = n) (rt_subnets t)))
     in if cs = [] then [(n, [])] else map (Pair n) cs) (sort (rt_views t)))"

definition view_row :: "string \<times> string \<Rightarrow> view list \<Rightarrow> view list" where
  "view_row r out =
     (let (name, cidr) = r;
          out1 = (if name \<in> view_Name ` set out then out else out @ [\<lparr>view_Name = name, view_Subnets = []\<rparr>])
      in if cidr = [] then out1
         else map (\<lambda>v. if view_Name v = name then v\<lparr>view_Subnets := view_Subnets v @ [cidr]\<rparr> else v) out1)"

definition Views :: "rtables \<Rightarrow> view list" where
  "Views t = fold view_row (view_rows t) []"

definition view_refs :: "string \<Rightarrow> rtables \<Rightarrow> nat" where
  "view_refs name t =
     length (filter (\<lambda>a. ar_View a = Some name) (rt_addresses t)) + length (filter (\<lambda>r. rw_View r = Some name) (rt_records t))"

definition delete_views :: "(string \<Rightarrow> bool) \<Rightarrow> rtables \<Rightarrow> rtables" where
  "delete_views P t =
     delete_subnets (\<lambda>s. P (fst s)) (bump (length (filter P (rt_views t))) (t\<lparr>rt_views := filter (\<lambda>n. \<not> P n) (rt_views t)\<rparr>))"

definition DeleteView :: "string option \<Rightarrow> string \<Rightarrow> rtables \<Rightarrow> (store_error, rtables) result" where
  "DeleteView io name t = run_tx io
     (if 0 < view_refs name t
      then Inl (ErrViewInUse (name @ '' ('' @ show_dec (int (view_refs name t)) @ '' references)''))
      else if name \<notin> set (rt_views t) then Inl (ErrNotFound (''view '' @ name))
      else Inr (delete_views (\<lambda>n. n = name) t))"

section \<open>Services\<close>

definition service_columns :: "service \<Rightarrow> service" where
  "service_columns svc = svc\<lparr>svc_Addresses := [], svc_Aliases := []\<rparr>"

definition insert_service :: "service \<Rightarrow> rtables \<Rightarrow> (store_error, int \<times> rtables) result" where
  "insert_service svc t =
     (if svc_Name svc \<in> svc_Name ` set (rt_services t) then Inl (ErrDuplicateName (''service '' @ svc_Name svc))
      else let i = next_id (map svc_ID (rt_services t))
           in Inr (i, bump 1 (t\<lparr>rt_services := rt_services t @ [(service_columns svc)\<lparr>svc_ID := i\<rparr>]\<rparr>)))"

text \<open>The update of a missing row touches nothing and is no error; one that takes the name of another row is the bare error of the database.\<close>

definition update_row :: "service \<Rightarrow> service \<Rightarrow> service" where
  "update_row svc r = (if svc_ID r = svc_ID svc then service_columns svc else r)"

definition update_service :: "service \<Rightarrow> rtables \<Rightarrow> (store_error, rtables) result" where
  "update_service svc t =
     (if svc_ID svc \<in> svc_ID ` set (rt_services t) \<and> list_ex (\<lambda>r. svc_Name r = svc_Name svc \<and> svc_ID r \<noteq> svc_ID svc) (rt_services t)
      then Inl (ErrDB ''UNIQUE constraint failed: services.name'')
      else Inr (bump (length (filter (\<lambda>r. svc_ID r = svc_ID svc) (rt_services t)))
             (t\<lparr>rt_services := map (update_row svc) (rt_services t)\<rparr>)))"

definition delete_addresses :: "(address_row \<Rightarrow> bool) \<Rightarrow> rtables \<Rightarrow> rtables" where
  "delete_addresses P t =
     bump (length (filter P (rt_addresses t))) (t\<lparr>rt_addresses := filter (\<lambda>a. \<not> P a) (rt_addresses t)\<rparr>)"

definition delete_aliases :: "(alias_row \<Rightarrow> bool) \<Rightarrow> rtables \<Rightarrow> rtables" where
  "delete_aliases P t =
     bump (length (filter P (rt_aliases t))) (t\<lparr>rt_aliases := filter (\<lambda>a. \<not> P a) (rt_aliases t)\<rparr>)"

fun insert_addresses :: "int \<Rightarrow> address list \<Rightarrow> rtables \<Rightarrow> (store_error, rtables) result" where
  "insert_addresses i [] t = Inr t"
| "insert_addresses i (a # as) t =
     (let v = nullable (addr_View a)
      in if i \<in> svc_ID ` set (rt_services t) \<and> (v = None \<or> the v \<in> set (rt_views t))
         then insert_addresses i as (bump 1 (t\<lparr>rt_addresses := rt_addresses t @
                [\<lparr>ar_ID = next_id (map ar_ID (rt_addresses t)), ar_Service = i, ar_Address = addr_Address a, ar_View = v\<rparr>]\<rparr>))
         else Inl fk_failed)"

fun insert_aliases :: "int \<Rightarrow> string list \<Rightarrow> rtables \<Rightarrow> (store_error, rtables) result" where
  "insert_aliases i [] t = Inr t"
| "insert_aliases i (al # als) t =
     (if al \<in> al_Name ` set (rt_aliases t) then Inl (ErrDuplicateName (''alias '' @ al))
      else if i \<in> svc_ID ` set (rt_services t)
      then insert_aliases i als (bump 1 (t\<lparr>rt_aliases := rt_aliases t @ [\<lparr>al_Service = i, al_Name = al\<rparr>]\<rparr>))
      else Inl fk_failed)"

definition put_children :: "service \<Rightarrow> int \<times> rtables \<Rightarrow> (store_error, int \<times> rtables) result" where
  "put_children svc it =
     (case insert_addresses (fst it) (svc_Addresses svc) (snd it) of
        Inl e \<Rightarrow> Inl e
      | Inr t1 \<Rightarrow> (case insert_aliases (fst it) (svc_Aliases svc) t1 of Inl e \<Rightarrow> Inl e | Inr t2 \<Rightarrow> Inr (fst it, t2)))"

definition putService :: "service \<Rightarrow> rtables \<Rightarrow> (store_error, int \<times> rtables) result" where
  "putService svc t =
     (if svc_ID svc = 0
      then (case insert_service svc t of Inl e \<Rightarrow> Inl e | Inr it \<Rightarrow> put_children svc it)
      else (case update_service svc t of
              Inl e \<Rightarrow> Inl e
            | Inr t1 \<Rightarrow> put_children svc (svc_ID svc,
                delete_aliases (\<lambda>a. al_Service a = svc_ID svc) (delete_addresses (\<lambda>a. ar_Service a = svc_ID svc) t1))))"

definition PutService :: "string option \<Rightarrow> service \<Rightarrow> rtables \<Rightarrow> (store_error, int \<times> rtables) result" where
  "PutService io svc t = run_tx io (putService svc t)"

definition addresses_of :: "int \<Rightarrow> rtables \<Rightarrow> address list" where
  "addresses_of i t =
     map (\<lambda>a. \<lparr>addr_ID = ar_ID a, addr_Address = ar_Address a, addr_View = coalesce (ar_View a)\<rparr>)
       (sort_key ar_ID (filter (\<lambda>a. ar_Service a = i) (rt_addresses t)))"

definition aliases_of :: "int \<Rightarrow> rtables \<Rightarrow> string list" where
  "aliases_of i t = sort (map al_Name (filter (\<lambda>a. al_Service a = i) (rt_aliases t)))"

definition Service :: "int \<Rightarrow> rtables \<Rightarrow> (store_error, service) result" where
  "Service i t =
     (case find (\<lambda>r. svc_ID r = i) (rt_services t) of
        None \<Rightarrow> Inl (ErrNotFound (''service '' @ show_dec i))
      | Some r \<Rightarrow> Inr (r\<lparr>svc_Addresses := addresses_of i t, svc_Aliases := aliases_of i t\<rparr>))"

definition Services :: "rtables \<Rightarrow> (store_error, service list) result" where
  "Services t = map_result (\<lambda>i. Service i t) (map svc_ID (sort_key svc_Name (rt_services t)))"

definition delete_services :: "(service \<Rightarrow> bool) \<Rightarrow> rtables \<Rightarrow> rtables" where
  "delete_services P t =
     (let gone = svc_ID ` set (filter P (rt_services t))
      in delete_aliases (\<lambda>a. al_Service a \<in> gone) (delete_addresses (\<lambda>a. ar_Service a \<in> gone)
           (bump (length (filter P (rt_services t))) (t\<lparr>rt_services := filter (\<lambda>r. \<not> P r) (rt_services t)\<rparr>))))"

definition DeleteService :: "string option \<Rightarrow> int \<Rightarrow> rtables \<Rightarrow> (store_error, rtables) result" where
  "DeleteService io i t = run_tx io
     (if i \<notin> svc_ID ` set (rt_services t) then Inl (ErrNotFound (''service '' @ show_dec i))
      else Inr (delete_services (\<lambda>r. svc_ID r = i) t))"

section \<open>Records\<close>

definition putRecord :: "record_row \<Rightarrow> rtables \<Rightarrow> (store_error, int \<times> rtables) result" where
  "putRecord r t =
     (let v = nullable (rec_View r); i = next_id (map rw_ID (rt_records t))
      in if v = None \<or> the v \<in> set (rt_views t)
         then Inr (i, bump 1 (t\<lparr>rt_records := rt_records t @
                [\<lparr>rw_ID = i, rw_Name = rec_Name r, rw_Type = rec_Type r, rw_Value = rec_Value r, rw_View = v\<rparr>]\<rparr>))
         else Inl fk_failed)"

definition PutRecord :: "string option \<Rightarrow> record_row \<Rightarrow> rtables \<Rightarrow> (store_error, int \<times> rtables) result" where
  "PutRecord io r t = run_tx io (putRecord r t)"

definition record_of :: "rec_row \<Rightarrow> record_row" where
  "record_of r = \<lparr>rec_ID = rw_ID r, rec_Name = rw_Name r, rec_Type = rw_Type r, rec_Value = rw_Value r, rec_View = coalesce (rw_View r)\<rparr>"

definition Records :: "rtables \<Rightarrow> record_row list" where
  "Records t = map record_of (sort_key (\<lambda>r. (rw_Name r, rw_Type r)) (rt_records t))"

definition delete_records :: "(rec_row \<Rightarrow> bool) \<Rightarrow> rtables \<Rightarrow> rtables" where
  "delete_records P t =
     bump (length (filter P (rt_records t))) (t\<lparr>rt_records := filter (\<lambda>r. \<not> P r) (rt_records t)\<rparr>)"

definition DeleteRecord :: "string option \<Rightarrow> int \<Rightarrow> rtables \<Rightarrow> (store_error, rtables) result" where
  "DeleteRecord io i t = run_tx io
     (if i \<notin> rw_ID ` set (rt_records t) then Inl (ErrNotFound (''record '' @ show_dec i))
      else Inr (delete_records (\<lambda>r. rw_ID r = i) t))"

section \<open>Replacing everything\<close>

fun put_views :: "view list \<Rightarrow> rtables \<Rightarrow> (store_error, rtables) result" where
  "put_views [] t = Inr t"
| "put_views (v # vs) t = (case putView v t of Inl e \<Rightarrow> Inl e | Inr t1 \<Rightarrow> put_views vs t1)"

fun put_services :: "service list \<Rightarrow> rtables \<Rightarrow> (store_error, rtables) result" where
  "put_services [] t = Inr t"
| "put_services (s # ss) t = (case putService (s\<lparr>svc_ID := 0\<rparr>) t of Inl e \<Rightarrow> Inl e | Inr (_, t1) \<Rightarrow> put_services ss t1)"

fun put_records :: "record_row list \<Rightarrow> rtables \<Rightarrow> (store_error, rtables) result" where
  "put_records [] t = Inr t"
| "put_records (r # rs) t = (case putRecord (r\<lparr>rec_ID := 0\<rparr>) t of Inl e \<Rightarrow> Inl e | Inr (_, t1) \<Rightarrow> put_records rs t1)"

definition wipe :: "rtables \<Rightarrow> rtables" where
  "wipe t =
     delete_views (\<lambda>_. True) (delete_subnets (\<lambda>_. True) (delete_services (\<lambda>_. True)
       (delete_addresses (\<lambda>_. True) (delete_aliases (\<lambda>_. True) (delete_records (\<lambda>_. True) t)))))"

definition replaceAll :: "view list \<Rightarrow> service list \<Rightarrow> record_row list \<Rightarrow> rtables \<Rightarrow> (store_error, rtables) result" where
  "replaceAll vs ss rs t =
     (case put_views vs (wipe t) of
        Inl e \<Rightarrow> Inl e
      | Inr t1 \<Rightarrow> (case put_services ss t1 of Inl e \<Rightarrow> Inl e | Inr t2 \<Rightarrow> put_records rs t2))"

definition ReplaceAll ::
  "string option \<Rightarrow> view list \<Rightarrow> service list \<Rightarrow> record_row list \<Rightarrow> rtables \<Rightarrow> (store_error, rtables) result" where
  "ReplaceAll io vs ss rs t = run_tx io (replaceAll vs ss rs t)"

section \<open>The version moves with the tables\<close>

text \<open>
  What the triggers promise, as a relation between the tables before and after: either the version went up or nothing
  changed. It is closed under composition, so every operation has it because every statement does.
\<close>

definition reg_moved :: "rtables \<Rightarrow> rtables \<Rightarrow> bool" where
  "reg_moved t t' = (rt_version t < rt_version t' \<or> t' = t)"

lemma reg_moved_refl [simp]: "reg_moved t t"
  by (simp add: reg_moved_def)

lemma reg_moved_trans [trans]: "reg_moved t u \<Longrightarrow> reg_moved u w \<Longrightarrow> reg_moved t w"
  by (auto simp: reg_moved_def)

lemma reg_moved_bump: "rt_version u = rt_version t \<Longrightarrow> (n = 0 \<Longrightarrow> u = t) \<Longrightarrow> reg_moved t (bump n u)"
  by (cases n) (auto simp: reg_moved_def bump_def)

lemma filter_none: "length (filter P xs) = 0 \<Longrightarrow> filter (\<lambda>x. \<not> P x) xs = xs"
  by (simp add: filter_empty_conv filter_id_conv)

lemma rt_version_updates [simp]:
  "rt_version (t\<lparr>rt_views := a\<rparr>) = rt_version t" "rt_version (t\<lparr>rt_subnets := b\<rparr>) = rt_version t"
  by simp_all

lemma reg_moved_delete:
  "reg_moved t (delete_subnets P1 t)" "reg_moved t (delete_addresses P2 t)"
  "reg_moved t (delete_aliases P3 t)" "reg_moved t (delete_records P4 t)"
  unfolding delete_subnets_def delete_addresses_def delete_aliases_def delete_records_def
  by (rule reg_moved_bump; simp add: filter_none del: length_0_conv)+

lemma reg_moved_insert_view: "reg_moved t (insert_view n t)"
  by (simp add: insert_view_def reg_moved_bump)

lemma reg_moved_delete_views: "reg_moved t (delete_views P t)"
  unfolding delete_views_def
  by (rule reg_moved_trans [OF reg_moved_bump reg_moved_delete(1)]) (simp_all add: filter_none del: length_0_conv)

lemma reg_moved_delete_services: "reg_moved t (delete_services P t)"
  unfolding delete_services_def Let_def
  by (rule reg_moved_trans [OF reg_moved_trans [OF reg_moved_bump reg_moved_delete(2)] reg_moved_delete(3)])
    (simp_all add: filter_none del: length_0_conv)

lemma reg_moved_insert_subnets: "insert_subnets v cs t = Inr t' \<Longrightarrow> reg_moved t t'"
proof (induction v cs t rule: insert_subnets.induct)
  case (2 v c cs t)
  have "reg_moved t (bump 1 (t\<lparr>rt_subnets := rt_subnets t @ [(v, c)]\<rparr>))" by (rule reg_moved_bump) simp_all
  then show ?case using 2 by (auto split: if_splits intro: reg_moved_trans)
qed simp

lemma reg_moved_insert_addresses: "insert_addresses i as t = Inr t' \<Longrightarrow> reg_moved t t'"
proof (induction i as t rule: insert_addresses.induct)
  case (2 i a as t)
  have "reg_moved t (bump 1 (t\<lparr>rt_addresses := x\<rparr>))" for x by (rule reg_moved_bump) simp_all
  then show ?case using 2 by (auto simp: Let_def split: if_splits intro: reg_moved_trans)
qed simp

lemma reg_moved_insert_aliases: "insert_aliases i als t = Inr t' \<Longrightarrow> reg_moved t t'"
proof (induction i als t rule: insert_aliases.induct)
  case (2 i al als t)
  have "reg_moved t (bump 1 (t\<lparr>rt_aliases := x\<rparr>))" for x by (rule reg_moved_bump) simp_all
  then show ?case using 2 by (auto split: if_splits intro: reg_moved_trans)
qed simp

lemma reg_moved_putView: "putView v t = Inr t' \<Longrightarrow> reg_moved t t'"
  unfolding putView_def
  using reg_moved_insert_subnets reg_moved_trans reg_moved_delete(1) reg_moved_insert_view by metis

lemma reg_moved_put_children: "put_children svc (i, t) = Inr (j, t') \<Longrightarrow> reg_moved t t'"
  by (auto simp: put_children_def split: sum.splits
      dest!: reg_moved_insert_addresses reg_moved_insert_aliases intro: reg_moved_trans)

lemma reg_moved_insert_service: "insert_service svc t = Inr (i, t') \<Longrightarrow> reg_moved t t'"
  by (auto simp: insert_service_def Let_def split: if_splits intro!: reg_moved_bump)

lemma reg_moved_update_service: "update_service svc t = Inr t' \<Longrightarrow> reg_moved t t'"
proof (unfold update_service_def, split if_split_asm)
  let ?own = "\<lambda>r. svc_ID r = svc_ID svc"
  let ?u = "t\<lparr>rt_services := map (update_row svc) (rt_services t)\<rparr>"
  assume "Inr (bump (length (filter ?own (rt_services t))) ?u) = Inr t'"
  moreover have "reg_moved t (bump (length (filter ?own (rt_services t))) ?u)"
  proof (rule reg_moved_bump)
    assume "length (filter ?own (rt_services t)) = 0"
    then have "map (update_row svc) (rt_services t) = rt_services t"
      by (auto simp: filter_empty_conv update_row_def intro: map_idI)
    then show "?u = t" by simp
  qed simp
  ultimately show "reg_moved t t'" by simp
qed simp

lemma reg_moved_putService: "putService svc t = Inr (i, t') \<Longrightarrow> reg_moved t t'"
proof (cases "svc_ID svc = 0")
  case True
  assume "putService svc t = Inr (i, t')"
  then obtain j t1 where "insert_service svc t = Inr (j, t1)" and "put_children svc (j, t1) = Inr (i, t')"
    using True by (auto simp: putService_def split: sum.splits)
  then show ?thesis using reg_moved_insert_service reg_moved_put_children reg_moved_trans by metis
next
  case False
  assume "putService svc t = Inr (i, t')"
  then obtain t1 where t1: "update_service svc t = Inr t1"
    and c: "put_children svc (svc_ID svc, delete_aliases (\<lambda>a. al_Service a = svc_ID svc)
      (delete_addresses (\<lambda>a. ar_Service a = svc_ID svc) t1)) = Inr (i, t')"
    using False by (auto simp: putService_def split: sum.splits)
  note reg_moved_update_service [OF t1]
  also note reg_moved_delete(2)
  also note reg_moved_delete(3)
  also note reg_moved_put_children [OF c]
  finally show ?thesis .
qed

lemma reg_moved_putRecord: "putRecord r t = Inr (i, t') \<Longrightarrow> reg_moved t t'"
  by (auto simp: putRecord_def Let_def split: if_splits intro!: reg_moved_bump)

lemma reg_moved_wipe: "reg_moved t (wipe t)"
  unfolding wipe_def
  by (meson reg_moved_trans reg_moved_delete reg_moved_delete_services reg_moved_delete_views)

lemma reg_moved_put_views: "put_views vs t = Inr t' \<Longrightarrow> reg_moved t t'"
  by (induction vs t rule: put_views.induct) (auto split: sum.splits dest!: reg_moved_putView intro: reg_moved_trans)

lemma reg_moved_put_services: "put_services ss t = Inr t' \<Longrightarrow> reg_moved t t'"
  by (induction ss t rule: put_services.induct) (auto split: sum.splits dest!: reg_moved_putService intro: reg_moved_trans)

lemma reg_moved_put_records: "put_records rs t = Inr t' \<Longrightarrow> reg_moved t t'"
  by (induction rs t rule: put_records.induct) (auto split: sum.splits dest!: reg_moved_putRecord intro: reg_moved_trans)

lemma reg_moved_replaceAll: "replaceAll vs ss rs t = Inr t' \<Longrightarrow> reg_moved t t'"
  unfolding replaceAll_def
  by (auto split: sum.splits dest!: reg_moved_put_views reg_moved_put_services reg_moved_put_records)
    (metis reg_moved_trans reg_moved_wipe)

section \<open>The constraints of the schema\<close>

text \<open>
  What the primary keys, unique indexes and foreign keys keep true. Identifiers are handed out in increasing order, so
  the rows of a table stand in the order of their identifiers.
\<close>

definition views_ok :: "rtables \<Rightarrow> bool" where
  "views_ok t = (distinct (rt_views t) \<and> distinct (map snd (rt_subnets t)) \<and> list_all (\<lambda>s. fst s \<in> set (rt_views t)) (rt_subnets t))"

definition services_ok :: "rtables \<Rightarrow> bool" where
  "services_ok t =
     (distinct (map svc_Name (rt_services t)) \<and> distinct (map svc_ID (rt_services t)) \<and>
      list_all (\<lambda>r. 0 < svc_ID r \<and> svc_Addresses r = [] \<and> svc_Aliases r = []) (rt_services t))"

definition ref_ok :: "string list \<Rightarrow> string option \<Rightarrow> bool" where
  "ref_ok vs v = (case v of None \<Rightarrow> True | Some n \<Rightarrow> n \<in> set vs)"

definition children_ok :: "rtables \<Rightarrow> bool" where
  "children_ok t =
     (sorted_wrt (<) (map ar_ID (rt_addresses t)) \<and> distinct (map al_Name (rt_aliases t)) \<and>
      list_all (\<lambda>a. ar_Service a \<in> svc_ID ` set (rt_services t) \<and> ref_ok (rt_views t) (ar_View a)) (rt_addresses t) \<and>
      list_all (\<lambda>a. al_Service a \<in> svc_ID ` set (rt_services t)) (rt_aliases t))"

definition records_ok :: "rtables \<Rightarrow> bool" where
  "records_ok t = (sorted_wrt (<) (map rw_ID (rt_records t)) \<and> list_all (\<lambda>r. ref_ok (rt_views t) (rw_View r)) (rt_records t))"

definition reg_ok :: "rtables \<Rightarrow> bool" where
  "reg_ok t = (views_ok t \<and> services_ok t \<and> children_ok t \<and> records_ok t)"

lemmas reg_ok_defs = reg_ok_def views_ok_def services_ok_def children_ok_def records_ok_def

lemma bump_sel [simp]:
  "rt_views (bump n t) = rt_views t" "rt_subnets (bump n t) = rt_subnets t" "rt_services (bump n t) = rt_services t"
  "rt_addresses (bump n t) = rt_addresses t" "rt_aliases (bump n t) = rt_aliases t" "rt_records (bump n t) = rt_records t"
  by (simp_all add: bump_def)

lemma bump_ok [simp]:
  "views_ok (bump n t) = views_ok t" "services_ok (bump n t) = services_ok t" "children_ok (bump n t) = children_ok t"
  "records_ok (bump n t) = records_ok t" "reg_ok (bump n t) = reg_ok t"
  by (simp_all add: reg_ok_defs)

lemma run_tx_Inr: "run_tx io r = Inr x \<longleftrightarrow> io = None \<and> r = Inr x"
  by (cases io) (simp_all add: run_tx_def)

lemma empty_registry_ok: "reg_ok empty_registry"
  by (simp add: reg_ok_defs empty_registry_def)

lemma ref_ok_simps [simp]: "ref_ok vs None" "ref_ok vs (Some n) \<longleftrightarrow> n \<in> set vs"
  by (simp_all add: ref_ok_def)

lemma ref_ok_nullable: "nullable s = None \<or> the (nullable s) \<in> set vs \<longleftrightarrow> ref_ok vs (nullable s)"
  by (auto simp: nullable_def ref_ok_def)

lemma sorted_wrt_snoc_next_id: "sorted_wrt (<) ids \<Longrightarrow> sorted_wrt (<) (ids @ [next_id ids])"
  by (auto simp: sorted_wrt_append next_id_gt)

lemma sorted_wrt_map_filter: "sorted_wrt (<) (map f xs) \<Longrightarrow> sorted_wrt (<) (map f (filter P xs))"
  by (induction xs) auto

lemma insert_view_ok: "reg_ok t \<Longrightarrow> reg_ok (insert_view n t)"
  by (auto simp: insert_view_def reg_ok_defs list_all_iff ref_ok_def split: option.splits)

lemma delete_subnets_ok: "reg_ok t \<Longrightarrow> reg_ok (delete_subnets P t)"
  by (auto simp: delete_subnets_def reg_ok_defs list_all_iff distinct_map_filter)

lemma delete_addresses_ok: "reg_ok t \<Longrightarrow> reg_ok (delete_addresses P t)"
  by (auto simp: delete_addresses_def reg_ok_defs list_all_iff sorted_wrt_map_filter)

lemma delete_aliases_ok: "reg_ok t \<Longrightarrow> reg_ok (delete_aliases P t)"
  by (auto simp: delete_aliases_def reg_ok_defs list_all_iff distinct_map_filter)

lemma delete_records_ok: "reg_ok t \<Longrightarrow> reg_ok (delete_records P t)"
  by (auto simp: delete_records_def reg_ok_defs list_all_iff sorted_wrt_map_filter)

lemma insert_subnets_ok:
  "insert_subnets v cs t = Inr t' \<Longrightarrow> reg_ok t \<Longrightarrow> v \<in> set (rt_views t) \<Longrightarrow> reg_ok t'"
proof (induction v cs t rule: insert_subnets.induct)
  case (2 v c cs t)
  then have "reg_ok (t\<lparr>rt_subnets := rt_subnets t @ [(v, c)]\<rparr>)"
    by (auto simp: reg_ok_defs split: if_splits)
  then show ?case using 2 by (auto split: if_splits)
qed simp

lemma putView_ok: "putView v t = Inr t' \<Longrightarrow> reg_ok t \<Longrightarrow> reg_ok t'"
proof (unfold putView_def, erule insert_subnets_ok)
  let ?u = "insert_view (view_Name v) t"
  assume "reg_ok t"
  then show "reg_ok (delete_subnets (\<lambda>s. fst s = view_Name v) ?u)" by (intro delete_subnets_ok insert_view_ok)
  show "view_Name v \<in> set (rt_views (delete_subnets (\<lambda>s. fst s = view_Name v) ?u))"
    by (simp add: delete_subnets_def insert_view_def)
qed

lemma insert_addresses_ok: "insert_addresses i as t = Inr t' \<Longrightarrow> reg_ok t \<Longrightarrow> reg_ok t'"
proof (induction i as t rule: insert_addresses.induct)
  case (2 i a as t)
  let ?row = "\<lparr>ar_ID = next_id (map ar_ID (rt_addresses t)), ar_Service = i, ar_Address = addr_Address a, ar_View = nullable (addr_View a)\<rparr>"
  from 2 have "reg_ok (t\<lparr>rt_addresses := rt_addresses t @ [?row]\<rparr>)"
    by (auto simp: reg_ok_defs ref_ok_nullable sorted_wrt_append next_id_gt Let_def split: if_splits)
  then show ?case using 2 by (auto simp: Let_def split: if_splits)
qed simp

lemma insert_aliases_ok: "insert_aliases i als t = Inr t' \<Longrightarrow> reg_ok t \<Longrightarrow> reg_ok t'"
proof (induction i als t rule: insert_aliases.induct)
  case (2 i al als t)
  then have "reg_ok (t\<lparr>rt_aliases := rt_aliases t @ [\<lparr>al_Service = i, al_Name = al\<rparr>]\<rparr>)"
    by (auto simp: reg_ok_defs split: if_splits)
  then show ?case using 2 by (auto split: if_splits)
qed simp

lemma put_children_ok: "put_children svc (i, t) = Inr (j, t') \<Longrightarrow> reg_ok t \<Longrightarrow> reg_ok t'"
  by (auto simp: put_children_def split: sum.splits dest: insert_addresses_ok insert_aliases_ok)

lemma insert_service_ok: "insert_service svc t = Inr (i, t') \<Longrightarrow> reg_ok t \<Longrightarrow> reg_ok t'"
proof -
  assume ins: "insert_service svc t = Inr (i, t')" and ok: "reg_ok t"
  let ?i = "next_id (map svc_ID (rt_services t))"
  have "0 < ?i" by (rule next_id_pos) (use ok in \<open>auto simp: reg_ok_defs list_all_iff\<close>)
  moreover have "?i \<notin> svc_ID ` set (rt_services t)" using next_id_fresh [of "map svc_ID (rt_services t)"] by simp
  moreover have "t' = bump 1 (t\<lparr>rt_services := rt_services t @ [(service_columns svc)\<lparr>svc_ID := ?i\<rparr>]\<rparr>)"
    and "svc_Name svc \<notin> svc_Name ` set (rt_services t)"
    using ins by (auto simp: insert_service_def Let_def split: if_splits)
  moreover have "children_ok (t\<lparr>rt_services := rt_services t @ rs\<rparr>)" for rs
    using ok by (auto simp: reg_ok_def children_ok_def list_all_iff)
  ultimately show ?thesis
    using ok by (simp add: reg_ok_def views_ok_def services_ok_def records_ok_def service_columns_def)
qed

lemma svc_ID_update_row [simp]: "svc_ID (update_row svc r) = svc_ID r"
  by (simp add: update_row_def service_columns_def)

lemma update_rows:
  fixes svc :: service
  assumes "services_ok t" and "svc_ID svc \<noteq> 0" and "\<not> (svc_ID svc \<in> svc_ID ` set (rt_services t) \<and>
      list_ex (\<lambda>r. svc_Name r = svc_Name svc \<and> svc_ID r \<noteq> svc_ID svc) (rt_services t))"
  shows "services_ok (t\<lparr>rt_services := map (update_row svc) (rt_services t)\<rparr>)"
proof -
  have "distinct (map svc_Name (map (update_row svc) (rt_services t)))"
  proof -
    have "inj_on (svc_Name \<circ> update_row svc) (set (rt_services t))"
    proof (rule inj_onI)
      fix r q assume r: "r \<in> set (rt_services t)" and q: "q \<in> set (rt_services t)" and eq: "(svc_Name \<circ> update_row svc) r = (svc_Name \<circ> update_row svc) q"
      have "svc_ID r = svc_ID svc \<longleftrightarrow> svc_ID q = svc_ID svc"
        using assms(3) r q eq by (auto simp: list_ex_iff update_row_def service_columns_def image_iff split: if_splits)
      then have "svc_ID r = svc_ID q \<or> svc_Name r = svc_Name q" using eq by (auto simp: update_row_def split: if_splits)
      then show "r = q" using assms(1) r q by (auto simp: services_ok_def distinct_map dest: inj_onD)
    qed
    then show ?thesis using assms by (simp add: distinct_map services_ok_def)
  qed
  moreover have "0 < svc_ID (update_row svc r) \<and> svc_Addresses (update_row svc r) = [] \<and> svc_Aliases (update_row svc r) = []"
    if "r \<in> set (rt_services t)" for r
    using assms(1) that by (auto simp: services_ok_def list_all_iff update_row_def service_columns_def)
  ultimately show ?thesis using assms(1)
    by (simp add: services_ok_def list_all_iff comp_def)
qed

lemma update_service_ok: "update_service svc t = Inr t' \<Longrightarrow> reg_ok t \<Longrightarrow> svc_ID svc \<noteq> 0 \<Longrightarrow> reg_ok t'"
proof -
  assume upd: "update_service svc t = Inr t'" and ok: "reg_ok t" and nz: "svc_ID svc \<noteq> 0"
  have "svc_ID ` update_row svc ` set rs = svc_ID ` set rs" for rs by (simp add: image_image)
  with upd ok nz update_rows [of t svc] show ?thesis
    by (auto simp: update_service_def reg_ok_def children_ok_def views_ok_def records_ok_def split: if_splits)
qed

lemma putService_ok: "putService svc t = Inr (i, t') \<Longrightarrow> reg_ok t \<Longrightarrow> reg_ok t'"
proof (cases "svc_ID svc = 0")
  case True
  assume "putService svc t = Inr (i, t')" and "reg_ok t"
  then show ?thesis using True by (auto simp: putService_def split: sum.splits dest: insert_service_ok put_children_ok)
next
  case False
  assume "putService svc t = Inr (i, t')" and "reg_ok t"
  then show ?thesis using False
    by (auto simp: putService_def split: sum.splits dest!: update_service_ok put_children_ok intro: delete_aliases_ok delete_addresses_ok)
qed

lemma putRecord_ok: "putRecord r t = Inr (i, t') \<Longrightarrow> reg_ok t \<Longrightarrow> reg_ok t'"
  by (auto simp: putRecord_def Let_def reg_ok_defs ref_ok_nullable sorted_wrt_append next_id_gt split: if_splits)


lemma delete_views_ok:
  assumes "reg_ok t" and "\<And>n. P n \<Longrightarrow> view_refs n t = 0"
  shows "reg_ok (delete_views P t)"
proof -
  have "\<not> P n" if "a \<in> set (rt_addresses t)" "ar_View a = Some n" for a n
    using assms(2) [of n] that by (auto simp: view_refs_def filter_empty_conv)
  moreover have "\<not> P n" if "r \<in> set (rt_records t)" "rw_View r = Some n" for r n
    using assms(2) [of n] that by (auto simp: view_refs_def filter_empty_conv)
  ultimately show ?thesis
    using assms(1) by (auto simp: delete_views_def delete_subnets_def reg_ok_defs list_all_iff distinct_map_filter ref_ok_def split: option.splits)
qed

lemma delete_services_ok:
  assumes "reg_ok t"
  shows "reg_ok (delete_services P t)"
proof -
  let ?gone = "svc_ID ` set (filter P (rt_services t))"
  have keep: "i \<in> svc_ID ` set (filter (\<lambda>r. \<not> P r) (rt_services t))" if "i \<in> svc_ID ` set (rt_services t)" "i \<notin> ?gone" for i
    using that by auto
  show ?thesis using assms keep
    by (simp add: delete_services_def delete_aliases_def delete_addresses_def Let_def reg_ok_defs list_all_iff
        distinct_map_filter sorted_wrt_map_filter)
qed

lemma wipe_tables:
  "rt_views (wipe t) = []" "rt_subnets (wipe t) = []" "rt_services (wipe t) = []" "rt_addresses (wipe t) = []"
  "rt_aliases (wipe t) = []" "rt_records (wipe t) = []"
  by (simp_all add: wipe_def delete_views_def delete_subnets_def delete_services_def delete_addresses_def
      delete_aliases_def delete_records_def Let_def)

lemma wipe_ok: "reg_ok (wipe t)"
  by (simp add: reg_ok_defs wipe_tables)

lemma put_views_ok: "put_views vs t = Inr t' \<Longrightarrow> reg_ok t \<Longrightarrow> reg_ok t'"
  by (induction vs t rule: put_views.induct) (auto split: sum.splits dest: putView_ok)

lemma put_services_ok: "put_services ss t = Inr t' \<Longrightarrow> reg_ok t \<Longrightarrow> reg_ok t'"
  by (induction ss t rule: put_services.induct) (auto split: sum.splits dest: putService_ok)

lemma put_records_ok: "put_records rs t = Inr t' \<Longrightarrow> reg_ok t \<Longrightarrow> reg_ok t'"
  by (induction rs t rule: put_records.induct) (auto split: sum.splits dest: putRecord_ok)

lemma replaceAll_ok: "replaceAll vs ss rs t = Inr t' \<Longrightarrow> reg_ok t'"
  by (auto simp: replaceAll_def split: sum.splits dest: put_views_ok put_services_ok put_records_ok intro: wipe_ok)

section \<open>Every write\<close>

datatype reg_op =
    RPutView view
  | RDeleteView string
  | RPutService service
  | RDeleteService int
  | RPutRecord record_row
  | RDeleteRecord int
  | RReplaceAll "view list" "service list" "record_row list"

definition drop_id :: "(store_error, int \<times> 'a) result \<Rightarrow> (store_error, 'a) result" where
  "drop_id r = (case r of Inl e \<Rightarrow> Inl e | Inr (_, t) \<Rightarrow> Inr t)"

fun reg_run :: "string option \<Rightarrow> reg_op \<Rightarrow> rtables \<Rightarrow> (store_error, rtables) result" where
  "reg_run io (RPutView v) t = PutView io v t"
| "reg_run io (RDeleteView n) t = DeleteView io n t"
| "reg_run io (RPutService s) t = drop_id (PutService io s t)"
| "reg_run io (RDeleteService i) t = DeleteService io i t"
| "reg_run io (RPutRecord r) t = drop_id (PutRecord io r t)"
| "reg_run io (RDeleteRecord i) t = DeleteRecord io i t"
| "reg_run io (RReplaceAll vs ss rs) t = ReplaceAll io vs ss rs t"

lemma drop_id_Inr: "drop_id r = Inr t \<longleftrightarrow> (\<exists>i. r = Inr (i, t))"
  by (auto simp: drop_id_def split: sum.splits)

lemmas reg_op_defs =
  PutView_def DeleteView_def PutService_def DeleteService_def PutRecord_def DeleteRecord_def ReplaceAll_def run_tx_Inr drop_id_Inr

lemma reg_run_ok: "reg_run io op t = Inr t' \<Longrightarrow> reg_ok t \<Longrightarrow> reg_ok t'"
  by (cases op) (auto simp: reg_op_defs split: if_splits
      dest: putView_ok putService_ok putRecord_ok replaceAll_ok
      intro: delete_views_ok delete_services_ok delete_records_ok)

lemma reg_run_moved: "reg_run io op t = Inr t' \<Longrightarrow> reg_moved t t'"
  by (cases op) (auto simp: reg_op_defs split: if_splits
      dest: reg_moved_putView reg_moved_putService reg_moved_putRecord reg_moved_replaceAll
      intro: reg_moved_delete_views reg_moved_delete_services reg_moved_delete)

end
