(* ===== verification/StoreCopy.thy ===== *)
theory StoreCopy
  imports StoreReg
begin

text \<open>
  Reading the registry and writing it back. What \<^verbatim>\<open>Views\<close>, \<^verbatim>\<open>Services\<close> and \<^verbatim>\<open>Records\<close> return is enough to rebuild the tables:
  \<^verbatim>\<open>replaceAll\<close> of it succeeds on any database and reads back the same, identifiers apart. This is what an
  import relies on and what a replica does with the primary's configuration.
\<close>

section \<open>What the reads return\<close>

definition group_rows :: "string \<Rightarrow> string list \<Rightarrow> (string \<times> string) list" where
  "group_rows n cs = (if cs = [] then [(n, [])] else map (Pair n) cs)"

definition cidrs_of :: "string \<Rightarrow> rtables \<Rightarrow> string list" where
  "cidrs_of n t = sort (map snd (filter (\<lambda>s. fst s = n) (rt_subnets t)))"

lemma fold_same_view:
  "n \<notin> view_Name ` set out \<Longrightarrow>
   fold view_row (map (Pair n) cs) (out @ [\<lparr>view_Name = n, view_Subnets = xs\<rparr>]) =
   out @ [\<lparr>view_Name = n, view_Subnets = xs @ filter (\<lambda>c. c \<noteq> []) cs\<rparr>]"
proof (induction cs arbitrary: xs)
  case (Cons c cs)
  have "map (\<lambda>v. if view_Name v = n then v\<lparr>view_Subnets := view_Subnets v @ [c]\<rparr> else v) out = out"
    by (rule map_idI) (use Cons.prems in auto)
  with Cons show ?case by (simp add: view_row_def)
qed simp

lemma fold_group:
  assumes "n \<notin> view_Name ` set out"
  shows "fold view_row (group_rows n cs) out = out @ [\<lparr>view_Name = n, view_Subnets = filter (\<lambda>c. c \<noteq> []) cs\<rparr>]"
proof (cases cs)
  case Nil
  then show ?thesis using assms by (simp add: group_rows_def view_row_def)
next
  case (Cons c rest)
  have "view_row (n, c) out = view_row (n, c) (out @ [\<lparr>view_Name = n, view_Subnets = []\<rparr>])"
    using assms by (simp add: view_row_def)
  then have "fold view_row (group_rows n cs) out = fold view_row (map (Pair n) cs) (out @ [\<lparr>view_Name = n, view_Subnets = []\<rparr>])"
    using Cons by (simp add: group_rows_def)
  then show ?thesis using assms by (simp add: fold_same_view)
qed

lemma fold_groups:
  "distinct ns \<Longrightarrow> set ns \<inter> view_Name ` set out = {} \<Longrightarrow>
   fold view_row (concat (map (\<lambda>n. group_rows n (f n)) ns)) out =
   out @ map (\<lambda>n. \<lparr>view_Name = n, view_Subnets = filter (\<lambda>c. c \<noteq> []) (f n)\<rparr>) ns"
  by (induction ns arbitrary: out) (auto simp: fold_group)

lemma Views_eq:
  assumes "distinct (rt_views t)"
  shows "Views t = map (\<lambda>n. \<lparr>view_Name = n, view_Subnets = filter (\<lambda>c. c \<noteq> []) (cidrs_of n t)\<rparr>) (sort (rt_views t))"
proof -
  have "view_rows t = concat (map (\<lambda>n. group_rows n (cidrs_of n t)) (sort (rt_views t)))"
    by (simp add: view_rows_def group_rows_def cidrs_of_def Let_def)
  then show ?thesis using assms by (simp add: Views_def fold_groups)
qed

definition load_service :: "rtables \<Rightarrow> service \<Rightarrow> service" where
  "load_service t r = r\<lparr>svc_Addresses := addresses_of (svc_ID r) t, svc_Aliases := aliases_of (svc_ID r) t\<rparr>"

lemma map_result_all: "(\<And>x. x \<in> set xs \<Longrightarrow> f x = Inr (g x)) \<Longrightarrow> map_result f xs = Inr (map g xs)"
  by (induction xs) simp_all

lemma find_distinct_key:
  "distinct (map k xs) \<Longrightarrow> x \<in> set xs \<Longrightarrow> find (\<lambda>y. k y = k x) xs = Some x"
  by (induction xs) (auto simp: image_iff)

lemma Service_row: "services_ok t \<Longrightarrow> r \<in> set (rt_services t) \<Longrightarrow> Service (svc_ID r) t = Inr (load_service t r)"
  by (simp add: Service_def load_service_def services_ok_def find_distinct_key)

lemma Services_eq: "services_ok t \<Longrightarrow> Services t = Inr (map (load_service t) (sort_key svc_Name (rt_services t)))"
proof -
  assume ok: "services_ok t"
  have "map_result (\<lambda>i. Service i t) (map svc_ID rs) = Inr (map (load_service t) rs)" if "set rs \<subseteq> set (rt_services t)" for rs
    using that by (induction rs) (simp_all add: Service_row [OF ok])
  then show ?thesis by (simp add: Services_def)
qed

lemma addresses_of_eq:
  assumes "sorted_wrt (<) (map ar_ID (rt_addresses t))"
  shows "addresses_of i t = map (\<lambda>a. \<lparr>addr_ID = ar_ID a, addr_Address = ar_Address a, addr_View = coalesce (ar_View a)\<rparr>)
    (filter (\<lambda>a. ar_Service a = i) (rt_addresses t))"
proof -
  have "sorted_wrt (<) (map ar_ID (filter (\<lambda>a. ar_Service a = i) (rt_addresses t)))"
    using assms by (rule sorted_wrt_map_filter)
  then have "sorted (map ar_ID (filter (\<lambda>a. ar_Service a = i) (rt_addresses t)))" by (rule strict_sorted_imp_sorted)
  then show ?thesis by (simp add: addresses_of_def sorted_sort_id sort_key_id_if_sorted)
qed

section \<open>What is the same on two nodes\<close>

text \<open>The configuration of the registry: what the reads return, with the identifiers of the node taken out.\<close>

definition addr_content :: "address \<Rightarrow> address" where
  "addr_content a = a\<lparr>addr_ID := 0\<rparr>"

definition svc_content :: "service \<Rightarrow> service" where
  "svc_content s = s\<lparr>svc_ID := 0, svc_Addresses := map addr_content (svc_Addresses s)\<rparr>"

definition rec_content :: "record_row \<Rightarrow> record_row" where
  "rec_content r = r\<lparr>rec_ID := 0\<rparr>"

definition services_of :: "rtables \<Rightarrow> service list" where
  "services_of t = map (load_service t) (sort_key svc_Name (rt_services t))"

definition reg_content :: "rtables \<Rightarrow> view list \<times> service list \<times> record_row list" where
  "reg_content t = (Views t, map svc_content (services_of t), map rec_content (Records t))"

section \<open>Writing views back\<close>

abbreviation same_but_views :: "rtables \<Rightarrow> rtables \<Rightarrow> bool" where
  "same_but_views t t' \<equiv> rt_services t' = rt_services t \<and> rt_addresses t' = rt_addresses t \<and>
     rt_aliases t' = rt_aliases t \<and> rt_records t' = rt_records t"

lemma insert_subnets_fresh:
  "distinct cs \<Longrightarrow> set cs \<inter> snd ` set (rt_subnets t) = {} \<Longrightarrow>
   \<exists>t'. insert_subnets v cs t = Inr t' \<and> rt_views t' = rt_views t \<and> rt_subnets t' = rt_subnets t @ map (Pair v) cs \<and> same_but_views t t'"
proof (induction cs arbitrary: t)
  case (Cons c cs)
  let ?u = "bump 1 (t\<lparr>rt_subnets := rt_subnets t @ [(v, c)]\<rparr>)"
  have "\<exists>t'. insert_subnets v cs ?u = Inr t' \<and> rt_views t' = rt_views ?u \<and> rt_subnets t' = rt_subnets ?u @ map (Pair v) cs \<and> same_but_views ?u t'"
    by (rule Cons.IH) (use Cons.prems in auto)
  then show ?case using Cons.prems by auto
qed simp

lemma putView_fresh:
  assumes "view_Name v \<notin> set (rt_views t)" and "views_ok t" and "distinct (view_Subnets v)"
    and "set (view_Subnets v) \<inter> snd ` set (rt_subnets t) = {}"
  shows "\<exists>t'. putView v t = Inr t' \<and> rt_views t' = rt_views t @ [view_Name v] \<and>
     rt_subnets t' = rt_subnets t @ map (Pair (view_Name v)) (view_Subnets v) \<and> same_but_views t t'"
proof -
  let ?u = "delete_subnets (\<lambda>s. fst s = view_Name v) (insert_view (view_Name v) t)"
  have "filter (\<lambda>s. fst s \<noteq> view_Name v) (rt_subnets t) = rt_subnets t"
    using assms(1,2) by (auto simp: views_ok_def list_all_iff filter_id_conv)
  then have u: "rt_subnets ?u = rt_subnets t" "rt_views ?u = rt_views t @ [view_Name v]" "same_but_views t ?u"
    using assms(1) by (simp_all add: delete_subnets_def insert_view_def)
  have "\<exists>t'. insert_subnets (view_Name v) (view_Subnets v) ?u = Inr t' \<and> rt_views t' = rt_views ?u \<and>
      rt_subnets t' = rt_subnets ?u @ map (Pair (view_Name v)) (view_Subnets v) \<and> same_but_views ?u t'"
    by (rule insert_subnets_fresh) (use assms u in auto)
  then show ?thesis using u by (auto simp: putView_def)
qed

definition subnet_rows :: "view list \<Rightarrow> (string \<times> string) list" where
  "subnet_rows vs = concat (map (\<lambda>v. map (Pair (view_Name v)) (view_Subnets v)) vs)"

lemma put_views_fresh:
  "reg_ok t \<Longrightarrow> distinct (map view_Name vs) \<Longrightarrow> set (map view_Name vs) \<inter> set (rt_views t) = {} \<Longrightarrow>
   distinct (map snd (subnet_rows vs)) \<Longrightarrow> snd ` set (subnet_rows vs) \<inter> snd ` set (rt_subnets t) = {} \<Longrightarrow>
   \<exists>t'. put_views vs t = Inr t' \<and> rt_views t' = rt_views t @ map view_Name vs \<and> rt_subnets t' = rt_subnets t @ subnet_rows vs \<and> same_but_views t t'"
proof (induction vs arbitrary: t)
  case (Cons v vs)
  have rows: "subnet_rows (v # vs) = map (Pair (view_Name v)) (view_Subnets v) @ subnet_rows vs" by (simp add: subnet_rows_def)
  have "\<exists>u. putView v t = Inr u \<and> rt_views u = rt_views t @ [view_Name v] \<and>
     rt_subnets u = rt_subnets t @ map (Pair (view_Name v)) (view_Subnets v) \<and> same_but_views t u"
    by (rule putView_fresh) (use Cons.prems in \<open>auto simp: rows reg_ok_def comp_def image_Un image_image\<close>)
  then obtain u where u: "putView v t = Inr u" "rt_views u = rt_views t @ [view_Name v]"
     "rt_subnets u = rt_subnets t @ map (Pair (view_Name v)) (view_Subnets v)" "same_but_views t u" by blast
  have "\<exists>t'. put_views vs u = Inr t' \<and> rt_views t' = rt_views u @ map view_Name vs \<and> rt_subnets t' = rt_subnets u @ subnet_rows vs \<and> same_but_views u t'"
  proof (rule Cons.IH)
    show "reg_ok u" using u(1) Cons.prems(1) by (rule putView_ok)
    show "snd ` set (subnet_rows vs) \<inter> snd ` set (rt_subnets u) = {}"
      using Cons.prems(4,5) by (auto simp: rows u(3) image_Un image_image)
  qed (use Cons.prems in \<open>auto simp: rows u(2) comp_def\<close>)
  then show ?case using u rows by auto
qed (simp add: subnet_rows_def)

text \<open>What \<^const>\<open>Views\<close> returns is in order: names and, within a view, subnets are sorted, and no empty subnet is left.\<close>

definition views_listed :: "view list \<Rightarrow> bool" where
  "views_listed vs =
     (sorted_wrt (<) (map view_Name vs) \<and> distinct (map snd (subnet_rows vs)) \<and>
      list_all (\<lambda>v. sorted (view_Subnets v) \<and> [] \<notin> set (view_Subnets v)) vs)"

lemma filter_subnet_rows:
  "distinct (map view_Name vs) \<Longrightarrow> v \<in> set vs \<Longrightarrow>
   map snd (filter (\<lambda>s. fst s = view_Name v) (subnet_rows vs)) = view_Subnets v"
proof (induction vs)
  case (Cons w vs)
  have none: "filter (\<lambda>s. fst s = n) (subnet_rows us) = []" if "n \<notin> view_Name ` set us" for n us
    using that by (auto simp: subnet_rows_def filter_empty_conv)
  have rows: "subnet_rows (w # vs) = map (Pair (view_Name w)) (view_Subnets w) @ subnet_rows vs" by (simp add: subnet_rows_def)
  have own: "map snd (filter (\<lambda>s. fst s = n) (map (Pair m) cs)) = (if n = m then cs else [])" for n m :: string and cs :: "string list"
    by (induction cs) auto
  show ?case
  proof (cases "v = w")
    case True
    then show ?thesis using Cons.prems by (simp add: rows own none comp_def)
  next
    case False
    then have "view_Name w \<noteq> view_Name v" using Cons.prems by auto
    then show ?thesis using Cons False by (simp add: rows own)
  qed
qed simp

lemma Views_of_written:
  assumes "views_listed vs" and "rt_views t = map view_Name vs" and "rt_subnets t = subnet_rows vs"
  shows "Views t = vs"
proof -
  have d: "distinct (map view_Name vs)" using assms(1) by (simp add: views_listed_def strict_sorted_iff)
  have s: "sort (map view_Name vs) = map view_Name vs"
    using assms(1) by (simp add: views_listed_def strict_sorted_imp_sorted sorted_sort_id)
  have "\<lparr>view_Name = view_Name v, view_Subnets = filter (\<lambda>c. c \<noteq> []) (cidrs_of (view_Name v) t)\<rparr> = v" if "v \<in> set vs" for v
  proof -
    have "cidrs_of (view_Name v) t = view_Subnets v" and "[] \<notin> set (view_Subnets v)"
      using assms that by (auto simp: cidrs_of_def filter_subnet_rows [OF d] views_listed_def list_all_iff sorted_sort_id)
    then show ?thesis by (cases v) (auto simp: filter_id_conv)
  qed
  then have "map (\<lambda>v. \<lparr>view_Name = view_Name v, view_Subnets = filter (\<lambda>c. c \<noteq> []) (cidrs_of (view_Name v) t)\<rparr>) vs = vs"
    by (simp add: map_idI)
  then show ?thesis using d s by (simp add: Views_eq assms(2) comp_def)
qed

lemma Views_listed:
  assumes "views_ok t"
  shows "views_listed (Views t)"
proof -
  let ?v = "\<lambda>n. \<lparr>view_Name = n, view_Subnets = filter (\<lambda>c. c \<noteq> []) (cidrs_of n t)\<rparr>"
  have V: "Views t = map ?v (sort (rt_views t))" using assms by (simp add: Views_eq views_ok_def)
  have inj: "inj_on snd (set (rt_subnets t))" "distinct (rt_subnets t)" using assms by (auto simp: views_ok_def distinct_map)
  have d1: "distinct (map snd (filter (\<lambda>s. fst s = n) (rt_subnets t)))" for n
    using assms by (simp add: views_ok_def distinct_map_filter)
  have mem: "(n, c) \<in> set (rt_subnets t)" if "c \<in> set (cidrs_of n t)" for n c using that by (auto simp: cidrs_of_def)
  have "distinct (map snd (subnet_rows (map ?v ns)))" if "distinct ns" for ns
    using that
  proof (induction ns)
    case (Cons n ns)
    have "distinct (cidrs_of n t)" by (simp add: cidrs_of_def d1)
    moreover have "c \<notin> set (cidrs_of m t)" if "c \<in> set (cidrs_of n t)" "m \<in> set ns" for c m
      using mem [OF that(1)] mem [of c m] inj_onD [OF inj(1), of "(n, c)" "(m, c)"] Cons.prems that(2) by auto
    ultimately show ?case using Cons by (auto simp: subnet_rows_def comp_def)
  qed (simp add: subnet_rows_def)
  moreover have "sorted (filter (\<lambda>c. c \<noteq> []) (cidrs_of n t))" for n by (simp add: cidrs_of_def sorted_wrt_filter)
  moreover have "sorted_wrt (<) (sort (rt_views t))" using assms by (simp add: strict_sorted_iff views_ok_def)
  ultimately show ?thesis using assms by (simp add: V views_listed_def list_all_iff comp_def views_ok_def)
qed


section \<open>Writing services back\<close>

abbreviation same_but_services :: "rtables \<Rightarrow> rtables \<Rightarrow> bool" where
  "same_but_services t t' \<equiv> rt_views t' = rt_views t \<and> rt_subnets t' = rt_subnets t \<and> rt_records t' = rt_records t"

definition address_of :: "address_row \<Rightarrow> address" where
  "address_of a = \<lparr>addr_ID = 0, addr_Address = ar_Address a, addr_View = coalesce (ar_View a)\<rparr>"

definition refs_ok :: "string list \<Rightarrow> address list \<Rightarrow> bool" where
  "refs_ok views as = list_all (\<lambda>a. ref_ok views (nullable (addr_View a))) as"

lemma coalesce_nullable [simp]: "coalesce (nullable s) = s"
  by (simp add: coalesce_def nullable_def)

lemma addr_content_eq: "addr_content a = \<lparr>addr_ID = 0, addr_Address = addr_Address a, addr_View = addr_View a\<rparr>"
  by (cases a) (simp add: addr_content_def)

lemma insert_addresses_fresh:
  "i \<in> svc_ID ` set (rt_services t) \<Longrightarrow> refs_ok (rt_views t) as \<Longrightarrow>
   \<exists>t' rows. insert_addresses i as t = Inr t' \<and> rt_addresses t' = rt_addresses t @ rows \<and> list_all (\<lambda>a. ar_Service a = i) rows \<and>
     map address_of rows = map addr_content as \<and> rt_services t' = rt_services t \<and> rt_aliases t' = rt_aliases t \<and> same_but_services t t'"
proof (induction as arbitrary: t)
  case (Cons a as)
  let ?r = "\<lparr>ar_ID = next_id (map ar_ID (rt_addresses t)), ar_Service = i, ar_Address = addr_Address a, ar_View = nullable (addr_View a)\<rparr>"
  let ?u = "bump 1 (t\<lparr>rt_addresses := rt_addresses t @ [?r]\<rparr>)"
  from Cons.IH [of ?u] Cons.prems obtain t' rows where
    IH: "insert_addresses i as ?u = Inr t'" "rt_addresses t' = rt_addresses ?u @ rows" "list_all (\<lambda>a. ar_Service a = i) rows"
    "map address_of rows = map addr_content as" "rt_services t' = rt_services t" "rt_aliases t' = rt_aliases t" "same_but_services t t'"
    by (auto simp: refs_ok_def)
  have "insert_addresses i (a # as) t = Inr t'"
    using Cons.prems IH(1) by (simp add: Let_def refs_ok_def ref_ok_nullable)
  moreover have "address_of ?r = addr_content a" by (simp add: address_of_def addr_content_eq)
  ultimately show ?case using IH(2-)
    by (intro exI [of _ t'] exI [of _ "?r # rows"]) (simp del: insert_addresses.simps)
qed (simp add: refs_ok_def)

lemma insert_aliases_fresh:
  "i \<in> svc_ID ` set (rt_services t) \<Longrightarrow> distinct als \<Longrightarrow> set als \<inter> al_Name ` set (rt_aliases t) = {} \<Longrightarrow>
   \<exists>t'. insert_aliases i als t = Inr t' \<and> rt_aliases t' = rt_aliases t @ map (\<lambda>n. \<lparr>al_Service = i, al_Name = n\<rparr>) als \<and>
     rt_services t' = rt_services t \<and> rt_addresses t' = rt_addresses t \<and> same_but_services t t'"
proof (induction als arbitrary: t)
  case (Cons al als)
  let ?u = "bump 1 (t\<lparr>rt_aliases := rt_aliases t @ [\<lparr>al_Service = i, al_Name = al\<rparr>]\<rparr>)"
  have "\<exists>t'. insert_aliases i als ?u = Inr t' \<and> rt_aliases t' = rt_aliases ?u @ map (\<lambda>n. \<lparr>al_Service = i, al_Name = n\<rparr>) als \<and>
     rt_services t' = rt_services ?u \<and> rt_addresses t' = rt_addresses ?u \<and> same_but_services ?u t'"
    by (rule Cons.IH) (use Cons.prems in auto)
  then show ?case using Cons.prems by auto
qed simp

lemma load_service_old:
  assumes "sorted_wrt (<) (map ar_ID (rt_addresses t))" and "sorted_wrt (<) (map ar_ID (rt_addresses t'))"
    and "rt_addresses t' = rt_addresses t @ rows" and "list_all (\<lambda>a. ar_Service a = i) rows"
    and "rt_aliases t' = rt_aliases t @ map (\<lambda>n. \<lparr>al_Service = i, al_Name = n\<rparr>) als" and "svc_ID r \<noteq> i"
  shows "load_service t' r = load_service t r"
proof -
  have "filter (\<lambda>a. ar_Service a = svc_ID r) rows = []" using assms(4,6) by (auto simp: filter_empty_conv list_all_iff)
  then have "addresses_of (svc_ID r) t' = addresses_of (svc_ID r) t"
    using assms by (simp add: addresses_of_eq)
  moreover have "aliases_of (svc_ID r) t' = aliases_of (svc_ID r) t"
    using assms(5,6) by (simp add: aliases_of_def filter_map comp_def)
  ultimately show ?thesis by (simp add: load_service_def)
qed

lemma load_service_new:
  assumes "children_ok t" and "children_ok t'" and "i \<notin> svc_ID ` set (rt_services t)"
    and "rt_addresses t' = rt_addresses t @ rows" and "list_all (\<lambda>a. ar_Service a = i) rows" and "map address_of rows = map addr_content (svc_Addresses svc)"
    and "rt_aliases t' = rt_aliases t @ map (\<lambda>n. \<lparr>al_Service = i, al_Name = n\<rparr>) (svc_Aliases svc)"
  shows "svc_content (load_service t' ((service_columns svc)\<lparr>svc_ID := i\<rparr>)) = svc_content (svc\<lparr>svc_Aliases := sort (svc_Aliases svc)\<rparr>)"
proof -
  have "filter (\<lambda>a. ar_Service a = i) (rt_addresses t) = []" "filter (\<lambda>a. al_Service a = i) (rt_aliases t) = []"
    using assms(1,3) by (auto simp: children_ok_def filter_empty_conv list_all_iff)
  moreover have "filter (\<lambda>a. ar_Service a = i) rows = rows" using assms(5) by (simp add: filter_id_conv list_all_iff)
  moreover have "addr_content \<circ> (\<lambda>a. \<lparr>addr_ID = ar_ID a, addr_Address = ar_Address a, addr_View = coalesce (ar_View a)\<rparr>) = address_of"
    by (auto simp: addr_content_def address_of_def)
  ultimately show ?thesis using assms(2,4,6,7)
    by (simp add: load_service_def svc_content_def service_columns_def addresses_of_eq aliases_of_def children_ok_def filter_map comp_def)
qed

lemma putService_fresh:
  assumes ok: "reg_ok t" and "svc_ID svc = 0" and "svc_Name svc \<notin> svc_Name ` set (rt_services t)"
    and "refs_ok (rt_views t) (svc_Addresses svc)" and "distinct (svc_Aliases svc)" and "set (svc_Aliases svc) \<inter> al_Name ` set (rt_aliases t) = {}"
  shows "\<exists>i t' row. putService svc t = Inr (i, t') \<and> rt_services t' = rt_services t @ [row] \<and> svc_Name row = svc_Name svc \<and>
    svc_content (load_service t' row) = svc_content (svc\<lparr>svc_Aliases := sort (svc_Aliases svc)\<rparr>) \<and>
    (\<forall>r \<in> set (rt_services t). load_service t' r = load_service t r) \<and> same_but_services t t' \<and>
    al_Name ` set (rt_aliases t') = al_Name ` set (rt_aliases t) \<union> set (svc_Aliases svc)"
proof -
  let ?i = "next_id (map svc_ID (rt_services t))" and ?row = "(service_columns svc)\<lparr>svc_ID := next_id (map svc_ID (rt_services t))\<rparr>"
  let ?u = "bump 1 (t\<lparr>rt_services := rt_services t @ [?row]\<rparr>)"
  have ins: "insert_service svc t = Inr (?i, ?u)" using assms(3) by (simp add: insert_service_def Let_def)
  have fresh: "?i \<notin> svc_ID ` set (rt_services t)" using next_id_fresh [of "map svc_ID (rt_services t)"] by simp
  obtain t1 rows where t1: "insert_addresses ?i (svc_Addresses svc) ?u = Inr t1" "rt_addresses t1 = rt_addresses t @ rows"
    "list_all (\<lambda>a. ar_Service a = ?i) rows" "map address_of rows = map addr_content (svc_Addresses svc)" "rt_services t1 = rt_services ?u"
    "rt_aliases t1 = rt_aliases t" "same_but_services t t1"
    using insert_addresses_fresh [of ?i ?u "svc_Addresses svc"] assms(4) by auto
  obtain t' where t': "insert_aliases ?i (svc_Aliases svc) t1 = Inr t'"
    "rt_aliases t' = rt_aliases t @ map (\<lambda>n. \<lparr>al_Service = ?i, al_Name = n\<rparr>) (svc_Aliases svc)" "rt_services t' = rt_services ?u"
    "rt_addresses t' = rt_addresses t1" "same_but_services t1 t'"
    using insert_aliases_fresh [of ?i t1 "svc_Aliases svc"] assms(5,6) t1 by auto
  have put: "putService svc t = Inr (?i, t')" using assms(2) ins t1(1) t'(1) by (simp add: putService_def put_children_def)
  then have ok': "reg_ok t'" using ok by (rule putService_ok)
  have "load_service t' r = load_service t r" if "r \<in> set (rt_services t)" for r
  proof (rule load_service_old [where i = ?i and rows = rows and als = "svc_Aliases svc"])
    show "svc_ID r \<noteq> ?i" using fresh that by (metis imageI)
  qed (use ok ok' t1 t' in \<open>simp_all add: reg_ok_def children_ok_def\<close>)
  moreover have "svc_content (load_service t' ?row) = svc_content (svc\<lparr>svc_Aliases := sort (svc_Aliases svc)\<rparr>)"
    by (rule load_service_new [where t = t and rows = rows]) (use ok ok' t1 t' fresh in \<open>simp_all add: reg_ok_def\<close>)
  ultimately show ?thesis using put t1 t'
    by (intro exI [of _ ?i] exI [of _ t'] exI [of _ ?row]) (auto simp: service_columns_def image_Un image_image)
qed


definition loaded :: "rtables \<Rightarrow> service list" where
  "loaded t = map (\<lambda>r. svc_content (load_service t r)) (rt_services t)"

definition sort_aliases :: "service \<Rightarrow> service" where
  "sort_aliases s = s\<lparr>svc_Aliases := sort (svc_Aliases s)\<rparr>"

lemma put_services_fresh:
  "reg_ok t \<Longrightarrow> distinct (map svc_Name ss) \<Longrightarrow> svc_Name ` set ss \<inter> svc_Name ` set (rt_services t) = {} \<Longrightarrow>
   list_all (\<lambda>s. refs_ok (rt_views t) (svc_Addresses s)) ss \<Longrightarrow> distinct (concat (map svc_Aliases ss)) \<Longrightarrow>
   set (concat (map svc_Aliases ss)) \<inter> al_Name ` set (rt_aliases t) = {} \<Longrightarrow>
   \<exists>t'. put_services ss t = Inr t' \<and> loaded t' = loaded t @ map (\<lambda>s. svc_content (sort_aliases s)) ss \<and>
     map svc_Name (rt_services t') = map svc_Name (rt_services t) @ map svc_Name ss \<and> same_but_services t t'"
proof (induction ss arbitrary: t)
  case (Cons s ss)
  let ?s = "s\<lparr>svc_ID := 0\<rparr>"
  have "\<exists>i u row. putService ?s t = Inr (i, u) \<and> rt_services u = rt_services t @ [row] \<and> svc_Name row = svc_Name ?s \<and>
    svc_content (load_service u row) = svc_content (?s\<lparr>svc_Aliases := sort (svc_Aliases ?s)\<rparr>) \<and>
    (\<forall>r \<in> set (rt_services t). load_service u r = load_service t r) \<and> same_but_services t u \<and>
    al_Name ` set (rt_aliases u) = al_Name ` set (rt_aliases t) \<union> set (svc_Aliases ?s)"
    by (rule putService_fresh) (use Cons.prems in auto)
  then obtain i u row where u: "putService ?s t = Inr (i, u)" "rt_services u = rt_services t @ [row]" "svc_Name row = svc_Name s"
    "svc_content (load_service u row) = svc_content (sort_aliases s)" "\<forall>r \<in> set (rt_services t). load_service u r = load_service t r"
    "same_but_services t u" "al_Name ` set (rt_aliases u) = al_Name ` set (rt_aliases t) \<union> set (svc_Aliases s)"
    by (auto simp: svc_content_def sort_aliases_def)
  have "\<exists>t'. put_services ss u = Inr t' \<and> loaded t' = loaded u @ map (\<lambda>s. svc_content (sort_aliases s)) ss \<and>
     map svc_Name (rt_services t') = map svc_Name (rt_services u) @ map svc_Name ss \<and> same_but_services u t'"
  proof (rule Cons.IH)
    show "reg_ok u" using u(1) Cons.prems(1) by (rule putService_ok)
    show "set (concat (map svc_Aliases ss)) \<inter> al_Name ` set (rt_aliases u) = {}" using Cons.prems(5,6) u(7) by auto
    show "list_all (\<lambda>s. refs_ok (rt_views u) (svc_Addresses s)) ss" using Cons.prems(4) u(6) by simp
  qed (use Cons.prems u(2,3) in auto)
  moreover have "loaded u = loaded t @ [svc_content (sort_aliases s)]" using u by (simp add: loaded_def)
  ultimately show ?case using u by auto
qed simp

section \<open>Writing records back\<close>

lemma rec_content_eq:
  "rec_content r = \<lparr>rec_ID = 0, rec_Name = rec_Name r, rec_Type = rec_Type r, rec_Value = rec_Value r, rec_View = rec_View r\<rparr>"
  by (cases r) (simp add: rec_content_def)

lemma put_records_fresh:
  "list_all (\<lambda>r. ref_ok (rt_views t) (nullable (rec_View r))) rs \<Longrightarrow>
   \<exists>t'. put_records rs t = Inr t' \<and> map (\<lambda>r. rec_content (record_of r)) (rt_records t') = map (\<lambda>r. rec_content (record_of r)) (rt_records t) @ map rec_content rs \<and>
     rt_views t' = rt_views t \<and> rt_subnets t' = rt_subnets t \<and> rt_services t' = rt_services t \<and> rt_addresses t' = rt_addresses t \<and> rt_aliases t' = rt_aliases t"
proof (induction rs arbitrary: t)
  case (Cons r rs)
  let ?row = "\<lparr>rw_ID = next_id (map rw_ID (rt_records t)), rw_Name = rec_Name r, rw_Type = rec_Type r, rw_Value = rec_Value r,
    rw_View = nullable (rec_View r)\<rparr>"
  let ?u = "bump 1 (t\<lparr>rt_records := rt_records t @ [?row]\<rparr>)"
  have put: "putRecord (r\<lparr>rec_ID := 0\<rparr>) t = Inr (rw_ID ?row, ?u)"
    using Cons.prems by (simp add: putRecord_def Let_def ref_ok_nullable)
  have "list_all (\<lambda>r. ref_ok (rt_views ?u) (nullable (rec_View r))) rs" using Cons.prems by simp
  from Cons.IH [OF this] obtain t' where t': "put_records rs ?u = Inr t'"
    "map (\<lambda>r. rec_content (record_of r)) (rt_records t') = map (\<lambda>r. rec_content (record_of r)) (rt_records ?u) @ map rec_content rs"
    "rt_views t' = rt_views t \<and> rt_subnets t' = rt_subnets t \<and> rt_services t' = rt_services t \<and> rt_addresses t' = rt_addresses t \<and> rt_aliases t' = rt_aliases t"
    by auto
  have "rec_content (record_of ?row) = rec_content r" by (simp add: rec_content_eq record_of_def)
  then show ?case using put t' by simp
qed simp

lemma load_service_cong:
  "rt_addresses t' = rt_addresses t \<Longrightarrow> rt_aliases t' = rt_aliases t \<Longrightarrow> load_service t' r = load_service t r"
  by (simp add: load_service_def addresses_of_def aliases_of_def)

section \<open>The round trip\<close>

text \<open>What \<^const>\<open>services_of\<close> and \<^const>\<open>Records\<close> return is in order too.\<close>

lemma sort_key_sorted: "sorted (map k (sort_key k xs))"
  by simp

lemma services_of_names: "services_ok t \<Longrightarrow> sorted_wrt (<) (map svc_Name (services_of t))"
proof -
  assume "services_ok t"
  then have "distinct (map svc_Name (sort_key svc_Name (rt_services t)))"
    by (simp add: services_ok_def distinct_map)
  moreover have "map svc_Name (services_of t) = map svc_Name (sort_key svc_Name (rt_services t))"
    by (simp add: services_of_def load_service_def)
  ultimately show ?thesis by (simp add: strict_sorted_iff)
qed

lemma services_of_aliases: "s \<in> set (services_of t) \<Longrightarrow> sort_aliases s = s"
  by (auto simp: services_of_def load_service_def sort_aliases_def aliases_of_def sorted_sort_id)

lemma distinct_aliases:
  assumes "children_ok t" and "distinct (map svc_ID rs)"
  shows "distinct (concat (map (\<lambda>r. svc_Aliases (load_service t r)) rs))"
  using assms(2)
proof (induction rs)
  case (Cons r rs)
  have mem: "\<lparr>al_Service = i, al_Name = n\<rparr> \<in> set (rt_aliases t)" if n: "n \<in> set (aliases_of i t)" for i n
  proof -
    obtain a where "a \<in> set (rt_aliases t)" "al_Service a = i" "al_Name a = n" using n by (auto simp: aliases_of_def)
    moreover have "\<lparr>al_Service = al_Service a, al_Name = al_Name a\<rparr> = a" by simp
    ultimately show ?thesis by metis
  qed
  have inj: "inj_on al_Name (set (rt_aliases t))" using assms(1) by (simp add: children_ok_def distinct_map)
  have "distinct (aliases_of (svc_ID r) t)"
    using assms(1) by (simp add: aliases_of_def children_ok_def distinct_map_filter)
  moreover have "n \<notin> set (aliases_of (svc_ID q) t)" if "n \<in> set (aliases_of (svc_ID r) t)" "q \<in> set rs" for n q
  proof
    assume "n \<in> set (aliases_of (svc_ID q) t)"
    from inj_onD [OF inj _ mem [OF this] mem [OF that(1)]] have "svc_ID q = svc_ID r" by simp
    then show False using Cons.prems that(2) by (metis distinct.simps(2) imageI list.simps(9) set_map)
  qed
  ultimately show ?case using Cons by (auto simp: load_service_def)
qed simp

lemma services_of_writable:
  assumes "reg_ok t"
  shows "list_all (\<lambda>s. refs_ok (rt_views t) (svc_Addresses s)) (services_of t)" and "distinct (concat (map svc_Aliases (services_of t)))"
proof -
  have nc: "ref_ok vs v \<Longrightarrow> ref_ok vs (nullable (coalesce v))" for vs v
    by (cases v) (simp_all add: nullable_def coalesce_def)
  show "list_all (\<lambda>s. refs_ok (rt_views t) (svc_Addresses s)) (services_of t)"
    using assms nc by (auto simp: list_all_iff services_of_def load_service_def refs_ok_def addresses_of_def reg_ok_def children_ok_def)
  have "distinct (map svc_ID (sort_key svc_Name (rt_services t)))" using assms by (simp add: reg_ok_def services_ok_def distinct_map)
  then show "distinct (concat (map svc_Aliases (services_of t)))"
    using distinct_aliases [of t "sort_key svc_Name (rt_services t)"] assms by (simp add: services_of_def reg_ok_def comp_def)
qed

lemma records_writable:
  assumes "reg_ok t"
  shows "list_all (\<lambda>r. ref_ok (rt_views t) (nullable (rec_View r))) (Records t)"
proof -
  have nc: "ref_ok vs v \<Longrightarrow> ref_ok vs (nullable (coalesce v))" for vs v
    by (cases v) (simp_all add: nullable_def coalesce_def)
  then show ?thesis using assms by (auto simp: list_all_iff Records_def record_of_def reg_ok_def records_ok_def)
qed


lemma services_of_written:
  assumes "loaded t = map svc_content ss" and "map svc_Name (rt_services t) = map svc_Name ss" and "sorted_wrt (<) (map svc_Name ss)"
  shows "map svc_content (services_of t) = map svc_content ss"
proof -
  have "sorted (map svc_Name (rt_services t))" using assms(2,3) by (simp add: strict_sorted_imp_sorted)
  then show ?thesis using assms(1) by (simp add: services_of_def sort_key_id_if_sorted loaded_def comp_def)
qed

lemma Records_of_written:
  assumes "map (\<lambda>r. rec_content (record_of r)) (rt_records t) = map rec_content (Records d)"
  shows "map rec_content (Records t) = map rec_content (Records d)"
proof -
  have key: "(rw_Name r, rw_Type r) = (rec_Name (rec_content (record_of r)), rec_Type (rec_content (record_of r)))" for r
    by (simp add: rec_content_def record_of_def)
  have "map (\<lambda>r. (rw_Name r, rw_Type r)) (rt_records t) = map (\<lambda>r. (rec_Name r, rec_Type r)) (map rec_content (Records d))"
    unfolding assms [symmetric] by (simp add: key)
  also have "\<dots> = map (\<lambda>r. (rw_Name r, rw_Type r)) (sort_key (\<lambda>r. (rw_Name r, rw_Type r)) (rt_records d))"
    by (simp add: Records_def rec_content_def record_of_def)
  finally have "sorted (map (\<lambda>r. (rw_Name r, rw_Type r)) (rt_records t))" by (simp only: sort_key_sorted)
  then show ?thesis using assms by (simp add: Records_def sort_key_id_if_sorted comp_def)
qed

lemma replaceAll_copies:
  assumes d: "reg_ok d"
  shows "\<exists>t'. replaceAll (Views d) (services_of d) (Records d) t = Inr t' \<and> reg_content t' = reg_content d"
proof -
  note ok = d [unfolded reg_ok_def]
  have listed: "views_listed (Views d)" using ok Views_listed by blast
  have names: "map view_Name (Views d) = sort (rt_views d)" using ok by (simp add: Views_eq views_ok_def comp_def)
  obtain t1 where t1: "put_views (Views d) (wipe t) = Inr t1" "rt_views t1 = map view_Name (Views d)" "rt_subnets t1 = subnet_rows (Views d)"
    "same_but_views (wipe t) t1"
    using put_views_fresh [OF wipe_ok [of t], of "Views d"] listed by (auto simp: wipe_tables views_listed_def strict_sorted_iff)
  have ok1: "reg_ok t1" using t1(1) wipe_ok by (rule put_views_ok)
  have views1: "set (rt_views t1) = set (rt_views d)" using t1(2) names by simp
  have ref1: "ref_ok (rt_views t1) v = ref_ok (rt_views d) v" for v by (simp add: ref_ok_def views1 split: option.split)
  have dn: "distinct (map svc_Name (services_of d))" using ok services_of_names by (simp add: strict_sorted_iff)
  have "\<exists>t2. put_services (services_of d) t1 = Inr t2 \<and> loaded t2 = loaded t1 @ map (\<lambda>s. svc_content (sort_aliases s)) (services_of d) \<and>
     map svc_Name (rt_services t2) = map svc_Name (rt_services t1) @ map svc_Name (services_of d) \<and> same_but_services t1 t2"
    by (rule put_services_fresh)
      (use ok1 dn t1(4) services_of_writable [OF d] ref1 in \<open>simp_all add: wipe_tables refs_ok_def\<close>)
  then obtain t2 where t2: "put_services (services_of d) t1 = Inr t2" "loaded t2 = map svc_content (services_of d)"
     "map svc_Name (rt_services t2) = map svc_Name (services_of d)" "same_but_services t1 t2"
    using t1(4) by (auto simp: loaded_def wipe_tables services_of_aliases)
  have "list_all (\<lambda>r. ref_ok (rt_views t2) (nullable (rec_View r))) (Records d)"
    using records_writable [OF d] t2(4) ref1 by simp
  from put_records_fresh [OF this] obtain t3 where t3: "put_records (Records d) t2 = Inr t3"
    "map (\<lambda>r. rec_content (record_of r)) (rt_records t3) = map rec_content (Records d)" "rt_views t3 = rt_views t2" "rt_subnets t3 = rt_subnets t2"
    "rt_services t3 = rt_services t2" "rt_addresses t3 = rt_addresses t2" "rt_aliases t3 = rt_aliases t2"
    using t1(4) t2(4) by (auto simp: wipe_tables)
  have "Views t3 = Views d" using listed by (rule Views_of_written) (simp_all add: t3 t2(4) t1)
  moreover have "map svc_content (services_of t3) = map svc_content (services_of d)"
    by (rule services_of_written [of t3 "services_of d"])
      (use t2 t3 ok services_of_names load_service_cong [of t3 t2] in \<open>simp_all add: loaded_def\<close>)
  moreover have "map rec_content (Records t3) = map rec_content (Records d)" using t3(2) by (rule Records_of_written)
  ultimately have "reg_content t3 = reg_content d" by (simp add: reg_content_def)
  moreover have "replaceAll (Views d) (services_of d) (Records d) t = Inr t3" by (simp add: replaceAll_def t1(1) t2(1) t3(1))
  ultimately show ?thesis by blast
qed

end
