(* ===== verification/StoreLocal.thy ===== *)
theory StoreLocal
  imports StoreReg
begin

text \<open>
  The tables that belong to one node and are never replicated: the admin account and its single sign-on link, the API
  tokens, the peers, what this node follows, whether it was promoted, its local settings and its audit trail
  (\<^verbatim>\<open>internal/store/store.go\<close>, \<^verbatim>\<open>peer.go\<close>, \<^verbatim>\<open>backup.go\<close>). None of them has a trigger on \<^verbatim>\<open>config_version\<close>. A table with
  \<^verbatim>\<open>CHECK (id = 1)\<close> holds at most one row and is an option. The clock \<^verbatim>\<open>unixepoch()\<close> is the argument \<open>now\<close>.
\<close>

record admin_identity =
  ad_PasswordHash :: string
  ad_SSOSub :: string
  ad_SSOUsername :: string
  ad_SSOEmail :: string
  ad_SSOLinkedAt :: int
  ad_UpdatedAt :: int

record sso_settings =
  sso_Enabled :: bool
  sso_IssuerURL :: string
  sso_ClientID :: string
  sso_ClientSecret :: string

record peer_row =
  pe_NodeID :: string
  pe_Label :: string
  pe_Address :: string
  pe_PairedAt :: int
  pe_LastSyncAt :: int
  pe_LastVersion :: int

record audit_event =
  au_Actor :: string
  au_Action :: string
  au_Resource :: string
  au_Details :: string
  au_IP :: string
  au_Outcome :: string

record ltables =
  lt_admin :: "admin_identity option"
  lt_sso :: "sso_settings option"
  lt_tokens :: "token list"
  lt_peers :: "peer_row list"
  lt_replica :: "(string \<times> int) option"
  lt_promotion :: "int option"
  lt_local :: "(string, string) gomap"
  lt_audit :: "audit_event list"

text \<open>What the schema puts in a new database.\<close>

definition default_sso :: sso_settings where
  "default_sso = \<lparr>sso_Enabled = False, sso_IssuerURL = ''https://auth.urlxl.com'', sso_ClientID = ''kydns'', sso_ClientSecret = []\<rparr>"

definition fresh_local :: ltables where
  "fresh_local = \<lparr>lt_admin = None, lt_sso = Some default_sso, lt_tokens = [], lt_peers = [], lt_replica = Some ([], 0),
     lt_promotion = None, lt_local = [], lt_audit = []\<rparr>"

section \<open>The admin account\<close>

definition SetAdminPassword :: "string option \<Rightarrow> int \<Rightarrow> string \<Rightarrow> ltables \<Rightarrow> (store_error, ltables) result" where
  "SetAdminPassword io now hash t = run_tx io (Inr (t\<lparr>lt_admin := Some (case lt_admin t of
       None \<Rightarrow> \<lparr>ad_PasswordHash = hash, ad_SSOSub = [], ad_SSOUsername = [], ad_SSOEmail = [], ad_SSOLinkedAt = 0, ad_UpdatedAt = now\<rparr>
     | Some a \<Rightarrow> a\<lparr>ad_PasswordHash := hash, ad_UpdatedAt := now\<rparr>)\<rparr>))"

definition no_admin :: store_error where
  "no_admin = ErrNotFound ''admin account''"

definition AdminHash :: "ltables \<Rightarrow> (store_error, string) result" where
  "AdminHash t = (case lt_admin t of None \<Rightarrow> Inl no_admin | Some a \<Rightarrow> Inr (ad_PasswordHash a))"

definition AdminIdentity :: "ltables \<Rightarrow> (store_error, admin_identity) result" where
  "AdminIdentity t = (case lt_admin t of None \<Rightarrow> Inl no_admin | Some a \<Rightarrow> Inr a)"

definition update_admin :: "string option \<Rightarrow> (admin_identity \<Rightarrow> admin_identity) \<Rightarrow> ltables \<Rightarrow> (store_error, ltables) result" where
  "update_admin io f t = run_tx io (case lt_admin t of None \<Rightarrow> Inl no_admin | Some a \<Rightarrow> Inr (t\<lparr>lt_admin := Some (f a)\<rparr>))"

definition LinkAdminSSO :: "string option \<Rightarrow> int \<Rightarrow> string \<Rightarrow> string \<Rightarrow> string \<Rightarrow> ltables \<Rightarrow> (store_error, ltables) result" where
  "LinkAdminSSO io now sub username email t =
     update_admin io (\<lambda>a. a\<lparr>ad_SSOSub := sub, ad_SSOUsername := username, ad_SSOEmail := email, ad_SSOLinkedAt := now, ad_UpdatedAt := now\<rparr>) t"

definition UnlinkAdminSSO :: "string option \<Rightarrow> int \<Rightarrow> ltables \<Rightarrow> (store_error, ltables) result" where
  "UnlinkAdminSSO io now t =
     update_admin io (\<lambda>a. a\<lparr>ad_SSOSub := [], ad_SSOUsername := [], ad_SSOEmail := [], ad_SSOLinkedAt := 0, ad_UpdatedAt := now\<rparr>) t"

definition HasAdmin :: "ltables \<Rightarrow> bool" where
  "HasAdmin t = (lt_admin t \<noteq> None)"

definition SSOSettings :: "ltables \<Rightarrow> sso_settings" where
  "SSOSettings t = (case lt_sso t of None \<Rightarrow> default_sso | Some s \<Rightarrow> s)"

definition SetSSOSettings :: "string option \<Rightarrow> sso_settings \<Rightarrow> ltables \<Rightarrow> (store_error, ltables) result" where
  "SetSSOSettings io s t = run_tx io (Inr (t\<lparr>lt_sso := Some s\<rparr>))"

section \<open>Tokens\<close>

definition PutToken :: "string option \<Rightarrow> int \<Rightarrow> token \<Rightarrow> ltables \<Rightarrow> (store_error, int \<times> ltables) result" where
  "PutToken io now tk t = run_tx io
     (if tok_Hash tk \<in> tok_Hash ` set (lt_tokens t) then Inl (ErrDB ''UNIQUE constraint failed: tokens.hash'')
      else let i = next_id (map tok_ID (lt_tokens t))
           in Inr (i, t\<lparr>lt_tokens := lt_tokens t @
                [\<lparr>tok_ID = i, tok_Label = tok_Label tk, tok_Hash = tok_Hash tk, tok_CreatedAt = now, tok_LastUsedAt = 0\<rparr>]\<rparr>))"

definition Tokens :: "ltables \<Rightarrow> token list" where
  "Tokens t = sort_key tok_ID (lt_tokens t)"

definition TouchToken :: "string option \<Rightarrow> int \<Rightarrow> int \<Rightarrow> ltables \<Rightarrow> (store_error, ltables) result" where
  "TouchToken io now i t = run_tx io
     (Inr (t\<lparr>lt_tokens := map (\<lambda>x. if tok_ID x = i then x\<lparr>tok_LastUsedAt := now\<rparr> else x) (lt_tokens t)\<rparr>))"

definition DeleteToken :: "string option \<Rightarrow> int \<Rightarrow> ltables \<Rightarrow> (store_error, ltables) result" where
  "DeleteToken io i t = run_tx io
     (if i \<notin> tok_ID ` set (lt_tokens t) then Inl (ErrNotFound (''token '' @ show_dec i))
      else Inr (t\<lparr>lt_tokens := filter (\<lambda>x. tok_ID x \<noteq> i) (lt_tokens t)\<rparr>))"

section \<open>Peers\<close>

definition update_peers :: "string \<Rightarrow> (peer_row \<Rightarrow> peer_row) \<Rightarrow> ltables \<Rightarrow> ltables" where
  "update_peers n f t = t\<lparr>lt_peers := map (\<lambda>x. if pe_NodeID x = n then f x else x) (lt_peers t)\<rparr>"

definition PairPeer :: "string option \<Rightarrow> peer_row \<Rightarrow> ltables \<Rightarrow> (store_error, ltables) result" where
  "PairPeer io p t = run_tx io (Inr
     (if pe_NodeID p \<in> pe_NodeID ` set (lt_peers t)
      then update_peers (pe_NodeID p) (\<lambda>x. x\<lparr>pe_Address := pe_Address p, pe_PairedAt := pe_PairedAt p\<rparr>) t
      else t\<lparr>lt_peers := lt_peers t @ [p]\<rparr>))"

definition Peers :: "ltables \<Rightarrow> peer_row list" where
  "Peers t = sort_key (\<lambda>p. (pe_Label p, pe_NodeID p)) (lt_peers t)"

definition Peer :: "string \<Rightarrow> ltables \<Rightarrow> (store_error, peer_row) result" where
  "Peer n t = (case find (\<lambda>p. pe_NodeID p = n) (lt_peers t) of None \<Rightarrow> Inl (ErrNotFound (''peer '' @ n)) | Some p \<Rightarrow> Inr p)"

definition DeletePeer :: "string option \<Rightarrow> string \<Rightarrow> ltables \<Rightarrow> (store_error, ltables) result" where
  "DeletePeer io n t = run_tx io
     (if n \<notin> pe_NodeID ` set (lt_peers t) then Inl (ErrNotFound (''peer '' @ n))
      else Inr (t\<lparr>lt_peers := filter (\<lambda>p. pe_NodeID p \<noteq> n) (lt_peers t)\<rparr>))"

definition TouchPeer :: "string option \<Rightarrow> string \<Rightarrow> int \<Rightarrow> int option \<Rightarrow> ltables \<Rightarrow> (store_error, ltables) result" where
  "TouchPeer io n syncedAt version t = run_tx io
     (if n \<notin> pe_NodeID ` set (lt_peers t) then Inl (ErrNotFound (''peer '' @ n))
      else Inr (update_peers n (\<lambda>p. p\<lparr>pe_LastSyncAt := syncedAt,
             pe_LastVersion := (case version of None \<Rightarrow> pe_LastVersion p | Some v \<Rightarrow> v)\<rparr>) t))"

section \<open>What this node follows\<close>

definition ReplicaState :: "ltables \<Rightarrow> string \<times> int" where
  "ReplicaState t = (case lt_replica t of None \<Rightarrow> ([], 0) | Some s \<Rightarrow> s)"

definition SetReplicaState :: "string option \<Rightarrow> string \<Rightarrow> int \<Rightarrow> ltables \<Rightarrow> (store_error, ltables) result" where
  "SetReplicaState io n v t = run_tx io (Inr (t\<lparr>lt_replica := Some (n, v)\<rparr>))"

definition Promotion :: "ltables \<Rightarrow> int" where
  "Promotion t = (case lt_promotion t of None \<Rightarrow> 0 | Some at \<Rightarrow> at)"

definition RecordPromotion :: "string option \<Rightarrow> int \<Rightarrow> ltables \<Rightarrow> (store_error, ltables) result" where
  "RecordPromotion io at t = run_tx io (Inr (t\<lparr>lt_promotion := Some at\<rparr>))"

definition FollowPrimary :: "string option \<Rightarrow> string \<Rightarrow> int \<Rightarrow> ltables \<Rightarrow> (store_error, ltables) result" where
  "FollowPrimary io n v t = run_tx io (Inr (t\<lparr>lt_replica := Some (n, v), lt_promotion := None\<rparr>))"

section \<open>Local settings and the audit trail\<close>

definition GetLocalSetting :: "string \<Rightarrow> ltables \<Rightarrow> (store_error, string) result" where
  "GetLocalSetting k t = (case m_get (lt_local t) k of None \<Rightarrow> Inl (ErrNotFound []) | Some v \<Rightarrow> Inr v)"

definition SetLocalSetting :: "string option \<Rightarrow> string \<Rightarrow> string \<Rightarrow> ltables \<Rightarrow> (store_error, ltables) result" where
  "SetLocalSetting io k v t = run_tx io (Inr (t\<lparr>lt_local := m_put k v (lt_local t)\<rparr>))"

definition DeleteLocalSetting :: "string option \<Rightarrow> string \<Rightarrow> ltables \<Rightarrow> (store_error, ltables) result" where
  "DeleteLocalSetting io k t = run_tx io (Inr (t\<lparr>lt_local := m_del k (lt_local t)\<rparr>))"

definition RecordAudit :: "string option \<Rightarrow> audit_event \<Rightarrow> ltables \<Rightarrow> (store_error, ltables) result" where
  "RecordAudit io e t = run_tx io (Inr (t\<lparr>lt_audit := lt_audit t @ [e]\<rparr>))"

end
