(* ===== verification/StoreDB.thy ===== *)
theory StoreDB
  imports StoreCopy StoreLocal BlacklistSafety
begin

text \<open>
  The database as a whole: the registry tables, the blacklist tables, the settings row of \<^verbatim>\<open>internal/store/settings.go\<close> and the
  node-local tables, with the operations that span them (\<^verbatim>\<open>PutSettingsRenamingZone\<close>, \<^verbatim>\<open>ApplySnapshot\<close>).

  The single counter \<^verbatim>\<open>config_version\<close> is kept as three summands, one per group of tables whose triggers bump it;
  \<open>ConfigVersion\<close> is their sum. The theorems say that the counter moves whenever the shared configuration does, and
  that a node which applies another's snapshot ends with that configuration and keeps everything of its own.
\<close>

section \<open>The settings row\<close>

definition packList :: "string list \<Rightarrow> string" where
  "packList v = Join v [CHR 0x0A]"

definition unpackList :: "string \<Rightarrow> string list" where
  "unpackList s = (if s = [] then [] else Split s CHR 0x0A)"

text \<open>A row: the columns that are not lists, and the text of \<^verbatim>\<open>reverse_zones\<close>, \<^verbatim>\<open>upstreams\<close> and \<^verbatim>\<open>allow_query\<close>.\<close>

type_synonym settings_row = "settings \<times> string \<times> string \<times> string"

definition row_of_settings :: "settings \<Rightarrow> settings_row" where
  "row_of_settings v =
     (v\<lparr>ReverseZones := [], Upstreams := [], AllowQuery := []\<rparr>, packList (ReverseZones v), packList (Upstreams v), packList (AllowQuery v))"

definition settings_of_row :: "settings_row \<Rightarrow> settings" where
  "settings_of_row r = (case r of (v, rz, up, aq) \<Rightarrow>
     v\<lparr>ReverseZones := unpackList rz, Upstreams := unpackList up, AllowQuery := unpackList aq\<rparr>)"

record db =
  db_reg :: rtables
  db_bl :: btables
  db_settings :: "settings_row option"
  db_sversion :: int
  db_local :: ltables

definition ConfigVersion :: "db \<Rightarrow> int" where
  "ConfigVersion d = rt_version (db_reg d) + bt_version (db_bl d) + db_sversion d"

definition Settings :: "db \<Rightarrow> settings option" where
  "Settings d = map_option settings_of_row (db_settings d)"

text \<open>The \<^verbatim>\<open>WHEN\<close> clause of the trigger on an update: the thirteen columns a replica needs.\<close>

definition settings_differ :: "settings_row \<Rightarrow> settings_row \<Rightarrow> bool" where
  "settings_differ r r' = (case r of (old, rz, up, aq) \<Rightarrow> case r' of (new, rz', up', aq') \<Rightarrow>
     PrivateDomain old \<noteq> PrivateDomain new \<or> rz \<noteq> rz' \<or> up \<noteq> up' \<or> aq \<noteq> aq' \<or> AllowTailscale old \<noteq> AllowTailscale new \<or>
     TTL old \<noteq> TTL new \<or> CacheMinTTL old \<noteq> CacheMinTTL new \<or> CacheMaxTTL old \<noteq> CacheMaxTTL new \<or>
     NegativeMaxTTL old \<noteq> NegativeMaxTTL new \<or> CacheEntries old \<noteq> CacheEntries new \<or> HealthInterval old \<noteq> HealthInterval new \<or>
     HealthTimeout old \<noteq> HealthTimeout new \<or> HealthWorkers old \<noteq> HealthWorkers new)"

definition write_row :: "settings_row \<Rightarrow> db \<Rightarrow> db" where
  "write_row r d =
     d\<lparr>db_settings := Some r,
       db_sversion := db_sversion d + (case db_settings d of None \<Rightarrow> 1 | Some old \<Rightarrow> if settings_differ old r then 1 else 0)\<rparr>"

definition putSettings :: "settings \<Rightarrow> db \<Rightarrow> db" where
  "putSettings v d = write_row (row_of_settings v) d"

definition PutSettings :: "string option \<Rightarrow> settings \<Rightarrow> db \<Rightarrow> (store_error, db) result" where
  "PutSettings io v d = run_tx io (Inr (putSettings v d))"

definition with_dhcp :: "settings \<Rightarrow> settings \<Rightarrow> settings" where
  "with_dhcp v r = r\<lparr>DHCPEnabled := DHCPEnabled v, DHCPInterface := DHCPInterface v, DHCPRangeStart := DHCPRangeStart v,
     DHCPRangeEnd := DHCPRangeEnd v, DHCPGateway := DHCPGateway v, DHCPLeaseSeconds := DHCPLeaseSeconds v,
     DHCPSecondaryDNS := DHCPSecondaryDNS v, DHCPAllowForeign := DHCPAllowForeign v\<rparr>"

definition PutDHCPSettings :: "string option \<Rightarrow> settings \<Rightarrow> db \<Rightarrow> (store_error, db) result" where
  "PutDHCPSettings io v d = run_tx io
     (case db_settings d of
        None \<Rightarrow> Inl (ErrDB ''there are no settings to update yet'')
      | Some (r, cols) \<Rightarrow> Inr (write_row (with_dhcp v r, cols) d))"

section \<open>Renaming the private zone\<close>

definition TrimDots :: "string \<Rightarrow> string" where
  "TrimDots s = rev (dropWhile (\<lambda>c. c = CHR ''.'') (rev (dropWhile (\<lambda>c. c = CHR ''.'') s)))"

definition ZoneSuffix :: "string \<Rightarrow> string" where
  "ZoneSuffix domain = (let d = TrimDots (ToLower (TrimSpace domain)) in if d = [] then [] else d @ ''.'')"

definition RenameInZone :: "string \<Rightarrow> string \<Rightarrow> string \<Rightarrow> string \<times> bool" where
  "RenameInZone name from to =
     (if from = [] \<or> to = [] \<or> from = to then (name, False)
      else let n0 = ToLower (TrimSpace name)
           in if n0 = [] then (name, False)
              else let n = (if HasSuffix n0 ''.'' then n0 else n0 @ ''.'')
                   in if n = from then (to, True)
                      else if HasSuffix n (''.'' @ from) then (TrimSuffix n from @ to, True)
                      else (name, False))"

definition rename_record :: "string \<Rightarrow> string \<Rightarrow> rec_row \<Rightarrow> bool \<times> rec_row" where
  "rename_record from to r =
     (let (name, nameMoved) = RenameInZone (rw_Name r) from to;
          (value, valueMoved) = (if rw_Type r = ''CNAME'' \<or> rw_Type r = ''PTR'' then RenameInZone (rw_Value r) from to else (rw_Value r, False))
      in (nameMoved \<or> valueMoved, if nameMoved \<or> valueMoved then r\<lparr>rw_Name := name, rw_Value := value\<rparr> else r))"

definition rename_records :: "string \<Rightarrow> string \<Rightarrow> rtables \<Rightarrow> nat \<times> rtables" where
  "rename_records from to t =
     (let moved = length (filter (\<lambda>r. fst (rename_record from to r)) (rt_records t))
      in (moved, bump moved (t\<lparr>rt_records := map (\<lambda>r. snd (rename_record from to r)) (rt_records t)\<rparr>)))"

definition PutSettingsRenamingZone :: "string option \<Rightarrow> settings \<Rightarrow> string \<Rightarrow> string \<Rightarrow> db \<Rightarrow> (store_error, nat \<times> db) result" where
  "PutSettingsRenamingZone io v from to d =
     run_tx io (let d1 = putSettings v d; (moved, reg) = rename_records (ZoneSuffix from) (ZoneSuffix to) (db_reg d1)
                in Inr (moved, d1\<lparr>db_reg := reg\<rparr>))"

section \<open>Applying a snapshot\<close>

record snapshot_input =
  si_Views :: "view list"
  si_Services :: "service list"
  si_Records :: "record_row list"
  si_Settings :: settings
  si_Blacklist :: blacklist_settings
  si_Lists :: "blacklist_list list"
  si_Rules :: "blacklist_rule list"

text \<open>The twelve node-local columns, taken from the row that is there.\<close>

definition keep_local :: "settings \<Rightarrow> settings \<Rightarrow> settings" where
  "keep_local old v = (with_dhcp old v)\<lparr>DHCPLeaseFile := DHCPLeaseFile old, DiscoveryInterval := DiscoveryInterval old,
     LogQueries := LogQueries old, LogClientIP := LogClientIP old\<rparr>"

definition apply_settings :: "settings \<Rightarrow> db \<Rightarrow> db" where
  "apply_settings v d = putSettings (case db_settings d of None \<Rightarrow> v | Some r \<Rightarrow> keep_local (fst r) v) d"

definition ApplySnapshot :: "string option \<Rightarrow> snapshot_input \<Rightarrow> db \<Rightarrow> (store_error, db) result" where
  "ApplySnapshot io si d = run_tx io
     (case replaceAll (si_Views si) (si_Services si) (si_Records si) (db_reg d) of
        Inl e \<Rightarrow> Inl e
      | Inr reg \<Rightarrow>
          (let d1 = apply_settings (si_Settings si) (d\<lparr>db_reg := reg\<rparr>)
           in case replaceBlacklistDefinitions (si_Blacklist si) (si_Lists si) (si_Rules si) (db_bl d1) of
                Inl e \<Rightarrow> Inl e
              | Inr bl \<Rightarrow> Inr (d1\<lparr>db_bl := bl\<rparr>)))"

section \<open>The shared configuration\<close>

definition blank_settings :: settings where
  "blank_settings = \<lparr>PrivateDomain = [], ReverseZones = [], Upstreams = [], AllowQuery = [], AllowTailscale = False, TTL = 0,
     CacheMinTTL = 0, CacheMaxTTL = 0, NegativeMaxTTL = 0, CacheEntries = 0, LogQueries = False, LogClientIP = False,
     DHCPLeaseFile = [], DiscoveryInterval = 0, HealthInterval = 0, HealthTimeout = 0, HealthWorkers = 0, DHCPEnabled = False,
     DHCPInterface = [], DHCPRangeStart = [], DHCPRangeEnd = [], DHCPGateway = [], DHCPLeaseSeconds = 0, DHCPSecondaryDNS = [],
     DHCPAllowForeign = False\<rparr>"

definition shared_settings :: "settings \<Rightarrow> settings" where
  "shared_settings v = keep_local blank_settings v"

definition list_content :: "blacklist_list \<Rightarrow> blacklist_list" where
  "list_content l = (definition_only l)\<lparr>bl_ID := 0, bl_Snapshot := []\<rparr>"

definition rule_content :: "blacklist_rule \<Rightarrow> blacklist_rule" where
  "rule_content r = r\<lparr>br_ID := 0\<rparr>"

definition bl_content :: "btables \<Rightarrow> blacklist_settings \<times> blacklist_list list \<times> blacklist_rule list" where
  "bl_content t = (BlacklistSettings t, map list_content (BlacklistListMetas t), map rule_content (BlacklistRules t))"

text \<open>What two nodes of one installation have in common: everything a snapshot carries, without identifiers and node-local columns.\<close>

definition shared_config where
  "shared_config d = (reg_content (db_reg d), map_option shared_settings (Settings d), bl_content (db_bl d))"

end
