(* ===== verification/StoreSync.thy ===== *)
theory StoreSync
  imports StoreDB
begin

text \<open>
  What the store promises replication. Applying the snapshot of one database to another makes the shared configuration
  of the two equal and leaves what is local to the second alone; and the configuration version of a database moves
  with every write that changes the shared configuration, and with nothing that a replica need not hear of.
\<close>

section \<open>Lists with distinct keys\<close>

lemma sorted_key_unique:
  fixes k :: "'a \<Rightarrow> 'b :: linorder"
  assumes "sorted_wrt (<) (map k xs)" and "sorted_wrt (<) (map k ys)" and "set xs = set ys"
  shows "xs = ys"
proof -
  have "map k xs = map k ys" using assms by (metis strict_sorted_equal set_map)
  moreover have "inj_on k (set xs \<union> set ys)" using assms by (auto simp: strict_sorted_iff distinct_map)
  ultimately show ?thesis by (rule map_inj_on)
qed

lemma strict_sorted_sort_key:
  "inj_on k (set xs) \<Longrightarrow> distinct xs \<Longrightarrow> sorted_wrt (<) (map k (sort_key k xs))"
  by (simp add: strict_sorted_iff distinct_map)

lemma insort_key_map:
  "(\<And>y. y \<in> set (x # ys) \<Longrightarrow> k (g y) = k y) \<Longrightarrow> insort_key k (g x) (map g ys) = map g (insort_key k x ys)"
  by (induction ys) auto

lemma sort_key_map: "(\<And>x. x \<in> set xs \<Longrightarrow> k (g x) = k x) \<Longrightarrow> sort_key k (map g xs) = map g (sort_key k xs)"
proof (induction xs)
  case (Cons x xs)
  then show ?case using insort_key_map [of x "sort_key k xs" k g] by simp
qed simp

section \<open>Copying the lists\<close>

definition list_key :: "blacklist_list \<Rightarrow> int \<times> string" where
  "list_key l = (if bl_Builtin l then 0 else 1, bl_Name l)"

lemma list_content_sel [simp]:
  "bl_Name (list_content l) = bl_Name l" "bl_Builtin (list_content l) = bl_Builtin l" "bl_URL (list_content l) = bl_URL l"
  by (simp_all add: list_content_def definition_only_def)

lemma list_content_idem [simp]: "list_content (list_content l) = list_content l"
  by (simp add: list_content_def definition_only_def)

definition metas :: "btables \<Rightarrow> blacklist_list list" where
  "metas t = map list_content (BlacklistListMetas t)"

lemma metas_eq: "metas t = map (\<lambda>r. list_content (fst r)) (sort_key (\<lambda>r. list_key (fst r)) (bt_lists t))"
  by (simp add: metas_def BlacklistListMetas_def blacklistLists_def scanList_def list_content_def definition_only_def list_key_def)

definition names_ok :: "btables \<Rightarrow> bool" where
  "names_ok t = (distinct (map row_name (bt_lists t)) \<and> distinct (map row_id (bt_lists t)))"

lemma metas_sorted:
  assumes "names_ok t"
  shows "sorted_wrt (<) (map list_key (metas t))"
proof -
  have d: "distinct (bt_lists t)" and i: "inj_on row_name (set (bt_lists t))" using assms by (auto simp: names_ok_def distinct_map)
  have "inj_on (\<lambda>r. list_key (fst r)) (set (bt_lists t))" using i by (auto simp: inj_on_def list_key_def)
  from strict_sorted_sort_key [OF this d] show ?thesis by (simp add: metas_eq list_key_def comp_def)
qed

lemma set_metas: "set (metas t) = (\<lambda>r. list_content (fst r)) ` set (bt_lists t)"
  by (simp add: metas_eq)

lemma metas_names: "names_ok t \<Longrightarrow> distinct (map bl_Name (BlacklistListMetas t))"
  by (auto simp: names_ok_def BlacklistListMetas_def blacklistLists_def scanList_def comp_def distinct_map)

lemma metas_unique:
  assumes "names_ok t" and "names_ok p" and "\<And>r. r \<in> set (bt_lists t) \<Longrightarrow> list_content (fst r) \<in> set (metas p)"
    and "\<And>l. l \<in> set (metas p) \<Longrightarrow> bl_Name l \<in> row_name ` set (bt_lists t)"
  shows "metas t = metas p"
proof (rule sorted_key_unique [where k = list_key])
  have "l \<in> set (metas t)" if l: "l \<in> set (metas p)" for l
  proof -
    obtain r where r: "r \<in> set (bt_lists t)" "row_name r = bl_Name l" using assms(4) [OF l] by force
    have "inj_on bl_Name (set (metas p))" using assms(2) by (auto simp: inj_on_def set_metas names_ok_def distinct_map)
    then have "list_content (fst r) = l" using assms(3) [OF r(1)] l r(2) by (metis inj_onD list_content_sel(1))
    then show ?thesis using r(1) by (auto simp: set_metas)
  qed
  then show "set (metas t) = set (metas p)" using assms(3) by (auto simp: set_metas [of t])
qed (use assms metas_sorted in auto)

lemma content_redefine:
  "row_name r = bl_Name l \<Longrightarrow> list_content (fst (redefine l r)) = list_content l"
  by (cases l; cases "fst r") (simp add: redefine_def Let_def list_content_def definition_only_def)

lemma row_name_redefine [simp]: "row_name (redefine l r) = row_name r"
  by (simp add: redefine_def Let_def definition_only_def)

definition redefined :: "blacklist_list list \<Rightarrow> btables \<Rightarrow> btables \<Rightarrow> bool" where
  "redefined ls t t1 =
     (names_ok t1 \<and> names_of t1 = names_of t \<union> bl_Name ` set ls \<and> bt_rules t1 = bt_rules t \<and> bt_settings t1 = bt_settings t \<and>
      (\<forall>r \<in> set (bt_lists t1). if row_name r \<in> bl_Name ` set ls then list_content (fst r) \<in> list_content ` set ls else r \<in> set (bt_lists t)))"

lemma row_id_redefine [simp]: "row_id (redefine l r) = row_id r"
  by (simp add: redefine_def Let_def definition_only_def)

lemma update_lists_names: "(\<And>r. row_name (f r) = row_name r) \<Longrightarrow> map row_name (bt_lists (update_lists P f t)) = map row_name (bt_lists t)"
  by (simp add: update_lists_def)

lemma update_lists_ids: "(\<And>r. row_id (f r) = row_id r) \<Longrightarrow> map row_id (bt_lists (update_lists P f t)) = map row_id (bt_lists t)"
  by (simp add: update_lists_def)

lemma names_ok_insert: "names_ok t \<Longrightarrow> bl_Name l \<notin> names_of t \<Longrightarrow> names_ok (snd (insert_list l body t))"
  using next_id_fresh [of "map row_id (bt_lists t)"] by (simp add: names_ok_def names_of_def insert_list_def Let_def)

lemma redefine_step_old:
  assumes "names_ok t" and "bl_Name l \<in> names_of t"
  shows "redefined [l] t (update_lists (\<lambda>r. row_name r = bl_Name l) (redefine l) t)"
proof -
  let ?t1 = "update_lists (\<lambda>r. row_name r = bl_Name l) (redefine l) t"
  have n: "map row_name (bt_lists ?t1) = map row_name (bt_lists t)" by (rule update_lists_names) simp
  then have "names_of ?t1 = names_of t" unfolding names_of_def by (metis set_map)
  moreover have "map row_id (bt_lists ?t1) = map row_id (bt_lists t)" by (rule update_lists_ids) simp
  then have "names_ok ?t1" using assms(1) n by (simp add: names_ok_def del: map_map)
  ultimately show ?thesis using assms(2)
    by (auto simp: redefined_def update_lists_def content_redefine split: if_splits)
qed

lemma redefine_step_new:
  assumes "names_ok t" and "bl_Name l \<notin> names_of t"
  shows "redefined [l] t (snd (insert_list (definition_only l) [] t))"
proof -
  have "bl_Name (definition_only l) = bl_Name l" by (simp add: definition_only_def)
  then have "names_ok (snd (insert_list (definition_only l) [] t))" using assms names_ok_insert by metis
  then show ?thesis using assms(2)
    by (auto simp: redefined_def names_of_def insert_list_def Let_def list_content_def definition_only_def) (metis fst_conv imageI)
qed

lemma redefined_trans:
  assumes "redefined [l] t u" and "redefined ls u w" and "bl_Name l \<notin> bl_Name ` set ls"
  shows "redefined (l # ls) t w"
  unfolding redefined_def
proof (intro conjI ballI)
  fix r assume r: "r \<in> set (bt_lists w)"
  show "if row_name r \<in> bl_Name ` set (l # ls) then list_content (fst r) \<in> list_content ` set (l # ls) else r \<in> set (bt_lists t)"
  proof (cases "row_name r \<in> bl_Name ` set ls")
    case True
    then show ?thesis using assms(2) r by (auto simp: redefined_def)
  next
    case False
    then have "r \<in> set (bt_lists u)" using assms(2) r by (auto simp: redefined_def)
    then show ?thesis using False assms(1) by (auto simp: redefined_def)
  qed
qed (use assms in \<open>auto simp: redefined_def\<close>)

lemma redefine_lists_copies:
  "names_ok t \<Longrightarrow> distinct (map bl_Name ls) \<Longrightarrow> (\<forall>l \<in> set ls. bl_Name l \<in> set existing \<longleftrightarrow> bl_Name l \<in> names_of t) \<Longrightarrow>
   \<exists>t1. redefine_lists existing ls t = Inr t1 \<and> redefined ls t t1"
proof (induction ls arbitrary: t)
  case Nil
  then show ?case by (simp add: redefined_def)
next
  case (Cons l ls)
  define u where "u = (if bl_Name l \<in> set existing then update_lists (\<lambda>r. row_name r = bl_Name l) (redefine l) t
    else snd (insert_list (definition_only l) [] t))"
  have u: "redefined [l] t u" using Cons.prems by (auto simp: u_def redefine_step_old redefine_step_new)
  have "redefine_lists existing (l # ls) t = redefine_lists existing ls u"
    using Cons.prems by (auto simp: u_def name_clash)
  moreover have "\<exists>t1. redefine_lists existing ls u = Inr t1 \<and> redefined ls u t1"
  proof (rule Cons.IH)
    show "\<forall>k \<in> set ls. bl_Name k \<in> set existing \<longleftrightarrow> bl_Name k \<in> names_of u"
    proof
      fix k assume k: "k \<in> set ls"
      then have "bl_Name k \<noteq> bl_Name l" using Cons.prems(2) by (auto simp: image_iff)
      then show "bl_Name k \<in> set existing \<longleftrightarrow> bl_Name k \<in> names_of u" using Cons.prems(3) u k by (simp add: redefined_def)
    qed
  qed (use Cons.prems u in \<open>simp_all add: redefined_def\<close>)
  ultimately show ?case using redefined_trans [OF u] Cons.prems(2) by auto
qed

section \<open>Copying the rules\<close>

definition rule_key :: "blacklist_rule \<Rightarrow> string \<times> string" where
  "rule_key r = (br_Kind r, br_Domain r)"

lemma rule_content_eq: "rule_content r = \<lparr>br_ID = 0, br_Kind = br_Kind r, br_Domain = br_Domain r\<rparr>"
  by (cases r) (simp add: rule_content_def)

lemma insert_rules_copies:
  "distinct (map br_Domain rs) \<Longrightarrow> br_Domain ` set rs \<inter> br_Domain ` set (bt_rules t) = {} \<Longrightarrow>
   \<exists>t'. insert_rules rs t = Inr t' \<and> map rule_content (bt_rules t') = map rule_content (bt_rules t) @ map rule_content rs \<and>
     bt_lists t' = bt_lists t \<and> bt_settings t' = bt_settings t"
proof (induction rs arbitrary: t)
  case (Cons r rs)
  let ?new = "\<lparr>br_ID = next_id (map br_ID (bt_rules t)), br_Kind = br_Kind r, br_Domain = br_Domain r\<rparr>"
  let ?u = "t\<lparr>bt_rules := bt_rules t @ [?new], bt_version := bt_version t + 1\<rparr>"
  have ins: "insert_rule r t = Inr (br_ID ?new, ?u)"
    using Cons.prems by (auto simp: insert_rule_def Let_def list_ex_iff) (metis imageI)
  have "\<exists>t'. insert_rules rs ?u = Inr t' \<and> map rule_content (bt_rules t') = map rule_content (bt_rules ?u) @ map rule_content rs \<and>
     bt_lists t' = bt_lists ?u \<and> bt_settings t' = bt_settings ?u"
    by (rule Cons.IH) (use Cons.prems in auto)
  moreover have "rule_content ?new = rule_content r" by (simp add: rule_content_eq)
  ultimately show ?case using ins by auto
qed simp

lemma rules_content_sorted:
  assumes "distinct (map br_Domain (bt_rules t))"
  shows "sorted_wrt (<) (map rule_key (map rule_content (BlacklistRules t)))"
proof -
  have "inj_on rule_key (set (bt_rules t))" "distinct (bt_rules t)" using assms by (auto simp: distinct_map inj_on_def rule_key_def)
  from strict_sorted_sort_key [OF this] show ?thesis
    by (simp add: BlacklistRules_def rule_key_def [abs_def] rule_content_def comp_def)
qed

lemma rules_unique:
  assumes "map rule_content (bt_rules t) = map rule_content (BlacklistRules p)" and "distinct (map br_Domain (bt_rules p))"
  shows "map rule_content (BlacklistRules t) = map rule_content (BlacklistRules p)"
proof -
  have "map br_Domain (bt_rules t) = map br_Domain (map rule_content (bt_rules t))" by (simp add: rule_content_def)
  also have "\<dots> = map br_Domain (BlacklistRules p)" by (simp add: assms(1)) (simp add: rule_content_def)
  finally have "distinct (map br_Domain (bt_rules t))" using assms(2) by (auto simp: BlacklistRules_def distinct_map)
  then show ?thesis
  proof (intro sorted_key_unique [where k = rule_key] rules_content_sorted assms(2))
    show "set (map rule_content (BlacklistRules t)) = set (map rule_content (BlacklistRules p))"
      using arg_cong [OF assms(1), of set] by (simp add: BlacklistRules_def)
  qed
qed

definition bl_keys_ok :: "btables \<Rightarrow> bool" where
  "bl_keys_ok t = (names_ok t \<and> distinct (map br_Domain (bt_rules t)) \<and> bt_settings t \<noteq> None)"

lemma replaceBlacklist_copies:
  assumes "bl_keys_ok p" and "bl_keys_ok t"
  shows "\<exists>t'. replaceBlacklistDefinitions (BlacklistSettings p) (BlacklistListMetas p) (BlacklistRules p) t = Inr t' \<and>
    bl_content t' = bl_content p \<and> bl_keys_ok t'"
proof -
  let ?ls = "BlacklistListMetas p" and ?t0 = "put_settings (BlacklistSettings p) t" and ?existing = "map row_name (bt_lists t)"
  have lists: "bt_lists ?t0 = bt_lists t" and names0: "names_of ?t0 = names_of t" by (simp_all add: put_settings_def names_of_def)
  have dn: "distinct (map bl_Name ?ls)" using metas_names assms(1) by (simp add: bl_keys_ok_def)
  have "\<exists>t1. redefine_lists ?existing ?ls ?t0 = Inr t1 \<and> redefined ?ls ?t0 t1"
    by (rule redefine_lists_copies) (use assms(2) dn lists names0 in \<open>auto simp: bl_keys_ok_def names_ok_def names_of_def\<close>)
  then obtain t1 where t1: "redefine_lists ?existing ?ls ?t0 = Inr t1" "redefined ?ls ?t0 t1" by blast
  let ?gone = "\<lambda>r. row_name r \<in> set ?existing \<and> row_name r \<notin> bl_Name ` set ?ls"
  let ?t2 = "delete_rules (\<lambda>_. True) (delete_lists ?gone t1)"
  have "\<exists>t'. insert_rules (BlacklistRules p) ?t2 = Inr t' \<and>
      map rule_content (bt_rules t') = map rule_content (bt_rules ?t2) @ map rule_content (BlacklistRules p) \<and>
      bt_lists t' = bt_lists ?t2 \<and> bt_settings t' = bt_settings ?t2"
    by (rule insert_rules_copies) (use assms(1) in \<open>auto simp: bl_keys_ok_def BlacklistRules_def delete_rules_def distinct_map\<close>)
  then obtain t' where t': "insert_rules (BlacklistRules p) ?t2 = Inr t'"
    "map rule_content (bt_rules t') = map rule_content (BlacklistRules p)" "bt_lists t' = filter (\<lambda>r. \<not> ?gone r) (bt_lists t1)"
    "bt_settings t' = Some (BlacklistSettings p)"
    using t1(2) by (auto simp: delete_rules_def delete_lists_def redefined_def put_settings_def)
  note red = t1(2) [unfolded redefined_def names0 lists]
  have kept: "row_name r \<in> bl_Name ` set ?ls" if "r \<in> set (bt_lists t')" for r
  proof (rule ccontr)
    assume no: "row_name r \<notin> bl_Name ` set ?ls"
    have "r \<in> set (bt_lists t1)" using that t'(3) by simp
    then have "r \<in> set (bt_lists t)" using red no by auto
    then show False using that t'(3) no by auto
  qed
  have "metas t' = metas p"
  proof (rule metas_unique)
    show "names_ok t'" using red by (simp add: names_ok_def t'(3) distinct_map_filter)
    show "names_ok p" using assms(1) by (simp add: bl_keys_ok_def)
    show "list_content (fst r) \<in> set (metas p)" if "r \<in> set (bt_lists t')" for r
      using kept [OF that] red that by (auto simp: t'(3) metas_def)
    show "bl_Name l \<in> row_name ` set (bt_lists t')" if "l \<in> set (metas p)" for l
    proof -
      have "bl_Name l \<in> bl_Name ` set ?ls" using that by (auto simp: metas_def)
      moreover from this have "bl_Name l \<in> names_of t1" using red by blast
      then obtain r where "r \<in> set (bt_lists t1)" "row_name r = bl_Name l" by (auto simp: names_of_def)
      ultimately have "r \<in> set (bt_lists t')" by (simp add: t'(3))
      then show ?thesis using \<open>row_name r = bl_Name l\<close> by (metis imageI)
    qed
  qed
  moreover have "map rule_content (BlacklistRules t') = map rule_content (BlacklistRules p)"
    using t'(2) assms(1) by (auto simp: bl_keys_ok_def intro: rules_unique)
  moreover have "distinct (map br_Domain (bt_rules t'))"
  proof -
    have "map br_Domain (bt_rules t') = map br_Domain (map rule_content (bt_rules t'))" by (simp add: rule_content_def)
    also have "\<dots> = map br_Domain (BlacklistRules p)" by (simp add: t'(2)) (simp add: rule_content_def)
    finally show ?thesis using assms(1) by (auto simp: bl_keys_ok_def BlacklistRules_def distinct_map)
  qed
  ultimately show ?thesis
    using t1(1) t' red by (auto simp: replaceBlacklistDefinitions_def bl_content_def metas_def bl_keys_ok_def
        BlacklistSettings_def names_ok_def distinct_map_filter split: option.splits)
qed


section \<open>Copying a database\<close>

definition db_ok :: "db \<Rightarrow> bool" where
  "db_ok d = (reg_ok (db_reg d) \<and> bl_keys_ok (db_bl d))"

text \<open>The snapshot of a database with settings \<open>s\<close>, all of it read at one moment.\<close>

definition snapshot_of :: "settings \<Rightarrow> db \<Rightarrow> snapshot_input" where
  "snapshot_of s d = \<lparr>si_Views = Views (db_reg d), si_Services = services_of (db_reg d), si_Records = Records (db_reg d), si_Settings = s,
     si_Blacklist = BlacklistSettings (db_bl d), si_Lists = BlacklistListMetas (db_bl d), si_Rules = BlacklistRules (db_bl d)\<rparr>"

lemma unpack_pack: "unpackList (packList (unpackList s)) = unpackList s"
  by (simp add: unpackList_def packList_def Join_Split)

lemma settings_of_row_eq:
  "settings_of_row r = (fst r)\<lparr>ReverseZones := unpackList (fst (snd r)), Upstreams := unpackList (fst (snd (snd r))), AllowQuery := unpackList (snd (snd (snd r)))\<rparr>"
  by (cases r) (simp add: settings_of_row_def)

lemma keep_local_row: "keep_local (settings_of_row r) v = keep_local (fst r) v"
  by (simp add: settings_of_row_eq keep_local_def with_dhcp_def)

lemma rewrite_settings:
  assumes "s = settings_of_row q"
  shows "settings_of_row (row_of_settings s) = s" and "settings_of_row (row_of_settings (keep_local own s)) = keep_local own s"
  using assms by (simp_all add: settings_of_row_eq row_of_settings_def keep_local_def with_dhcp_def unpack_pack)

lemma shared_keep_local [simp]: "shared_settings (keep_local own s) = shared_settings s"
  by (simp add: shared_settings_def keep_local_def with_dhcp_def)

lemma apply_settings_sel [simp]:
  "db_reg (apply_settings v d) = db_reg d" "db_bl (apply_settings v d) = db_bl d" "db_local (apply_settings v d) = db_local d"
  by (simp_all add: apply_settings_def putSettings_def write_row_def)

lemma Settings_apply:
  assumes "s = settings_of_row q"
  shows "Settings (apply_settings s d) = Some (case Settings d of None \<Rightarrow> s | Some own \<Rightarrow> keep_local own s)"
  using rewrite_settings [OF assms]
  by (auto simp: Settings_def apply_settings_def putSettings_def write_row_def keep_local_row split: option.splits)

lemma ApplySnapshot_copies:
  assumes "db_ok p" and "db_ok r" and "Settings p = Some s"
  shows "\<exists>r'. ApplySnapshot None (snapshot_of s p) r = Inr r' \<and> shared_config r' = shared_config p \<and> db_ok r' \<and> db_local r' = db_local r \<and>
    Settings r' = Some (case Settings r of None \<Rightarrow> s | Some own \<Rightarrow> keep_local own s)"
proof -
  obtain q where q: "s = settings_of_row q" using assms(3) by (auto simp: Settings_def)
  obtain reg where reg: "replaceAll (Views (db_reg p)) (services_of (db_reg p)) (Records (db_reg p)) (db_reg r) = Inr reg"
    "reg_content reg = reg_content (db_reg p)"
    using replaceAll_copies assms(1) by (auto simp: db_ok_def)
  let ?d1 = "apply_settings s (r\<lparr>db_reg := reg\<rparr>)"
  obtain bl where bl: "replaceBlacklistDefinitions (BlacklistSettings (db_bl p)) (BlacklistListMetas (db_bl p)) (BlacklistRules (db_bl p)) (db_bl ?d1) = Inr bl"
    "bl_content bl = bl_content (db_bl p)" "bl_keys_ok bl"
    using replaceBlacklist_copies assms(1,2) by (auto simp: db_ok_def)
  let ?r' = "?d1\<lparr>db_bl := bl\<rparr>"
  have set': "Settings ?r' = Some (case Settings r of None \<Rightarrow> s | Some own \<Rightarrow> keep_local own s)"
    using Settings_apply [OF q, of "r\<lparr>db_reg := reg\<rparr>"] by (simp add: Settings_def)
  then have "map_option shared_settings (Settings ?r') = map_option shared_settings (Settings p)"
    using assms(3) by (simp split: option.split)
  then have "shared_config ?r' = shared_config p" using reg(2) bl(2) by (simp add: shared_config_def)
  moreover have "db_ok ?r'" using reg(1) bl(3) replaceAll_ok by (auto simp: db_ok_def)
  ultimately show ?thesis using reg(1) bl(1) set' by (simp add: ApplySnapshot_def snapshot_of_def run_tx_def)
qed


section \<open>Every write to the database\<close>

datatype bl_op =
    BSettings blacklist_settings
  | BPutList blacklist_list
  | BSnapshot int "string list" int string string int
  | BError int string int
  | BTouch int int
  | BDeleteList int
  | BPutRule blacklist_rule
  | BDeleteRule int
  | BReplace blacklist_settings "blacklist_list list" "blacklist_rule list"

fun bl_run :: "string option \<Rightarrow> bl_op \<Rightarrow> btables \<Rightarrow> (store_error, btables) result" where
  "bl_run io (BSettings b) t = SetBlacklistSettings io b t"
| "bl_run io (BPutList l) t = drop_id (PutBlacklistList io l t)"
| "bl_run io (BSnapshot i ds sk etag lm at) t = SetBlacklistSnapshot io i ds sk etag lm at t"
| "bl_run io (BError i msg at) t = SetBlacklistError io i msg at t"
| "bl_run io (BTouch i at) t = TouchBlacklistAttempt io i at t"
| "bl_run io (BDeleteList i) t = DeleteBlacklistList io i t"
| "bl_run io (BPutRule r) t = drop_id (PutBlacklistRule io r t)"
| "bl_run io (BDeleteRule i) t = DeleteBlacklistRule io i t"
| "bl_run io (BReplace b ls rs) t = ReplaceBlacklist io b ls rs t"

datatype local_op =
    LSetPassword string
  | LLinkSSO string string string
  | LUnlinkSSO
  | LSetSSO sso_settings
  | LPutToken token
  | LTouchToken int
  | LDeleteToken int
  | LPairPeer peer_row
  | LDeletePeer string
  | LTouchPeer string int "int option"
  | LSetReplica string int
  | LPromote int
  | LFollow string int
  | LSetLocal string string
  | LDeleteLocal string
  | LAudit audit_event

fun local_run :: "string option \<Rightarrow> int \<Rightarrow> local_op \<Rightarrow> ltables \<Rightarrow> (store_error, ltables) result" where
  "local_run io now (LSetPassword h) t = SetAdminPassword io now h t"
| "local_run io now (LLinkSSO sub u e) t = LinkAdminSSO io now sub u e t"
| "local_run io now LUnlinkSSO t = UnlinkAdminSSO io now t"
| "local_run io now (LSetSSO c) t = SetSSOSettings io c t"
| "local_run io now (LPutToken tk) t = drop_id (PutToken io now tk t)"
| "local_run io now (LTouchToken i) t = TouchToken io now i t"
| "local_run io now (LDeleteToken i) t = DeleteToken io i t"
| "local_run io now (LPairPeer p) t = PairPeer io p t"
| "local_run io now (LDeletePeer n) t = DeletePeer io n t"
| "local_run io now (LTouchPeer n at v) t = TouchPeer io n at v t"
| "local_run io now (LSetReplica n v) t = SetReplicaState io n v t"
| "local_run io now (LPromote at) t = RecordPromotion io at t"
| "local_run io now (LFollow n v) t = FollowPrimary io n v t"
| "local_run io now (LSetLocal k v) t = SetLocalSetting io k v t"
| "local_run io now (LDeleteLocal k) t = DeleteLocalSetting io k t"
| "local_run io now (LAudit e) t = RecordAudit io e t"

datatype db_op =
    DReg reg_op
  | DBl bl_op
  | DPutSettings settings
  | DPutDHCP settings
  | DRename settings string string
  | DApply snapshot_input
  | DLocal local_op

definition on_part :: "('a \<Rightarrow> db) \<Rightarrow> (store_error, 'a) result \<Rightarrow> (store_error, db) result" where
  "on_part f r = (case r of Inl e \<Rightarrow> Inl e | Inr x \<Rightarrow> Inr (f x))"

fun db_run :: "string option \<Rightarrow> int \<Rightarrow> db_op \<Rightarrow> db \<Rightarrow> (store_error, db) result" where
  "db_run io now (DReg op) d = on_part (\<lambda>t. d\<lparr>db_reg := t\<rparr>) (reg_run io op (db_reg d))"
| "db_run io now (DBl op) d = on_part (\<lambda>t. d\<lparr>db_bl := t\<rparr>) (bl_run io op (db_bl d))"
| "db_run io now (DPutSettings v) d = PutSettings io v d"
| "db_run io now (DPutDHCP v) d = PutDHCPSettings io v d"
| "db_run io now (DRename v from to) d = on_part snd (PutSettingsRenamingZone io v from to d)"
| "db_run io now (DApply si) d = ApplySnapshot io si d"
| "db_run io now (DLocal op) d = on_part (\<lambda>t. d\<lparr>db_local := t\<rparr>) (local_run io now op (db_local d))"

text \<open>A failed write leaves the database as it was.\<close>

definition db_exec :: "string option \<times> int \<times> db_op \<Rightarrow> db \<Rightarrow> db" where
  "db_exec e d = (case e of (io, now, op) \<Rightarrow> (case db_run io now op d of Inl _ \<Rightarrow> d | Inr d' \<Rightarrow> d'))"

section \<open>The keys of the blacklist\<close>

lemma names_ok_simps [simp]:
  "names_ok (put_settings b t) = names_ok t" "names_ok (delete_rules P t) = names_ok t"
  by (simp_all add: names_ok_def put_settings_def delete_rules_def)

lemma names_ok_delete: "names_ok t \<Longrightarrow> names_ok (delete_lists P t)"
  by (simp add: names_ok_def delete_lists_def distinct_map_filter)

lemma names_ok_update:
  "names_ok t \<Longrightarrow> (\<And>r. row_name (f r) = row_name r) \<Longrightarrow> (\<And>r. row_id (f r) = row_id r) \<Longrightarrow> names_ok (update_lists P f t)"
  by (simp add: names_ok_def update_lists_names update_lists_ids del: map_map)

lemma names_ok_rename:
  assumes "names_ok t" and "\<And>r. row_id (f r) = row_id r" and "\<And>r. row_name (f r) = n"
    and "\<not> list_ex (\<lambda>r. row_name r = n \<and> row_id r \<noteq> i) (bt_lists t)"
  shows "names_ok (update_lists (\<lambda>r. row_id r = i) f t)"
proof -
  let ?g = "\<lambda>r. if row_id r = i then f r else r"
  have "inj_on (\<lambda>r. row_name (?g r)) (set (bt_lists t))"
  proof (rule inj_onI)
    fix r q assume r: "r \<in> set (bt_lists t)" and q: "q \<in> set (bt_lists t)" and eq: "row_name (?g r) = row_name (?g q)"
    have "row_id r = i \<longleftrightarrow> row_id q = i" using assms(3,4) r q eq by (auto simp: list_ex_iff split: if_splits)
    then have "row_id r = row_id q \<or> row_name r = row_name q" using eq by (auto split: if_splits)
    then show "r = q" using assms(1) r q by (auto simp: names_ok_def distinct_map dest: inj_onD)
  qed
  then have "distinct (map row_name (bt_lists (update_lists (\<lambda>r. row_id r = i) f t)))"
    using assms(1) by (simp add: names_ok_def update_lists_def distinct_map comp_def)
  then show ?thesis using assms(1,2) update_lists_ids [of f "\<lambda>r. row_id r = i" t] by (simp add: names_ok_def del: map_map)
qed


lemma keys_ok_insert_rule: "insert_rule r t = Inr (i, t') \<Longrightarrow> bl_keys_ok t \<Longrightarrow> bl_keys_ok t'"
  by (auto simp: insert_rule_def Let_def bl_keys_ok_def names_ok_def list_ex_iff split: if_splits) blast

lemma keys_ok_insert_rules: "insert_rules rs t = Inr t' \<Longrightarrow> bl_keys_ok t \<Longrightarrow> bl_keys_ok t'"
  by (induction rs t rule: insert_rules.induct) (auto split: sum.splits dest: keys_ok_insert_rule)

lemma keys_ok_delete:
  "bl_keys_ok t \<Longrightarrow> bl_keys_ok (delete_lists P t)" "bl_keys_ok t \<Longrightarrow> bl_keys_ok (delete_rules Q t)" "bl_keys_ok t \<Longrightarrow> bl_keys_ok (put_settings b t)"
  by (simp_all add: bl_keys_ok_def names_ok_delete) (simp_all add: delete_lists_def delete_rules_def put_settings_def distinct_map_filter)

lemma update_lists_rest [simp]:
  "bt_rules (update_lists P f t) = bt_rules t" "bt_settings (update_lists P f t) = bt_settings t"
  by (simp_all add: update_lists_def)

lemma insert_list_rest [simp]:
  "bt_rules (snd (insert_list l b t)) = bt_rules t" "bt_settings (snd (insert_list l b t)) = bt_settings t"
  by (simp_all add: insert_list_def Let_def)

lemma keys_ok_insert_list: "bl_keys_ok t \<Longrightarrow> bl_Name l \<notin> names_of t \<Longrightarrow> bl_keys_ok (snd (insert_list l b t))"
  by (simp add: bl_keys_ok_def names_ok_insert)

lemma keys_ok_PutList: "PutBlacklistList io l t = Inr (i, t') \<Longrightarrow> bl_keys_ok t \<Longrightarrow> bl_keys_ok t'"
proof (cases "bl_ID l = 0")
  case True
  assume put: "PutBlacklistList io l t = Inr (i, t')" and ok: "bl_keys_ok t"
  then have "t' = snd (insert_list (definition_only l) [] t)" and "bl_Name l \<notin> names_of t"
    using True by (auto simp: PutBlacklistList_def name_clash split: option.splits if_splits)
  then show ?thesis using keys_ok_insert_list [OF ok, of "definition_only l" "[]"] by (simp add: definition_only_def)
next
  case False
  let ?f = "\<lambda>r :: list_row. ((fst r)\<lparr>bl_Name := bl_Name l, bl_URL := bl_URL l, bl_Format := bl_Format l, bl_Description := bl_Description l,
    bl_Enabled := bl_Enabled l, bl_IntervalSeconds := bl_IntervalSeconds l\<rparr>, snd r)"
  assume put: "PutBlacklistList io l t = Inr (i, t')" and ok: "bl_keys_ok t"
  then have "t' = update_lists (\<lambda>r. row_id r = bl_ID l) ?f t"
    and "\<not> list_ex (\<lambda>r. row_name r = bl_Name l \<and> row_id r \<noteq> bl_ID l) (bt_lists t)"
    using False by (auto simp: PutBlacklistList_def split: option.splits if_splits)
  then show ?thesis using ok names_ok_rename [of t ?f "bl_Name l" "bl_ID l"] by (simp add: bl_keys_ok_def)
qed

lemma keys_ok_insert_lists: "insert_lists old ls t = Inr t' \<Longrightarrow> bl_keys_ok t \<Longrightarrow> bl_keys_ok t'"
proof (induction ls arbitrary: t)
  case (Cons l ls)
  obtain row body where row: "with_kept (kept_body old (bl_URL l)) l = (row, body)" by force
  then have "bl_Name row = bl_Name l" by (auto simp: with_kept_def definition_only_def split: option.splits)
  moreover have "bl_Name l \<notin> names_of t" using Cons.prems(1) by (auto simp: name_clash split: if_splits)
  ultimately have "bl_keys_ok (snd (insert_list row body t))" using Cons.prems(2) by (simp add: keys_ok_insert_list)
  then show ?case using Cons row by (auto split: if_splits)
qed simp

lemma keys_ok_redefine: "redefine_lists existing ls t = Inr t' \<Longrightarrow> bl_keys_ok t \<Longrightarrow> bl_keys_ok t'"
proof (induction ls arbitrary: t)
  case (Cons l ls)
  have "bl_keys_ok (update_lists (\<lambda>r. row_name r = bl_Name l) (redefine l) t)"
    using Cons.prems(2) names_ok_update [of t "redefine l"] by (simp add: bl_keys_ok_def)
  moreover have "bl_keys_ok (snd (insert_list (definition_only l) [] t))" if "bl_Name l \<notin> names_of t"
    using keys_ok_insert_list [OF Cons.prems(2), of "definition_only l" "[]"] that by (simp add: definition_only_def)
  ultimately show ?case using Cons by (auto simp: name_clash split: if_splits)
qed simp

lemma keys_ok_replace: "replaceBlacklistDefinitions b ls rs t = Inr t' \<Longrightarrow> bl_keys_ok t \<Longrightarrow> bl_keys_ok t'"
  by (auto simp: replaceBlacklistDefinitions_def Let_def split: sum.splits
      dest!: keys_ok_redefine keys_ok_insert_rules intro: keys_ok_delete)

lemma keys_ok_bl_run: "bl_run io op t = Inr t' \<Longrightarrow> bl_keys_ok t \<Longrightarrow> bl_keys_ok t'"
proof (cases op)
  case (BReplace b ls rs)
  assume "bl_run io op t = Inr t'" and "bl_keys_ok t"
  then show ?thesis using BReplace
    by (auto simp: ReplaceBlacklist_def Let_def split: sum.splits option.splits
        dest!: keys_ok_insert_lists keys_ok_insert_rules intro: keys_ok_delete)
qed (auto simp: SetBlacklistSettings_def SetBlacklistSnapshot_def SetBlacklistError_def TouchBlacklistAttempt_def
    DeleteBlacklistList_def PutBlacklistRule_def DeleteBlacklistRule_def drop_id_Inr keys_ok_delete
    bl_keys_ok_def [of "update_lists _ _ _"] bl_keys_ok_def [of t] names_ok_update
    dest: keys_ok_PutList keys_ok_insert_rule split: option.splits if_splits)

section \<open>The version of the blacklist\<close>

definition bl_moved :: "btables \<Rightarrow> btables \<Rightarrow> bool" where
  "bl_moved t t' = (bt_version t < bt_version t' \<or> (bt_version t' = bt_version t \<and> bl_content t' = bl_content t))"

lemma bl_moved_refl [simp]: "bl_moved t t"
  by (simp add: bl_moved_def)

lemma bl_moved_trans [trans]: "bl_moved t u \<Longrightarrow> bl_moved u w \<Longrightarrow> bl_moved t w"
  by (auto simp: bl_moved_def)

lemma bl_moved_more: "bt_version t < bt_version t' \<Longrightarrow> bl_moved t t'"
  by (simp add: bl_moved_def)

lemma bl_moved_delete: "bl_moved t (delete_lists P t)" "bl_moved t (delete_rules Q t)"
proof -
  have "filter P xs = [] \<Longrightarrow> filter (\<lambda>x. \<not> P x) xs = xs" for P and xs :: "'a list"
    by (simp add: filter_empty_conv filter_id_conv)
  note none = this
  show "bl_moved t (delete_lists P t)"
    by (cases "filter P (bt_lists t) = []") (simp_all add: bl_moved_def delete_lists_def none)
  show "bl_moved t (delete_rules Q t)"
    by (cases "filter Q (bt_rules t) = []") (simp_all add: bl_moved_def delete_rules_def none)
qed

lemma same_definition_content: "same_definition a b \<Longrightarrow> list_content a = list_content b"
  by (cases a; cases b) (simp add: same_definition_def list_content_def definition_only_def)

lemma same_definition_key: "same_definition a b \<Longrightarrow> list_key a = list_key b"
  by (simp add: same_definition_def list_key_def)

lemma metas_update:
  assumes "\<And>r. r \<in> set (bt_lists t) \<Longrightarrow> same_definition (fst r) (fst (g r))"
  shows "metas (t\<lparr>bt_lists := map g (bt_lists t)\<rparr>) = metas t"
proof -
  have "sort_key (\<lambda>r. list_key (fst r)) (map g (bt_lists t)) = map g (sort_key (\<lambda>r. list_key (fst r)) (bt_lists t))"
    by (rule sort_key_map) (use assms same_definition_key in fastforce)
  then show ?thesis using assms same_definition_content by (fastforce simp: metas_eq)
qed

lemma bl_moved_update: "bl_moved t (update_lists P f t)"
proof (cases "filter (\<lambda>r. P r \<and> \<not> same_definition (fst r) (fst (f r))) (bt_lists t) = []")
  case True
  let ?g = "\<lambda>r. if P r then f r else r"
  have "same_definition (fst r) (fst (?g r))" if "r \<in> set (bt_lists t)" for r
    using True that by (auto simp: filter_empty_conv same_definition_def)
  from metas_update [of t ?g, OF this] True show ?thesis
    by (simp add: bl_moved_def update_lists_def bl_content_def metas_def BlacklistSettings_def BlacklistRules_def)
qed (simp add: bl_moved_def update_lists_def)

lemma bl_moved_insert_list: "bl_moved t (snd (insert_list l b t))"
  by (rule bl_moved_more) (simp add: insert_list_def Let_def)

lemma bl_moved_insert_rule: "insert_rule r t = Inr (i, t') \<Longrightarrow> bl_moved t t'"
  by (rule bl_moved_more) (auto simp: insert_rule_def Let_def split: if_splits)

lemma bl_moved_put_settings: "bt_settings t \<noteq> None \<Longrightarrow> bl_moved t (put_settings b t)"
  by (rule bl_moved_more) (simp add: put_settings_def)

lemma bl_moved_insert_rules: "insert_rules rs t = Inr t' \<Longrightarrow> bl_moved t t'"
  by (induction rs t rule: insert_rules.induct) (auto split: sum.splits dest!: bl_moved_insert_rule intro: bl_moved_trans)

lemma bl_moved_insert_lists: "insert_lists old ls t = Inr t' \<Longrightarrow> bl_moved t t'"
proof (induction ls arbitrary: t)
  case (Cons l ls)
  then show ?case using bl_moved_trans [OF bl_moved_insert_list] by (auto split: if_splits prod.splits) metis
qed simp

lemma bl_moved_redefine: "redefine_lists existing ls t = Inr t' \<Longrightarrow> bl_moved t t'"
proof (induction ls arbitrary: t)
  case (Cons l ls)
  have "bl_moved (update_lists (\<lambda>r. row_name r = bl_Name l) (redefine l) t) t' \<or> bl_moved (snd (insert_list (definition_only l) [] t)) t'"
    using Cons by (auto split: if_splits)
  then show ?case using bl_moved_trans bl_moved_insert_list bl_moved_update by blast
qed simp

lemma bl_moved_replace:
  assumes "replaceBlacklistDefinitions b ls rs t = Inr t'" and "bt_settings t \<noteq> None"
  shows "bl_moved t t'"
proof -
  let ?existing = "map row_name (bt_lists t)"
  obtain t1 where t1: "redefine_lists ?existing ls (put_settings b t) = Inr t1" and rules: "insert_rules rs (delete_rules (\<lambda>_. True)
      (delete_lists (\<lambda>r. row_name r \<in> set ?existing \<and> row_name r \<notin> bl_Name ` set ls) t1)) = Inr t'"
    using assms(1) by (auto simp: replaceBlacklistDefinitions_def Let_def split: sum.splits)
  note bl_moved_put_settings [OF assms(2)]
  also note bl_moved_redefine [OF t1]
  also note bl_moved_delete(1)
  also note bl_moved_delete(2)
  also note bl_moved_insert_rules [OF rules]
  finally show ?thesis .
qed

lemma bl_moved_run: "bl_run io op t = Inr t' \<Longrightarrow> bt_settings t \<noteq> None \<Longrightarrow> bl_moved t t'"
proof (cases op)
  case (BPutList l)
  assume "bl_run io op t = Inr t'"
  then obtain i where put: "PutBlacklistList io l t = Inr (i, t')" using BPutList by (auto simp: drop_id_Inr)
  show ?thesis
  proof (cases "bl_ID l = 0")
    case True
    then have "t' = snd (insert_list (definition_only l) [] t)"
      using put by (auto simp: PutBlacklistList_def split: option.splits if_splits)
    then show ?thesis by (simp add: bl_moved_insert_list)
  next
    case False
    then show ?thesis using put by (auto simp: PutBlacklistList_def bl_moved_update split: option.splits if_splits)
  qed
next
  case (BReplace b ls rs)
  assume run: "bl_run io op t = Inr t'" and "bt_settings t \<noteq> None"
  let ?u = "delete_lists (\<lambda>_. True) (delete_rules (\<lambda>_. True) t)"
  obtain t2 where ls: "insert_lists (bt_lists t) ls (put_settings b ?u) = Inr t2" and rs: "insert_rules rs t2 = Inr t'"
    using run BReplace by (auto simp: ReplaceBlacklist_def Let_def split: option.splits sum.splits)
  note bl_moved_delete(2)
  also note bl_moved_delete(1)
  also have "bl_moved ?u (put_settings b ?u)"
    using \<open>bt_settings t \<noteq> None\<close> by (intro bl_moved_put_settings) (simp add: delete_lists_def delete_rules_def)
  also note bl_moved_insert_lists [OF ls]
  also note bl_moved_insert_rules [OF rs]
  finally show ?thesis .
qed (auto simp: SetBlacklistSettings_def SetBlacklistSnapshot_def SetBlacklistError_def TouchBlacklistAttempt_def
    DeleteBlacklistList_def PutBlacklistRule_def DeleteBlacklistRule_def drop_id_Inr
    bl_moved_delete bl_moved_update bl_moved_put_settings dest: bl_moved_insert_rule split: option.splits if_splits)


section \<open>The version of the database\<close>

text \<open>Each of the three groups of tables moved forward; their versions are the summands of the one counter.\<close>

definition set_moved :: "db \<Rightarrow> db \<Rightarrow> bool" where
  "set_moved d d' = (db_sversion d < db_sversion d' \<or>
     (db_sversion d' = db_sversion d \<and> map_option shared_settings (Settings d') = map_option shared_settings (Settings d)))"

definition db_moved :: "db \<Rightarrow> db \<Rightarrow> bool" where
  "db_moved d d' = (reg_moved (db_reg d) (db_reg d') \<and> bl_moved (db_bl d) (db_bl d') \<and> set_moved d d')"

lemma set_moved_refl [simp]: "set_moved d d"
  by (simp add: set_moved_def)

lemma set_moved_trans: "set_moved d e \<Longrightarrow> set_moved e f \<Longrightarrow> set_moved d f"
  by (auto simp: set_moved_def)

lemma db_moved_refl [simp]: "db_moved d d"
  by (simp add: db_moved_def)

lemma db_moved_trans [trans]: "db_moved d e \<Longrightarrow> db_moved e f \<Longrightarrow> db_moved d f"
  by (auto simp: db_moved_def intro: reg_moved_trans bl_moved_trans set_moved_trans)

lemma db_moved_still:
  assumes "db_moved d d'" and "ConfigVersion d' \<le> ConfigVersion d"
  shows "ConfigVersion d' = ConfigVersion d" and "db_reg d' = db_reg d" and "bl_content (db_bl d') = bl_content (db_bl d)"
    and "map_option shared_settings (Settings d') = map_option shared_settings (Settings d)"
  using assms by (auto simp: db_moved_def reg_moved_def bl_moved_def set_moved_def ConfigVersion_def)

lemma db_moved_version: "db_moved d d' \<Longrightarrow> ConfigVersion d < ConfigVersion d' \<or> (ConfigVersion d' = ConfigVersion d \<and> shared_config d' = shared_config d)"
  using db_moved_still [of d d'] by (cases "ConfigVersion d' \<le> ConfigVersion d") (auto simp: shared_config_def)

lemma db_moved_reg: "reg_moved (db_reg d) t \<Longrightarrow> db_moved d (d\<lparr>db_reg := t\<rparr>)"
  by (auto simp: db_moved_def set_moved_def Settings_def)

lemma db_moved_bl: "bl_moved (db_bl d) t \<Longrightarrow> db_moved d (d\<lparr>db_bl := t\<rparr>)"
  by (auto simp: db_moved_def set_moved_def Settings_def)

lemma same_columns_shared:
  assumes "\<not> settings_differ r r'"
  shows "shared_settings (settings_of_row r') = shared_settings (settings_of_row r)"
proof -
  obtain v rz up aq where r: "r = (v, rz, up, aq)" by (cases r) auto
  obtain v' rz' up' aq' where r': "r' = (v', rz', up', aq')" by (cases r') auto
  show ?thesis using assms
    by (cases v; cases v') (simp add: r r' settings_differ_def settings_of_row_def shared_settings_def keep_local_def with_dhcp_def)
qed

lemma db_moved_write_row: "db_moved d (write_row r d)"
  by (cases "db_settings d")
    (auto simp: db_moved_def set_moved_def write_row_def Settings_def same_columns_shared)

lemma reg_moved_rename: "reg_moved t (snd (rename_records from to t))"
proof -
  let ?g = "\<lambda>r. rename_record from to r"
  have "snd (?g r) = r" if "\<not> fst (?g r)" for r
    using that by (auto simp: rename_record_def Let_def split: prod.splits if_splits)
  then have "map (\<lambda>r. snd (?g r)) (rt_records t) = rt_records t" if "length (filter (\<lambda>r. fst (?g r)) (rt_records t)) = 0"
    using that by (auto simp: filter_empty_conv intro: map_idI)
  then show ?thesis unfolding rename_records_def Let_def snd_conv by (intro reg_moved_bump) auto
qed

lemma reg_ok_rename: "reg_ok t \<Longrightarrow> reg_ok (snd (rename_records from to t))"
proof -
  have "rw_ID (snd (rename_record from to r)) = rw_ID r \<and> rw_View (snd (rename_record from to r)) = rw_View r" for r
    by (simp add: rename_record_def Let_def split: prod.split)
  then show "reg_ok t \<Longrightarrow> reg_ok (snd (rename_records from to t))"
    by (simp add: rename_records_def Let_def reg_ok_defs list_all_iff comp_def)
qed

lemma reg_ok_renamed: "rename_records z z' t = (n, t') \<Longrightarrow> reg_ok t \<Longrightarrow> reg_ok t'"
  using reg_ok_rename by (metis snd_conv)

lemma on_part_Inr: "on_part f r = Inr d \<longleftrightarrow> (\<exists>x. r = Inr x \<and> d = f x)"
  by (auto simp: on_part_def split: sum.splits)

lemma write_row_sel [simp]:
  "db_reg (write_row r d) = db_reg d" "db_bl (write_row r d) = db_bl d" "db_local (write_row r d) = db_local d"
  by (simp_all add: write_row_def)

lemma ApplySnapshot_steps:
  assumes "ApplySnapshot io si d = Inr d'" and "db_ok d"
  shows "db_moved d d'" and "db_ok d'"
proof -
  obtain reg bl where reg: "replaceAll (si_Views si) (si_Services si) (si_Records si) (db_reg d) = Inr reg"
    and bl: "replaceBlacklistDefinitions (si_Blacklist si) (si_Lists si) (si_Rules si) (db_bl d) = Inr bl"
    and d': "d' = (apply_settings (si_Settings si) (d\<lparr>db_reg := reg\<rparr>))\<lparr>db_bl := bl\<rparr>"
    using assms(1) by (auto simp: ApplySnapshot_def run_tx_Inr Let_def split: sum.splits)
  have "db_moved d (d\<lparr>db_reg := reg\<rparr>)" using reg_moved_replaceAll [OF reg] by (rule db_moved_reg)
  also have "db_moved \<dots> (apply_settings (si_Settings si) (d\<lparr>db_reg := reg\<rparr>))"
    by (simp add: apply_settings_def putSettings_def db_moved_write_row)
  also have "db_moved \<dots> d'" unfolding d'
    by (rule db_moved_bl) (use bl_moved_replace [OF bl] assms(2) in \<open>simp add: db_ok_def bl_keys_ok_def\<close>)
  finally show "db_moved d d'" .
  show "db_ok d'" using assms(2) replaceAll_ok [OF reg] keys_ok_replace [OF bl] by (simp add: d' db_ok_def)
qed

lemma db_run_ok: "db_run io now op d = Inr d' \<Longrightarrow> db_ok d \<Longrightarrow> db_ok d'"
  by (cases op) (auto simp: on_part_Inr db_ok_def PutSettings_def PutDHCPSettings_def PutSettingsRenamingZone_def putSettings_def
      run_tx_Inr Let_def split: option.splits prod.splits
      dest: reg_run_ok keys_ok_bl_run ApplySnapshot_steps(2) [unfolded db_ok_def] reg_ok_renamed)

lemma db_run_moved: "db_run io now op d = Inr d' \<Longrightarrow> db_ok d \<Longrightarrow> db_moved d d'"
proof (cases op)
  case (DRename v z z')
  assume "db_run io now op d = Inr d'"
  then have "d' = (putSettings v d)\<lparr>db_reg := snd (rename_records (ZoneSuffix z) (ZoneSuffix z') (db_reg (putSettings v d)))\<rparr>"
    using DRename by (auto simp: on_part_Inr PutSettingsRenamingZone_def run_tx_Inr Let_def split: prod.splits)
  then show ?thesis unfolding putSettings_def
    using db_moved_trans [OF db_moved_write_row db_moved_reg [OF reg_moved_rename]] by simp
next
  case (DLocal lop)
  assume "db_run io now op d = Inr d'"
  then show ?thesis using DLocal by (auto simp: on_part_Inr db_moved_def set_moved_def Settings_def)
qed (auto simp: on_part_Inr PutSettings_def PutDHCPSettings_def putSettings_def run_tx_Inr db_moved_write_row db_ok_def bl_keys_ok_def
    split: option.splits dest: reg_run_moved bl_moved_run intro: db_moved_reg db_moved_bl ApplySnapshot_steps(1) [unfolded db_ok_def bl_keys_ok_def])

lemma db_exec_moved: "db_ok d \<Longrightarrow> db_moved d (db_exec e d) \<and> db_ok (db_exec e d)"
  by (auto simp: db_exec_def split: prod.split sum.split dest: db_run_moved db_run_ok)

lemma db_history: "db_ok d \<Longrightarrow> db_moved d (fold db_exec es d) \<and> db_ok (fold db_exec es d)"
proof (induction es arbitrary: d)
  case (Cons e es)
  then show ?case using db_exec_moved [of d e] db_moved_trans by (metis fold_simps(2))
qed simp


section \<open>A new database\<close>

definition fresh_bl :: btables where
  "fresh_bl = \<lparr>bt_settings = Some \<lparr>bs_Enabled = True, bs_BlockTTL = 60\<rparr>, bt_lists = [], bt_rules = [], bt_version = 0\<rparr>"

definition fresh_db :: db where
  "fresh_db = \<lparr>db_reg = empty_registry, db_bl = fresh_bl, db_settings = None, db_sversion = 0, db_local = fresh_local\<rparr>"

lemma fresh_db_ok: "db_ok fresh_db"
  by (simp add: db_ok_def fresh_db_def empty_registry_ok fresh_bl_def bl_keys_ok_def names_ok_def)

lemma history_ok: "db_ok (fold db_exec es fresh_db)"
  using db_history [OF fresh_db_ok] by blast

section \<open>What the store promises\<close>

text \<open>
  C38: the constraints of the schema hold after any sequence of writes, whatever fails on the way. Views, services and
  aliases have distinct names, no subnet belongs to two views, every address and alias belongs to a service that exists, and no
  address or record names a view that does not: a view in use cannot disappear under what refers to it.
\<close>

theorem registry_constraints_hold:
  "let t = db_reg (fold db_exec es fresh_db)
   in distinct (rt_views t) \<and> distinct (map snd (rt_subnets t)) \<and> list_all (\<lambda>s. fst s \<in> set (rt_views t)) (rt_subnets t) \<and>
      distinct (map svc_Name (rt_services t)) \<and> distinct (map svc_ID (rt_services t)) \<and> distinct (map al_Name (rt_aliases t)) \<and>
      list_all (\<lambda>a. ar_Service a \<in> svc_ID ` set (rt_services t) \<and> ref_ok (rt_views t) (ar_View a)) (rt_addresses t) \<and>
      list_all (\<lambda>a. al_Service a \<in> svc_ID ` set (rt_services t)) (rt_aliases t) \<and>
      list_all (\<lambda>r. ref_ok (rt_views t) (rw_View r)) (rt_records t)"
  using history_ok [of es] by (simp add: Let_def db_ok_def reg_ok_defs)

text \<open>
  C20: the configuration version is what replicas can rely on. From a new database, through any writes, the version never goes
  back; and while it stands still the shared configuration (views, services, records, the shared settings, the
  blacklist's settings, list definitions and rules) is the same. So two reads that return one version have
  one configuration between them.
\<close>

theorem version_tracks_configuration:
  assumes "d = fold db_exec es fresh_db" and "d' = fold db_exec later d" and "ConfigVersion d' \<le> ConfigVersion d"
  shows "ConfigVersion d' = ConfigVersion d \<and> shared_config d' = shared_config d"
  using db_moved_version [OF conjunct1 [OF db_history [OF history_ok [of es], of later]]] assms by auto

definition demo_settings :: settings where
  "demo_settings = blank_settings\<lparr>PrivateDomain := ''home.arpa'', Upstreams := [''9.9.9.9''], AllowQuery := [''192.168.0.0/16''], LogQueries := True\<rparr>"

definition demo_service :: service where
  "demo_service = \<lparr>svc_ID = 0, svc_Name = ''nas'', svc_Addresses = [\<lparr>addr_ID = 0, addr_Address = ''192.168.1.5'', addr_View = ''lan''\<rparr>],
     svc_Aliases = [''files''], svc_CheckURL = [], svc_CheckInsecure = False, svc_ProxyAddress = [], svc_RouteViaProxy = False, svc_MAC = []\<rparr>"

definition demo_writes :: "(string option \<times> int \<times> db_op) list" where
  "demo_writes = [(None, 1, DPutSettings demo_settings), (None, 2, DReg (RPutView \<lparr>view_Name = ''lan'', view_Subnets = [''192.168.1.0/24'']\<rparr>)),
     (None, 3, DReg (RPutService demo_service)), (None, 4, DBl (BPutRule \<lparr>br_ID = 0, br_Kind = ''deny'', br_Domain = ''ads.example''\<rparr>))]"

definition quiet_writes :: "(string option \<times> int \<times> db_op) list" where
  "quiet_writes = [(None, 5, DLocal (LPairPeer \<lparr>pe_NodeID = ''ab'', pe_Label = ''ab'', pe_Address = [], pe_PairedAt = 5, pe_LastSyncAt = 0, pe_LastVersion = 0\<rparr>)),
     (None, 6, DReg (RDeleteView ''lan'')), (None, 7, DPutDHCP (demo_settings\<lparr>DHCPEnabled := True\<rparr>))]"

theorem version_tracks_configuration_witness:
  "let d = fold db_exec demo_writes fresh_db; d' = fold db_exec quiet_writes d
   in d' \<noteq> d \<and> ConfigVersion d' = 7 \<and> shared_config d' = shared_config d"
proof -
  let ?d = "fold db_exec demo_writes fresh_db"
  let ?d' = "fold db_exec quiet_writes ?d"
  have v: "ConfigVersion ?d = 7" "ConfigVersion ?d' = 7" "length (lt_peers (db_local ?d)) = 0" "length (lt_peers (db_local ?d')) = 1" by code_simp+
  then have "shared_config ?d' = shared_config ?d" using version_tracks_configuration [where es = demo_writes and later = quiet_writes, OF refl refl] by simp
  then show ?thesis using v by (auto simp: Let_def)
qed



section \<open>Writes a replica need not hear of\<close>

fun is_local :: "db_op \<Rightarrow> bool" where
  "is_local (DLocal op) = True"
| "is_local (DPutDHCP v) = True"
| "is_local (DBl (BSnapshot i ds sk etag lm at)) = True"
| "is_local (DBl (BError i msg at)) = True"
| "is_local (DBl (BTouch i at)) = True"
| "is_local _ = False"

lemma update_lists_silent: "(\<And>r. same_definition (fst r) (fst (f r))) \<Longrightarrow> bt_version (update_lists P f t) = bt_version t"
  by (simp add: update_lists_def)

text \<open>
  What belongs to a node alone never moves the version: a refresh of a list, a failed one, the DHCP settings, tokens,
  peers, pairing, promotion, the audit trail. A replica is not made to pull for them.
\<close>

theorem local_writes_are_silent:
  assumes "is_local op"
  shows "ConfigVersion (db_exec (io, now, op) d) = ConfigVersion d"
  using assms
  by (induction op rule: is_local.induct)
    (auto simp: db_exec_def on_part_def ConfigVersion_def PutDHCPSettings_def write_row_def settings_differ_def with_dhcp_def run_tx_def
      SetBlacklistSnapshot_def SetBlacklistError_def TouchBlacklistAttempt_def same_definition_def update_lists_silent
      split: sum.splits option.splits if_splits)

theorem local_writes_are_silent_witness:
  "ConfigVersion (db_exec (None, 9, DPutDHCP (demo_settings\<lparr>DHCPEnabled := True\<rparr>)) (fold db_exec demo_writes fresh_db)) = 7"
proof -
  have "ConfigVersion (fold db_exec demo_writes fresh_db) = 7" by code_simp
  then show ?thesis using local_writes_are_silent [of "DPutDHCP (demo_settings\<lparr>DHCPEnabled := True\<rparr>)"] by simp
qed

end
