(* ===== verification/DnsMsg.thy ===== *)
theory DnsMsg
  imports Netip
begin

text \<open>
  DNS messages as the code handles them: the fields of \<^verbatim>\<open>dns.Msg\<close> and \<^verbatim>\<open>dns.RR\<close> of the library
  \<^verbatim>\<open>github.com/miekg/dns\<close> that the server reads or writes. The library itself is not part of the
  sources; the functions of it the server calls are a parameter, the record \<open>dnslib\<close>,
  and \<open>dnslib_ok\<close> says what its documentation promises of them.
\<close>

section \<open>Messages\<close>

type_synonym rtype = "16 word"

definition TypeA :: rtype where "TypeA = 1"
definition TypeNS :: rtype where "TypeNS = 2"
definition TypeCNAME :: rtype where "TypeCNAME = 5"
definition TypeSOA :: rtype where "TypeSOA = 6"
definition TypePTR :: rtype where "TypePTR = 12"
definition TypeAAAA :: rtype where "TypeAAAA = 28"
definition TypeOPT :: rtype where "TypeOPT = 41"
definition TypeANY :: rtype where "TypeANY = 255"
definition ClassINET :: "16 word" where "ClassINET = 1"

definition RcodeSuccess :: int where "RcodeSuccess = 0"
definition RcodeFormatError :: int where "RcodeFormatError = 1"
definition RcodeServerFailure :: int where "RcodeServerFailure = 2"
definition RcodeNameError :: int where "RcodeNameError = 3"
definition RcodeNotImplemented :: int where "RcodeNotImplemented = 4"
definition RcodeRefused :: int where "RcodeRefused = 5"
definition OpcodeQuery :: int where "OpcodeQuery = 0"
definition MinMsgSize :: int where "MinMsgSize = 512"

lemmas dns_consts =
  TypeA_def TypeNS_def TypeCNAME_def TypeSOA_def TypePTR_def TypeAAAA_def TypeOPT_def TypeANY_def ClassINET_def
  RcodeSuccess_def RcodeFormatError_def RcodeServerFailure_def RcodeNameError_def RcodeNotImplemented_def
  RcodeRefused_def OpcodeQuery_def MinMsgSize_def

record soa_data =
  soa_Ns :: string
  soa_Mbox :: string
  soa_Serial :: "32 word"
  soa_Refresh :: "32 word"
  soa_Retry :: "32 word"
  soa_Expire :: "32 word"
  soa_Minttl :: "32 word"

text \<open>The address data of an A or AAAA record is a \<^verbatim>\<open>net.IP\<close>, \<open>None\<close> when it is nil.\<close>

datatype rdata =
    RD_A "addr option"
  | RD_AAAA "addr option"
  | RD_CNAME string
  | RD_PTR string
  | RD_NS string
  | RD_SOA soa_data
  | RD_Other string

record rr =
  rr_Name :: string
  rr_Rrtype :: rtype
  rr_Class :: "16 word"
  rr_Ttl :: "32 word"
  rr_Data :: rdata

record question =
  q_Name :: string
  q_Qtype :: rtype
  q_Qclass :: "16 word"

record msg =
  Id :: "16 word"
  Response :: bool
  Opcode :: int
  Authoritative :: bool
  Truncated :: bool
  RecursionDesired :: bool
  RecursionAvailable :: bool
  AuthenticatedData :: bool
  CheckingDisabled :: bool
  Rcode :: int
  Question :: "question list"
  Answer :: "rr list"
  Ns :: "rr list"
  Extra :: "rr list"

definition new_msg :: msg where
  "new_msg = \<lparr>Id = 0, Response = False, Opcode = 0, Authoritative = False, Truncated = False,
     RecursionDesired = False, RecursionAvailable = False, AuthenticatedData = False,
     CheckingDisabled = False, Rcode = 0, Question = [], Answer = [], Ns = [], Extra = []\<rparr>"

section \<open>The library\<close>

record dnslib =
  lib_Fqdn :: "string \<Rightarrow> string"
  lib_SetRcode :: "msg \<Rightarrow> msg \<Rightarrow> int \<Rightarrow> msg"
  lib_SetQuestion :: "string \<Rightarrow> rtype \<Rightarrow> msg"
  lib_SetEdns0 :: "int \<Rightarrow> bool \<Rightarrow> msg \<Rightarrow> msg"
  lib_IsEdns0 :: "msg \<Rightarrow> rr option"
  lib_Do :: "rr \<Rightarrow> bool"
  lib_UDPSize :: "rr \<Rightarrow> int"
  lib_Truncate :: "int \<Rightarrow> msg \<Rightarrow> msg"
  lib_RcodeToString :: "int \<Rightarrow> string"
  lib_TypeToString :: "rtype \<Rightarrow> string"

text \<open>
  What the server relies on: \<^verbatim>\<open>Fqdn\<close> makes a name fully qualified and leaves one that is alone (a
  final dot may be escaped with a backslash, so the equation is for names without one);
  \<^verbatim>\<open>SetRcode\<close> turns a message into a reply to a request with that code and
  leaves its records alone, with the question of the request when it has one; \<^verbatim>\<open>Truncate\<close> only
  removes records, and sets TC when it removed any.
\<close>

definition Fqdn_ok :: "(string \<Rightarrow> string) \<Rightarrow> bool" where
  "Fqdn_ok f = (\<forall>s. CHR 0x5C \<notin> set s \<longrightarrow> f s = (if HasSuffix s ''.'' then s else s @ ''.''))"

definition SetRcode_ok :: "(msg \<Rightarrow> msg \<Rightarrow> int \<Rightarrow> msg) \<Rightarrow> bool" where
  "SetRcode_ok f =
     (\<forall>m r c. let m' = f m r c in
        Id m' = Id r \<and> Response m' \<and> Rcode m' = c \<and>
        (Question r \<noteq> [] \<longrightarrow> Question m' = take 1 (Question r)) \<and>
        Answer m' = Answer m \<and> Ns m' = Ns m \<and> Extra m' = Extra m \<and>
        Authoritative m' = Authoritative m \<and> AuthenticatedData m' = AuthenticatedData m \<and>
        RecursionAvailable m' = RecursionAvailable m)"

definition Truncate_ok :: "(int \<Rightarrow> msg \<Rightarrow> msg) \<Rightarrow> bool" where
  "Truncate_ok f =
     (\<forall>n m. let m' = f n m in
        set (Answer m') \<subseteq> set (Answer m) \<and> set (Ns m') \<subseteq> set (Ns m) \<and> set (Extra m') \<subseteq> set (Extra m) \<and>
        (\<not> Truncated m' \<longrightarrow> Answer m' = Answer m \<and> Ns m' = Ns m) \<and>
        Id m' = Id m \<and> Rcode m' = Rcode m \<and> Authoritative m' = Authoritative m \<and>
        AuthenticatedData m' = AuthenticatedData m \<and> RecursionAvailable m' = RecursionAvailable m)"

definition dnslib_ok :: "dnslib \<Rightarrow> bool" where
  "dnslib_ok L = (Fqdn_ok (lib_Fqdn L) \<and> SetRcode_ok (lib_SetRcode L) \<and> Truncate_ok (lib_Truncate L))"

lemma Fqdn_dot: "Fqdn_ok f \<Longrightarrow> CHR 0x5C \<notin> set s \<Longrightarrow> HasSuffix s ''.'' \<Longrightarrow> f s = s"
  by (simp add: Fqdn_ok_def)

lemma SetRcode_simps:
  assumes "SetRcode_ok f"
  shows "Id (f m r c) = Id r" "Rcode (f m r c) = c" "Answer (f m r c) = Answer m" "Ns (f m r c) = Ns m"
    "Extra (f m r c) = Extra m" "Authoritative (f m r c) = Authoritative m" "Response (f m r c)"
    "AuthenticatedData (f m r c) = AuthenticatedData m" "Question r \<noteq> [] \<Longrightarrow> Question (f m r c) = take 1 (Question r)"
  using assms by (simp_all add: SetRcode_ok_def Let_def)

section \<open>An instance\<close>

text \<open>
  A concrete library for evaluations, with the behaviour \<open>dnslib_ok\<close> asks for. The DO
  bit and the size of an OPT record are in its TTL and class fields.
\<close>

definition plain_Fqdn :: "string \<Rightarrow> string" where
  "plain_Fqdn s = (if HasSuffix s ''.'' then s else s @ ''.'')"

definition plain_SetRcode :: "msg \<Rightarrow> msg \<Rightarrow> int \<Rightarrow> msg" where
  "plain_SetRcode m r c =
     m\<lparr>Id := Id r, Response := True, Opcode := Opcode r, RecursionDesired := RecursionDesired r,
       CheckingDisabled := CheckingDisabled r, Rcode := c,
       Question := (if Question r = [] then Question m else take 1 (Question r))\<rparr>"

definition opt_rr :: "int \<Rightarrow> bool \<Rightarrow> rr" where
  "opt_rr sz d = \<lparr>rr_Name = ''.'', rr_Rrtype = TypeOPT, rr_Class = word_of_int sz,
     rr_Ttl = (if d then 32768 else 0), rr_Data = RD_Other []\<rparr>"

definition plain_lib :: dnslib where
  "plain_lib =
     \<lparr>lib_Fqdn = plain_Fqdn, lib_SetRcode = plain_SetRcode,
      lib_SetQuestion = (\<lambda>n t. new_msg\<lparr>Id := 7, RecursionDesired := True,
        Question := [\<lparr>q_Name = n, q_Qtype = t, q_Qclass = ClassINET\<rparr>]\<rparr>),
      lib_SetEdns0 = (\<lambda>sz d (m :: msg). m\<lparr>Extra := Extra m @ [opt_rr sz d]\<rparr>),
      lib_IsEdns0 = (\<lambda>(m :: msg). find (\<lambda>r :: rr. rr_Rrtype r = TypeOPT) (Extra m)),
      lib_Do = (\<lambda>r :: rr. rr_Ttl r = 32768), lib_UDPSize = (\<lambda>r :: rr. uint (rr_Class r)),
      lib_Truncate = (\<lambda>_ m. m), lib_RcodeToString = (\<lambda>c. if c = 2 then ''SERVFAIL'' else show_dec c),
      lib_TypeToString = (\<lambda>t. show_dec (uint t))\<rparr>"

lemma plain_lib_ok: "dnslib_ok plain_lib"
  by (simp add: dnslib_ok_def plain_lib_def Fqdn_ok_def plain_Fqdn_def SetRcode_ok_def plain_SetRcode_def
      Truncate_ok_def Let_def)

end
