(* ===== verification/DnsCache.thy ===== *)
theory DnsCache
  imports DnsMsg
begin

text \<open>
  The response cache, \<^verbatim>\<open>internal/dnsserver/cache.go\<close>: a map from a question to an element of a
  doubly linked list kept in order of use. An element is named by a number, its
  address; the map holds that number. Times are in nanoseconds, and the mutex makes each operation one step.
\<close>

section \<open>State\<close>

record cachekey =
  ck_name :: string
  ck_qtype :: rtype
  ck_do :: bool

record centry =
  ce_key :: cachekey
  ce_msg :: msg
  ce_stored :: int
  ce_expires :: int
  ce_ttl :: "32 word"

record cache =
  c_entries :: "(cachekey, nat) gomap"
  c_order :: "(nat, centry) gomap"
  c_next :: nat
  c_maxEntries :: int
  c_minTTL :: "32 word"
  c_maxTTL :: "32 word"
  c_negMaxTTL :: "32 word"

definition NewCache :: "int \<Rightarrow> int \<Rightarrow> int \<Rightarrow> int \<Rightarrow> cache" where
  "NewCache maxEntries minTTL maxTTL negMaxTTL =
     \<lparr>c_entries = [], c_order = [], c_next = 0, c_maxEntries = maxEntries,
      c_minTTL = word_of_int minTTL, c_maxTTL = word_of_int maxTTL, c_negMaxTTL = word_of_int negMaxTTL\<rparr>"

definition keyFor :: "dnslib \<Rightarrow> question \<Rightarrow> bool \<Rightarrow> cachekey" where
  "keyFor L q d = \<lparr>ck_name = ToLower (lib_Fqdn L (q_Name q)), ck_qtype = q_Qtype q, ck_do = d\<rparr>"

section \<open>Operations\<close>

definition removeLocked :: "nat \<Rightarrow> cache \<Rightarrow> cache" where
  "removeLocked el c =
     (case m_get (c_order c) el of
        None \<Rightarrow> c
      | Some e \<Rightarrow> c\<lparr>c_entries := m_del (ce_key e) (c_entries c), c_order := m_del el (c_order c)\<rparr>)"

text \<open>\<^verbatim>\<open>order.Back()\<close> is nil for an empty list, and removing nil does nothing.\<close>

definition removeBack :: "cache \<Rightarrow> cache" where
  "removeBack c = (if c_order c = [] then c else removeLocked (fst (last (c_order c))) c)"

text \<open>The loop that evicts down to the ceiling: \<open>None\<close> when it does not end.\<close>

partial_function (option) evict :: "cache \<Rightarrow> cache option" where
  "evict c = (if int (length (c_order c)) > c_maxEntries c then evict (removeBack c) else Some c)"

declare evict.simps [code]

definition clamp :: "32 word \<Rightarrow> 32 word \<Rightarrow> 32 word \<Rightarrow> 32 word" where
  "clamp v lo hi = (if v < lo then lo else if v > hi then hi else v)"

fun first_soa :: "rr list \<Rightarrow> soa_data option" where
  "first_soa [] = None"
| "first_soa (r # rs) = (case rr_Data r of RD_SOA s \<Rightarrow> Some s | _ \<Rightarrow> first_soa rs)"

definition lowest_ttl :: "rr list \<Rightarrow> 32 word" where
  "lowest_ttl rs = fold (\<lambda>r lowest. if rr_Ttl r < lowest then rr_Ttl r else lowest) rs (- 1)"

definition ttlFor :: "cache \<Rightarrow> msg \<Rightarrow> 32 word" where
  "ttlFor c m =
     (if Rcode m = RcodeNameError \<or> Answer m = []
      then (case first_soa (Ns m) of
          Some s \<Rightarrow> clamp (soa_Minttl s) (c_minTTL c) (c_negMaxTTL c)
        | None \<Rightarrow> 0)
      else clamp (lowest_ttl (Answer m)) (c_minTTL c) (c_maxTTL c))"

definition map_sections :: "(rr \<Rightarrow> rr) \<Rightarrow> msg \<Rightarrow> msg" where
  "map_sections f m = m\<lparr>Answer := map f (Answer m), Ns := map f (Ns m), Extra := map f (Extra m)\<rparr>"

definition age_rr :: "32 word \<Rightarrow> rr \<Rightarrow> rr" where
  "age_rr age r =
     (if rr_Rrtype r = TypeOPT then r
      else if rr_Ttl r > age then r\<lparr>rr_Ttl := rr_Ttl r - age\<rparr> else r\<lparr>rr_Ttl := 0\<rparr>)"

definition stamp_rr :: "32 word \<Rightarrow> rr \<Rightarrow> rr" where
  "stamp_rr ttl r = (if rr_Rrtype r = TypeOPT then r else r\<lparr>rr_Ttl := ttl\<rparr>)"

definition move_front :: "nat \<Rightarrow> centry \<Rightarrow> cache \<Rightarrow> cache" where
  "move_front el e c = c\<lparr>c_order := m_put el e (c_order c)\<rparr>"

definition lookup :: "dnslib \<Rightarrow> int \<Rightarrow> question \<Rightarrow> bool \<Rightarrow> cache \<Rightarrow> msg option \<times> cache" where
  "lookup L now q d c =
     (case m_get (c_entries c) (keyFor L q d) of
        None \<Rightarrow> (None, c)
      | Some el \<Rightarrow>
          (case m_get (c_order c) el of
             None \<Rightarrow> (None, c)
           | Some e \<Rightarrow>
               if \<not> now < ce_expires e then (None, removeLocked el c)
               else (Some (map_sections (age_rr (word_of_int ((now - ce_stored e) div 1000000000))) (ce_msg e)),
                     move_front el e c)))"

definition new_entry :: "dnslib \<Rightarrow> int \<Rightarrow> question \<Rightarrow> bool \<Rightarrow> msg \<Rightarrow> 32 word \<Rightarrow> centry" where
  "new_entry L now q d m ttl =
     \<lparr>ce_key = keyFor L q d, ce_msg = map_sections (stamp_rr ttl) m, ce_stored = now,
      ce_expires = now + uint ttl * 1000000000, ce_ttl = ttl\<rparr>"

definition insert_entry :: "centry \<Rightarrow> cache \<Rightarrow> cache" where
  "insert_entry e c0 =
     (let c = (case m_get (c_entries c0) (ce_key e) of Some el \<Rightarrow> removeLocked el c0 | None \<Rightarrow> c0)
      in c\<lparr>c_entries := m_put (ce_key e) (c_next c) (c_entries c),
           c_order := (c_next c, e) # c_order c, c_next := Suc (c_next c)\<rparr>)"

definition Put :: "dnslib \<Rightarrow> int \<Rightarrow> question \<Rightarrow> bool \<Rightarrow> msg option \<Rightarrow> cache \<Rightarrow> cache option" where
  "Put L now q d mm c =
     (case mm of
        None \<Rightarrow> Some c
      | Some m \<Rightarrow>
          let ttl = ttlFor c m
          in if ttl = 0 then Some c
             else evict (insert_entry (new_entry L now q d m ttl) c))"

definition Retune :: "int \<Rightarrow> int \<Rightarrow> int \<Rightarrow> int \<Rightarrow> cache \<Rightarrow> cache option" where
  "Retune maxEntries minTTL maxTTL negMaxTTL c =
     evict (c\<lparr>c_maxEntries := (if maxEntries < 1 then 1 else maxEntries), c_minTTL := word_of_int minTTL,
              c_maxTTL := word_of_int maxTTL, c_negMaxTTL := word_of_int negMaxTTL\<rparr>)"

definition Flush :: "cache \<Rightarrow> cache" where
  "Flush c = c\<lparr>c_entries := [], c_order := []\<rparr>"

definition Len :: "cache \<Rightarrow> int" where
  "Len c = int (length (c_order c))"

section \<open>The map indexes the list\<close>

definition cache_inv :: "cache \<Rightarrow> bool" where
  "cache_inv c =
     (m_wf (c_entries c) \<and> m_wf (c_order c) \<and>
      (\<forall>el e. m_get (c_order c) el = Some e \<longrightarrow> el < c_next c \<and> m_get (c_entries c) (ce_key e) = Some el) \<and>
      (\<forall>k el. m_get (c_entries c) k = Some el \<longrightarrow> (\<exists>e. m_get (c_order c) el = Some e \<and> ce_key e = k)))"

lemma cache_invD:
  assumes "cache_inv c"
  shows "m_wf (c_entries c)" and "m_wf (c_order c)"
    and "m_get (c_order c) el = Some e \<Longrightarrow> el < c_next c"
    and "m_get (c_order c) el = Some e \<Longrightarrow> m_get (c_entries c) (ce_key e) = Some el"
    and "m_get (c_entries c) k = Some el \<Longrightarrow> \<exists>e. m_get (c_order c) el = Some e \<and> ce_key e = k"
  using assms by (auto simp: cache_inv_def)

lemma cache_invI:
  assumes "m_wf (c_entries c)" and "m_wf (c_order c)"
    and "\<And>el e. m_get (c_order c) el = Some e \<Longrightarrow> el < c_next c \<and> m_get (c_entries c) (ce_key e) = Some el"
    and "\<And>k el. m_get (c_entries c) k = Some el \<Longrightarrow> \<exists>e. m_get (c_order c) el = Some e \<and> ce_key e = k"
  shows "cache_inv c"
  unfolding cache_inv_def using assms by blast

text \<open>Two elements of the list have different keys.\<close>

lemma cache_key_unique:
  assumes "cache_inv c" and "m_get (c_order c) el = Some e" and "m_get (c_order c) el' = Some e'"
  shows "ce_key e' = ce_key e \<longleftrightarrow> el' = el"
  using cache_invD(4) [OF assms(1,2)] cache_invD(4) [OF assms(1,3)] assms(2,3) by auto

lemma removeLocked_inv:
  assumes inv: "cache_inv c"
  shows "cache_inv (removeLocked el c)"
proof (cases "m_get (c_order c) el")
  case None
  then show ?thesis using inv by (simp add: removeLocked_def)
next
  case (Some e)
  let ?b = "c\<lparr>c_entries := m_del (ce_key e) (c_entries c), c_order := m_del el (c_order c)\<rparr>"
  have "cache_inv ?b"
  proof (rule cache_invI)
    show "m_wf (c_entries ?b)" "m_wf (c_order ?b)" using cache_invD(1,2) [OF inv] by simp_all
    fix el' e' assume "m_get (c_order ?b) el' = Some e'"
    then have *: "el' \<noteq> el" "m_get (c_order c) el' = Some e'" by (simp_all split: if_splits)
    then show "el' < c_next ?b \<and> m_get (c_entries ?b) (ce_key e') = Some el'"
      using cache_invD(3,4) [OF inv *(2)] cache_key_unique [OF inv Some *(2)] by simp
  next
    fix k el' assume "m_get (c_entries ?b) k = Some el'"
    then have *: "k \<noteq> ce_key e" "m_get (c_entries c) k = Some el'" by (simp_all split: if_splits)
    then obtain e' where e': "m_get (c_order c) el' = Some e'" "ce_key e' = k" using cache_invD(5) [OF inv] by blast
    then have "el' \<noteq> el" using Some *(1) by auto
    with e' show "\<exists>e. m_get (c_order ?b) el' = Some e \<and> ce_key e = k" by simp
  qed
  then show ?thesis using Some by (simp add: removeLocked_def)
qed

text \<open>What the list holds, most recently used first: the abstraction of the cache.\<close>

definition recent :: "cache \<Rightarrow> centry list" where
  "recent c = map snd (c_order c)"

definition without :: "cachekey \<Rightarrow> centry list \<Rightarrow> centry list" where
  "without k es = filter (\<lambda>e. ce_key e \<noteq> k) es"

lemma order_without:
  assumes inv: "cache_inv c" and get: "m_get (c_order c) el = Some e"
  shows "map snd (m_del el (c_order c)) = without (ce_key e) (recent c)"
proof -
  have "filter (\<lambda>p. fst p \<noteq> el) (c_order c) = filter (\<lambda>p. ce_key (snd p) \<noteq> ce_key e) (c_order c)"
  proof (rule filter_cong [OF refl])
    fix p assume "p \<in> set (c_order c)"
    then have "m_get (c_order c) (fst p) = Some (snd p)"
      using m_get_in [OF cache_invD(2) [OF inv], of "fst p" "snd p"] by simp
    then show "(fst p \<noteq> el) = (ce_key (snd p) \<noteq> ce_key e)" using cache_key_unique [OF inv get] by blast
  qed
  then show ?thesis by (simp add: m_del_def without_def recent_def filter_map comp_def)
qed

lemma removeLocked_recent:
  assumes "cache_inv c" and "m_get (c_order c) el = Some e"
  shows "recent (removeLocked el c) = without (ce_key e) (recent c)"
  using order_without [OF assms] assms(2) by (simp add: removeLocked_def recent_def)

lemma without_absent: "m_get (c_entries c) k = None \<Longrightarrow> cache_inv c \<Longrightarrow> without k (recent c) = recent c"
proof -
  assume none: "m_get (c_entries c) k = None" and inv: "cache_inv c"
  have "ce_key e \<noteq> k" if "e \<in> set (recent c)" for e
  proof -
    from that obtain el where "(el, e) \<in> set (c_order c)" by (auto simp: recent_def)
    then have "m_get (c_order c) el = Some e" using m_get_iff [OF cache_invD(2) [OF inv]] by blast
    then show ?thesis using cache_invD(4) [OF inv] none by auto
  qed
  then show ?thesis by (simp add: without_def filter_id_conv)
qed

lemma cache_fields_removeLocked [simp]:
  "c_maxEntries (removeLocked el c) = c_maxEntries c" "c_next (removeLocked el c) = c_next c"
  "c_minTTL (removeLocked el c) = c_minTTL c" "c_maxTTL (removeLocked el c) = c_maxTTL c" "c_negMaxTTL (removeLocked el c) = c_negMaxTTL c"
  by (simp_all add: removeLocked_def split: option.split)

lemma insert_entry_inv:
  assumes "cache_inv c0"
  shows "cache_inv (insert_entry e c0)" and "recent (insert_entry e c0) = e # without (ce_key e) (recent c0)"
proof -
  let ?c = "case m_get (c_entries c0) (ce_key e) of Some el \<Rightarrow> removeLocked el c0 | None \<Rightarrow> c0"
  have inv: "cache_inv ?c" using assms by (simp add: removeLocked_inv split: option.split)
  have gone: "m_get (c_entries ?c) (ce_key e) = None" and rec: "recent ?c = without (ce_key e) (recent c0)"
  proof -
    have "m_get (c_entries ?c) (ce_key e) = None \<and> recent ?c = without (ce_key e) (recent c0)"
    proof (cases "m_get (c_entries c0) (ce_key e)")
      case None
      then show ?thesis using without_absent [OF None assms] by simp
    next
      case (Some el)
      then obtain x where x: "m_get (c_order c0) el = Some x" "ce_key x = ce_key e"
        using cache_invD(5) [OF assms Some] by blast
      then show ?thesis using Some removeLocked_recent [OF assms x(1)] by (simp add: removeLocked_def)
    qed
    then show "m_get (c_entries ?c) (ce_key e) = None" "recent ?c = without (ce_key e) (recent c0)" by blast+
  qed
  have fresh: "m_get (c_order ?c) el = Some x \<Longrightarrow> el \<noteq> c_next ?c" for el x
    using cache_invD(3) [OF inv] by auto
  then have nofresh: "m_get (c_order ?c) (c_next ?c) = None" by (cases "m_get (c_order ?c) (c_next ?c)") auto
  let ?d = "?c\<lparr>c_entries := m_put (ce_key e) (c_next ?c) (c_entries ?c), c_order := (c_next ?c, e) # c_order ?c,
    c_next := Suc (c_next ?c)\<rparr>"
  have get: "m_get ((c_next ?c, e) # c_order ?c) el = (if el = c_next ?c then Some e else m_get (c_order ?c) el)" for el
    by (simp add: m_get_def)
  have "cache_inv ?d"
  proof (rule cache_invI)
    show "m_wf (c_entries ?d)" using cache_invD(1) [OF inv] by simp
    show "m_wf (c_order ?d)" using cache_invD(2) [OF inv] nofresh by (auto simp: m_wf_def m_get_None_iff)
    fix el x assume "m_get (c_order ?d) el = Some x"
    then show "el < c_next ?d \<and> m_get (c_entries ?d) (ce_key x) = Some el"
      using cache_invD(3,4) [OF inv, of el x] gone by (auto simp: get split: if_splits)
  next
    fix k el assume "m_get (c_entries ?d) k = Some el"
    then show "\<exists>x. m_get (c_order ?d) el = Some x \<and> ce_key x = k"
      using cache_invD(5) [OF inv, of k el] fresh by (auto simp: get split: if_splits)
  qed
  then show "cache_inv (insert_entry e c0)" by (simp add: insert_entry_def Let_def)
  show "recent (insert_entry e c0) = e # without (ce_key e) (recent c0)"
    using rec by (simp add: insert_entry_def Let_def recent_def)
qed

lemma move_front_inv:
  assumes inv: "cache_inv c" and get: "m_get (c_order c) el = Some e"
  shows "cache_inv (move_front el e c)" and "recent (move_front el e c) = e # without (ce_key e) (recent c)"
proof -
  have same: "m_get (c_order (move_front el e c)) x = m_get (c_order c) x" for x
    using get by (simp add: move_front_def)
  show "cache_inv (move_front el e c)"
    using inv by (auto simp: cache_inv_def same) (simp_all add: move_front_def)
  show "recent (move_front el e c) = e # without (ce_key e) (recent c)"
    using order_without [OF inv get] by (simp add: move_front_def recent_def m_put_def)
qed

lemma removeBack_recent:
  assumes inv: "cache_inv c"
  shows "cache_inv (removeBack c)" and "recent (removeBack c) = butlast (recent c)"
proof -
  show "cache_inv (removeBack c)" using removeLocked_inv [OF inv] inv by (simp add: removeBack_def)
  show "recent (removeBack c) = butlast (recent c)"
  proof (cases "c_order c" rule: rev_cases)
    case Nil
    then show ?thesis by (simp add: removeBack_def recent_def)
  next
    case (snoc ps p)
    obtain el e where p: "p = (el, e)" by (cases p)
    have wf: "m_wf (c_order c)" by (rule cache_invD(2) [OF inv])
    then have get: "m_get (c_order c) el = Some e" using snoc p by (intro m_get_in) auto
    have "\<forall>q \<in> set ps. fst q \<noteq> el" using wf snoc p by (auto simp: m_wf_def)
    then have "m_del el (c_order c) = ps" using snoc p by (simp add: m_del_def filter_id_conv)
    then show ?thesis using snoc p get by (simp add: removeBack_def removeLocked_def recent_def)
  qed
qed

lemma cache_fields_removeBack [simp]:
  "c_maxEntries (removeBack c) = c_maxEntries c" "c_minTTL (removeBack c) = c_minTTL c"
  "c_maxTTL (removeBack c) = c_maxTTL c" "c_negMaxTTL (removeBack c) = c_negMaxTTL c"
  by (simp_all add: removeBack_def)

lemma length_recent: "length (recent c) = length (c_order c)"
  by (simp add: recent_def)

text \<open>Above a ceiling that is not negative the loop ends, and it drops the least recently used entries.\<close>

lemma evict_returns:
  assumes "cache_inv c" and "0 \<le> c_maxEntries c"
  shows "\<exists>c'. evict c = Some c' \<and> cache_inv c' \<and> recent c' = take (nat (c_maxEntries c)) (recent c) \<and>
    c_maxEntries c' = c_maxEntries c \<and> c_minTTL c' = c_minTTL c \<and> c_maxTTL c' = c_maxTTL c \<and> c_negMaxTTL c' = c_negMaxTTL c"
  using assms
proof (induction "length (c_order c)" arbitrary: c rule: less_induct)
  case less
  show ?case
  proof (cases "int (length (c_order c)) > c_maxEntries c")
    case False
    then have "evict c = Some c" by (simp add: evict.simps)
    then show ?thesis using less.prems False by (auto simp: length_recent [symmetric])
  next
    case True
    have inv: "cache_inv (removeBack c)" and rec: "recent (removeBack c) = butlast (recent c)"
      using removeBack_recent [OF less.prems(1)] by auto
    have len: "length (c_order (removeBack c)) = length (c_order c) - 1"
      using rec by (simp flip: length_recent)
    have pos: "0 < length (c_order c)" using True less.prems(2) by linarith
    have "evict c = evict (removeBack c)" using True by (subst evict.simps) simp
    moreover have "take (nat (c_maxEntries c)) (butlast (recent c)) = take (nat (c_maxEntries c)) (recent c)"
      using True less.prems(2) by (simp add: take_butlast length_recent nat_less_iff)
    ultimately show ?thesis
      using less.hyps [of "removeBack c"] inv len pos less.prems(2) rec by simp
  qed
qed

lemma evict_some:
  assumes "evict c = Some c'"
  shows "\<not> (c_order c = [] \<and> c_maxEntries c < 0)"
  by (rule evict.raw_induct [where P = "\<lambda>x y. \<not> (c_order x = [] \<and> c_maxEntries x < 0)", OF _ assms])
     (auto simp: removeBack_def split: if_splits)

text \<open>Below zero it never ends: once the list is empty it goes on removing nothing.\<close>

lemma evict_spins: "c_order c = [] \<Longrightarrow> c_maxEntries c < 0 \<Longrightarrow> evict c = None"
  using evict_some [of c] by (cases "evict c") auto

section \<open>Runs of the cache\<close>

datatype cache_op =
    CGet int question bool
  | CPut int question bool "msg option"
  | CRetune int int int int
  | CFlush

fun cache_exec :: "dnslib \<Rightarrow> cache_op \<Rightarrow> cache \<Rightarrow> cache option" where
  "cache_exec L (CGet now q d) c = Some (snd (lookup L now q d c))"
| "cache_exec L (CPut now q d m) c = Put L now q d m c"
| "cache_exec L (CRetune n lo hi neg) c = Retune n lo hi neg c"
| "cache_exec L CFlush c = Some (Flush c)"

fun cache_run :: "dnslib \<Rightarrow> cache_op list \<Rightarrow> cache \<Rightarrow> cache option" where
  "cache_run L [] c = Some c"
| "cache_run L (op # ops) c = (case cache_exec L op c of None \<Rightarrow> None | Some c' \<Rightarrow> cache_run L ops c')"

definition entry_ok :: "centry \<Rightarrow> bool" where
  "entry_ok e =
     (0 < ce_ttl e \<and> ce_expires e = ce_stored e + uint (ce_ttl e) * 1000000000 \<and>
      (\<forall>r \<in> set (Answer (ce_msg e)) \<union> set (Ns (ce_msg e)) \<union> set (Extra (ce_msg e)).
         rr_Rrtype r \<noteq> TypeOPT \<longrightarrow> rr_Ttl r = ce_ttl e))"

definition cache_ok :: "cache \<Rightarrow> bool" where
  "cache_ok c =
     (cache_inv c \<and> 0 \<le> c_maxEntries c \<and> Len c \<le> c_maxEntries c \<and> (\<forall>e \<in> set (recent c). entry_ok e))"

lemma new_entry_ok: "ttl \<noteq> 0 \<Longrightarrow> entry_ok (new_entry L now q d m ttl)"
  by (auto simp: entry_ok_def new_entry_def map_sections_def stamp_rr_def word_neq_0_conv)

lemma set_without: "set (without k es) \<subseteq> set es"
  by (auto simp: without_def)

lemma Len_take: "Len c' = int (length (recent c'))"
  by (simp add: Len_def length_recent)

lemma Put_stores:
  assumes "cache_inv c" and "0 \<le> c_maxEntries c" and "ttlFor c m \<noteq> 0"
  obtains c' where "Put L now q d (Some m) c = Some c'" "cache_inv c'" "c_maxEntries c' = c_maxEntries c"
    "recent c' = take (nat (c_maxEntries c)) (new_entry L now q d m (ttlFor c m) # without (keyFor L q d) (recent c))"
proof -
  let ?e = "new_entry L now q d m (ttlFor c m)"
  have mx: "c_maxEntries (insert_entry ?e c) = c_maxEntries c"
    by (simp add: insert_entry_def Let_def split: option.split)
  have k: "ce_key ?e = keyFor L q d" by (simp add: new_entry_def)
  from evict_returns [OF insert_entry_inv(1) [OF assms(1), of ?e]] mx assms(2)
  obtain c' where "evict (insert_entry ?e c) = Some c'" "cache_inv c'" "c_maxEntries c' = c_maxEntries c"
    "recent c' = take (nat (c_maxEntries c)) (recent (insert_entry ?e c))" by auto
  then show thesis
    using that insert_entry_inv(2) [OF assms(1), of ?e] assms(3) k by (simp add: Put_def Let_def)
qed

lemma Put_ok:
  assumes "cache_ok c"
  shows "\<exists>c'. Put L now q d mm c = Some c' \<and> cache_ok c'"
proof (cases "\<exists>m. mm = Some m \<and> ttlFor c m \<noteq> 0")
  case True
  then obtain m where m: "mm = Some m" "ttlFor c m \<noteq> 0" by blast
  from assms have inv: "cache_inv c" "0 \<le> c_maxEntries c" by (auto simp: cache_ok_def)
  from Put_stores [OF inv m(2)] obtain c' where c': "Put L now q d (Some m) c = Some c'" "cache_inv c'" "c_maxEntries c' = c_maxEntries c"
    "recent c' = take (nat (c_maxEntries c)) (new_entry L now q d m (ttlFor c m) # without (keyFor L q d) (recent c))" .
  have "\<forall>e \<in> set (recent c'). entry_ok e"
    using assms new_entry_ok [OF m(2)] set_without set_take_subset
    unfolding c'(4) cache_ok_def by (metis (no_types, lifting) set_ConsD subset_iff)
  then show ?thesis using c' m inv(2) by (auto simp: cache_ok_def Len_take)
next
  case False
  then show ?thesis using assms by (auto simp: Put_def Let_def split: option.split)
qed

lemma lookup_ok: "cache_ok c \<Longrightarrow> cache_ok (snd (lookup L now q d c))"
proof -
  assume ok: "cache_ok c"
  then have inv: "cache_inv c" by (simp add: cache_ok_def)
  have rem: "cache_ok (removeLocked el c)" for el
  proof (cases "m_get (c_order c) el")
    case None
    then show ?thesis using ok by (simp add: removeLocked_def)
  next
    case (Some e)
    have "length (without (ce_key e) (recent c)) \<le> length (recent c)" by (simp add: without_def)
    then show ?thesis
      using ok removeLocked_inv [OF inv]
      by (auto simp: cache_ok_def removeLocked_recent [OF inv Some] Len_take dest: subsetD [OF set_without])
  qed
  have front: "cache_ok (move_front el e c)" if get: "m_get (c_order c) el = Some e" for el e
  proof -
    have mem: "e \<in> set (recent c)" using m_get_Some_in [OF get] by (force simp: recent_def)
    then have "without (ce_key e) (recent c) \<noteq> recent c" by (auto simp: without_def filter_id_conv)
    then have "length (without (ce_key e) (recent c)) < length (recent c)"
      using mem by (auto simp: without_def intro: length_filter_less)
    then show ?thesis
      using ok mem move_front_inv [OF inv get]
      by (auto simp: cache_ok_def Len_take dest: subsetD [OF set_without]) (simp_all add: move_front_def)
  qed
  show ?thesis using ok rem front by (auto simp: lookup_def split: option.split)
qed

lemma Retune_ok:
  assumes "cache_ok c"
  shows "\<exists>c'. Retune n lo hi neg c = Some c' \<and> cache_ok c'"
proof -
  let ?b = "c\<lparr>c_maxEntries := (if n < 1 then 1 else n), c_minTTL := word_of_int lo, c_maxTTL := word_of_int hi, c_negMaxTTL := word_of_int neg\<rparr>"
  have inv: "cache_inv ?b" and mx: "0 \<le> c_maxEntries ?b" using assms by (simp_all add: cache_ok_def cache_inv_def)
  have "recent ?b = recent c" by (simp add: recent_def)
  then show ?thesis
    using evict_returns [OF inv mx] assms set_take_subset mx
    unfolding Retune_def cache_ok_def Len_take by (fastforce dest: in_set_takeD)
qed

lemma Flush_ok: "cache_ok c \<Longrightarrow> cache_ok (Flush c)"
  by (auto simp: cache_ok_def Flush_def Len_def recent_def cache_inv_def)

lemma cache_exec_ok: "cache_ok c \<Longrightarrow> \<exists>c'. cache_exec L op c = Some c' \<and> cache_ok c'"
  using lookup_ok Put_ok Retune_ok Flush_ok by (cases op) auto

lemma cache_run_ok: "cache_ok c \<Longrightarrow> \<exists>c'. cache_run L ops c = Some c' \<and> cache_ok c'"
proof (induction ops arbitrary: c)
  case Nil
  then show ?case by simp
next
  case (Cons op ops)
  from cache_exec_ok [OF Cons.prems] obtain c1 where "cache_exec L op c = Some c1" "cache_ok c1" by blast
  with Cons.IH show ?case by simp
qed

lemma NewCache_ok: "0 \<le> n \<Longrightarrow> cache_ok (NewCache n lo hi neg)"
  by (simp add: cache_ok_def NewCache_def Len_def recent_def cache_inv_def)

section \<open>What the cache promises\<close>

text \<open>
  C40: the cache stays within its ceiling and every operation returns. From a new cache with a
  ceiling that is not negative, any run of lookups, stores, retunes and flushes ends, in a cache that
  holds at most as many entries as its ceiling, one per question, with the index and the list of use in agreement.
\<close>

theorem cache_runs_within_ceiling:
  assumes "0 \<le> n"
  shows "\<exists>c. cache_run L ops (NewCache n lo hi neg) = Some c \<and> Len c \<le> c_maxEntries c \<and> cache_inv c"
  using cache_run_ok [OF NewCache_ok [OF assms], of L ops lo hi neg] by (auto simp: cache_ok_def)

definition answer_a :: "string \<Rightarrow> 32 word \<Rightarrow> msg" where
  "answer_a n ttl = new_msg\<lparr>Response := True, Answer :=
     [\<lparr>rr_Name = n, rr_Rrtype = TypeA, rr_Class = ClassINET, rr_Ttl = ttl, rr_Data = RD_A (Some (Addr4 0x01020304))\<rparr>]\<rparr>"

definition ask :: "string \<Rightarrow> question" where
  "ask n = \<lparr>q_Name = n, q_Qtype = TypeA, q_Qclass = ClassINET\<rparr>"

theorem cache_runs_within_ceiling_witness:
  "\<exists>c. cache_run plain_lib [CPut 0 (ask ''a.'') False (Some (answer_a ''a.'' 300)),
        CPut 1 (ask ''b.'') False (Some (answer_a ''b.'' 300)), CGet 2 (ask ''a.'') False,
        CPut 3 (ask ''c.'') False (Some (answer_a ''c.'' 300)), CRetune (-5) 0 86400 300] (NewCache 2 0 86400 300) = Some c \<and>
      Len c \<le> c_maxEntries c \<and> map (\<lambda>e. ck_name (ce_key e)) (recent c) = [''c.'']"
proof -
  let ?ops = "[CPut 0 (ask ''a.'') False (Some (answer_a ''a.'' 300)),
        CPut 1 (ask ''b.'') False (Some (answer_a ''b.'' 300)), CGet 2 (ask ''a.'') False,
        CPut 3 (ask ''c.'') False (Some (answer_a ''c.'' 300)), CRetune (-5) 0 86400 300]"
  let ?r = "cache_run plain_lib ?ops (NewCache 2 0 86400 300)"
  have e: "map_option (\<lambda>c. map (\<lambda>e. ck_name (ce_key e)) (recent c)) ?r = Some [''c.'']" by code_simp
  have z: "0 \<le> (2 :: int)" by simp
  from cache_runs_within_ceiling [OF z, of plain_lib ?ops 0 86400 300]
  obtain c where c: "?r = Some c" "Len c \<le> c_maxEntries c" by blast
  from e have "map (\<lambda>e. ck_name (ce_key e)) (recent c) = [''c.'']" unfolding c(1) by simp
  with c show ?thesis by (intro exI [of _ c] conjI)
qed

lemma lookup_recent_hd:
  assumes inv: "cache_inv c" and hd: "recent c = e # es" and k: "ce_key e = keyFor L q d" and t: "now < ce_expires e"
  shows "fst (lookup L now q d c) = Some (map_sections (age_rr (word_of_int ((now - ce_stored e) div 1000000000))) (ce_msg e))"
proof -
  from hd obtain el ps where o: "c_order c = (el, e) # ps" by (auto simp: recent_def)
  then have get: "m_get (c_order c) el = Some e" by (simp add: m_get_def)
  from cache_invD(4) [OF inv this] k t get show ?thesis by (simp add: lookup_def)
qed

text \<open>
  The cache is an LRU map and a stored response is found again. Storing a cacheable response
  puts it in front, drops any older response to the same question and, above the ceiling,
  exactly the least recently used entries. Until its TTL runs out a lookup of the same question then
  returns the stored response with every TTL (the pseudo-record OPT apart) set to the clamped
  TTL and aged by the seconds that have passed.
\<close>

theorem Put_then_lookup:
  assumes "cache_inv c" and "1 \<le> c_maxEntries c" and "ttl = ttlFor c m" and "ttl \<noteq> 0"
  shows "\<exists>c'. Put L now q d (Some m) c = Some c' \<and>
    recent c' = take (nat (c_maxEntries c)) (new_entry L now q d m ttl # without (keyFor L q d) (recent c)) \<and>
    (\<forall>t. now \<le> t \<and> t < now + uint ttl * 1000000000 \<longrightarrow>
       fst (lookup L t q d c') =
         Some (map_sections (age_rr (word_of_int ((t - now) div 1000000000))) (map_sections (stamp_rr ttl) m)))"
proof -
  have "0 \<le> c_maxEntries c" "ttlFor c m \<noteq> 0" using assms by auto
  from Put_stores [OF assms(1) this, of L now q d]
  obtain c' where c': "Put L now q d (Some m) c = Some c'" "cache_inv c'"
    "recent c' = take (nat (c_maxEntries c)) (new_entry L now q d m ttl # without (keyFor L q d) (recent c))"
    using assms(3) by blast
  obtain k where k: "nat (c_maxEntries c) = Suc k" using assms(2) by (cases "nat (c_maxEntries c)") auto
  then have hd: "recent c' = new_entry L now q d m ttl # take k (without (keyFor L q d) (recent c))" using c'(3) by simp
  have "fst (lookup L t q d c') = Some (map_sections (age_rr (word_of_int ((t - now) div 1000000000))) (map_sections (stamp_rr ttl) m))"
    if "t < now + uint ttl * 1000000000" for t
    using lookup_recent_hd [OF c'(2) hd, of L q d t] that by (simp add: new_entry_def)
  with c' show ?thesis by blast
qed

theorem Put_then_lookup_witness:
  "\<exists>c'. Put plain_lib 0 (ask ''a.'') True (Some (answer_a ''a.'' 300)) (NewCache 2 0 120 60) = Some c' \<and>
     map_option (\<lambda>m. map rr_Ttl (Answer m)) (fst (lookup plain_lib 7500000000 (ask ''A.'') True c')) = Some [113]"
proof -
  have t: "120 = ttlFor (NewCache 2 0 120 60) (answer_a ''a.'' 300)" by code_simp
  have k: "keyFor plain_lib (ask ''A.'') True = keyFor plain_lib (ask ''a.'') True" by code_simp
  have inv: "cache_inv (NewCache 2 0 120 60)" using NewCache_ok [of 2] by (simp add: cache_ok_def)
  have mx: "1 \<le> c_maxEntries (NewCache 2 0 120 60)" by (simp add: NewCache_def)
  from Put_then_lookup [OF inv mx t, of plain_lib 0 "ask ''a.''" True]
  obtain c' where c': "Put plain_lib 0 (ask ''a.'') True (Some (answer_a ''a.'' 300)) (NewCache 2 0 120 60) = Some c'"
    "fst (lookup plain_lib 7500000000 (ask ''a.'') True c') =
       Some (map_sections (age_rr (word_of_int (7500000000 div 1000000000))) (map_sections (stamp_rr 120) (answer_a ''a.'' 300)))"
    by auto
  have "lookup plain_lib t (ask ''A.'') True c' = lookup plain_lib t (ask ''a.'') True c'" for t
    by (simp add: lookup_def k)
  moreover have "map rr_Ttl (Answer (map_sections (age_rr (word_of_int (7500000000 div 1000000000)))
      (map_sections (stamp_rr 120) (answer_a ''a.'' 300)))) = [113]" by code_simp
  ultimately show ?thesis using c' by (intro exI [of _ c']) simp
qed

lemma lookup_hit:
  assumes "cache_inv c" and "fst (lookup L now q d c) = Some m"
  obtains e where "e \<in> set (recent c)" "ce_key e = keyFor L q d" "now < ce_expires e"
    "m = map_sections (age_rr (word_of_int ((now - ce_stored e) div 1000000000))) (ce_msg e)"
proof -
  from assms(2) obtain el e where e: "m_get (c_entries c) (keyFor L q d) = Some el" "m_get (c_order c) el = Some e"
    "now < ce_expires e" "m = map_sections (age_rr (word_of_int ((now - ce_stored e) div 1000000000))) (ce_msg e)"
    by (auto simp: lookup_def split: option.splits if_splits)
  moreover have "ce_key e = keyFor L q d" using cache_invD(5) [OF assms(1) e(1)] e(2) by auto
  moreover have "e \<in> set (recent c)" using m_get_Some_in [OF e(2)] by (force simp: recent_def)
  ultimately show thesis using that by blast
qed

text \<open>The TTL an entry is served with is what is left of its life, rounded up to whole seconds.\<close>

lemma aged_ttl:
  fixes ttl :: "32 word" and now stored :: int
  assumes "stored \<le> now" and "now < stored + uint ttl * 1000000000"
  defines "age \<equiv> word_of_int ((now - stored) div 1000000000) :: 32 word"
  shows "age < ttl" and "uint (ttl - age) = uint ttl - (now - stored) div 1000000000"
proof -
  let ?a = "(now - stored) div 1000000000"
  have a: "0 \<le> ?a" "?a < uint ttl" using assms(1,2) by (auto simp: pos_imp_zdiv_nonneg_iff)
  moreover have "uint ttl < 2 ^ 32" using uint_bounded [of ttl] by simp
  ultimately have u: "uint age = ?a" by (simp add: age_def uint_word_of_int mod_pos_pos_trivial)
  with a show lt: "age < ttl" by (simp add: word_less_def)
  then show "uint (ttl - age) = uint ttl - ?a" using uint_minus_simple_alt [of age ttl] u less_imp_le [OF lt] by simp
qed

text \<open>
  The cache never serves a record past its life. In any reachable cache, with a clock that has not
  gone back, a hit carries a TTL between 1 and the clamped TTL on every record but OPT, and that TTL
  is the remaining life of the entry rounded up to whole seconds.
\<close>

theorem cache_hit_lifetime:
  assumes "0 \<le> n" and "cache_run L ops (NewCache n lo hi neg) = Some c"
    and "\<forall>e \<in> set (recent c). ce_stored e \<le> now"
    and "fst (lookup L now q d c) = Some m"
  shows "\<exists>e \<in> set (recent c). ce_key e = keyFor L q d \<and>
    (\<forall>r \<in> set (Answer m) \<union> set (Ns m) \<union> set (Extra m). rr_Rrtype r \<noteq> TypeOPT \<longrightarrow>
       0 < rr_Ttl r \<and> rr_Ttl r \<le> ce_ttl e \<and>
       uint (rr_Ttl r) * 1000000000 - 1000000000 < ce_expires e - now \<and> ce_expires e - now \<le> uint (rr_Ttl r) * 1000000000)"
proof -
  have ok: "cache_ok c" using cache_run_ok [OF NewCache_ok [OF assms(1)], of L ops lo hi neg] assms(2) by auto
  then have inv: "cache_inv c" by (simp add: cache_ok_def)
  from lookup_hit [OF inv assms(4)] obtain e where e: "e \<in> set (recent c)" "ce_key e = keyFor L q d" "now < ce_expires e"
    "m = map_sections (age_rr (word_of_int ((now - ce_stored e) div 1000000000))) (ce_msg e)" .
  have eok: "entry_ok e" using ok e(1) by (simp add: cache_ok_def)
  then have x: "ce_expires e = ce_stored e + uint (ce_ttl e) * 1000000000" by (simp add: entry_ok_def)
  let ?age = "word_of_int ((now - ce_stored e) div 1000000000) :: 32 word"
  have st: "ce_stored e \<le> now" using assms(3) e(1) by blast
  note aged = aged_ttl [OF st, of "ce_ttl e", folded x, OF e(3)]
  let ?t = "ce_ttl e - ?age"
  have t: "0 < ?t" "?t \<le> ce_ttl e" "uint ?t * 1000000000 - 1000000000 < ce_expires e - now" "ce_expires e - now \<le> uint ?t * 1000000000"
  proof -
    have d: "(now - ce_stored e) div 1000000000 * 1000000000 \<le> now - ce_stored e"
      "now - ce_stored e < (now - ce_stored e) div 1000000000 * 1000000000 + 1000000000" by linarith+
    have "(now - ce_stored e) div 1000000000 < uint (ce_ttl e)" using e(3) x by linarith
    then show "0 < ?t" using aged(2) by (simp add: word_less_def)
    have "0 \<le> (now - ce_stored e) div 1000000000" using st by (simp add: pos_imp_zdiv_nonneg_iff)
    then show "?t \<le> ce_ttl e" using aged(2) by (simp add: word_le_def)
    show "uint ?t * 1000000000 - 1000000000 < ce_expires e - now" "ce_expires e - now \<le> uint ?t * 1000000000"
      using d aged(2) x by (simp_all add: left_diff_distrib)
  qed
  have ttl: "rr_Ttl r = ?t" if "r \<in> set (Answer m) \<union> set (Ns m) \<union> set (Extra m)" "rr_Rrtype r \<noteq> TypeOPT" for r
  proof -
    from that(1) obtain r0 where r0: "r0 \<in> set (Answer (ce_msg e)) \<union> set (Ns (ce_msg e)) \<union> set (Extra (ce_msg e))" "r = age_rr ?age r0"
      unfolding e(4) map_sections_def by auto
    have "rr_Rrtype (age_rr ?age r0) = rr_Rrtype r0" by (simp add: age_rr_def)
    then have ty: "rr_Rrtype r0 \<noteq> TypeOPT" using that(2) r0(2) by simp
    then have "rr_Ttl r0 = ce_ttl e" using eok r0(1) unfolding entry_ok_def by blast
    then show ?thesis unfolding r0(2) age_rr_def using ty aged(1) by simp
  qed
  show ?thesis
  proof (rule bexI [OF _ e(1)], intro conjI [OF e(2)] ballI impI)
    fix r
    assume "r \<in> set (Answer m) \<union> set (Ns m) \<union> set (Extra m)" "rr_Rrtype r \<noteq> TypeOPT"
    from t show "0 < rr_Ttl r \<and> rr_Ttl r \<le> ce_ttl e \<and>
       uint (rr_Ttl r) * 1000000000 - 1000000000 < ce_expires e - now \<and> ce_expires e - now \<le> uint (rr_Ttl r) * 1000000000"
      unfolding ttl [OF \<open>r \<in> _\<close> \<open>rr_Rrtype r \<noteq> _\<close>] by (intro conjI)
  qed
qed

theorem cache_hit_lifetime_witness:
  "\<exists>m. fst (lookup plain_lib 7500000000 (ask ''a.'') False
        (the (cache_run plain_lib [CPut 0 (ask ''a.'') False (Some (answer_a ''a.'' 300))] (NewCache 2 0 120 60)))) = Some m \<and>
      (\<forall>r \<in> set (Answer m). 0 < rr_Ttl r)"
proof -
  let ?ops = "[CPut 0 (ask ''a.'') False (Some (answer_a ''a.'' 300))]"
  let ?r = "cache_run plain_lib ?ops (NewCache 2 0 120 60)"
  let ?c = "the ?r"
  have z: "0 \<le> (2 :: int)" by simp
  from cache_run_ok [OF NewCache_ok [OF z, of 0 120 60], of plain_lib ?ops] obtain c0 where "?r = Some c0" by blast
  then have c: "?r = Some ?c" by (simp only: option.sel)
  have s: "\<forall>e \<in> set (recent ?c). ce_stored e \<le> 7500000000" by code_simp
  have ty: "map_option (\<lambda>m. map rr_Rrtype (Answer m)) (fst (lookup plain_lib 7500000000 (ask ''a.'') False ?c)) = Some [TypeA]"
    by code_simp
  then obtain m where m: "fst (lookup plain_lib 7500000000 (ask ''a.'') False ?c) = Some m" "map rr_Rrtype (Answer m) = [TypeA]"
    by (cases "fst (lookup plain_lib 7500000000 (ask ''a.'') False ?c)") simp_all
  have "\<forall>r \<in> set (Answer m). rr_Rrtype r \<noteq> TypeOPT"
    using m(2) by (auto simp: TypeA_def TypeOPT_def)
  with cache_hit_lifetime [OF z c s m(1)] have "\<forall>r \<in> set (Answer m). 0 < rr_Ttl r" by auto
  with m(1) show ?thesis by (intro exI [of _ m] conjI)
qed

text \<open>
  A negative answer can be kept longer than the ceiling set for negative answers: when the
  minimum TTL is above it, a response with a shorter SOA minimum is stored for the minimum TTL.
\<close>

theorem negative_ttl_above_its_ceiling:
  assumes "Rcode m = RcodeNameError" and "first_soa (Ns m) = Some s" and "soa_Minttl s < c_minTTL c"
    and "c_negMaxTTL c < c_minTTL c"
  shows "ttlFor c m = c_minTTL c \<and> c_negMaxTTL c < ttlFor c m"
  using assms by (simp add: ttlFor_def clamp_def)

theorem negative_ttl_above_its_ceiling_witness:
  "ttlFor (NewCache 10000 60 86400 30)
     (new_msg\<lparr>Rcode := RcodeNameError, Ns := [\<lparr>rr_Name = ''com.'', rr_Rrtype = TypeSOA, rr_Class = ClassINET, rr_Ttl = 900,
        rr_Data = RD_SOA \<lparr>soa_Ns = ''a.'', soa_Mbox = ''b.'', soa_Serial = 1, soa_Refresh = 1, soa_Retry = 1, soa_Expire = 1, soa_Minttl = 10\<rparr>\<rparr>]\<rparr>) = 60"
proof -
  let ?s = "\<lparr>soa_Ns = ''a.'', soa_Mbox = ''b.'', soa_Serial = 1, soa_Refresh = 1, soa_Retry = 1, soa_Expire = 1, soa_Minttl = 10\<rparr>"
  let ?m = "new_msg\<lparr>Rcode := RcodeNameError, Ns := [\<lparr>rr_Name = ''com.'', rr_Rrtype = TypeSOA, rr_Class = ClassINET, rr_Ttl = 900, rr_Data = RD_SOA ?s\<rparr>]\<rparr>"
  show ?thesis using negative_ttl_above_its_ceiling [of ?m ?s "NewCache 10000 60 86400 30"] by (simp add: NewCache_def)
qed

end
