(* ===== verification/DnsMetrics.thy ===== *)
theory DnsMetrics
  imports DnsMsg
begin

text \<open>
  Query counters and their one-hour history, \<^verbatim>\<open>internal/dnsserver/metrics.go\<close> and \<^verbatim>\<open>history.go\<close>.
  Counters are 64-bit words and wrap; durations are nanoseconds, times Unix seconds.
\<close>

section \<open>Outcomes\<close>

datatype outcome =
  outcomeError | outcomeAuthoritative | outcomeForwarded | outcomeBlocked | outcomeRefused

definition outcomeFor :: "string \<Rightarrow> outcome" where
  "outcomeFor source =
     (if source = ''authoritative'' then outcomeAuthoritative
      else if source = ''forward'' then outcomeForwarded
      else if source = ''blocked'' then outcomeBlocked
      else if source = ''acl'' then outcomeRefused
      else outcomeError)"

section \<open>History\<close>

record bucket =
  b_Minute :: int
  b_Authoritative :: "64 word"
  b_Forwarded :: "64 word"
  b_Blocked :: "64 word"
  b_CacheHits :: "64 word"
  b_CacheMisses :: "64 word"
  b_LatencySum :: "64 word"
  b_LatencyCount :: "64 word"

definition histSlots :: int where
  "histSlots = 60"

definition new_bucket :: "int \<Rightarrow> bucket" where
  "new_bucket m = \<lparr>b_Minute = m, b_Authoritative = 0, b_Forwarded = 0, b_Blocked = 0, b_CacheHits = 0,
     b_CacheMisses = 0, b_LatencySum = 0, b_LatencyCount = 0\<rparr>"

definition newHistory :: "bucket list" where
  "newHistory = replicate 60 (new_bucket 0)"

text \<open>The index of a minute; \<^verbatim>\<open>%\<close> and \<open>mod\<close> agree on the minutes since 1970.\<close>

definition slot :: "int \<Rightarrow> nat" where
  "slot minute = nat (minute mod histSlots)"

text \<open>\<^verbatim>\<open>current\<close>: the bucket of a minute, reset when the slot holds another minute's.\<close>

definition current :: "bucket list \<Rightarrow> int \<Rightarrow> bucket" where
  "current h minute = (let b = h ! slot minute in if b_Minute b \<noteq> minute then new_bucket minute else b)"

definition millis :: "int \<Rightarrow> 64 word" where
  "millis d = word_of_int (d div 1000000)"

definition add_outcome :: "outcome \<Rightarrow> int \<Rightarrow> bucket \<Rightarrow> bucket" where
  "add_outcome out d b =
     (let b1 = (case out of
            outcomeAuthoritative \<Rightarrow> b\<lparr>b_Authoritative := b_Authoritative b + 1\<rparr>
          | outcomeForwarded \<Rightarrow> b\<lparr>b_Forwarded := b_Forwarded b + 1\<rparr>
          | outcomeBlocked \<Rightarrow> b\<lparr>b_Blocked := b_Blocked b + 1\<rparr>
          | _ \<Rightarrow> b)
      in b1\<lparr>b_LatencySum := b_LatencySum b1 + millis d, b_LatencyCount := b_LatencyCount b1 + 1\<rparr>)"

definition add_cache :: "bool \<Rightarrow> bucket \<Rightarrow> bucket" where
  "add_cache hit b = (if hit then b\<lparr>b_CacheHits := b_CacheHits b + 1\<rparr> else b\<lparr>b_CacheMisses := b_CacheMisses b + 1\<rparr>)"

definition hist_update :: "int \<Rightarrow> (bucket \<Rightarrow> bucket) \<Rightarrow> bucket list \<Rightarrow> bucket list" where
  "hist_update now_s f h = (let minute = now_s div 60 in h[slot minute := f (current h minute)])"

definition hist_add :: "int \<Rightarrow> outcome \<Rightarrow> int \<Rightarrow> bucket list \<Rightarrow> bucket list" where
  "hist_add now_s out d = hist_update now_s (add_outcome out d)"

definition hist_addCache :: "int \<Rightarrow> bool \<Rightarrow> bucket list \<Rightarrow> bucket list" where
  "hist_addCache now_s hit = hist_update now_s (add_cache hit)"

definition hist_snapshot :: "int \<Rightarrow> bucket list \<Rightarrow> bucket list" where
  "hist_snapshot now_s h = map (\<lambda>i. current h (now_s div 60 - int i)) (rev [0..<60])"

section \<open>Counters\<close>

record metrics =
  mt_total :: "64 word"
  mt_authoritative :: "64 word"
  mt_forwarded :: "64 word"
  mt_blocked :: "64 word"
  mt_refused :: "64 word"
  mt_errs :: "64 word"
  mt_noerror :: "64 word"
  mt_nxdomain :: "64 word"
  mt_servfail :: "64 word"
  mt_cacheHits :: "64 word"
  mt_cacheMisses :: "64 word"
  mt_latSum :: "64 word"
  mt_latCount :: "64 word"
  mt_lastQuery :: int
  mt_hist :: "bucket list"

definition NewMetrics :: metrics where
  "NewMetrics = \<lparr>mt_total = 0, mt_authoritative = 0, mt_forwarded = 0, mt_blocked = 0, mt_refused = 0, mt_errs = 0,
     mt_noerror = 0, mt_nxdomain = 0, mt_servfail = 0, mt_cacheHits = 0, mt_cacheMisses = 0, mt_latSum = 0,
     mt_latCount = 0, mt_lastQuery = 0, mt_hist = newHistory\<rparr>"

definition count_outcome :: "outcome \<Rightarrow> metrics \<Rightarrow> metrics" where
  "count_outcome out m =
     (case out of
        outcomeAuthoritative \<Rightarrow> m\<lparr>mt_authoritative := mt_authoritative m + 1\<rparr>
      | outcomeForwarded \<Rightarrow> m\<lparr>mt_forwarded := mt_forwarded m + 1\<rparr>
      | outcomeBlocked \<Rightarrow> m\<lparr>mt_blocked := mt_blocked m + 1\<rparr>
      | outcomeRefused \<Rightarrow> m\<lparr>mt_refused := mt_refused m + 1\<rparr>
      | outcomeError \<Rightarrow> m\<lparr>mt_errs := mt_errs m + 1\<rparr>)"

definition count_rcode :: "int \<Rightarrow> metrics \<Rightarrow> metrics" where
  "count_rcode rcode m =
     (if rcode = RcodeSuccess then m\<lparr>mt_noerror := mt_noerror m + 1\<rparr>
      else if rcode = RcodeNameError then m\<lparr>mt_nxdomain := mt_nxdomain m + 1\<rparr>
      else if rcode = RcodeServerFailure then m\<lparr>mt_servfail := mt_servfail m + 1\<rparr>
      else m)"

definition Record :: "int \<Rightarrow> string \<Rightarrow> int \<Rightarrow> int \<Rightarrow> metrics \<Rightarrow> metrics" where
  "Record now_s source rcode d m0 =
     (let out = outcomeFor source;
          m1 = count_rcode rcode (count_outcome out (m0\<lparr>mt_total := mt_total m0 + 1\<rparr>))
      in m1\<lparr>mt_latSum := mt_latSum m1 + millis d, mt_latCount := mt_latCount m1 + 1, mt_lastQuery := now_s,
            mt_hist := hist_add now_s out d (mt_hist m1)\<rparr>)"

definition RecordCache :: "int \<Rightarrow> bool \<Rightarrow> metrics \<Rightarrow> metrics" where
  "RecordCache now_s hit m =
     (let m1 = (if hit then m\<lparr>mt_cacheHits := mt_cacheHits m + 1\<rparr> else m\<lparr>mt_cacheMisses := mt_cacheMisses m + 1\<rparr>)
      in m1\<lparr>mt_hist := hist_addCache now_s hit (mt_hist m1)\<rparr>)"

definition AvgMS :: "metrics \<Rightarrow> 64 word" where
  "AvgMS m = (if mt_latCount m = 0 then 0 else mt_latSum m div mt_latCount m)"

definition CacheHitRate :: "metrics \<Rightarrow> 64 word" where
  "CacheHitRate m =
     (let total = mt_cacheHits m + mt_cacheMisses m in if total = 0 then 0 else mt_cacheHits m * 100 div total)"

section \<open>The outcomes sum to the total\<close>

datatype metric_op = MRecord int string int int | MCache int bool

fun metric_exec :: "metric_op \<Rightarrow> metrics \<Rightarrow> metrics" where
  "metric_exec (MRecord now_s source rcode d) m = Record now_s source rcode d m"
| "metric_exec (MCache now_s hit) m = RecordCache now_s hit m"

definition outcome_sum :: "metrics \<Rightarrow> 64 word" where
  "outcome_sum m = mt_authoritative m + mt_forwarded m + mt_blocked m + mt_refused m + mt_errs m"

definition is_record :: "metric_op \<Rightarrow> bool" where
  "is_record op = (case op of MRecord _ _ _ _ \<Rightarrow> True | MCache _ _ \<Rightarrow> False)"

lemma Record_total:
  "mt_total (Record now_s source rcode d m) = mt_total m + 1"
  "outcome_sum (Record now_s source rcode d m) = outcome_sum m + 1"
  "mt_latCount (Record now_s source rcode d m) = mt_latCount m + 1"
  by (auto simp: Record_def Let_def count_rcode_def count_outcome_def outcome_sum_def split: outcome.split)

lemma RecordCache_total:
  "mt_total (RecordCache now_s hit m) = mt_total m" "outcome_sum (RecordCache now_s hit m) = outcome_sum m"
  "mt_latCount (RecordCache now_s hit m) = mt_latCount m"
  by (auto simp: RecordCache_def Let_def outcome_sum_def)

lemma metric_exec_total:
  "mt_total (metric_exec op m) = mt_total m + (if is_record op then 1 else 0)"
  "outcome_sum (metric_exec op m) = outcome_sum m + (if is_record op then 1 else 0)"
  "mt_latCount (metric_exec op m) = mt_latCount m + (if is_record op then 1 else 0)"
  by (cases op; simp add: is_record_def Record_total RecordCache_total)+

lemma metric_run_total:
  "mt_total (fold metric_exec ops m) = mt_total m + of_nat (length (filter is_record ops)) \<and>
   outcome_sum (fold metric_exec ops m) = outcome_sum m + of_nat (length (filter is_record ops)) \<and>
   mt_latCount (fold metric_exec ops m) = mt_latCount m + of_nat (length (filter is_record ops))"
  by (induction ops arbitrary: m) (simp_all add: metric_exec_total)

text \<open>
  Every reply lands in exactly one outcome. After any sequence of recorded replies and cache
  lookups the five outcome counters sum to the total, which is the number of replies (modulo
  the width of the counters), whatever labels and codes were recorded.
\<close>

theorem outcomes_sum_to_total:
  "let m = fold metric_exec ops NewMetrics
   in mt_authoritative m + mt_forwarded m + mt_blocked m + mt_refused m + mt_errs m = mt_total m \<and>
      mt_total m = of_nat (length (filter is_record ops)) \<and> mt_latCount m = mt_total m"
  using metric_run_total [of ops NewMetrics] by (simp add: Let_def outcome_sum_def NewMetrics_def)

section \<open>The history is the last hour\<close>

type_synonym hevent = "int \<times> (bucket \<Rightarrow> bucket)"

definition minute_of :: "hevent \<Rightarrow> int" where
  "minute_of e = fst e div 60"

definition hist_run :: "hevent list \<Rightarrow> bucket list" where
  "hist_run es = fold (\<lambda>e h. hist_update (fst e) (snd e) h) es newHistory"

text \<open>The reference: the events of one minute, applied to an empty bucket in order.\<close>

definition bucket_of :: "hevent list \<Rightarrow> int \<Rightarrow> bucket" where
  "bucket_of es m = fold (\<lambda>e b. snd e b) (filter (\<lambda>e. minute_of e = m) es) (new_bucket m)"

definition keeps_minute :: "(bucket \<Rightarrow> bucket) \<Rightarrow> bool" where
  "keeps_minute f = (\<forall>b. b_Minute (f b) = b_Minute b)"

lemma bucket_of_snoc:
  "bucket_of (es @ [e]) m = (if minute_of e = m then snd e (bucket_of es m) else bucket_of es m)"
  by (simp add: bucket_of_def)

lemma slot_bound: "slot m < 60"
  using pos_mod_bound [of 60 m] by (simp add: slot_def histSlots_def nat_less_iff)

lemma slot_eq: "slot m = slot k \<longleftrightarrow> m mod 60 = k mod 60"
  by (auto simp: slot_def histSlots_def eq_nat_nat_iff)

lemma length_hist_run: "length (hist_run es) = 60"
proof -
  have "length (fold (\<lambda>e h. hist_update (fst e) (snd e) h) es h) = length h" for h
    by (induction es arbitrary: h) (simp_all add: hist_update_def Let_def)
  then show ?thesis by (simp add: hist_run_def newHistory_def)
qed

lemma b_Minute_current [simp]: "b_Minute (current h m) = m"
  by (simp add: current_def Let_def new_bucket_def)

lemma current_update:
  assumes "length h = 60" and "keeps_minute f"
  shows "current (hist_update t f h) m =
    (if m = t div 60 then f (current h m) else if slot m = slot (t div 60) then new_bucket m else current h m)"
proof -
  have mf: "b_Minute (f (current h (t div 60))) = t div 60" using assms(2) by (simp add: keeps_minute_def)
  show ?thesis
    using assms(1) mf slot_bound [of m] slot_bound [of "t div 60"]
    by (auto simp: hist_update_def Let_def current_def [of "h[_ := _]"] current_def [of h m] nth_list_update)
qed

lemma current_run:
  assumes "sorted (map minute_of es)" and "\<forall>e \<in> set es. keeps_minute (snd e)"
    and "\<forall>e \<in> set es. slot (minute_of e) = slot m \<longrightarrow> minute_of e \<le> m"
  shows "current (hist_run es) m = bucket_of es m"
  using assms
proof (induction es arbitrary: m rule: rev_induct)
  case Nil
  then show ?case
    using slot_bound [of m] by (simp add: hist_run_def newHistory_def current_def bucket_of_def) (auto simp: new_bucket_def)
next
  case (snoc e es)
  let ?k = "minute_of e"
  have srt: "sorted (map minute_of es)" and le: "\<forall>x \<in> set es. minute_of x \<le> ?k"
    using snoc.prems(1) by (auto simp: sorted_append)
  have km: "keeps_minute (snd e)" "\<forall>x \<in> set es. keeps_minute (snd x)" using snoc.prems(2) by auto
  have run: "hist_run (es @ [e]) = hist_update (fst e) (snd e) (hist_run es)" by (simp add: hist_run_def)
  have cur: "current (hist_run (es @ [e])) m =
    (if m = ?k then snd e (current (hist_run es) m) else if slot m = slot ?k then new_bucket m else current (hist_run es) m)"
    unfolding run using current_update [OF length_hist_run km(1), of "fst e" es m] by (simp add: minute_of_def)
  consider "m = ?k" | "m \<noteq> ?k" "slot m = slot ?k" | "m \<noteq> ?k" "slot m \<noteq> slot ?k" by blast
  then show ?case
  proof cases
    case 1
    then show ?thesis using cur snoc.IH [OF srt km(2), of m] le by (simp add: bucket_of_snoc)
  next
    case 2
    then have "?k < m" using snoc.prems(3) by force
    then have "filter (\<lambda>x. minute_of x = m) (es @ [e]) = []" using le by (auto simp: filter_empty_conv)
    then show ?thesis using cur 2 by (simp add: bucket_of_def)
  next
    case 3
    then show ?thesis using cur snoc.IH [OF srt km(2), of m] snoc.prems(3) by (auto simp: bucket_of_snoc)
  qed
qed

lemma same_residue:
  fixes x n i :: int
  assumes "x \<le> n" and "x mod 60 = (n - i) mod 60" and "i < 60" and "0 \<le> i"
  shows "x \<le> n - i"
proof (rule ccontr)
  assume "\<not> x \<le> n - i"
  then have "0 < x - (n - i)" "x - (n - i) < 60" using assms(1,3,4) by linarith+
  moreover have "60 dvd x - (n - i)" using assms(2) by (simp add: mod_eq_dvd_iff)
  ultimately show False using zdvd_not_zless by blast
qed

fun event_of :: "metric_op \<Rightarrow> hevent" where
  "event_of (MRecord now_s source rcode d) = (now_s, add_outcome (outcomeFor source) d)"
| "event_of (MCache now_s hit) = (now_s, add_cache hit)"

lemma event_keeps_minute: "keeps_minute (snd (event_of op))"
  by (cases op) (auto simp: keeps_minute_def add_outcome_def add_cache_def Let_def split: outcome.split)

lemma hist_exec: "mt_hist (metric_exec op m) = hist_update (fst (event_of op)) (snd (event_of op)) (mt_hist m)"
  by (cases op)
     (auto simp: Record_def RecordCache_def Let_def hist_add_def hist_addCache_def count_rcode_def count_outcome_def
       split: outcome.split)

lemma hist_fold: "mt_hist (fold metric_exec ops m) = fold (\<lambda>e h. hist_update (fst e) (snd e) h) (map event_of ops) (mt_hist m)"
  by (induction ops arbitrary: m) (simp_all add: hist_exec)

text \<open>
  The graph shows the last hour and nothing else. Under a clock that does not go back, the
  history is always sixty buckets, one per minute up to the current one, and each holds exactly
  what the events of its own minute add to an empty bucket: a slot left over from an earlier hour never shows.
\<close>

theorem history_is_the_last_hour:
  assumes "sorted (map (\<lambda>op. fst (event_of op) div 60) ops)"
    and "\<forall>op \<in> set ops. fst (event_of op) div 60 \<le> now_s div 60" and "59 \<le> now_s div 60"
  shows "hist_snapshot now_s (mt_hist (fold metric_exec ops NewMetrics)) =
    map (\<lambda>i. bucket_of (map event_of ops) (now_s div 60 - int i)) (rev [0..<60])"
proof -
  have h: "mt_hist (fold metric_exec ops NewMetrics) = hist_run (map event_of ops)"
    by (simp add: hist_fold hist_run_def NewMetrics_def)
  have "current (hist_run (map event_of ops)) (now_s div 60 - int i) = bucket_of (map event_of ops) (now_s div 60 - int i)"
    if "i < 60" for i
  proof (rule current_run)
    show "sorted (map minute_of (map event_of ops))" using assms(1) by (simp add: comp_def minute_of_def)
    show "\<forall>e \<in> set (map event_of ops). keeps_minute (snd e)" by (simp add: event_keeps_minute)
    show "\<forall>e \<in> set (map event_of ops). slot (minute_of e) = slot (now_s div 60 - int i) \<longrightarrow> minute_of e \<le> now_s div 60 - int i"
    proof (intro ballI impI)
      fix e
      assume "e \<in> set (map event_of ops)" "slot (minute_of e) = slot (now_s div 60 - int i)"
      then have "minute_of e \<le> now_s div 60" "minute_of e mod 60 = (now_s div 60 - int i) mod 60"
        using assms(2) by (auto simp: minute_of_def slot_eq)
      moreover have "int i < 60" using that by simp
      moreover have "0 \<le> int i" by simp
      ultimately show "minute_of e \<le> now_s div 60 - int i" by (rule same_residue)
    qed
  qed
  then show ?thesis by (simp add: hist_snapshot_def h)
qed

theorem history_is_the_last_hour_witness:
  "map b_Forwarded (drop 57 (hist_snapshot 7325 (mt_hist (fold metric_exec
      [MRecord 3600 ''forward'' 0 1, MRecord 7270 ''forward'' 0 1, MRecord 7280 ''acl'' 5 1, MRecord 7321 ''forward'' 0 1] NewMetrics)))) = [0, 1, 1]"
proof -
  let ?ops = "[MRecord 3600 ''forward'' 0 1, MRecord 7270 ''forward'' 0 1, MRecord 7280 ''acl'' 5 1, MRecord 7321 ''forward'' 0 1]"
  have "hist_snapshot 7325 (mt_hist (fold metric_exec ?ops NewMetrics)) =
    map (\<lambda>i. bucket_of (map event_of ?ops) (7325 div 60 - int i)) (rev [0..<60])"
    by (rule history_is_the_last_hour) simp_all
  moreover have "map b_Forwarded (drop 57 (map (\<lambda>i. bucket_of (map event_of ?ops) (7325 div 60 - int i)) (rev [0..<60]))) = [0, 1, 1]"
    by code_simp
  ultimately show ?thesis by (simp only:)
qed

end
