(* ===== verification/DnsForward.thy ===== *)
theory DnsForward
  imports DnsCache DnsMetrics
begin

text \<open>
  The forwarder, \<^verbatim>\<open>internal/dnsserver/forward.go\<close>: the exchange with the upstream list, the cache in
  front of it, and the replacement of the list while queries are in flight.

  What an upstream answers is outside the sources: \<open>exch u req\<close> is the error text or the
  (possibly nil) response. An upstream is named by a number, the identity of its instance.
\<close>

section \<open>Upstreams and their status\<close>

record upstream =
  up_Id :: nat
  up_Spec :: string
  up_Secure :: bool

record upstream_status =
  us_Spec :: string
  us_Secure :: bool
  us_LastError :: string
  us_LastErrAt :: int
  us_LastOKAt :: int

type_synonym exch = "upstream \<Rightarrow> msg \<Rightarrow> (string, msg option) result"

definition new_status :: "upstream \<Rightarrow> upstream_status" where
  "new_status u = \<lparr>us_Spec = up_Spec u, us_Secure = up_Secure u, us_LastError = [], us_LastErrAt = 0, us_LastOKAt = 0\<rparr>"

definition record_status :: "int \<Rightarrow> nat \<Rightarrow> string option \<Rightarrow> upstream_status list \<Rightarrow> upstream_status list" where
  "record_status now i err st =
     (case err of
        Some e \<Rightarrow> st[i := (st ! i)\<lparr>us_LastError := e, us_LastErrAt := now\<rparr>]
      | None \<Rightarrow> st[i := (st ! i)\<lparr>us_LastError := [], us_LastErrAt := 0, us_LastOKAt := now\<rparr>])"

section \<open>exchange\<close>

definition usable_answer :: "(string, msg option) result \<Rightarrow> msg option" where
  "usable_answer r =
     (case r of Inr (Some m) \<Rightarrow> if Rcode m \<noteq> RcodeServerFailure then Some m else None | _ \<Rightarrow> None)"

text \<open>The reason recorded for a failed attempt, and the error it leaves for the caller.\<close>

definition failure_reason :: "dnslib \<Rightarrow> (string, msg option) result \<Rightarrow> string" where
  "failure_reason L r =
     (case r of
        Inl e \<Rightarrow> e
      | Inr None \<Rightarrow> ''returned no message''
      | Inr (Some m) \<Rightarrow> ''returned '' @ lib_RcodeToString L (Rcode m))"

definition failure_error :: "dnslib \<Rightarrow> upstream \<Rightarrow> (string, msg option) result \<Rightarrow> string" where
  "failure_error L u r =
     (case r of Inl e \<Rightarrow> e | Inr _ \<Rightarrow> ''upstream '' @ up_Spec u @ '' '' @ failure_reason L r)"

fun try_upstreams ::
  "dnslib \<Rightarrow> exch \<Rightarrow> int \<Rightarrow> msg \<Rightarrow> nat \<Rightarrow> upstream list \<Rightarrow> string \<Rightarrow> upstream_status list
   \<Rightarrow> (string, msg) result \<times> upstream_status list" where
  "try_upstreams L exch now req i [] lastErr st = (Inl (''all upstreams failed: '' @ lastErr), st)"
| "try_upstreams L exch now req i (u # us) lastErr st =
     (case usable_answer (exch u req) of
        Some resp \<Rightarrow>
          (Inr (if \<not> up_Secure u then resp\<lparr>AuthenticatedData := False\<rparr> else resp), record_status now i None st)
      | None \<Rightarrow>
          try_upstreams L exch now req (Suc i) us (failure_error L u (exch u req))
            (record_status now i (Some (failure_reason L (exch u req))) st))"

definition upstream_request :: "dnslib \<Rightarrow> question \<Rightarrow> bool \<Rightarrow> msg" where
  "upstream_request L q d =
     (lib_SetEdns0 L 1232 d (lib_SetQuestion L (lib_Fqdn L (q_Name q)) (q_Qtype q)))
       \<lparr>CheckingDisabled := False, AuthenticatedData := True\<rparr>"

definition exchange ::
  "dnslib \<Rightarrow> exch \<Rightarrow> int \<Rightarrow> question \<Rightarrow> bool \<Rightarrow> upstream list \<Rightarrow> upstream_status list
   \<Rightarrow> (string, msg) result \<times> upstream_status list" where
  "exchange L exch now q d ups st =
     (if ups = [] then (Inl ''no upstreams configured'', st)
      else try_upstreams L exch now (upstream_request L q d) 0 ups [] st)"

section \<open>Resolve\<close>

record forwarder =
  fw_ups :: "upstream list"
  fw_status :: "upstream_status list"
  fw_cache :: cache
  fw_metrics :: metrics

text \<open>\<^verbatim>\<open>Cache.Get\<close>: the lookup, counted in the metrics.\<close>

definition cache_Get :: "dnslib \<Rightarrow> int \<Rightarrow> question \<Rightarrow> bool \<Rightarrow> forwarder \<Rightarrow> msg option \<times> forwarder" where
  "cache_Get L now q d f =
     (let (r, c) = lookup L now q d (fw_cache f)
      in (r, f\<lparr>fw_cache := c, fw_metrics := RecordCache (now div 1000000000) (r \<noteq> None) (fw_metrics f)\<rparr>))"

text \<open>
  \<^verbatim>\<open>Resolve\<close> for a caller whose flight is its own: the cache, the cache again inside the flight, then the
  upstreams. \<open>None\<close> when storing the response does not return.
\<close>

definition Resolve ::
  "dnslib \<Rightarrow> exch \<Rightarrow> int \<Rightarrow> question \<Rightarrow> bool \<Rightarrow> forwarder \<Rightarrow> ((string, msg) result \<times> forwarder) option" where
  "Resolve L exch now q d f0 =
     (case cache_Get L now q d f0 of
        (Some m, f1) \<Rightarrow> Some (Inr m, f1)
      | (None, f1) \<Rightarrow>
          (case cache_Get L now q d f1 of
             (Some m, f2) \<Rightarrow> Some (Inr m, f2)
           | (None, f2) \<Rightarrow>
               (case exchange L exch now q d (fw_ups f2) (fw_status f2) of
                  (Inl e, st) \<Rightarrow> Some (Inl e, f2\<lparr>fw_status := st\<rparr>)
                | (Inr m, st) \<Rightarrow>
                    (case Put L now q d (Some m) (fw_cache f2) of
                       None \<Rightarrow> None
                     | Some c \<Rightarrow> Some (Inr m, f2\<lparr>fw_status := st, fw_cache := c\<rparr>)))))"

definition fw_Replace :: "upstream list \<Rightarrow> forwarder \<Rightarrow> forwarder" where
  "fw_Replace ups f = f\<lparr>fw_ups := ups, fw_status := map new_status ups\<rparr>"

section \<open>Failover\<close>

lemma try_upstreams_fst:
  "fst (try_upstreams L exch now req i us lastErr st) =
     (case find (\<lambda>u. usable_answer (exch u req) \<noteq> None) us of
        Some u \<Rightarrow> Inr (if up_Secure u then the (usable_answer (exch u req))
                      else (the (usable_answer (exch u req)))\<lparr>AuthenticatedData := False\<rparr>)
      | None \<Rightarrow> Inl (''all upstreams failed: '' @
                    (if us = [] then lastErr else failure_error L (last us) (exch (last us) req))))"
  by (induction us arbitrary: i lastErr st) (auto split: option.split)

lemma record_status_other [simp]: "j \<noteq> i \<Longrightarrow> record_status now i e st ! j = st ! j"
  by (simp add: record_status_def split: option.split)

lemma length_record_status [simp]: "length (record_status now i e st) = length st"
  by (simp add: record_status_def split: option.split)

lemma try_upstreams_before:
  "j < i \<Longrightarrow> snd (try_upstreams L exch now req i us lastErr st) ! j = st ! j"
  by (induction us arbitrary: i lastErr st) (auto split: option.split)

lemma length_try_upstreams: "length (snd (try_upstreams L exch now req i us lastErr st)) = length st"
  by (induction us arbitrary: i lastErr st) (auto split: option.split)

definition answers :: "exch \<Rightarrow> msg \<Rightarrow> upstream \<Rightarrow> bool" where
  "answers exch req u = (usable_answer (exch u req) \<noteq> None)"

lemma try_upstreams_Cons:
  "answers exch req u \<Longrightarrow> snd (try_upstreams L exch now req i (u # us) lastErr st) = record_status now i None st"
  "\<not> answers exch req u \<Longrightarrow> snd (try_upstreams L exch now req i (u # us) lastErr st) =
     snd (try_upstreams L exch now req (Suc i) us (failure_error L u (exch u req))
       (record_status now i (Some (failure_reason L (exch u req))) st))"
  by (auto simp: answers_def)

text \<open>What the attempts leave in the status of the upstream at each place.\<close>

definition status_after ::
  "dnslib \<Rightarrow> exch \<Rightarrow> int \<Rightarrow> msg \<Rightarrow> upstream list \<Rightarrow> nat \<Rightarrow> upstream_status \<Rightarrow> upstream_status" where
  "status_after L exch now req us j s =
     (if \<exists>k < j. answers exch req (us ! k) then s
      else if answers exch req (us ! j) then s\<lparr>us_LastError := [], us_LastErrAt := 0, us_LastOKAt := now\<rparr>
      else s\<lparr>us_LastError := failure_reason L (exch (us ! j) req), us_LastErrAt := now\<rparr>)"

lemma status_after_Suc:
  "\<not> answers exch req u \<Longrightarrow> status_after L exch now req (u # us) (Suc k) s = status_after L exch now req us k s"
  "answers exch req u \<Longrightarrow> status_after L exch now req (u # us) (Suc k) s = s"
  unfolding status_after_def by (auto simp: less_Suc_eq_0_disj)

lemma status_after_0:
  "i < length st \<Longrightarrow> status_after L exch now req (u # us) 0 (st ! i) =
     (if answers exch req u then record_status now i None st ! i
      else record_status now i (Some (failure_reason L (exch u req))) st ! i)"
  by (simp add: status_after_def record_status_def)

lemma try_upstreams_status:
  assumes "j < length us" and "i + length us \<le> length st"
  shows "snd (try_upstreams L exch now req i us lastErr st) ! (i + j) = status_after L exch now req us j (st ! (i + j))"
  using assms
proof (induction us arbitrary: i j lastErr st)
  case Nil
  then show ?case by simp
next
  case (Cons u us)
  let ?st = "record_status now i (Some (failure_reason L (exch u req))) st"
  show ?case
  proof (cases j)
    case 0
    have "i < length st" using Cons.prems by simp
    from status_after_0 [OF this] 0 show ?thesis
      using try_upstreams_before [of i "Suc i"] by (simp add: try_upstreams_Cons del: try_upstreams.simps)
  next
    case (Suc k)
    show ?thesis
    proof (cases "answers exch req u")
      case False
      have "k < length us" "Suc i + length us \<le> length ?st" using Cons.prems Suc by simp_all
      from Cons.IH [OF this, of "failure_error L u (exch u req)"] Suc False show ?thesis
        by (simp add: try_upstreams_Cons status_after_Suc del: try_upstreams.simps)
    next
      case True
      then show ?thesis using Suc by (simp add: try_upstreams_Cons status_after_Suc del: try_upstreams.simps)
    qed
  qed
qed

text \<open>
  Failover. A query goes to the upstreams in order and is answered by the first one that
  returns a message other than SERVFAIL; the AD bit survives only when that upstream's channel is
  authenticated. Every upstream tried before it has its reason recorded, the one that answered is recorded as
  working, and the ones after it are not touched. Only when all of them fail is there an error.
\<close>

theorem exchange_failover:
  assumes "length st = length ups" and "ups \<noteq> []"
    and "req = upstream_request L q d"
    and "exchange L exch now q d ups st = (r, st')"
  shows "(case find (answers exch req) ups of
      Some u \<Rightarrow> (\<exists>m. exch u req = Inr (Some m) \<and> Rcode m \<noteq> RcodeServerFailure \<and>
                   r = Inr (if up_Secure u then m else m\<lparr>AuthenticatedData := False\<rparr>))
    | None \<Rightarrow> (\<exists>e. r = Inl e)) \<and>
    length st' = length st \<and> (\<forall>j < length ups. st' ! j = status_after L exch now req ups j (st ! j))"
proof (intro conjI allI impI)
  have eq: "try_upstreams L exch now req 0 ups [] st = (r, st')" using assms(2-4) by (simp add: exchange_def)
  have r: "r = fst (try_upstreams L exch now req 0 ups [] st)" and st': "st' = snd (try_upstreams L exch now req 0 ups [] st)"
    using eq by simp_all
  show "case find (answers exch req) ups of
      Some u \<Rightarrow> (\<exists>m. exch u req = Inr (Some m) \<and> Rcode m \<noteq> RcodeServerFailure \<and>
                   r = Inr (if up_Secure u then m else m\<lparr>AuthenticatedData := False\<rparr>))
    | None \<Rightarrow> (\<exists>e. r = Inl e)"
  proof (cases "find (answers exch req) ups")
    case None
    then show ?thesis using r try_upstreams_fst [of L exch now req 0 ups] by (simp add: answers_def [abs_def])
  next
    case (Some u)
    then have "usable_answer (exch u req) \<noteq> None" using find_SomeD [OF Some] by (simp add: answers_def)
    then obtain m where m: "exch u req = Inr (Some m)" "Rcode m \<noteq> RcodeServerFailure" "usable_answer (exch u req) = Some m"
      by (auto simp: usable_answer_def split: sum.splits option.splits if_splits)
    then have "r = Inr (if up_Secure u then m else m\<lparr>AuthenticatedData := False\<rparr>)"
      using r try_upstreams_fst [of L exch now req 0 ups] Some by (simp add: answers_def [abs_def])
    with Some m show ?thesis by simp
  qed
  show "length st' = length st" by (simp add: st' length_try_upstreams)
  show "st' ! j = status_after L exch now req ups j (st ! j)" if "j < length ups" for j
    using try_upstreams_status [OF that, of 0 st L exch now req "[]"] assms(1) by (simp add: st')
qed

definition quad9 :: upstream where
  "quad9 = \<lparr>up_Id = 1, up_Spec = ''tls://9.9.9.9'', up_Secure = True\<rparr>"

definition isp :: upstream where
  "isp = \<lparr>up_Id = 2, up_Spec = ''192.0.2.53'', up_Secure = False\<rparr>"

definition blocked_853 :: exch where
  "blocked_853 u req = (if up_Secure u then Inl ''timeout'' else Inr (Some ((answer_a ''a.'' 300)\<lparr>AuthenticatedData := True\<rparr>)))"

theorem exchange_failover_witness:
  "map us_LastError (snd (exchange plain_lib blocked_853 5 (ask ''a.'') False [quad9, isp] [new_status quad9, new_status isp])) = [''timeout'', []] \<and>
   fst (exchange plain_lib blocked_853 5 (ask ''a.'') False [quad9, isp] [new_status quad9, new_status isp]) = Inr (answer_a ''a.'' 300)"
proof -
  let ?st = "[new_status quad9, new_status isp]"
  let ?ups = "[quad9, isp]"
  let ?x = "exchange plain_lib blocked_853 5 (ask ''a.'') False ?ups ?st"
  let ?req = "upstream_request plain_lib (ask ''a.'') False"
  have l: "length ?st = length ?ups" and n: "?ups \<noteq> []" by simp_all
  have x: "?x = (fst ?x, snd ?x)" by simp
  have f: "find (answers blocked_853 ?req) ?ups = Some isp" by code_simp
  note ef = exchange_failover [OF l n refl x, unfolded f option.case]
  from ef obtain m where m: "blocked_853 isp ?req = Inr (Some m)"
    "fst ?x = Inr (if up_Secure isp then m else m\<lparr>AuthenticatedData := False\<rparr>)" by blast
  have "m = (answer_a ''a.'' 300)\<lparr>AuthenticatedData := True\<rparr>" using m(1) by (simp add: blocked_853_def isp_def)
  with m(2) have ad: "fst ?x = Inr (answer_a ''a.'' 300)" by (simp add: isp_def answer_a_def new_msg_def)
  have "map us_LastError (snd ?x) = [''timeout'', []]" by code_simp
  with ad show ?thesis by (intro conjI)
qed

section \<open>The AD bit\<close>

datatype fw_op =
    FResolve exch int question bool
  | FReplace "upstream list"
  | FFlush
  | FRetune int int int int

fun fw_exec :: "dnslib \<Rightarrow> fw_op \<Rightarrow> forwarder \<Rightarrow> forwarder option" where
  "fw_exec L (FResolve exch now q d) f = map_option snd (Resolve L exch now q d f)"
| "fw_exec L (FReplace ups) f = Some (fw_Replace ups f)"
| "fw_exec L FFlush f = Some (f\<lparr>fw_cache := Flush (fw_cache f)\<rparr>)"
| "fw_exec L (FRetune n lo hi neg) f = map_option (\<lambda>c. f\<lparr>fw_cache := c\<rparr>) (Retune n lo hi neg (fw_cache f))"

fun fw_run :: "dnslib \<Rightarrow> fw_op list \<Rightarrow> forwarder \<Rightarrow> forwarder option" where
  "fw_run L [] f = Some f"
| "fw_run L (op # ops) f = (case fw_exec L op f of None \<Rightarrow> None | Some f' \<Rightarrow> fw_run L ops f')"

definition NewForwarder :: "upstream list \<Rightarrow> cache \<Rightarrow> forwarder" where
  "NewForwarder ups c = fw_Replace ups \<lparr>fw_ups = [], fw_status = [], fw_cache = c, fw_metrics = NewMetrics\<rparr>"

definition plaintext :: "fw_op \<Rightarrow> bool" where
  "plaintext op = (case op of FReplace ups \<Rightarrow> list_all (\<lambda>u. \<not> up_Secure u) ups | _ \<Rightarrow> True)"

definition no_ad :: "cache \<Rightarrow> bool" where
  "no_ad c = (\<forall>e \<in> set (recent c). \<not> AuthenticatedData (ce_msg e))"

definition fw_plain :: "forwarder \<Rightarrow> bool" where
  "fw_plain f = (list_all (\<lambda>u. \<not> up_Secure u) (fw_ups f) \<and> cache_ok (fw_cache f) \<and> no_ad (fw_cache f))"

lemma AD_map_sections [simp]: "AuthenticatedData (map_sections g m) = AuthenticatedData m"
  by (simp add: map_sections_def)

lemma lookup_subset:
  assumes "cache_inv c"
  shows "set (recent (snd (lookup L now q d c))) \<subseteq> set (recent c)"
proof -
  have "set (recent (removeLocked el c)) \<subseteq> set (recent c)" for el
  proof (cases "m_get (c_order c) el")
    case None
    then show ?thesis by (simp add: removeLocked_def)
  next
    case (Some e)
    then show ?thesis using removeLocked_recent [OF assms Some] set_without by simp
  qed
  moreover have "set (recent (move_front el e c)) \<subseteq> set (recent c)" if "m_get (c_order c) el = Some e" for el e
    using move_front_inv(2) [OF assms that] m_get_Some_in [OF that] subsetD [OF set_without] by (force simp: recent_def)
  ultimately show ?thesis by (auto simp: lookup_def split: option.splits)
qed

lemma cache_Get_plain:
  assumes "fw_plain f" and "cache_Get L now q d f = (r, f')"
  shows "fw_plain f'" and "r = Some m \<Longrightarrow> \<not> AuthenticatedData m"
proof -
  have inv: "cache_inv (fw_cache f)" using assms(1) by (simp add: fw_plain_def cache_ok_def)
  have r: "r = fst (lookup L now q d (fw_cache f))" and c: "fw_cache f' = snd (lookup L now q d (fw_cache f))" "fw_ups f' = fw_ups f"
    using assms(2) by (auto simp: cache_Get_def Let_def split: prod.splits)
  show "fw_plain f'"
    using assms(1) lookup_ok [of "fw_cache f"] subsetD [OF lookup_subset [OF inv, of L now q d]] by (auto simp: fw_plain_def no_ad_def c)
  show "\<not> AuthenticatedData m" if "r = Some m"
  proof -
    from lookup_hit [OF inv, of L now q d m] that r obtain e where "e \<in> set (recent (fw_cache f))" "AuthenticatedData m = AuthenticatedData (ce_msg e)"
      by (metis AD_map_sections)
    then show ?thesis using assms(1) by (simp add: fw_plain_def no_ad_def)
  qed
qed

lemma exchange_plain:
  assumes "list_all (\<lambda>u. \<not> up_Secure u) ups" and "exchange L exch now q d ups st = (Inr m, st')"
  shows "\<not> AuthenticatedData m"
proof -
  let ?req = "upstream_request L q d"
  have "fst (try_upstreams L exch now ?req 0 ups [] st) = Inr m"
    using assms(2) by (auto simp: exchange_def split: if_splits)
  then obtain u where u: "find (\<lambda>u. usable_answer (exch u ?req) \<noteq> None) ups = Some u"
    "m = (if up_Secure u then the (usable_answer (exch u ?req)) else (the (usable_answer (exch u ?req)))\<lparr>AuthenticatedData := False\<rparr>)"
    by (auto simp: try_upstreams_fst split: option.splits)
  moreover have "\<not> up_Secure u" using find_SomeD [OF u(1)] assms(1) by (auto simp: list_all_iff)
  ultimately show ?thesis by simp
qed

lemma Put_no_ad:
  assumes "cache_ok c" and "no_ad c" and "\<not> AuthenticatedData m"
  obtains c' where "Put L now q d (Some m) c = Some c'" "cache_ok c'" "no_ad c'"
proof -
  obtain c' where c': "Put L now q d (Some m) c = Some c'" "cache_ok c'" using Put_ok [OF assms(1)] by blast
  have "no_ad c'"
  proof (cases "ttlFor c m = 0")
    case True
    then show ?thesis using c' assms(2) by (simp add: Put_def Let_def)
  next
    case False
    have "cache_inv c" "0 \<le> c_maxEntries c" using assms(1) by (auto simp: cache_ok_def)
    from Put_stores [OF this False, of L now q d] obtain c'' where "Put L now q d (Some m) c = Some c''"
      "recent c'' = take (nat (c_maxEntries c)) (new_entry L now q d m (ttlFor c m) # without (keyFor L q d) (recent c))" by blast
    then have "set (recent c') \<subseteq> insert (new_entry L now q d m (ttlFor c m)) (set (recent c))"
      using c'(1) set_without set_take_subset by fastforce
    then show ?thesis using assms(2,3) by (auto simp: no_ad_def new_entry_def)
  qed
  with c' that show thesis by blast
qed

lemma Resolve_plain:
  assumes "fw_plain f"
  obtains r f' where "Resolve L exch now q d f = Some (r, f')" "fw_plain f'" "\<And>m. r = Inr m \<Longrightarrow> \<not> AuthenticatedData m"
proof -
  obtain r1 f1 where g1: "cache_Get L now q d f = (r1, f1)" by fastforce
  note p1 = cache_Get_plain [OF assms g1]
  obtain r2 f2 where g2: "cache_Get L now q d f1 = (r2, f2)" by fastforce
  note p2 = cache_Get_plain [OF p1(1) g2]
  obtain x st where ex: "exchange L exch now q d (fw_ups f2) (fw_status f2) = (x, st)" by fastforce
  consider (hit) m where "r1 = Some m" | (hit2) m where "r1 = None" "r2 = Some m" | (err) e where "r1 = None" "r2 = None" "x = Inl e"
    | (ok) m where "r1 = None" "r2 = None" "x = Inr m" by (cases r1; cases r2; cases x) auto
  then show thesis
  proof cases
    case (ok m)
    have ad: "\<not> AuthenticatedData m"
      by (rule exchange_plain) (use p2(1) ex ok in \<open>auto simp: fw_plain_def\<close>)
    have c: "cache_ok (fw_cache f2)" "no_ad (fw_cache f2)" using p2(1) by (auto simp: fw_plain_def)
    from Put_no_ad [OF c ad, of L now q d] obtain c' where "Put L now q d (Some m) (fw_cache f2) = Some c'" "cache_ok c'" "no_ad c'" .
    then show thesis using that [of "Inr m" "f2\<lparr>fw_status := st, fw_cache := c'\<rparr>"] ok g1 g2 ex ad p2(1)
      by (simp add: Resolve_def fw_plain_def)
  qed (use that g1 g2 ex p1 p2 in \<open>auto simp: Resolve_def fw_plain_def\<close>)
qed

lemma Retune_subset:
  assumes "cache_inv c" and "Retune n lo hi neg c = Some c'"
  shows "set (recent c') \<subseteq> set (recent c)"
proof -
  let ?b = "c\<lparr>c_maxEntries := (if n < 1 then 1 else n), c_minTTL := word_of_int lo, c_maxTTL := word_of_int hi, c_negMaxTTL := word_of_int neg\<rparr>"
  have "cache_inv ?b" "0 \<le> c_maxEntries ?b" using assms(1) by (simp_all add: cache_inv_def)
  from evict_returns [OF this] assms(2) have "recent c' = take (nat (c_maxEntries ?b)) (recent ?b)" by (auto simp: Retune_def)
  moreover have "recent ?b = recent c" by (simp add: recent_def)
  ultimately show ?thesis by (metis set_take_subset)
qed

lemma fw_exec_plain:
  assumes "fw_plain f" and "plaintext op"
  shows "\<exists>f'. fw_exec L op f = Some f' \<and> fw_plain f'"
proof (cases op)
  case (FResolve exch now q d)
  then show ?thesis using Resolve_plain [OF assms(1), of L exch now q d] by fastforce
next
  case (FReplace ups)
  then show ?thesis using assms by (simp add: fw_plain_def fw_Replace_def plaintext_def)
next
  case FFlush
  then show ?thesis using assms(1) Flush_ok by (simp add: fw_plain_def no_ad_def Flush_def recent_def)
next
  case (FRetune n lo hi neg)
  have ok: "cache_ok (fw_cache f)" using assms(1) by (simp add: fw_plain_def)
  obtain c where c: "Retune n lo hi neg (fw_cache f) = Some c" "cache_ok c" using Retune_ok [OF ok] by blast
  have "set (recent c) \<subseteq> set (recent (fw_cache f))"
    using Retune_subset [OF _ c(1)] ok by (simp add: cache_ok_def)
  then show ?thesis using assms(1) c FRetune by (auto simp: fw_plain_def no_ad_def)
qed

lemma fw_run_plain:
  "fw_plain f \<Longrightarrow> list_all plaintext ops \<Longrightarrow> \<exists>f'. fw_run L ops f = Some f' \<and> fw_plain f'"
proof (induction ops arbitrary: f)
  case Nil
  then show ?case by simp
next
  case (Cons op ops)
  from fw_exec_plain [OF Cons.prems(1), of op L] Cons.prems(2)
  obtain f1 where "fw_exec L op f = Some f1" "fw_plain f1" by auto
  with Cons show ?case by simp
qed

lemma map_option_SomeD: "map_option g x = Some b \<Longrightarrow> \<exists>p. x = Some p \<and> g p = b"
  by (cases x) simp_all

text \<open>
  C23: an unauthenticated channel never vouches for an answer. From a new cache, through any run of
  queries, reconfigurations, retunes and flushes in which every configured upstream is
  plaintext, whatever the upstreams claim, every query returns, and no answer, fresh or from the cache, has the AD bit.
\<close>

theorem plaintext_never_authenticates:
  assumes "list_all (\<lambda>u. \<not> up_Secure u) ups" and "list_all plaintext ops" and "0 \<le> n"
    and "fw_run L ops (NewForwarder ups (NewCache n lo hi neg)) = Some f"
  shows "\<exists>r f'. Resolve L exch now q d f = Some (r, f') \<and> (\<forall>m. r = Inr m \<longrightarrow> \<not> AuthenticatedData m)"
proof -
  have "fw_plain (NewForwarder ups (NewCache n lo hi neg))"
    using assms(1,3) NewCache_ok [of n lo hi neg]
    by (simp add: fw_plain_def NewForwarder_def fw_Replace_def no_ad_def) (simp add: NewCache_def recent_def)
  from fw_run_plain [OF this assms(2), of L] assms(4) have "fw_plain f" by auto
  from Resolve_plain [OF this, of L exch now q d] show ?thesis by metis
qed

theorem plaintext_never_authenticates_witness:
  "\<exists>m f'. Resolve plain_lib blocked_853 7 (ask ''a.'') False
       (the (fw_run plain_lib [FResolve blocked_853 5 (ask ''a.'') False] (NewForwarder [isp] (NewCache 10 0 86400 300)))) = Some (Inr m, f') \<and>
     \<not> AuthenticatedData m"
proof -
  let ?ops = "[FResolve blocked_853 5 (ask ''a.'') False]"
  let ?r = "fw_run plain_lib ?ops (NewForwarder [isp] (NewCache 10 0 86400 300))"
  have i: "list_all (\<lambda>u. \<not> up_Secure u) [isp]" "list_all plaintext ?ops" "0 \<le> (10 :: int)" by (simp_all add: isp_def plaintext_def)
  have "map_option (\<lambda>_. ()) ?r = Some ()" by code_simp
  from map_option_SomeD [OF this] have f: "?r = Some (the ?r)" by (metis option.sel)
  let ?x = "Resolve plain_lib blocked_853 7 (ask ''a.'') False (the ?r)"
  have "map_option (\<lambda>p. is_ok (fst p)) ?x = Some True" by code_simp
  from map_option_SomeD [OF this] obtain p where p: "?x = Some p" "is_ok (fst p)" by metis
  obtain r f' where rf: "p = (r, f')" by (cases p)
  obtain m where "r = Inr m" using p(2) rf by (cases r) (simp_all add: is_ok_def)
  with p(1) rf have x: "?x = Some (Inr m, f')" by (simp only:)
  have "\<not> AuthenticatedData m"
    using plaintext_never_authenticates [OF i f, of blocked_853 7 "ask ''a.''" False] unfolding x by blast
  with x show ?thesis by (intro exI conjI)
qed

section \<open>A miss is counted twice\<close>

lemma lookup_miss_again:
  assumes "cache_inv c" and "fst (lookup L now q d c) = None"
  shows "fst (lookup L now q d (snd (lookup L now q d c))) = None"
proof (cases "m_get (c_entries c) (keyFor L q d)")
  case None
  then show ?thesis by (simp add: lookup_def)
next
  case (Some el)
  then obtain e where e: "m_get (c_order c) el = Some e" "ce_key e = keyFor L q d" using cache_invD(5) [OF assms(1)] by blast
  then have "snd (lookup L now q d c) = removeLocked el c"
    using assms(2) Some by (auto simp: lookup_def split: if_splits)
  then show ?thesis using e by (simp add: lookup_def removeLocked_def)
qed

text \<open>
  A question the cache cannot answer is counted as two cache misses: once before the flight and
  once inside it. The hit rate, the percentage of forwarded lookups the cache answered, is
  therefore too low: one miss and one hit give 33, not 50.
\<close>

theorem miss_counted_twice:
  assumes "cache_inv (fw_cache f)" and "fst (lookup L now q d (fw_cache f)) = None"
    and "Resolve L exch now q d f = Some (r, f')"
  shows "mt_cacheMisses (fw_metrics f') = mt_cacheMisses (fw_metrics f) + 2 \<and>
    mt_cacheHits (fw_metrics f') = mt_cacheHits (fw_metrics f)"
  using assms(3) assms(2) lookup_miss_again [OF assms(1,2)]
  by (auto simp: Resolve_def cache_Get_def Let_def RecordCache_def split: prod.splits sum.splits option.splits)

theorem miss_counted_twice_witness:
  "let f = NewForwarder [isp] (NewCache 10 0 86400 300);
       f1 = snd (the (Resolve plain_lib blocked_853 0 (ask ''a.'') False f));
       f2 = snd (the (Resolve plain_lib blocked_853 1 (ask ''a.'') False f1))
   in mt_cacheMisses (fw_metrics f1) = 2 \<and> CacheHitRate (fw_metrics f2) = 33"
proof -
  let ?f = "NewForwarder [isp] (NewCache 10 0 86400 300)"
  let ?x = "Resolve plain_lib blocked_853 0 (ask ''a.'') False ?f"
  have "map_option (\<lambda>_. ()) ?x = Some ()" by code_simp
  then have x: "?x = Some (fst (the ?x), snd (the ?x))" by (cases ?x) simp_all
  have inv: "cache_inv (fw_cache ?f)" using NewCache_ok [of 10 0 86400 300] by (simp add: NewForwarder_def fw_Replace_def cache_ok_def)
  have l: "fst (lookup plain_lib 0 (ask ''a.'') False (fw_cache ?f)) = None" "mt_cacheMisses (fw_metrics ?f) = 0" by code_simp+
  have rate: "CacheHitRate (fw_metrics (snd (the (Resolve plain_lib blocked_853 1 (ask ''a.'') False (snd (the ?x)))))) = 33" by code_simp
  show ?thesis using miss_counted_twice [OF inv l(1) x] l(2) rate unfolding Let_def by simp
qed

end
