(* ===== verification/Upstream.thy ===== *)
theory Upstream
  imports Blacklist DnsForward
begin

text \<open>
  Upstream resolvers as they are configured, \<^verbatim>\<open>internal/upstream/parse.go\<close> and \<^verbatim>\<open>upstream.go\<close>: one string per resolver, whose
  scheme says whether the channel is authenticated and whose host must be an address. \<^verbatim>\<open>url.Parse\<close> and
  \<^verbatim>\<open>net.LookupPort\<close>, which consults the services file of the host, are the fields of \<open>netlib\<close>. Of an error the case is kept.
\<close>

section \<open>Specifications\<close>

datatype transport = Plain | DoT | DoH

definition transport_Secure :: "transport \<Rightarrow> bool" where
  "transport_Secure t = (t = DoT \<or> t = DoH)"

fun transport_String :: "transport \<Rightarrow> string" where
  "transport_String DoT = ''DoT''"
| "transport_String DoH = ''DoH''"
| "transport_String Plain = ''plaintext''"

record spec =
  sp_Raw :: string
  sp_Transport :: transport
  sp_Addr :: string
  sp_ServerName :: string
  sp_URL :: string

record full_url = url +
  u_Path :: string
  u_Fragment :: string

record netlib =
  nl_parse :: "string \<Rightarrow> (string, full_url) result"
  nl_port :: "string \<Rightarrow> bool"

datatype upstream_error =
    UpEmpty
  | UpCredentials string
  | UpBadURL string
  | UpScheme string
  | UpBadHost
  | UpBadPort string
  | UpTransport

section \<open>Parsing\<close>

definition JoinHostPort :: "string \<Rightarrow> string \<Rightarrow> string" where
  "JoinHostPort host port =
     (if CHR '':'' \<in> set host \<or> CHR ''%'' \<in> set host then ''['' @ host @ '']:'' @ port else host @ '':'' @ port)"

definition TrimBrackets :: "string \<Rightarrow> string" where
  "TrimBrackets s = rev (dropWhile (\<lambda>c. c \<in> set ''[]'') (rev (dropWhile (\<lambda>c. c \<in> set ''[]'') s)))"

definition hostPort :: "netlib \<Rightarrow> string \<Rightarrow> string \<Rightarrow> (upstream_error, string) result" where
  "hostPort N s defPort =
     (let (host, port) = (case SplitHostPort s of None \<Rightarrow> (s, defPort) | Some hp \<Rightarrow> hp)
      in case ParseAddr (TrimBrackets host) of
           None \<Rightarrow> Inl UpBadHost
         | Some addr \<Rightarrow> if nl_port N port then Inr (JoinHostPort (show_addr addr) port) else Inl (UpBadPort port))"

definition dohAuthority :: "spec \<Rightarrow> string" where
  "dohAuthority s =
     (case SplitHostPort (sp_Addr s) of
        None \<Rightarrow> sp_Addr s
      | Some (host, port) \<Rightarrow>
          (let h = (if sp_ServerName s \<noteq> [] then sp_ServerName s
                    else if CHR '':'' \<in> set host then ''['' @ host @ '']'' else host)
           in if port = ''443'' then h else h @ '':'' @ port))"

fun has_scheme :: "string \<Rightarrow> bool" where
  "has_scheme [] = False"
| "has_scheme (c # s) = (HasPrefix (c # s) ''://'' \<or> has_scheme s)"

definition after_at :: "string \<Rightarrow> string" where
  "after_at s = rev (takeWhile (\<lambda>c. c \<noteq> CHR ''@'') (rev s))"

definition scheme_of :: "string \<Rightarrow> (transport \<times> string) option" where
  "scheme_of s =
     (if s = ''udp'' then Some (Plain, ''53'') else if s = ''tls'' then Some (DoT, ''853'')
      else if s = ''https'' then Some (DoH, ''443'') else None)"

definition up_Parse :: "netlib \<Rightarrow> string \<Rightarrow> (upstream_error, spec) result" where
  "up_Parse N raw =
     (let s = TrimSpace raw
      in if s = [] then Inl UpEmpty
         else if \<not> has_scheme s then
           (if CHR ''@'' \<in> set s then Inl (UpCredentials (after_at s))
            else case hostPort N s ''53'' of
                   Inl e \<Rightarrow> Inl e
                 | Inr addr \<Rightarrow> Inr \<lparr>sp_Raw = raw, sp_Transport = Plain, sp_Addr = addr, sp_ServerName = [], sp_URL = []\<rparr>)
         else case nl_parse N s of
             Inl e \<Rightarrow> Inl (UpBadURL e)
           | Inr u \<Rightarrow>
               if u_User u then Inl (UpCredentials (u_Scheme u @ ''://'' @ u_Host u))
               else case scheme_of (u_Scheme u) of
                   None \<Rightarrow> Inl (UpScheme (u_Scheme u))
                 | Some (tr, defPort) \<Rightarrow>
                     (case hostPort N (u_Host u) defPort of
                        Inl e \<Rightarrow> Inl e
                      | Inr addr \<Rightarrow>
                          (let sp = \<lparr>sp_Raw = raw, sp_Transport = tr, sp_Addr = addr, sp_ServerName = u_Fragment u, sp_URL = []\<rparr>
                           in Inr (if tr = DoH
                                then sp\<lparr>sp_URL := ''https://'' @ dohAuthority sp @ (if u_Path u = [] then ''/dns-query'' else u_Path u)\<rparr>
                                else sp))))"

definition ParseAll :: "netlib \<Rightarrow> string list \<Rightarrow> (upstream_error, spec list) result" where
  "ParseAll N raws = map_result (up_Parse N) raws"

section \<open>Resolvers\<close>

text \<open>
  A resolver is what the forwarder needs of it: the text it was configured with and whether its channel is
  authenticated. Its identity is the one the allocation gives it, here the position in the list it was built with.
\<close>

definition up_New :: "nat \<Rightarrow> spec \<Rightarrow> (upstream_error, upstream) result" where
  "up_New i s = Inr \<lparr>up_Id = i, up_Spec = sp_Raw s, up_Secure = transport_Secure (sp_Transport s)\<rparr>"

fun new_each :: "nat \<Rightarrow> spec list \<Rightarrow> (upstream_error, upstream list) result" where
  "new_each i [] = Inr []"
| "new_each i (s # ss) =
     (case up_New i s of
        Inl e \<Rightarrow> Inl e
      | Inr u \<Rightarrow> (case new_each (Suc i) ss of Inl e \<Rightarrow> Inl e | Inr us \<Rightarrow> Inr (u # us)))"

definition NewAll :: "netlib \<Rightarrow> nat \<Rightarrow> string list \<Rightarrow> (upstream_error, upstream list) result" where
  "NewAll N i raws = (case ParseAll N raws of Inl e \<Rightarrow> Inl e | Inr specs \<Rightarrow> new_each i specs)"

section \<open>What a configured resolver is\<close>

definition dials_address :: "netlib \<Rightarrow> string \<Rightarrow> bool" where
  "dials_address N a = (\<exists>ip port h. ParseAddr h = Some ip \<and> nl_port N port \<and> a = JoinHostPort (show_addr ip) port)"

lemma hostPort_address: "hostPort N s d = Inr a \<Longrightarrow> dials_address N a"
  by (auto simp: hostPort_def dials_address_def Let_def split: option.splits prod.splits if_splits)

lemma scheme_of_secure: "scheme_of s = Some (tr, p) \<Longrightarrow> transport_Secure tr \<longleftrightarrow> s = ''tls'' \<or> s = ''https''"
  by (auto simp: scheme_of_def transport_Secure_def split: if_splits)

lemma up_Parse_cases:
  assumes "up_Parse N raw = Inr sp"
  shows "sp_Raw sp = raw \<and> dials_address N (sp_Addr sp) \<and>
    (if has_scheme (TrimSpace raw)
     then \<exists>u. nl_parse N (TrimSpace raw) = Inr u \<and> \<not> u_User u \<and> (transport_Secure (sp_Transport sp) \<longleftrightarrow> u_Scheme u \<in> {''tls'', ''https''})
     else CHR ''@'' \<notin> set (TrimSpace raw) \<and> sp_Transport sp = Plain)"
proof (cases "has_scheme (TrimSpace raw)")
  case False
  then show ?thesis using assms by (auto simp: up_Parse_def Let_def split: if_splits sum.splits dest: hostPort_address)
next
  case True
  then obtain u tr p a where u: "nl_parse N (TrimSpace raw) = Inr u" "\<not> u_User u" "scheme_of (u_Scheme u) = Some (tr, p)"
      "hostPort N (u_Host u) p = Inr a" and sp: "sp_Raw sp = raw" "sp_Transport sp = tr" "sp_Addr sp = a"
    using assms by (auto simp: up_Parse_def Let_def split: if_splits sum.splits option.splits)
  show ?thesis using True u(1,2) sp hostPort_address [OF u(4)] scheme_of_secure [OF u(3)] by simp
qed

lemma new_each_total: "\<exists>us. new_each i ss = Inr us \<and> length us = length ss \<and>
   (\<forall>j < length ss. us ! j = \<lparr>up_Id = i + j, up_Spec = sp_Raw (ss ! j), up_Secure = transport_Secure (sp_Transport (ss ! j))\<rparr>)"
proof (induction ss arbitrary: i)
  case (Cons s ss)
  obtain us where us: "new_each (Suc i) ss = Inr us" "length us = length ss"
    "\<forall>j < length ss. us ! j = \<lparr>up_Id = Suc i + j, up_Spec = sp_Raw (ss ! j), up_Secure = transport_Secure (sp_Transport (ss ! j))\<rparr>"
    using Cons.IH by blast
  have "j < Suc (length ss) \<Longrightarrow> (\<lparr>up_Id = i, up_Spec = sp_Raw s, up_Secure = transport_Secure (sp_Transport s)\<rparr> # us) ! j =
      \<lparr>up_Id = i + j, up_Spec = sp_Raw ((s # ss) ! j), up_Secure = transport_Secure (sp_Transport ((s # ss) ! j))\<rparr>" for j
    using us(3) by (cases j) simp_all
  then show ?case using us by (simp add: up_New_def)
qed simp

end
