(* ===== verification/ServerSettings.thy ===== *)
theory ServerSettings
  imports Upstream StoreSync
begin

text \<open>
  The process settings, \<^verbatim>\<open>internal/settings/\<close>: the rules (\<^verbatim>\<open>validate.go\<close>), the parsed snapshot and its holder, and the one write
  path (\<^verbatim>\<open>settings.go\<close>), with \<^verbatim>\<open>ensureSettings\<close> of \<^verbatim>\<open>internal/app/serve.go\<close>. Of a field error the field is kept. The two
  functions of the DNS library that split and check a domain name are fields of \<open>setlib\<close>. A write holds the mutex of the service
  throughout, so it is one step; \<open>onApply\<close> is the injected \<^verbatim>\<open>onApply\<close> on the state of the running components.
\<close>

record setlib = netlib +
  sl_IsDomainName :: "string \<Rightarrow> bool"
  sl_SplitDomainName :: "string \<Rightarrow> string list"

datatype set_error =
    FieldError string
  | ErrReadOnlyReplica
  | SetStoreErr store_error
  | RowVanished
  | NotLoaded

section \<open>Rules\<close>

definition domain_char :: "char \<Rightarrow> bool" where
  "domain_char c = (c = CHR ''-'' \<or> is_lower c \<or> is_upper c \<or> is_digit c)"

definition validDomainName :: "'a setlib_scheme \<Rightarrow> string \<Rightarrow> bool" where
  "validDomainName L s =
     (sl_IsDomainName L s \<and>
      list_all (\<lambda>label. label \<noteq> [] \<and> \<not> HasPrefix label ''-'' \<and> \<not> HasSuffix label ''-'' \<and> list_all domain_char label)
        (sl_SplitDomainName L s))"

definition privateRanges :: "netprefix list" where
  "privateRanges =
     [Prefix (Addr4 0x7F000000) 8, Prefix (Addr6 1 []) 128, Prefix (Addr4 0x0A000000) 8, Prefix (Addr4 0xAC100000) 12,
      Prefix (Addr4 0xC0A80000) 16, Prefix (Addr4 0xA9FE0000) 16, Prefix (Addr6 0xFE800000000000000000000000000000 []) 10,
      Prefix (Addr6 0xFC000000000000000000000000000000 []) 7, Prefix (Addr4 0x64400000) 10]"

definition IsPrivatePrefix :: "netprefix \<Rightarrow> bool" where
  "IsPrivatePrefix p0 = (let p = Masked p0 in list_ex (\<lambda>r. pbits r \<le> pbits p \<and> Contains r (paddr p)) privateRanges)"

fun PublicPrefixes :: "string list \<Rightarrow> string list" where
  "PublicPrefixes [] = []"
| "PublicPrefixes (c # cs) =
     (case ParsePrefix c of
        None \<Rightarrow> PublicPrefixes cs
      | Some p \<Rightarrow> if IsPrivatePrefix p then PublicPrefixes cs else show_prefix (Masked p) # PublicPrefixes cs)"

definition canonical :: "string \<Rightarrow> string" where
  "canonical c = (case ParsePrefix c of None \<Rightarrow> c | Some p \<Rightarrow> show_prefix (Masked p))"

definition canonicalPrefixes :: "string list \<Rightarrow> string list" where
  "canonicalPrefixes list = map canonical list"

definition Canonicalize :: "settings \<Rightarrow> settings" where
  "Canonicalize v = v\<lparr>AllowQuery := canonicalPrefixes (AllowQuery v), ReverseZones := canonicalPrefixes (ReverseZones v)\<rparr>"

definition validateAllowQuery :: "string list \<Rightarrow> set_error option" where
  "validateAllowQuery list =
     (if list = [] then Some (FieldError ''allow_query'')
      else if list_ex (\<lambda>c. ParsePrefix c = None) list then Some (FieldError ''allow_query'') else None)"

definition confirmPublicPrefixes :: "string list \<Rightarrow> string list \<Rightarrow> string \<Rightarrow> set_error option" where
  "confirmPublicPrefixes list prev confirmPublic =
     (let stored = PublicPrefixes prev
      in if list_ex (\<lambda>c. \<not> (c = confirmPublic \<or> c \<in> set stored)) (PublicPrefixes list)
         then Some (FieldError ''allow_query'') else None)"

definition dhcpLeaseMin :: int where "dhcpLeaseMin = 300"
definition dhcpLeaseMax :: int where "dhcpLeaseMax = 604800"
definition dhcpMaxPoolSize :: int where "dhcpMaxPoolSize = 65536"

definition parseIPv4 :: "string \<Rightarrow> string \<Rightarrow> (set_error, addr) result" where
  "parseIPv4 field s =
     (case ParseAddr (TrimSpace s) of
        None \<Rightarrow> Inl (FieldError field)
      | Some a \<Rightarrow> if is4 a then Inr a else Inl (FieldError field))"

fun be32 :: "addr \<Rightarrow> int" where
  "be32 (Addr4 w) = uint w"
| "be32 _ = 0"

definition pool_size :: "addr \<Rightarrow> addr \<Rightarrow> int" where
  "pool_size start end' = be32 end' - be32 start + 1"

definition lease_seconds_error :: "settings \<Rightarrow> set_error option" where
  "lease_seconds_error v =
     (if DHCPLeaseSeconds v < dhcpLeaseMin \<or> dhcpLeaseMax < DHCPLeaseSeconds v then Some (FieldError ''dhcp_lease_seconds'') else None)"

definition validateDHCP :: "settings \<Rightarrow> set_error option" where
  "validateDHCP v =
     (if \<not> DHCPEnabled v then None
      else if DHCPLeaseFile v \<noteq> [] then Some (FieldError ''dhcp_enabled'')
      else if TrimSpace (DHCPInterface v) = [] then Some (FieldError ''dhcp_interface'')
      else case parseIPv4 ''dhcp_range_start'' (DHCPRangeStart v) of
        Inl e \<Rightarrow> Some e
      | Inr start \<Rightarrow>
         (case parseIPv4 ''dhcp_range_end'' (DHCPRangeEnd v) of
            Inl e \<Rightarrow> Some e
          | Inr end' \<Rightarrow>
              if addr_less end' start then Some (FieldError ''dhcp_range_end'')
              else if dhcpMaxPoolSize < pool_size start end' then Some (FieldError ''dhcp_range_end'')
              else (case parseIPv4 ''dhcp_gateway'' (DHCPGateway v) of
                      Inl e \<Rightarrow> Some e
                    | Inr _ \<Rightarrow>
                        if DHCPSecondaryDNS v = [] then lease_seconds_error v
                        else (case parseIPv4 ''dhcp_secondary_dns'' (DHCPSecondaryDNS v) of
                                Inl e \<Rightarrow> Some e
                              | Inr _ \<Rightarrow> lease_seconds_error v))))"

definition positives :: "settings \<Rightarrow> (string \<times> int) list" where
  "positives v = [(''ttl'', TTL v), (''cache_min_ttl'', CacheMinTTL v), (''cache_max_ttl'', CacheMaxTTL v),
     (''negative_max_ttl'', NegativeMaxTTL v), (''cache_entries'', CacheEntries v), (''discovery_interval'', DiscoveryInterval v),
     (''health_interval'', HealthInterval v), (''health_timeout'', HealthTimeout v), (''health_workers'', HealthWorkers v)]"

definition ValidateStored :: "'a setlib_scheme \<Rightarrow> settings \<Rightarrow> set_error option" where
  "ValidateStored L v =
     (if TrimSpace (PrivateDomain v) = [] then Some (FieldError ''private_domain'')
      else if \<not> validDomainName L (PrivateDomain v) then Some (FieldError ''private_domain'')
      else if list_ex (\<lambda>z. ParsePrefix z = None) (ReverseZones v) then Some (FieldError ''reverse_zones'')
      else if Upstreams v = [] then Some (FieldError ''upstreams'')
      else case ParseAll (netlib.truncate L) (Upstreams v) of
        Inl _ \<Rightarrow> Some (FieldError ''upstreams'')
      | Inr _ \<Rightarrow>
         (case validateAllowQuery (AllowQuery v) of
            Some e \<Rightarrow> Some e
          | None \<Rightarrow>
             (case find (\<lambda>p. snd p < 1) (positives v) of
                Some p \<Rightarrow> Some (FieldError (fst p))
              | None \<Rightarrow>
                  if CacheMaxTTL v < CacheMinTTL v then Some (FieldError ''cache_min_ttl'')
                  else if HealthInterval v \<le> HealthTimeout v then Some (FieldError ''health_timeout'')
                  else if DHCPLeaseFile v \<noteq> [] \<and> \<not> HasPrefix (DHCPLeaseFile v) ''/'' then Some (FieldError ''dhcp_lease_file'')
                  else validateDHCP v)))"

definition ValidateWrite :: "'a setlib_scheme \<Rightarrow> settings \<Rightarrow> settings \<Rightarrow> string \<Rightarrow> set_error option" where
  "ValidateWrite L nxt prev confirmPublic =
     (case ValidateStored L nxt of
        Some e \<Rightarrow> Some e
      | None \<Rightarrow> confirmPublicPrefixes (AllowQuery nxt) (AllowQuery prev) confirmPublic)"

section \<open>The snapshot and its holder\<close>

record set_snapshot =
  ss_Raw :: settings
  ss_AllowQuery :: "netprefix list"
  ss_ReverseZones :: "netprefix list"
  ss_Upstreams :: "upstream list"

definition TailscaleCGNAT :: string where
  "TailscaleCGNAT = ''100.64.0.0/10''"

definition masked_all :: "string \<Rightarrow> string list \<Rightarrow> (set_error, netprefix list) result" where
  "masked_all field = map_result (\<lambda>c. case ParsePrefix c of None \<Rightarrow> Inl (FieldError field) | Some p \<Rightarrow> Inr (Masked p))"

text \<open>\<open>i\<close> is the identity of the first resolver this build allocates.\<close>

definition set_Build :: "'a setlib_scheme \<Rightarrow> nat \<Rightarrow> settings \<Rightarrow> (set_error, set_snapshot) result" where
  "set_Build L i v =
     (case masked_all ''allow_query'' (AllowQuery v @ (if AllowTailscale v then [TailscaleCGNAT] else [])) of
        Inl e \<Rightarrow> Inl e
      | Inr aq \<Rightarrow>
         (case masked_all ''reverse_zones'' (ReverseZones v) of
            Inl e \<Rightarrow> Inl e
          | Inr rz \<Rightarrow>
             (case NewAll (netlib.truncate L) i (Upstreams v) of
                Inl _ \<Rightarrow> Inl (FieldError ''upstreams'')
              | Inr ups \<Rightarrow> Inr \<lparr>ss_Raw = v, ss_AllowQuery = aq, ss_ReverseZones = rz, ss_Upstreams = ups\<rparr>)))"

text \<open>The closure of \<^verbatim>\<open>serve.go\<close> the holder reads from; \<open>rd\<close> is the error of that read.\<close>

definition set_source :: "string option \<Rightarrow> db \<Rightarrow> (set_error, settings) result" where
  "set_source rd d =
     (case rd of
        Some e \<Rightarrow> Inl (SetStoreErr (ErrDB e))
      | None \<Rightarrow> (case Settings d of None \<Rightarrow> Inl RowVanished | Some v \<Rightarrow> Inr v))"

record 'h set_service =
  se_db :: db
  se_cur :: "set_snapshot option"
  se_live :: 'h

definition set_Rebuild :: "'a setlib_scheme \<Rightarrow> nat \<Rightarrow> string option \<Rightarrow> 'h set_service \<Rightarrow> set_error option \<times> 'h set_service" where
  "set_Rebuild L i rd s =
     (case set_source rd (se_db s) of
        Inl e \<Rightarrow> (Some e, s)
      | Inr v \<Rightarrow> (case set_Build L i v of Inl e \<Rightarrow> (Some e, s) | Inr snap \<Rightarrow> (None, s\<lparr>se_cur := Some snap\<rparr>)))"

definition publish :: "set_snapshot \<Rightarrow> 'h set_service \<Rightarrow> 'h set_service" where
  "publish snap s = s\<lparr>se_cur := Some snap\<rparr>"

text \<open>The settings holder keeps the promise of every holder: a rebuild that fails leaves what is served as it was.\<close>

definition settings_build :: "'a setlib_scheme \<times> nat \<times> string option \<Rightarrow> 'h set_service \<Rightarrow> (set_error, set_snapshot) result" where
  "settings_build src s = (case src of (L, i, rd) \<Rightarrow> (case set_source rd (se_db s) of Inl e \<Rightarrow> Inl e | Inr v \<Rightarrow> set_Build L i v))"

interpretation sh: snapshot_holder "\<lambda>(L, i, rd). set_Rebuild L i rd" se_cur settings_build
  by unfold_locales (auto simp: set_Rebuild_def settings_build_def split: prod.splits sum.splits)

section \<open>The write path\<close>

definition set_Get :: "'h set_service \<Rightarrow> (set_error, settings) result" where
  "set_Get s = (case se_cur s of Some snap \<Rightarrow> Inr (ss_Raw snap) | None \<Rightarrow> Inl NotLoaded)"

definition running :: "'h set_service \<Rightarrow> settings" where
  "running s = (case se_cur s of Some snap \<Rightarrow> ss_Raw snap | None \<Rightarrow> blank_settings)"

definition CheckWrite :: "'a setlib_scheme \<Rightarrow> nat \<Rightarrow> settings \<Rightarrow> string \<Rightarrow> 'h set_service \<Rightarrow> set_error option" where
  "CheckWrite L i v confirmPublic s =
     (case ValidateWrite L v (running s) confirmPublic of
        Some e \<Rightarrow> Some e
      | None \<Rightarrow> (case set_Build L i v of Inl e \<Rightarrow> Some e | Inr _ \<Rightarrow> None))"

definition withoutDHCP :: "settings \<Rightarrow> settings" where
  "withoutDHCP v = with_dhcp blank_settings v"

definition dhcpOnlyChange :: "settings \<Rightarrow> settings \<Rightarrow> bool" where
  "dhcpOnlyChange prev v = (withoutDHCP prev = withoutDHCP v)"

definition setDHCPOnly ::
  "'a setlib_scheme \<Rightarrow> nat \<Rightarrow> string option \<Rightarrow> string option \<Rightarrow> (set_snapshot \<Rightarrow> 'h \<Rightarrow> 'h) \<Rightarrow> settings \<Rightarrow> settings \<Rightarrow> string \<Rightarrow>
   'h set_service \<Rightarrow> set_error option \<times> 'h set_service" where
  "setDHCPOnly L i io rd onApply v prev confirmPublic s =
     (if \<not> dhcpOnlyChange prev v then (Some ErrReadOnlyReplica, s)
      else case ValidateWrite L v prev confirmPublic of
        Some e \<Rightarrow> (Some e, s)
      | None \<Rightarrow>
         (case PutDHCPSettings io v (se_db s) of
            Inl e \<Rightarrow> (Some (SetStoreErr e), s)
          | Inr d \<Rightarrow>
             (case set_Rebuild L i rd (s\<lparr>se_db := d\<rparr>) of
                (Some e, s1) \<Rightarrow> (Some e, s1)
              | (None, s1) \<Rightarrow> (None, case se_cur s1 of None \<Rightarrow> s1 | Some snap \<Rightarrow> s1\<lparr>se_live := onApply snap (se_live s1)\<rparr>))))"

definition persist :: "string option \<Rightarrow> settings \<Rightarrow> settings \<Rightarrow> db \<Rightarrow> (store_error, db) result" where
  "persist io prev v d =
     (let from = ZoneSuffix (PrivateDomain prev); to = ZoneSuffix (PrivateDomain v)
      in if from \<noteq> [] \<and> from \<noteq> to
         then (case PutSettingsRenamingZone io v from to d of Inl e \<Rightarrow> Inl e | Inr (_, d') \<Rightarrow> Inr d')
         else PutSettings io v d)"

definition set_Set ::
  "'a setlib_scheme \<Rightarrow> nat \<Rightarrow> string option \<Rightarrow> string option \<Rightarrow> (set_snapshot \<Rightarrow> 'h \<Rightarrow> 'h) \<Rightarrow> bool \<Rightarrow> settings \<Rightarrow> string \<Rightarrow>
   'h set_service \<Rightarrow> set_error option \<times> 'h set_service" where
  "set_Set L i io rd onApply isReplica v0 confirmPublic s =
     (let prev = running s
      in if isReplica then setDHCPOnly L i io rd onApply v0 prev confirmPublic s
         else case ValidateWrite L v0 prev confirmPublic of
           Some e \<Rightarrow> (Some e, s)
         | None \<Rightarrow>
             (let v = Canonicalize v0
              in case set_Build L i v of
                   Inl e \<Rightarrow> (Some e, s)
                 | Inr snap \<Rightarrow>
                     (case persist io prev v (se_db s) of
                        Inl e \<Rightarrow> (Some (SetStoreErr e), s)
                      | Inr d \<Rightarrow> (None, (publish snap (s\<lparr>se_db := d\<rparr>))\<lparr>se_live := onApply snap (se_live s)\<rparr>))))"

section \<open>Starting\<close>

definition ensureSettings :: "'a setlib_scheme \<Rightarrow> string option \<Rightarrow> string option \<Rightarrow> settings \<Rightarrow> db \<Rightarrow> (set_error, settings) result \<times> db" where
  "ensureSettings L rd io seed0 d =
     (case rd of
        Some e \<Rightarrow> (Inl (SetStoreErr (ErrDB e)), d)
      | None \<Rightarrow>
         (case Settings d of
            Some cur \<Rightarrow> (case ValidateStored L cur of Some e \<Rightarrow> (Inl e, d) | None \<Rightarrow> (Inr cur, d))
          | None \<Rightarrow>
             (case ValidateStored L seed0 of
                Some e \<Rightarrow> (Inl e, d)
              | None \<Rightarrow>
                 (let seed = Canonicalize seed0
                  in case PutSettings io seed d of Inl e \<Rightarrow> (Inl (SetStoreErr e), d) | Inr d' \<Rightarrow> (Inr seed, d')))))"

end
