(* ===== verification/Health.thy ===== *)
theory Health
  imports StoreModel
begin

text \<open>
  The health checker, \<^verbatim>\<open>internal/health/checker.go\<close>: one entry per service with its hysteresis, probes over TCP and HTTP, and the
  schedule. What the network answers is the argument \<open>net\<close>. The workers of one cycle finish in some order; \<open>finished\<close> is the
  services in that order. The map of entries is ordered by insertion.
\<close>

definition failuresToDown :: int where "failuresToDown = 2"
definition successesToUp :: int where "successesToUp = 1"
definition StateUp :: string where "StateUp = ''up''"
definition StateDown :: string where "StateDown = ''down''"
definition StateUnknown :: string where "StateUnknown = ''unknown''"
definition minInterval :: int where "minInterval = 1000000"

record hstatus =
  hs_ServiceID :: int
  hs_Name :: string
  hs_State :: string
  hs_Since :: int
  hs_LastError :: string

record hentry =
  he_status :: hstatus
  he_failures :: int
  he_successes :: int

record checker =
  ck_interval :: int
  ck_timeout :: int
  ck_workers :: int
  ck_changed :: bool
  ck_entries :: "(int, hentry) gomap"

record prober =
  pb_dial :: "string \<Rightarrow> string option"
  pb_get :: "string \<Rightarrow> bool \<Rightarrow> (string, int \<times> string) result"

section \<open>The schedule\<close>

definition Reconfigure :: "int \<Rightarrow> int \<Rightarrow> int \<Rightarrow> checker \<Rightarrow> checker" where
  "Reconfigure interval timeout workers c =
     c\<lparr>ck_interval := (if interval < minInterval then minInterval else interval), ck_timeout := timeout,
       ck_workers := (if workers < 1 then 8 else workers), ck_changed := True\<rparr>"

definition NewChecker :: "int \<Rightarrow> int \<Rightarrow> int \<Rightarrow> checker" where
  "NewChecker interval timeout workers =
     (Reconfigure interval timeout workers \<lparr>ck_interval = 0, ck_timeout = 0, ck_workers = 0, ck_changed = False, ck_entries = []\<rparr>)\<lparr>ck_changed := False\<rparr>"

definition checker_Config :: "checker \<Rightarrow> int \<times> int \<times> int" where
  "checker_Config c = (ck_interval c, ck_timeout c, ck_workers c)"

section \<open>One probe\<close>

definition probe :: "prober \<Rightarrow> string \<Rightarrow> bool \<Rightarrow> string option" where
  "probe net target insecure =
     (if HasPrefix target ''tcp://'' then pb_dial net (drop 6 target)
      else case pb_get net target insecure of
        Inl e \<Rightarrow> Some e
      | Inr (code, status) \<Rightarrow> if 400 \<le> code then Some (''status '' @ status) else None)"

definition new_entry :: "int \<Rightarrow> service \<Rightarrow> hentry" where
  "new_entry now svc = \<lparr>he_status = \<lparr>hs_ServiceID = svc_ID svc, hs_Name = [], hs_State = StateUnknown, hs_Since = now, hs_LastError = []\<rparr>,
     he_failures = 0, he_successes = 0\<rparr>"

definition judge :: "string option \<Rightarrow> string option \<Rightarrow> hentry \<Rightarrow> hentry" where
  "judge forced probeErr e =
     (case forced of
        Some st \<Rightarrow> e\<lparr>he_status := (he_status e)\<lparr>hs_State := st, hs_LastError := []\<rparr>, he_failures := 0, he_successes := 0\<rparr>
      | None \<Rightarrow>
         (case probeErr of
            None \<Rightarrow>
              e\<lparr>he_successes := he_successes e + 1, he_failures := 0,
                he_status := (he_status e)\<lparr>hs_LastError := [],
                  hs_State := (if successesToUp \<le> he_successes e + 1 then StateUp else hs_State (he_status e))\<rparr>\<rparr>
          | Some msg \<Rightarrow>
              e\<lparr>he_failures := he_failures e + 1, he_successes := 0,
                he_status := (he_status e)\<lparr>hs_LastError := msg,
                  hs_State := (if failuresToDown \<le> he_failures e + 1 then StateDown else hs_State (he_status e))\<rparr>\<rparr>))"

definition hc_record :: "int \<Rightarrow> service \<Rightarrow> string option \<Rightarrow> string option \<Rightarrow> checker \<Rightarrow> checker" where
  "hc_record now svc forced probeErr c =
     (let e0 = (case m_get (ck_entries c) (svc_ID svc) of None \<Rightarrow> new_entry now svc | Some e \<Rightarrow> e);
          e1 = e0\<lparr>he_status := (he_status e0)\<lparr>hs_Name := svc_Name svc\<rparr>\<rparr>;
          e2 = judge forced probeErr e1;
          e3 = (if hs_State (he_status e2) \<noteq> hs_State (he_status e1) then e2\<lparr>he_status := (he_status e2)\<lparr>hs_Since := now\<rparr>\<rparr> else e2)
      in c\<lparr>ck_entries := m_put (svc_ID svc) e3 (ck_entries c)\<rparr>)"

definition probeAndRecord :: "prober \<Rightarrow> int \<Rightarrow> service \<Rightarrow> checker \<Rightarrow> checker" where
  "probeAndRecord net now svc c =
     (if TrimSpace (svc_CheckURL svc) = [] then hc_record now svc (Some StateUnknown) None c
      else hc_record now svc None (probe net (svc_CheckURL svc) (svc_CheckInsecure svc)) c)"

section \<open>One cycle\<close>

definition CheckOnce :: "prober \<Rightarrow> int \<Rightarrow> (store_error, service list) result \<Rightarrow> service list \<Rightarrow> checker \<Rightarrow> checker" where
  "CheckOnce net now listed finished c =
     (case listed of
        Inl _ \<Rightarrow> c
      | Inr svcs \<Rightarrow>
          fold (probeAndRecord net now) finished
            (c\<lparr>ck_entries := filter (\<lambda>x. fst x \<in> svc_ID ` set svcs) (ck_entries c)\<rparr>))"

definition Statuses :: "checker \<Rightarrow> hstatus list" where
  "Statuses c = map (\<lambda>x. he_status (snd x)) (ck_entries c)"

section \<open>The hysteresis\<close>

text \<open>
  The reference: a service is down when its last two probes failed, otherwise up when any succeeded, otherwise unknown; what
  counts is the probes since it last had no check to run.
\<close>

definition verdict :: "bool list \<Rightarrow> string" where
  "verdict hist =
     (if 2 \<le> length (takeWhile Not (rev hist)) then StateDown else if True \<in> set hist then StateUp else StateUnknown)"

type_synonym probe_event = "service \<times> int \<times> string option option"

definition observe :: "probe_event \<Rightarrow> checker \<Rightarrow> checker" where
  "observe ev c = (case ev of (svc, now, None) \<Rightarrow> hc_record now svc (Some StateUnknown) None c | (svc, now, Some err) \<Rightarrow> hc_record now svc None err c)"

definition own_step :: "int \<Rightarrow> probe_event \<Rightarrow> bool list \<Rightarrow> bool list" where
  "own_step i ev hist = (case ev of (svc, now, r) \<Rightarrow> if svc_ID svc \<noteq> i then hist else (case r of None \<Rightarrow> [] | Some err \<Rightarrow> hist @ [err = None]))"

definition state_of :: "int \<Rightarrow> checker \<Rightarrow> string" where
  "state_of i c = (case m_get (ck_entries c) i of None \<Rightarrow> StateUnknown | Some e \<Rightarrow> hs_State (he_status e))"

definition tracks :: "int \<Rightarrow> bool list \<Rightarrow> checker \<Rightarrow> bool" where
  "tracks i hist c =
     (case m_get (ck_entries c) i of
        None \<Rightarrow> hist = []
      | Some e \<Rightarrow> he_failures e = int (length (takeWhile Not (rev hist))) \<and> 0 \<le> he_successes e \<and> hs_State (he_status e) = verdict hist)"

lemma verdict_snoc:
  "verdict (hist @ [True]) = StateUp"
  "verdict (hist @ [False]) = (if 2 \<le> Suc (length (takeWhile Not (rev hist))) then StateDown else verdict hist)"
  by (auto simp: verdict_def)

lemma verdict_Nil: "verdict [] = StateUnknown"
  by (simp add: verdict_def)

lemma probeAndRecord_observe:
  "probeAndRecord net now svc c =
     observe (svc, now, if TrimSpace (svc_CheckURL svc) = [] then None else Some (probe net (svc_CheckURL svc) (svc_CheckInsecure svc))) c"
  by (simp add: probeAndRecord_def observe_def)

lemma tracks_observe:
  assumes "tracks i hist c"
  shows "tracks i (own_step i ev hist) (observe ev c)"
proof -
  obtain svc now r where ev: "ev = (svc, now, r)" by (cases ev)
  have st: "hs_State (he_status (case m_get (ck_entries c) i of None \<Rightarrow> new_entry now svc | Some e \<Rightarrow> e)) = verdict hist"
    "he_failures (case m_get (ck_entries c) i of None \<Rightarrow> new_entry now svc | Some e \<Rightarrow> e) = int (length (takeWhile Not (rev hist)))"
    "0 \<le> he_successes (case m_get (ck_entries c) i of None \<Rightarrow> new_entry now svc | Some e \<Rightarrow> e)"
    using assms by (auto simp: tracks_def new_entry_def verdict_Nil split: option.splits)
  show ?thesis
  proof (cases "svc_ID svc = i")
    case False
    then show ?thesis using assms ev
      by (auto simp: tracks_def own_step_def observe_def hc_record_def Let_def split: option.splits)
  next
    case True
    then show ?thesis using st ev
      by (cases r; cases "the r")
        (auto simp: tracks_def own_step_def observe_def hc_record_def judge_def verdict_snoc verdict_Nil Let_def failuresToDown_def successesToUp_def)
  qed
qed

lemma tracks_run: "tracks i hist c \<Longrightarrow> tracks i (fold (own_step i) evs hist) (fold observe evs c)"
  by (induction evs arbitrary: hist c) (simp_all add: tracks_observe)

text \<open>
  The status of a service is the verdict of its own probes, whatever other services are probed in between and in whatever order: one
  success brings it up, two failures in a row and no fewer take it down, and a service without a check is unknown.
\<close>

theorem health_hysteresis:
  assumes "m_get (ck_entries c) i = None"
  shows "state_of i (fold observe evs c) = verdict (fold (own_step i) evs [])"
proof -
  have "tracks i (fold (own_step i) evs []) (fold observe evs c)" using assms by (intro tracks_run) (simp add: tracks_def)
  then show ?thesis by (auto simp: tracks_def state_of_def verdict_Nil split: option.splits)
qed

definition web_service :: service where
  "web_service = \<lparr>svc_ID = 3, svc_Name = ''web'', svc_Addresses = [], svc_Aliases = [], svc_CheckURL = ''tcp://10.0.0.2:80'', svc_CheckInsecure = False,
     svc_ProxyAddress = [], svc_RouteViaProxy = False, svc_MAC = []\<rparr>"

theorem health_hysteresis_witness:
  "state_of 3 (fold observe [(web_service, 1, Some None), (web_service\<lparr>svc_ID := 4\<rparr>, 2, Some (Some ''refused'')), (web_service, 3, Some (Some ''refused''))] (NewChecker 30 5 2)) = ''up''"
proof -
  have "m_get (ck_entries (NewChecker 30 5 2)) 3 = None" by (simp add: NewChecker_def Reconfigure_def)
  then show ?thesis by (subst health_hysteresis) (simp_all add: own_step_def web_service_def verdict_def StateUp_def)
qed

text \<open>A cycle forgets the services that are gone, and the schedule can never spin or run without a worker.\<close>

lemma hc_record_keys: "fst ` set (ck_entries (hc_record now svc f e c)) = insert (svc_ID svc) (fst ` set (ck_entries c))"
  by (auto simp: hc_record_def Let_def m_put_def m_del_def)

lemma CheckOnce_keys:
  assumes "svc_ID ` set finished \<subseteq> svc_ID ` set svcs"
  shows "fst ` set (ck_entries (CheckOnce net now (Inr svcs) finished c)) \<subseteq> svc_ID ` set svcs"
proof -
  have keys: "fst ` set (ck_entries (fold (probeAndRecord net now) xs d)) \<subseteq> svc_ID ` set xs \<union> fst ` set (ck_entries d)" for xs d
  proof (induction xs arbitrary: d)
    case (Cons x xs)
    have "fst ` set (ck_entries (probeAndRecord net now x d)) = insert (svc_ID x) (fst ` set (ck_entries d))"
      by (simp add: probeAndRecord_def hc_record_keys)
    then show ?case using Cons [of "probeAndRecord net now x d"] by auto
  qed simp
  have "fst ` set (ck_entries (CheckOnce net now (Inr svcs) finished c)) \<subseteq>
      svc_ID ` set finished \<union> fst ` set (filter (\<lambda>x. fst x \<in> svc_ID ` set svcs) (ck_entries c))"
    using keys [of finished "c\<lparr>ck_entries := filter (\<lambda>x. fst x \<in> svc_ID ` set svcs) (ck_entries c)\<rparr>"] by (simp add: CheckOnce_def)
  also have "\<dots> \<subseteq> svc_ID ` set svcs" using assms by auto
  finally show ?thesis .
qed

lemma Reconfigure_sane: "minInterval \<le> ck_interval (Reconfigure i t w c) \<and> 1 \<le> ck_workers (Reconfigure i t w c)"
  by (simp add: Reconfigure_def)

end
