(* ===== verification/Replica.thy ===== *)
theory Replica
  imports ServerSettings Health
begin

text \<open>
  Replication, \<^verbatim>\<open>internal/replica/\<close> and its wiring in \<^verbatim>\<open>internal/app/replication.go\<close> and \<^verbatim>\<open>role.go\<close>. A primary answers with its
  version and its configuration; a replica polls, and applies what changed; pairing pins one node to another;
  promotion makes a replica a primary.

  The wire is JSON over TLS: a document is the value it encodes, or the error of decoding it, and the fingerprint of a peer is what the
  handshake proved. What the network and the database do in one tick is the argument \<open>tick\<close>. The reads of one snapshot are
  separate statements: \<open>at k\<close> is the database at the moment of the \<open>k\<close>-th. Times are in nanoseconds where the code has a
  \<^verbatim>\<open>time.Duration\<close> and in seconds where it has a Unix time. Log lines are left out.
\<close>

section \<open>Documents\<close>

definition SchemaVersion :: int where "SchemaVersion = 1"

record version_reply =
  vr_Schema :: int
  vr_Version :: int
  vr_NodeID :: string

record rsnapshot =
  rs_Schema :: int
  rs_Version :: int
  rs_NodeID :: string
  rs_Config :: "(string, snapshot_input) result"

section \<open>The primary's half\<close>

definition source_Version :: "string option \<Rightarrow> string \<Rightarrow> db \<Rightarrow> (string, version_reply) result" where
  "source_Version rd nodeID d =
     (case rd of Some e \<Rightarrow> Inl e | None \<Rightarrow> Inr \<lparr>vr_Schema = SchemaVersion, vr_Version = ConfigVersion d, vr_NodeID = nodeID\<rparr>)"

fun first_read_error :: "(nat \<Rightarrow> string option) \<Rightarrow> nat \<Rightarrow> nat \<Rightarrow> string option" where
  "first_read_error rd k 0 = None"
| "first_read_error rd k (Suc n) = (case rd k of Some e \<Rightarrow> Some e | None \<Rightarrow> first_read_error rd (Suc k) n)"

definition source_Snapshot :: "(nat \<Rightarrow> string option) \<Rightarrow> string \<Rightarrow> (nat \<Rightarrow> db) \<Rightarrow> (string, rsnapshot) result" where
  "source_Snapshot rd nodeID at =
     (let version = ConfigVersion (at 0)
      in case first_read_error rd 0 2 of
           Some e \<Rightarrow> Inl e
         | None \<Rightarrow>
             (case Services (db_reg (at 2)) of
                Inl _ \<Rightarrow> Inl ''services''
              | Inr services \<Rightarrow>
                  (case first_read_error rd 2 3 of
                     Some e \<Rightarrow> Inl e
                   | None \<Rightarrow>
                       (case Settings (at 4) of
                          None \<Rightarrow> Inl ''settings row vanished''
                        | Some stored \<Rightarrow>
                            (case first_read_error rd 5 3 of
                               Some e \<Rightarrow> Inl e
                             | None \<Rightarrow>
                                 Inr \<lparr>rs_Schema = SchemaVersion, rs_Version = version, rs_NodeID = nodeID,
                                   rs_Config = Inr \<lparr>si_Views = Views (db_reg (at 1)), si_Services = services, si_Records = Records (db_reg (at 3)),
                                     si_Settings = stored, si_Blacklist = BlacklistSettings (db_bl (at 5)),
                                     si_Lists = BlacklistListMetas (db_bl (at 6)), si_Rules = BlacklistRules (db_bl (at 7))\<rparr>\<rparr>)))))"

definition wireHealthy :: string where "wireHealthy = ''healthy''"
definition wireUnhealthy :: string where "wireUnhealthy = ''unhealthy''"
definition wireUnknown :: string where "wireUnknown = ''unknown''"

definition wire_state :: "string \<Rightarrow> string" where
  "wire_state st = (if st = StateUp then wireHealthy else if st = StateDown then wireUnhealthy else wireUnknown)"

definition source_HealthStatus :: "hstatus list option \<Rightarrow> (string, string) gomap" where
  "source_HealthStatus statuses =
     (case statuses of None \<Rightarrow> [] | Some sts \<Rightarrow> fold (\<lambda>st m. m_put (hs_Name st) (wire_state (hs_State st)) m) sts [])"

section \<open>The replica's half\<close>

datatype apply_error =
    ADecode string
  | AStore store_error
  | ASettings set_error
  | APolicy string

text \<open>\<^verbatim>\<open>replicaApplier.Apply\<close>: the rows in one transaction, then everything that serves from them; \<open>pol\<close> is the rebuild of the policy.\<close>

definition replicaApplier_Apply ::
  "'a setlib_scheme \<Rightarrow> nat \<Rightarrow> string option \<Rightarrow> string option \<Rightarrow> (set_snapshot \<Rightarrow> 'h \<Rightarrow> 'h) \<Rightarrow> (db \<Rightarrow> 'h \<Rightarrow> string option \<times> 'h) \<Rightarrow>
   (string, snapshot_input) result \<Rightarrow> 'h set_service \<Rightarrow> apply_error option \<times> 'h set_service" where
  "replicaApplier_Apply L i io rd onApply pol cfg s =
     (case cfg of
        Inl e \<Rightarrow> (Some (ADecode e), s)
      | Inr si \<Rightarrow>
         (case ApplySnapshot io si (se_db s) of
            Inl e \<Rightarrow> (Some (AStore e), s)
          | Inr d \<Rightarrow>
             (case set_Rebuild L i rd (s\<lparr>se_db := d\<rparr>) of
                (Some e, s1) \<Rightarrow> (Some (ASettings e), s1)
              | (None, s1) \<Rightarrow>
                 (let s2 = (case se_cur s1 of None \<Rightarrow> s1 | Some snap \<Rightarrow> s1\<lparr>se_live := onApply snap (se_live s1)\<rparr>);
                      (e, h) = pol (se_db s2) (se_live s2)
                  in (map_option APolicy e, s2\<lparr>se_live := h\<rparr>)))))"

datatype pull_error =
    PReadState string
  | PDial string
  | PVersion string
  | PWrongNode string
  | PSchema string int
  | PSnapshot string
  | PApply int apply_error
  | PState string

record puller_cfg =
  pc_Pinned :: string
  pc_Interval :: int
  pc_Ceiling :: int

record puller =
  pu_conn :: bool
  pu_lastVersion :: int
  pu_lastSyncAt :: int
  pu_lastErr :: "pull_error option"
  pu_backoff :: int
  pu_health :: "(string, string) gomap"
  pu_healthKnown :: bool

definition staleAfter :: int where "staleAfter = 60 * 1000000000"
definition pullInterval :: int where "pullInterval = 5 * 1000000000"
definition pullCeiling :: int where "pullCeiling = 60 * 1000000000"

definition healthUnknownState :: string where "healthUnknownState = ''unknown''"

definition NewPuller :: "puller_cfg \<Rightarrow> string option \<Rightarrow> ltables \<Rightarrow> puller" where
  "NewPuller cfg rd t =
     (let (nodeID, version) = (case rd of Some _ \<Rightarrow> ([], 0) | None \<Rightarrow> ReplicaState t)
      in \<lparr>pu_conn = False, pu_lastVersion = (if nodeID = pc_Pinned cfg then version else 0), pu_lastSyncAt = 0,
          pu_lastErr = map_option PReadState rd, pu_backoff = pc_Interval cfg, pu_health = [], pu_healthKnown = False\<rparr>)"

definition slower :: "puller_cfg \<Rightarrow> puller \<Rightarrow> puller" where
  "slower cfg p = p\<lparr>pu_backoff := (if pc_Ceiling cfg < pu_backoff p * 2 then pc_Ceiling cfg else pu_backoff p * 2)\<rparr>"

definition fail :: "pull_error \<Rightarrow> puller \<Rightarrow> puller" where
  "fail e p = p\<lparr>pu_lastErr := Some e\<rparr>"

definition unreachable :: "puller_cfg \<Rightarrow> pull_error \<Rightarrow> puller \<Rightarrow> puller" where
  "unreachable cfg e p = slower cfg (fail e p)"

definition reject :: "puller_cfg \<Rightarrow> pull_error \<Rightarrow> puller \<Rightarrow> puller" where
  "reject cfg e p = slower cfg (fail e p)"

definition reachable :: "puller_cfg \<Rightarrow> puller \<Rightarrow> puller" where
  "reachable cfg p = p\<lparr>pu_backoff := pc_Interval cfg\<rparr>"

definition drop_conn :: "puller \<Rightarrow> puller" where
  "drop_conn p = p\<lparr>pu_conn := False\<rparr>"

definition healthUnknown :: "puller \<Rightarrow> puller" where
  "healthUnknown p = p\<lparr>pu_healthKnown := False\<rparr>"

definition pollHealth :: "(string, (string, string) gomap) result \<Rightarrow> puller \<Rightarrow> puller" where
  "pollHealth r p =
     (case r of Inl _ \<Rightarrow> p\<lparr>pu_healthKnown := False\<rparr> | Inr statuses \<Rightarrow> p\<lparr>pu_health := statuses, pu_healthKnown := True\<rparr>)"

definition synced :: "int \<Rightarrow> int \<Rightarrow> puller \<Rightarrow> puller" where
  "synced now v p = p\<lparr>pu_lastVersion := v, pu_lastSyncAt := now, pu_lastErr := None\<rparr>"

definition puller_Health :: "puller \<Rightarrow> (string, string) gomap" where
  "puller_Health p = map (\<lambda>kv. (fst kv, if pu_healthKnown p then snd kv else healthUnknownState)) (pu_health p)"

record pstatus =
  ps_PrimaryNodeID :: string
  ps_LastSyncAt :: int
  ps_LastVersion :: int
  ps_LastError :: "pull_error option"
  ps_Stale :: bool

definition puller_Status :: "puller_cfg \<Rightarrow> int \<Rightarrow> puller \<Rightarrow> pstatus" where
  "puller_Status cfg now p = \<lparr>ps_PrimaryNodeID = pc_Pinned cfg, ps_LastSyncAt = pu_lastSyncAt p, ps_LastVersion = pu_lastVersion p,
     ps_LastError = pu_lastErr p, ps_Stale = (staleAfter < now - pu_lastSyncAt p)\<rparr>"

text \<open>What one tick meets: the dial, the three answers of the primary, the database of this node and the clock.\<close>

record tick =
  tk_dial :: "string option"
  tk_version :: "(string, version_reply) result"
  tk_health :: "(string, (string, string) gomap) result"
  tk_snapshot :: "(string, rsnapshot) result"
  tk_io :: "string option"
  tk_rd :: "string option"
  tk_sio :: "string option"
  tk_now :: int
  tk_ids :: nat

definition set_replica_row :: "string option \<Rightarrow> string \<Rightarrow> int \<Rightarrow> 'h set_service \<Rightarrow> (store_error, 'h set_service) result" where
  "set_replica_row io n v s =
     (case SetReplicaState io n v (db_local (se_db s)) of
        Inl e \<Rightarrow> Inl e
      | Inr t \<Rightarrow> Inr (s\<lparr>se_db := (se_db s)\<lparr>db_local := t\<rparr>\<rparr>))"

definition pull ::
  "'a setlib_scheme \<Rightarrow> (set_snapshot \<Rightarrow> 'h \<Rightarrow> 'h) \<Rightarrow> (db \<Rightarrow> 'h \<Rightarrow> string option \<times> 'h) \<Rightarrow> puller_cfg \<Rightarrow> tick \<Rightarrow>
   puller \<times> 'h set_service \<Rightarrow> puller \<times> 'h set_service" where
  "pull L onApply pol cfg t ps =
     (let (p, s) = ps
      in case tk_snapshot t of
           Inl e \<Rightarrow> (fail (PSnapshot e) (drop_conn p), s)
         | Inr snap \<Rightarrow>
             if rs_NodeID snap \<noteq> pc_Pinned cfg then (fail (PWrongNode (rs_NodeID snap)) (drop_conn p), s)
             else if rs_Schema snap \<noteq> SchemaVersion then (fail (PSchema (rs_NodeID snap) (rs_Schema snap)) p, s)
             else case replicaApplier_Apply L (tk_ids t) (tk_io t) (tk_rd t) onApply pol (rs_Config snap) s of
                 (Some e, s1) \<Rightarrow> (fail (PApply (rs_Version snap) e) p, s1)
               | (None, s1) \<Rightarrow>
                   (case set_replica_row (tk_sio t) (pc_Pinned cfg) (rs_Version snap) s1 of
                      Inl e \<Rightarrow> (fail (PState ''replica_state'') p, s1)
                    | Inr s2 \<Rightarrow> (synced (tk_now t) (rs_Version snap) p, s2)))"

definition poll ::
  "'a setlib_scheme \<Rightarrow> (set_snapshot \<Rightarrow> 'h \<Rightarrow> 'h) \<Rightarrow> (db \<Rightarrow> 'h \<Rightarrow> string option \<times> 'h) \<Rightarrow> puller_cfg \<Rightarrow> tick \<Rightarrow>
   puller \<times> 'h set_service \<Rightarrow> puller \<times> 'h set_service" where
  "poll L onApply pol cfg t ps =
     (let (p, s) = ps
      in case (if pu_conn p then None else tk_dial t) of
           Some e \<Rightarrow> (healthUnknown (unreachable cfg (PDial e) p), s)
         | None \<Rightarrow>
             (let p = p\<lparr>pu_conn := True\<rparr>
              in case tk_version t of
                   Inl e \<Rightarrow> (healthUnknown (unreachable cfg (PVersion e) (drop_conn p)), s)
                 | Inr v \<Rightarrow>
                     if vr_NodeID v \<noteq> pc_Pinned cfg
                     then (healthUnknown (reject cfg (PWrongNode (vr_NodeID v)) (drop_conn p)), s)
                     else let p = reachable cfg p
                          in if vr_Schema v \<noteq> SchemaVersion
                             then (healthUnknown (fail (PSchema (vr_NodeID v) (vr_Schema v)) p), s)
                             else let p = pollHealth (tk_health t) p
                                  in if vr_Version v = pu_lastVersion p then (synced (tk_now t) (vr_Version v) p, s)
                                     else pull L onApply pol cfg t (p, s)))"

section \<open>Health on a replica\<close>

definition localHealthState :: "string \<Rightarrow> string" where
  "localHealthState wire = (if wire = wireHealthy then StateUp else if wire = wireUnhealthy then StateDown else StateUnknown)"

definition replicaHealth :: "(store_error, service list) result \<Rightarrow> puller option \<Rightarrow> hstatus list" where
  "replicaHealth listed p =
     (let states = (case p of None \<Rightarrow> [] | Some q \<Rightarrow> puller_Health q)
      in case listed of
           Inl _ \<Rightarrow> []
         | Inr svcs \<Rightarrow> map (\<lambda>s. \<lparr>hs_ServiceID = svc_ID s, hs_Name = svc_Name s,
             hs_State = localHealthState (case m_get states (svc_Name s) of None \<Rightarrow> [] | Some w \<Rightarrow> w), hs_Since = 0, hs_LastError = []\<rparr>) svcs)"

section \<open>Pairing\<close>

record invite_book =
  ib_ttl :: int
  ib_out :: "(string, int) gomap"

definition NewInviteBook :: "int \<Rightarrow> invite_book" where
  "NewInviteBook ttl = \<lparr>ib_ttl = ttl, ib_out = []\<rparr>"

definition inviteTTL :: int where "inviteTTL = 10 * 60 * 1000000000"

text \<open>\<open>code\<close> is what the random source gave, or nothing when it failed.\<close>

definition Mint :: "string option \<Rightarrow> int \<Rightarrow> invite_book \<Rightarrow> (string \<times> int) option \<times> invite_book" where
  "Mint code now b =
     (case code of
        None \<Rightarrow> (None, b)
      | Some c \<Rightarrow> (let e = now + ib_ttl b in (Some (c, e), b\<lparr>ib_out := m_put c e (ib_out b)\<rparr>)))"

definition Redeem :: "int \<Rightarrow> string \<Rightarrow> invite_book \<Rightarrow> bool \<times> invite_book" where
  "Redeem now code0 b =
     (let code = ToUpper (TrimSpace code0); valid = filter (\<lambda>ce. \<not> snd ce < now) (ib_out b)
      in (code \<in> fst ` set valid, b\<lparr>ib_out := filter (\<lambda>ce. fst ce \<noteq> code) valid\<rparr>))"

fun no_zone :: "addr \<Rightarrow> bool" where
  "no_zone (Addr6 w z) = (z = [])"
| "no_zone _ = True"

definition peerAddress :: "string \<Rightarrow> string option" where
  "peerAddress raw =
     (case SplitHostPort raw of
        None \<Rightarrow> None
      | Some (host, port) \<Rightarrow>
         (case ParseAddr host of
            None \<Rightarrow> None
          | Some a \<Rightarrow>
              if \<not> no_zone a then None
              else (case ParseInt64 port of
                      None \<Rightarrow> None
                    | Some n \<Rightarrow> if n < 1 \<or> 65535 < n then None else Some (JoinHostPort host (show_dec n)))))"

datatype pair_error =
    PairAddress
  | PairDial string
  | PairConfirm string
  | ErrFingerprintRejected string
  | PairPost string
  | PairClaim string
  | PairRecord store_error

text \<open>
  \<open>peek\<close> is the fingerprint the peer at an address proved in the first handshake, \<open>confirm\<close> the operator's answer, \<open>post\<close> what a connection
  pinned to a fingerprint answers to a code: the node it names, or an error.
\<close>

definition PairAsReplica ::
  "(string \<Rightarrow> (string, string) result) \<Rightarrow> (string \<Rightarrow> (string, bool) result) \<Rightarrow> (string \<Rightarrow> string \<Rightarrow> string \<Rightarrow> (string, string) result) \<Rightarrow>
   string option \<Rightarrow> string \<Rightarrow> string \<Rightarrow> ltables \<Rightarrow> (pair_error, string) result \<times> ltables" where
  "PairAsReplica peek confirm post io address0 code t =
     (case peerAddress address0 of
        None \<Rightarrow> (Inl PairAddress, t)
      | Some address \<Rightarrow>
         (case peek address of
            Inl e \<Rightarrow> (Inl (PairDial e), t)
          | Inr fingerprint \<Rightarrow>
             (case confirm fingerprint of
                Inl e \<Rightarrow> (Inl (PairConfirm e), t)
              | Inr ok \<Rightarrow>
                  if \<not> ok then (Inl (ErrFingerprintRejected fingerprint), t)
                  else (case post address fingerprint code of
                          Inl e \<Rightarrow> (Inl (PairPost e), t)
                        | Inr claimed \<Rightarrow>
                            if claimed \<noteq> fingerprint then (Inl (PairClaim claimed), t)
                            else (case FollowPrimary io fingerprint 0 t of
                                    Inl e \<Rightarrow> (Inl (PairRecord e), t)
                                  | Inr t' \<Rightarrow> (Inr fingerprint, t'))))))"

definition replicaJoiner_Join ::
  "(string \<Rightarrow> (string, string) result) \<Rightarrow> (string \<Rightarrow> string \<Rightarrow> string \<Rightarrow> (string, string) result) \<Rightarrow>
   string option \<Rightarrow> string \<Rightarrow> string \<Rightarrow> string \<Rightarrow> ltables \<Rightarrow> (pair_error, string) result \<times> ltables" where
  "replicaJoiner_Join peek post io address code fingerprint t =
     PairAsReplica peek (\<lambda>presented. Inr (presented = fingerprint)) post io address code t"

section \<open>The replication server\<close>

record rrequest =
  rq_Path :: string
  rq_Method :: string
  rq_Peer :: "string option"
  rq_Version :: string
  rq_Code :: "string option"

datatype rresponse =
    RForbidden
  | RNotFound
  | RMethodNotAllowed
  | RServerError
  | RVersion version_reply
  | RSnapshot rsnapshot
  | RHealth "(string, string) gomap"
  | RPaired string

record rserver =
  rv_NodeID :: string
  rv_db :: db
  rv_book :: invite_book

text \<open>What one request meets: the errors of the reads, the database at each of them, the writes, the clocks, the checker.\<close>

record rsenv =
  rn_rd :: "nat \<Rightarrow> string option"
  rn_at :: "nat \<Rightarrow> db"
  rn_io :: "string option"
  rn_now :: int
  rn_unix :: int
  rn_health :: "hstatus list option"

definition unpinnedPaths :: "string list" where
  "unpinnedPaths = [''/replica/pair'']"

definition reportedVersion :: "string \<Rightarrow> int option" where
  "reportedVersion q = (if q = [] then None else ParseInt64 q)"

definition rv_write :: "rsenv \<Rightarrow> rrequest \<Rightarrow> rresponse \<Rightarrow> rserver \<Rightarrow> rresponse \<times> rserver" where
  "rv_write ev rq body sv =
     (body, case rq_Peer rq of
        None \<Rightarrow> sv
      | Some fp \<Rightarrow>
         (case TouchPeer (rn_io ev) fp (rn_unix ev) (reportedVersion (rq_Version rq)) (db_local (rv_db sv)) of
            Inl _ \<Rightarrow> sv
          | Inr t \<Rightarrow> sv\<lparr>rv_db := (rv_db sv)\<lparr>db_local := t\<rparr>\<rparr>))"

definition handleVersion :: "rsenv \<Rightarrow> rrequest \<Rightarrow> rserver \<Rightarrow> rresponse \<times> rserver" where
  "handleVersion ev rq sv =
     (case source_Version (rn_rd ev 0) (rv_NodeID sv) (rv_db sv) of Inl _ \<Rightarrow> (RServerError, sv) | Inr v \<Rightarrow> rv_write ev rq (RVersion v) sv)"

definition handleSnapshot :: "rsenv \<Rightarrow> rrequest \<Rightarrow> rserver \<Rightarrow> rresponse \<times> rserver" where
  "handleSnapshot ev rq sv =
     (case source_Snapshot (rn_rd ev) (rv_NodeID sv) (rn_at ev) of Inl _ \<Rightarrow> (RServerError, sv) | Inr snap \<Rightarrow> rv_write ev rq (RSnapshot snap) sv)"

definition handleHealthStatus :: "rsenv \<Rightarrow> rrequest \<Rightarrow> rserver \<Rightarrow> rresponse \<times> rserver" where
  "handleHealthStatus ev rq sv = rv_write ev rq (RHealth (source_HealthStatus (rn_health ev))) sv"

definition handlePair :: "rsenv \<Rightarrow> rrequest \<Rightarrow> rserver \<Rightarrow> rresponse \<times> rserver" where
  "handlePair ev rq sv =
     (case rq_Peer rq of
        None \<Rightarrow> (RForbidden, sv)
      | Some fp \<Rightarrow>
         (case rq_Code rq of
            None \<Rightarrow> (RForbidden, sv)
          | Some code \<Rightarrow>
             (let (ok, book) = Redeem (rn_now ev) code (rv_book sv); sv1 = sv\<lparr>rv_book := book\<rparr>
              in if \<not> ok then (RForbidden, sv1)
                 else case PairPeer (rn_io ev) \<lparr>pe_NodeID = fp, pe_Label = take 12 fp, pe_Address = [], pe_PairedAt = rn_unix ev,
                          pe_LastSyncAt = 0, pe_LastVersion = 0\<rparr> (db_local (rv_db sv1)) of
                     Inl _ \<Rightarrow> (RServerError, sv1)
                   | Inr t \<Rightarrow> (RPaired (rv_NodeID sv1), sv1\<lparr>rv_db := (rv_db sv1)\<lparr>db_local := t\<rparr>\<rparr>))))"

text \<open>The mux: a path that is registered for another method is 405; \<^verbatim>\<open>HEAD\<close> is served by the handler of \<^verbatim>\<open>GET\<close>.\<close>

definition mux :: "rsenv \<Rightarrow> rrequest \<Rightarrow> rserver \<Rightarrow> rresponse \<times> rserver" where
  "mux ev rq sv =
     (let get = (\<lambda>h. if rq_Method rq = ''GET'' \<or> rq_Method rq = ''HEAD'' then h ev rq sv else (RMethodNotAllowed, sv))
      in if rq_Path rq = ''/replica/version'' then get handleVersion
         else if rq_Path rq = ''/replica/snapshot'' then get handleSnapshot
         else if rq_Path rq = ''/replica/health-status'' then get handleHealthStatus
         else if rq_Path rq = ''/replica/pair'' then (if rq_Method rq = ''POST'' then handlePair ev rq sv else (RMethodNotAllowed, sv))
         else (RNotFound, sv))"

definition pinnedExcept :: "rsenv \<Rightarrow> rrequest \<Rightarrow> rserver \<Rightarrow> rresponse \<times> rserver" where
  "pinnedExcept ev rq sv =
     (if rq_Path rq \<in> set unpinnedPaths then mux ev rq sv
      else case rq_Peer rq of
        None \<Rightarrow> (RForbidden, sv)
      | Some fp \<Rightarrow> (case Peer fp (db_local (rv_db sv)) of Inl _ \<Rightarrow> (RForbidden, sv) | Inr _ \<Rightarrow> mux ev rq sv))"

section \<open>Roles and promotion\<close>

datatype role = RolePrimary | RoleReplica | RoleStandalone

definition RoleFrom :: "string \<Rightarrow> string \<Rightarrow> role" where
  "RoleFrom listen primary = (if listen \<noteq> [] then RolePrimary else if primary \<noteq> [] then RoleReplica else RoleStandalone)"

definition RoleAtBoot :: "string \<Rightarrow> string \<Rightarrow> bool \<Rightarrow> role" where
  "RoleAtBoot listen primary promoted =
     (let role = RoleFrom listen primary in if promoted \<and> role = RoleReplica then RolePrimary else role)"

definition primaryFingerprint :: "string option \<Rightarrow> ltables \<Rightarrow> string option" where
  "primaryFingerprint rd t = (case rd of Some _ \<Rightarrow> None | None \<Rightarrow> if fst (ReplicaState t) = [] then None else Some (fst (ReplicaState t)))"

datatype replication =
    ReplOff
  | ReplFailed string
  | ReplUnpaired
  | ReplPulling puller_cfg puller
  | ReplNoListener
  | ReplServing

definition startReplication :: "string \<Rightarrow> string \<Rightarrow> role \<Rightarrow> string option \<Rightarrow> string option \<Rightarrow> string option \<Rightarrow> string option \<Rightarrow> ltables \<Rightarrow> replication" where
  "startReplication listen primary role idErr rd bindErr peersErr t =
     (if listen = [] \<and> primary = [] then ReplOff
      else case idErr of
        Some e \<Rightarrow> ReplFailed e
      | None \<Rightarrow>
          if role = RoleReplica then
            (case primaryFingerprint rd t of
               None \<Rightarrow> ReplUnpaired
             | Some fp \<Rightarrow>
                 (let cfg = \<lparr>pc_Pinned = fp, pc_Interval = pullInterval, pc_Ceiling = pullCeiling\<rparr>
                  in ReplPulling cfg (NewPuller cfg rd t)))
          else if listen = [] then ReplNoListener
          else case bindErr of
            Some e \<Rightarrow> ReplFailed e
          | None \<Rightarrow> (case peersErr of Some e \<Rightarrow> ReplFailed e | None \<Rightarrow> ReplServing))"

record 'h rnode =
  no_local :: ltables
  no_role :: role
  no_pulling :: bool
  no_dhcp :: 'h

text \<open>\<open>onPromote\<close> is the reconcile of the DHCP listener, which reads the role.\<close>

definition Promote ::
  "string option \<Rightarrow> string option \<Rightarrow> int \<Rightarrow> (role \<Rightarrow> 'h \<Rightarrow> 'h) \<Rightarrow> 'h rnode \<Rightarrow> (store_error, bool) result \<times> 'h rnode" where
  "Promote io1 io2 now onPromote n =
     (if no_role n \<noteq> RoleReplica then (Inr False, n)
      else case RecordPromotion io1 now (no_local n) of
        Inl e \<Rightarrow> (Inl e, n)
      | Inr t1 \<Rightarrow>
         (let n1 = n\<lparr>no_local := t1\<rparr>; n2 = n1\<lparr>no_pulling := False\<rparr>
          in case SetReplicaState io2 [] 0 (no_local n2) of
               Inl e \<Rightarrow> (Inl e, n2)
             | Inr t3 \<Rightarrow>
                (let n3 = n2\<lparr>no_local := t3\<rparr>; n4 = n3\<lparr>no_role := RolePrimary\<rparr>
                 in (Inr True, n4\<lparr>no_dhcp := onPromote (no_role n4) (no_dhcp n4)\<rparr>))))"

record replica_status =
  rp_Role :: role
  rp_PrimaryAddr :: string
  rp_PrimaryNodeID :: string
  rp_NodeID :: string
  rp_LastSync :: int
  rp_LastVersion :: int
  rp_LastError :: "pull_error option"
  rp_Unpaired :: bool
  rp_Stale :: bool

definition replicaStatus :: "role \<Rightarrow> string \<Rightarrow> string \<Rightarrow> pstatus option \<Rightarrow> replica_status" where
  "replicaStatus role primaryAddr nodeID p =
     (let rs = \<lparr>rp_Role = role, rp_PrimaryAddr = (if role = RoleReplica then primaryAddr else []), rp_PrimaryNodeID = [], rp_NodeID = nodeID,
          rp_LastSync = 0, rp_LastVersion = 0, rp_LastError = None, rp_Unpaired = False, rp_Stale = False\<rparr>
      in case p of
           None \<Rightarrow> if role = RoleReplica then rs\<lparr>rp_Stale := True, rp_Unpaired := True\<rparr> else rs
         | Some st \<Rightarrow> rs\<lparr>rp_PrimaryNodeID := ps_PrimaryNodeID st, rp_LastSync := ps_LastSyncAt st, rp_LastVersion := ps_LastVersion st,
             rp_LastError := ps_LastError st, rp_Stale := ps_Stale st\<rparr>)"

end
