(* ===== verification/NetipRound.thy ===== *)
theory NetipRound
  imports Netip
begin

text \<open>
  Printing and parsing addresses and prefixes are inverse: what \<^verbatim>\<open>netip.Addr.String\<close> and \<^verbatim>\<open>netip.Prefix.String\<close> write,
  the ellipsis and the dotted tail of a mapped address included, \<^verbatim>\<open>netip.ParseAddr\<close> and \<^verbatim>\<open>netip.ParsePrefix\<close> read back.
  The server stores prefixes in their printed form and parses them again at the next start.
\<close>

section \<open>Hexadecimal groups\<close>

lemma show_hex_hex: "0 \<le> n \<Longrightarrow> list_all is_hex (show_hex n)"
proof (induction n rule: show_hex.induct)
  case (1 n)
  then show ?case
    by (cases "n < 16") (simp_all add: show_hex.simps [of n] is_hex_hex_char)
qed

lemma hex_num_show_hex: "0 \<le> n \<Longrightarrow> hex_num (show_hex n) = n"
proof (induction n rule: show_hex.induct)
  case (1 n)
  show ?case
  proof (cases "n < 16")
    case False
    then have "hex_num (show_hex (n div 16)) = n div 16" using 1 by simp
    then show ?thesis using False by (simp add: show_hex.simps [of n] hex_num_def hex_val_hex_char)
  qed (use 1 in \<open>simp add: show_hex.simps [of n] hex_num_def hex_val_hex_char\<close>)
qed

lemma length_show_hex: "0 \<le> n \<Longrightarrow> n < 16 ^ Suc k \<Longrightarrow> length (show_hex n) \<le> Suc k"
proof (induction k arbitrary: n)
  case (Suc k)
  then have "n < 16 * 16 ^ Suc k" by simp
  then have "n div 16 < 16 ^ Suc k" by linarith
  then show ?case using Suc.IH [of "n div 16"] Suc.prems by (cases "n < 16") (simp_all add: show_hex.simps [of n])
qed (subst show_hex.simps, simp)

lemma show_hex_not_Nil [simp]: "show_hex n \<noteq> []"
  by (subst show_hex.simps) simp

definition hexw :: "string \<Rightarrow> bool" where
  "hexw w = (w \<noteq> [] \<and> length w \<le> 4 \<and> list_all is_hex w)"

definition group :: "int \<Rightarrow> bool" where
  "group g = (0 \<le> g \<and> g < 65536)"

lemma hexw_show: "group g \<Longrightarrow> hexw (show_hex g)"
  using length_show_hex [of g 3] show_hex_hex [of g] by (simp add: hexw_def group_def)

lemma map_hex_num_show: "list_all group gs \<Longrightarrow> map hex_num (map show_hex gs) = gs"
  by (induction gs) (simp_all add: hex_num_show_hex group_def)

lemma hexw_take:
  assumes "hexw w" and "\<not> is_hex c"
  shows "takeWhile is_hex (w @ c # t) = w" and "dropWhile is_hex (w @ c # t) = c # t"
    and "takeWhile is_hex w = w" and "dropWhile is_hex w = []"
  using assms by (simp_all add: hexw_def takeWhile_none dropWhile_none takeWhile_eq_all_conv dropWhile_eq_Nil_conv list_all_iff)

lemma colon_not_hex: "\<not> is_hex CHR '':''" "\<not> is_hex CHR ''.''"
  using is_hex_neq by blast+

lemma Join_hexw_hd: "hexw w \<Longrightarrow> \<exists>c r. Join (w # ws) '':'' @ t = c # r \<and> is_hex c"
  by (cases ws; cases w) (auto simp: hexw_def)

section \<open>The loop\<close>

lemma parse6_loop_end:
  assumes "length gs + length ws \<le> 8" and "ws \<noteq> []" and "list_all hexw ws"
  shows "parse6_loop gs ell (Join ws '':'') = Some (gs @ map hex_num ws, ell, [])"
  using assms
proof (induction ws arbitrary: gs)
  case (Cons w ws)
  then have w: "hexw w" "w \<noteq> []" "length w \<le> 4" by (auto simp: hexw_def)
  have len: "length gs < 8" using Cons.prems(1) by simp
  show ?case
  proof (cases ws)
    case Nil
    then show ?thesis using len w by (simp add: parse6_loop.simps [of gs] Let_def hexw_take [OF w(1) colon_not_hex(1)])
  next
    case (Cons v vs)
    obtain c r where r: "Join ws '':'' = c # r" "is_hex c" using Cons.prems(3) Cons Join_hexw_hd [of v vs "[]"] by auto
    then have "c \<noteq> CHR '':''" using is_hex_neq by blast
    moreover have "Join (w # ws) '':'' = w @ CHR '':'' # Join ws '':''" using Cons by simp
    ultimately have "parse6_loop gs ell (Join (w # ws) '':'') = parse6_loop (gs @ [hex_num w]) ell (Join ws '':'')"
      using len w r by (simp add: parse6_loop.simps [of gs] Let_def hexw_take [OF w(1) colon_not_hex(1)])
    then show ?thesis using Cons.IH [of "gs @ [hex_num w]"] Cons.prems Cons by simp
  qed
qed simp

lemma parse6_loop_ellipsis:
  assumes "length gs + length ws < 8" and "ws \<noteq> []" and "list_all hexw ws"
  shows "parse6_loop gs None (Join ws '':'' @ ''::'' @ t) =
    (if t = [] then Some (gs @ map hex_num ws, Some (length gs + length ws), [])
     else parse6_loop (gs @ map hex_num ws) (Some (length gs + length ws)) t)"
  using assms
proof (induction ws arbitrary: gs)
  case (Cons w ws)
  then have w: "hexw w" "w \<noteq> []" "length w \<le> 4" by (auto simp: hexw_def)
  have len: "length gs < 8" using Cons.prems(1) by simp
  show ?case
  proof (cases ws)
    case Nil
    then show ?thesis using len w by (simp add: parse6_loop.simps [of gs] Let_def hexw_take [OF w(1) colon_not_hex(1)])
  next
    case (Cons v vs)
    obtain c r where r: "Join ws '':'' @ ''::'' @ t = c # r" "is_hex c" using Cons.prems(3) Cons Join_hexw_hd [of v vs "''::'' @ t"] by auto
    then have "c \<noteq> CHR '':''" using is_hex_neq by blast
    moreover have "Join (w # ws) '':'' @ ''::'' @ t = w @ CHR '':'' # (Join ws '':'' @ ''::'' @ t)" using Cons by simp
    ultimately have "parse6_loop gs None (Join (w # ws) '':'' @ ''::'' @ t) =
        parse6_loop (gs @ [hex_num w]) None (Join ws '':'' @ ''::'' @ t)"
      using len w r by (simp add: parse6_loop.simps [of gs] Let_def hexw_take [OF w(1) colon_not_hex(1)])
    then show ?thesis using Cons.IH [of "gs @ [hex_num w]"] Cons.prems Cons by simp
  qed
qed simp

lemma Join_Nil_iff: "list_all hexw ws \<Longrightarrow> Join ws '':'' = [] \<longleftrightarrow> ws = []"
  by (cases ws; cases "tl ws") (auto simp: hexw_def)

lemma parse6_groups_ellipsis:
  assumes "length as + length bs < 8" and "list_all group as" and "list_all group bs"
  shows "parse6_groups (Join (map show_hex as) '':'' @ ''::'' @ Join (map show_hex bs) '':'') =
    Some (as @ replicate (8 - length as - length bs) 0 @ bs)"
proof -
  let ?A = "map show_hex as" and ?B = "map show_hex bs"
  have A: "list_all hexw ?A" and B: "list_all hexw ?B" using assms(2,3) by (auto simp: list_all_iff hexw_show)
  note hex = map_hex_num_show [OF assms(2)] map_hex_num_show [OF assms(3)]
  show ?thesis
  proof (cases "as = []")
    case True
    show ?thesis
    proof (cases "bs = []")
      case False
      then have "parse6_loop [] (Some 0) (Join ?B '':'') = Some (bs, Some 0, [])"
        using parse6_loop_end [of "[]" ?B "Some 0"] assms(1) B hex(2) by (simp add: True)
      moreover have "Join ?B '':'' \<noteq> []" using False B Join_Nil_iff by auto
      ultimately show ?thesis using True assms(1) by (simp add: parse6_groups_def HasPrefix_def)
    qed (simp add: True parse6_groups_def HasPrefix_def)
  next
    case False
    obtain a as' where as: "as = a # as'" using False by (cases as) auto
    obtain c r where "Join ?A '':'' @ ''::'' @ Join ?B '':'' = c # r" "is_hex c"
      using Join_hexw_hd [of "show_hex a" "map show_hex as'" "''::'' @ Join ?B '':''"] A as by auto
    then have np: "\<not> HasPrefix (Join ?A '':'' @ ''::'' @ Join ?B '':'') ''::''"
      using is_hex_neq [of c] by (auto simp: HasPrefix_iff)
    have "parse6_loop [] None (Join ?A '':'' @ ''::'' @ Join ?B '':'') = Some (as @ bs, Some (length as), [])"
    proof (cases "bs = []")
      case True
      then show ?thesis using parse6_loop_ellipsis [of "[]" ?A "[]"] assms(1) A False hex(1) by simp
    next
      case bs: False
      then have "Join ?B '':'' \<noteq> []" using B Join_Nil_iff by auto
      then have "parse6_loop [] None (Join ?A '':'' @ ''::'' @ Join ?B '':'') = parse6_loop as (Some (length as)) (Join ?B '':'')"
        using parse6_loop_ellipsis [of "[]" ?A "Join ?B '':''"] assms(1) A False hex(1) by simp
      then show ?thesis using parse6_loop_end [of as ?B "Some (length as)"] assms(1) B bs hex(2) by simp
    qed
    then show ?thesis using np assms(1) by (simp add: parse6_groups_def)
  qed
qed

section \<open>The longest run of zeroes\<close>

definition run_ok :: "int list \<Rightarrow> nat \<times> nat \<Rightarrow> bool" where
  "run_ok gs r = (snd r = 0 \<or> (fst r + snd r \<le> length gs \<and> take (snd r) (drop (fst r) gs) = replicate (snd r) 0))"

lemma zero_run_ok: "i \<le> length gs \<Longrightarrow> run_ok gs (i, zero_run gs i)"
proof -
  assume i: "i \<le> length gs"
  let ?t = "takeWhile (\<lambda>g. g = 0) (drop i gs)"
  have "?t = take (zero_run gs i) (drop i gs)" unfolding zero_run_def by (rule takeWhile_eq_take)
  moreover have "?t = replicate (length ?t) 0" by (rule replicate_eqI) (auto dest: set_takeWhileD)
  moreover have "length ?t \<le> length gs - i" using length_takeWhile_le [of _ "drop i gs"] by simp
  ultimately have "take (zero_run gs i) (drop i gs) = replicate (zero_run gs i) 0" "i + zero_run gs i \<le> length gs"
    using i unfolding zero_run_def by (metis, linarith)
  then show ?thesis by (simp add: run_ok_def)
qed

lemma best_run_ok: "run_ok gs r \<Longrightarrow> list_all (\<lambda>i. i \<le> length gs) is \<Longrightarrow> run_ok gs (best_run gs is r)"
  by (induction gs "is" r rule: best_run.induct) (simp_all add: zero_run_ok)

lemma best_run_split:
  assumes "length gs = 8" and "best_run gs [0..<8] (0, 0) = (st, len)" and "len \<noteq> 0"
  shows "st + len \<le> 8" and "gs = take st gs @ replicate len 0 @ drop (st + len) gs"
proof -
  have ok: "run_ok gs (st, len)"
    using best_run_ok [of gs "(0, 0)" "[0..<8]"] assms(1,2) by (simp add: run_ok_def list_all_iff)
  then show "st + len \<le> 8" using assms by (simp add: run_ok_def)
  have "gs = take st gs @ take len (drop st gs) @ drop len (drop st gs)" by (simp only: append_take_drop_id)
  then show "gs = take st gs @ replicate len 0 @ drop (st + len) gs" using ok assms(3) by (simp add: run_ok_def add.commute)
qed

section \<open>Addresses\<close>

lemma groups_range: "list_all group (groups w)"
  using digits_of_range [of 65536 _ 8 "uint w"] by (auto simp: list_all_iff group_def groups_def simp del: digits_of.simps)

lemma length_groups [simp]: "length (groups w) = 8"
  unfolding groups_def by (rule length_digits_of)

lemma hex_groups_no_percent: "list_all group gs \<Longrightarrow> CHR ''%'' \<notin> set (Join (map show_hex gs) '':'')"
  using set_Join [of "map show_hex gs" "'':''"] by (fastforce simp: list_all_iff group_def dest: show_hex_hex is_hex_neq)

lemma ParseAddr_colon:
  assumes "list_all is_hex w" and "CHR ''%'' \<notin> set t" and "parse6_groups (w @ CHR '':'' # t) = Some gs"
  shows "ParseAddr (w @ CHR '':'' # t) = Some (Addr6 (of_groups gs) [])"
proof -
  have nohex: "list_all (\<lambda>c. c \<notin> set ''.:%'') w" using assms(1) by (auto simp: list_all_iff dest: is_hex_neq)
  have "list_all (\<lambda>c. c \<noteq> CHR ''%'') (w @ CHR '':'' # t)"
    using assms(1,2) by (fastforce simp: list_all_iff dest: is_hex_neq)
  then have body: "takeWhile (\<lambda>c. c \<noteq> CHR ''%'') (w @ CHR '':'' # t) = w @ CHR '':'' # t" "dropWhile (\<lambda>c. c \<noteq> CHR ''%'') (w @ CHR '':'' # t) = []"
    unfolding list_all_iff takeWhile_eq_all_conv dropWhile_eq_Nil_conv by blast+
  have "ParseAddr (w @ CHR '':'' # t) = parse6 (w @ CHR '':'' # t)"
    unfolding ParseAddr_def using dropWhile_none [OF nohex] by simp
  then show ?thesis unfolding parse6_def body Let_def assms(3) by simp
qed

lemma first_colon:
  assumes "list_all group as"
  shows "\<exists>w u. Join (map show_hex as) '':'' @ ''::'' @ t = w @ CHR '':'' # u \<and> list_all is_hex w \<and> set u \<subseteq> set (Join (map show_hex as) '':'') \<union> {CHR '':''} \<union> set t"
proof (cases as)
  case Nil
  then show ?thesis by (intro exI [of _ "[]"] exI [of _ "CHR '':'' # t"]) auto
next
  case (Cons a as')
  have h: "list_all is_hex (show_hex a)" using assms Cons by (simp add: show_hex_hex group_def)
  show ?thesis
  proof (cases as')
    case Nil
    then show ?thesis using Cons h by (intro exI [of _ "show_hex a"] exI [of _ "CHR '':'' # t"]) auto
  next
    case as': (Cons b bs)
    then show ?thesis using Cons h by (intro exI [of _ "show_hex a"] exI [of _ "Join (map show_hex as') '':'' @ ''::'' @ t"]) auto
  qed
qed

lemma parse_show6_ellipsis:
  assumes "length as + length bs < 8" and "list_all group as" and "list_all group bs"
  shows "ParseAddr (Join (map show_hex as) '':'' @ ''::'' @ Join (map show_hex bs) '':'') =
    Some (Addr6 (of_groups (as @ replicate (8 - length as - length bs) 0 @ bs)) [])"
proof -
  obtain w u where wu: "Join (map show_hex as) '':'' @ ''::'' @ Join (map show_hex bs) '':'' = w @ CHR '':'' # u" "list_all is_hex w"
    "set u \<subseteq> set (Join (map show_hex as) '':'') \<union> {CHR '':''} \<union> set (Join (map show_hex bs) '':'')"
    using first_colon [OF assms(2)] by blast
  then have "CHR ''%'' \<notin> set u" using hex_groups_no_percent assms(2,3) by auto
  then show ?thesis using ParseAddr_colon [OF wu(2)] parse6_groups_ellipsis [OF assms] wu(1) by simp
qed

lemma parse_show6_full:
  assumes "length gs = 8" and "list_all group gs"
  shows "ParseAddr (Join (map show_hex gs) '':'') = Some (Addr6 (of_groups gs) [])"
proof -
  obtain a b gs' where gs: "gs = a # b # gs'" using assms(1) by (cases gs; cases "tl gs") auto
  let ?s = "Join (map show_hex gs) '':''" and ?t = "Join (map show_hex (b # gs')) '':''"
  have s: "?s = show_hex a @ CHR '':'' # ?t" using gs by simp
  have hw: "list_all hexw (map show_hex gs)" using assms(2) by (auto simp: list_all_iff hexw_show)
  obtain c r where "?s = c # r" "is_hex c" using Join_hexw_hd [of "show_hex a" "map show_hex (b # gs')" "[]"] hw gs by auto
  then have "\<not> HasPrefix ?s ''::''" using is_hex_neq [of c] by (auto simp: HasPrefix_iff)
  moreover have "parse6_loop [] None ?s = Some (gs, None, [])"
    using parse6_loop_end [of "[]" "map show_hex gs" None] hw assms map_hex_num_show [OF assms(2)] gs by simp
  ultimately have "parse6_groups ?s = Some gs" using assms(1) by (simp add: parse6_groups_def)
  moreover have "list_all is_hex (show_hex a)" using assms(2) gs by (simp add: show_hex_hex group_def)
  moreover have "CHR ''%'' \<notin> set ?t" using hex_groups_no_percent [of "b # gs'"] assms(2) gs by simp
  ultimately show ?thesis using ParseAddr_colon s by metis
qed

lemma in4in6_groups:
  assumes "in4in6 w" and "octets (ucast w) = [a, b, e, f]"
  shows "of_groups [0, 0, 0, 0, 0, 65535, a * 256 + b, e * 256 + f] = w"
proof -
  let ?lo = "uint (ucast w :: 32 word)"
  have "uint (w div 2 ^ 32) = 65535" using assms(1) by (simp add: in4in6_def drop_bit_eq_div)
  then have hi: "uint w div 2 ^ 32 = 65535" by (simp add: uint_div)
  have lo: "?lo = uint w mod 2 ^ 32" by (simp add: unsigned_ucast_eq take_bit_eq_mod)
  have "?lo mod 256 ^ 4 = ?lo" using uint_lt2p [of "ucast w :: 32 word"] by simp
  then have "foldl (\<lambda>a d. a * 256 + d) 0 [a, b, e, f] = ?lo"
    using foldl_digits_of [of 256 4 ?lo] assms(2) unfolding octets_def by (simp del: digits_of.simps)
  then have "foldl (\<lambda>a g. a * 65536 + g) 0 [0, 0, 0, 0, 0, 65535, a * 256 + b, e * 256 + f] = 65535 * 2 ^ 32 + uint w mod 2 ^ 32"
    using lo by simp
  also have "\<dots> = uint w" using hi by (metis div_mult_mod_eq mult.commute)
  finally show ?thesis unfolding of_groups_def by (metis word_of_int_uint)
qed

lemma length_4E: "length xs = 4 \<Longrightarrow> \<exists>a b e f. xs = [a, b, e, f]"
  by (auto simp: numeral_eq_Suc length_Suc_conv)

lemma length_show_octet: "0 \<le> n \<Longrightarrow> n < 256 \<Longrightarrow> length (show_dec n) \<le> 4"
  by (simp add: show_dec.simps [of n] show_dec.simps [of "n div 10"] show_dec.simps [of "n div 10 div 10"])

lemma parse_show_mapped:
  assumes "in4in6 w"
  shows "ParseAddr (show6 w) = Some (Addr6 w [])"
proof -
  let ?o = "octets (ucast w)"
  obtain a b e f where o: "?o = [a, b, e, f]" using length_4E [OF length_octets] by blast
  have r: "0 \<le> x \<and> x < 256" if "x \<in> set ?o" for x using that by (rule octets_range)
  let ?d = "Join (map show_dec ?o) ''.''"
  have d: "?d = show_dec a @ CHR ''.'' # Join (map show_dec [b, e, f]) ''.''" using o by simp
  have fields: "parse4_fields (show_dec a @ CHR ''.'' # Join (map show_dec [b, e, f]) ''.'') = Some [a, b, e, f]"
    using parse4_fields_show [of ?o] r o unfolding d by simp
  have dig: "list_all is_hex (show_dec x)" if "x \<in> set ?o" for x
    using show_dec_digits [of x] r [OF that] by (auto simp: list_all_iff is_digit_hex)
  have da: "list_all is_hex (show_dec a)" and len: "length (show_dec a) \<le> 4" using dig r length_show_octet o by auto
  have dot: "parse6_loop [65535] (Some 0) ?d = Some ([65535, a * 256 + b, e * 256 + f], Some 0, [])"
    unfolding d using fields len
    by (simp add: parse6_loop.simps [of "[65535]"] Let_def takeWhile_none [OF da] dropWhile_none [OF da] colon_not_hex del: Join.simps list.map)
  obtain c cs where c: "?d = c # cs" "is_hex c" using da unfolding d by (cases "show_dec a") auto
  have ffff: "hexw ''ffff''" "hex_num ''ffff'' = 65535" by code_simp+
  have "parse6_loop [] (Some 0) (''ffff'' @ CHR '':'' # ?d) = parse6_loop [65535] (Some 0) ?d"
    using c is_hex_neq [of c] ffff
    by (simp add: parse6_loop.simps [of "[]"] Let_def hexw_take [OF ffff(1) colon_not_hex(1), simplified])
  then have "parse6_groups (''::ffff:'' @ ?d) = Some [0, 0, 0, 0, 0, 65535, a * 256 + b, e * 256 + f]"
    using dot by (simp add: parse6_groups_def HasPrefix_def numeral_eq_Suc)
  moreover have "CHR ''%'' \<notin> set (''ffff:'' @ ?d)"
    using set_Join [of "map show_dec ?o" "''.''"] dig by (fastforce simp: list_all_iff dest: is_hex_neq)
  ultimately have "ParseAddr (''::ffff:'' @ ?d) = Some (Addr6 w [])"
    using ParseAddr_colon [of "[]" "CHR '':'' # ''ffff:'' @ ?d"] in4in6_groups [OF assms o] by simp
  then show ?thesis using assms by (simp add: show6_def show4_def)
qed

lemma parse_show6: "ParseAddr (show6 w) = Some (Addr6 w [])"
proof (cases "in4in6 w")
  case False
  obtain st len where run: "best_run (groups w) [0..<8] (0, 0) = (st, len)" by (meson surj_pair)
  show ?thesis
  proof (cases "len = 0")
    case True
    then show ?thesis using False run parse_show6_full [of "groups w"] by (simp add: show6_def groups_range of_groups_groups)
  next
    case len: False
    note sp = best_run_split [OF length_groups run len]
    let ?a = "take st (groups w)" and ?b = "drop (st + len) (groups w)"
    have "list_all group ?a" "list_all group ?b"
      using groups_range [of w] by (auto simp: list_all_iff dest: in_set_takeD in_set_dropD)
    moreover have l: "length ?a + length ?b < 8" "8 - length ?a - length ?b = len" using sp(1) len by auto
    ultimately have "ParseAddr (Join (map show_hex ?a) '':'' @ ''::'' @ Join (map show_hex ?b) '':'') = Some (Addr6 (of_groups (groups w)) [])"
      using parse_show6_ellipsis [of ?a ?b] sp(2) by metis
    then show ?thesis using False run len by (simp add: show6_def of_groups_groups Let_def)
  qed
qed (rule parse_show_mapped)

section \<open>Prefixes\<close>

lemma parse_show_addr: "addr_valid a \<Longrightarrow> (case a of Addr6 _ z \<Rightarrow> z = [] | _ \<Rightarrow> True) \<Longrightarrow> ParseAddr (show_addr a) = Some a"
  by (cases a) (auto simp: addr_valid_def parse_show4 parse_show6)

theorem ParsePrefix_show:
  assumes "prefix_valid p"
  shows "ParsePrefix (show_prefix p) = Some p"
proof -
  obtain a b where p: "p = Prefix a b" by (cases p)
  let ?n = "show_dec (int b)"
  have a: "ParseAddr (show_addr a) = Some a" "\<not> (case a of Addr6 _ z \<Rightarrow> z \<noteq> [] | _ \<Rightarrow> False)" "b \<le> bit_len a"
    using assms p by (cases a; simp add: parse_show4 parse_show6)+
  have dig: "list_all is_digit ?n" by (simp add: show_dec_digits)
  then have ns: "list_all (\<lambda>c. c \<noteq> CHR ''/'') (rev ?n)" by (auto simp: list_all_iff is_digit_def char_code_def)
  have s: "show_prefix p = show_addr a @ CHR ''/'' # ?n" using p by (simp add: show_prefix_def)
  have bs: "rev (takeWhile (\<lambda>c. c \<noteq> CHR ''/'') (rev (show_addr a @ CHR ''/'' # ?n))) = ?n" using takeWhile_none [OF ns] by simp
  have lead: "\<not> (length ?n > 1 \<and> hd ?n = CHR ''0'')"
    using hd_show_dec [of "int b"] by (cases "b = 0") (auto simp: show_dec.simps [of 0])
  have "take (length (show_addr a @ CHR ''/'' # ?n) - length ?n - 1) (show_addr a @ CHR ''/'' # ?n) = show_addr a" by simp
  then show ?thesis unfolding s ParsePrefix_def bs Let_def using a lead dig p by (simp add: dec_num_show_dec)
qed

lemma ParseAddr_not_zero: "ParseAddr s = Some a \<Longrightarrow> a \<noteq> AddrZero"
  by (auto simp: ParseAddr_def parse4_def parse6_def Let_def split: list.splits if_splits option.splits)

lemma ParsePrefix_valid: "ParsePrefix s = Some p \<Longrightarrow> prefix_valid p"
  by (auto simp: ParsePrefix_def Let_def split: if_splits option.splits addr.splits dest: ParseAddr_not_zero)

section \<open>The characters of a printed address\<close>

lemma set_show_dec: "0 \<le> n \<Longrightarrow> set (show_dec n) \<subseteq> Collect is_hex"
  using show_dec_digits [of n] by (auto simp: list_all_iff is_digit_hex)

lemma set_show4: "set (show4 w) \<subseteq> Collect is_hex \<union> {CHR ''.''}"
  using set_Join [of "map show_dec (octets w)" "''.''"] octets_range [of _ w] set_show_dec by (fastforce simp: show4_def)

lemma set_show_groups: "list_all group gs \<Longrightarrow> set (Join (map show_hex gs) '':'') \<subseteq> Collect is_hex \<union> {CHR '':''}"
  using set_Join [of "map show_hex gs" "'':''"] by (fastforce simp: list_all_iff group_def dest: show_hex_hex)

lemma set_show6: "set (show6 w) \<subseteq> Collect is_hex \<union> {CHR '':'', CHR ''.''}"
proof (cases "in4in6 w")
  case True
  have "is_hex CHR ''f''" by code_simp
  then show ?thesis using True set_show4 [of "ucast w"] by (auto simp: show6_def)
next
  case False
  have "list_all group (take n (groups w))" "list_all group (drop n (groups w))" for n
    using groups_range [of w] by (auto simp: list_all_iff dest: in_set_takeD in_set_dropD)
  then show ?thesis using False set_show_groups groups_range [of w]
    by (fastforce simp: show6_def Let_def split: prod.splits if_splits)
qed

end
