(* ===== verification/SettingsSafety.thy ===== *)
theory SettingsSafety
  imports ServerSettings NetipRound
begin

text \<open>
  What the settings promise: a save is all or nothing; the server never answers an address outside the private ranges
  that nobody confirmed; a replica changes only what is its own; and what is saved is what the next start serves, with the one
  exception proved at the end.
\<close>

section \<open>Validated settings build\<close>

lemma map_result_succeeds: "(\<exists>ys. map_result f xs = Inr ys) \<longleftrightarrow> (\<forall>x\<in>set xs. \<exists>y. f x = Inr y)"
  by (induction xs) (auto split: sum.splits)

lemma masked_all_Inr: "masked_all field cs = Inr ps \<Longrightarrow> list_all2 (\<lambda>c p. \<exists>q. ParsePrefix c = Some q \<and> p = Masked q) cs ps"
  unfolding masked_all_def
proof (induction cs arbitrary: ps)
  case (Cons c cs)
  then show ?case by (auto split: option.splits sum.splits)
qed simp

lemma masked_all_total: "list_all (\<lambda>c. ParsePrefix c \<noteq> None) cs \<Longrightarrow> \<exists>ps. masked_all field cs = Inr ps"
  unfolding masked_all_def map_result_succeeds by (auto simp: list_all_iff)

lemma NewAll_total: "ParseAll N raws = Inr sps \<Longrightarrow> \<exists>us. NewAll N i raws = Inr us"
  using new_each_total [of i sps] by (auto simp: NewAll_def)

lemma Tailscale_parses: "ParsePrefix TailscaleCGNAT = Some (Prefix (Addr4 0x64400000) 10)"
  by code_simp

lemma ValidateStored_None:
  assumes "ValidateStored L v = None"
  shows "list_all (\<lambda>z. ParsePrefix z \<noteq> None) (ReverseZones v)" "list_all (\<lambda>z. ParsePrefix z \<noteq> None) (AllowQuery v)"
    "\<exists>sps. ParseAll (netlib.truncate L) (Upstreams v) = Inr sps" "AllowQuery v \<noteq> []" "Upstreams v \<noteq> []" "validateDHCP v = None"
    "validDomainName L (PrivateDomain v)"
  using assms
  by (auto simp: ValidateStored_def validateAllowQuery_def list_all_iff list_ex_iff split: if_splits sum.splits option.splits)

lemma ValidateStored_builds: "ValidateStored L v = None \<Longrightarrow> \<exists>snap. set_Build L i v = Inr snap"
proof -
  assume v: "ValidateStored L v = None"
  note ok = ValidateStored_None [OF v]
  have "list_all (\<lambda>c. ParsePrefix c \<noteq> None) (AllowQuery v @ (if AllowTailscale v then [TailscaleCGNAT] else []))"
    using ok(2) by (simp add: Tailscale_parses)
  then obtain aq where "masked_all ''allow_query'' (AllowQuery v @ (if AllowTailscale v then [TailscaleCGNAT] else [])) = Inr aq"
    using masked_all_total by blast
  moreover obtain rz where "masked_all ''reverse_zones'' (ReverseZones v) = Inr rz" using masked_all_total [OF ok(1)] by blast
  moreover obtain us where "NewAll (netlib.truncate L) i (Upstreams v) = Inr us" using NewAll_total ok(3) by blast
  ultimately show ?thesis by (simp add: set_Build_def)
qed

section \<open>The guardrail\<close>

definition private_addr :: "addr \<Rightarrow> bool" where
  "private_addr a = list_ex (\<lambda>r. Contains r a) privateRanges"

lemma private_prefix_addrs:
  assumes "IsPrivatePrefix p" and "Contains p a"
  shows "private_addr a"
proof -
  obtain r where r: "r \<in> set privateRanges" "pbits r \<le> pbits (Masked p)" "Contains r (paddr (Masked p))"
    using assms(1) by (auto simp: IsPrivatePrefix_def Let_def list_ex_iff)
  have "prefix_valid p" using assms(2) Contains_valid_addr by blast
  then have "Contains p (paddr (Masked p))" by (rule Contains_network)
  then have "Contains r a" using Contains_nested [OF _ r(3) _ assms(2)] r(2) by simp
  then show ?thesis using r(1) by (auto simp: private_addr_def list_ex_iff)
qed

lemma PublicPrefixes_iff: "x \<in> set (PublicPrefixes cs) \<longleftrightarrow> (\<exists>c\<in>set cs. \<exists>p. ParsePrefix c = Some p \<and> \<not> IsPrivatePrefix p \<and> x = show_prefix (Masked p))"
  by (induction cs) (auto split: option.splits)

lemma ValidateWrite_None:
  "ValidateWrite L v prev c = None \<longleftrightarrow> ValidateStored L v = None \<and> set (PublicPrefixes (AllowQuery v)) \<subseteq> set (PublicPrefixes (AllowQuery prev)) \<union> {c}"
  by (auto simp: ValidateWrite_def confirmPublicPrefixes_def Let_def list_ex_iff split: option.splits if_splits)

section \<open>The canonical form\<close>

lemma ParsePrefix_canonical [simp]: "ParsePrefix (canonical c) = map_option Masked (ParsePrefix c)"
proof (cases "ParsePrefix c")
  case (Some p)
  then have "prefix_valid (Masked p)" using ParsePrefix_valid by simp
  then show ?thesis using Some by (simp add: canonical_def ParsePrefix_show)
qed (simp add: canonical_def)

lemma canonicalPrefixes_simps [simp]:
  "canonicalPrefixes [] = []" "canonicalPrefixes (c # cs) = canonical c # canonicalPrefixes cs" "canonicalPrefixes cs = [] \<longleftrightarrow> cs = []"
  by (simp_all add: canonicalPrefixes_def)

lemma masked_all_canonical: "masked_all f (canonicalPrefixes cs @ ds) = masked_all f (cs @ ds)"
  unfolding masked_all_def by (induction cs) (auto split: option.splits sum.splits)

lemma Masked_public: "IsPrivatePrefix (Masked p) = IsPrivatePrefix p"
  by (simp add: IsPrivatePrefix_def)

lemma PublicPrefixes_canonical: "PublicPrefixes (canonicalPrefixes cs) = PublicPrefixes cs"
  by (induction cs) (auto simp: Masked_public split: option.splits)

lemma canonical_parses: "list_ex (\<lambda>c. ParsePrefix c = None) (canonicalPrefixes cs) = list_ex (\<lambda>c. ParsePrefix c = None) cs"
  by (induction cs) simp_all

lemma Canonicalize_sel [simp]:
  "AllowQuery (Canonicalize v) = canonicalPrefixes (AllowQuery v)" "ReverseZones (Canonicalize v) = canonicalPrefixes (ReverseZones v)"
  "Upstreams (Canonicalize v) = Upstreams v" "PrivateDomain (Canonicalize v) = PrivateDomain v" "AllowTailscale (Canonicalize v) = AllowTailscale v"
  "CacheMaxTTL (Canonicalize v) = CacheMaxTTL v" "CacheMinTTL (Canonicalize v) = CacheMinTTL v" "HealthInterval (Canonicalize v) = HealthInterval v"
  "HealthTimeout (Canonicalize v) = HealthTimeout v" "DHCPLeaseFile (Canonicalize v) = DHCPLeaseFile v"
  by (simp_all add: Canonicalize_def)

lemma validate_canonical [simp]:
  "validateAllowQuery (canonicalPrefixes cs) = validateAllowQuery cs" "positives (Canonicalize v) = positives v" "validateDHCP (Canonicalize v) = validateDHCP v"
  by (simp_all add: validateAllowQuery_def canonical_parses positives_def validateDHCP_def lease_seconds_error_def Canonicalize_def cong: sum.case_cong if_cong)

lemma ValidateStored_canonical: "ValidateStored L (Canonicalize v) = ValidateStored L v"
  by (simp add: ValidateStored_def canonical_parses cong: sum.case_cong option.case_cong)

lemma set_Build_sel:
  assumes "set_Build L i v = Inr snap"
  shows "ss_Raw snap = v" and "masked_all ''allow_query'' (AllowQuery v @ (if AllowTailscale v then [TailscaleCGNAT] else [])) = Inr (ss_AllowQuery snap)"
    and "masked_all ''reverse_zones'' (ReverseZones v) = Inr (ss_ReverseZones snap)" and "NewAll (netlib.truncate L) i (Upstreams v) = Inr (ss_Upstreams snap)"
  using assms by (auto simp: set_Build_def split: sum.splits)

lemma masked_all_member:
  assumes "masked_all f cs = Inr ps" and "p \<in> set ps"
  shows "\<exists>c\<in>set cs. \<exists>q. ParsePrefix c = Some q \<and> p = Masked q"
  using masked_all_Inr [OF assms(1)] assms(2) by (induction cs ps rule: list_all2_induct) auto

text \<open>An allowed address outside the private ranges is there because of a public entry of the list.\<close>

lemma public_reach:
  assumes "set_Build L i v = Inr snap" and "p \<in> set (ss_AllowQuery snap)" and "Contains p a" and "\<not> private_addr a"
  shows "show_prefix p \<in> set (PublicPrefixes (AllowQuery v))"
proof -
  obtain c q where c: "c \<in> set (AllowQuery v @ (if AllowTailscale v then [TailscaleCGNAT] else []))" "ParsePrefix c = Some q" "p = Masked q"
    using masked_all_member [OF set_Build_sel(2) [OF assms(1)] assms(2)] by blast
  have np: "\<not> IsPrivatePrefix q" using private_prefix_addrs assms(3,4) c(3) by (metis Contains_Masked)
  have "IsPrivatePrefix (Prefix (Addr4 0x64400000) 10)" by code_simp
  then have "c \<noteq> TailscaleCGNAT" using np c(2) Tailscale_parses by auto
  then have "c \<in> set (AllowQuery v)" using c(1) by (auto split: if_splits)
  then show ?thesis using c np unfolding PublicPrefixes_iff by blast
qed

section \<open>A save on a primary\<close>

lemma set_Set_primary:
  assumes "set_Set L i io rd onApply False v c s = (e, s')"
  shows "case e of
      Some _ \<Rightarrow> s' = s
    | None \<Rightarrow> (\<exists>snap d. ValidateWrite L v (running s) c = None \<and> set_Build L i (Canonicalize v) = Inr snap \<and>
        persist io (running s) (Canonicalize v) (se_db s) = Inr d \<and>
        s' = s\<lparr>se_db := d, se_cur := Some snap, se_live := onApply snap (se_live s)\<rparr>)"
  using assms by (auto simp: set_Set_def Let_def publish_def split: option.splits sum.splits)

lemma persist_row: "persist io prev v d = Inr d' \<Longrightarrow> db_settings d' = Some (row_of_settings v) \<and> db_bl d' = db_bl d \<and> db_local d' = db_local d"
  by (auto simp: persist_def PutSettingsRenamingZone_def PutSettings_def putSettings_def write_row_def run_tx_Inr Let_def
      split: if_splits sum.splits prod.splits)

definition list_safe :: "string list \<Rightarrow> bool" where
  "list_safe xs = (xs \<noteq> [[]] \<and> list_all (\<lambda>x. CHR 0x0A \<notin> set x) xs)"

lemma unpack_pack_safe: "list_safe xs \<Longrightarrow> unpackList (packList xs) = xs"
proof (cases "packList xs = []")
  case True
  assume "list_safe xs"
  then show ?thesis using True by (cases xs; cases "tl xs") (auto simp: list_safe_def packList_def unpackList_def)
next
  case False
  assume safe: "list_safe xs"
  have "xs \<noteq> []" using False by (auto simp: packList_def)
  moreover have "list_all (list_all (\<lambda>x. x \<noteq> CHR 0x0A)) xs" using safe by (auto simp: list_safe_def list_all_iff)
  ultimately show ?thesis using False by (simp add: unpackList_def) (simp add: packList_def Split_Join)
qed

lemma settings_row_safe:
  "list_safe (ReverseZones v) \<Longrightarrow> list_safe (Upstreams v) \<Longrightarrow> list_safe (AllowQuery v) \<Longrightarrow> settings_of_row (row_of_settings v) = v"
  by (simp add: settings_of_row_def row_of_settings_def unpack_pack_safe)

section \<open>What is saved is what starts\<close>

lemma show_prefix_no_newline: "prefix_valid p \<Longrightarrow> CHR 0x0A \<notin> set (show_prefix p)"
proof -
  assume v: "prefix_valid p"
  obtain a b where p: "p = Prefix a b" by (cases p)
  have nl: "\<not> is_hex CHR 0x0A" by code_simp
  have "set (show_addr a) \<subseteq> Collect is_hex \<union> {CHR '':'', CHR ''.''}"
    using v p set_show4 set_show6 by (cases a) auto
  then show ?thesis using nl set_show_dec [of "int b"] p by (auto simp: show_prefix_def)
qed

lemma ParsePrefix_Nil: "ParsePrefix [] = None"
  by (simp add: ParsePrefix_def)

lemma canonical_safe:
  assumes "list_all (\<lambda>c. ParsePrefix c \<noteq> None) cs"
  shows "list_safe (canonicalPrefixes cs)"
proof -
  have c: "CHR 0x0A \<notin> set (canonical c) \<and> canonical c \<noteq> []" if "c \<in> set cs" for c
  proof -
    have "ParsePrefix c \<noteq> None" using assms that unfolding list_all_iff by (rule bspec)
    then obtain p where p: "ParsePrefix c = Some p" by (cases "ParsePrefix c") simp_all
    then have "prefix_valid (Masked p)" using ParsePrefix_valid by simp
    then show ?thesis using p show_prefix_no_newline by (simp add: canonical_def) (simp add: show_prefix_def)
  qed
  then show ?thesis by (auto simp: list_safe_def canonicalPrefixes_def list_all_iff)
qed

lemma saved_row_reads_back:
  assumes "ValidateStored L v = None" and "list_all (\<lambda>u. CHR 0x0A \<notin> set u) (Upstreams v)"
  shows "settings_of_row (row_of_settings (Canonicalize v)) = Canonicalize v"
proof (rule settings_row_safe)
  note ok = ValidateStored_None [OF assms(1)]
  have "up_Parse N [] = Inl UpEmpty" for N by (simp add: up_Parse_def TrimSpace_def)
  then have "Upstreams v \<noteq> [[]]" using ok(3) by (auto simp: ParseAll_def)
  then show "list_safe (Upstreams (Canonicalize v))" using assms(2) by (simp add: list_safe_def)
qed (use ValidateStored_None [OF assms(1)] canonical_safe in simp_all)

section \<open>The theorems\<close>

text \<open>
  A save on a primary is all or nothing. When it reports an error, the database, the settings being served and the running
  components are untouched. When it reports none, the row holds the canonical form of what was asked for, the served snapshot is
  the complete build of exactly that, and it is what the components were given.
\<close>

theorem settings_save_all_or_nothing:
  "case set_Set L i io rd onApply False v c s of
      (Some e, s') \<Rightarrow> s' = s
    | (None, s') \<Rightarrow> \<exists>snap. set_Build L i (Canonicalize v) = Inr snap \<and> se_cur s' = Some snap \<and> se_live s' = onApply snap (se_live s) \<and>
        db_settings (se_db s') = Some (row_of_settings (Canonicalize v)) \<and> db_bl (se_db s') = db_bl (se_db s) \<and> db_local (se_db s') = db_local (se_db s)"
proof -
  obtain e s' where set: "set_Set L i io rd onApply False v c s = (e, s')" by (meson surj_pair)
  show ?thesis using set_Set_primary [OF set] set persist_row by (cases e) auto
qed

type_synonym save = "nat \<times> string option \<times> string option \<times> settings \<times> string"

definition saves :: "'a setlib_scheme \<Rightarrow> (set_snapshot \<Rightarrow> 'h \<Rightarrow> 'h) \<Rightarrow> save list \<Rightarrow> 'h set_service \<Rightarrow> 'h set_service" where
  "saves L onApply ops s = fold (\<lambda>(i, io, rd, v, c) s. snd (set_Set L i io rd onApply False v c s)) ops s"

definition confirmed :: "save list \<Rightarrow> string set" where
  "confirmed ops = (\<lambda>(i, io, rd, v, c). c) ` set ops"

lemma set_Set_public:
  assumes "set_Set L i io rd onApply False v c s = (e, s')"
  shows "set (PublicPrefixes (AllowQuery (running s'))) \<subseteq> set (PublicPrefixes (AllowQuery (running s))) \<union> {c}"
proof (cases e)
  case None
  then obtain snap where snap: "ValidateWrite L v (running s) c = None" "set_Build L i (Canonicalize v) = Inr snap" "se_cur s' = Some snap"
    using set_Set_primary [OF assms] by auto
  have "running s' = Canonicalize v" using snap(3) set_Build_sel(1) [OF snap(2)] by (simp add: running_def)
  then show ?thesis using snap(1) by (simp add: ValidateWrite_None PublicPrefixes_canonical)
qed (use set_Set_primary [OF assms] in auto)

lemma saves_public: "set (PublicPrefixes (AllowQuery (running (saves L onApply ops s)))) \<subseteq> set (PublicPrefixes (AllowQuery (running s))) \<union> confirmed ops"
proof (induction ops arbitrary: s)
  case (Cons op ops)
  obtain i io rd v c where op: "op = (i, io, rd, v, c)" by (metis prod_cases5)
  let ?s1 = "snd (set_Set L i io rd onApply False v c s)"
  have "set (PublicPrefixes (AllowQuery (running ?s1))) \<subseteq> set (PublicPrefixes (AllowQuery (running s))) \<union> {c}"
    by (rule set_Set_public [of L i io rd onApply v c s "fst (set_Set L i io rd onApply False v c s)"]) simp
  then show ?case using Cons.IH [of ?s1] op by (auto simp: saves_def confirmed_def)
qed (simp add: saves_def)

definition built :: "'a setlib_scheme \<Rightarrow> 'h set_service \<Rightarrow> bool" where
  "built L s = (\<forall>snap. se_cur s = Some snap \<longrightarrow> (\<exists>i. set_Build L i (ss_Raw snap) = Inr snap))"

lemma set_Set_built: "built L s \<Longrightarrow> set_Set L i io rd onApply False v c s = (e, s') \<Longrightarrow> built L s'"
  using set_Set_primary [of L i io rd onApply v c s e s']
  by (auto simp: built_def split: option.splits) (metis set_Build_sel(1))

lemma saves_built: "built L s \<Longrightarrow> built L (saves L onApply ops s)"
proof (induction ops arbitrary: s)
  case (Cons op ops)
  obtain i io rd v c where op: "op = (i, io, rd, v, c)" by (metis prod_cases5)
  have "built L (snd (set_Set L i io rd onApply False v c s))" using set_Set_built Cons.prems by (metis prod.collapse)
  then show ?case using Cons.IH op by (auto simp: saves_def)
qed (simp add: saves_def)

text \<open>
  C4: the server never becomes an open resolver by accident. After any sequence of saves, if an address outside loopback, the
  private and link-local ranges and the carrier-grade NAT range is allowed to query, the prefix that allows it was served before the
  first of them or was retyped, in its canonical form, in the confirmation field of one of them.
\<close>

theorem no_unconfirmed_exposure:
  assumes "built L s" and "se_cur (saves L onApply ops s) = Some snap"
    and "p \<in> set (ss_AllowQuery snap)" and "Contains p a" and "\<not> private_addr a"
  shows "show_prefix p \<in> set (PublicPrefixes (AllowQuery (running s))) \<union> confirmed ops"
proof -
  obtain i where "set_Build L i (ss_Raw snap) = Inr snap" using saves_built [OF assms(1)] assms(2) unfolding built_def by blast
  then have "show_prefix p \<in> set (PublicPrefixes (AllowQuery (ss_Raw snap)))" using public_reach assms(3,4,5) by blast
  moreover have "running (saves L onApply ops s) = ss_Raw snap" using assms(2) by (simp add: running_def)
  ultimately show ?thesis using saves_public [of L onApply ops s] by auto
qed

text \<open>
  C29: what is saved is what the next start serves: if no upstream contains a line break, the settings read back from the database
  are the canonical form of those that were saved, the start accepts them, and building them gives the snapshot being served.
\<close>

theorem saved_settings_survive_restart:
  assumes "set_Set L i io rd onApply False v c s = (None, s')" and "list_all (\<lambda>u. CHR 0x0A \<notin> set u) (Upstreams v)"
  shows "ensureSettings L None io' sd (se_db s') = (Inr (Canonicalize v), se_db s') \<and>
    set_Rebuild L i None s' = (None, s')"
proof -
  obtain snap d where p: "ValidateWrite L v (running s) c = None" "set_Build L i (Canonicalize v) = Inr snap"
      "persist io (running s) (Canonicalize v) (se_db s) = Inr d" "se_cur s' = Some snap" "se_db s' = d"
    using set_Set_primary [OF assms(1)] by auto
  have ok: "ValidateStored L v = None" using p(1) by (simp add: ValidateWrite_None)
  have "Settings (se_db s') = Some (Canonicalize v)"
    using persist_row [OF p(3)] p(5) saved_row_reads_back [OF ok assms(2)] by (simp add: Settings_def)
  then show ?thesis using ok p(2,4) by (simp add: ensureSettings_def ValidateStored_canonical set_Rebuild_def set_source_def)
qed

text \<open>
  A replica changes only what is its own. Whatever is asked of it, the configuration it shares with its primary and the
  version of that configuration stay as they are; a change that reaches past the DHCP settings is refused whole.
\<close>

theorem replica_saves_stay_local:
  assumes "set_Set L i io rd onApply True v c s = (e, s')"
  shows "shared_config (se_db s') = shared_config (se_db s) \<and> ConfigVersion (se_db s') = ConfigVersion (se_db s) \<and>
    (\<not> dhcpOnlyChange (running s) v \<longrightarrow> e = Some ErrReadOnlyReplica \<and> s' = s)"
proof -
  have w: "shared_config d' = shared_config d \<and> ConfigVersion d' = ConfigVersion d" if put: "PutDHCPSettings io v d = Inr d'" for d d'
  proof -
    obtain r cols where r: "db_settings d = Some (r, cols)" and d': "d' = write_row (with_dhcp v r, cols) d"
      using put by (auto simp: PutDHCPSettings_def run_tx_Inr split: option.splits)
    have same: "\<not> settings_differ (r, cols) (with_dhcp v r, cols)" by (cases cols) (simp add: settings_differ_def with_dhcp_def)
    then show ?thesis using r same_columns_shared [OF same] by (simp add: d' write_row_def ConfigVersion_def shared_config_def Settings_def)
  qed
  have "case e of
      None \<Rightarrow> \<exists>d. PutDHCPSettings io v (se_db s) = Inr d \<and> se_db s' = d
    | Some _ \<Rightarrow> s' = s \<or> (\<exists>d. PutDHCPSettings io v (se_db s) = Inr d \<and> se_db s' = d)"
    using assms by (auto simp: set_Set_def setDHCPOnly_def set_Rebuild_def Let_def split: if_splits option.splits sum.splits)
  then have "shared_config (se_db s') = shared_config (se_db s) \<and> ConfigVersion (se_db s') = ConfigVersion (se_db s)"
    using w by (auto split: option.splits)
  moreover have "\<not> dhcpOnlyChange (running s) v \<Longrightarrow> e = Some ErrReadOnlyReplica \<and> s' = s"
    using assms by (simp add: set_Set_def setDHCPOnly_def)
  ultimately show ?thesis by blast
qed

section \<open>Witnesses\<close>

definition home_lib :: setlib where
  "home_lib = \<lparr>nl_parse = (\<lambda>s. Inl ''unused''), nl_port = (\<lambda>p. p = ''53''), sl_IsDomainName = (\<lambda>s. True),
     sl_SplitDomainName = (\<lambda>s. Split s CHR ''.'')\<rparr>"

definition counted :: "set_snapshot \<Rightarrow> nat \<Rightarrow> nat" where
  "counted snap n = n + 1"

definition home_settings :: settings where
  "home_settings = blank_settings\<lparr>PrivateDomain := ''home.arpa'', Upstreams := [''9.9.9.9''], AllowQuery := [''10.1.2.3/8'', ''1.2.3.4/24''],
     TTL := 60, CacheMinTTL := 1, CacheMaxTTL := 60, NegativeMaxTTL := 30, CacheEntries := 100, DiscoveryInterval := 30,
     HealthInterval := 30, HealthTimeout := 5, HealthWorkers := 2\<rparr>"

definition home_service :: "nat set_service" where
  "home_service = \<lparr>se_db = fresh_db, se_cur = None, se_live = 0\<rparr>"

definition home_snapshot :: set_snapshot where
  "home_snapshot = \<lparr>ss_Raw = Canonicalize home_settings, ss_AllowQuery = [Prefix (Addr4 0x0A000000) 8, Prefix (Addr4 0x01020300) 24],
     ss_ReverseZones = [], ss_Upstreams = [\<lparr>up_Id = 0, up_Spec = ''9.9.9.9'', up_Secure = False\<rparr>]\<rparr>"

lemma home_save:
  "set_Set home_lib 0 None None counted False home_settings ''1.2.3.0/24'' home_service =
     (None, \<lparr>se_db = putSettings (Canonicalize home_settings) fresh_db, se_cur = Some home_snapshot, se_live = 1\<rparr>)"
proof -
  have "ValidateWrite home_lib home_settings (running home_service) ''1.2.3.0/24'' = None" by code_simp
  moreover have "set_Build home_lib 0 (Canonicalize home_settings) = Inr home_snapshot" by code_simp
  moreover have "persist None (running home_service) (Canonicalize home_settings) (se_db home_service) = Inr (putSettings (Canonicalize home_settings) fresh_db)"
    by (simp add: persist_def running_def home_service_def blank_settings_def ZoneSuffix_def TrimDots_def TrimSpace_def ToLower_def PutSettings_def run_tx_def)
  ultimately show ?thesis by (simp add: set_Set_def Let_def publish_def counted_def) (simp add: home_service_def)
qed

theorem no_unconfirmed_exposure_witness:
  "show_prefix (Prefix (Addr4 0x01020300) 24) \<in> set (PublicPrefixes (AllowQuery (running home_service))) \<union> {''1.2.3.0/24''}"
proof -
  let ?ops = "[(0, None, None, home_settings, ''1.2.3.0/24'')] :: save list"
  have "built home_lib home_service" by (simp add: built_def home_service_def)
  moreover have "se_cur (saves home_lib counted ?ops home_service) = Some home_snapshot" by (simp add: saves_def home_save)
  moreover have "Prefix (Addr4 0x01020300) 24 \<in> set (ss_AllowQuery home_snapshot)" by (simp add: home_snapshot_def)
  moreover have "Contains (Prefix (Addr4 0x01020300) 24) (Addr4 0x01020304)" "\<not> private_addr (Addr4 0x01020304)" by code_simp+
  ultimately show ?thesis
    using no_unconfirmed_exposure [of home_lib home_service counted ?ops home_snapshot "Prefix (Addr4 0x01020300) 24" "Addr4 0x01020304"]
    by (simp add: confirmed_def)
qed

theorem saved_settings_survive_restart_witness:
  "ensureSettings home_lib None None blank_settings (putSettings (Canonicalize home_settings) fresh_db) =
     (Inr (Canonicalize home_settings), putSettings (Canonicalize home_settings) fresh_db)"
proof -
  have "list_all (\<lambda>u. CHR 0x0A \<notin> set u) (Upstreams home_settings)" by code_simp
  from saved_settings_survive_restart [OF home_save this, of None blank_settings] show ?thesis by simp
qed

theorem replica_saves_stay_local_witness:
  "let s = snd (set_Set home_lib 0 None None counted False home_settings ''1.2.3.0/24'' home_service);
       (e, s') = set_Set home_lib 5 None None counted True (home_settings\<lparr>TTL := 61\<rparr>) [] s
   in e = Some ErrReadOnlyReplica \<and> shared_config (se_db s') = shared_config (se_db s)"
proof -
  let ?s = "snd (set_Set home_lib 0 None None counted False home_settings ''1.2.3.0/24'' home_service)"
  obtain e s' where set: "set_Set home_lib 5 None None counted True (home_settings\<lparr>TTL := 61\<rparr>) [] ?s = (e, s')" by (meson surj_pair)
  have "\<not> dhcpOnlyChange (running ?s) (home_settings\<lparr>TTL := 61\<rparr>)" unfolding home_save by code_simp
  then show ?thesis using replica_saves_stay_local [OF set] set by (simp add: Let_def)
qed

section \<open>A line break in an upstream\<close>

text \<open>
  The three lists are stored as lines of text, and an upstream is trimmed when it is checked but not when it is stored. One that ends in
  a line break is saved and served, and comes back from the database as two, the second empty: the next start refuses it.
\<close>

definition broken_settings :: settings where
  "broken_settings = home_settings\<lparr>AllowQuery := [''10.0.0.0/8''], Upstreams := [''9.9.9.9'' @ [CHR 0x0A]]\<rparr>"

definition broken_snapshot :: set_snapshot where
  "broken_snapshot = \<lparr>ss_Raw = broken_settings, ss_AllowQuery = [Prefix (Addr4 0x0A000000) 8], ss_ReverseZones = [],
     ss_Upstreams = [\<lparr>up_Id = 0, up_Spec = ''9.9.9.9'' @ [CHR 0x0A], up_Secure = False\<rparr>]\<rparr>"

lemma line_break_saved:
  "set_Set home_lib 0 None None counted False broken_settings [] home_service =
     (None, \<lparr>se_db = putSettings broken_settings fresh_db, se_cur = Some broken_snapshot, se_live = 1\<rparr>)"
proof -
  have "ValidateWrite home_lib broken_settings (running home_service) [] = None" by code_simp
  moreover have "Canonicalize broken_settings = broken_settings" by code_simp
  moreover have "set_Build home_lib 0 broken_settings = Inr broken_snapshot" by code_simp
  moreover have "persist None (running home_service) broken_settings (se_db home_service) = Inr (putSettings broken_settings fresh_db)"
    by (simp add: persist_def running_def home_service_def blank_settings_def ZoneSuffix_def TrimDots_def TrimSpace_def ToLower_def PutSettings_def run_tx_def)
  ultimately show ?thesis by (simp add: set_Set_def Let_def publish_def counted_def) (simp add: home_service_def)
qed

lemma line_break_stops_the_start:
  "fst (ensureSettings home_lib None None blank_settings (putSettings broken_settings fresh_db)) = Inl (FieldError ''upstreams'')"
  by code_simp

end
