(* ===== verification/ReplicaSafety.thy ===== *)
theory ReplicaSafety
  imports Replica SettingsSafety
begin

text \<open>
  What replication promises. A primary writes while a replica polls, the reads of one snapshot interleave with the writes, either may fail
  or restart: the replica never takes itself to be up to date when it is not, and one undisturbed tick brings it up to date. Only the pinned
  primary is ever applied, an unpaired peer learns nothing, and a promotion survives a crash at any point of it.
\<close>

section \<open>A snapshot read while others write\<close>

definition reads_in_order :: "(nat \<Rightarrow> db) \<Rightarrow> bool" where
  "reads_in_order at = (\<forall>k<7. db_moved (at k) (at (Suc k)))"

lemma reads_moved:
  assumes "reads_in_order at" and "j \<le> k" and "k \<le> 7"
  shows "db_moved (at j) (at k)"
  using assms(2,3)
proof (induction k)
  case (Suc k)
  then show ?case
  proof (cases "j = Suc k")
    case False
    then have "db_moved (at j) (at k)" using Suc by simp
    also have "db_moved (at k) (at (Suc k))" using assms(1) Suc.prems by (simp add: reads_in_order_def)
    finally show ?thesis .
  qed simp
qed simp

lemma version_mono: "db_moved d d' \<Longrightarrow> ConfigVersion d \<le> ConfigVersion d'"
  using db_moved_version [of d d'] by auto

lemma reads_still:
  assumes "reads_in_order at" and "ConfigVersion (at 7) \<le> ConfigVersion (at 0)" and "k \<le> 7"
  shows "db_reg (at k) = db_reg (at 7)" and "bl_content (db_bl (at k)) = bl_content (db_bl (at 7))"
    and "map_option shared_settings (Settings (at k)) = map_option shared_settings (Settings (at 7))"
proof -
  have "ConfigVersion (at 0) \<le> ConfigVersion (at k)" using reads_moved [OF assms(1), of 0 k] assms(3) version_mono by simp
  then have le: "ConfigVersion (at 7) \<le> ConfigVersion (at k)" using assms(2) by simp
  note still = db_moved_still [OF reads_moved [OF assms(1), of k 7] le]
  show "db_reg (at k) = db_reg (at 7)" "bl_content (db_bl (at k)) = bl_content (db_bl (at 7))"
    "map_option shared_settings (Settings (at k)) = map_option shared_settings (Settings (at 7))"
    using still assms(3) by simp_all
qed

definition read_input :: "(nat \<Rightarrow> db) \<Rightarrow> service list \<Rightarrow> settings \<Rightarrow> snapshot_input" where
  "read_input at services stored = \<lparr>si_Views = Views (db_reg (at 1)), si_Services = services, si_Records = Records (db_reg (at 3)),
     si_Settings = stored, si_Blacklist = BlacklistSettings (db_bl (at 5)),
     si_Lists = BlacklistListMetas (db_bl (at 6)), si_Rules = BlacklistRules (db_bl (at 7))\<rparr>"

lemma source_Snapshot_Inr:
  assumes "source_Snapshot rd n at = Inr snap"
  shows "rs_Version snap = ConfigVersion (at 0)" and "rs_NodeID snap = n" and "rs_Schema snap = SchemaVersion"
    and "\<exists>services stored. Services (db_reg (at 2)) = Inr services \<and> Settings (at 4) = Some stored \<and> rs_Config snap = Inr (read_input at services stored)"
  using assms unfolding source_Snapshot_def Let_def read_input_def by (auto split: option.splits sum.splits)

text \<open>If the version did not move during the reads, the pieces are those of one database that shares everything with the last.\<close>

lemma untorn_snapshot:
  assumes ord: "reads_in_order at" and ok: "\<And>k. k \<le> 7 \<Longrightarrow> db_ok (at k)" and still: "ConfigVersion (at 7) \<le> ConfigVersion (at 0)"
    and snap: "source_Snapshot rd n at = Inr snap"
  shows "\<exists>p stored. Settings p = Some stored \<and> db_ok p \<and> shared_config p = shared_config (at 7) \<and> rs_Config snap = Inr (snapshot_of stored p)"
proof -
  obtain services stored where sv: "Services (db_reg (at 2)) = Inr services" "Settings (at 4) = Some stored"
    and cfg: "rs_Config snap = Inr (read_input at services stored)"
    using source_Snapshot_Inr(4) [OF snap] by blast
  let ?bl = "\<lparr>bt_settings = bt_settings (db_bl (at 5)), bt_lists = bt_lists (db_bl (at 6)), bt_rules = bt_rules (db_bl (at 7)), bt_version = 0\<rparr>"
  let ?p = "(at 4)\<lparr>db_reg := db_reg (at 7), db_bl := ?bl\<rparr>"
  note same = reads_still [OF ord still]
  have reg: "db_reg (at 1) = db_reg (at 7)" "db_reg (at 2) = db_reg (at 7)" "db_reg (at 3) = db_reg (at 7)" using same(1) [of 1] same(1) [of 2] same(1) [of 3] by simp_all
  have regok: "reg_ok (db_reg (at 7))" using ok [of 7] by (simp add: db_ok_def)
  have "services = services_of (db_reg (at 7))" using sv(1) reg(2) regok by (simp add: Services_eq services_of_def reg_ok_def)
  then have "rs_Config snap = Inr (snapshot_of stored ?p)"
    using cfg reg by (simp add: snapshot_of_def read_input_def BlacklistSettings_def BlacklistListMetas_def blacklistLists_def BlacklistRules_def)
  moreover have "Settings ?p = Some stored" using sv(2) by (simp add: Settings_def)
  moreover have "db_ok ?p" using ok [of 5] ok [of 6] ok [of 7] by (simp add: db_ok_def bl_keys_ok_def names_ok_def)
  moreover have "bl_content ?bl = bl_content (db_bl (at 7))"
    using same(2) [of 5] same(2) [of 6]
    by (simp add: bl_content_def BlacklistSettings_def BlacklistListMetas_def blacklistLists_def BlacklistRules_def)
  then have "shared_config ?p = shared_config (at 7)" using same(3) [of 4] by (simp add: shared_config_def Settings_def)
  ultimately show ?thesis by blast
qed

lemma untorn_apply:
  assumes "reads_in_order at" and "\<And>k. k \<le> 7 \<Longrightarrow> db_ok (at k)" and "ConfigVersion (at 7) \<le> ConfigVersion (at 0)"
    and "source_Snapshot rd n at = Inr snap" and "rs_Config snap = Inr si" and "db_ok r" and "ApplySnapshot io si r = Inr r'"
  shows "shared_config r' = shared_config (at 7)"
proof -
  obtain p stored where p: "Settings p = Some stored" "db_ok p" "shared_config p = shared_config (at 7)" "si = snapshot_of stored p"
    using untorn_snapshot [OF assms(1-4)] assms(5) by auto
  have "io = None" using assms(7) by (simp add: ApplySnapshot_def run_tx_Inr)
  then show ?thesis using ApplySnapshot_copies [OF p(2) assms(6) p(1)] assms(7) p(3,4) by auto
qed

lemma ApplySnapshot_local: "ApplySnapshot io si d = Inr d' \<Longrightarrow> db_local d' = db_local d"
  by (auto simp: ApplySnapshot_def run_tx_Inr Let_def split: sum.splits)

text \<open>The settings of the node alone: the eight of its DHCP server, the lease file and its interval, and the two of the query log.\<close>

definition own_settings :: "settings \<Rightarrow> settings" where
  "own_settings v = keep_local v blank_settings"

lemma ApplySnapshot_own:
  assumes "ApplySnapshot io si d = Inr d'" and "Settings d \<noteq> None"
  shows "map_option own_settings (Settings d') = map_option own_settings (Settings d)"
proof -
  have "db_settings d' = db_settings (apply_settings (si_Settings si) d)"
    using assms(1) by (auto simp: ApplySnapshot_def run_tx_Inr apply_settings_def putSettings_def write_row_def Let_def split: sum.splits)
  then show ?thesis using assms(2)
    by (auto simp: Settings_def apply_settings_def putSettings_def write_row_def settings_of_row_eq row_of_settings_def own_settings_def
        keep_local_def with_dhcp_def)
qed

section \<open>What one tick can do\<close>

definition row_version :: "string \<Rightarrow> db \<Rightarrow> int" where
  "row_version n d = (if fst (ReplicaState (db_local d)) = n then snd (ReplicaState (db_local d)) else 0)"

definition with_row :: "string \<Rightarrow> int \<Rightarrow> db \<Rightarrow> db" where
  "with_row n v d = d\<lparr>db_local := (db_local d)\<lparr>lt_replica := Some (n, v)\<rparr>\<rparr>"

lemma with_row_sel [simp]:
  "shared_config (with_row n v d) = shared_config d" "db_ok (with_row n v d) = db_ok d" "ReplicaState (db_local (with_row n v d)) = (n, v)"
  by (simp_all add: with_row_def shared_config_def Settings_def db_ok_def ReplicaState_def)

lemma set_replica_row_Inr: "set_replica_row io n v s = Inr s' \<Longrightarrow> se_db s' = with_row n v (se_db s)"
  by (auto simp: set_replica_row_def SetReplicaState_def run_tx_Inr with_row_def split: sum.splits)

lemma set_Rebuild_db [simp]: "se_db (snd (set_Rebuild L i rd s)) = se_db s"
  by (auto simp: set_Rebuild_def split: sum.splits)

lemma Apply_cases:
  assumes "replicaApplier_Apply L i io rd onApply pol cfg s = (e, s')"
  shows "(se_db s' = se_db s \<and> e \<noteq> None) \<or> (\<exists>si. cfg = Inr si \<and> ApplySnapshot io si (se_db s) = Inr (se_db s'))"
proof (cases cfg)
  case (Inr si)
  show ?thesis
  proof (cases "ApplySnapshot io si (se_db s)")
    case (Inr d)
    obtain e1 s1 where rb: "set_Rebuild L i rd (s\<lparr>se_db := d\<rparr>) = (e1, s1)" by (meson surj_pair)
    then have "se_db s1 = d" using set_Rebuild_db [of L i rd "s\<lparr>se_db := d\<rparr>"] by simp
    then have "se_db s' = d" using assms \<open>cfg = Inr si\<close> Inr rb
      by (auto simp: replicaApplier_Apply_def Let_def split: option.splits prod.splits)
    then show ?thesis using Inr \<open>cfg = Inr si\<close> by simp
  qed (use assms \<open>cfg = Inr si\<close> in \<open>auto simp: replicaApplier_Apply_def\<close>)
qed (use assms in \<open>auto simp: replicaApplier_Apply_def\<close>)

definition applied :: "puller_cfg \<Rightarrow> tick \<Rightarrow> puller \<Rightarrow> db \<Rightarrow> puller \<Rightarrow> db \<Rightarrow> bool" where
  "applied cfg t p r p' r' =
     (\<exists>snap si d v. tk_version t = Inr v \<and> vr_NodeID v = pc_Pinned cfg \<and> vr_Schema v = SchemaVersion \<and> vr_Version v \<noteq> pu_lastVersion p \<and>
        tk_snapshot t = Inr snap \<and> rs_NodeID snap = pc_Pinned cfg \<and> rs_Schema snap = SchemaVersion \<and> rs_Config snap = Inr si \<and>
        ApplySnapshot (tk_io t) si r = Inr d \<and>
        ((pu_lastVersion p' = pu_lastVersion p \<and> r' = d) \<or>
         (pu_lastVersion p' = rs_Version snap \<and> r' = with_row (pc_Pinned cfg) (rs_Version snap) d)))"

lemmas puller_step_defs = fail_def unreachable_def reject_def slower_def reachable_def drop_conn_def healthUnknown_def synced_def

lemma pollHealth_sel [simp]: "pu_lastVersion (pollHealth r p) = pu_lastVersion p" "pu_backoff (pollHealth r p) = pu_backoff p"
  by (auto simp: pollHealth_def split: sum.splits)

lemma pull_cases:
  assumes "pull L onApply pol cfg t (p, s) = (p', s')"
  shows "(pu_lastVersion p' = pu_lastVersion p \<and> se_db s' = se_db s) \<or>
    (\<exists>snap si d. tk_snapshot t = Inr snap \<and> rs_NodeID snap = pc_Pinned cfg \<and> rs_Schema snap = SchemaVersion \<and> rs_Config snap = Inr si \<and>
        ApplySnapshot (tk_io t) si (se_db s) = Inr d \<and>
        ((pu_lastVersion p' = pu_lastVersion p \<and> se_db s' = d) \<or>
         (pu_lastVersion p' = rs_Version snap \<and> se_db s' = with_row (pc_Pinned cfg) (rs_Version snap) d)))"
proof (cases "tk_snapshot t")
  case (Inr snap)
  show ?thesis
  proof (cases "rs_NodeID snap = pc_Pinned cfg \<and> rs_Schema snap = SchemaVersion")
    case True
    obtain e s1 where ap: "replicaApplier_Apply L (tk_ids t) (tk_io t) (tk_rd t) onApply pol (rs_Config snap) s = (e, s1)" by (meson surj_pair)
    show ?thesis
    proof (cases e)
      case (Some x)
      then have "pu_lastVersion p' = pu_lastVersion p" "s' = s1"
        using assms Inr True ap by (auto simp: pull_def fail_def)
      then show ?thesis using Apply_cases [OF ap] Inr True by auto
    next
      case None
      then obtain si where si: "rs_Config snap = Inr si" "ApplySnapshot (tk_io t) si (se_db s) = Inr (se_db s1)" using Apply_cases [OF ap] by auto
      show ?thesis
      proof (cases "set_replica_row (tk_sio t) (pc_Pinned cfg) (rs_Version snap) s1")
        case (Inl x)
        then have "pu_lastVersion p' = pu_lastVersion p" "s' = s1"
          using assms Inr True ap None by (auto simp: pull_def fail_def)
        then show ?thesis using si Inr True by auto
      next
        case row: (Inr s2)
        then have "pu_lastVersion p' = rs_Version snap" "s' = s2"
          using assms Inr True ap None by (auto simp: pull_def synced_def)
        then show ?thesis using si Inr True set_replica_row_Inr [OF row] by auto
      qed
    qed
  qed (use assms Inr in \<open>auto simp: pull_def fail_def drop_conn_def split: if_splits\<close>)
qed (use assms in \<open>auto simp: pull_def fail_def drop_conn_def\<close>)

lemma poll_cases:
  assumes "poll L onApply pol cfg t (p, s) = (p', s')"
  shows "(pu_lastVersion p' = pu_lastVersion p \<and> se_db s' = se_db s) \<or> applied cfg t p (se_db s) p' (se_db s')"
proof (cases "(if pu_conn p then None else tk_dial t)")
  case None
  show ?thesis
  proof (cases "tk_version t")
    case (Inr v)
    show ?thesis
    proof (cases "vr_NodeID v = pc_Pinned cfg \<and> vr_Schema v = SchemaVersion \<and> vr_Version v \<noteq> pu_lastVersion p")
      case True
      let ?p = "pollHealth (tk_health t) (reachable cfg (p\<lparr>pu_conn := True\<rparr>))"
      have lv: "pu_lastVersion ?p = pu_lastVersion p" by (simp add: reachable_def)
      have "pull L onApply pol cfg t (?p, s) = (p', s')" using assms None Inr True lv by (simp add: poll_def Let_def)
      from pull_cases [OF this] show ?thesis using Inr True lv unfolding applied_def by auto
    qed (use assms None Inr in \<open>auto simp: poll_def Let_def puller_step_defs split: if_splits\<close>)
  qed (use assms None in \<open>auto simp: poll_def Let_def puller_step_defs\<close>)
qed (use assms in \<open>auto simp: poll_def puller_step_defs\<close>)

section \<open>A primary and a replica\<close>

text \<open>
  \<open>at_time P es k\<close> is the primary after the first \<open>k\<close> of the writes \<open>es\<close>. During a tick the primary makes those writes, whatever
  they are; the version and the eight reads of the snapshot each see it at some moment, in order. Any of the answers may be lost, and the
  replica's own database may fail at any point.
\<close>

definition at_time :: "db \<Rightarrow> (string option \<times> int \<times> db_op) list \<Rightarrow> nat \<Rightarrow> db" where
  "at_time P es k = fold db_exec (take k es) P"

definition honest :: "puller_cfg \<Rightarrow> db \<Rightarrow> (string option \<times> int \<times> db_op) list \<Rightarrow> nat \<Rightarrow> (nat \<Rightarrow> nat) \<Rightarrow> tick \<Rightarrow> bool" where
  "honest cfg P es j m t =
     (j \<le> m 0 \<and> (\<forall>k<7. m k \<le> m (Suc k)) \<and>
      ((\<exists>e. tk_version t = Inl e) \<or> tk_version t = source_Version None (pc_Pinned cfg) (at_time P es j)) \<and>
      ((\<exists>e. tk_snapshot t = Inl e) \<or> (\<exists>rd. tk_snapshot t = source_Snapshot rd (pc_Pinned cfg) (\<lambda>k. at_time P es (m k)))))"

record 'h rsys =
  sy_prim :: db
  sy_rep :: "'h set_service"
  sy_pull :: puller

inductive rstep ::
  "'a setlib_scheme \<Rightarrow> (set_snapshot \<Rightarrow> 'h \<Rightarrow> 'h) \<Rightarrow> (db \<Rightarrow> 'h \<Rightarrow> string option \<times> 'h) \<Rightarrow> puller_cfg \<Rightarrow> 'h rsys \<Rightarrow> 'h rsys \<Rightarrow> bool"
  for L onApply pol cfg where
  r_write: "rstep L onApply pol cfg y (y\<lparr>sy_prim := db_exec e (sy_prim y)\<rparr>)"
| r_local: "is_local op \<Longrightarrow> d = db_exec (io, now, op) (se_db (sy_rep y)) \<Longrightarrow>
    ReplicaState (db_local d) = ReplicaState (db_local (se_db (sy_rep y))) \<Longrightarrow>
    rstep L onApply pol cfg y (y\<lparr>sy_rep := (sy_rep y)\<lparr>se_db := d, se_cur := c, se_live := h\<rparr>\<rparr>)"
| r_restart: "rstep L onApply pol cfg y (y\<lparr>sy_pull := NewPuller cfg rd (db_local (se_db (sy_rep y)))\<rparr>)"
| r_tick: "honest cfg (sy_prim y) es j m t \<Longrightarrow> poll L onApply pol cfg t (sy_pull y, sy_rep y) = (p, s) \<Longrightarrow>
    rstep L onApply pol cfg y \<lparr>sy_prim = fold db_exec es (sy_prim y), sy_rep = s, sy_pull = p\<rparr>"

text \<open>A pairing starts with nothing pulled, and a primary that has been started has written something.\<close>

definition paired :: "puller_cfg \<Rightarrow> 'h rsys \<Rightarrow> bool" where
  "paired cfg y = (db_ok (sy_prim y) \<and> db_ok (se_db (sy_rep y)) \<and> 1 \<le> ConfigVersion (sy_prim y) \<and>
     row_version (pc_Pinned cfg) (se_db (sy_rep y)) = 0 \<and> (\<exists>rd. sy_pull y = NewPuller cfg rd (db_local (se_db (sy_rep y)))))"

inductive rreach ::
  "'a setlib_scheme \<Rightarrow> (set_snapshot \<Rightarrow> 'h \<Rightarrow> 'h) \<Rightarrow> (db \<Rightarrow> 'h \<Rightarrow> string option \<times> 'h) \<Rightarrow> puller_cfg \<Rightarrow> 'h rsys \<Rightarrow> bool"
  for L onApply pol cfg where
  r_start: "paired cfg y \<Longrightarrow> rreach L onApply pol cfg y"
| r_next: "rreach L onApply pol cfg y \<Longrightarrow> rstep L onApply pol cfg y z \<Longrightarrow> rreach L onApply pol cfg z"

definition in_sync :: "int \<Rightarrow> db \<Rightarrow> db \<Rightarrow> bool" where
  "in_sync v P R = (v \<le> ConfigVersion P \<and> (ConfigVersion P = v \<longrightarrow> shared_config R = shared_config P))"

lemma in_sync_moved: "in_sync v P R \<Longrightarrow> db_moved P P' \<Longrightarrow> in_sync v P' R"
  using db_moved_version [of P P'] by (auto simp: in_sync_def)

definition rinv :: "puller_cfg \<Rightarrow> 'h rsys \<Rightarrow> bool" where
  "rinv cfg y = (db_ok (sy_prim y) \<and> db_ok (se_db (sy_rep y)) \<and> 1 \<le> ConfigVersion (sy_prim y) \<and>
     in_sync (pu_lastVersion (sy_pull y)) (sy_prim y) (se_db (sy_rep y)) \<and>
     in_sync (row_version (pc_Pinned cfg) (se_db (sy_rep y))) (sy_prim y) (se_db (sy_rep y)))"

lemma NewPuller_version: "pu_lastVersion (NewPuller cfg rd (db_local d)) \<in> {0, row_version (pc_Pinned cfg) d}"
  by (auto simp: NewPuller_def row_version_def Let_def split: option.splits prod.splits)

lemma in_sync_zero: "1 \<le> ConfigVersion P \<Longrightarrow> in_sync 0 P R"
  by (simp add: in_sync_def)

lemma rinv_start: "paired cfg y \<Longrightarrow> rinv cfg y"
  using NewPuller_version [of cfg _ "se_db (sy_rep y)"] by (auto simp: paired_def rinv_def in_sync_zero)

lemma local_shared: "is_local op \<Longrightarrow> db_ok d \<Longrightarrow> shared_config (db_exec (io, now, op) d) = shared_config d"
  using db_moved_version [OF conjunct1 [OF db_exec_moved [of d "(io, now, op)"]]] local_writes_are_silent [of op io now d] by simp

lemma at_time_moved: "db_ok P \<Longrightarrow> j \<le> k \<Longrightarrow> db_moved (at_time P es j) (at_time P es k) \<and> db_ok (at_time P es k)"
proof -
  assume ok: "db_ok P" and jk: "j \<le> k"
  have okj: "db_ok (at_time P es j)" unfolding at_time_def using db_history [OF ok] by blast
  have "at_time P es k = fold db_exec (drop j (take k es)) (at_time P es j)"
    unfolding at_time_def using jk by (metis append_take_drop_id comp_apply fold_append min_def take_take)
  then show ?thesis using db_history [OF okj] by simp
qed

lemma at_time_end: "db_ok P \<Longrightarrow> db_moved (at_time P es k) (fold db_exec es P)"
  using at_time_moved [of P k "max k (length es)" es] by (simp add: at_time_def)

lemma in_sync_apply:
  assumes P: "db_ok P" and m: "\<forall>k<7. m k \<le> m (Suc k)"
    and snap: "source_Snapshot rd n (\<lambda>k. at_time P es (m k)) = Inr snap" "rs_Config snap = Inr si"
    and R: "db_ok R" "ApplySnapshot io si R = Inr d" and v: "v \<le> ConfigVersion (at_time P es (m 0))"
  shows "in_sync v (fold db_exec es P) d"
proof -
  let ?at = "\<lambda>k. at_time P es (m k)" and ?P = "fold db_exec es P"
  have ord: "reads_in_order ?at" using m at_time_moved [OF P] by (simp add: reads_in_order_def)
  have ok: "db_ok (?at k)" for k using at_time_moved [OF P, of "m k" "m k"] by simp
  have mv: "db_moved (?at 0) (?at 7)" "db_moved (?at 7) ?P" using reads_moved [OF ord, of 0 7] at_time_end [OF P] by simp_all
  then have le: "v \<le> ConfigVersion ?P" using v version_mono [OF mv(1)] version_mono [OF mv(2)] by simp
  have "shared_config d = shared_config ?P" if "ConfigVersion ?P = v"
  proof -
    have "ConfigVersion (?at 7) \<le> ConfigVersion (?at 0)" using that v version_mono [OF mv(2)] by simp
    then have "shared_config d = shared_config (?at 7)" using untorn_apply [OF ord ok _ snap R] by simp
    moreover have "ConfigVersion ?P \<le> ConfigVersion (?at 7)" using that v version_mono [OF mv(1)] by simp
    then have "shared_config ?P = shared_config (?at 7)" using db_moved_version [OF mv(2)] by auto
    ultimately show ?thesis by simp
  qed
  then show ?thesis using le by (simp add: in_sync_def)
qed

lemma row_version_with_row [simp]: "row_version n (with_row n v d) = v"
  by (simp add: row_version_def)

lemma row_version_local: "db_local d' = db_local d \<Longrightarrow> row_version n d' = row_version n d"
  by (simp add: row_version_def)

lemma rinv_tick:
  assumes inv: "rinv cfg y" and h: "honest cfg (sy_prim y) es j m t" and poll: "poll L onApply pol cfg t (sy_pull y, sy_rep y) = (p, s)"
  shows "rinv cfg \<lparr>sy_prim = fold db_exec es (sy_prim y), sy_rep = s, sy_pull = p\<rparr>"
proof -
  let ?P = "sy_prim y" and ?P' = "fold db_exec es (sy_prim y)" and ?R = "se_db (sy_rep y)" and ?n = "pc_Pinned cfg"
  have ok: "db_ok ?P" "db_ok ?R" "1 \<le> ConfigVersion ?P" and sync: "in_sync (pu_lastVersion (sy_pull y)) ?P ?R" "in_sync (row_version ?n ?R) ?P ?R"
    using inv by (simp_all add: rinv_def)
  have mv: "db_moved ?P ?P'" "db_ok ?P'" using db_history [OF ok(1)] by simp_all
  have one: "1 \<le> ConfigVersion ?P'" using version_mono [OF mv(1)] ok(3) by simp
  show ?thesis using poll_cases [OF poll]
  proof
    assume "pu_lastVersion p = pu_lastVersion (sy_pull y) \<and> se_db s = ?R"
    then show ?thesis using ok mv one in_sync_moved [OF sync(1) mv(1)] in_sync_moved [OF sync(2) mv(1)] by (simp add: rinv_def)
  next
    assume "applied cfg t (sy_pull y) ?R p (se_db s)"
    then obtain snap si d where snap: "tk_snapshot t = Inr snap" "rs_Config snap = Inr si" and ap: "ApplySnapshot (tk_io t) si ?R = Inr d"
      and out: "(pu_lastVersion p = pu_lastVersion (sy_pull y) \<and> se_db s = d) \<or> (pu_lastVersion p = rs_Version snap \<and> se_db s = with_row ?n (rs_Version snap) d)"
      unfolding applied_def by blast
    obtain rd where src: "source_Snapshot rd ?n (\<lambda>k. at_time ?P es (m k)) = Inr snap" and m: "\<forall>k<7. m k \<le> m (Suc k)"
      using h snap(1) by (auto simp: honest_def)
    have at0: "ConfigVersion ?P \<le> ConfigVersion (at_time ?P es (m 0))"
      using at_time_moved [OF ok(1), of 0 "m 0" es] version_mono by (simp add: at_time_def)
    note new = in_sync_apply [OF ok(1) m src snap(2) ok(2) ap]
    have d: "in_sync (pu_lastVersion (sy_pull y)) ?P' d" "in_sync (row_version ?n ?R) ?P' d" "in_sync (rs_Version snap) ?P' d"
      using new at0 sync source_Snapshot_Inr(1) [OF src] by (auto simp: in_sync_def intro: order_trans)
    have "db_ok d" using ApplySnapshot_steps(2) [OF ap ok(2)] .
    moreover have "row_version ?n d = row_version ?n ?R" using row_version_local [OF ApplySnapshot_local [OF ap]] .
    moreover have "in_sync v ?P' (with_row ?n w d) = in_sync v ?P' d" for v w by (simp add: in_sync_def)
    ultimately show ?thesis using out d mv(2) one by (auto simp: rinv_def)
  qed
qed

lemma rinv_step: "rstep L onApply pol cfg y z \<Longrightarrow> rinv cfg y \<Longrightarrow> rinv cfg z"
proof (induction rule: rstep.induct)
  case (r_write y e)
  have ok: "db_ok (sy_prim y)" using r_write by (simp add: rinv_def)
  note mv = db_exec_moved [OF ok, of e]
  then have "1 \<le> ConfigVersion (db_exec e (sy_prim y))" using version_mono r_write by (fastforce simp: rinv_def)
  then show ?case using r_write mv in_sync_moved unfolding rinv_def by auto
next
  case (r_local op d io now y c h)
  have ok: "db_ok (se_db (sy_rep y))" using r_local by (simp add: rinv_def)
  have "shared_config d = shared_config (se_db (sy_rep y))" using local_shared [OF r_local(1) ok] r_local(2) by simp
  moreover have "db_ok d" using db_exec_moved [OF ok] r_local(2) by simp
  moreover have "row_version (pc_Pinned cfg) d = row_version (pc_Pinned cfg) (se_db (sy_rep y))" using r_local(3) by (simp add: row_version_def)
  ultimately show ?case using r_local(4) by (simp add: rinv_def in_sync_def)
next
  case (r_restart y rd)
  then show ?case using NewPuller_version [of cfg rd "se_db (sy_rep y)"] in_sync_zero by (auto simp: rinv_def)
next
  case (r_tick y es j m t p s)
  then show ?case using rinv_tick by blast
qed

lemma rreach_inv: "rreach L onApply pol cfg y \<Longrightarrow> rinv cfg y"
  by (induction rule: rreach.induct) (auto intro: rinv_start rinv_step)

section \<open>The theorems\<close>

text \<open>
  C2: a replica never takes itself to be up to date when it is not. In every state the pair can reach, through any writes on the primary, in the
  middle of a snapshot too, any failures, restarts and the replica's own local writes: if the version the replica holds is the primary's version,
  its configuration is the primary's.
\<close>

theorem held_version_means_held_configuration:
  assumes "rreach L onApply pol cfg y" and "pu_lastVersion (sy_pull y) = ConfigVersion (sy_prim y)"
  shows "shared_config (se_db (sy_rep y)) = shared_config (sy_prim y)"
  using rreach_inv [OF assms(1)] assms(2) by (simp add: rinv_def in_sync_def)

definition undisturbed :: "puller_cfg \<Rightarrow> db \<Rightarrow> puller \<Rightarrow> tick \<Rightarrow> bool" where
  "undisturbed cfg P p t = ((pu_conn p \<or> tk_dial t = None) \<and> tk_version t = source_Version None (pc_Pinned cfg) P \<and>
     tk_snapshot t = source_Snapshot (\<lambda>_. None) (pc_Pinned cfg) (\<lambda>_. P) \<and> tk_io t = None \<and> tk_rd t = None \<and> tk_sio t = None)"

lemma no_read_error [simp]: "first_read_error (\<lambda>_. None) k n = None"
  by (induction n arbitrary: k) simp_all

lemma source_Snapshot_still:
  assumes "db_ok P" and "Settings P = Some stored"
  shows "source_Snapshot (\<lambda>_. None) n (\<lambda>_. P) =
    Inr \<lparr>rs_Schema = SchemaVersion, rs_Version = ConfigVersion P, rs_NodeID = n, rs_Config = Inr (snapshot_of stored P)\<rparr>"
proof -
  have "Services (db_reg P) = Inr (services_of (db_reg P))" using assms(1) by (simp add: Services_eq services_of_def db_ok_def reg_ok_def)
  then show ?thesis using assms(2) by (simp add: source_Snapshot_def snapshot_of_def)
qed

lemma set_Build_keep_local:
  assumes "set_Build L i stored = Inr snap"
  shows "set_Build L i (keep_local own stored) = Inr (snap\<lparr>ss_Raw := keep_local own stored\<rparr>)"
  using assms by (cases "AllowTailscale stored") (auto simp: set_Build_def keep_local_def with_dhcp_def split: sum.splits)

lemma Apply_succeeds:
  assumes "db_ok P" and "db_ok (se_db s)" and "Settings P = Some stored" and "Settings (se_db s) = Some own"
    and "set_Build L i stored = Inr snap" and "\<forall>d h. fst (pol d h) = None"
  shows "\<exists>s'. replicaApplier_Apply L i None None onApply pol (Inr (snapshot_of stored P)) s = (None, s') \<and> shared_config (se_db s') = shared_config P"
proof -
  obtain d where d: "ApplySnapshot None (snapshot_of stored P) (se_db s) = Inr d" "shared_config d = shared_config P" "Settings d = Some (keep_local own stored)"
    using ApplySnapshot_copies [OF assms(1,2,3)] assms(4) by auto
  have "set_Rebuild L i None (s\<lparr>se_db := d\<rparr>) = (None, s\<lparr>se_db := d, se_cur := Some (snap\<lparr>ss_Raw := keep_local own stored\<rparr>)\<rparr>)"
    using d(3) set_Build_keep_local [OF assms(5)] by (simp add: set_Rebuild_def set_source_def)
  then show ?thesis using d assms(6) by (simp add: replicaApplier_Apply_def Let_def case_prod_beta)
qed

lemma undisturbed_tick:
  assumes reach: "rreach L onApply pol cfg y" and t: "undisturbed cfg (sy_prim y) (sy_pull y) t"
    and st: "Settings (sy_prim y) = Some stored" "Settings (se_db (sy_rep y)) = Some own" "set_Build L (tk_ids t) stored = Inr snap"
    and pol: "\<forall>d h. fst (pol d h) = None" and poll: "poll L onApply pol cfg t (sy_pull y, sy_rep y) = (p, s)"
  shows "pu_lastVersion p = ConfigVersion (sy_prim y) \<and> shared_config (se_db s) = shared_config (sy_prim y) \<and> pu_lastErr p = None \<and>
    pu_backoff p = pc_Interval cfg"
proof -
  let ?P = "sy_prim y" and ?q = "pollHealth (tk_health t) (reachable cfg ((sy_pull y)\<lparr>pu_conn := True\<rparr>))"
  have inv: "db_ok ?P" "db_ok (se_db (sy_rep y))" "in_sync (pu_lastVersion (sy_pull y)) ?P (se_db (sy_rep y))"
    using rreach_inv [OF reach] by (simp_all add: rinv_def)
  have q: "pu_lastVersion ?q = pu_lastVersion (sy_pull y)" "pu_backoff ?q = pc_Interval cfg" by (simp_all add: reachable_def)
  have step: "poll L onApply pol cfg t (sy_pull y, sy_rep y) =
      (if ConfigVersion ?P = pu_lastVersion ?q then (synced (tk_now t) (ConfigVersion ?P) ?q, sy_rep y) else pull L onApply pol cfg t (?q, sy_rep y))"
    using t by (auto simp: poll_def undisturbed_def source_Version_def Let_def)
  show ?thesis
  proof (cases "ConfigVersion ?P = pu_lastVersion ?q")
    case True
    then show ?thesis using step poll inv(3) q by (auto simp: synced_def in_sync_def)
  next
    case False
    obtain s1 where ap: "replicaApplier_Apply L (tk_ids t) None None onApply pol (Inr (snapshot_of stored ?P)) (sy_rep y) = (None, s1)"
      "shared_config (se_db s1) = shared_config ?P" using Apply_succeeds [OF inv(1,2) st pol] by blast
    obtain s2 where row: "set_replica_row None (pc_Pinned cfg) (ConfigVersion ?P) s1 = Inr s2"
      by (auto simp: set_replica_row_def SetReplicaState_def run_tx_def)
    have "pull L onApply pol cfg t (?q, sy_rep y) = (synced (tk_now t) (ConfigVersion ?P) ?q, s2)"
      using t ap(1) row source_Snapshot_still [OF inv(1) st(1), of "pc_Pinned cfg"] by (simp add: pull_def undisturbed_def)
    then show ?thesis using step False poll set_replica_row_Inr [OF row] ap(2) q(2) by (auto simp: synced_def)
  qed
qed

text \<open>
  C22: one undisturbed tick brings a replica up to date. From any state the pair can reach, if the primary is at rest, answers, and has settings that
  build, and the replica's database works, the tick leaves the replica with the primary's version and the primary's configuration, no
  error, and the plain interval to wait.
\<close>

theorem undisturbed_tick_converges:
  assumes reach: "rreach L onApply pol cfg y" and t: "undisturbed cfg (sy_prim y) (sy_pull y) t"
    and st: "Settings (sy_prim y) = Some stored" "Settings (se_db (sy_rep y)) = Some own" "set_Build L (tk_ids t) stored = Inr snap"
    and pol: "\<forall>d h. fst (pol d h) = None" and poll: "poll L onApply pol cfg t (sy_pull y, sy_rep y) = (p, s)"
  shows "pu_lastVersion p = ConfigVersion (sy_prim y) \<and> shared_config (se_db s) = shared_config (sy_prim y) \<and> pu_lastErr p = None \<and>
    pu_backoff p = pc_Interval cfg"
  using undisturbed_tick [OF assms] .


section \<open>The pace\<close>

text \<open>
  The loop never spins and never gives up: the time to the next tick is at least the interval and at most the ceiling, after any number of
  ticks, whatever they met.
\<close>

theorem backoff_stays_bounded:
  assumes "0 < pc_Interval cfg" and "pc_Interval cfg \<le> pc_Ceiling cfg"
  shows "pc_Interval cfg \<le> pu_backoff (fst (fold (poll L onApply pol cfg) ts (NewPuller cfg rd lt, s))) \<and>
    pu_backoff (fst (fold (poll L onApply pol cfg) ts (NewPuller cfg rd lt, s))) \<le> pc_Ceiling cfg"
proof -
  let ?ok = "\<lambda>p. pc_Interval cfg \<le> pu_backoff p \<and> pu_backoff p \<le> pc_Ceiling cfg"
  have pull: "pu_backoff (fst (pull L onApply pol cfg t (p, s))) = pu_backoff p" for t p s
    by (auto simp: pull_def puller_step_defs split: sum.splits prod.splits option.splits)
  have step: "?ok (fst (poll L onApply pol cfg t ps))" if "?ok (fst ps)" for t ps
    using that assms pull by (cases ps) (auto simp: poll_def puller_step_defs Let_def split: option.splits sum.splits)
  have "?ok (fst (fold (poll L onApply pol cfg) ts ps))" if "?ok (fst ps)" for ps
    using that step by (induction ts arbitrary: ps) simp_all
  then show ?thesis using assms by (simp add: NewPuller_def Let_def split: prod.split)
qed

section \<open>Witnesses\<close>

definition pair_cfg :: puller_cfg where
  "pair_cfg = \<lparr>pc_Pinned = ''c0ffee'', pc_Interval = pullInterval, pc_Ceiling = pullCeiling\<rparr>"

definition pair_prim :: db where
  "pair_prim = fold db_exec demo_writes fresh_db"

definition pair_rep :: "unit set_service" where
  "pair_rep = \<lparr>se_db = fold db_exec [(None, 1, DPutSettings (demo_settings\<lparr>DHCPEnabled := True\<rparr>)), (None, 2, DLocal (LFollow ''c0ffee'' 0))] fresh_db, se_cur = None, se_live = ()\<rparr>"

definition pair_pull :: puller where
  "pair_pull = NewPuller pair_cfg None (db_local (se_db pair_rep))"

definition pair_start :: "unit rsys" where
  "pair_start = \<lparr>sy_prim = pair_prim, sy_rep = pair_rep, sy_pull = pair_pull\<rparr>"

definition fine :: "db \<Rightarrow> unit \<Rightarrow> string option \<times> unit" where
  "fine d h = (None, ())"

definition same :: "set_snapshot \<Rightarrow> unit \<Rightarrow> unit" where
  "same snap h = h"

definition pair_tick :: tick where
  "pair_tick = \<lparr>tk_dial = None, tk_version = source_Version None ''c0ffee'' pair_prim, tk_health = Inr [],
     tk_snapshot = source_Snapshot (\<lambda>_. None) ''c0ffee'' (\<lambda>_. pair_prim), tk_io = None, tk_rd = None, tk_sio = None, tk_now = 100, tk_ids = 0\<rparr>"

lemma pair_reach: "rreach home_lib same fine pair_cfg pair_start"
proof (rule r_start)
  have "1 \<le> ConfigVersion pair_prim" "row_version (pc_Pinned pair_cfg) (se_db pair_rep) = 0" by code_simp+
  then show "paired pair_cfg pair_start"
    using history_ok [of demo_writes] history_ok [of "[(None, 1, DPutSettings (demo_settings\<lparr>DHCPEnabled := True\<rparr>)), (None, 2, DLocal (LFollow ''c0ffee'' 0))]"]
    by (auto simp: paired_def pair_start_def pair_pull_def) (simp_all add: pair_prim_def pair_rep_def)
qed

lemma pair_honest: "honest pair_cfg (sy_prim pair_start) [] 0 (\<lambda>_. 0) pair_tick"
  by (auto simp: honest_def pair_tick_def pair_cfg_def pair_start_def at_time_def)

lemma pair_settings:
  "Settings (sy_prim pair_start) = Some demo_settings" "Settings (se_db (sy_rep pair_start)) = Some (demo_settings\<lparr>DHCPEnabled := True\<rparr>)"
  "ConfigVersion (sy_prim pair_start) = 7" "\<exists>snap. set_Build home_lib (tk_ids pair_tick) demo_settings = Inr snap"
proof -
  have "Settings pair_prim = Some demo_settings" "Settings (se_db pair_rep) = Some (demo_settings\<lparr>DHCPEnabled := True\<rparr>)" "ConfigVersion pair_prim = 7"
    "isl (set_Build home_lib 0 demo_settings) = False" by code_simp+
  then show "Settings (sy_prim pair_start) = Some demo_settings" "Settings (se_db (sy_rep pair_start)) = Some (demo_settings\<lparr>DHCPEnabled := True\<rparr>)"
    "ConfigVersion (sy_prim pair_start) = 7" "\<exists>snap. set_Build home_lib (tk_ids pair_tick) demo_settings = Inr snap"
    by (auto simp: pair_start_def pair_tick_def isl_def) (metis sum.exhaust)
qed

lemma pair_undisturbed: "undisturbed pair_cfg (sy_prim pair_start) (sy_pull pair_start) pair_tick"
  by (simp add: undisturbed_def pair_tick_def pair_cfg_def pair_start_def)

lemma pair_fine: "\<forall>d h. fst (fine d h) = None"
  by (simp add: fine_def)

lemma pair_converges:
  "poll home_lib same fine pair_cfg pair_tick (sy_pull pair_start, sy_rep pair_start) = (p, s) \<Longrightarrow> pu_lastVersion p = ConfigVersion (sy_prim pair_start)"
  using undisturbed_tick [OF pair_reach pair_undisturbed pair_settings(1,2) _ pair_fine] pair_settings(4) by blast

theorem held_version_means_held_configuration_witness:
  "shared_config (se_db (snd (poll home_lib same fine pair_cfg pair_tick (pair_pull, pair_rep)))) = shared_config pair_prim"
proof -
  obtain p s where poll: "poll home_lib same fine pair_cfg pair_tick (sy_pull pair_start, sy_rep pair_start) = (p, s)" by (meson surj_pair)
  have v: "pu_lastVersion p = ConfigVersion (sy_prim pair_start)" using pair_converges [OF poll] by simp
  have "rreach home_lib same fine pair_cfg \<lparr>sy_prim = fold db_exec [] (sy_prim pair_start), sy_rep = s, sy_pull = p\<rparr>"
    by (rule r_next [OF pair_reach r_tick [OF pair_honest poll]])
  from held_version_means_held_configuration [OF this] v poll show ?thesis by (simp add: pair_start_def)
qed

theorem undisturbed_tick_converges_witness:
  "pu_lastVersion (fst (poll home_lib same fine pair_cfg pair_tick (pair_pull, pair_rep))) = 7 \<and>
   shared_config (se_db (snd (poll home_lib same fine pair_cfg pair_tick (pair_pull, pair_rep)))) = shared_config pair_prim"
proof -
  obtain p s where poll: "poll home_lib same fine pair_cfg pair_tick (sy_pull pair_start, sy_rep pair_start) = (p, s)" by (meson surj_pair)
  obtain snap where b: "set_Build home_lib (tk_ids pair_tick) demo_settings = Inr snap" using pair_settings(4) by blast
  from undisturbed_tick_converges [OF pair_reach pair_undisturbed pair_settings(1,2) b pair_fine poll] pair_settings(3) poll
  show ?thesis by (simp add: pair_start_def)
qed


theorem backoff_stays_bounded_witness:
  "pu_backoff (fst (fold (poll home_lib same fine pair_cfg) (replicate 9 (pair_tick\<lparr>tk_dial := Some ''down''\<rparr>)) (NewPuller pair_cfg None fresh_local, pair_rep))) \<le> pullCeiling"
proof -
  have "0 < pc_Interval pair_cfg" "pc_Interval pair_cfg \<le> pc_Ceiling pair_cfg" by (simp_all add: pair_cfg_def pullInterval_def pullCeiling_def)
  note b = backoff_stays_bounded [OF this]
  have "pc_Ceiling pair_cfg = pullCeiling" by (simp add: pair_cfg_def)
  then show ?thesis using b by metis
qed

end
