(* ===== verification/ReplicaPairing.thy ===== *)
theory ReplicaPairing
  imports Replica
begin

text \<open>
  Who may follow whom. A peer that was never paired is refused everything but the pairing route, a code admits one peer and only while it is valid, a node
  pins the key its operator confirmed and no other, and a promotion that crashes half way still comes back a primary.
\<close>

section \<open>The pinned set\<close>

definition peer_ids :: "rserver \<Rightarrow> string set" where
  "peer_ids sv = pe_NodeID ` set (lt_peers (db_local (rv_db sv)))"

definition is_peer :: "rrequest \<Rightarrow> rserver \<Rightarrow> bool" where
  "is_peer rq sv = (case rq_Peer rq of None \<Rightarrow> False | Some fp \<Rightarrow> fp \<in> peer_ids sv)"

lemma Peer_Inr: "(\<exists>p. Peer n t = Inr p) \<longleftrightarrow> n \<in> pe_NodeID ` set (lt_peers t)"
  by (auto simp: Peer_def find_Some_iff find_None_iff split: option.splits)

lemma stranger_refused:
  assumes "rq_Path rq \<noteq> ''/replica/pair''" and "\<not> is_peer rq sv"
  shows "pinnedExcept ev rq sv = (RForbidden, sv)"
proof (cases "rq_Peer rq")
  case (Some fp)
  then have "fp \<notin> pe_NodeID ` set (lt_peers (db_local (rv_db sv)))" using assms(2) by (simp add: is_peer_def peer_ids_def)
  then have "\<exists>e. Peer fp (db_local (rv_db sv)) = Inl e" using Peer_Inr [of fp] by (metis sum.exhaust)
  then show ?thesis using assms(1) Some by (auto simp: pinnedExcept_def unpinnedPaths_def)
qed (use assms(1) in \<open>simp add: pinnedExcept_def unpinnedPaths_def\<close>)

lemma update_peers_ids: "(\<And>p. pe_NodeID (f p) = pe_NodeID p) \<Longrightarrow> pe_NodeID ` set (lt_peers (update_peers n f t)) = pe_NodeID ` set (lt_peers t)"
proof -
  assume "\<And>p. pe_NodeID (f p) = pe_NodeID p"
  then have "(\<lambda>x. pe_NodeID (if pe_NodeID x = n then f x else x)) = pe_NodeID" by auto
  then have "map pe_NodeID (lt_peers (update_peers n f t)) = map pe_NodeID (lt_peers t)" by (simp add: update_peers_def comp_def)
  then show ?thesis by (metis list.set_map)
qed

lemma TouchPeer_ids: "TouchPeer io n at v t = Inr t' \<Longrightarrow> pe_NodeID ` set (lt_peers t') = pe_NodeID ` set (lt_peers t)"
  by (simp add: TouchPeer_def run_tx_Inr update_peers_ids split: if_splits) (erule conjE, drule sym, simp add: update_peers_ids)

lemma PairPeer_ids: "PairPeer io p t = Inr t' \<Longrightarrow> pe_NodeID ` set (lt_peers t') = insert (pe_NodeID p) (pe_NodeID ` set (lt_peers t))"
  by (simp add: PairPeer_def run_tx_Inr insert_absorb split: if_splits) (erule conjE, drule sym, simp add: update_peers_ids)+

lemma rv_write_ids: "peer_ids (snd (rv_write ev rq body sv)) = peer_ids sv" "rv_book (snd (rv_write ev rq body sv)) = rv_book sv"
  by (auto simp: rv_write_def peer_ids_def split: option.splits sum.splits dest: TouchPeer_ids)

section \<open>Codes\<close>

lemma Redeem_shrinks: "fst (Redeem now code b) \<Longrightarrow> length (ib_out (snd (Redeem now code b))) < length (ib_out b)"
proof -
  let ?v = "filter (\<lambda>ce. \<not> snd ce < now) (ib_out b)" and ?c = "ToUpper (TrimSpace code)"
  assume "fst (Redeem now code b)"
  then obtain ce where "ce \<in> set ?v" "fst ce = ?c" by (auto simp: Redeem_def Let_def)
  then have "length (filter (\<lambda>ce. fst ce \<noteq> ?c) ?v) < length ?v" by (intro length_filter_less) auto
  also have "length ?v \<le> length (ib_out b)" by (rule length_filter_le)
  finally show ?thesis by (simp add: Redeem_def Let_def)
qed

lemma Redeem_le: "length (ib_out (snd (Redeem now code b))) \<le> length (ib_out b)"
  by (simp add: Redeem_def Let_def)

lemma Redeem_valid: "fst (Redeem now code b) \<longleftrightarrow> (\<exists>e. (ToUpper (TrimSpace code), e) \<in> set (ib_out b) \<and> now \<le> e)"
  by (auto simp: Redeem_def Let_def image_iff)

lemma handlePair_cases:
  "(peer_ids (snd (handlePair ev rq sv)) = peer_ids sv \<and> length (ib_out (rv_book (snd (handlePair ev rq sv)))) \<le> length (ib_out (rv_book sv))) \<or>
   (\<exists>fp code. rq_Peer rq = Some fp \<and> rq_Code rq = Some code \<and> fst (Redeem (rn_now ev) code (rv_book sv)) \<and>
      peer_ids (snd (handlePair ev rq sv)) = insert fp (peer_ids sv) \<and>
      length (ib_out (rv_book (snd (handlePair ev rq sv)))) < length (ib_out (rv_book sv)))"
proof (cases "rq_Peer rq")
  case (Some fp)
  show ?thesis
  proof (cases "rq_Code rq")
    case code: (Some code)
    obtain ok book where r: "Redeem (rn_now ev) code (rv_book sv) = (ok, book)" by (meson surj_pair)
    have le: "length (ib_out book) \<le> length (ib_out (rv_book sv))" using Redeem_le [of "rn_now ev" code "rv_book sv"] r by simp
    have lt: "ok \<Longrightarrow> length (ib_out book) < length (ib_out (rv_book sv))" using Redeem_shrinks [of "rn_now ev" code "rv_book sv"] r by simp
    let ?p = "\<lparr>pe_NodeID = fp, pe_Label = take 12 fp, pe_Address = [], pe_PairedAt = rn_unix ev, pe_LastSyncAt = 0, pe_LastVersion = 0\<rparr>"
    show ?thesis
    proof (cases "PairPeer (rn_io ev) ?p (db_local (rv_db sv))")
      case (Inl e)
      then show ?thesis using Some code r le by (simp add: handlePair_def peer_ids_def Let_def)
    next
      case (Inr t)
      then have "pe_NodeID ` set (lt_peers t) = insert fp (peer_ids sv)" by (drule_tac PairPeer_ids) (simp add: peer_ids_def)
      then show ?thesis using Inr Some code r le lt by (cases ok) (simp_all add: handlePair_def peer_ids_def Let_def)
    qed
  qed (simp add: handlePair_def Some)
qed (simp add: handlePair_def)

section \<open>Requests\<close>

datatype rv_event = SRequest rsenv rrequest | SMint "string option" int

fun rv_run :: "rv_event \<Rightarrow> rserver \<Rightarrow> rserver" where
  "rv_run (SRequest ev rq) sv = snd (pinnedExcept ev rq sv)"
| "rv_run (SMint code now) sv = sv\<lparr>rv_book := snd (Mint code now (rv_book sv))\<rparr>"

fun minted :: "rv_event \<Rightarrow> nat" where
  "minted (SMint code now) = 1"
| "minted _ = 0"

definition admitted_since :: "string set \<Rightarrow> rserver \<Rightarrow> nat" where
  "admitted_since A sv = card (peer_ids sv - A)"

lemma finite_peer_ids [simp]: "finite (peer_ids sv)"
  by (simp add: peer_ids_def)

lemma mux_cases:
  "snd (mux ev rq sv) = snd (handlePair ev rq sv) \<or>
   (peer_ids (snd (mux ev rq sv)) = peer_ids sv \<and> rv_book (snd (mux ev rq sv)) = rv_book sv)"
  by (auto simp: mux_def Let_def handleVersion_def handleSnapshot_def handleHealthStatus_def rv_write_ids split: sum.splits)

lemma pinnedExcept_cases: "snd (pinnedExcept ev rq sv) = sv \<or> pinnedExcept ev rq sv = mux ev rq sv"
  by (auto simp: pinnedExcept_def split: option.splits sum.splits)

lemma request_budget:
  "admitted_since A (snd (pinnedExcept ev rq sv)) + length (ib_out (rv_book (snd (pinnedExcept ev rq sv)))) \<le>
   admitted_since A sv + length (ib_out (rv_book sv))"
proof -
  have pair: "admitted_since A (snd (handlePair ev rq sv)) + length (ib_out (rv_book (snd (handlePair ev rq sv)))) \<le>
      admitted_since A sv + length (ib_out (rv_book sv))"
    using handlePair_cases [of ev rq sv]
  proof
    assume "\<exists>fp code. rq_Peer rq = Some fp \<and> rq_Code rq = Some code \<and> fst (Redeem (rn_now ev) code (rv_book sv)) \<and>
      peer_ids (snd (handlePair ev rq sv)) = insert fp (peer_ids sv) \<and>
      length (ib_out (rv_book (snd (handlePair ev rq sv)))) < length (ib_out (rv_book sv))"
    then obtain fp where fp: "peer_ids (snd (handlePair ev rq sv)) = insert fp (peer_ids sv)"
      "length (ib_out (rv_book (snd (handlePair ev rq sv)))) < length (ib_out (rv_book sv))" by blast
    have "card (insert fp (peer_ids sv) - A) \<le> Suc (card (peer_ids sv - A))"
      by (cases "fp \<in> A") (simp_all add: insert_Diff_if card_insert_if)
    then show ?thesis using fp by (simp add: admitted_since_def)
  qed (simp add: admitted_since_def)
  show ?thesis using pinnedExcept_cases [of ev rq sv] mux_cases [of ev rq sv] pair by (auto simp: admitted_since_def)
qed

lemma Mint_budget: "length (ib_out (snd (Mint code now b))) \<le> Suc (length (ib_out b))"
  by (auto simp: Mint_def m_put_def m_del_def Let_def split: option.splits)

lemma run_budget:
  "admitted_since A (fold rv_run evs sv) + length (ib_out (rv_book (fold rv_run evs sv))) \<le>
   admitted_since A sv + length (ib_out (rv_book sv)) + sum_list (map minted evs)"
proof (induction evs arbitrary: sv)
  case (Cons e evs)
  have "admitted_since A (rv_run e sv) + length (ib_out (rv_book (rv_run e sv))) \<le> admitted_since A sv + length (ib_out (rv_book sv)) + minted e"
    using request_budget [of A] Mint_budget by (cases e) (auto simp: admitted_since_def peer_ids_def)
  then show ?case using Cons [of "rv_run e sv"] by simp
qed simp

text \<open>
  C27: a stranger gets in only with a code, and a code admits one. Outside the pairing route an unpaired peer, or one without a key, is refused and leaves no
  trace, whatever it asks for; and over any run of requests and freshly minted codes, the peers that were admitted are no more than the codes that were
  outstanding or were minted.
\<close>

theorem strangers_need_a_code:
  "(rq_Path rq \<noteq> ''/replica/pair'' \<longrightarrow> \<not> is_peer rq sv \<longrightarrow> pinnedExcept ev rq sv = (RForbidden, sv)) \<and>
   card (peer_ids (fold rv_run evs sv) - peer_ids sv) \<le> length (ib_out (rv_book sv)) + sum_list (map minted evs)"
  using stranger_refused [of rq sv ev] run_budget [of "peer_ids sv" evs sv] by (simp add: admitted_since_def)

definition demo_server :: rserver where
  "demo_server = \<lparr>rv_NodeID = ''c0ffee'', rv_db = fresh_db, rv_book = \<lparr>ib_ttl = inviteTTL, ib_out = [(''ABC'', 100)]\<rparr>\<rparr>"

definition demo_env :: "int \<Rightarrow> rsenv" where
  "demo_env now = \<lparr>rn_rd = (\<lambda>_. None), rn_at = (\<lambda>_. fresh_db), rn_io = None, rn_now = now, rn_unix = now, rn_health = None\<rparr>"

definition pair_with :: "string \<Rightarrow> string \<Rightarrow> rrequest" where
  "pair_with fp code = \<lparr>rq_Path = ''/replica/pair'', rq_Method = ''POST'', rq_Peer = Some fp, rq_Version = [], rq_Code = Some code\<rparr>"

theorem strangers_need_a_code_witness:
  "fst (pinnedExcept (demo_env 5) \<lparr>rq_Path = ''/replica/snapshot'', rq_Method = ''GET'', rq_Peer = Some ''f00d'', rq_Version = [], rq_Code = None\<rparr> demo_server) = RForbidden \<and>
   card (peer_ids (fold rv_run [SRequest (demo_env 5) (pair_with ''f00d'' '' abc ''), SRequest (demo_env 6) (pair_with ''beef'' ''ABC'')] demo_server) - peer_ids demo_server) \<le> 1"
proof -
  let ?rq = "\<lparr>rq_Path = ''/replica/snapshot'', rq_Method = ''GET'', rq_Peer = Some ''f00d'', rq_Version = [], rq_Code = None\<rparr>"
  have "\<not> is_peer ?rq demo_server" by (simp add: is_peer_def peer_ids_def demo_server_def fresh_db_def fresh_local_def)
  then have "pinnedExcept (demo_env 5) ?rq demo_server = (RForbidden, demo_server)"
    using strangers_need_a_code [of ?rq demo_server "demo_env 5" "[]"] by simp
  moreover have "length (ib_out (rv_book demo_server)) = 1" by (simp add: demo_server_def)
  ultimately show ?thesis
    using strangers_need_a_code [of ?rq demo_server "demo_env 5" "[SRequest (demo_env 5) (pair_with ''f00d'' '' abc ''), SRequest (demo_env 6) (pair_with ''beef'' ''ABC'')]"]
    by (simp del: fold_simps)
qed

lemma demo_pairing: "peer_ids (fold rv_run [SRequest (demo_env 5) (pair_with ''f00d'' '' abc ''), SRequest (demo_env 6) (pair_with ''beef'' ''ABC'')] demo_server) = {''f00d''}"
  by code_simp

section \<open>Joining\<close>

text \<open>
  Joining pins the key the operator confirmed. Either it fails and the node's own state is as it was, or the node follows exactly that key, from
  nothing, and is no longer promoted, and that key is the one the address presented before the code was sent, the one the code was sent under, and the one
  that answered.
\<close>

theorem join_pins_the_confirmed_key:
  "case replicaJoiner_Join peek post io address code fingerprint t of
     (Inl e, t') \<Rightarrow> t' = t
   | (Inr fp, t') \<Rightarrow> fp = fingerprint \<and> ReplicaState t' = (fingerprint, 0) \<and> Promotion t' = 0 \<and>
       (\<exists>a. peerAddress address = Some a \<and> peek a = Inr fingerprint \<and> post a fingerprint code = Inr fingerprint)"
  by (auto simp: replicaJoiner_Join_def PairAsReplica_def FollowPrimary_def run_tx_def ReplicaState_def Promotion_def
      split: option.splits sum.splits)

section \<open>Promotion\<close>

text \<open>The states a crash can leave behind, in the order \<open>Promote\<close> goes through them.\<close>

definition promote_trace :: "string option \<Rightarrow> string option \<Rightarrow> int \<Rightarrow> (role \<Rightarrow> 'h \<Rightarrow> 'h) \<Rightarrow> 'h rnode \<Rightarrow> 'h rnode list" where
  "promote_trace io1 io2 now onPromote n =
     (if no_role n \<noteq> RoleReplica then [n]
      else case RecordPromotion io1 now (no_local n) of
        Inl e \<Rightarrow> [n]
      | Inr t1 \<Rightarrow>
         (let n1 = n\<lparr>no_local := t1\<rparr>; n2 = n1\<lparr>no_pulling := False\<rparr>
          in case SetReplicaState io2 [] 0 t1 of
               Inl e \<Rightarrow> [n, n1, n2]
             | Inr t3 \<Rightarrow>
                (let n3 = n2\<lparr>no_local := t3\<rparr>; n4 = n3\<lparr>no_role := RolePrimary\<rparr>
                 in [n, n1, n2, n3, n4, n4\<lparr>no_dhcp := onPromote RolePrimary (no_dhcp n4)\<rparr>])))"

lemma promote_trace_ends: "last (promote_trace io1 io2 now onPromote n) = snd (Promote io1 io2 now onPromote n)"
  by (auto simp: promote_trace_def Promote_def Let_def split: sum.splits)

definition boots_pulling :: "string \<Rightarrow> string \<Rightarrow> ltables \<Rightarrow> bool" where
  "boots_pulling listen primary t =
     (case startReplication listen primary (RoleAtBoot listen primary (Promotion t \<noteq> 0)) None None None None t of
        ReplPulling cfg p \<Rightarrow> True
      | _ \<Rightarrow> False)"

text \<open>
  C28: a promotion survives a crash at any point. At every moment of it, either nothing has happened yet, or the node comes back as something
  other than a replica and follows no one, whatever its configuration file says; the role changes only after the pull loop has
  stopped; and when it reports success the node is a primary that pulls from nobody.
\<close>

theorem promotion_survives_a_crash:
  assumes "0 < now" and "no_role n = RoleReplica" and m: "m \<in> set (promote_trace io1 io2 now onPromote n)"
  shows "(m = n \<or> (RoleAtBoot listen primary (Promotion (no_local m) \<noteq> 0) \<noteq> RoleReplica \<and> \<not> boots_pulling listen primary (no_local m))) \<and>
    (no_role m = RolePrimary \<longrightarrow> \<not> no_pulling m) \<and>
    (fst (Promote io1 io2 now onPromote n) = Inr True \<longrightarrow>
       no_role (snd (Promote io1 io2 now onPromote n)) = RolePrimary \<and> \<not> no_pulling (snd (Promote io1 io2 now onPromote n)))"
proof -
  have boot: "RoleAtBoot listen primary True \<noteq> RoleReplica" by (simp add: RoleAtBoot_def Let_def)
  have nb: "\<not> boots_pulling listen primary t" if "Promotion t \<noteq> 0" for t
    using that boot by (auto simp: boots_pulling_def startReplication_def split: if_splits)
  have "m = n \<or> (Promotion (no_local m) \<noteq> 0 \<and> (no_role m = RolePrimary \<longrightarrow> \<not> no_pulling m))"
    using assms
    by (auto simp: promote_trace_def RecordPromotion_def SetReplicaState_def run_tx_def Promotion_def Let_def split: option.splits sum.splits if_splits)
  moreover have "fst (Promote io1 io2 now onPromote n) = Inr True \<Longrightarrow>
       no_role (snd (Promote io1 io2 now onPromote n)) = RolePrimary \<and> \<not> no_pulling (snd (Promote io1 io2 now onPromote n))"
    using assms(2) by (auto simp: Promote_def Let_def split: sum.splits)
  ultimately show ?thesis using boot nb assms(2) by auto
qed

definition follower :: "nat rnode" where
  "follower = \<lparr>no_local = fresh_local\<lparr>lt_replica := Some (''c0ffee'', 7)\<rparr>, no_role = RoleReplica, no_pulling = True, no_dhcp = 0\<rparr>"

theorem promotion_survives_a_crash_witness:
  "\<not> boots_pulling [] ''10.0.0.1:53530'' (no_local (promote_trace None (Some ''disk full'') 9 (\<lambda>_ n. n + 1) follower ! 1)) \<and>
   boots_pulling [] ''10.0.0.1:53530'' (no_local follower)"
proof -
  let ?tr = "promote_trace None (Some ''disk full'') 9 (\<lambda>_ n. n + 1) follower"
  have "?tr ! 1 \<in> set ?tr" "?tr ! 1 \<noteq> follower"
    by (simp_all add: promote_trace_def follower_def RecordPromotion_def SetReplicaState_def run_tx_def Let_def fresh_local_def)
  then have "\<not> boots_pulling [] ''10.0.0.1:53530'' (no_local (?tr ! 1))"
    using promotion_survives_a_crash [of 9 follower "?tr ! 1" None "Some ''disk full''" "\<lambda>_ n. n + 1" "[]" "''10.0.0.1:53530''"] by (simp add: follower_def)
  moreover have "boots_pulling [] ''10.0.0.1:53530'' (no_local follower)" by code_simp
  ultimately show ?thesis by blast
qed

end
