(* ===== verification/Zone.thy ===== *)
theory Zone
  imports StoreModel Netip "HOL-Library.Product_Lexorder"
begin

text \<open>
  Package \<^verbatim>\<open>internal/zone\<close>: the view matcher (\<^verbatim>\<open>matcher.go\<close>), the per-view snapshot the DNS
  path reads (\<^verbatim>\<open>snapshot.go\<close>) and the holder that publishes it (\<^verbatim>\<open>holder.go\<close>).

  Log lines are not part of the model, and neither are the two maps \<^verbatim>\<open>buildIndex\<close> keeps only to
  decide whether to warn.
\<close>

section \<open>Matcher\<close>

datatype zone_error =
    BadCIDR string string
  | ClaimedTwice netprefix string string
  | CNAMEConflict string
  | InView string zone_error
  | SourceFailed

record entry =
  entry_prefix :: netprefix
  entry_view :: string

record matcher =
  entries :: "entry list"
  names :: "string list"

fun add_subnets ::
  "string \<Rightarrow> string list \<Rightarrow> (netprefix, string) gomap \<times> entry list
   \<Rightarrow> (zone_error, (netprefix, string) gomap \<times> entry list) result" where
  "add_subnets vn [] st = Inr st"
| "add_subnets vn (c # cs) (claimed, es) =
     (case ParsePrefix c of
        None \<Rightarrow> Inl (BadCIDR vn c)
      | Some p \<Rightarrow>
          let p = Masked p
          in case m_get claimed p of
               Some other \<Rightarrow> Inl (ClaimedTwice p other vn)
             | None \<Rightarrow> add_subnets vn cs
                 (m_put p vn claimed, es @ [\<lparr>entry_prefix = p, entry_view = vn\<rparr>]))"

fun add_views ::
  "view list \<Rightarrow> (netprefix, string) gomap \<times> entry list
   \<Rightarrow> (zone_error, (netprefix, string) gomap \<times> entry list) result" where
  "add_views [] st = Inr st"
| "add_views (v # vs) st =
     (case add_subnets (view_Name v) (view_Subnets v) st of
        Inl e \<Rightarrow> Inl e
      | Inr st' \<Rightarrow> add_views vs st')"

text \<open>The sort order of the entries: more bits first, then the view name.\<close>

definition entry_key :: "entry \<Rightarrow> int \<times> string" where
  "entry_key e = (- int (pbits (entry_prefix e)), entry_view e)"

definition NewMatcher :: "view list \<Rightarrow> (zone_error, matcher) result" where
  "NewMatcher views =
     (case add_views views ([], []) of
        Inl e \<Rightarrow> Inl e
      | Inr (_, es) \<Rightarrow> Inr \<lparr>entries = sort_key entry_key es, names = sort (map view_Name views)\<rparr>)"

definition Match :: "matcher \<Rightarrow> addr \<Rightarrow> string" where
  "Match m a =
     (if \<not> addr_valid a then []
      else (case find (\<lambda>e. Contains (entry_prefix e) (Unmap a)) (entries m) of
          None \<Rightarrow> []
        | Some e \<Rightarrow> entry_view e))"

section \<open>Snapshot\<close>

record zrr =
  zrr_Name :: string
  zrr_Type :: string
  zrr_Value :: string

record index =
  Forward :: "(string, zrr list) gomap"
  Reverse :: "(string, string) gomap"

record zlease =
  zl_Hostname :: string
  zl_Address :: string

record zinput =
  in_Views :: "view list"
  in_Services :: "service list"
  in_Records :: "record_row list"
  in_Leases :: "zlease list"
  in_Zone :: string
  in_ReverseZones :: "netprefix list"
  in_Generation :: "32 word"

record snapshot =
  snap_Generation :: "32 word"
  snap_Matcher :: matcher
  snap_Views :: "(string, index) gomap"
  snap_Zone :: string
  snap_ReverseZones :: "netprefix list"

definition addrType :: "string \<Rightarrow> string" where
  "addrType s = (case ParseAddr s of Some a \<Rightarrow> if is4 a then ''A'' else ''AAAA'' | None \<Rightarrow> ''AAAA'')"

definition qualify :: "string \<Rightarrow> string \<Rightarrow> string" where
  "qualify name zone =
     (let n = ToLower (TrimSuffix name ''.'')
      in if HasSuffix (n @ ''.'') zone then n @ ''.'' else n @ ''.'' @ zone)"

definition inZones :: "addr \<Rightarrow> netprefix list \<Rightarrow> bool" where
  "inZones a zones = list_ex (\<lambda>z. Contains z a) zones"

definition arpaName :: "addr \<Rightarrow> string" where
  "arpaName a =
     (case Unmap a of
        Addr4 w \<Rightarrow> Join (map show_dec (rev (octets w))) ''.'' @ ''.in-addr.arpa.''
      | Addr6 w _ \<Rightarrow> concat (map (\<lambda>d. [hex_char d, CHR ''.'']) (rev (nibbles w))) @ ''ip6.arpa.''
      | AddrZero \<Rightarrow> concat (replicate 32 ''0.'') @ ''ip6.arpa.'')"

definition pick :: "string \<Rightarrow> ('a \<Rightarrow> string) \<Rightarrow> 'a list \<Rightarrow> 'a list" where
  "pick view tagOf all =
     (let tagged = filter (\<lambda>v. view \<noteq> [] \<and> tagOf v = view) all;
          untagged = filter (\<lambda>v. \<not> (view \<noteq> [] \<and> tagOf v = view) \<and> tagOf v = []) all
      in if tagged \<noteq> [] then tagged else untagged)"

definition put_reverse :: "netprefix list \<Rightarrow> string \<Rightarrow> string \<Rightarrow> index \<Rightarrow> index" where
  "put_reverse zones name s idx =
     (case ParseAddr s of
        None \<Rightarrow> idx
      | Some a \<Rightarrow> if inZones a zones then idx\<lparr>Reverse := m_put (arpaName a) name (Reverse idx)\<rparr> else idx)"

definition lease_layer :: "netprefix list \<Rightarrow> string \<Rightarrow> zlease \<Rightarrow> index \<Rightarrow> index" where
  "lease_layer zones zone l idx =
     (let name = qualify (zl_Hostname l) zone;
          rr = \<lparr>zrr_Name = name, zrr_Type = addrType (zl_Address l), zrr_Value = zl_Address l\<rparr>
      in put_reverse zones name (zl_Address l) (idx\<lparr>Forward := m_put name [rr] (Forward idx)\<rparr>))"

definition svc_answer :: "service \<Rightarrow> address list \<Rightarrow> string list" where
  "svc_answer svc addrs =
     (if svc_RouteViaProxy svc \<and> svc_ProxyAddress svc \<noteq> [] then [svc_ProxyAddress svc]
      else map addr_Address addrs)"

definition svc_layer :: "string \<Rightarrow> netprefix list \<Rightarrow> string \<Rightarrow> service \<Rightarrow> index \<Rightarrow> index" where
  "svc_layer view zones zone svc idx =
     (let addrs = pick view addr_View (svc_Addresses svc)
      in if addrs = [] then idx
         else let primary = qualify (svc_Name svc) zone;
                  answer = svc_answer svc addrs;
                  ns = primary # map (\<lambda>al. qualify al zone) (svc_Aliases svc);
                  idx' = fold (\<lambda>n ix. ix\<lparr>Forward :=
                            m_put n (map (\<lambda>a. \<lparr>zrr_Name = n, zrr_Type = addrType a, zrr_Value = a\<rparr>) answer)
                              (Forward ix)\<rparr>) ns idx
              in fold (\<lambda>a ix. put_reverse zones primary (addr_Address a) ix) addrs idx')"

text \<open>The set of names a manual record has claimed is the second component of the state.\<close>

definition rec_layer :: "record_row \<Rightarrow> index \<times> string list \<Rightarrow> index \<times> string list" where
  "rec_layer r st =
     (let (idx, claimed) = st;
          name = ToLower (rec_Name r)
      in if rec_Type r = ''PTR'' then
           (idx\<lparr>Reverse := m_put name (ToLower (rec_Value r)) (Reverse idx)\<rparr>, claimed)
         else let rr = \<lparr>zrr_Name = name, zrr_Type = rec_Type r, zrr_Value = ToLower (rec_Value r)\<rparr>
         in if name \<notin> set claimed
            then (idx\<lparr>Forward := m_put name [rr] (Forward idx)\<rparr>, name # claimed)
            else (idx\<lparr>Forward :=
                    m_put name ((case m_get (Forward idx) name of None \<Rightarrow> [] | Some rrs \<Rightarrow> rrs) @ [rr])
                      (Forward idx)\<rparr>, claimed))"

definition cname_conflict :: "zrr list \<Rightarrow> bool" where
  "cname_conflict rrs =
     (list_ex (\<lambda>rr. zrr_Type rr = ''CNAME'') rrs \<and>
      (list_ex (\<lambda>rr. zrr_Type rr \<noteq> ''CNAME'') rrs \<or> length rrs > 1))"

definition buildIndex :: "zinput \<Rightarrow> string \<Rightarrow> string \<Rightarrow> (zone_error, index) result" where
  "buildIndex inp view zone =
     (let idx0 = \<lparr>Forward = [], Reverse = []\<rparr>;
          idx1 = fold (lease_layer (in_ReverseZones inp) zone) (in_Leases inp) idx0;
          idx2 = fold (svc_layer view (in_ReverseZones inp) zone) (in_Services inp) idx1;
          (idx3, _) = fold rec_layer (pick view rec_View (in_Records inp)) (idx2, [])
      in case find (\<lambda>e. cname_conflict (snd e)) (Forward idx3) of
           Some e \<Rightarrow> Inl (CNAMEConflict (fst e))
         | None \<Rightarrow> Inr idx3)"

fun build_views ::
  "zinput \<Rightarrow> string \<Rightarrow> string list \<Rightarrow> (string, index) gomap \<Rightarrow> (zone_error, (string, index) gomap) result"
where
  "build_views inp zone [] acc = Inr acc"
| "build_views inp zone (v # vs) acc =
     (case buildIndex inp v zone of
        Inl e \<Rightarrow> Inl (InView v e)
      | Inr idx \<Rightarrow> build_views inp zone vs (m_put v idx acc))"

definition Build :: "zinput \<Rightarrow> (zone_error, snapshot) result" where
  "Build inp =
     (case NewMatcher (in_Views inp) of
        Inl e \<Rightarrow> Inl e
      | Inr m \<Rightarrow>
          (case build_views inp (ToLower (in_Zone inp)) ([] # names m) [] of
             Inl e \<Rightarrow> Inl e
           | Inr vs \<Rightarrow> Inr \<lparr>snap_Generation = in_Generation inp, snap_Matcher = m, snap_Views = vs,
                            snap_Zone = ToLower (in_Zone inp), snap_ReverseZones = in_ReverseZones inp\<rparr>))"

text \<open>
  A lookup in a view that does not exist uses the default view \<open>[]\<close>; every snapshot
  \<open>Build\<close> returns has that view, so the last branch (a nil dereference in the code) is never taken.
\<close>

definition index_of :: "snapshot \<Rightarrow> string \<Rightarrow> index" where
  "index_of s view =
     (case m_get (snap_Views s) view of
        Some idx \<Rightarrow> idx
      | None \<Rightarrow> (case m_get (snap_Views s) [] of Some idx \<Rightarrow> idx | None \<Rightarrow> \<lparr>Forward = [], Reverse = []\<rparr>))"

definition Lookup :: "snapshot \<Rightarrow> string \<Rightarrow> string \<Rightarrow> zrr list" where
  "Lookup s view name =
     (case m_get (Forward (index_of s view)) (ToLower name) of None \<Rightarrow> [] | Some rrs \<Rightarrow> rrs)"

definition LookupPTR :: "snapshot \<Rightarrow> string \<Rightarrow> string \<Rightarrow> string" where
  "LookupPTR s view arpa =
     (case m_get (Reverse (index_of s view)) (ToLower arpa) of None \<Rightarrow> [] | Some n \<Rightarrow> n)"

definition HasName :: "snapshot \<Rightarrow> string \<Rightarrow> string \<Rightarrow> bool" where
  "HasName s view name = (length (Lookup s view name) > 0)"

section \<open>Holder\<close>

record zholder =
  zh_cur :: "snapshot option"
  zh_gen :: "32 word"

definition NewHolder :: zholder where
  "NewHolder = \<lparr>zh_cur = None, zh_gen = 0\<rparr>"

definition Rebuild :: "(zone_error, zinput) result \<Rightarrow> zholder \<Rightarrow> zone_error option \<times> zholder" where
  "Rebuild src h =
     (case src of
        Inl e \<Rightarrow> (Some e, h)
      | Inr inp \<Rightarrow>
          let g = zh_gen h + 1; h' = h\<lparr>zh_gen := g\<rparr>
          in case Build (inp\<lparr>in_Generation := g\<rparr>) of
               Inl e \<Rightarrow> (Some e, h')
             | Inr snap \<Rightarrow> (None, h'\<lparr>zh_cur := Some snap\<rparr>))"

definition Current :: "zholder \<Rightarrow> snapshot option" where
  "Current h = zh_cur h"

definition Generation :: "zholder \<Rightarrow> 32 word" where
  "Generation h = zh_gen h"


section \<open>The matcher returns the most specific view\<close>

lemma add_subnets_entries:
  assumes "add_subnets vn cs (claimed, es) = Inr (claimed', es')"
  shows "es' = es @ map (\<lambda>c. \<lparr>entry_prefix = Masked (the (ParsePrefix c)), entry_view = vn\<rparr>) cs
    \<and> (\<forall>c \<in> set cs. ParsePrefix c \<noteq> None)"
  using assms
  by (induction vn cs "(claimed, es)" arbitrary: claimed es rule: add_subnets.induct)
     (auto simp: Let_def split: option.splits)

lemma add_subnets_claimed:
  assumes "add_subnets vn cs (claimed, es) = Inr (claimed', es')"
    and "distinct (map entry_prefix es)"
    and "\<And>p. m_get claimed p \<noteq> None \<longleftrightarrow> p \<in> entry_prefix ` set es"
  shows "distinct (map entry_prefix es') \<and> (\<forall>p. m_get claimed' p \<noteq> None \<longleftrightarrow> p \<in> entry_prefix ` set es')"
  using assms
proof (induction vn cs "(claimed, es)" arbitrary: claimed es rule: add_subnets.induct)
  case (1 vn)
  then show ?case by auto
next
  case (2 vn c cs claimed es)
  from "2.prems"(1) obtain p where p: "ParsePrefix c = Some p" "m_get claimed (Masked p) = None"
    by (auto simp: Let_def split: option.splits)
  have new: "Masked p \<notin> entry_prefix ` set es" using "2.prems"(3) [of "Masked p"] p(2) by simp
  show ?case
  proof (rule "2.hyps")
    show "add_subnets vn cs (m_put (Masked p) vn claimed, es @ [\<lparr>entry_prefix = Masked p, entry_view = vn\<rparr>])
        = Inr (claimed', es')"
      using "2.prems"(1) p by (simp add: Let_def)
    show "distinct (map entry_prefix (es @ [\<lparr>entry_prefix = Masked p, entry_view = vn\<rparr>]))"
      using "2.prems"(2) new by simp
  qed (use "2.prems"(3) p in \<open>auto simp del: not_None_eq\<close>)
qed

definition view_entries :: "view list \<Rightarrow> entry list" where
  "view_entries vs = concat (map (\<lambda>v. map (\<lambda>c. \<lparr>entry_prefix = Masked (the (ParsePrefix c)),
     entry_view = view_Name v\<rparr>) (view_Subnets v)) vs)"

lemma add_views_entries:
  assumes "add_views vs (claimed, es) = Inr (claimed', es')"
    and "distinct (map entry_prefix es)"
    and "\<And>p. m_get claimed p \<noteq> None \<longleftrightarrow> p \<in> entry_prefix ` set es"
  shows "es' = es @ view_entries vs \<and> distinct (map entry_prefix es')
    \<and> (\<forall>v \<in> set vs. \<forall>c \<in> set (view_Subnets v). ParsePrefix c \<noteq> None)"
  using assms
proof (induction vs arbitrary: claimed es)
  case Nil
  then show ?case by (simp add: view_entries_def)
next
  case (Cons v vs)
  from Cons.prems(1) obtain c1 e1 where
    st: "add_subnets (view_Name v) (view_Subnets v) (claimed, es) = Inr (c1, e1)"
    and rest: "add_views vs (c1, e1) = Inr (claimed', es')"
    by (auto split: sum.splits)
  note a = add_subnets_entries [OF st] add_subnets_claimed [OF st Cons.prems(2,3)]
  have "es' = e1 @ view_entries vs \<and> distinct (map entry_prefix es')
    \<and> (\<forall>v \<in> set vs. \<forall>c \<in> set (view_Subnets v). ParsePrefix c \<noteq> None)"
    by (rule Cons.IH [OF rest]) (use a(2) in blast)+
  moreover from a(1) have "e1 @ view_entries vs = es @ view_entries (v # vs)"
    by (simp add: view_entries_def)
  moreover note a(1)
  ultimately show ?case by (metis set_ConsD)
qed

lemma NewMatcher_entries:
  assumes "NewMatcher vs = Inr m"
  shows "entries m = sort_key entry_key (view_entries vs)" and "names m = sort (map view_Name vs)"
    and "distinct (map entry_prefix (view_entries vs))"
    and "\<forall>v \<in> set vs. \<forall>c \<in> set (view_Subnets v). ParsePrefix c \<noteq> None"
proof -
  from assms obtain cl es where es: "add_views vs ([], []) = Inr (cl, es)"
    and m: "m = \<lparr>entries = sort_key entry_key es, names = sort (map view_Name vs)\<rparr>"
    by (auto simp: NewMatcher_def split: sum.splits)
  from add_views_entries [OF es] m
  show "entries m = sort_key entry_key (view_entries vs)" and "names m = sort (map view_Name vs)"
    and "distinct (map entry_prefix (view_entries vs))"
    and "\<forall>v \<in> set vs. \<forall>c \<in> set (view_Subnets v). ParsePrefix c \<noteq> None"
    by auto
qed

lemma view_entries_masked: "e \<in> set (view_entries vs) \<Longrightarrow> Masked (entry_prefix e) = entry_prefix e"
  by (auto simp: view_entries_def)

lemma find_sorted_key:
  assumes "find P (sort_key k xs) = Some x" and "y \<in> set xs" and "P y"
  shows "k x \<le> k y"
proof -
  obtain i where i: "i < length (sort_key k xs)" "x = sort_key k xs ! i"
    "\<forall>j < i. \<not> P (sort_key k xs ! j)"
    using assms(1) by (auto simp: find_Some_iff)
  obtain j where j: "j < length (sort_key k xs)" "y = sort_key k xs ! j"
    using assms(2) by (metis in_set_conv_nth set_sort)
  with i assms(3) have "i \<le> j" by (metis not_le_imp_less)
  moreover have "sorted (map k (sort_key k xs))" by simp
  ultimately show ?thesis
    using i j by (metis (no_types, lifting) length_map nth_map sorted_nth_mono)
qed

text \<open>Two masked prefixes with as many bits that share an address are the same prefix.\<close>

lemma masked_word_eq:
  assumes "drop_bit n (u :: 'a :: len word) = drop_bit n v"
  shows "u AND NOT (mask n) = v AND NOT (mask n)"
proof (rule bit_word_eqI)
  fix i assume "i < LENGTH('a)"
  have "bit (drop_bit n u) (i - n) = bit (drop_bit n v) (i - n)" using assms by simp
  then have "n \<le> i \<Longrightarrow> bit u i = bit v i" by (simp add: bit_drop_bit_eq)
  then show "bit (u AND NOT (mask n)) i = bit (v AND NOT (mask n)) i"
    by (auto simp: bit_simps)
qed

lemma same_masked_prefix:
  assumes "Contains p a" and "Contains q a" and "pbits p = pbits q"
  shows "Masked p = Masked q"
proof (cases a)
  case AddrZero
  with assms(1) Contains_valid_addr show ?thesis by blast
next
  case (Addr4 x)
  obtain u where p: "p = Prefix (Addr4 u) (pbits p)" "drop_bit (32 - pbits p) x = drop_bit (32 - pbits p) u"
    using Contains_Addr4E assms(1) Addr4 by metis
  obtain v where q: "q = Prefix (Addr4 v) (pbits q)" "drop_bit (32 - pbits q) x = drop_bit (32 - pbits q) v"
    using Contains_Addr4E assms(2) Addr4 by metis
  have "u AND NOT (mask (32 - pbits p)) = v AND NOT (mask (32 - pbits p))"
    by (rule masked_word_eq) (use p(2) q(2) assms(3) in simp)
  then show ?thesis using p(1) q(1) assms(3) Masked.simps(1) by metis
next
  case (Addr6 x z)
  obtain u where p: "p = Prefix (Addr6 u []) (pbits p)" "drop_bit (128 - pbits p) x = drop_bit (128 - pbits p) u"
    using Contains_Addr6E assms(1) Addr6 by metis
  obtain v where q: "q = Prefix (Addr6 v []) (pbits q)" "drop_bit (128 - pbits q) x = drop_bit (128 - pbits q) v"
    using Contains_Addr6E assms(2) Addr6 by metis
  have "u AND NOT (mask (128 - pbits p)) = v AND NOT (mask (128 - pbits p))"
    by (rule masked_word_eq) (use p(2) q(2) assms(3) in simp)
  then show ?thesis using p(1) q(1) assms(3) Masked.simps(2) by metis
qed

lemma view_entry_in:
  "v \<in> set vs \<Longrightarrow> c \<in> set (view_Subnets v) \<Longrightarrow> ParsePrefix c = Some p \<Longrightarrow>
   \<lparr>entry_prefix = Masked p, entry_view = view_Name v\<rparr> \<in> set (view_entries vs)"
  by (force simp: view_entries_def)

lemma view_entryE:
  assumes "e \<in> set (view_entries vs)" and "\<forall>v \<in> set vs. \<forall>c \<in> set (view_Subnets v). ParsePrefix c \<noteq> None"
  obtains v c p where "v \<in> set vs" and "c \<in> set (view_Subnets v)" and "ParsePrefix c = Some p"
    and "entry_prefix e = Masked p" and "entry_view e = view_Name v"
  using assms by (fastforce simp: view_entries_def)

lemma Unmap_valid: "addr_valid (Unmap a) = addr_valid a"
  by (cases a) (auto simp: addr_valid_def)

text \<open>
  The matcher is a longest-prefix match. When a view's subnet contains the (unmapped) client
  address and no subnet of any view that contains it has more bits, \<open>Match\<close> returns that
  view, whatever the order in which the views and subnets were listed.
\<close>

theorem Match_longest_prefix:
  assumes "NewMatcher vs = Inr m"
    and "v \<in> set vs" and "c \<in> set (view_Subnets v)" and "ParsePrefix c = Some p"
    and "Contains p (Unmap a)"
    and "\<forall>v' \<in> set vs. \<forall>c' \<in> set (view_Subnets v'). \<forall>q. ParsePrefix c' = Some q \<longrightarrow>
           Contains q (Unmap a) \<longrightarrow> pbits q \<le> pbits p"
  shows "Match m a = view_Name v"
proof -
  note nm = NewMatcher_entries [OF assms(1)]
  let ?P = "\<lambda>e. Contains (entry_prefix e) (Unmap a)"
  let ?e = "\<lparr>entry_prefix = Masked p, entry_view = view_Name v\<rparr>"
  have e: "?e \<in> set (view_entries vs)" "?P ?e"
    using view_entry_in [OF assms(2-4)] assms(5) by simp_all
  have valid: "addr_valid a"
    using assms(5) Contains_valid_addr Unmap_valid addr_valid_def by blast
  have "find ?P (entries m) \<noteq> None"
    using e by (auto simp: nm(1) find_None_iff)
  then obtain x where x: "find ?P (entries m) = Some x" by blast
  then have px: "?P x" and xin: "x \<in> set (view_entries vs)"
    using find_SomeD [OF x] by (simp_all add: nm(1))
  have "entry_key x \<le> entry_key ?e"
    using find_sorted_key [of ?P entry_key "view_entries vs"] x e by (simp add: nm(1))
  then have ge: "pbits p \<le> pbits (entry_prefix x)"
    by (auto simp: entry_key_def less_eq_prod_def)
  obtain v' c' q where q: "v' \<in> set vs" "c' \<in> set (view_Subnets v')" "ParsePrefix c' = Some q"
    "entry_prefix x = Masked q" using view_entryE [OF xin nm(4)] by metis
  then have le: "pbits q \<le> pbits p" using assms(6) px by simp
  with ge q(4) have "pbits p = pbits q" by simp
  moreover have "Contains q (Unmap a)" using px q(4) by simp
  ultimately have "Masked p = Masked q" using same_masked_prefix assms(5) by blast
  then have "x = ?e"
    using nm(3) inj_onD [of entry_prefix _ x ?e, OF _ _ xin e(1)] q(4) by (simp add: distinct_map)
  then show ?thesis using x valid by (simp add: Match_def)
qed

definition lan_vpn :: "view list" where
  "lan_vpn = [\<lparr>view_Name = ''lan'', view_Subnets = [''10.0.0.0/8'']\<rparr>,
              \<lparr>view_Name = ''vpn'', view_Subnets = [''10.8.0.0/16'']\<rparr>]"

theorem Match_longest_prefix_witness:
  "\<exists>m. NewMatcher lan_vpn = Inr m \<and> Match m (Addr4 0x0A080005) = ''vpn''"
proof -
  obtain m where m: "NewMatcher lan_vpn = Inr m"
    by (cases "NewMatcher lan_vpn") (simp_all add: lan_vpn_def, code_simp)
  have p: "ParsePrefix ''10.8.0.0/16'' = Some (Prefix (Addr4 0x0A080000) 16)" by code_simp
  have l: "ParsePrefix ''10.0.0.0/8'' = Some (Prefix (Addr4 0x0A000000) 8)" by code_simp
  have "Match m (Addr4 0x0A080005) = view_Name (lan_vpn ! 1)"
    by (rule Match_longest_prefix [OF m _ _ p]) (use p l in \<open>auto simp: lan_vpn_def\<close>)
  with m show ?thesis by (simp add: lan_vpn_def)
qed

text \<open>A client no subnet contains is served by the default view.\<close>

lemma Match_default:
  assumes "NewMatcher vs = Inr m"
    and "\<forall>v \<in> set vs. \<forall>c \<in> set (view_Subnets v). \<forall>q. ParsePrefix c = Some q \<longrightarrow> \<not> Contains q (Unmap a)"
  shows "Match m a = []"
proof -
  note nm = NewMatcher_entries [OF assms(1)]
  have "find (\<lambda>e. Contains (entry_prefix e) (Unmap a)) (entries m) = None"
    unfolding find_None_iff
  proof
    assume "\<exists>e. e \<in> set (entries m) \<and> Contains (entry_prefix e) (Unmap a)"
    then obtain e where "e \<in> set (view_entries vs)" "Contains (entry_prefix e) (Unmap a)"
      by (auto simp: nm(1))
    with view_entryE [OF _ nm(4)] assms(2) show False by (metis Contains_Masked)
  qed
  then show ?thesis by (simp add: Match_def)
qed


section \<open>What a view's index holds\<close>

text \<open>
  The index, name by name, as the layers write it: the manual records picked for the view at that name if
  there are any, otherwise what the last service with that name or alias answers, otherwise
  what the last lease of that name says.
\<close>

definition manual_at :: "zinput \<Rightarrow> string \<Rightarrow> string \<Rightarrow> record_row list" where
  "manual_at inp view n =
     filter (\<lambda>r. rec_Type r \<noteq> ''PTR'' \<and> ToLower (rec_Name r) = n) (pick view rec_View (in_Records inp))"

definition manual_rr :: "record_row \<Rightarrow> zrr" where
  "manual_rr r = \<lparr>zrr_Name = ToLower (rec_Name r), zrr_Type = rec_Type r, zrr_Value = ToLower (rec_Value r)\<rparr>"

definition svc_serves :: "string \<Rightarrow> string \<Rightarrow> service \<Rightarrow> string \<Rightarrow> bool" where
  "svc_serves view zone svc n =
     (pick view addr_View (svc_Addresses svc) \<noteq> [] \<and>
      (n = qualify (svc_Name svc) zone \<or> n \<in> set (map (\<lambda>al. qualify al zone) (svc_Aliases svc))))"

definition svc_rrs :: "string \<Rightarrow> service \<Rightarrow> string \<Rightarrow> zrr list" where
  "svc_rrs view svc n =
     map (\<lambda>a. \<lparr>zrr_Name = n, zrr_Type = addrType a, zrr_Value = a\<rparr>)
       (svc_answer svc (pick view addr_View (svc_Addresses svc)))"

definition lease_rrs :: "zlease \<Rightarrow> string \<Rightarrow> zrr list" where
  "lease_rrs l n = [\<lparr>zrr_Name = n, zrr_Type = addrType (zl_Address l), zrr_Value = zl_Address l\<rparr>]"

definition forward_spec :: "zinput \<Rightarrow> string \<Rightarrow> string \<Rightarrow> string \<Rightarrow> zrr list option" where
  "forward_spec inp view zone n =
     (let ms = manual_at inp view n
      in if ms \<noteq> [] then Some (map manual_rr ms)
         else (case find (\<lambda>s. svc_serves view zone s n) (rev (in_Services inp)) of
             Some svc \<Rightarrow> Some (svc_rrs view svc n)
           | None \<Rightarrow> (case find (\<lambda>l. qualify (zl_Hostname l) zone = n) (rev (in_Leases inp)) of
                 Some l \<Rightarrow> Some (lease_rrs l n)
               | None \<Rightarrow> None)))"

definition ptr_key :: "netprefix list \<Rightarrow> string \<Rightarrow> string \<Rightarrow> bool" where
  "ptr_key zones s k =
     (case ParseAddr s of None \<Rightarrow> False | Some a \<Rightarrow> inZones a zones \<and> arpaName a = k)"

definition reverse_spec :: "zinput \<Rightarrow> string \<Rightarrow> string \<Rightarrow> string \<Rightarrow> string option" where
  "reverse_spec inp view zone k =
     (case find (\<lambda>r. rec_Type r = ''PTR'' \<and> ToLower (rec_Name r) = k)
             (rev (pick view rec_View (in_Records inp))) of
        Some r \<Rightarrow> Some (ToLower (rec_Value r))
      | None \<Rightarrow>
          (case find (\<lambda>s. list_ex (\<lambda>a. ptr_key (in_ReverseZones inp) (addr_Address a) k)
                            (pick view addr_View (svc_Addresses s))) (rev (in_Services inp)) of
             Some svc \<Rightarrow> Some (qualify (svc_Name svc) zone)
           | None \<Rightarrow>
               (case find (\<lambda>l. ptr_key (in_ReverseZones inp) (zl_Address l) k) (rev (in_Leases inp)) of
                  Some l \<Rightarrow> Some (qualify (zl_Hostname l) zone)
                | None \<Rightarrow> None)))"

lemma put_reverse_Forward [simp]: "Forward (put_reverse zones n s idx) = Forward idx"
  by (simp add: put_reverse_def split: option.split)

lemma put_reverse_Reverse:
  "m_get (Reverse (put_reverse zones n s idx)) k =
     (if ptr_key zones s k then Some n else m_get (Reverse idx) k)"
  by (auto simp: put_reverse_def ptr_key_def split: option.split)

lemma lease_layer_Forward:
  "m_get (Forward (lease_layer zones zone l idx)) n =
     (if qualify (zl_Hostname l) zone = n then Some (lease_rrs l n) else m_get (Forward idx) n)"
  by (auto simp: lease_layer_def Let_def lease_rrs_def)

lemma lease_layer_Reverse:
  "m_get (Reverse (lease_layer zones zone l idx)) k =
     (if ptr_key zones (zl_Address l) k then Some (qualify (zl_Hostname l) zone) else m_get (Reverse idx) k)"
  by (simp add: lease_layer_def Let_def put_reverse_Reverse)

lemma fold_forward_names:
  "m_get (Forward (fold (\<lambda>n ix. ix\<lparr>Forward := m_put n (f n) (Forward ix)\<rparr>) ns idx)) n =
     (if n \<in> set ns then Some (f n) else m_get (Forward idx) n)"
  by (induction ns arbitrary: idx) auto

lemma fold_forward_Reverse [simp]:
  "Reverse (fold (\<lambda>n ix. ix\<lparr>Forward := m_put n (f n) (Forward ix)\<rparr>) ns idx) = Reverse idx"
  by (rule fold_keeps) simp

lemma svc_layer_Forward:
  "m_get (Forward (svc_layer view zones zone svc idx)) n =
     (if svc_serves view zone svc n then Some (svc_rrs view svc n) else m_get (Forward idx) n)"
proof -
  have "Forward (fold (\<lambda>a ix. put_reverse zones p (addr_Address a) ix) as ix) = Forward ix" for p ix and as :: "address list"
    by (rule fold_keeps) simp
  then show ?thesis
    by (auto simp: svc_layer_def Let_def svc_serves_def svc_rrs_def fold_forward_names)
qed

lemma svc_layer_Reverse:
  "m_get (Reverse (svc_layer view zones zone svc idx)) k =
     (if list_ex (\<lambda>a. ptr_key zones (addr_Address a) k) (pick view addr_View (svc_Addresses svc))
      then Some (qualify (svc_Name svc) zone) else m_get (Reverse idx) k)"
proof -
  have "m_get (Reverse (fold (\<lambda>a ix. put_reverse zones p (addr_Address a) ix) as ix)) k =
    (if list_ex (\<lambda>a. ptr_key zones (addr_Address a) k) as then Some p else m_get (Reverse ix) k)" for p ix and as :: "address list"
    by (rule fold_same_writer [where g = "\<lambda>ix :: index. m_get (Reverse ix) k"]) (simp add: put_reverse_Reverse)
  then show ?thesis
    by (cases "pick view addr_View (svc_Addresses svc) = []") (simp_all add: svc_layer_def Let_def)
qed

lemma rec_layer_fold:
  assumes "fold rec_layer rs (idx, []) = (idx', claimed)"
  shows "m_get (Forward idx') n =
      (let ms = filter (\<lambda>r. rec_Type r \<noteq> ''PTR'' \<and> ToLower (rec_Name r) = n) rs
       in if ms \<noteq> [] then Some (map manual_rr ms) else m_get (Forward idx) n) \<and>
    (n \<in> set claimed \<longleftrightarrow> filter (\<lambda>r. rec_Type r \<noteq> ''PTR'' \<and> ToLower (rec_Name r) = n) rs \<noteq> [])"
  using assms
proof (induction rs arbitrary: idx' claimed rule: rev_induct)
  case Nil
  then show ?case by simp
next
  case (snoc r rs)
  obtain ix cl where st: "fold rec_layer rs (idx, []) = (ix, cl)" by fastforce
  note IH = snoc.IH [OF st]
  from snoc.prems st have step: "rec_layer r (ix, cl) = (idx', claimed)" by simp
  show ?case
  proof (cases "rec_Type r \<noteq> ''PTR'' \<and> ToLower (rec_Name r) = n")
    case True
    with step IH show ?thesis
      by (auto simp: rec_layer_def Let_def manual_rr_def split: if_splits)
  next
    case False
    with step IH show ?thesis
      by (auto simp: rec_layer_def Let_def split: if_splits)
  qed
qed

lemma rec_layer_Reverse:
  "m_get (Reverse (fst (rec_layer r st))) k =
     (if rec_Type r = ''PTR'' \<and> ToLower (rec_Name r) = k then Some (ToLower (rec_Value r))
      else m_get (Reverse (fst st)) k)"
  by (auto simp: rec_layer_def Let_def split: prod.split)

lemma buildIndex_forward:
  assumes "buildIndex inp view zone = Inr idx"
  shows "m_get (Forward idx) n = forward_spec inp view zone n"
proof -
  define i1 where "i1 = fold (lease_layer (in_ReverseZones inp) zone) (in_Leases inp) \<lparr>Forward = [], Reverse = []\<rparr>"
  define i2 where "i2 = fold (svc_layer view (in_ReverseZones inp) zone) (in_Services inp) i1"
  obtain cl where st: "fold rec_layer (pick view rec_View (in_Records inp)) (i2, []) = (idx, cl)"
    using assms by (auto simp: buildIndex_def i1_def i2_def Let_def split: prod.splits option.splits)
  have "m_get (Forward i1) n = (case find (\<lambda>l. qualify (zl_Hostname l) zone = n) (rev (in_Leases inp)) of
      Some l \<Rightarrow> Some (lease_rrs l n) | None \<Rightarrow> m_get (Forward \<lparr>Forward = [], Reverse = []\<rparr>) n)"
    unfolding i1_def by (rule fold_last_writer) (rule lease_layer_Forward)
  moreover have "m_get (Forward i2) n = (case find (\<lambda>s. svc_serves view zone s n) (rev (in_Services inp)) of
      Some s \<Rightarrow> Some (svc_rrs view s n) | None \<Rightarrow> m_get (Forward i1) n)"
    unfolding i2_def by (rule fold_last_writer) (rule svc_layer_Forward)
  ultimately show ?thesis
    using rec_layer_fold [OF st, of n]
    by (simp add: forward_spec_def manual_at_def Let_def split: option.split)
qed

lemma buildIndex_reverse:
  assumes "buildIndex inp view zone = Inr idx"
  shows "m_get (Reverse idx) k = reverse_spec inp view zone k"
proof -
  define i1 where "i1 = fold (lease_layer (in_ReverseZones inp) zone) (in_Leases inp) \<lparr>Forward = [], Reverse = []\<rparr>"
  define i2 where "i2 = fold (svc_layer view (in_ReverseZones inp) zone) (in_Services inp) i1"
  obtain cl where st: "fold rec_layer (pick view rec_View (in_Records inp)) (i2, []) = (idx, cl)"
    using assms by (auto simp: buildIndex_def i1_def i2_def Let_def split: prod.splits option.splits)
  have 1: "m_get (Reverse i1) k = (case find (\<lambda>l. ptr_key (in_ReverseZones inp) (zl_Address l) k) (rev (in_Leases inp)) of
      Some l \<Rightarrow> Some (qualify (zl_Hostname l) zone) | None \<Rightarrow> m_get (Reverse \<lparr>Forward = [], Reverse = []\<rparr>) k)"
    unfolding i1_def by (rule fold_last_writer) (rule lease_layer_Reverse)
  have 2: "m_get (Reverse i2) k = (case find (\<lambda>s. list_ex (\<lambda>a. ptr_key (in_ReverseZones inp) (addr_Address a) k)
        (pick view addr_View (svc_Addresses s))) (rev (in_Services inp)) of
      Some s \<Rightarrow> Some (qualify (svc_Name s) zone) | None \<Rightarrow> m_get (Reverse i1) k)"
    unfolding i2_def by (rule fold_last_writer) (rule svc_layer_Reverse)
  have "m_get (Reverse (fst (fold rec_layer (pick view rec_View (in_Records inp)) (i2, [])))) k =
    (case find (\<lambda>r. rec_Type r = ''PTR'' \<and> ToLower (rec_Name r) = k) (rev (pick view rec_View (in_Records inp))) of
      Some r \<Rightarrow> Some (ToLower (rec_Value r)) | None \<Rightarrow> m_get (Reverse (fst (i2, [] :: string list))) k)"
    by (rule fold_last_writer [where g = "\<lambda>st :: index \<times> string list. m_get (Reverse (fst st)) k"]) (rule rec_layer_Reverse)
  with 1 2 st show ?thesis
    by (simp add: reverse_spec_def split: option.split)
qed

subsection \<open>Every view is built\<close>

lemma build_views_get:
  assumes "build_views inp zone vs acc = Inr vs'"
  shows "v \<in> set vs \<Longrightarrow> \<exists>idx. buildIndex inp v zone = Inr idx \<and> m_get vs' v = Some idx"
    and "v \<notin> set vs \<Longrightarrow> m_get vs' v = m_get acc v"
proof -
  have "(v \<in> set vs \<longrightarrow> (\<exists>idx. buildIndex inp v zone = Inr idx \<and> m_get vs' v = Some idx)) \<and>
        (v \<notin> set vs \<longrightarrow> m_get vs' v = m_get acc v)"
    using assms
    by (induction inp zone vs acc rule: build_views.induct) (auto split: sum.splits)
  then show "v \<in> set vs \<Longrightarrow> \<exists>idx. buildIndex inp v zone = Inr idx \<and> m_get vs' v = Some idx"
    and "v \<notin> set vs \<Longrightarrow> m_get vs' v = m_get acc v" by blast+
qed

lemma Build_InrE:
  assumes "Build inp = Inr s"
  obtains m where "NewMatcher (in_Views inp) = Inr m"
    and "build_views inp (ToLower (in_Zone inp)) ([] # names m) [] = Inr (snap_Views s)"
    and "snap_Matcher s = m" and "snap_Generation s = in_Generation inp"
    and "snap_Zone s = ToLower (in_Zone inp)" and "snap_ReverseZones s = in_ReverseZones inp"
  using assms by (auto simp: Build_def split: sum.splits)

definition effective_view :: "zinput \<Rightarrow> string \<Rightarrow> string" where
  "effective_view inp view = (if view \<in> set (map view_Name (in_Views inp)) then view else [])"

lemma Build_index_of:
  assumes "Build inp = Inr s"
  shows "buildIndex inp (effective_view inp view) (ToLower (in_Zone inp)) = Inr (index_of s view)"
proof -
  obtain m where m: "NewMatcher (in_Views inp) = Inr m"
    and bv: "build_views inp (ToLower (in_Zone inp)) ([] # names m) [] = Inr (snap_Views s)"
    using Build_InrE [OF assms] by metis
  have nm: "set (names m) = set (map view_Name (in_Views inp))"
    by (simp add: NewMatcher_entries(2) [OF m])
  note get = build_views_get [OF bv]
  from get(1) [of "[]"] get(1) [of view] get(2) [of view] show ?thesis
    by (cases "view = []") (auto simp: effective_view_def index_of_def nm)
qed

subsection \<open>The documented precedence\<close>

text \<open>
  The documentation gives the tag rule group by group: of the addresses of one service, and of the manual records of one
  name, a view sees those tagged with it if there are any and the untagged ones otherwise, because untagged means everywhere.
\<close>

definition visible :: "string \<Rightarrow> ('a \<Rightarrow> string) \<Rightarrow> 'a list \<Rightarrow> 'a list" where
  "visible view tagOf xs =
     (if view \<noteq> [] \<and> list_ex (\<lambda>x. tagOf x = view) xs then filter (\<lambda>x. tagOf x = view) xs
      else filter (\<lambda>x. tagOf x = []) xs)"

definition records_at :: "zinput \<Rightarrow> string \<Rightarrow> record_row list" where
  "records_at inp n = filter (\<lambda>r. rec_Type r \<noteq> ''PTR'' \<and> ToLower (rec_Name r) = n) (in_Records inp)"

definition answers_at :: "string \<Rightarrow> string \<Rightarrow> string \<Rightarrow> service \<Rightarrow> string list option" where
  "answers_at view zone n svc =
     (let addrs = map addr_Address (visible view addr_View (svc_Addresses svc))
      in if addrs = [] \<or> n \<notin> set (map (\<lambda>m. qualify m zone) (svc_Name svc # svc_Aliases svc)) then None
         else Some (if svc_RouteViaProxy svc \<and> svc_ProxyAddress svc \<noteq> [] then [svc_ProxyAddress svc] else addrs))"

definition address_rrs :: "string \<Rightarrow> string list \<Rightarrow> zrr list" where
  "address_rrs n as = map (\<lambda>a. \<lparr>zrr_Name = n, zrr_Type = addrType a, zrr_Value = a\<rparr>) as"

definition last_of :: "('a \<Rightarrow> 'b option) \<Rightarrow> 'a list \<Rightarrow> 'b option" where
  "last_of f xs = (case filter (\<lambda>y. y \<noteq> None) (map f xs) of [] \<Rightarrow> None | ys \<Rightarrow> last ys)"

definition documented :: "zinput \<Rightarrow> string \<Rightarrow> string \<Rightarrow> string \<Rightarrow> zrr list" where
  "documented inp view zone n =
     (case visible view rec_View (records_at inp n) of
        r # rs \<Rightarrow> map manual_rr (r # rs)
      | [] \<Rightarrow>
         (case last_of (answers_at view zone n) (in_Services inp) of
            Some as \<Rightarrow> address_rrs n as
          | None \<Rightarrow>
             (case last_of (\<lambda>l. if qualify (zl_Hostname l) zone = n then Some (zl_Address l) else None) (in_Leases inp) of
                Some a \<Rightarrow> address_rrs n [a]
              | None \<Rightarrow> [])))"

text \<open>
  The code applies the rule to all manual records of the zone as one group. Untagged records of a name are then
  hidden from a view for which some other name has a tagged record.
\<close>

definition hides_untagged :: "zinput \<Rightarrow> string \<Rightarrow> string \<Rightarrow> bool" where
  "hides_untagged inp view n =
     (view \<noteq> [] \<and> list_ex (\<lambda>r. rec_View r = view) (in_Records inp) \<and> \<not> list_ex (\<lambda>r. rec_View r = view) (records_at inp n))"

lemma pick_visible: "pick view tagOf xs = visible view tagOf xs"
  by (auto simp: pick_def visible_def Let_def filter_empty_conv list_ex_iff intro!: filter_cong)

lemma find_rev_last_of:
  assumes "\<And>x. x \<in> set xs \<Longrightarrow> f x = (if P x then Some (g x) else None)"
  shows "last_of f xs = map_option g (find P (rev xs))"
  using assms
proof (induction xs rule: rev_induct)
  case (snoc x xs)
  then have "last_of f xs = map_option g (find P (rev xs))" by simp
  then show ?case using snoc.prems [of x] by (auto simp: last_of_def split: list.splits)
qed (simp add: last_of_def)

lemma manual_at_visible:
  "manual_at inp view n = (if hides_untagged inp view n then [] else visible view rec_View (records_at inp n))"
  by (auto simp: manual_at_def pick_visible visible_def hides_untagged_def records_at_def list_ex_iff filter_empty_conv
      intro!: filter_cong)

lemma answers_at_serves:
  "answers_at view zone n svc =
     (if svc_serves view zone svc n then Some (svc_answer svc (pick view addr_View (svc_Addresses svc))) else None)"
  by (auto simp: answers_at_def svc_serves_def svc_answer_def pick_visible Let_def)

lemma forward_documented:
  "(case forward_spec inp view zone n of None \<Rightarrow> [] | Some rrs \<Rightarrow> rrs) =
   documented (if hides_untagged inp view n then inp\<lparr>in_Records := []\<rparr> else inp) view zone n"
proof -
  have "last_of (answers_at view zone n) (in_Services inp) =
      map_option (\<lambda>s. svc_answer s (pick view addr_View (svc_Addresses s))) (find (\<lambda>s. svc_serves view zone s n) (rev (in_Services inp)))"
    by (rule find_rev_last_of) (rule answers_at_serves)
  moreover have "last_of (\<lambda>l. if qualify (zl_Hostname l) zone = n then Some (zl_Address l) else None) (in_Leases inp) =
      map_option zl_Address (find (\<lambda>l. qualify (zl_Hostname l) zone = n) (rev (in_Leases inp)))"
    by (rule find_rev_last_of) simp
  ultimately show ?thesis
    by (auto simp: forward_spec_def documented_def manual_at_visible svc_rrs_def lease_rrs_def address_rrs_def records_at_def visible_def [of _ _ "[]"]
        split: option.split list.split)
qed

text \<open>
  C5: a lookup answers what the documented precedence gives: the manual records of the name that the view sees, else what the
  last service with that name or alias answers in the view, else the last lease of that name, and nothing otherwise; a view that
  is not configured sees the default view. The one exception is stated with it: at a name whose untagged records the zone-wide
  use of the tag rule hides from the view, the answer is the one the precedence gives without manual records.
\<close>

theorem Lookup_refines_spec:
  assumes "Build inp = Inr s"
  shows "Lookup s view name =
    (let v = effective_view inp view; n = ToLower name
     in documented (if hides_untagged inp v n then inp\<lparr>in_Records := []\<rparr> else inp) v (ToLower (in_Zone inp)) n)"
  using buildIndex_forward [OF Build_index_of [OF assms]] forward_documented by (simp add: Lookup_def Let_def)

definition home_input :: zinput where
  "home_input = \<lparr>in_Views = lan_vpn,
     in_Services = [\<lparr>svc_ID = 1, svc_Name = ''nas'',
       svc_Addresses = [\<lparr>addr_ID = 1, addr_Address = ''10.0.0.2'', addr_View = []\<rparr>,
                        \<lparr>addr_ID = 2, addr_Address = ''10.8.0.2'', addr_View = ''vpn''\<rparr>],
       svc_Aliases = [''files''], svc_CheckURL = [], svc_CheckInsecure = False,
       svc_ProxyAddress = [], svc_RouteViaProxy = False, svc_MAC = []\<rparr>],
     in_Records = [], in_Leases = [\<lparr>zl_Hostname = ''nas'', zl_Address = ''10.0.0.77''\<rparr>],
     in_Zone = ''home.arpa.'', in_ReverseZones = [Prefix (Addr4 0x0A000000) 8], in_Generation = 1\<rparr>"

lemma home_input_builds: "\<exists>s. Build home_input = Inr s"
proof -
  have "is_ok (Build home_input)" by code_simp
  then show ?thesis by (auto simp: is_ok_def split: sum.splits)
qed

theorem Lookup_refines_spec_witness:
  "\<exists>s. Build home_input = Inr s \<and> map zrr_Value (Lookup s ''vpn'' ''FILES.home.arpa.'') = [''10.8.0.2'']"
proof -
  obtain s where s: "Build home_input = Inr s" using home_input_builds by blast
  have "documented home_input (effective_view home_input ''vpn'') (ToLower (in_Zone home_input)) (ToLower ''FILES.home.arpa.'') =
      [\<lparr>zrr_Name = ''files.home.arpa.'', zrr_Type = ''A'', zrr_Value = ''10.8.0.2''\<rparr>]"
    and "\<not> hides_untagged home_input (effective_view home_input ''vpn'') (ToLower ''FILES.home.arpa.'')" by code_simp+
  with Lookup_refines_spec [OF s, of "''vpn''" "''FILES.home.arpa.''"] s show ?thesis by (simp add: Let_def)
qed

text \<open>
  The reverse records of a snapshot are exactly those the precedence rule gives: a manual
  PTR record, else the primary name of the last service with that address in the view (never an
  alias and never the proxy's address), else the last lease.
\<close>

theorem LookupPTR_refines_spec:
  assumes "Build inp = Inr s"
  shows "LookupPTR s view arpa =
    (case reverse_spec inp (effective_view inp view) (ToLower (in_Zone inp)) (ToLower arpa) of
       None \<Rightarrow> [] | Some n \<Rightarrow> n)"
  using buildIndex_reverse [OF Build_index_of [OF assms]] by (simp add: LookupPTR_def)

theorem LookupPTR_refines_spec_witness:
  "\<exists>s. Build home_input = Inr s \<and> LookupPTR s [] ''2.0.0.10.in-addr.arpa.'' = ''nas.home.arpa.''"
proof -
  obtain s where s: "Build home_input = Inr s" using home_input_builds by blast
  have "reverse_spec home_input (effective_view home_input []) (ToLower (in_Zone home_input))
    (ToLower ''2.0.0.10.in-addr.arpa.'') = Some ''nas.home.arpa.''" by code_simp
  with LookupPTR_refines_spec [OF s, of "[]" "''2.0.0.10.in-addr.arpa.''"] s show ?thesis by simp
qed

subsection \<open>A CNAME stands alone\<close>

lemma buildIndex_no_conflict:
  assumes "buildIndex inp view zone = Inr idx" and "m_get (Forward idx) n = Some rrs"
  shows "\<not> cname_conflict rrs"
proof -
  from assms(1) have "find (\<lambda>e. cname_conflict (snd e)) (Forward idx) = None"
    by (auto simp: buildIndex_def Let_def split: prod.splits option.splits)
  moreover have "(n, rrs) \<in> set (Forward idx)" using assms(2) by (rule m_get_Some_in)
  ultimately show ?thesis by (force simp: find_None_iff)
qed

text \<open>
  In a published snapshot a CNAME is the only record at its name, in every view. The
  authoritative server relies on it when it looks at the first record only.
\<close>

theorem Lookup_cname_alone:
  assumes "Build inp = Inr s" and "rr \<in> set (Lookup s view name)" and "zrr_Type rr = ''CNAME''"
  shows "Lookup s view name = [rr]"
proof -
  obtain rrs where rrs: "m_get (Forward (index_of s view)) (ToLower name) = Some rrs" "Lookup s view name = rrs"
    using assms(2) by (cases "m_get (Forward (index_of s view)) (ToLower name)") (auto simp: Lookup_def)
  have "\<not> cname_conflict rrs"
    using buildIndex_no_conflict [OF Build_index_of [OF assms(1)] rrs(1)] .
  with assms(2,3) rrs(2) have "length rrs \<le> 1" and "rr \<in> set rrs"
    by (auto simp: cname_conflict_def list_ex_iff)
  then show ?thesis using rrs(2) by (cases rrs) auto
qed

definition cname_input :: zinput where
  "cname_input = home_input\<lparr>in_Records := [\<lparr>rec_ID = 1, rec_Name = ''nas.home.arpa.'', rec_Type = ''CNAME'',
     rec_Value = ''box.home.arpa.'', rec_View = []\<rparr>]\<rparr>"

theorem Lookup_cname_alone_witness:
  "\<exists>s rr. Build cname_input = Inr s \<and> Lookup s [] ''nas.home.arpa.'' = [rr] \<and> zrr_Type rr = ''CNAME''"
proof -
  have "is_ok (Build cname_input)" by code_simp
  then obtain s where s: "Build cname_input = Inr s" by (auto simp: is_ok_def split: sum.splits)
  let ?rr = "\<lparr>zrr_Name = ''nas.home.arpa.'', zrr_Type = ''CNAME'', zrr_Value = ''box.home.arpa.''\<rparr>"
  have "forward_spec cname_input (effective_view cname_input []) (ToLower (in_Zone cname_input))
    (ToLower ''nas.home.arpa.'') = Some [?rr]" by code_simp
  then have "?rr \<in> set (Lookup s [] ''nas.home.arpa.'')"
    using buildIndex_forward [OF Build_index_of [OF s]] by (simp add: Lookup_def)
  from Lookup_cname_alone [OF s this] s show ?thesis by auto
qed

end
