(* ===== verification/DnsAuth.thy ===== *)
theory DnsAuth
  imports DnsMsg Zone
begin

text \<open>
  The query allow-list, \<^verbatim>\<open>internal/dnsserver/acl.go\<close>, and the authoritative answers,
  \<^verbatim>\<open>internal/dnsserver/auth.go\<close>. The atomics are fields of a record; one query reads each of them once.
\<close>

section \<open>Allow-list\<close>

record acl =
  acl_allowed :: "netprefix list"
  acl_total :: "64 word"
  acl_cgnat :: "64 word"
  acl_lastCGNAT :: int

definition cgnat :: netprefix where
  "cgnat = Prefix (Addr4 0x64400000) 10"

definition acl_Replace :: "netprefix list \<Rightarrow> acl \<Rightarrow> acl" where
  "acl_Replace allowed a = a\<lparr>acl_allowed := map Masked allowed\<rparr>"

definition NewACL :: "netprefix list \<Rightarrow> acl" where
  "NewACL allowed = acl_Replace allowed \<lparr>acl_allowed = [], acl_total = 0, acl_cgnat = 0, acl_lastCGNAT = 0\<rparr>"

definition Allow :: "int \<Rightarrow> addr \<Rightarrow> acl \<Rightarrow> bool \<times> acl" where
  "Allow now_s a0 l =
     (if \<not> addr_valid a0 then (False, l\<lparr>acl_total := acl_total l + 1\<rparr>)
      else let a = Unmap a0
      in if list_ex (\<lambda>p. Contains p a) (acl_allowed l) then (True, l)
         else let l1 = l\<lparr>acl_total := acl_total l + 1\<rparr>
         in if Contains cgnat a
            then (False, l1\<lparr>acl_cgnat := acl_cgnat l1 + 1, acl_lastCGNAT := now_s\<rparr>)
            else (False, l1))"

definition RecentCGNATRefusal :: "int \<Rightarrow> int \<Rightarrow> acl \<Rightarrow> bool" where
  "RecentCGNATRefusal now_ns within l =
     (if acl_lastCGNAT l = 0 then False else now_ns - acl_lastCGNAT l * 1000000000 < within)"

section \<open>Authoritative state\<close>

record authority =
  au_zone :: "string option"
  au_ttl :: "32 word"
  au_reverseZones :: "netprefix list option"

definition au_Zone :: "authority \<Rightarrow> string" where
  "au_Zone a = (case au_zone a of Some z \<Rightarrow> z | None \<Rightarrow> [])"

definition SetZone :: "dnslib \<Rightarrow> string \<Rightarrow> authority \<Rightarrow> authority" where
  "SetZone L z a = a\<lparr>au_zone := Some (ToLower (lib_Fqdn L z))\<rparr>"

definition SetTTL :: "32 word \<Rightarrow> authority \<Rightarrow> authority" where
  "SetTTL t a = a\<lparr>au_ttl := t\<rparr>"

definition SetReverseZones :: "netprefix list \<Rightarrow> authority \<Rightarrow> authority" where
  "SetReverseZones z a = a\<lparr>au_reverseZones := Some (map Masked z)\<rparr>"

definition NewAuthoritative :: "dnslib \<Rightarrow> string \<Rightarrow> 32 word \<Rightarrow> netprefix list \<Rightarrow> authority" where
  "NewAuthoritative L z ttl reverse =
     SetReverseZones reverse (SetTTL ttl (SetZone L z \<lparr>au_zone = None, au_ttl = 0, au_reverseZones = None\<rparr>))"

section \<open>Reverse names\<close>

text \<open>The 32 nibbles of a reverse name, last first, with a colon after every fourth but the last.\<close>

fun join_nibbles :: "string list \<Rightarrow> nat \<Rightarrow> string" where
  "join_nibbles [] i = []"
| "join_nibbles (w # ws) i = w @ (if (i + 1) mod 4 = 0 \<and> ws \<noteq> [] then '':'' else []) @ join_nibbles ws (i + 1)"

definition addrFromArpa :: "string \<Rightarrow> addr option" where
  "addrFromArpa name =
     (let n = TrimSuffix (ToLower name) ''.''
      in if HasSuffix n ''.in-addr.arpa'' then
           (let parts = Split (TrimSuffix n ''.in-addr.arpa'') CHR ''.''
            in if length parts \<noteq> 4 then None else ParseAddr (Join (rev parts) ''.''))
         else if HasSuffix n ''.ip6.arpa'' then
           (let nib = Split (TrimSuffix n ''.ip6.arpa'') CHR ''.''
            in if length nib \<noteq> 32 then None else ParseAddr (join_nibbles (rev nib) 0))
         else None)"

section \<open>Answers\<close>

definition owns :: "dnslib \<Rightarrow> authority \<Rightarrow> string \<Rightarrow> string \<Rightarrow> bool" where
  "owns L a zone qname =
     (let n = ToLower (lib_Fqdn L qname)
      in if zone \<noteq> [] \<and> (n = zone \<or> HasSuffix n (''.'' @ zone)) then True
         else if HasSuffix n ''.in-addr.arpa.'' \<or> HasSuffix n ''.ip6.arpa.'' then
           (case addrFromArpa n of
              None \<Rightarrow> False
            | Some addr \<Rightarrow>
                (case au_reverseZones a of
                   None \<Rightarrow> False
                 | Some zs \<Rightarrow> list_ex (\<lambda>p. Contains p addr) zs))
         else False)"

definition Owns :: "dnslib \<Rightarrow> authority \<Rightarrow> string \<Rightarrow> bool" where
  "Owns L a qname = owns L a (au_Zone a) qname"

definition soa :: "string \<Rightarrow> 32 word \<Rightarrow> 32 word \<Rightarrow> rr" where
  "soa zone serial ttl =
     \<lparr>rr_Name = zone, rr_Rrtype = TypeSOA, rr_Class = ClassINET, rr_Ttl = ttl,
      rr_Data = RD_SOA \<lparr>soa_Ns = ''ns.'' @ zone, soa_Mbox = ''hostmaster.'' @ zone, soa_Serial = serial,
        soa_Refresh = 3600, soa_Retry = 600, soa_Expire = 604800, soa_Minttl = ttl\<rparr>\<rparr>"

text \<open>\<^verbatim>\<open>net.ParseIP\<close>: an address without a zone, or nil.\<close>

definition ParseIP :: "string \<Rightarrow> addr option" where
  "ParseIP s = (case ParseAddr s of Some (Addr6 w z) \<Rightarrow> if z = [] then Some (Addr6 w z) else None | r \<Rightarrow> r)"

definition toRR :: "zrr \<Rightarrow> rtype \<Rightarrow> 32 word \<Rightarrow> rr option" where
  "toRR z qtype ttl =
     (if zrr_Type z = ''A'' then
        (if qtype \<noteq> TypeA \<and> qtype \<noteq> TypeANY then None
         else Some \<lparr>rr_Name = zrr_Name z, rr_Rrtype = TypeA, rr_Class = ClassINET, rr_Ttl = ttl,
                    rr_Data = RD_A (ParseIP (zrr_Value z))\<rparr>)
      else if zrr_Type z = ''AAAA'' then
        (if qtype \<noteq> TypeAAAA \<and> qtype \<noteq> TypeANY then None
         else Some \<lparr>rr_Name = zrr_Name z, rr_Rrtype = TypeAAAA, rr_Class = ClassINET, rr_Ttl = ttl,
                    rr_Data = RD_AAAA (ParseIP (zrr_Value z))\<rparr>)
      else None)"

definition cnameChaseDepth :: nat where
  "cnameChaseDepth = 8"

definition cname_rr :: "dnslib \<Rightarrow> string \<Rightarrow> string \<Rightarrow> 32 word \<Rightarrow> rr" where
  "cname_rr L name target ttl =
     \<lparr>rr_Name = name, rr_Rrtype = TypeCNAME, rr_Class = ClassINET, rr_Ttl = ttl,
      rr_Data = RD_CNAME (lib_Fqdn L target)\<rparr>"

definition not_cname :: "zrr \<Rightarrow> bool" where
  "not_cname r = (zrr_Type r \<noteq> ''CNAME'')"

text \<open>The records before the first CNAME are converted; the first CNAME is followed and ends the loop.\<close>

function chase ::
  "dnslib \<Rightarrow> authority \<Rightarrow> string \<Rightarrow> snapshot \<Rightarrow> string \<Rightarrow> string \<Rightarrow> string \<Rightarrow> rtype \<Rightarrow> nat \<Rightarrow> 32 word \<Rightarrow> rr list"
where
  "chase L a zn snap view name target qtype depth ttl =
     (let cname = cname_rr L name target ttl
      in if depth \<ge> cnameChaseDepth \<or> qtype = TypeCNAME \<or> \<not> owns L a zn target then [cname]
         else let nxt = Lookup snap view (lib_Fqdn L target);
                  out = cname # List.map_filter (\<lambda>r. toRR r qtype ttl) (takeWhile not_cname nxt)
              in (case dropWhile not_cname nxt of
                    [] \<Rightarrow> out
                  | r # _ \<Rightarrow> out @ chase L a zn snap view (lib_Fqdn L target) (zrr_Value r) qtype (depth + 1) ttl))"
  by pat_completeness auto
termination
  by (relation "measure (\<lambda>(L, a, zn, snap, view, name, target, qtype, depth, ttl). cnameChaseDepth - depth)") auto

declare chase.simps [simp del]

definition negative :: "string \<Rightarrow> snapshot \<Rightarrow> 32 word \<Rightarrow> msg \<Rightarrow> msg" where
  "negative zone snap ttl m = m\<lparr>Ns := [soa zone (snap_Generation snap) ttl]\<rparr>"

definition apex_answer :: "string \<Rightarrow> snapshot \<Rightarrow> 32 word \<Rightarrow> rtype \<Rightarrow> msg \<Rightarrow> msg" where
  "apex_answer zone snap ttl qtype m =
     (if qtype = TypeSOA then m\<lparr>Answer := [soa zone (snap_Generation snap) ttl]\<rparr>
      else if qtype = TypeNS then
        m\<lparr>Answer := [\<lparr>rr_Name = zone, rr_Rrtype = TypeNS, rr_Class = ClassINET, rr_Ttl = ttl,
                     rr_Data = RD_NS (''ns.'' @ zone)\<rparr>]\<rparr>
      else negative zone snap ttl m)"

definition ptr_answer :: "dnslib \<Rightarrow> string \<Rightarrow> snapshot \<Rightarrow> string \<Rightarrow> string \<Rightarrow> 32 word \<Rightarrow> msg \<Rightarrow> msg" where
  "ptr_answer L zone snap view name ttl m =
     (let target = LookupPTR snap view name
      in if target \<noteq> [] then
           m\<lparr>Answer := [\<lparr>rr_Name = name, rr_Rrtype = TypePTR, rr_Class = ClassINET, rr_Ttl = ttl,
                        rr_Data = RD_PTR (lib_Fqdn L target)\<rparr>]\<rparr>
         else negative zone snap ttl (m\<lparr>Rcode := RcodeNameError\<rparr>))"

definition forward_answer ::
  "dnslib \<Rightarrow> authority \<Rightarrow> string \<Rightarrow> snapshot \<Rightarrow> string \<Rightarrow> string \<Rightarrow> rtype \<Rightarrow> 32 word \<Rightarrow> msg \<Rightarrow> msg" where
  "forward_answer L a zone snap view name qtype ttl m =
     (case Lookup snap view name of
        [] \<Rightarrow> negative zone snap ttl (m\<lparr>Rcode := RcodeNameError\<rparr>)
      | r # rs \<Rightarrow>
          if zrr_Type r = ''CNAME''
          then m\<lparr>Answer := chase L a zone snap view name (zrr_Value r) qtype 0 ttl\<rparr>
          else let ans = List.map_filter (\<lambda>z. toRR z qtype ttl) (r # rs)
               in if ans = [] then negative zone snap ttl m else m\<lparr>Answer := ans\<rparr>)"

definition auth_Answer :: "dnslib \<Rightarrow> authority \<Rightarrow> snapshot option \<Rightarrow> string \<Rightarrow> question \<Rightarrow> msg option" where
  "auth_Answer L a msnap view q =
     (case msnap of
        None \<Rightarrow> None
      | Some snap \<Rightarrow>
          let zone = au_Zone a
          in if \<not> owns L a zone (q_Name q) then None
             else let ttl = au_ttl a;
                      m = new_msg\<lparr>Authoritative := True, Question := [q]\<rparr>;
                      name = ToLower (lib_Fqdn L (q_Name q))
                  in Some (if name = zone then apex_answer zone snap ttl (q_Qtype q) m
                           else if q_Qtype q = TypePTR then ptr_answer L zone snap view name ttl m
                           else forward_answer L a zone snap view name (q_Qtype q) ttl m))"

section \<open>Reverse names round trip\<close>

lemma Join_append_sep: "ws \<noteq> [] \<Longrightarrow> Join ws sep @ sep = concat (map (\<lambda>w. w @ sep) ws)"
proof (induction ws)
  case Nil
  then show ?case by simp
next
  case (Cons w ws)
  then show ?case by (cases ws) auto
qed

lemma digits_of_mod: "0 < b \<Longrightarrow> digits_of b n (v mod b ^ n) = digits_of b n v"
proof (induction n arbitrary: v)
  case 0
  then show ?case by simp
next
  case (Suc n)
  have "v mod b ^ Suc n = b * (v div b mod b ^ n) + v mod b"
    using zmod_zmult2_eq [of "b ^ n" v b] Suc.prems by (simp add: mult.commute)
  moreover have "(b * x + v mod b) div b = x" "(b * x + v mod b) mod b = v mod b" for x
    using Suc.prems by simp_all
  ultimately show ?case using Suc.IH [OF Suc.prems] by simp
qed

lemma digits_of_4: "digits_of 16 4 (v mod 65536) = digits_of 16 4 v"
  using digits_of_mod [of 16 4 v] by simp

lemma digits_of_add4: "digits_of 16 (n + 4) v = digits_of 16 n (v div 65536) @ digits_of 16 4 v"
  by (simp add: numeral_eq_Suc div_mult2_eq [symmetric] zdiv_zmult2_eq [symmetric])

lemma nibble_groups: "digits_of 16 (4 * n) v = concat (map (digits_of 16 4) (digits_of 65536 n v))"
proof (induction n arbitrary: v)
  case 0
  then show ?case by simp
next
  case (Suc n)
  have "digits_of 16 (4 * Suc n) v = digits_of 16 (4 * n + 4) v" by (simp add: algebra_simps)
  then show ?case using Suc by (simp only: digits_of_add4 digits_of.simps) (simp add: digits_of_4)
qed

lemma hex_num_digits:
  assumes "0 \<le> g" and "g < 65536"
  shows "hex_num (map hex_char (digits_of 16 4 g)) = g"
proof -
  have "foldl (\<lambda>a c. a * 16 + (case hex_val c of None \<Rightarrow> 0 | Some d \<Rightarrow> d)) a (map hex_char ds) = foldl (\<lambda>a d. a * 16 + d) a ds"
    if "\<forall>d \<in> set ds. 0 \<le> d \<and> d < 16" for a and ds :: "int list"
    using that by (induction ds arbitrary: a) (auto simp: hex_val_hex_char)
  then have "hex_num (map hex_char (digits_of 16 4 g)) = foldl (\<lambda>a d. a * 16 + d) 0 (digits_of 16 4 g)"
    unfolding hex_num_def using digits_of_range [of 16 _ 4 g] by simp
  also have "\<dots> = g mod 16 ^ 4" by (rule foldl_digits_of) simp
  finally show ?thesis using assms by simp
qed

lemma join_nibbles_groups:
  assumes "\<forall>c \<in> set cs. length c = 4" and "i mod 4 = 0"
  shows "join_nibbles (map (\<lambda>d. [d]) (concat cs)) i = Join cs '':''"
  using assms
proof (induction cs arbitrary: i)
  case Nil
  then show ?case by simp
next
  case (Cons c cs)
  from Cons.prems(1) obtain w x y z where c: "c = [w, x, y, z]" by (auto simp: numeral_eq_Suc length_Suc_conv)
  have m: "Suc i mod 4 = 1" "Suc (Suc i) mod 4 = 2" "Suc (Suc (Suc i)) mod 4 = 3" "Suc (Suc (Suc (Suc i))) mod 4 = 0"
    using Cons.prems(2) by presburger+
  have IH: "join_nibbles (map (\<lambda>d. [d]) (concat cs)) (Suc (Suc (Suc (Suc i)))) = Join cs '':''"
    by (rule Cons.IH) (use Cons.prems m in auto)
  have ne: "concat cs = [] \<longleftrightarrow> cs = []" using Cons.prems(1) by (cases cs) auto
  show ?case using c m IH ne by (cases cs) auto
qed

lemma ParseAddr_nibbles:
  "ParseAddr (join_nibbles (map (\<lambda>d. [hex_char d]) (nibbles w)) 0) = Some (Addr6 w [])"
proof -
  let ?ws = "map (\<lambda>g. map hex_char (digits_of 16 4 g)) (groups w)"
  have g: "0 \<le> g \<and> g < 65536" if "g \<in> set (groups w)" for g
    using that digits_of_range [of 65536 g] by (simp add: groups_def)
  have "nibbles w = concat (map (digits_of 16 4) (groups w))"
    using nibble_groups [of 8] by (simp add: nibbles_def groups_def)
  then have "map (\<lambda>d. [hex_char d]) (nibbles w) = map (\<lambda>d. [d]) (concat ?ws)"
    by (simp add: map_concat comp_def)
  then have "join_nibbles (map (\<lambda>d. [hex_char d]) (nibbles w)) 0 = Join ?ws '':''"
    using join_nibbles_groups [of ?ws 0] by simp
  moreover have "ParseAddr (Join ?ws '':'') = Some (Addr6 (of_groups (map hex_num ?ws)) [])"
  proof (rule ParseAddr_groups)
    show "length ?ws = 8" by (simp add: groups_def)
    show "length v = 4 \<and> list_all is_hex v" if "v \<in> set ?ws" for v
      using that digits_of_range [of 16] by (auto simp: list_all_iff is_hex_hex_char)
  qed
  moreover have "map hex_num ?ws = groups w"
    using g by (simp add: map_idI hex_num_digits comp_def)
  ultimately show ?thesis by (simp add: of_groups_groups)
qed

lemma ToLower_show_dec: "0 \<le> n \<Longrightarrow> ToLower (show_dec n) = show_dec n"
  using show_dec_digits [of n] is_digit_not_upper by (intro ToLower_id) (auto simp: list_all_iff)

lemma ToLower_Join: "ToLower (Join ws sep) = Join (map ToLower ws) (ToLower sep)"
  by (induction ws sep rule: Join.induct) auto

lemma arpa_suffixes [simp]:
  "ToLower ''.in-addr.arpa.'' = ''.in-addr.arpa.''" "ToLower ''.ip6.arpa.'' = ''.ip6.arpa.''" "ToLower ''.'' = ''.''"
  by code_simp+

lemma arpaName_4:
  "addrFromArpa (arpaName (Addr4 w)) = Some (Addr4 w)"
proof -
  let ?ws = "map show_dec (rev (octets w))"
  have o: "0 \<le> b \<and> b < 256" if "b \<in> set (octets w)" for b using octets_range that by blast
  have low: "ToLower (arpaName (Addr4 w)) = Join ?ws ''.'' @ ''.in-addr.arpa'' @ ''.''"
  proof -
    have "map ToLower ?ws = ?ws" using o by (auto simp: ToLower_show_dec)
    then show ?thesis by (simp add: arpaName_def ToLower_Join del: map_map)
  qed
  have "octets w \<noteq> []" by (metis length_octets list.size(3) zero_neq_numeral)
  then have sp: "Split (Join ?ws ''.'') CHR ''.'' = ?ws"
    using o show_dec_no_dot by (intro Split_Join) (auto simp: list_all_iff)
  have "TrimSuffix (Join ?ws ''.'' @ ''.in-addr.arpa'' @ ''.'') ''.'' = Join ?ws ''.'' @ ''.in-addr.arpa''"
    using TrimSuffix_append [of "Join ?ws ''.'' @ ''.in-addr.arpa''" "''.''"] by simp
  then have "addrFromArpa (arpaName (Addr4 w)) = ParseAddr (Join (map show_dec (octets w)) ''.'')"
    unfolding addrFromArpa_def low by (simp add: sp rev_map)
  then show ?thesis using ParseAddr_fields [of "octets w"] o by (simp add: of_octets_octets)
qed

lemma hex_digit_dot: "0 \<le> d \<Longrightarrow> d < 16 \<Longrightarrow> hex_char d \<noteq> CHR ''.''"
  using is_hex_hex_char is_hex_neq by blast

lemma arpaName_6:
  assumes "\<not> in4in6 w"
  shows "addrFromArpa (arpaName (Addr6 w z)) = Some (Addr6 w [])"
proof -
  let ?ws = "map (\<lambda>d. [hex_char d]) (rev (nibbles w))"
  have d: "0 \<le> b \<and> b < 16" if "b \<in> set (nibbles w)" for b
    using digits_of_range [of 16 b 32 "uint w"] that by (simp add: nibbles_def)
  have len: "length (nibbles w) = 32" by (simp add: nibbles_def)
  then have ne: "?ws \<noteq> []" by auto
  have "concat (map (\<lambda>d. [hex_char d, CHR ''.'']) (rev (nibbles w))) = Join ?ws ''.'' @ ''.''"
    using Join_append_sep [OF ne, of "''.''"] by (simp add: comp_def)
  then have "arpaName (Addr6 w z) = Join ?ws ''.'' @ ''.ip6.arpa.''" using assms by (simp add: arpaName_def)
  moreover have "map ToLower ?ws = ?ws"
    using d by (auto simp: ToLower_def lower_char_id hex_char_not_upper)
  ultimately have low: "ToLower (arpaName (Addr6 w z)) = Join ?ws ''.'' @ ''.ip6.arpa'' @ ''.''"
    by (simp add: ToLower_Join del: map_map)
  have sp: "Split (Join ?ws ''.'') CHR ''.'' = ?ws"
    using d ne hex_digit_dot by (intro Split_Join) (auto simp: list_all_iff)
  have tr: "TrimSuffix (Join ?ws ''.'' @ ''.ip6.arpa'' @ ''.'') ''.'' = Join ?ws ''.'' @ ''.ip6.arpa''"
    using TrimSuffix_append [of "Join ?ws ''.'' @ ''.ip6.arpa''" "''.''"] by simp
  have no4: "\<not> HasSuffix (Join ?ws ''.'' @ ''.ip6.arpa'') ''.in-addr.arpa''"
  proof
    assume "HasSuffix (Join ?ws ''.'' @ ''.ip6.arpa'') ''.in-addr.arpa''"
    then obtain p where "Join ?ws ''.'' @ ''.ip6.arpa'' = p @ ''.in-addr.arpa''" by (auto simp: HasSuffix_iff)
    then have "rev (''.ip6.arpa'') @ rev (Join ?ws ''.'') = rev (''.in-addr.arpa'') @ rev p"
      by (metis rev_append)
    then show False by simp
  qed
  have "addrFromArpa (arpaName (Addr6 w z)) = ParseAddr (join_nibbles (rev ?ws) 0)"
    unfolding addrFromArpa_def low tr Let_def using no4 len by (simp add: sp)
  then show ?thesis using ParseAddr_nibbles by (simp add: rev_map)
qed

lemma addrFromArpa_arpaName:
  assumes "addr_valid a"
  shows "addrFromArpa (arpaName a) = Some (WithZone (Unmap a) [])"
proof (cases a)
  case AddrZero
  with assms show ?thesis by (simp add: addr_valid_def)
next
  case (Addr4 w)
  then show ?thesis by (simp add: arpaName_4)
next
  case (Addr6 w z)
  have "arpaName (Addr6 w z) = arpaName (Unmap (Addr6 w z))"
    by (simp add: arpaName_def split: addr.split)
  then show ?thesis using Addr6 arpaName_4 arpaName_6 [of w z] by (cases "in4in6 w") auto
qed

text \<open>
  Reverse names round trip. The name the zone derives for an address is read back by the
  query path as that address (an IPv4-mapped one as the IPv4 address it stands for, and
  without a zone), so a PTR record is found under the address it was made for.
\<close>

theorem arpa_round_trip:
  assumes "addr_valid a"
  shows "addrFromArpa (arpaName a) = Some (WithZone (Unmap a) [])"
  by (rule addrFromArpa_arpaName [OF assms])

theorem arpa_round_trip_witness:
  "arpaName (Addr4 0x0A000203) = ''3.2.0.10.in-addr.arpa.'' \<and>
   addrFromArpa ''3.2.0.10.in-addr.arpa.'' = Some (Addr4 0x0A000203)"
proof -
  have "arpaName (Addr4 0x0A000203) = ''3.2.0.10.in-addr.arpa.''" by code_simp
  with arpa_round_trip [of "Addr4 0x0A000203"] show ?thesis by (simp add: addr_valid_def)
qed

section \<open>The contract of an authoritative answer\<close>

definition local_rr :: "32 word \<Rightarrow> rr \<Rightarrow> bool" where
  "local_rr ttl r = (rr_Ttl r = ttl \<and> rr_Class r = ClassINET)"

lemma toRR_local: "toRR z qtype ttl = Some r \<Longrightarrow> local_rr ttl r \<and> rr_Rrtype r \<noteq> TypeCNAME"
  by (auto simp: toRR_def local_rr_def TypeA_def TypeAAAA_def TypeCNAME_def split: if_splits)

lemma toRR_list:
  "r \<in> set (List.map_filter (\<lambda>z. toRR z qtype ttl) zs) \<Longrightarrow> local_rr ttl r \<and> rr_Rrtype r \<noteq> TypeCNAME"
  by (induction zs) (auto simp: List.map_filter_simps dest: toRR_local split: option.splits)

lemma toRR_no_cname: "filter (\<lambda>r. rr_Rrtype r = TypeCNAME) (List.map_filter (\<lambda>z. toRR z qtype ttl) zs) = []"
  using toRR_list by (auto simp: filter_empty_conv)

lemma soa_local [simp]: "local_rr ttl (soa zone serial ttl)"
  by (simp add: local_rr_def soa_def)

lemma chase_bound:
  "chase L a zn snap view name target qtype depth ttl \<noteq> [] \<and>
   length (filter (\<lambda>r. rr_Rrtype r = TypeCNAME) (chase L a zn snap view name target qtype depth ttl)) \<le> Suc (cnameChaseDepth - depth) \<and>
   (\<forall>r \<in> set (chase L a zn snap view name target qtype depth ttl). local_rr ttl r)"
proof (induction L a zn snap view name target qtype depth ttl rule: chase.induct)
  case (1 L a zn snap view name target qtype depth ttl)
  have c: "local_rr ttl (cname_rr L name target ttl)" by (simp add: cname_rr_def local_rr_def)
  show ?case
  proof (cases "depth \<ge> cnameChaseDepth \<or> qtype = TypeCNAME \<or> \<not> owns L a zn target")
    case True
    then show ?thesis using c by (simp add: chase.simps [of L a zn snap view name target qtype depth ttl] Let_def)
  next
    case False
    let ?nxt = "Lookup snap view (lib_Fqdn L target)"
    let ?out = "cname_rr L name target ttl # List.map_filter (\<lambda>r. toRR r qtype ttl) (takeWhile not_cname ?nxt)"
    have out: "\<forall>r \<in> set ?out. local_rr ttl r" "length (filter (\<lambda>r. rr_Rrtype r = TypeCNAME) ?out) \<le> 1"
      using c toRR_list [of _ qtype ttl] toRR_no_cname [of qtype ttl] by auto
    show ?thesis
    proof (cases "dropWhile not_cname ?nxt")
      case Nil
      then have "chase L a zn snap view name target qtype depth ttl = ?out"
        using False by (simp add: chase.simps [of L a zn snap view name target qtype depth ttl] Let_def del: dropWhile_eq_Nil_conv)
      then show ?thesis using out by simp
    next
      case (Cons z zs)
      then have eq: "chase L a zn snap view name target qtype depth ttl =
        ?out @ chase L a zn snap view (lib_Fqdn L target) (zrr_Value z) qtype (depth + 1) ttl"
        using False by (simp add: chase.simps [of L a zn snap view name target qtype depth ttl] Let_def)
      from "1.IH" [OF refl False refl refl Cons] out show ?thesis
        unfolding eq using False by (auto simp: Suc_diff_Suc not_le)
    qed
  qed
qed

definition reply_ok :: "authority \<Rightarrow> snapshot \<Rightarrow> question \<Rightarrow> msg \<Rightarrow> bool" where
  "reply_ok a snap q m =
     (Authoritative m \<and> Question m = [q] \<and>
      (\<forall>r \<in> set (Answer m) \<union> set (Ns m). local_rr (au_ttl a) r) \<and>
      (if Answer m = [] then Ns m = [soa (au_Zone a) (snap_Generation snap) (au_ttl a)] else Ns m = []) \<and>
      (Rcode m = RcodeSuccess \<or> Rcode m = RcodeNameError \<and> Answer m = []) \<and>
      length (filter (\<lambda>r. rr_Rrtype r = TypeCNAME) (Answer m)) \<le> 9)"

definition auth_base :: "question \<Rightarrow> msg" where
  "auth_base q = new_msg\<lparr>Authoritative := True, Question := [q]\<rparr>"

lemma negative_ok:
  "reply_ok a snap q (negative (au_Zone a) snap (au_ttl a) (auth_base q))"
  "reply_ok a snap q (negative (au_Zone a) snap (au_ttl a) (auth_base q\<lparr>Rcode := RcodeNameError\<rparr>))"
  by (simp_all add: reply_ok_def negative_def auth_base_def new_msg_def RcodeSuccess_def)

lemma positive_ok:
  assumes "rs \<noteq> []" and "\<forall>r \<in> set rs. local_rr (au_ttl a) r" and "length (filter (\<lambda>r. rr_Rrtype r = TypeCNAME) rs) \<le> 9"
  shows "reply_ok a snap q (auth_base q\<lparr>Answer := rs\<rparr>)"
  using assms by (simp add: reply_ok_def auth_base_def new_msg_def RcodeSuccess_def)

lemma apex_ok: "reply_ok a snap q (apex_answer (au_Zone a) snap (au_ttl a) t (auth_base q))"
  using negative_ok(1) [of a snap q]
  by (simp add: apex_answer_def positive_ok) (simp add: positive_ok local_rr_def)

lemma ptr_ok: "reply_ok a snap q (ptr_answer L (au_Zone a) snap view name (au_ttl a) (auth_base q))"
  using negative_ok(2) [of a snap q] by (simp add: ptr_answer_def Let_def positive_ok local_rr_def)

lemma forward_ok: "reply_ok a snap q (forward_answer L a (au_Zone a) snap view name t (au_ttl a) (auth_base q))"
proof (cases "Lookup snap view name")
  case Nil
  then show ?thesis using negative_ok(2) [of a snap q] by (simp add: forward_answer_def)
next
  case (Cons r rs)
  let ?ch = "chase L a (au_Zone a) snap view name (zrr_Value r) t 0 (au_ttl a)"
  let ?ans = "List.map_filter (\<lambda>z. toRR z t (au_ttl a)) (r # rs)"
  have ch: "reply_ok a snap q (auth_base q\<lparr>Answer := ?ch\<rparr>)"
    by (rule positive_ok) (use chase_bound [of L a "au_Zone a" snap view name "zrr_Value r" t 0 "au_ttl a"] in \<open>auto simp: cnameChaseDepth_def\<close>)
  have ans: "?ans \<noteq> [] \<Longrightarrow> reply_ok a snap q (auth_base q\<lparr>Answer := ?ans\<rparr>)"
    by (rule positive_ok) (use toRR_list [of _ t "au_ttl a" "r # rs"] toRR_no_cname [of t "au_ttl a" "r # rs"] in auto)
  show ?thesis
    using Cons ch ans negative_ok(1) [of a snap q] unfolding forward_answer_def Let_def by simp
qed

text \<open>
  C25: the contract of an authoritative answer. A reply is built exactly for the names the server
  owns. It has the AA bit; every record in it is of class IN and carries the one TTL
  that was read; it has either answers or, when the name or the type does not exist, exactly the SOA in
  the authority section; its code is NOERROR or NXDOMAIN, and NXDOMAIN has no answers; and it
  follows at most eight CNAMEs after the first, so a loop of aliases still gets a reply.
\<close>

theorem auth_Answer_contract:
  "(auth_Answer L a (Some snap) view q = None \<longleftrightarrow> \<not> Owns L a (q_Name q)) \<and>
   (\<forall>m. auth_Answer L a (Some snap) view q = Some m \<longrightarrow>
      Authoritative m \<and> Question m = [q] \<and>
      (\<forall>r \<in> set (Answer m) \<union> set (Ns m). rr_Ttl r = au_ttl a \<and> rr_Class r = ClassINET) \<and>
      (if Answer m = [] then Ns m = [soa (au_Zone a) (snap_Generation snap) (au_ttl a)] else Ns m = []) \<and>
      (Rcode m = RcodeSuccess \<or> Rcode m = RcodeNameError \<and> Answer m = []) \<and>
      length (filter (\<lambda>r. rr_Rrtype r = TypeCNAME) (Answer m)) \<le> 9)"
proof (intro conjI allI impI)
  show "auth_Answer L a (Some snap) view q = None \<longleftrightarrow> \<not> Owns L a (q_Name q)"
    by (simp add: auth_Answer_def Owns_def Let_def)
next
  fix m
  assume "auth_Answer L a (Some snap) view q = Some m"
  then have ok: "reply_ok a snap q m"
    using apex_ok ptr_ok forward_ok
    by (auto simp: auth_Answer_def Let_def simp flip: auth_base_def split: if_splits)
  then show "Authoritative m" "Question m = [q]"
    "\<forall>r \<in> set (Answer m) \<union> set (Ns m). rr_Ttl r = au_ttl a \<and> rr_Class r = ClassINET"
    "if Answer m = [] then Ns m = [soa (au_Zone a) (snap_Generation snap) (au_ttl a)] else Ns m = []"
    "Rcode m = RcodeSuccess \<or> Rcode m = RcodeNameError \<and> Answer m = []"
    "length (filter (\<lambda>r. rr_Rrtype r = TypeCNAME) (Answer m)) \<le> 9"
    unfolding reply_ok_def local_rr_def by blast+
qed

definition home_auth :: authority where
  "home_auth = NewAuthoritative plain_lib ''home.arpa'' 60 [Prefix (Addr4 0x0A000000) 8]"

definition home_snapshot :: snapshot where
  "home_snapshot = (case Build home_input of Inr s \<Rightarrow> s | Inl _ \<Rightarrow>
     \<lparr>snap_Generation = 0, snap_Matcher = \<lparr>entries = [], names = []\<rparr>, snap_Views = [], snap_Zone = [], snap_ReverseZones = []\<rparr>)"

theorem auth_Answer_contract_witness:
  "\<exists>m. auth_Answer plain_lib home_auth (Some home_snapshot) ''vpn'' \<lparr>q_Name = ''Files.home.arpa'', q_Qtype = TypeA, q_Qclass = ClassINET\<rparr> = Some m \<and>
      Authoritative m \<and> map rr_Data (Answer m) = [RD_A (Some (Addr4 0x0A080002))]"
proof -
  let ?q = "\<lparr>q_Name = ''Files.home.arpa'', q_Qtype = TypeA, q_Qclass = ClassINET\<rparr>"
  let ?r = "auth_Answer plain_lib home_auth (Some home_snapshot) ''vpn'' ?q"
  have "map_option (\<lambda>m. map rr_Data (Answer m)) ?r = Some [RD_A (Some (Addr4 0x0A080002))]" by code_simp
  then obtain m where m: "?r = Some m" "map rr_Data (Answer m) = [RD_A (Some (Addr4 0x0A080002))]" by (cases ?r) simp_all
  have "Authoritative m"
    using conjunct2 [OF auth_Answer_contract, rule_format, OF m(1)] by simp
  with m show ?thesis by (intro exI [of _ m] conjI)
qed

section \<open>Derived PTR records are answered\<close>

lemma arpaName_suffix:
  assumes "addr_valid a"
  shows "HasSuffix (arpaName a) ''.in-addr.arpa.'' \<or> HasSuffix (arpaName a) ''.ip6.arpa.''"
proof (cases "Unmap a")
  case AddrZero
  with assms show ?thesis by (cases a) (auto simp: addr_valid_def split: if_splits)
next
  case (Addr4 w)
  then show ?thesis by (simp add: arpaName_def)
next
  case (Addr6 w z)
  have ne: "nibbles w \<noteq> []" by (metis length_digits_of list.size(3) nibbles_def zero_neq_numeral)
  then have "\<exists>p. concat (map (\<lambda>d. [hex_char d, CHR ''.'']) (rev (nibbles w))) = p @ ''.''"
    by (cases "nibbles w") (auto intro!: exI [of _ "concat (map (\<lambda>d. [hex_char d, CHR ''.'']) (rev (tl (nibbles w)))) @ [hex_char (hd (nibbles w))]"])
  then obtain p where "concat (map (\<lambda>d. [hex_char d, CHR ''.'']) (rev (nibbles w))) = p @ ''.''" by blast
  then have "arpaName a = p @ ''.ip6.arpa.''" using Addr6 by (simp add: arpaName_def)
  then show ?thesis by simp
qed

definition arpa_char :: "char \<Rightarrow> bool" where
  "arpa_char c = (\<not> is_upper c \<and> c \<noteq> CHR 0x5C)"

lemma arpaName_chars: "c \<in> set (arpaName a) \<Longrightarrow> arpa_char c"
proof -
  assume c: "c \<in> set (arpaName a)"
  have const: "list_all arpa_char ''.in-addr.arpa.''" "list_all arpa_char ''0.ip6.arpa.''" by code_simp+
  have hexd: "arpa_char (hex_char d)" if "0 \<le> d" "d < 16" for d
    using that hex_char_not_upper code_hex_char [of d] by (auto simp: arpa_char_def char_code_def split: if_splits)
  show ?thesis
  proof (cases "Unmap a")
    case AddrZero
    then show ?thesis using c const by (auto simp: arpaName_def)
  next
    case (Addr4 w)
    have "arpa_char x" if "x \<in> set (show_dec b)" "b \<in> set (octets w)" for x b
    proof -
      have "is_digit x" using that show_dec_digits [of b] octets_range by (auto simp: list_all_iff)
      then show ?thesis by (auto simp: arpa_char_def is_digit_not_upper is_digit_def char_code_def)
    qed
    then show ?thesis using c const Addr4 set_Join [of "map show_dec (rev (octets w))" "''.''"]
      by (auto simp: arpaName_def)
  next
    case (Addr6 w z)
    have "arpa_char (hex_char d)" if "d \<in> set (nibbles w)" for d
      using hexd digits_of_range [of 16 d 32 "uint w"] that by (simp add: nibbles_def)
    then show ?thesis using c const Addr6 by (auto simp: arpaName_def)
  qed
qed

lemma arpaName_lower: "ToLower (arpaName a) = arpaName a" "CHR 0x5C \<notin> set (arpaName a)"
  using arpaName_chars [of _ a] by (auto simp: arpa_char_def list_all_iff intro!: ToLower_id)

lemma HasSuffix_dot: "HasSuffix s (t @ ''.'') \<Longrightarrow> HasSuffix s ''.''"
  by (auto simp: HasSuffix_iff)

lemma arpaName_Fqdn:
  assumes "Fqdn_ok f" and "addr_valid a"
  shows "f (arpaName a) = arpaName a"
proof -
  have "HasSuffix (arpaName a) ''.''"
    using arpaName_suffix [OF assms(2)] HasSuffix_dot [of _ "''.in-addr.arpa''"] HasSuffix_dot [of _ "''.ip6.arpa''"] by auto
  then show ?thesis using Fqdn_dot [OF assms(1) arpaName_lower(2)] by simp
qed

text \<open>
  A derived PTR record is reachable. When the snapshot holds a reverse name for an address
  inside one of the configured reverse zones, a PTR query for that address is ours to answer, and the
  answer is exactly that name.
\<close>

theorem derived_PTR_is_answered:
  assumes "Fqdn_ok (lib_Fqdn L)" and "au_reverseZones au = Some zs" and "inZones a zs" and "Unmap a = a" and "WithZone a [] = a"
    and "arpaName a \<noteq> au_Zone au"
    and "LookupPTR snap view (arpaName a) = target" and "target \<noteq> []"
  shows "\<exists>m. auth_Answer L au (Some snap) view \<lparr>q_Name = arpaName a, q_Qtype = TypePTR, q_Qclass = c\<rparr> = Some m \<and>
    Rcode m = RcodeSuccess \<and> map rr_Data (Answer m) = [RD_PTR (lib_Fqdn L target)]"
proof -
  have v: "addr_valid a"
    using assms(3) Contains_valid_addr by (auto simp: inZones_def list_ex_iff addr_valid_def)
  have n: "ToLower (lib_Fqdn L (arpaName a)) = arpaName a"
    by (simp add: arpaName_Fqdn [OF assms(1) v] arpaName_lower(1))
  have "addrFromArpa (arpaName a) = Some a" using addrFromArpa_arpaName [OF v] assms(4,5) by simp
  then have "owns L au (au_Zone au) (arpaName a)"
    using n arpaName_suffix [OF v] assms(2,3) by (auto simp: owns_def Let_def inZones_def)
  then show ?thesis
    using n assms(6-8)
    by (simp add: auth_Answer_def Let_def ptr_answer_def new_msg_def RcodeSuccess_def)
qed

theorem derived_PTR_is_answered_witness:
  "\<exists>m. auth_Answer plain_lib home_auth (Some home_snapshot) [] \<lparr>q_Name = arpaName (Addr4 0x0A000002), q_Qtype = TypePTR, q_Qclass = ClassINET\<rparr> = Some m \<and>
    map rr_Data (Answer m) = [RD_PTR ''nas.home.arpa.'']"
proof -
  have z: "au_reverseZones home_auth = Some [Prefix (Addr4 0x0A000000) 8]" by code_simp
  have i: "inZones (Addr4 0x0A000002) [Prefix (Addr4 0x0A000000) 8]" by code_simp
  have f: "Fqdn_ok (lib_Fqdn plain_lib)" using plain_lib_ok by (simp add: dnslib_ok_def)
  have n: "arpaName (Addr4 0x0A000002) \<noteq> au_Zone home_auth" by code_simp
  have p: "LookupPTR home_snapshot [] (arpaName (Addr4 0x0A000002)) = ''nas.home.arpa.''"
    "lib_Fqdn plain_lib ''nas.home.arpa.'' = ''nas.home.arpa.''" by code_simp+
  from derived_PTR_is_answered [OF f z i _ _ n p(1), of ClassINET] p(2) show ?thesis by auto
qed

section \<open>NXDOMAIN for a name that exists\<close>

lemma nxdomain_evaluates:
  "HasName home_snapshot [] ''nas.home.arpa.''"
  "map_option Rcode (auth_Answer plain_lib home_auth (Some home_snapshot) []
     \<lparr>q_Name = ''nas.home.arpa.'', q_Qtype = TypePTR, q_Qclass = ClassINET\<rparr>) = Some RcodeNameError"
  "LookupPTR home_snapshot [] ''2.0.0.10.in-addr.arpa.'' = ''nas.home.arpa.''"
  "map_option Rcode (auth_Answer plain_lib home_auth (Some home_snapshot) []
     \<lparr>q_Name = ''2.0.0.10.in-addr.arpa.'', q_Qtype = TypeA, q_Qclass = ClassINET\<rparr>) = Some RcodeNameError"
  by code_simp+

text \<open>
  Some names that exist are answered NXDOMAIN. A PTR query for a host name that has an
  address, and an address query for a reverse name that has a PTR record, both get NXDOMAIN, where
  the name exists with another type and the answer is NODATA: \<open>HasName\<close>, which tells
  the two apart, is never consulted.
\<close>

theorem existing_name_gets_nxdomain:
  "HasName home_snapshot [] ''nas.home.arpa.'' \<and>
   map_option Rcode (auth_Answer plain_lib home_auth (Some home_snapshot) []
     \<lparr>q_Name = ''nas.home.arpa.'', q_Qtype = TypePTR, q_Qclass = ClassINET\<rparr>) = Some RcodeNameError \<and>
   LookupPTR home_snapshot [] ''2.0.0.10.in-addr.arpa.'' = ''nas.home.arpa.'' \<and>
   map_option Rcode (auth_Answer plain_lib home_auth (Some home_snapshot) []
     \<lparr>q_Name = ''2.0.0.10.in-addr.arpa.'', q_Qtype = TypeA, q_Qclass = ClassINET\<rparr>) = Some RcodeNameError"
  using nxdomain_evaluates by blast

end
