(* ===== verification/Zone_Holder.thy ===== *)
theory Zone_Holder
  imports Zone
begin

text \<open>
  Properties of \<^verbatim>\<open>internal/zone/holder.go\<close>, run by one goroutine and by several, and of names
  and tags in \<^verbatim>\<open>snapshot.go\<close> where the code and its documentation part.
\<close>

section \<open>One goroutine\<close>

definition zone_build :: "(zone_error, zinput) result \<Rightarrow> zholder \<Rightarrow> (zone_error, snapshot) result" where
  "zone_build src h = (case src of Inl e \<Rightarrow> Inl e | Inr inp \<Rightarrow> Build (inp\<lparr>in_Generation := zh_gen h + 1\<rparr>))"

interpretation zh: snapshot_holder Rebuild Current zone_build
  by unfold_locales
     (auto simp: Rebuild_def Current_def zone_build_def Let_def split: sum.splits)

definition zone_run :: "(zone_error, zinput) result list \<Rightarrow> zholder \<Rightarrow> zholder" where
  "zone_run srcs h = fold (\<lambda>src h. snd (Rebuild src h)) srcs h"

text \<open>
  A rebuild is all-or-nothing. When it reports an error the snapshot being served is the one
  from before; when it reports none, the served snapshot is the complete build of what the
  source returned, stamped with the next generation.
\<close>

theorem Rebuild_all_or_nothing:
  "(case fst (Rebuild src h) of
      Some e \<Rightarrow> Current (snd (Rebuild src h)) = Current h
    | None \<Rightarrow> \<exists>inp s. src = Inr inp \<and> Build (inp\<lparr>in_Generation := zh_gen h + 1\<rparr>) = Inr s \<and>
        Current (snd (Rebuild src h)) = Some s \<and>
        snap_Generation s = zh_gen h + 1 \<and> Generation (snd (Rebuild src h)) = zh_gen h + 1)"
proof (cases "zone_build src h")
  case (Inl e)
  with zh.rebuild_fails show ?thesis by fastforce
next
  case (Inr s)
  note zh.rebuild_builds [OF Inr]
  moreover obtain inp where inp: "src = Inr inp" "Build (inp\<lparr>in_Generation := zh_gen h + 1\<rparr>) = Inr s"
    using Inr by (auto simp: zone_build_def split: sum.splits)
  moreover have "snap_Generation s = zh_gen h + 1"
    using Build_InrE [OF inp(2)] by (metis zinput.select_convs(7) zinput.surjective zinput.update_convs(7))
  ultimately show ?thesis by (auto simp: Rebuild_def Generation_def Let_def)
qed

lemma zone_run_serving: "Current h \<noteq> None \<Longrightarrow> Current (zone_run srcs h) \<noteq> None"
  unfolding zone_run_def by (rule zh.run_still_serving)

section \<open>Several goroutines\<close>

text \<open>
  \<^verbatim>\<open>Rebuild\<close> takes no lock. Its calls to the source, to the generation counter and to the
  published pointer are atomic one by one, and other goroutines run between them: the registry,
  the lease poller and the DHCP server all rebuild. A read of the source that fails ends the call. A goroutine's program counter says which
  of the calls it has made.
\<close>

datatype zpc = ZIdle | ZRead zinput | ZReserved zinput | ZBuilt snapshot

record zsys =
  zs_src :: zinput
  zs_gen :: "32 word"
  zs_cur :: "snapshot option"
  zs_pc :: "nat \<Rightarrow> zpc"

definition zs_init :: "zinput \<Rightarrow> zsys" where
  "zs_init inp = \<lparr>zs_src = inp, zs_gen = 0, zs_cur = None, zs_pc = (\<lambda>_. ZIdle)\<rparr>"

inductive zstep :: "zsys \<Rightarrow> zsys \<Rightarrow> bool" where
  z_write: "zstep s (s\<lparr>zs_src := inp\<rparr>)"
| z_read: "zs_pc s i = ZIdle \<Longrightarrow> zstep s (s\<lparr>zs_pc := (zs_pc s)(i := ZRead (zs_src s))\<rparr>)"
| z_refused: "zs_pc s i = ZIdle \<Longrightarrow> zstep s s"
| z_reserve: "zs_pc s i = ZRead inp \<Longrightarrow>
    zstep s (s\<lparr>zs_gen := zs_gen s + 1,
               zs_pc := (zs_pc s)(i := ZReserved (inp\<lparr>in_Generation := zs_gen s + 1\<rparr>))\<rparr>)"
| z_build: "zs_pc s i = ZReserved inp \<Longrightarrow> Build inp = Inr snap \<Longrightarrow>
    zstep s (s\<lparr>zs_pc := (zs_pc s)(i := ZBuilt snap)\<rparr>)"
| z_fail: "zs_pc s i = ZReserved inp \<Longrightarrow> Build inp = Inl e \<Longrightarrow>
    zstep s (s\<lparr>zs_pc := (zs_pc s)(i := ZIdle)\<rparr>)"
| z_publish: "zs_pc s i = ZBuilt snap \<Longrightarrow>
    zstep s (s\<lparr>zs_cur := Some snap, zs_pc := (zs_pc s)(i := ZIdle)\<rparr>)"

inductive zreach :: "zsys \<Rightarrow> bool" where
  z_start: "zreach (zs_init inp)"
| z_next: "zreach s \<Longrightarrow> zstep s t \<Longrightarrow> zreach t"

text \<open>Only a complete build is ever published, whatever the interleaving.\<close>

definition zs_inv :: "zsys \<Rightarrow> bool" where
  "zs_inv s = ((\<forall>snap. zs_cur s = Some snap \<longrightarrow> (\<exists>inp. Build inp = Inr snap)) \<and>
     (\<forall>i snap. zs_pc s i = ZBuilt snap \<longrightarrow> (\<exists>inp. Build inp = Inr snap)))"

lemma zstep_inv: "zstep s t \<Longrightarrow> zs_inv s \<Longrightarrow> zs_inv t"
  by (induction rule: zstep.induct) (auto simp: zs_inv_def)

lemma zreach_inv: "zreach s \<Longrightarrow> zs_inv s"
proof (induction rule: zreach.induct)
  case (z_start inp)
  show ?case by (simp add: zs_inv_def zs_init_def)
next
  case (z_next s t)
  then show ?case by (blast intro: zstep_inv)
qed

lemma zstep_cur_kept: "zstep s t \<Longrightarrow> zs_cur s \<noteq> None \<Longrightarrow> zs_cur t \<noteq> None"
  by (induction rule: zstep.induct) auto

text \<open>
  Under any interleaving of rebuilds and registry writes, a reader of the holder sees no
  snapshot or the complete result of one \<open>Build\<close>: a half-built or failed one is never
  published, and every view such a reader asks for has an index.
\<close>

theorem readers_see_complete_builds:
  assumes "zreach s" and "zs_cur s = Some snap"
  shows "\<exists>inp. Build inp = Inr snap \<and>
    (\<forall>view. buildIndex inp (effective_view inp view) (ToLower (in_Zone inp)) = Inr (index_of snap view))"
proof -
  from zreach_inv [OF assms(1)] assms(2) obtain inp where "Build inp = Inr snap"
    by (auto simp: zs_inv_def)
  then show ?thesis using Build_index_of by blast
qed

definition bare_input :: zinput where
  "bare_input = \<lparr>in_Views = [], in_Services = [], in_Records = [], in_Leases = [],
     in_Zone = ''home.arpa.'', in_ReverseZones = [], in_Generation = 0\<rparr>"

definition bare_snapshot :: "32 word \<Rightarrow> snapshot" where
  "bare_snapshot g = \<lparr>snap_Generation = g, snap_Matcher = \<lparr>entries = [], names = []\<rparr>,
     snap_Views = [([], \<lparr>Forward = [], Reverse = []\<rparr>)], snap_Zone = ''home.arpa.'', snap_ReverseZones = []\<rparr>"

lemma ToLower_home: "ToLower ''home.arpa.'' = ''home.arpa.''"
  by code_simp

lemma Build_bare: "Build (bare_input\<lparr>in_Generation := g\<rparr>) = Inr (bare_snapshot g)"
  by (simp add: Build_def NewMatcher_def bare_input_def bare_snapshot_def buildIndex_def pick_def
      m_put_def m_del_def ToLower_home)

text \<open>Goroutines 0 and 1 start one after the other and publish in the other order.\<close>

definition race :: "nat \<Rightarrow> zsys" where
  "race k = \<lparr>zs_src = bare_input,
     zs_gen = (if k < 2 then 0 else if k < 4 then 1 else 2),
     zs_cur = (if k < 7 then None else if k < 8 then Some (bare_snapshot 2) else Some (bare_snapshot 1)),
     zs_pc = (\<lambda>i. if i = 0 then (if k < 1 then ZIdle else if k < 2 then ZRead bare_input
                    else if k < 5 then ZReserved (bare_input\<lparr>in_Generation := 1\<rparr>)
                    else if k < 8 then ZBuilt (bare_snapshot 1) else ZIdle)
              else if i = 1 then (if k < 3 then ZIdle else if k < 4 then ZRead bare_input
                    else if k < 6 then ZReserved (bare_input\<lparr>in_Generation := 2\<rparr>)
                    else if k < 7 then ZBuilt (bare_snapshot 2) else ZIdle)
              else ZIdle)\<rparr>"

lemma race_start: "zreach (race 0)"
proof -
  have "race 0 = zs_init bare_input" by (simp add: race_def zs_init_def fun_eq_iff)
  then show ?thesis by (simp add: z_start)
qed

lemma race_steps:
  "zstep (race 0) (race 1)" "zstep (race 1) (race 2)" "zstep (race 2) (race 3)" "zstep (race 3) (race 4)"
  "zstep (race 4) (race 5)" "zstep (race 5) (race 6)" "zstep (race 6) (race 7)" "zstep (race 7) (race 8)"
proof -
  have "race 1 = (race 0)\<lparr>zs_pc := (zs_pc (race 0))(0 := ZRead (zs_src (race 0)))\<rparr>"
    by (simp add: race_def fun_eq_iff)
  then show "zstep (race 0) (race 1)" using z_read [of "race 0" 0] by (simp add: race_def)
  have "race 2 = (race 1)\<lparr>zs_gen := zs_gen (race 1) + 1,
      zs_pc := (zs_pc (race 1))(0 := ZReserved (bare_input\<lparr>in_Generation := zs_gen (race 1) + 1\<rparr>))\<rparr>"
    by (simp add: race_def fun_eq_iff)
  then show "zstep (race 1) (race 2)" using z_reserve [of "race 1" 0 bare_input] by (simp add: race_def)
  have "race 3 = (race 2)\<lparr>zs_pc := (zs_pc (race 2))(1 := ZRead (zs_src (race 2)))\<rparr>"
    by (simp add: race_def fun_eq_iff)
  then show "zstep (race 2) (race 3)" using z_read [of "race 2" 1] by (simp add: race_def)
  have "race 4 = (race 3)\<lparr>zs_gen := zs_gen (race 3) + 1,
      zs_pc := (zs_pc (race 3))(1 := ZReserved (bare_input\<lparr>in_Generation := zs_gen (race 3) + 1\<rparr>))\<rparr>"
    by (simp add: race_def fun_eq_iff)
  then show "zstep (race 3) (race 4)" using z_reserve [of "race 3" 1 bare_input] by (simp add: race_def)
  have "race 5 = (race 4)\<lparr>zs_pc := (zs_pc (race 4))(0 := ZBuilt (bare_snapshot 1))\<rparr>"
    by (simp add: race_def fun_eq_iff)
  then show "zstep (race 4) (race 5)" using z_build [of "race 4" 0] Build_bare by (simp add: race_def)
  have "race 6 = (race 5)\<lparr>zs_pc := (zs_pc (race 5))(1 := ZBuilt (bare_snapshot 2))\<rparr>"
    by (simp add: race_def fun_eq_iff)
  then show "zstep (race 5) (race 6)" using z_build [of "race 5" 1] Build_bare by (simp add: race_def)
  have "race 7 = (race 6)\<lparr>zs_cur := Some (bare_snapshot 2), zs_pc := (zs_pc (race 6))(1 := ZIdle)\<rparr>"
    by (simp add: race_def fun_eq_iff)
  then show "zstep (race 6) (race 7)" using z_publish [of "race 6" 1] by (simp add: race_def)
  have "race 8 = (race 7)\<lparr>zs_cur := Some (bare_snapshot 1), zs_pc := (zs_pc (race 7))(0 := ZIdle)\<rparr>"
    by (simp add: race_def fun_eq_iff)
  then show "zstep (race 7) (race 8)" using z_publish [of "race 7" 0] by (simp add: race_def)
qed

lemma race_reach: "zreach (race 7)"
  by (rule race_start race_steps z_next)+

theorem readers_see_complete_builds_witness:
  "zreach (race 7) \<and> zs_cur (race 7) = Some (bare_snapshot 2) \<and> (\<exists>inp. Build inp = Inr (bare_snapshot 2))"
  using readers_see_complete_builds [OF race_reach, of "bare_snapshot 2"] race_reach
  by (auto simp: race_def)

text \<open>
  The published serial can go backwards. Two goroutines that overlap in \<open>Rebuild\<close> can
  publish in the opposite order to the generations they reserved, and the stale snapshot then
  stays published, although the comment in the code says serials must never go backwards and the
  policy and settings holders carry a mutex against exactly this.
\<close>

theorem published_generation_can_decrease:
  "\<exists>s t a b. zreach s \<and> zstep s t \<and> zs_cur s = Some a \<and> zs_cur t = Some b \<and>
     snap_Generation b < snap_Generation a \<and> zs_pc t = (\<lambda>_. ZIdle)"
proof (intro exI conjI)
  show "zreach (race 7)" by (rule race_reach)
  show "zstep (race 7) (race 8)" by (rule race_steps)
  show "zs_cur (race 7) = Some (bare_snapshot 2)" "zs_cur (race 8) = Some (bare_snapshot 1)"
    by (simp_all add: race_def)
  show "snap_Generation (bare_snapshot 1) < snap_Generation (bare_snapshot 2)"
    by (simp add: bare_snapshot_def)
  show "zs_pc (race 8) = (\<lambda>_. ZIdle)" by (simp add: race_def fun_eq_iff)
qed

section \<open>Names and tags\<close>

definition wlan_input :: zinput where
  "wlan_input = bare_input\<lparr>in_Zone := ''lan.'', in_Services := [\<lparr>svc_ID = 1, svc_Name = ''wlan'',
       svc_Addresses = [\<lparr>addr_ID = 1, addr_Address = ''10.0.0.2'', addr_View = []\<rparr>],
       svc_Aliases = [], svc_CheckURL = [], svc_CheckInsecure = False,
       svc_ProxyAddress = [], svc_RouteViaProxy = False, svc_MAC = []\<rparr>]\<rparr>"

lemma wlan_evaluates:
  "case Build wlan_input of Inl _ \<Rightarrow> False | Inr s \<Rightarrow>
     map zrr_Value (Lookup s [] ''wlan.'') = [''10.0.0.2''] \<and> Lookup s [] ''wlan.lan.'' = []"
  by code_simp

text \<open>
  \<open>qualify\<close> cuts at a character, not at a label. In the zone \<open>lan\<close> the service
  \<open>wlan\<close> is published as the top-level name \<open>wlan.\<close>, outside the zone, and its own
  name \<open>wlan.lan.\<close> has no records.
\<close>

theorem qualify_ignores_label_boundary:
  "qualify ''wlan'' ''lan.'' = ''wlan.'' \<and>
   (\<exists>s. Build wlan_input = Inr s \<and> map zrr_Value (Lookup s [] ''wlan.'') = [''10.0.0.2''] \<and>
        Lookup s [] ''wlan.lan.'' = [])"
  using wlan_evaluates by (auto split: sum.splits) code_simp

definition tagged_input :: zinput where
  "tagged_input = bare_input\<lparr>in_Views := lan_vpn, in_Records :=
     [\<lparr>rec_ID = 1, rec_Name = ''nas.home.arpa.'', rec_Type = ''A'', rec_Value = ''10.0.0.2'', rec_View = []\<rparr>,
      \<lparr>rec_ID = 2, rec_Name = ''printer.home.arpa.'', rec_Type = ''A'', rec_Value = ''10.8.0.3'', rec_View = ''vpn''\<rparr>]\<rparr>"

lemma tagged_evaluates:
  "case Build tagged_input of Inl _ \<Rightarrow> False | Inr s \<Rightarrow>
     map zrr_Value (Lookup s ''lan'' ''nas.home.arpa.'') = [''10.0.0.2''] \<and>
     Lookup s ''vpn'' ''nas.home.arpa.'' = []"
  by code_simp

text \<open>
  One view-tagged manual record hides every untagged manual record from that view, also at
  other names. Here the record of \<open>printer\<close> tagged \<open>vpn\<close> makes \<open>nas\<close> disappear
  for VPN clients, although an untagged record is documented to be in every view.
\<close>

theorem tagged_record_hides_untagged_names:
  "\<exists>s. Build tagged_input = Inr s \<and> map zrr_Value (Lookup s ''lan'' ''nas.home.arpa.'') = [''10.0.0.2''] \<and>
     Lookup s ''vpn'' ''nas.home.arpa.'' = []"
  using tagged_evaluates by (auto split: sum.splits)

end
