(* ===== verification/DnsServer.thy ===== *)
theory DnsServer
  imports DnsForward DnsAuth Zone_Holder Policy
begin

text \<open>
  The query pipeline, \<^verbatim>\<open>internal/dnsserver/server.go\<close>: the checks, the allow-list, the view, the
  authoritative answer, the policy and the forwarder, in the order \<^verbatim>\<open>ServeDNS\<close> has them, with the one closure
  every reply goes through.

  The policy is an interface in the source and a parameter \<open>decide\<close> here. The metrics of the
  server are also the ones the forwarder's cache counts in. What surrounds one query, its
  clock, the outcome of writing the reply and the answers of the upstreams, is an \<open>env\<close>.
\<close>

section \<open>State\<close>

record log_line =
  ll_level :: string
  ll_msg :: string
  ll_args :: "(string \<times> string) list"

record peer =
  pr_udp :: bool
  pr_addr :: string

text \<open>An error of \<^verbatim>\<open>WriteMsg\<close>: its text, and the operation and cause of the \<^verbatim>\<open>net.OpError\<close> in its chain.\<close>

record write_err =
  we_text :: string
  we_op :: "(string \<times> string) option"

record env =
  ev_now :: int
  ev_d :: int
  ev_write :: "write_err option"
  ev_exch :: exch

record 'p server =
  sv_holder :: zholder
  sv_acl :: acl
  sv_auth :: authority
  sv_forwarder :: "forwarder option"
  sv_policy :: "'p option"
  sv_metrics :: metrics
  sv_logQueries :: bool
  sv_logClientIP :: bool
  sv_log :: "log_line list"

definition SetLogging :: "bool \<Rightarrow> bool \<Rightarrow> 'p server \<Rightarrow> 'p server" where
  "SetLogging queries clientIP s = s\<lparr>sv_logQueries := queries, sv_logClientIP := clientIP\<rparr>"

definition New :: "zholder \<Rightarrow> acl \<Rightarrow> authority \<Rightarrow> forwarder option \<Rightarrow> 'p option \<Rightarrow> bool \<Rightarrow> bool \<Rightarrow> 'p server" where
  "New h a au f p queries clientIP =
     SetLogging queries clientIP
       \<lparr>sv_holder = h, sv_acl = a, sv_auth = au, sv_forwarder = f, sv_policy = p, sv_metrics = NewMetrics,
        sv_logQueries = False, sv_logClientIP = False, sv_log = []\<rparr>"

section \<open>Helpers\<close>

definition sourceAddr :: "peer \<Rightarrow> addr" where
  "sourceAddr pr =
     (case SplitHostPort (pr_addr pr) of
        None \<Rightarrow> AddrZero
      | Some (host, _) \<Rightarrow>
          (case ParseAddr host of None \<Rightarrow> AddrZero | Some a \<Rightarrow> WithZone (Unmap a) []))"

definition writeErrText :: "write_err \<Rightarrow> bool \<Rightarrow> string" where
  "writeErrText e includeAddr =
     (if includeAddr then we_text e
      else case we_op e of Some (op, cause) \<Rightarrow> op @ '': '' @ cause | None \<Rightarrow> we_text e)"

definition clientUDPSize :: "dnslib \<Rightarrow> msg \<Rightarrow> int" where
  "clientUDPSize L r = (case lib_IsEdns0 L r of Some edns \<Rightarrow> lib_UDPSize L edns | None \<Rightarrow> MinMsgSize)"

definition stripOPT :: "msg \<Rightarrow> msg" where
  "stripOPT m = m\<lparr>Extra := filter (\<lambda>rr. rr_Rrtype rr \<noteq> TypeOPT) (Extra m)\<rparr>"

definition blockSOA :: "dnslib \<Rightarrow> string \<Rightarrow> 32 word \<Rightarrow> rr" where
  "blockSOA L qname ttl =
     (let n = lib_Fqdn L qname
      in \<lparr>rr_Name = n, rr_Rrtype = TypeSOA, rr_Class = ClassINET, rr_Ttl = ttl,
          rr_Data = RD_SOA \<lparr>soa_Ns = n, soa_Mbox = n, soa_Serial = 1, soa_Refresh = 3600, soa_Retry = 600,
            soa_Expire = 604800, soa_Minttl = ttl\<rparr>\<rparr>)"

definition log_out :: "string \<Rightarrow> string \<Rightarrow> (string \<times> string) list \<Rightarrow> 'p server \<Rightarrow> 'p server" where
  "log_out level msg args s = s\<lparr>sv_log := sv_log s @ [\<lparr>ll_level = level, ll_msg = msg, ll_args = args\<rparr>]\<rparr>"

definition logQuery ::
  "dnslib \<Rightarrow> msg \<Rightarrow> msg \<Rightarrow> peer \<Rightarrow> string \<Rightarrow> string \<Rightarrow> string \<Rightarrow> int \<Rightarrow> 'p server \<Rightarrow> 'p server" where
  "logQuery L r m pr source view policy d s =
     (if \<not> sv_logQueries s then s
      else case Question r of
        [] \<Rightarrow> s
      | q # _ \<Rightarrow>
          log_out ''INFO'' ''query''
            ([(''qname'', q_Name q), (''qtype'', lib_TypeToString L (q_Qtype q)), (''rcode'', lib_RcodeToString L (Rcode m)),
              (''source'', source), (''view'', view), (''policy'', policy), (''duration_ms'', show_dec (d div 1000000))] @
             (if sv_logClientIP s then [(''client'', pr_addr pr)] else [])) s)"

section \<open>ServeDNS\<close>

definition reply ::
  "dnslib \<Rightarrow> env \<Rightarrow> peer \<Rightarrow> msg \<Rightarrow> msg \<Rightarrow> string \<Rightarrow> string \<Rightarrow> string \<Rightarrow> 'p server \<Rightarrow> msg \<times> 'p server" where
  "reply L ev pr r m0 source view policy s =
     (let m = (if pr_udp pr then lib_Truncate L (clientUDPSize L r) m0 else m0);
          s1 = (case ev_write ev of
                  None \<Rightarrow> s
                | Some e \<Rightarrow> log_out ''WARN'' ''write reply'' [(''error'', writeErrText e (sv_logClientIP s))] s);
          s2 = s1\<lparr>sv_metrics := Record ((ev_now ev + ev_d ev) div 1000000000) source (Rcode m) (ev_d ev) (sv_metrics s1)\<rparr>
      in (m, logQuery L r m pr source view policy (ev_d ev) s2))"

definition fail :: "dnslib \<Rightarrow> env \<Rightarrow> peer \<Rightarrow> msg \<Rightarrow> int \<Rightarrow> string \<Rightarrow> 'p server \<Rightarrow> msg \<times> 'p server" where
  "fail L ev pr r rcode source s = reply L ev pr r (lib_SetRcode L new_msg r rcode) source [] [] s"

definition wants_dnssec :: "dnslib \<Rightarrow> msg \<Rightarrow> bool" where
  "wants_dnssec L r = (case lib_IsEdns0 L r of Some edns \<Rightarrow> lib_Do L edns | None \<Rightarrow> False)"

text \<open>The tail of the pipeline: the forwarder, or SERVFAIL without one.\<close>

definition forward_query ::
  "dnslib \<Rightarrow> env \<Rightarrow> peer \<Rightarrow> msg \<Rightarrow> question \<Rightarrow> string \<Rightarrow> string \<Rightarrow> 'p server \<Rightarrow> (msg \<times> 'p server) option" where
  "forward_query L ev pr r q view policy s =
     (case sv_forwarder s of
        None \<Rightarrow> Some (fail L ev pr r RcodeServerFailure ''forward'' s)
      | Some f \<Rightarrow>
          (case Resolve L (ev_exch ev) (ev_now ev) q (wants_dnssec L r) (f\<lparr>fw_metrics := sv_metrics s\<rparr>) of
             None \<Rightarrow> None
           | Some (res, f') \<Rightarrow>
               let s1 = s\<lparr>sv_forwarder := Some f', sv_metrics := fw_metrics f'\<rparr>
               in case res of
                 Inl e \<Rightarrow>
                   Some (fail L ev pr r RcodeServerFailure ''forward''
                     (log_out ''WARN'' ''forward failed'' [(''qname'', q_Name q), (''error'', e)] s1))
               | Inr resp \<Rightarrow>
                   let out = (lib_SetRcode L resp r (Rcode resp))\<lparr>Authoritative := False, RecursionAvailable := True\<rparr>;
                       out' = (if lib_IsEdns0 L r = None then stripOPT out else out)
                   in Some (reply L ev pr r out' ''forward'' view policy s1)))"

definition blocked_reply :: "dnslib \<Rightarrow> msg \<Rightarrow> question \<Rightarrow> 32 word \<Rightarrow> msg" where
  "blocked_reply L r q ttl =
     (lib_SetRcode L new_msg r RcodeNameError)\<lparr>Authoritative := False, RecursionAvailable := True, Ns := [blockSOA L (q_Name q) ttl]\<rparr>"

text \<open>The only place where filtering applies: a name that is not ours and would be forwarded.\<close>

definition filter_query ::
  "dnslib \<Rightarrow> (string \<Rightarrow> 'p \<Rightarrow> (bool \<times> string \<times> 32 word) \<times> 'p) \<Rightarrow> env \<Rightarrow> peer \<Rightarrow> msg \<Rightarrow> question \<Rightarrow> string \<Rightarrow> 'p server
   \<Rightarrow> (msg \<times> 'p server) option" where
  "filter_query L decide ev pr r q view s =
     (case sv_policy s of
        None \<Rightarrow> forward_query L ev pr r q view [] s
      | Some p \<Rightarrow>
          (case decide (q_Name q) p of
             ((blocked, decision, ttl), p') \<Rightarrow>
               let s1 = s\<lparr>sv_policy := Some p'\<rparr>
               in if blocked then Some (reply L ev pr r (blocked_reply L r q ttl) ''blocked'' view decision s1)
                  else forward_query L ev pr r q view decision s1))"

definition ServeDNS ::
  "dnslib \<Rightarrow> (string \<Rightarrow> 'p \<Rightarrow> (bool \<times> string \<times> 32 word) \<times> 'p) \<Rightarrow> env \<Rightarrow> peer \<Rightarrow> msg \<Rightarrow> 'p server
   \<Rightarrow> (msg \<times> 'p server) option" where
  "ServeDNS L decide ev pr r s =
     (if Opcode r \<noteq> OpcodeQuery then Some (fail L ev pr r RcodeNotImplemented ''opcode'' s)
      else case Question r of
        [q] \<Rightarrow>
          if q_Qclass q \<noteq> ClassINET then Some (fail L ev pr r RcodeRefused ''class'' s)
          else let src = sourceAddr pr;
                   (allowed, acl') = Allow (ev_now ev div 1000000000) src (sv_acl s);
                   s1 = s\<lparr>sv_acl := acl'\<rparr>
          in if \<not> allowed then Some (fail L ev pr r RcodeRefused ''acl'' s1)
             else let snap = Current (sv_holder s1);
                      view = (case snap of None \<Rightarrow> [] | Some sn \<Rightarrow> Zone.Match (snap_Matcher sn) src)
             in (case auth_Answer L (sv_auth s1) snap view q of
                   Some m \<Rightarrow>
                     Some (reply L ev pr r ((lib_SetRcode L m r (Rcode m))\<lparr>Authoritative := True\<rparr>)
                       ''authoritative'' view ''local'' s1)
                 | None \<Rightarrow> filter_query L decide ev pr r q view s1)
      | _ \<Rightarrow> Some (fail L ev pr r RcodeFormatError ''question'' s))"

section \<open>What a reply leaves alone\<close>

lemma logQuery_frame [simp]:
  "sv_forwarder (logQuery L r m pr source view policy d s) = sv_forwarder s"
  "sv_policy (logQuery L r m pr source view policy d s) = sv_policy s"
  "sv_holder (logQuery L r m pr source view policy d s) = sv_holder s"
  "sv_auth (logQuery L r m pr source view policy d s) = sv_auth s"
  "sv_acl (logQuery L r m pr source view policy d s) = sv_acl s"
  "sv_metrics (logQuery L r m pr source view policy d s) = sv_metrics s"
  by (simp_all add: logQuery_def log_out_def split: list.split)

lemma log_out_frame [simp]:
  "sv_forwarder (log_out a b c s) = sv_forwarder s" "sv_policy (log_out a b c s) = sv_policy s"
  "sv_holder (log_out a b c s) = sv_holder s" "sv_auth (log_out a b c s) = sv_auth s" "sv_acl (log_out a b c s) = sv_acl s"
  "sv_metrics (log_out a b c s) = sv_metrics s" "sv_logQueries (log_out a b c s) = sv_logQueries s"
  "sv_logClientIP (log_out a b c s) = sv_logClientIP s"
  by (simp_all add: log_out_def)

lemma Record_mt_total [simp]: "mt_total (Record now source rcode d m) = mt_total m + 1"
  by (simp add: Record_def Let_def count_outcome_def count_rcode_def split: outcome.split)

lemma reply_frame [simp]:
  "sv_forwarder (snd (reply L ev pr r m source view policy s)) = sv_forwarder s"
  "sv_policy (snd (reply L ev pr r m source view policy s)) = sv_policy s"
  "sv_holder (snd (reply L ev pr r m source view policy s)) = sv_holder s"
  "sv_auth (snd (reply L ev pr r m source view policy s)) = sv_auth s"
  "sv_acl (snd (reply L ev pr r m source view policy s)) = sv_acl s"
  "mt_total (sv_metrics (snd (reply L ev pr r m source view policy s))) = mt_total (sv_metrics s) + 1"
  by (simp_all add: reply_def Let_def split: option.split)

lemma fail_frame [simp]:
  "sv_forwarder (snd (fail L ev pr r c source s)) = sv_forwarder s"
  "sv_policy (snd (fail L ev pr r c source s)) = sv_policy s"
  "sv_holder (snd (fail L ev pr r c source s)) = sv_holder s"
  "sv_auth (snd (fail L ev pr r c source s)) = sv_auth s"
  "sv_acl (snd (fail L ev pr r c source s)) = sv_acl s"
  "mt_total (sv_metrics (snd (fail L ev pr r c source s))) = mt_total (sv_metrics s) + 1"
  by (simp_all add: fail_def)

lemma fst_reply: "fst (reply L ev pr r m source view policy s) = (if pr_udp pr then lib_Truncate L (clientUDPSize L r) m else m)"
  by (simp add: reply_def Let_def)

lemma Truncate_msg:
  assumes "dnslib_ok L"
  shows "Id (lib_Truncate L n m) = Id m" "Rcode (lib_Truncate L n m) = Rcode m"
    "Authoritative (lib_Truncate L n m) = Authoritative m" "set (Answer (lib_Truncate L n m)) \<subseteq> set (Answer m)"
    "set (Ns (lib_Truncate L n m)) \<subseteq> set (Ns m)" "set (Extra (lib_Truncate L n m)) \<subseteq> set (Extra m)"
    "Truncated (lib_Truncate L n m) \<or> Answer (lib_Truncate L n m) = Answer m \<and> Ns (lib_Truncate L n m) = Ns m"
  using assms by (simp_all add: dnslib_ok_def Truncate_ok_def Let_def) blast

lemma reply_msg:
  assumes "dnslib_ok L"
  shows "Id (fst (reply L ev pr r m source view policy s)) = Id m"
    "Rcode (fst (reply L ev pr r m source view policy s)) = Rcode m"
    "Authoritative (fst (reply L ev pr r m source view policy s)) = Authoritative m"
    "set (Answer (fst (reply L ev pr r m source view policy s))) \<subseteq> set (Answer m)"
    "set (Ns (fst (reply L ev pr r m source view policy s))) \<subseteq> set (Ns m)"
    "set (Extra (fst (reply L ev pr r m source view policy s))) \<subseteq> set (Extra m)"
    "Ns (fst (reply L ev pr r m source view policy s)) = Ns m \<or>
     pr_udp pr \<and> Truncated (fst (reply L ev pr r m source view policy s))"
  using Truncate_msg [OF assms] by (simp_all add: fst_reply) blast

lemma lib_SetRcode_ok: "dnslib_ok L \<Longrightarrow> SetRcode_ok (lib_SetRcode L)"
  by (simp add: dnslib_ok_def)

lemmas SetRcode_lib = SetRcode_simps [OF lib_SetRcode_ok]

section \<open>Names of ours stay here\<close>

definition query_in :: "msg \<Rightarrow> question \<Rightarrow> bool" where
  "query_in r q = (Opcode r = OpcodeQuery \<and> Question r = [q] \<and> q_Qclass q = ClassINET)"

definition permitted :: "env \<Rightarrow> peer \<Rightarrow> 'p server \<Rightarrow> bool" where
  "permitted ev pr s = fst (Allow (ev_now ev div 1000000000) (sourceAddr pr) (sv_acl s))"

definition view_of :: "peer \<Rightarrow> 'p server \<Rightarrow> string" where
  "view_of pr s = (case Current (sv_holder s) of None \<Rightarrow> [] | Some sn \<Rightarrow> Zone.Match (snap_Matcher sn) (sourceAddr pr))"

definition past_acl :: "env \<Rightarrow> peer \<Rightarrow> 'p server \<Rightarrow> 'p server" where
  "past_acl ev pr s = s\<lparr>sv_acl := snd (Allow (ev_now ev div 1000000000) (sourceAddr pr) (sv_acl s))\<rparr>"

lemma past_acl_frame [simp]:
  "sv_forwarder (past_acl ev pr s) = sv_forwarder s" "sv_policy (past_acl ev pr s) = sv_policy s"
  "sv_metrics (past_acl ev pr s) = sv_metrics s" "sv_holder (past_acl ev pr s) = sv_holder s" "sv_auth (past_acl ev pr s) = sv_auth s"
  by (simp_all add: past_acl_def)

lemma ServeDNS_query:
  assumes "query_in r q"
  shows "ServeDNS L decide ev pr r s =
    (if \<not> permitted ev pr s then Some (fail L ev pr r RcodeRefused ''acl'' (past_acl ev pr s))
     else case auth_Answer L (sv_auth s) (Current (sv_holder s)) (view_of pr s) q of
       Some m \<Rightarrow> Some (reply L ev pr r ((lib_SetRcode L m r (Rcode m))\<lparr>Authoritative := True\<rparr>)
                  ''authoritative'' (view_of pr s) ''local'' (past_acl ev pr s))
     | None \<Rightarrow> filter_query L decide ev pr r q (view_of pr s) (past_acl ev pr s))"
  using assms
  by (cases "Allow (ev_now ev div 1000000000) (sourceAddr pr) (sv_acl s)")
     (simp add: ServeDNS_def query_in_def permitted_def view_of_def past_acl_def Let_def cong: option.case_cong)

text \<open>
  C1: a name this server owns is answered from the zone and from nothing else. Whatever the
  policy would decide and whatever the upstreams would answer, the reply and the next state are the same: the
  policy is not asked, nothing is forwarded, neither of them changes. The reply has the AA bit and
  the request's identifier.
\<close>

theorem local_names_stay_local:
  assumes "dnslib_ok L" and "query_in r q" and "permitted ev pr s"
    and "Current (sv_holder s) = Some snap" and "Owns L (sv_auth s) (q_Name q)"
  shows "\<exists>m s'. (\<forall>decide exch. ServeDNS L decide (ev\<lparr>ev_exch := exch\<rparr>) pr r s = Some (m, s')) \<and>
    Authoritative m \<and> Id m = Id r \<and> sv_forwarder s' = sv_forwarder s \<and> sv_policy s' = sv_policy s"
proof -
  let ?v = "view_of pr s"
  obtain a where a: "auth_Answer L (sv_auth s) (Some snap) ?v q = Some a"
    using assms(5) by (auto simp: auth_Answer_def Owns_def Let_def)
  let ?m = "(lib_SetRcode L a r (Rcode a))\<lparr>Authoritative := True\<rparr>"
  let ?x = "reply L ev pr r ?m ''authoritative'' ?v ''local'' (past_acl ev pr s)"
  have ev: "permitted (ev\<lparr>ev_exch := exch\<rparr>) pr s" "past_acl (ev\<lparr>ev_exch := exch\<rparr>) pr s = past_acl ev pr s"
    "reply L (ev\<lparr>ev_exch := exch\<rparr>) pr r ?m ''authoritative'' ?v ''local'' (past_acl ev pr s) = ?x" for exch
    using assms(3) by (simp_all add: permitted_def past_acl_def reply_def)
  have "ServeDNS L decide (ev\<lparr>ev_exch := exch\<rparr>) pr r s = Some ?x" for decide exch
    by (simp add: ServeDNS_query [OF assms(2)] ev assms(4) a)
  moreover have "Authoritative (fst ?x)" "Id (fst ?x) = Id r"
    using reply_msg [OF assms(1), of ev pr r ?m "''authoritative''" ?v "''local''" "past_acl ev pr s"] SetRcode_lib [OF assms(1)] by simp_all
  ultimately show ?thesis by (intro exI [of _ "fst ?x"] exI [of _ "snd ?x"]) simp
qed

lemma exI2: "A a b \<Longrightarrow> B a b \<Longrightarrow> \<exists>x y. A x y \<and> B x y"
  by blast

definition home_server :: "pholder server" where
  "home_server =
     New \<lparr>zh_cur = Some home_snapshot, zh_gen = 1\<rparr> (NewACL [Prefix (Addr4 0x0A000000) 8]) home_auth
       (Some (NewForwarder [quad9, isp] (NewCache 10 0 86400 300)))
       (Some (snd (policy_Rebuild
          (Inr (\<lparr>bs_Enabled = True, bs_BlockTTL = 30\<rparr>, [],
            [\<lparr>br_ID = 1, br_Kind = ''deny'', br_Domain = ''ads.example''\<rparr>, \<lparr>br_ID = 2, br_Kind = ''deny'', br_Domain = ''home.arpa''\<rparr>]))
          policy_NewHolder)))
       False False"

definition ask_msg :: "string \<Rightarrow> msg" where
  "ask_msg n = new_msg\<lparr>Id := 99, RecursionDesired := True, Question := [\<lparr>q_Name = n, q_Qtype = TypeA, q_Qclass = ClassINET\<rparr>]\<rparr>"

definition lan_peer :: peer where
  "lan_peer = \<lparr>pr_udp = True, pr_addr = ''10.8.0.7:40000''\<rparr>"

definition quiet :: env where
  "quiet = \<lparr>ev_now = 1700000000000000000, ev_d = 2000000, ev_write = None, ev_exch = blocked_853\<rparr>"

text \<open>A deny rule for the zone itself does not reach the names the zone owns.\<close>

theorem local_names_stay_local_witness:
  "\<exists>m s'. ServeDNS plain_lib (holder_Decide Some) quiet lan_peer (ask_msg ''files.home.arpa'') home_server = Some (m, s') \<and>
     Authoritative m \<and> Id m = 99 \<and> sv_policy s' = sv_policy home_server"
proof -
  let ?q = "\<lparr>q_Name = ''files.home.arpa'', q_Qtype = TypeA, q_Qclass = ClassINET\<rparr>"
  have h: "query_in (ask_msg ''files.home.arpa'') ?q" "permitted quiet lan_peer home_server" by code_simp+
  have o: "Owns plain_lib (sv_auth home_server) (q_Name ?q)" by code_simp
  have c: "Current (sv_holder home_server) = Some home_snapshot" by (simp add: home_server_def New_def SetLogging_def Current_def)
  from local_names_stay_local [OF plain_lib_ok h c o] obtain m s' where
    r: "\<And>decide exch. ServeDNS plain_lib decide (quiet\<lparr>ev_exch := exch\<rparr>) lan_peer (ask_msg ''files.home.arpa'') home_server = Some (m, s')"
    and f: "Authoritative m" "Id m = Id (ask_msg ''files.home.arpa'')" "sv_policy s' = sv_policy home_server" by blast
  have "quiet\<lparr>ev_exch := blocked_853\<rparr> = quiet" by (simp add: quiet_def)
  with r [of "holder_Decide Some" blocked_853] f show ?thesis by (auto simp: ask_msg_def)
qed

section \<open>Refusals\<close>

text \<open>
  C39: the allow-list comes first. A client outside it gets REFUSED with no records, the same reply
  whatever the zone, the policy, the cache and the upstreams hold, and it reaches none of them: only the
  refusal counters, the metrics and the log change.
\<close>

theorem refused_before_anything:
  assumes "dnslib_ok L" and "query_in r q" and "\<not> permitted ev pr s"
  shows "\<exists>m s'. ServeDNS L decide ev pr r s = Some (m, s') \<and>
    m = (if pr_udp pr then lib_Truncate L (clientUDPSize L r) (lib_SetRcode L new_msg r RcodeRefused) else lib_SetRcode L new_msg r RcodeRefused) \<and>
    Rcode m = RcodeRefused \<and> Answer m = [] \<and> Ns m = [] \<and> Extra m = [] \<and>
    sv_holder s' = sv_holder s \<and> sv_policy s' = sv_policy s \<and> sv_forwarder s' = sv_forwarder s \<and>
    acl_total (sv_acl s') = acl_total (sv_acl s) + 1"
proof -
  let ?x = "fail L ev pr r RcodeRefused ''acl'' (past_acl ev pr s)"
  have x: "ServeDNS L decide ev pr r s = Some ?x" using assms(3) by (simp add: ServeDNS_query [OF assms(2)])
  have m: "fst ?x = (if pr_udp pr then lib_Truncate L (clientUDPSize L r) (lib_SetRcode L new_msg r RcodeRefused) else lib_SetRcode L new_msg r RcodeRefused)"
    by (simp add: fail_def fst_reply)
  have e: "Rcode (fst ?x) = RcodeRefused" "Answer (fst ?x) = []" "Ns (fst ?x) = []" "Extra (fst ?x) = []"
    using Truncate_msg [OF assms(1), of "clientUDPSize L r" "lib_SetRcode L new_msg r RcodeRefused"] SetRcode_lib [OF assms(1), of new_msg r RcodeRefused]
    unfolding m by (auto simp: new_msg_def)
  have t: "acl_total (sv_acl (past_acl ev pr s)) = acl_total (sv_acl s) + 1"
    using assms(3) by (auto simp: past_acl_def permitted_def Allow_def Let_def split: if_splits)
  from x have "ServeDNS L decide ev pr r s = Some (fst ?x, snd ?x)" by simp
  then show ?thesis by (rule exI2) (intro conjI m e, simp_all add: t)
qed

theorem refused_before_anything_witness:
  "\<exists>m s'. ServeDNS plain_lib (holder_Decide Some) quiet \<lparr>pr_udp = True, pr_addr = ''[2001:db8::1]:53''\<rparr> (ask_msg ''files.home.arpa'') home_server = Some (m, s') \<and>
     Rcode m = RcodeRefused \<and> acl_total (sv_acl s') = 1"
proof -
  let ?pr = "\<lparr>pr_udp = True, pr_addr = ''[2001:db8::1]:53''\<rparr>"
  let ?q = "\<lparr>q_Name = ''files.home.arpa'', q_Qtype = TypeA, q_Qclass = ClassINET\<rparr>"
  have h: "query_in (ask_msg ''files.home.arpa'') ?q" "\<not> permitted quiet ?pr home_server" by code_simp+
  have "acl_total (sv_acl home_server) = 0" by (simp add: home_server_def New_def SetLogging_def NewACL_def acl_Replace_def)
  with refused_before_anything [OF plain_lib_ok h, of "holder_Decide Some"] show ?thesis by fastforce
qed

section \<open>Filtering, end to end\<close>

definition not_ours :: "dnslib \<Rightarrow> question \<Rightarrow> 'p server \<Rightarrow> bool" where
  "not_ours L q s = (Current (sv_holder s) = None \<or> \<not> Owns L (sv_auth s) (q_Name q))"

lemma not_ours_Answer: "not_ours L q s \<Longrightarrow> auth_Answer L (sv_auth s) (Current (sv_holder s)) view q = None"
  by (auto simp: not_ours_def auth_Answer_def Owns_def Let_def split: option.split)

text \<open>
  C7: the blacklist in the pipeline. For a permitted query about a name that is not ours, with
  filtering on: if the documented precedence says blocked, the reply is NXDOMAIN, not authoritative, with no answer and
  exactly the one SOA record of the name itself carrying the block TTL (a UDP reply that had to be cut to the size the client
  takes has TC set, and the client asks again over TCP), and the forwarder is not touched; if it
  says otherwise, the query goes to the forwarder with the policy unchanged.
\<close>

theorem blocked_names_never_leave:
  assumes "dnslib_ok L" and "query_in r q" and "permitted ev pr s" and "not_ours L q s"
    and "sv_policy s = Some p" and "ph_cur p = Some (policy_Build st ls rules)" and "bs_Enabled st"
    and "Normalize toASCII (q_Name q) = Some n"
  shows "case verdict ls rules n of
    (True, pol) \<Rightarrow> \<exists>m s'. ServeDNS L (holder_Decide toASCII) ev pr r s = Some (m, s') \<and>
      Rcode m = RcodeNameError \<and> \<not> Authoritative m \<and> Answer m = [] \<and>
      set (Ns m) \<subseteq> {blockSOA L (q_Name q) (ps_ttl (policy_Build st ls rules))} \<and>
      (Ns m = [blockSOA L (q_Name q) (ps_ttl (policy_Build st ls rules))] \<or> pr_udp pr \<and> Truncated m) \<and>
      sv_forwarder s' = sv_forwarder s
  | (False, pol) \<Rightarrow> ServeDNS L (holder_Decide toASCII) ev pr r s =
      forward_query L ev pr r q (view_of pr s) pol (past_acl ev pr s)"
proof -
  let ?d = "Decide toASCII (Some (policy_Build st ls rules)) (q_Name q)"
  note d = Decide_built [OF assms(7,8), of ls rules]
  obtain b pol where v: "verdict ls rules n = (b, pol)" by (cases "verdict ls rules n")
  have bp: "Blocked ?d = b" "PolicyName ?d = pol" using d(1) v by simp_all
  have x: "ServeDNS L (holder_Decide toASCII) ev pr r s = filter_query L (holder_Decide toASCII) ev pr r q (view_of pr s) (past_acl ev pr s)"
    using assms(3) not_ours_Answer [OF assms(4)] by (simp add: ServeDNS_query [OF assms(2)])
  have dec: "fst (holder_Decide toASCII (q_Name q) p) = (b, pol, if b then ps_ttl (policy_Build st ls rules) else 0)"
    using bp d(3) assms(6) by (simp add: holder_Decide_def Let_def)
  obtain p' where p': "holder_Decide toASCII (q_Name q) p = ((b, pol, if b then ps_ttl (policy_Build st ls rules) else 0), p')"
    using dec by (metis prod.collapse)
  show ?thesis
  proof (cases b)
    case True
    let ?m = "blocked_reply L r q (ps_ttl (policy_Build st ls rules))"
    let ?s1 = "past_acl ev pr s\<lparr>sv_policy := Some p'\<rparr>"
    let ?x = "reply L ev pr r ?m ''blocked'' (view_of pr s) pol ?s1"
    have "ServeDNS L (holder_Decide toASCII) ev pr r s = Some ?x"
      using True p' assms(5) by (simp add: x filter_query_def Let_def)
    moreover have "Rcode (fst ?x) = RcodeNameError" "\<not> Authoritative (fst ?x)" "Answer (fst ?x) = []"
      "set (Ns (fst ?x)) \<subseteq> {blockSOA L (q_Name q) (ps_ttl (policy_Build st ls rules))}"
      "Ns (fst ?x) = [blockSOA L (q_Name q) (ps_ttl (policy_Build st ls rules))] \<or> pr_udp pr \<and> Truncated (fst ?x)"
      using reply_msg [OF assms(1), of ev pr r ?m "''blocked''" "view_of pr s" pol ?s1] SetRcode_lib [OF assms(1), of new_msg r RcodeNameError]
      by (auto simp: blocked_reply_def new_msg_def)
    ultimately have "\<exists>m s'. ServeDNS L (holder_Decide toASCII) ev pr r s = Some (m, s') \<and>
      Rcode m = RcodeNameError \<and> \<not> Authoritative m \<and> Answer m = [] \<and>
      set (Ns m) \<subseteq> {blockSOA L (q_Name q) (ps_ttl (policy_Build st ls rules))} \<and> (Ns m = [blockSOA L (q_Name q) (ps_ttl (policy_Build st ls rules))] \<or> pr_udp pr \<and> Truncated m) \<and> sv_forwarder s' = sv_forwarder s"
      by (intro exI [of _ "fst ?x"] exI [of _ "snd ?x"]) simp
    with True v show ?thesis by simp
  next
    case False
    then have "p' = p" using pd.decide_silent [of toASCII "q_Name q" p] p' by simp
    then have eq: "past_acl ev pr s\<lparr>sv_policy := Some p'\<rparr> = past_acl ev pr s" using assms(5) by (simp add: past_acl_def)
    have "filter_query L (holder_Decide toASCII) ev pr r q (view_of pr s) (past_acl ev pr s) =
        forward_query L ev pr r q (view_of pr s) pol (past_acl ev pr s\<lparr>sv_policy := Some p'\<rparr>)"
      using False p' assms(5) by (simp add: filter_query_def Let_def)
    with False v show ?thesis unfolding x eq by simp
  qed
qed

theorem blocked_names_never_leave_witness:
  "\<exists>m s'. ServeDNS plain_lib (holder_Decide Some) quiet (lan_peer\<lparr>pr_udp := False\<rparr>) (ask_msg ''x.ads.example.'') home_server = Some (m, s') \<and>
     Rcode m = RcodeNameError \<and> Ns m = [blockSOA plain_lib ''x.ads.example.'' 30] \<and> sv_forwarder s' = sv_forwarder home_server"
proof -
  let ?st = "\<lparr>bs_Enabled = True, bs_BlockTTL = 30\<rparr>"
  let ?rules = "[\<lparr>br_ID = 1, br_Kind = ''deny'', br_Domain = ''ads.example''\<rparr>, \<lparr>br_ID = 2, br_Kind = ''deny'', br_Domain = ''home.arpa''\<rparr>]"
  let ?q = "\<lparr>q_Name = ''x.ads.example.'', q_Qtype = TypeA, q_Qclass = ClassINET\<rparr>"
  let ?p = "snd (policy_Rebuild (Inr (?st, [], ?rules)) policy_NewHolder)"
  have h: "query_in (ask_msg ''x.ads.example.'') ?q" "permitted quiet (lan_peer\<lparr>pr_udp := False\<rparr>) home_server" by code_simp+
  have "\<not> Owns plain_lib (sv_auth home_server) (q_Name ?q)" by code_simp
  then have o: "not_ours plain_lib ?q home_server" by (simp add: not_ours_def)
  have p: "sv_policy home_server = Some ?p" by (simp add: home_server_def New_def SetLogging_def)
  have c: "ph_cur ?p = Some (policy_Build ?st [] ?rules)" by (simp add: policy_Rebuild_def)
  have n: "Normalize Some (q_Name ?q) = Some ''x.ads.example''" by code_simp
  have v: "verdict [] ?rules ''x.ads.example'' = (True, ''deny'')" by code_simp
  have e: "bs_Enabled ?st" by simp
  have t: "ps_ttl (policy_Build ?st [] ?rules) = 30" by (simp add: policy_Build_def Let_def)
  from blocked_names_never_leave [OF plain_lib_ok h o p c e n] show ?thesis unfolding v t by auto
qed

section \<open>Every query is answered once\<close>

definition server_ok :: "'p server \<Rightarrow> bool" where
  "server_ok s = (case sv_forwarder s of None \<Rightarrow> True | Some f \<Rightarrow> cache_ok (fw_cache f))"

lemma RecordCache_mt_total [simp]: "mt_total (RecordCache now hit m) = mt_total m"
  by (simp add: RecordCache_def Let_def)

lemma cache_Get_ok:
  assumes "cache_Get L now q d f = (r, f')" and "cache_ok (fw_cache f)"
  shows "cache_ok (fw_cache f')" and "mt_total (fw_metrics f') = mt_total (fw_metrics f)"
  using assms lookup_ok [of "fw_cache f" L now q d] by (auto simp: cache_Get_def Let_def split: prod.splits)

lemma Resolve_ok:
  assumes "cache_ok (fw_cache f)"
  obtains r f' where "Resolve L exch now q d f = Some (r, f')" "cache_ok (fw_cache f')" "mt_total (fw_metrics f') = mt_total (fw_metrics f)"
proof -
  obtain r1 f1 where g1: "cache_Get L now q d f = (r1, f1)" by fastforce
  note o1 = cache_Get_ok [OF g1 assms]
  obtain r2 f2 where g2: "cache_Get L now q d f1 = (r2, f2)" by fastforce
  note o2 = cache_Get_ok [OF g2 o1(1)]
  obtain x st where ex: "exchange L exch now q d (fw_ups f2) (fw_status f2) = (x, st)" by fastforce
  consider (hit) m where "r1 = Some m" | (hit2) m where "r1 = None" "r2 = Some m" | (err) e where "r1 = None" "r2 = None" "x = Inl e"
    | (ok) m where "r1 = None" "r2 = None" "x = Inr m" by (cases r1; cases r2; cases x) auto
  then show thesis
  proof cases
    case (ok m)
    obtain c where "Put L now q d (Some m) (fw_cache f2) = Some c" "cache_ok c" using Put_ok [OF o2(1)] by blast
    then show thesis using that [of "Inr m" "f2\<lparr>fw_status := st, fw_cache := c\<rparr>"] ok g1 g2 ex o1 o2 by (simp add: Resolve_def)
  qed (use that g1 g2 ex o1 o2 in \<open>auto simp: Resolve_def\<close>)
qed

definition answered :: "msg \<Rightarrow> 'p server \<Rightarrow> (msg \<times> 'p server) option \<Rightarrow> bool" where
  "answered r s x = (\<exists>m s'. x = Some (m, s') \<and> Id m = Id r \<and> server_ok s' \<and>
     mt_total (sv_metrics s') = mt_total (sv_metrics s) + 1)"

lemma answered_Some:
  "Id (fst x) = Id r \<Longrightarrow> server_ok (snd x) \<Longrightarrow> mt_total (sv_metrics (snd x)) = mt_total (sv_metrics s) + 1 \<Longrightarrow> answered r s (Some x)"
  unfolding answered_def by (metis prod.collapse)

lemma answered_fail:
  assumes "dnslib_ok L" and "server_ok s1" and "mt_total (sv_metrics s1) = mt_total (sv_metrics s)"
  shows "answered r s (Some (fail L ev pr r c source s1))"
  by (rule answered_Some)
     (use assms in \<open>simp_all add: fail_def server_ok_def reply_msg(1) SetRcode_lib(1)\<close>)

lemma answered_reply:
  assumes "dnslib_ok L" and "server_ok s1" and "mt_total (sv_metrics s1) = mt_total (sv_metrics s)" and "Id m = Id r"
  shows "answered r s (Some (reply L ev pr r m source view policy s1))"
  by (rule answered_Some) (use assms in \<open>simp_all add: server_ok_def reply_msg(1)\<close>)

lemma answered_forward:
  assumes "dnslib_ok L" and "server_ok s1" and "mt_total (sv_metrics s1) = mt_total (sv_metrics s)"
  shows "answered r s (forward_query L ev pr r q view policy s1)"
proof (cases "sv_forwarder s1")
  case None
  then show ?thesis using answered_fail [OF assms] by (simp add: forward_query_def)
next
  case (Some f)
  have "cache_ok (fw_cache (f\<lparr>fw_metrics := sv_metrics s1\<rparr>))" using assms(2) Some by (simp add: server_ok_def)
  from Resolve_ok [OF this, of L "ev_exch ev" "ev_now ev" q "wants_dnssec L r"] obtain res f' where
    r: "Resolve L (ev_exch ev) (ev_now ev) q (wants_dnssec L r) (f\<lparr>fw_metrics := sv_metrics s1\<rparr>) = Some (res, f')"
    "cache_ok (fw_cache f')" "mt_total (fw_metrics f') = mt_total (sv_metrics s1)" by auto
  let ?s1 = "s1\<lparr>sv_forwarder := Some f', sv_metrics := fw_metrics f'\<rparr>"
  have ok: "server_ok ?s1" "mt_total (sv_metrics ?s1) = mt_total (sv_metrics s)" using r assms(3) by (simp_all add: server_ok_def)
  show ?thesis
  proof (cases res)
    case (Inl e)
    have "server_ok (log_out a b c ?s1)" for a b c using ok(1) by (simp add: server_ok_def)
    then have "answered r s (Some (fail L ev pr r RcodeServerFailure ''forward'' (log_out a b c ?s1)))" for a b c
      using ok(2) by (intro answered_fail [OF assms(1)]) simp_all
    with Inl show ?thesis using Some r(1) by (simp add: forward_query_def Let_def)
  next
    case (Inr m)
    then show ?thesis using Some r(1) answered_reply [OF assms(1) ok] SetRcode_lib(1) [OF assms(1)]
      by (simp add: forward_query_def Let_def stripOPT_def)
  qed
qed

lemma ServeDNS_answered:
  assumes "dnslib_ok L" and "server_ok s"
  shows "answered r s (ServeDNS L decide ev pr r s)"
proof (cases "\<exists>q. query_in r q")
  case False
  have f: "answered r s (Some (fail L ev pr r c source s))" for c source by (rule answered_fail [OF assms refl])
  then show ?thesis using False by (auto simp: ServeDNS_def query_in_def split: list.split)
next
  case True
  then obtain q where q: "query_in r q" by blast
  let ?s1 = "past_acl ev pr s"
  have ok: "server_ok ?s1" "mt_total (sv_metrics ?s1) = mt_total (sv_metrics s)" using assms(2) by (simp_all add: server_ok_def)
  have "answered r s (filter_query L decide ev pr r q view ?s1)" for view
  proof (cases "sv_policy ?s1")
    case None
    then show ?thesis using answered_forward [OF assms(1) ok] by (simp add: filter_query_def)
  next
    case (Some p)
    obtain b pol ttl p' where d: "decide (q_Name q) p = ((b, pol, ttl), p')" by (metis prod.collapse)
    have ok': "server_ok (?s1\<lparr>sv_policy := Some p'\<rparr>)" "mt_total (sv_metrics (?s1\<lparr>sv_policy := Some p'\<rparr>)) = mt_total (sv_metrics s)"
      using ok by (simp_all add: server_ok_def)
    show ?thesis using Some d answered_forward [OF assms(1) ok'] answered_reply [OF assms(1) ok'] SetRcode_lib(1) [OF assms(1)]
      by (simp add: filter_query_def Let_def blocked_reply_def)
  qed
  then show ?thesis
    using answered_fail [OF assms(1) ok] answered_reply [OF assms(1) ok] SetRcode_lib(1) [OF assms(1)]
    by (simp add: ServeDNS_query [OF q] split: option.split)
qed

type_synonym query = "env \<times> peer \<times> msg"

fun serve_run ::
  "dnslib \<Rightarrow> (string \<Rightarrow> 'p \<Rightarrow> (bool \<times> string \<times> 32 word) \<times> 'p) \<Rightarrow> query list \<Rightarrow> 'p server \<Rightarrow> (msg list \<times> 'p server) option" where
  "serve_run L decide [] s = Some ([], s)"
| "serve_run L decide ((ev, pr, r) # qs) s =
     (case ServeDNS L decide ev pr r s of
        None \<Rightarrow> None
      | Some (m, s1) \<Rightarrow> (case serve_run L decide qs s1 of None \<Rightarrow> None | Some (ms, s2) \<Rightarrow> Some (m # ms, s2)))"

lemma serve_run_answers:
  assumes "dnslib_ok L"
  shows "server_ok s \<Longrightarrow> \<exists>ms s'. serve_run L decide qs s = Some (ms, s') \<and> map Id ms = map (\<lambda>(ev, pr, r). Id r) qs \<and>
    mt_total (sv_metrics s') = mt_total (sv_metrics s) + of_nat (length qs)"
proof (induction qs arbitrary: s)
  case Nil
  then show ?case by simp
next
  case (Cons x qs)
  obtain ev pr r where x: "x = (ev, pr, r)" by (cases x)
  from ServeDNS_answered [OF assms Cons.prems, of r decide ev pr] obtain m s1 where
    1: "ServeDNS L decide ev pr r s = Some (m, s1)" "Id m = Id r" "server_ok s1" "mt_total (sv_metrics s1) = mt_total (sv_metrics s) + 1"
    unfolding answered_def by blast
  from Cons.IH [OF 1(3)] obtain ms s' where
    "serve_run L decide qs s1 = Some (ms, s')" "map Id ms = map (\<lambda>(ev, pr, r). Id r) qs"
    "mt_total (sv_metrics s') = mt_total (sv_metrics s1) + of_nat (length qs)" by blast
  with 1 show ?case by (simp add: x)
qed

text \<open>
  C9: every query of any sequence is answered, exactly once and with its own identifier, and the total the
  dashboard shows is the number of queries (modulo two to the sixty-fourth), whatever the
  queries, the policy, the upstreams and the clock do. The server starts with any cache whose ceiling is not negative.
\<close>

theorem every_query_answered_once:
  assumes "dnslib_ok L" and "0 \<le> n"
    and "s = New h a au (Some (NewForwarder ups (NewCache n lo hi neg))) p queries clientIP"
  shows "\<exists>ms s'. serve_run L decide qs s = Some (ms, s') \<and> map Id ms = map (\<lambda>(ev, pr, r). Id r) qs \<and>
    mt_total (sv_metrics s') = of_nat (length qs)"
proof -
  have "server_ok s" using assms(2) NewCache_ok [of n lo hi neg]
    by (simp add: assms(3) server_ok_def New_def SetLogging_def NewForwarder_def fw_Replace_def)
  from serve_run_answers [OF assms(1) this, of decide qs] show ?thesis
    by (simp add: assms(3) New_def SetLogging_def NewMetrics_def)
qed

theorem every_query_answered_once_witness:
  "\<exists>ms s'. serve_run plain_lib (holder_Decide Some) [(quiet, lan_peer, ask_msg ''files.home.arpa''), (quiet, lan_peer, new_msg\<lparr>Id := 3, Opcode := 4\<rparr>)] home_server = Some (ms, s') \<and>
     map Id ms = [99, 3] \<and> mt_total (sv_metrics s') = 2"
  using every_query_answered_once [OF plain_lib_ok _ home_server_def, of "holder_Decide Some"
      "[(quiet, lan_peer, ask_msg ''files.home.arpa''), (quiet, lan_peer, new_msg\<lparr>Id := 3, Opcode := 4\<rparr>)]"]
  by (simp add: ask_msg_def new_msg_def)

section \<open>The log does not say who asked\<close>

text \<open>
  Two exchanges that differ in the peer's address alone: also the error of writing the reply may
  differ, in the text that embeds that address.
\<close>

definition alike :: "env \<Rightarrow> peer \<Rightarrow> env \<Rightarrow> peer \<Rightarrow> bool" where
  "alike ev pr ev' pr' =
     (pr_udp pr = pr_udp pr' \<and> ev_now ev = ev_now ev' \<and> ev_d ev = ev_d ev' \<and> ev_exch ev = ev_exch ev' \<and>
      map_option (\<lambda>e. writeErrText e False) (ev_write ev) = map_option (\<lambda>e. writeErrText e False) (ev_write ev'))"

definition with_acl :: "acl \<Rightarrow> msg \<times> 'p server \<Rightarrow> msg \<times> 'p server" where
  "with_acl a x = (fst x, (snd x)\<lparr>sv_acl := a\<rparr>)"

lemma logQuery_alike:
  "\<not> sv_logClientIP s \<Longrightarrow>
   logQuery L r m pr' source view policy d (s\<lparr>sv_acl := a, sv_metrics := x\<rparr>) =
   (logQuery L r m pr source view policy d (s\<lparr>sv_metrics := x\<rparr>))\<lparr>sv_acl := a\<rparr>"
  by (simp add: logQuery_def log_out_def split: list.split)

lemma reply_alike:
  assumes "alike ev pr ev' pr'" and "\<not> sv_logClientIP s"
  shows "reply L ev' pr' r m source view policy (s\<lparr>sv_acl := a\<rparr>) = with_acl a (reply L ev pr r m source view policy s)"
proof -
  let ?f = "\<lambda>e s. case e of None \<Rightarrow> s | Some e \<Rightarrow> log_out ''WARN'' ''write reply'' [(''error'', writeErrText e (sv_logClientIP s))] s"
  have w: "?f (ev_write ev') (s\<lparr>sv_acl := a\<rparr>) = (?f (ev_write ev) s)\<lparr>sv_acl := a\<rparr>"
    using assms by (cases "ev_write ev"; cases "ev_write ev'") (simp_all add: alike_def log_out_def)
  have l: "\<not> sv_logClientIP (?f (ev_write ev) s)" using assms(2) by (simp split: option.split)
  show ?thesis
    unfolding reply_def Let_def with_acl_def w
    using assms(1) by (simp add: alike_def logQuery_alike [OF l, of L r _ pr' _ _ _ _ _ _ pr] del: server.update_convs)
qed

lemma fail_alike:
  assumes "alike ev pr ev' pr'" and "\<not> sv_logClientIP s"
  shows "fail L ev' pr' r c source (s\<lparr>sv_acl := a\<rparr>) = with_acl a (fail L ev pr r c source s)"
  using reply_alike [OF assms] by (simp add: fail_def)

lemma forward_alike:
  assumes "alike ev pr ev' pr'" and "\<not> sv_logClientIP s"
  shows "forward_query L ev' pr' r q view policy (s\<lparr>sv_acl := a\<rparr>) = map_option (with_acl a) (forward_query L ev pr r q view policy s)"
proof (cases "sv_forwarder s")
  case None
  then show ?thesis using fail_alike [OF assms] by (simp add: forward_query_def)
next
  case (Some f)
  let ?R = "Resolve L (ev_exch ev) (ev_now ev) q (wants_dnssec L r) (f\<lparr>fw_metrics := sv_metrics s\<rparr>)"
  have ev: "ev_exch ev' = ev_exch ev" "ev_now ev' = ev_now ev" using assms(1) by (simp_all add: alike_def)
  show ?thesis
  proof (cases ?R)
    case None
    then show ?thesis using Some by (simp add: forward_query_def ev)
  next
    case R: (Some x)
    obtain res f' where x: "x = (res, f')" by (cases x)
    let ?s1 = "s\<lparr>sv_forwarder := Some f', sv_metrics := fw_metrics f'\<rparr>"
    have l: "\<not> sv_logClientIP ?s1" "\<And>b c d. \<not> sv_logClientIP (log_out b c d ?s1)" using assms(2) by simp_all
    have a: "s\<lparr>sv_acl := a, sv_forwarder := Some f', sv_metrics := fw_metrics f'\<rparr> = ?s1\<lparr>sv_acl := a\<rparr>"
      "\<And>b c d. log_out b c d (?s1\<lparr>sv_acl := a\<rparr>) = (log_out b c d ?s1)\<lparr>sv_acl := a\<rparr>" by (simp_all add: log_out_def)
    show ?thesis
      using Some R x reply_alike [OF assms(1) l(1)] fail_alike [OF assms(1) l(2)]
      by (cases res) (simp_all add: forward_query_def ev Let_def a del: server.update_convs)
  qed
qed

lemma filter_alike:
  assumes "alike ev pr ev' pr'" and "\<not> sv_logClientIP s"
  shows "filter_query L decide ev' pr' r q view (s\<lparr>sv_acl := a\<rparr>) = map_option (with_acl a) (filter_query L decide ev pr r q view s)"
proof (cases "sv_policy s")
  case None
  then show ?thesis using forward_alike [OF assms] by (simp add: filter_query_def)
next
  case (Some p)
  obtain b pol ttl p' where d: "decide (q_Name q) p = ((b, pol, ttl), p')" by (metis prod.collapse)
  have l: "\<not> sv_logClientIP (s\<lparr>sv_policy := Some p'\<rparr>)" using assms(2) by simp
  have a: "s\<lparr>sv_acl := a, sv_policy := Some p'\<rparr> = (s\<lparr>sv_policy := Some p'\<rparr>)\<lparr>sv_acl := a\<rparr>" by simp
  show ?thesis
    using Some d reply_alike [OF assms(1) l] forward_alike [OF assms(1) l]
    by (simp add: filter_query_def Let_def a del: server.update_convs)
qed

text \<open>
  With the client flag off, the log does not depend on who asked. Two exchanges that differ in
  the peer's address only, with the same verdict of the allow-list and the same view, give the same
  reply and the same log, line for line, on every path, errors of writing the reply included.
\<close>

theorem log_hides_the_client:
  assumes "\<not> sv_logClientIP s" and "alike ev pr ev' pr'"
    and "permitted ev pr s = permitted ev' pr' s" and "view_of pr s = view_of pr' s"
  shows "map_option (\<lambda>(m, s'). (m, sv_log s')) (ServeDNS L decide ev' pr' r s) =
    map_option (\<lambda>(m, s'). (m, sv_log s')) (ServeDNS L decide ev pr r s)"
proof -
  have wa: "(\<lambda>(m, s'). (m, sv_log s')) (with_acl a x) = (\<lambda>(m, s'). (m, sv_log s')) x" for a and x :: "msg \<times> 'a server"
    by (simp add: with_acl_def split: prod.split)
  have s: "s\<lparr>sv_acl := sv_acl s\<rparr> = s" by simp
  show ?thesis
  proof (cases "\<exists>q. query_in r q")
    case False
    have "fail L ev' pr' r c source s = with_acl (sv_acl s) (fail L ev pr r c source s)" for c source
      using fail_alike [OF assms(2,1), of L r c source "sv_acl s"] by simp
    then show ?thesis using False by (auto simp: ServeDNS_def query_in_def wa split: list.split)
  next
    case True
    then obtain q where q: "query_in r q" by blast
    obtain a where a: "past_acl ev' pr' s = (past_acl ev pr s)\<lparr>sv_acl := a\<rparr>" by (simp add: past_acl_def)
    have l: "\<not> sv_logClientIP (past_acl ev pr s)" using assms(1) by (simp add: past_acl_def)
    show ?thesis
      by (simp add: ServeDNS_query [OF q] a assms(3,4) reply_alike [OF assms(2) l] fail_alike [OF assms(2) l]
          filter_alike [OF assms(2) l] wa option.map_comp comp_def split: option.split del: server.update_convs)
  qed
qed

theorem log_hides_the_client_witness:
  "map_option (\<lambda>(m, s'). (m, sv_log s'))
     (ServeDNS plain_lib (holder_Decide Some) (quiet\<lparr>ev_write := Some \<lparr>we_text = ''write udp 10.8.0.8:40000: refused'', we_op = Some (''write'', ''refused'')\<rparr>\<rparr>)
        \<lparr>pr_udp = True, pr_addr = ''10.8.0.8:40000''\<rparr> (ask_msg ''files.home.arpa'') (SetLogging True False home_server)) =
   map_option (\<lambda>(m, s'). (m, sv_log s'))
     (ServeDNS plain_lib (holder_Decide Some) (quiet\<lparr>ev_write := Some \<lparr>we_text = ''write udp 10.8.0.7:40000: refused'', we_op = Some (''write'', ''refused'')\<rparr>\<rparr>)
        lan_peer (ask_msg ''files.home.arpa'') (SetLogging True False home_server))"
proof (rule log_hides_the_client)
  show "\<not> sv_logClientIP (SetLogging True False home_server)" by (simp add: SetLogging_def)
qed (simp add: alike_def lan_peer_def writeErrText_def, code_simp, code_simp)

text \<open>
  Query logging off does not keep names out of the log: a query that could not be forwarded is
  logged with its name, whatever the flags say.
\<close>

lemma forward_failure_logs_the_name:
  "map_option (\<lambda>(m, s'). sv_log s')
     (ServeDNS plain_lib (holder_Decide Some) (quiet\<lparr>ev_exch := (\<lambda>u r. Inl ''timeout'')\<rparr>) lan_peer (ask_msg ''secret.example.'') (SetLogging False False home_server)) =
   Some [\<lparr>ll_level = ''WARN'', ll_msg = ''forward failed'',
          ll_args = [(''qname'', ''secret.example.''), (''error'', ''all upstreams failed: timeout'')]\<rparr>]"
  by code_simp

end
