(* ===== verification/Discovery.thy ===== *)
theory Discovery
  imports DhcpSafety NetipRound
begin

text \<open>
  Lease discovery, from \<^verbatim>\<open>discovery/\<close>: the dnsmasq lease file and its parser, the poller that publishes a lease set only when it
  changed, and the interface both lease sources offer it. Times are nanoseconds since 1970.
\<close>

section \<open>The lease file\<close>

definition validLabel :: "string \<Rightarrow> bool" where
  "validLabel s =
     (if s = [] \<or> 63 < length s \<or> hd s = CHR ''-'' \<or> last s = CHR ''-'' then False
      else list_all (\<lambda>c. is_lower c \<or> is_digit c \<or> c = CHR ''-'') s)"

text \<open>
  \<^verbatim>\<open>bufio.Scanner\<close> with its default buffer: lines without their end, a carriage return before it dropped, and the flag that a line of 65536 bytes or
  more stopped the scan.
\<close>

definition MaxScanTokenSize :: int where "MaxScanTokenSize = 65536"

definition drop_cr :: "string \<Rightarrow> string" where
  "drop_cr l = (if l \<noteq> [] \<and> last l = CHR 0x0D then butlast l else l)"

function scan_lines :: "string \<Rightarrow> string list \<times> bool" where
  "scan_lines s =
     (if s = [] then ([], False)
      else let l = takeWhile (\<lambda>c. c \<noteq> CHR 0x0A) s
           in if MaxScanTokenSize \<le> int (length l) then ([], True)
              else let (ls, long) = scan_lines (tl (dropWhile (\<lambda>c. c \<noteq> CHR 0x0A) s))
                   in (drop_cr l # ls, long))"
  by pat_completeness auto
termination
proof (relation "measure length", goal_cases)
  case (2 s)
  then show ?case using length_dropWhile_le [of "\<lambda>c. c \<noteq> CHR 0x0A" s] by (cases s) auto
qed simp

declare scan_lines.simps [simp del]

datatype skip_reason =
    SkFields nat nat
  | SkExpiry nat string
  | SkExpired nat string
  | SkAddress nat string
  | SkLabel nat string
  | SkClaimed nat string string string
  | SkTooLong
  | SkRead string

text \<open>\<^verbatim>\<open>time.Unix\<close>: the seconds since year 1 are kept in 64 bits, so an absurd number of seconds wraps.\<close>

definition unixToInternal :: int where "unixToInternal = 62135596800"

definition time_Unix :: "int \<Rightarrow> int" where
  "time_Unix epoch = ((epoch + unixToInternal + 2 ^ 63) mod 2 ^ 64 - 2 ^ 63 - unixToInternal) * 1000000000"

text \<open>One line: nothing, a reason to skip it, or a lease.\<close>

datatype line_result = Ignored | Skipped skip_reason | Leased disc_lease

definition dnsmasq_line :: "int \<Rightarrow> nat \<Rightarrow> string \<Rightarrow> line_result" where
  "dnsmasq_line now line raw =
     (let text = TrimSpace raw
      in if text = [] \<or> HasPrefix text ''#'' then Ignored
         else let fields = Fields text
              in if length fields < 4 then Skipped (SkFields line (length fields))
                 else case ParseInt64 (fields ! 0) of
                     None \<Rightarrow> Skipped (SkExpiry line (fields ! 0))
                   | Some epoch \<Rightarrow>
                       let expires = time_Unix epoch
                       in if epoch \<noteq> 0 \<and> \<not> now < expires then Skipped (SkExpired line (fields ! 3))
                          else case ParseAddr (fields ! 2) of
                              None \<Rightarrow> Skipped (SkAddress line (fields ! 2))
                            | Some addr \<Rightarrow>
                                let host = ToLower (fields ! 3)
                                in if host = ''*'' then Ignored
                                   else if \<not> validLabel host then Skipped (SkLabel line (fields ! 3))
                                   else Leased \<lparr>d_MAC = fields ! 1, d_IP = show_addr addr, d_Hostname = host, d_Expires = expires\<rparr>)"

record dm_state =
  dm_skipped :: "skip_reason list"
  dm_newest :: "(string, disc_lease) gomap"
  dm_order :: "string list"

definition dm_claim :: "nat \<Rightarrow> disc_lease \<Rightarrow> dm_state \<Rightarrow> dm_state" where
  "dm_claim line l st =
     (case m_get (dm_newest st) (d_Hostname l) of
        Some prev \<Rightarrow>
          let st = st\<lparr>dm_skipped := dm_skipped st @ [SkClaimed line (d_Hostname l) (d_MAC prev) (d_MAC l)]\<rparr>
          in if \<not> d_Expires prev < d_Expires l then st
             else st\<lparr>dm_newest := m_put (d_Hostname l) l (dm_newest st)\<rparr>
      | None \<Rightarrow> st\<lparr>dm_order := dm_order st @ [d_Hostname l], dm_newest := m_put (d_Hostname l) l (dm_newest st)\<rparr>)"

fun dm_lines :: "int \<Rightarrow> nat \<Rightarrow> string list \<Rightarrow> dm_state \<Rightarrow> dm_state" where
  "dm_lines now line [] st = st"
| "dm_lines now line (raw # rest) st =
     dm_lines now (Suc line) rest
       (case dnsmasq_line now line raw of
          Ignored \<Rightarrow> st
        | Skipped r \<Rightarrow> st\<lparr>dm_skipped := dm_skipped st @ [r]\<rparr>
        | Leased l \<Rightarrow> dm_claim line l st)"

text \<open>The reader is the bytes it delivers and the error it ends with, if any; the map is read back in the order of first appearance.\<close>

definition ParseDnsmasq :: "string \<times> string option \<Rightarrow> int \<Rightarrow> disc_lease list \<times> skip_reason list" where
  "ParseDnsmasq r now =
     (let (content, readErr) = r; (ls, long) = scan_lines content;
          st = dm_lines now 1 ls \<lparr>dm_skipped = [], dm_newest = [], dm_order = []\<rparr>
      in (map (\<lambda>h. the (m_get (dm_newest st) h)) (dm_order st),
          dm_skipped st @ (if long then [SkTooLong] else case readErr of Some e \<Rightarrow> [SkRead e] | None \<Rightarrow> [])))"

definition DnsmasqSource_Leases :: "string + string \<times> string option \<Rightarrow> int \<Rightarrow> (string, disc_lease list) result" where
  "DnsmasqSource_Leases file now = (case file of Inl e \<Rightarrow> Inl e | Inr r \<Rightarrow> Inr (fst (ParseDnsmasq r now)))"

section \<open>The poller\<close>

record 's poller =
  po_src :: "'s option"
  po_interval :: int
  po_changed :: bool
  po_leases :: "disc_lease list"
  po_digest :: string

definition poll_minInterval :: int where "poll_minInterval = 1000000"

definition SetInterval :: "int \<Rightarrow> 's poller \<Rightarrow> 's poller" where
  "SetInterval d p = p\<lparr>po_interval := (if d < poll_minInterval then poll_minInterval else d), po_changed := True\<rparr>"

definition NewPoller :: "'s option \<Rightarrow> int \<Rightarrow> 's poller" where
  "NewPoller src interval =
     (SetInterval interval \<lparr>po_src = src, po_interval = 0, po_changed = False, po_leases = [], po_digest = []\<rparr>)\<lparr>po_changed := False\<rparr>"

definition SetSource :: "'s option \<Rightarrow> 's poller \<Rightarrow> 's poller" where
  "SetSource src p = p\<lparr>po_src := src, po_changed := True\<rparr>"

definition Enabled :: "'s poller \<Rightarrow> bool" where
  "Enabled p = (po_src p \<noteq> None)"

fun digest :: "disc_lease list \<Rightarrow> string" where
  "digest [] = []"
| "digest (l # ls) = d_Hostname l @ ''='' @ d_IP l @ '';'' @ digest ls"

text \<open>\<open>read\<close> is \<^verbatim>\<open>Source.Leases\<close> at this moment, \<open>onChange\<close> the callback on what the poller serves, run with the new leases in place.\<close>

definition Poll ::
  "('s \<Rightarrow> (string, disc_lease list) result) \<Rightarrow> (disc_lease list \<Rightarrow> 'h \<Rightarrow> 'h) \<Rightarrow> 's poller \<times> 'h \<Rightarrow> string option \<times> 's poller \<times> 'h" where
  "Poll read onChange ph =
     (let (p, h) = ph
      in case (case po_src p of None \<Rightarrow> Inr [] | Some src \<Rightarrow> read src) of
           Inl e \<Rightarrow> (Some e, p, h)
         | Inr leases \<Rightarrow>
             let d = digest leases
             in if d \<noteq> po_digest p
                then (None, p\<lparr>po_leases := leases, po_digest := d\<rparr>, onChange leases h)
                else (None, p, h))"

text \<open>One turn of \<^verbatim>\<open>Run\<close>: a cycle, then the wait, which takes the wake token when there is one.\<close>

definition run_cycle ::
  "('s \<Rightarrow> (string, disc_lease list) result) \<Rightarrow> (disc_lease list \<Rightarrow> 'h \<Rightarrow> 'h) \<Rightarrow> 's poller \<times> 'h \<Rightarrow> int \<times> 's poller \<times> 'h" where
  "run_cycle read onChange ph =
     (let (_, p, h) = Poll read onChange ph
      in if po_changed p then (0, p\<lparr>po_changed := False\<rparr>, h) else (po_interval p, p, h))"

section \<open>What a lease source promises\<close>

definition names_of :: "disc_lease list \<Rightarrow> (string \<times> string) list" where
  "names_of ls = map (\<lambda>l. (d_Hostname l, d_IP l)) ls"

text \<open>The digest separates a name from its address by \<open>=\<close> and leases by \<open>;\<close>. No label has the first; only the zone of an IPv6 address can have the second.\<close>

definition labels :: "disc_lease list \<Rightarrow> bool" where
  "labels ls = list_all (\<lambda>l. CHR ''='' \<notin> set (d_Hostname l)) ls"

definition plain :: "disc_lease list \<Rightarrow> bool" where
  "plain ls = list_all (\<lambda>l. CHR '';'' \<notin> set (d_IP l)) ls"

lemma separator_split: "x \<notin> set xs \<Longrightarrow> x \<notin> set us \<Longrightarrow> xs @ x # ys = us @ x # vs \<longleftrightarrow> xs = us \<and> ys = vs"
proof (induction xs arbitrary: us)
  case Nil
  then show ?case by (cases us) auto
next
  case (Cons a xs)
  then show ?case by (cases us) auto
qed

lemma digest_names:
  "labels ls \<Longrightarrow> labels ks \<Longrightarrow> plain ls \<Longrightarrow> plain ks \<Longrightarrow> digest ls = digest ks \<longleftrightarrow> names_of ls = names_of ks"
proof (induction ls arbitrary: ks)
  case Nil
  then show ?case by (cases ks) (auto simp: names_of_def)
next
  case (Cons l ls)
  show ?case
  proof (cases ks)
    case (Cons k ks')
    note ks = this
    have c: "CHR ''='' \<notin> set (d_Hostname l)" "CHR ''='' \<notin> set (d_Hostname k)" "CHR '';'' \<notin> set (d_IP l)" "CHR '';'' \<notin> set (d_IP k)"
      "labels ls" "labels ks'" "plain ls" "plain ks'"
      using Cons.prems ks by (auto simp: labels_def plain_def)
    have "d_Hostname l @ ''='' @ d_IP l @ '';'' @ digest ls = d_Hostname k @ ''='' @ d_IP k @ '';'' @ digest ks' \<longleftrightarrow>
        d_Hostname l = d_Hostname k \<and> d_IP l @ '';'' @ digest ls = d_IP k @ '';'' @ digest ks'"
      using c(1,2) by (simp add: separator_split)
    also have "\<dots> \<longleftrightarrow> d_Hostname l = d_Hostname k \<and> d_IP l = d_IP k \<and> digest ls = digest ks'"
      using c(3,4) by (simp add: separator_split)
    finally show ?thesis using Cons.IH [OF c(5-8)] ks by (simp add: names_of_def)
  qed (simp add: names_of_def)
qed

text \<open>
  \<open>env_ok\<close> is what the world must keep for a read to be usable, \<open>read\<close> one read of a source. The poller is a client of this interface; the lease file and
  the built-in server are its two providers.
\<close>

definition published :: "'s poller \<Rightarrow> bool" where
  "published p = (po_digest p = digest (po_leases p) \<and> labels (po_leases p))"

definition cycle_result :: "('s \<Rightarrow> (string, disc_lease list) result) \<Rightarrow> 's poller \<Rightarrow> (string, disc_lease list) result" where
  "cycle_result read p = (case po_src p of None \<Rightarrow> Inr [] | Some src \<Rightarrow> read src)"

datatype ('s, 'e) poll_event = Swap "'s option" | Retime int | Cycle 'e

fun poll_step ::
  "('s \<Rightarrow> 'e \<Rightarrow> (string, disc_lease list) result) \<Rightarrow> (disc_lease list \<Rightarrow> 'h \<Rightarrow> 'h) \<Rightarrow> ('s, 'e) poll_event \<Rightarrow> 's poller \<times> 'h \<Rightarrow> 's poller \<times> 'h" where
  "poll_step read onChange (Swap src) (p, h) = (SetSource src p, h)"
| "poll_step read onChange (Retime d) (p, h) = (SetInterval d p, h)"
| "poll_step read onChange (Cycle e) (p, h) = snd (run_cycle (\<lambda>s. read s e) onChange (p, h))"

fun event_ok :: "('e \<Rightarrow> bool) \<Rightarrow> ('s, 'e) poll_event \<Rightarrow> bool" where
  "event_ok env_ok (Cycle e) = env_ok e"
| "event_ok env_ok _ = True"

lemma published_New: "published (NewPoller src d)"
  by (simp add: published_def NewPoller_def SetInterval_def labels_def)

lemma published_same [simp]: "published (SetSource src p) = published p" "published (SetInterval d p) = published p"
    "published (p\<lparr>po_changed := b\<rparr>) = published p" "po_leases (SetSource src p) = po_leases p" "po_leases (SetInterval d p) = po_leases p"
  by (simp_all add: published_def SetSource_def SetInterval_def)

locale lease_source =
  fixes env_ok :: "'e \<Rightarrow> bool"
    and read :: "'s \<Rightarrow> 'e \<Rightarrow> (string, disc_lease list) result"
  assumes read_labels: "env_ok e \<Longrightarrow> read s e = Inr ls \<Longrightarrow> labels ls"
begin

lemma Poll_exact:
  assumes "published p" and "env_ok e" and poll: "Poll (\<lambda>s. read s e) onChange (p, h) = (err, p', h')"
  shows "published p' \<and> (case cycle_result (\<lambda>s. read s e) p of
      Inl x \<Rightarrow> err = Some x \<and> p' = p \<and> h' = h
    | Inr ls \<Rightarrow> err = None \<and> (p' = p \<and> h' = h \<or> po_leases p' = ls \<and> h' = onChange ls h) \<and>
        (plain ls \<and> plain (po_leases p) \<or> ls = [] \<longrightarrow> names_of (po_leases p') = names_of ls))"
proof (cases "cycle_result (\<lambda>s. read s e) p")
  case (Inl x)
  then show ?thesis using assms by (auto simp: Poll_def cycle_result_def split: option.splits)
next
  case (Inr ls)
  have l: "labels ls" using Inr read_labels [OF assms(2)] by (auto simp: cycle_result_def labels_def split: option.splits)
  have "names_of ls = names_of (po_leases p)" if d: "digest ls = po_digest p" "plain ls \<and> plain (po_leases p) \<or> ls = []"
  proof (cases "ls = []")
    case True
    then show ?thesis using d(1) assms(1) by (cases "po_leases p") (auto simp: published_def)
  next
    case False
    then show ?thesis using d digest_names [OF l, of "po_leases p"] assms(1) by (simp add: published_def)
  qed
  then show ?thesis using Inr poll assms(1) l by (auto simp: Poll_def cycle_result_def published_def Let_def split: option.splits if_splits)
qed

lemma step_published:
  assumes "published (fst ph)" and "event_ok env_ok ev"
  shows "published (fst (poll_step read onChange ev ph))"
proof (cases ev)
  case (Cycle e)
  obtain p h where ph: "ph = (p, h)" by (cases ph)
  obtain err p' h' where poll: "Poll (\<lambda>s. read s e) onChange (p, h) = (err, p', h')" by (metis prod_cases3)
  then have "published p'" using Poll_exact assms Cycle ph by fastforce
  then show ?thesis using poll by (simp add: Cycle ph run_cycle_def)
qed (use assms in \<open>cases ph, simp\<close>)+

lemma run_published:
  "list_all (event_ok env_ok) evs \<Longrightarrow> published (fst ph) \<Longrightarrow> published (fst (fold (poll_step read onChange) evs ph))"
  by (induction evs arbitrary: ph) (simp_all add: step_published)

text \<open>A listener that copies what it is told holds what is published, at every moment of every run.\<close>

lemma run_told:
  assumes "list_all (event_ok env_ok) evs" and "published (fst ph)" and "snd ph = names_of (po_leases (fst ph))"
  shows "snd (fold (poll_step read (\<lambda>ls _. names_of ls)) evs ph) = names_of (po_leases (fst (fold (poll_step read (\<lambda>ls _. names_of ls)) evs ph)))"
  using assms
proof (induction evs arbitrary: ph)
  case (Cons ev evs)
  let ?s = "poll_step read (\<lambda>ls _. names_of ls) ev ph"
  obtain p h where ph: "ph = (p, h)" by (cases ph)
  have "snd ?s = names_of (po_leases (fst ?s))"
  proof (cases ev)
    case (Cycle e)
    obtain err p' h' where poll: "Poll (\<lambda>s. read s e) (\<lambda>ls _. names_of ls) (p, h) = (err, p', h')" by (metis prod_cases3)
    have "h' = names_of (po_leases p')"
      using Poll_exact [OF _ _ poll] Cons.prems Cycle ph by (auto split: sum.splits if_splits)
    then show ?thesis using poll by (simp add: Cycle ph run_cycle_def)
  qed (use Cons.prems ph in simp_all)
  moreover have "published (fst ?s)" using Cons.prems by (intro step_published) simp_all
  ultimately show ?case using Cons.IH [of ?s] Cons.prems(1) by simp
qed simp

end

section \<open>The two providers\<close>

lemma ParseAddr_zone: "ParseAddr s = Some (Addr6 w z) \<Longrightarrow> set z \<subseteq> set s"
proof -
  assume "ParseAddr s = Some (Addr6 w z)"
  then have "z = tl (dropWhile (\<lambda>c. c \<noteq> CHR ''%'') s)"
    by (auto simp: ParseAddr_def parse4_def parse6_def Let_def split: list.splits if_splits option.splits)
  then show ?thesis by (metis list.set_sel(2) set_dropWhileD subsetI tl_Nil)
qed

lemma show_addr_separator: "CHR '';'' \<in> set (show_addr a) \<Longrightarrow> \<exists>w z. a = Addr6 w z \<and> CHR '';'' \<in> set z"
proof (cases a)
  case (Addr4 w)
  have "\<not> is_hex CHR '';''" by code_simp
  moreover assume "CHR '';'' \<in> set (show_addr a)"
  ultimately show ?thesis using Addr4 set_show4 [of w] by auto
next
  case (Addr6 w z)
  have "\<not> is_hex CHR '';''" by code_simp
  moreover assume "CHR '';'' \<in> set (show_addr a)"
  ultimately show ?thesis using Addr6 set_show6 [of w] by (auto split: if_splits)
qed simp

lemma split_by_chars: "w \<in> set (split_by P s) \<Longrightarrow> set w \<subseteq> set s"
  by (induction s arbitrary: w) (fastforce split: if_splits list.splits)+

lemma Fields_chars: "w \<in> set (Fields s) \<Longrightarrow> set w \<subseteq> set s"
  using split_by_chars by (auto simp: Fields_def)

lemma validLabel_chars: "validLabel h \<Longrightarrow> CHR ''='' \<notin> set h"
proof
  assume "validLabel h" "CHR ''='' \<in> set h"
  moreover have "\<not> (is_lower CHR ''='' \<or> is_digit CHR ''='')" by code_simp
  ultimately show False by (auto simp: validLabel_def list_all_iff split: if_splits)
qed

lemma TrimSpace_chars: "set (TrimSpace s) \<subseteq> set s"
  by (auto simp: TrimSpace_def dest!: set_dropWhileD)

lemma dnsmasq_line_label: "dnsmasq_line now n raw = Leased l \<Longrightarrow> CHR ''='' \<notin> set (d_Hostname l)"
  by (auto simp: dnsmasq_line_def Let_def dest!: validLabel_chars split: if_splits option.splits)

lemma dnsmasq_line_plain:
  assumes "dnsmasq_line now n raw = Leased l" and "CHR '';'' \<notin> set raw"
  shows "CHR '';'' \<notin> set (d_IP l)"
proof -
  obtain a where "4 \<le> length (Fields (TrimSpace raw))" and a: "ParseAddr (Fields (TrimSpace raw) ! 2) = Some a" and l: "d_IP l = show_addr a"
    using assms(1) by (auto simp: dnsmasq_line_def Let_def split: if_splits option.splits)
  then have "set (Fields (TrimSpace raw) ! 2) \<subseteq> set raw" using Fields_chars [OF nth_mem, of 2 "TrimSpace raw"] TrimSpace_chars [of raw] by auto
  then show ?thesis using show_addr_separator ParseAddr_zone a l assms(2) by (metis subsetD)
qed

section \<open>The parser against its reference\<close>

text \<open>What the parser keeps while it reads, by the lines it took: the names in order of first appearance, and for each the first lease of the latest expiry.\<close>

fun valid_leases :: "int \<Rightarrow> nat \<Rightarrow> string list \<Rightarrow> disc_lease list" where
  "valid_leases now n [] = []"
| "valid_leases now n (raw # rest) = (case dnsmasq_line now n raw of Leased l \<Rightarrow> [l] | _ \<Rightarrow> []) @ valid_leases now (Suc n) rest"

definition outlives :: "disc_lease list \<Rightarrow> string \<Rightarrow> disc_lease \<Rightarrow> bool" where
  "outlives ls h l = (d_Hostname l = h \<and> list_all (\<lambda>k. d_Hostname k = h \<longrightarrow> d_Expires k \<le> d_Expires l) ls)"

definition newest_of :: "disc_lease list \<Rightarrow> string \<Rightarrow> disc_lease option" where
  "newest_of ls h = (case filter (outlives ls h) ls of [] \<Rightarrow> None | l # _ \<Rightarrow> Some l)"

definition first_order :: "string list \<Rightarrow> string list" where
  "first_order hs = rev (remdups (rev hs))"

definition dm_ok :: "disc_lease list \<Rightarrow> dm_state \<Rightarrow> bool" where
  "dm_ok ls st = (dm_order st = first_order (map d_Hostname ls) \<and> (\<forall>h. m_get (dm_newest st) h = newest_of ls h))"

lemma newest_of_Some: "newest_of ls h = Some l \<Longrightarrow> l \<in> set ls \<and> outlives ls h l"
proof -
  assume "newest_of ls h = Some l"
  then obtain xs where "filter (outlives ls h) ls = l # xs" by (auto simp: newest_of_def split: list.splits)
  then have "l \<in> set (filter (outlives ls h) ls)" by (metis list.set_intros(1))
  then show ?thesis by simp
qed

lemma newest_of_None: "newest_of ls h = None \<longleftrightarrow> h \<notin> d_Hostname ` set ls"
proof (cases "newest_of ls h")
  case (Some l)
  then show ?thesis using newest_of_Some [OF Some] by (auto simp: outlives_def)
next
  let ?S = "{l \<in> set ls. d_Hostname l = h}"
  case None
  have "h \<notin> d_Hostname ` set ls"
  proof
    assume "h \<in> d_Hostname ` set ls"
    then have "Max (d_Expires ` ?S) \<in> d_Expires ` ?S" by (intro Max_in) auto
    then obtain l where l: "l \<in> ?S" "d_Expires l = Max (d_Expires ` ?S)" by auto
    then have "outlives ls h l" by (simp add: outlives_def list_all_iff)
    then show False using None l(1) by (auto simp: newest_of_def filter_empty_conv split: list.splits)
  qed
  then show ?thesis using None by simp
qed

lemma newest_of_other: "d_Hostname l \<noteq> h \<Longrightarrow> newest_of (ls @ [l]) h = newest_of ls h"
proof -
  assume "d_Hostname l \<noteq> h"
  then have "outlives (ls @ [l]) h = outlives ls h" "\<not> outlives ls h l" by (auto simp: outlives_def)
  then show ?thesis by (simp add: newest_of_def)
qed

lemma newest_of_claim:
  "newest_of (ls @ [l]) (d_Hostname l) =
     (case newest_of ls (d_Hostname l) of None \<Rightarrow> Some l | Some p \<Rightarrow> if d_Expires p < d_Expires l then Some l else Some p)"
proof (cases "newest_of ls (d_Hostname l)")
  case None
  then have "d_Hostname k \<noteq> d_Hostname l" if "k \<in> set ls" for k using that newest_of_None by (metis imageI)
  then have "filter (outlives (ls @ [l]) (d_Hostname l)) ls = []" "outlives (ls @ [l]) (d_Hostname l) l"
    by (auto simp: outlives_def filter_empty_conv list_all_iff)
  then show ?thesis using None by (simp add: newest_of_def)
next
  case (Some p)
  note p = newest_of_Some [OF Some]
  show ?thesis
  proof (cases "d_Expires p < d_Expires l")
    case True
    have "filter (outlives (ls @ [l]) (d_Hostname l)) ls = []" "outlives (ls @ [l]) (d_Hostname l) l"
      using True p by (force simp: outlives_def filter_empty_conv list_all_iff)+
    then show ?thesis using Some True by (simp add: newest_of_def)
  next
    case False
    have "outlives (ls @ [l]) (d_Hostname l) x = outlives ls (d_Hostname l) x" if "x \<in> set ls" for x
      using that False p by (force simp: outlives_def list_all_iff)
    then have "filter (outlives (ls @ [l]) (d_Hostname l)) ls = filter (outlives ls (d_Hostname l)) ls" by (rule filter_cong [OF refl])
    then show ?thesis using Some False by (simp add: newest_of_def split: list.splits)
  qed
qed

lemma dm_claim_ok: "dm_ok ls st \<Longrightarrow> dm_ok (ls @ [l]) (dm_claim n l st)"
proof -
  assume ok: "dm_ok ls st"
  have seen: "d_Hostname l \<in> set (map d_Hostname ls) \<longleftrightarrow> newest_of ls (d_Hostname l) \<noteq> None" by (simp add: newest_of_None)
  show ?thesis
  proof (cases "newest_of ls (d_Hostname l)")
    case None
    then show ?thesis using ok seen newest_of_claim [of ls l] newest_of_other [of l _ ls]
      by (auto simp: dm_ok_def dm_claim_def first_order_def)
  next
    case (Some p)
    then have "d_Hostname l \<in> d_Hostname ` set ls" using seen by simp
    then have "first_order (map d_Hostname (ls @ [l])) = first_order (map d_Hostname ls)" by (simp add: first_order_def)
    moreover have "m_get (dm_newest (dm_claim n l st)) h = newest_of (ls @ [l]) h" for h
      using ok Some newest_of_claim [of ls l] newest_of_other [of l h ls] by (cases "h = d_Hostname l") (auto simp: dm_ok_def dm_claim_def Let_def)
    ultimately show ?thesis using ok Some by (simp add: dm_ok_def dm_claim_def Let_def)
  qed
qed

lemma dm_lines_ok: "dm_ok ls st \<Longrightarrow> dm_ok (ls @ valid_leases now n raws) (dm_lines now n raws st)"
proof (induction raws arbitrary: n ls st)
  case (Cons raw raws)
  show ?case
  proof (cases "dnsmasq_line now n raw")
    case (Leased l)
    show ?thesis using Cons.IH [OF dm_claim_ok [OF Cons.prems, of l n], of "Suc n"] Leased by simp
  next
    case (Skipped x)
    have "dm_ok ls (st\<lparr>dm_skipped := dm_skipped st @ [x]\<rparr>)" using Cons.prems by (simp add: dm_ok_def)
    from Cons.IH [OF this, of "Suc n"] show ?thesis using Skipped by simp
  qed (use Cons in simp)
qed simp

lemma ParseDnsmasq_newest:
  "fst (ParseDnsmasq (content, readErr) now) =
     (let ls = valid_leases now 1 (fst (scan_lines content))
      in map (\<lambda>h. the (newest_of ls h)) (first_order (map d_Hostname ls)))"
proof -
  let ?st = "dm_lines now 1 (fst (scan_lines content)) \<lparr>dm_skipped = [], dm_newest = [], dm_order = []\<rparr>"
  have "dm_ok [] \<lparr>dm_skipped = [], dm_newest = [], dm_order = []\<rparr>" by (simp add: dm_ok_def first_order_def newest_of_def)
  from dm_lines_ok [OF this, of now 1 "fst (scan_lines content)"]
  have "dm_ok (valid_leases now 1 (fst (scan_lines content))) ?st" by simp
  then show ?thesis by (cases "scan_lines content") (simp add: ParseDnsmasq_def dm_ok_def Let_def)
qed

text \<open>
  The reference. A line is a lease when it has the four fields expiry, hardware address, address and name, with an expiry that is zero or in the
  future, an address, and a name that is one label; comments and the placeholder \<open>*\<close> are no leases by that alone. An expiry of zero means forever.
\<close>

definition lease_of :: "int \<Rightarrow> string \<Rightarrow> disc_lease option" where
  "lease_of now raw =
     (case Fields raw of
        t # mac # ip # host # _ \<Rightarrow>
          (case (ParseInt64 t, ParseAddr ip) of
             (Some epoch, Some a) \<Rightarrow>
               let h = ToLower host
               in if (epoch = 0 \<or> now < time_Unix epoch) \<and>
                     1 \<le> length h \<and> length h \<le> 63 \<and> list_all (\<lambda>c. CHR ''a'' \<le> c \<and> c \<le> CHR ''z'' \<or> CHR ''0'' \<le> c \<and> c \<le> CHR ''9'' \<or> c = CHR ''-'') h \<and> hd h \<noteq> CHR ''-'' \<and> last h \<noteq> CHR ''-''
                  then Some \<lparr>d_MAC = mac, d_IP = show_addr a, d_Hostname = h, d_Expires = time_Unix epoch\<rparr> else None
           | _ \<Rightarrow> None)
      | _ \<Rightarrow> None)"

definition endless :: "disc_lease \<Rightarrow> bool" where
  "endless l = (d_Expires l = 0)"

definition outlasts :: "disc_lease \<Rightarrow> disc_lease \<Rightarrow> bool" where
  "outlasts k l = (\<not> endless l \<and> (endless k \<or> d_Expires l < d_Expires k))"

definition claims_on :: "string \<Rightarrow> disc_lease list \<Rightarrow> disc_lease list" where
  "claims_on h ls = filter (\<lambda>l. d_Hostname l = h) ls"

definition winner :: "disc_lease list \<Rightarrow> disc_lease option" where
  "winner ls = find (\<lambda>l. \<not> list_ex (\<lambda>k. outlasts k l) ls) ls"

text \<open>Where a name has claims of both kinds, the code drops the endless ones.\<close>

definition mixed :: "disc_lease list \<Rightarrow> bool" where
  "mixed ls = (list_ex endless ls \<and> list_ex (\<lambda>l. \<not> endless l) ls)"

lemma Fields_TrimSpace: "Fields (TrimSpace s) = Fields s"
proof -
  have left: "Fields (dropWhile is_space s) = Fields s" for s by (induction s) (simp_all add: Fields_def)
  have snoc: "split_by P (w @ [c]) = split_by P w @ [[]]" if "P c" for P c w using that by (induction w) (auto split: list.splits)
  have right: "Fields (rev (dropWhile is_space r)) = Fields (rev r)" for r by (induction r) (simp_all add: Fields_def snoc)
  show ?thesis unfolding TrimSpace_def right by (simp add: left)
qed

lemma label_chars: "is_lower c \<or> is_digit c \<or> c = CHR ''-'' \<longleftrightarrow> CHR ''a'' \<le> c \<and> c \<le> CHR ''z'' \<or> CHR ''0'' \<le> c \<and> c \<le> CHR ''9'' \<or> c = CHR ''-''"
proof -
  define n :: nat where "n = of_char c"
  have "char_code c = int n" unfolding char_code_def n_def by (cases c) simp
  then show ?thesis by (auto simp: is_lower_def is_digit_def less_eq_char_def n_def [symmetric])
qed

lemma validLabel_reference:
  "validLabel h \<longleftrightarrow> 1 \<le> length h \<and> length h \<le> 63 \<and> list_all (\<lambda>c. CHR ''a'' \<le> c \<and> c \<le> CHR ''z'' \<or> CHR ''0'' \<le> c \<and> c \<le> CHR ''9'' \<or> c = CHR ''-'') h \<and> hd h \<noteq> CHR ''-'' \<and> last h \<noteq> CHR ''-''"
  unfolding validLabel_def label_chars by (cases h) (auto simp: Suc_le_eq)

lemma four_fields: "4 \<le> length fs \<Longrightarrow> \<exists>a b c d r. fs = a # b # c # d # r"
  by (metis Suc_le_length_iff numeral_eq_Suc pred_numeral_simps(2,3) BitM.simps(1,2) pred_numeral_simps(1))

lemma dnsmasq_line_reference: "(case dnsmasq_line now n raw of Leased l \<Rightarrow> Some l | _ \<Rightarrow> None) = lease_of now raw"
proof (cases "4 \<le> length (Fields raw)")
  case False
  then have "lease_of now raw = None" by (auto simp: lease_of_def split: list.splits)
  then show ?thesis using False by (simp add: dnsmasq_line_def Fields_TrimSpace Let_def)
next
  case True
  then obtain t mac ip host r where f: "Fields raw = t # mac # ip # host # r" using four_fields by blast
  have comment: "ParseInt64 t = None" if c: "HasPrefix (TrimSpace raw) ''#''"
  proof -
    obtain w where w: "TrimSpace raw = CHR ''#'' # w" using c unfolding HasPrefix_def by (cases "TrimSpace raw") auto
    have "\<not> is_space CHR ''#''" by code_simp
    then have "\<exists>v. hd (Fields (TrimSpace raw)) = CHR ''#'' # v" unfolding w by (auto simp: Fields_def split: list.splits)
    then show ?thesis using f by (auto simp: Fields_TrimSpace ParseInt64_def HasPrefix_def Let_def is_digit_def char_code_def)
  qed
  have blank: "TrimSpace raw \<noteq> []" using f Fields_TrimSpace [of raw] by (auto simp: Fields_def)
  have star: "\<not> validLabel ''*''" by code_simp
  have ft: "Fields (TrimSpace raw) = t # mac # ip # host # r" using f by (simp add: Fields_TrimSpace)
  show ?thesis using blank comment star unfolding lease_of_def dnsmasq_line_def f validLabel_reference [symmetric] Let_def ft
    by (cases "HasPrefix (TrimSpace raw) ''#''"; cases "ParseInt64 t"; cases "ParseAddr ip") (auto split: option.split)
qed

lemma valid_leases_reference: "valid_leases now n raws = List.map_filter (lease_of now) raws"
proof (induction raws arbitrary: n)
  case (Cons raw raws)
  then show ?case by (cases "dnsmasq_line now n raw") (simp_all add: List.map_filter_def dnsmasq_line_reference [of now n raw, symmetric])
qed (simp add: List.map_filter_def)

lemma find_filter: "find P xs = (case filter P xs of [] \<Rightarrow> None | x # _ \<Rightarrow> Some x)"
  by (induction xs) auto

lemma newest_of_winner:
  assumes "\<forall>l\<in>set ls. 0 \<le> d_Expires l"
  shows "newest_of ls h = winner (let cs = claims_on h ls in if mixed cs then filter (\<lambda>l. \<not> endless l) cs else cs)"
proof -
  let ?cs = "claims_on h ls"
  let ?xs = "if mixed ?cs then filter (\<lambda>l. \<not> endless l) ?cs else ?cs"
  have "outlives ls h x \<longleftrightarrow> d_Hostname x = h \<and> (mixed ?cs \<longrightarrow> \<not> endless x) \<and> \<not> list_ex (\<lambda>k. outlasts k x) ?xs" if x: "x \<in> set ls" for x
  proof (cases "list_ex (\<lambda>l. \<not> endless l) ?cs")
    case True
    then obtain d where d: "d \<in> set ls" "d_Hostname d = h" "d_Expires d \<noteq> 0" by (auto simp: list_ex_iff claims_on_def endless_def)
    then have "0 < d_Expires d" using assms by (simp add: order_less_le)
    moreover have m: "mixed ?cs \<longleftrightarrow> (\<exists>l\<in>set ls. d_Hostname l = h \<and> d_Expires l = 0)"
      using True by (auto simp: mixed_def list_ex_iff claims_on_def endless_def)
    moreover have "outlives ls h x \<longleftrightarrow> d_Hostname x = h \<and> d_Expires x \<noteq> 0 \<and> (\<forall>y\<in>set ls. d_Hostname y = h \<longrightarrow> d_Expires y \<noteq> 0 \<longrightarrow> d_Expires y \<le> d_Expires x)"
      using x d \<open>0 < d_Expires d\<close> assms unfolding outlives_def list_all_iff by (metis order.trans linorder_not_le order_less_le)
    ultimately show ?thesis
      by (cases "mixed ?cs") (auto simp: outlasts_def endless_def claims_on_def list_ex_iff linorder_not_less x)
  next
    case False
    then show ?thesis using x by (auto simp: outlives_def outlasts_def mixed_def claims_on_def list_ex_iff list_all_iff endless_def)
  qed
  then have "filter (outlives ls h) ls = filter (\<lambda>x. \<not> list_ex (\<lambda>k. outlasts k x) ?xs) ?xs"
    by (auto simp: claims_on_def intro!: filter_cong)
  then show ?thesis by (simp add: newest_of_def winner_def find_filter Let_def)
qed

lemma lease_of_future: "0 \<le> now \<Longrightarrow> lease_of now raw = Some l \<Longrightarrow> 0 \<le> d_Expires l"
  by (auto simp: lease_of_def Let_def time_Unix_def unixToInternal_def split: list.splits option.splits if_splits)

text \<open>
  C35: the lease file is read as its documentation says. From any file, the parser, which keeps a map of winners while it reads, returns exactly what the
  reference returns: the leases of the file that are not expired, one per name, in the order the names first appear, each the first of the claims on its name
  that no other claim outlasts, where an endless lease outlasts every dated one. The exception is a name claimed both ways: there the code drops the endless
  claims and the first dated one that none outlasts wins. The clock stands after 1970.
\<close>

theorem ParseDnsmasq_reference:
  assumes "0 \<le> now"
  shows "fst (ParseDnsmasq (content, readErr) now) =
     (let ls = List.map_filter (lease_of now) (fst (scan_lines content))
      in map (\<lambda>h. let cs = claims_on h ls in the (winner (if mixed cs then filter (\<lambda>l. \<not> endless l) cs else cs)))
           (first_order (map d_Hostname ls)))"
proof -
  let ?ls = "List.map_filter (lease_of now) (fst (scan_lines content))"
  have "\<forall>l\<in>set ?ls. 0 \<le> d_Expires l" using lease_of_future [OF assms] by (auto simp: List.map_filter_def)
  from newest_of_winner [OF this] show ?thesis by (simp add: ParseDnsmasq_newest valid_leases_reference Let_def)
qed

theorem ParseDnsmasq_reference_witness:
  "names_of (fst (ParseDnsmasq (''1900000000 m1 10.0.0.1 nas *'' @ [CHR 0x0A] @ ''1950000000 m2 10.0.0.2 NAS *'', None) 1800000000000000000)) =
     [(''nas'', ''10.0.0.2'')]"
  unfolding ParseDnsmasq_reference [of 1800000000000000000, simplified] by code_simp

lemma set_tl_subset: "set (tl xs) \<subseteq> set xs"
  by (cases xs) auto

lemma scan_lines_chars: "l \<in> set (fst (scan_lines s)) \<Longrightarrow> set l \<subseteq> set s"
proof (induction s rule: scan_lines.induct)
  case (1 s)
  let ?l = "takeWhile (\<lambda>c. c \<noteq> CHR 0x0A) s" and ?r = "tl (dropWhile (\<lambda>c. c \<noteq> CHR 0x0A) s)"
  show ?case
  proof (cases "s = [] \<or> MaxScanTokenSize \<le> int (length ?l)")
    case True
    then have "fst (scan_lines s) = []" by (subst scan_lines.simps) (auto simp: Let_def)
    then show ?thesis using 1(2) by simp
  next
    case False
    have sc: "fst (scan_lines s) = drop_cr ?l # fst (scan_lines ?r)"
      using False by (subst scan_lines.simps) (simp add: Let_def split: prod.split)
    have "set (drop_cr ?l) \<subseteq> set s" by (auto simp: drop_cr_def dest!: in_set_butlastD set_takeWhileD)
    moreover have "set ?r \<subseteq> set s" using set_tl_subset set_dropWhileD by (metis (no_types, lifting) subset_iff)
    moreover have "l \<in> set (fst (scan_lines ?r)) \<Longrightarrow> set l \<subseteq> set ?r" using 1(1) False by simp
    ultimately show ?thesis using 1(2) sc by auto
  qed
qed

lemma valid_leases_lines: "l \<in> set (valid_leases now n raws) \<Longrightarrow> \<exists>raw\<in>set raws. \<exists>k. dnsmasq_line now k raw = Leased l"
  by (induction raws arbitrary: n) (auto split: line_result.splits)

lemma ParseDnsmasq_members: "set (fst (ParseDnsmasq (content, readErr) now)) \<subseteq> set (valid_leases now 1 (fst (scan_lines content)))"
  by (auto simp: ParseDnsmasq_newest Let_def first_order_def) (metis image_eqI newest_of_None newest_of_Some not_Some_eq option.sel)

lemma ParseDnsmasq_labels: "labels (fst (ParseDnsmasq r now))"
  using ParseDnsmasq_members valid_leases_lines dnsmasq_line_label unfolding labels_def list_all_iff by (metis prod.collapse subsetD)

lemma ParseDnsmasq_plain: "CHR '';'' \<notin> set content \<Longrightarrow> plain (fst (ParseDnsmasq (content, readErr) now))"
  using ParseDnsmasq_members valid_leases_lines dnsmasq_line_plain scan_lines_chars unfolding plain_def list_all_iff by (meson subsetD)

text \<open>What a cycle meets: the lease file, the built-in server and the clock.\<close>

datatype app_source = FileSource string | BuiltIn

record disc_env =
  de_file :: "string \<Rightarrow> string + string \<times> string option"
  de_server :: dserver
  de_now :: int

fun app_read :: "app_source \<Rightarrow> disc_env \<Rightarrow> (string, disc_lease list) result" where
  "app_read (FileSource path) e = DnsmasqSource_Leases (de_file e path) (de_now e)"
| "app_read BuiltIn e = Inr (srv_Leases (de_server e) (de_now e))"

text \<open>The built-in server leases IPv4 addresses only, after any run.\<close>

definition alloc4 :: "allocator \<Rightarrow> bool" where
  "alloc4 a = (\<forall>mac l. m_get (byMAC a) mac = Some l \<longrightarrow> is4 (l_IP l))"

lemma alloc4_sub: "alloc4 a \<Longrightarrow> (\<And>m l. m_get (byMAC b) m = Some l \<Longrightarrow> m_get (byMAC a) m = Some l) \<Longrightarrow> alloc4 b"
  unfolding alloc4_def by blast

lemma commit_alloc4: "alloc4 a \<Longrightarrow> is4 ip \<Longrightarrow> alloc4 (snd (commit a mac hn now ttl tentative ip fresh))"
  by (auto simp: alloc4_def commit_byMAC commit_lease_def split: if_splits option.splits)

lemma allocate_alloc4: "alloc4 a \<Longrightarrow> res4 a \<Longrightarrow> alloc4 (snd (allocate a now mac hn requested ttl tentative))"
  using allocate_outcome [of a now mac hn requested ttl tentative]
  by (cases rule: alloc_outcome.cases)
     (auto simp: res4_def usable_def alloc4_def [of a] dest!: free_usable intro!: commit_alloc4 intro: inRange_is4)

lemma Release_alloc4: "alloc4 a \<Longrightarrow> alloc4 (snd (Release a mac ip))"
  by (erule alloc4_sub) (auto simp: Release_def split: option.splits if_splits)

lemma Quarantine_4 [simp]: "alloc4 (Quarantine a now ip) = alloc4 a" "res4 (Quarantine a now ip) = res4 a"
  by (simp_all add: alloc4_def res4_def Quarantine_def)

lemma Release_4: "res4 (snd (Release a mac ip)) = res4 a"
  by (simp add: res4_def Release_reserved)

lemma allocate_4: "res4 (snd (allocate a now mac hn requested ttl tentative)) = res4 a"
  by (simp add: res4_def allocate_reserved)

lemma Offer_alloc4: "alloc4 a \<Longrightarrow> res4 a \<Longrightarrow> alloc4 (snd (srv_offer e mac m a))"
  by (auto simp: srv_offer_def Offer_def Let_def case_prod_beta split: option.split)
     (auto intro!: allocate_alloc4 Release_alloc4 simp: Release_4 allocate_4)

text \<open>A packet changes the allocator through one of its operations.\<close>

lemma handle_alloc:
  assumes "P (sv_Alloc s)" and "\<And>mac m. P (snd (srv_offer e mac m (sv_Alloc s)))" and "\<And>mac m. P (snd (srv_request opt e mac m (sv_Alloc s)))"
    and "\<And>mac ip. P (snd (Release (sv_Alloc s) mac ip))" and "\<And>mac ip. P (snd (Decline (sv_Alloc s) (e_now e) mac ip))"
  shows "P (sv_Alloc (fst (handle opt e msg s)))"
proof -
  have "P (sv_Alloc (fst (ack opt e m mac s)))" for m mac
    by (cases rule: ack_cases [of m opt e mac s]) (use assms(1,3) in \<open>auto dest!: arg_cong [of _ _ snd]\<close>)
  moreover have "P (sv_Alloc (fst (offer opt e m mac s)))" for m mac
    using assms(2) [of mac m] by (auto simp: offer_def srv_allocate_def split: prod.splits option.splits)
  moreover have "P (sv_Alloc (fst (on_release opt e m mac s)))" for m mac
    using assms(1) assms(4) [of mac] by (auto simp: on_release_def delete_row_def split: option.splits prod.splits bool.splits) (metis snd_conv)+
  moreover have "P (sv_Alloc (fst (on_decline e m mac s)))" for m mac
    using assms(1) assms(5) [of mac] by (auto simp: on_decline_def delete_row_def split: option.splits prod.splits bool.splits) (metis snd_conv)+
  ultimately show ?thesis using assms(1) by (auto simp: handle_def Let_def split: option.split message_type.split)
qed

lemma handle_alloc4:
  assumes "alloc4 (sv_Alloc s)" and "res4 (sv_Alloc s)"
  shows "alloc4 (sv_Alloc (fst (handle opt e msg s)))"
proof (rule handle_alloc)
  show "alloc4 (snd (srv_request opt e mac m (sv_Alloc s)))" for mac m
    using allocate_alloc4 [OF assms] by (simp add: srv_request_def Allocate_def split: prod.split) (metis snd_conv)
  show "alloc4 (snd (Release (sv_Alloc s) mac ip))" for mac ip
    using assms(1) by (rule Release_alloc4)
  show "alloc4 (snd (Decline (sv_Alloc s) (e_now e) mac ip))" for mac ip
    using assms(1) by (rule alloc4_sub) (auto simp: Decline_def Let_def split: if_splits)
qed (use assms Offer_alloc4 in auto)

lemma Load_alloc4: "\<forall>l\<in>set ls. is4 (l_IP l) \<Longrightarrow> alloc4 a \<Longrightarrow> alloc4 (Load ls a)"
  unfolding Load_def by (rule fold_invariant) (auto simp: alloc4_def split: if_splits)

lemma dexec_alloc4:
  assumes "is4 (paddr (Subnet (o_Cfg opt)))" and "srv_inv s" and "alloc4 (sv_Alloc s)"
  shows "alloc4 (sv_Alloc (dexec opt ev s))"
proof (cases ev)
  case (Packet e m)
  then show ?thesis using assms handle_alloc4 by (simp add: srv_inv_def)
next
  case (Restart svcs prune_ok rows_ok now)
  let ?t = "fst (DeleteExpiredDHCPLeases (unix now) (sv_Store s))"
  have t: "rows4 ?t" using assms(2) rows4_prune by (simp add: srv_inv_def)
  have "is4 (l_IP l)" if "l \<in> set (List.map_filter row_lease (DHCPLeases ?t))" for l
    using that t row_lease_4 by (fastforce simp: in_map_filter rows4_def)
  moreover have "alloc4 (SetReservations r (NewAllocator c))" for r c by (simp add: alloc4_def SetReservations_maps) (simp add: NewAllocator_def)
  ultimately show ?thesis using Load_alloc4 unfolding Restart dexec.simps restore_def Let_def by simp
qed (use assms in \<open>simp_all add: alloc4_def SetReservations_maps ignoreXID_def unignoreXID_def\<close>)

lemma run_alloc4:
  assumes "is4 (paddr (Subnet (o_Cfg opt)))"
  shows "alloc4 (sv_Alloc (fold (dexec opt) evs (boot opt)))"
proof -
  have "srv_inv s \<and> alloc4 (sv_Alloc s) \<Longrightarrow> srv_inv (dexec opt ev s) \<and> alloc4 (sv_Alloc (dexec opt ev s))" for s ev
    using dexec_alloc4 [OF assms] dexec_inv [OF assms] by blast
  then have "srv_inv (fold (dexec opt) evs (boot opt)) \<and> alloc4 (sv_Alloc (fold (dexec opt) evs (boot opt)))"
    by (intro fold_invariant [where P = "\<lambda>s. srv_inv s \<and> alloc4 (sv_Alloc s)"])
       (use assms boot_inv [of opt] in \<open>auto simp: alloc4_def boot_def NewAllocator_def\<close>)
  then show ?thesis by blast
qed

text \<open>The environment the application keeps: the server has only ever been driven by its events. The lease file is arbitrary.\<close>

definition disc_env_ok :: "disc_env \<Rightarrow> bool" where
  "disc_env_ok e = (\<exists>opt evs. is4 (paddr (Subnet (o_Cfg opt))) \<and> de_server e = fold (dexec opt) evs (boot opt))"

lemma srv_Leases_labels: "is4 (paddr (Subnet (o_Cfg opt))) \<Longrightarrow> labels (srv_Leases (fold (dexec opt) evs (boot opt)) now)"
proof -
  have "\<not> hostname_char CHR ''=''" by code_simp
  moreover assume "is4 (paddr (Subnet (o_Cfg opt)))"
  ultimately show ?thesis unfolding labels_def list_all_iff using published_names_are_labels by (metis list_all_iff)
qed

lemma srv_Leases_plain:
  assumes "is4 (paddr (Subnet (o_Cfg opt)))"
  shows "plain (srv_Leases (fold (dexec opt) evs (boot opt)) now)"
  unfolding plain_def list_all_iff
proof
  let ?s = "fold (dexec opt) evs (boot opt)"
  fix d assume d: "d \<in> set (srv_Leases ?s now)"
  obtain l where l: "l \<in> set (Leases (sv_Alloc ?s) now)" "d_IP d = show_addr (l_IP l)" using d by (auto simp: srv_Leases_def)
  then obtain mac where "(mac, l) \<in> set (byMAC (sv_Alloc ?s))" by (auto simp: Leases_def)
  then have "m_get (byMAC (sv_Alloc ?s)) mac = Some l" using run_inv [OF assms, of evs] alloc_invD(1) by (auto simp: srv_inv_def m_get_iff)
  then have "is4 (l_IP l)" using run_alloc4 [OF assms, of evs] by (auto simp: alloc4_def)
  then show "CHR '';'' \<notin> set (d_IP d)" using show_addr_separator l(2) by (metis addr.distinct(5) is4E)
qed

interpretation ls: lease_source disc_env_ok app_read
proof
  fix e s xs
  assume ok: "disc_env_ok e" and r: "app_read s e = Inr xs"
  show "labels xs"
  proof (cases s)
    case (FileSource path)
    then show ?thesis using r ParseDnsmasq_labels by (auto simp: DnsmasqSource_Leases_def split: sum.splits)
  next
    case BuiltIn
    then show ?thesis using ok r srv_Leases_labels by (auto simp: disc_env_ok_def)
  qed
qed

text \<open>The built-in server, a source without leases and a file with no semicolon are all read plain.\<close>

lemma reads_plain:
  assumes "disc_env_ok e" and "app_read s e = Inr ls"
    and "\<And>path content err. s = FileSource path \<Longrightarrow> de_file e path = Inr (content, err) \<Longrightarrow> CHR '';'' \<notin> set content"
  shows "plain ls"
proof (cases s)
  case (FileSource path)
  then show ?thesis using assms(2,3) ParseDnsmasq_plain by (auto simp: DnsmasqSource_Leases_def split: sum.splits)
next
  case BuiltIn
  then show ?thesis using assms(1,2) srv_Leases_plain by (auto simp: disc_env_ok_def)
qed


definition home_file :: string where
  "home_file = ''0 aa 10.0.0.9 NAS *'' @ [CHR 0x0A] @ ''1900000000 bb 10.0.0.7 tv *''"

definition home_env :: "string \<Rightarrow> disc_env" where
  "home_env content = \<lparr>de_file = (\<lambda>_. Inr (content, None)), de_server = boot lan_opt, de_now = 1800000000000000000\<rparr>"

lemma home_env_ok: "disc_env_ok (home_env content)"
proof -
  have "is4 (paddr (Subnet (o_Cfg lan_opt)))" by code_simp
  moreover have "boot lan_opt = fold (dexec lan_opt) [] (boot lan_opt)" by simp
  ultimately show ?thesis unfolding disc_env_ok_def home_env_def by (auto intro!: exI [of _ lan_opt] exI [of _ "[]"])
qed


text \<open>
  Two defects of this path. A semicolon in an IPv6 zone makes two different files look alike, so the change is never published. And an endless
  lease, which dnsmasq writes with an expiry of zero, counts as the oldest of all: any other claim on its name takes the name away from it.
\<close>

lemma digest_collision:
  "let one = fst (ParseDnsmasq (''0 m ::%a;b=10.0.0.9 h *'', None) 5);
       two = fst (ParseDnsmasq (''0 m ::%a h *'' @ [CHR 0x0A] @ ''0 m 10.0.0.9 b *'', None) 5)
   in digest one = digest two \<and> names_of one \<noteq> names_of two"
  by code_simp

lemma endless_lease_loses:
  "names_of (fst (ParseDnsmasq (''0 m1 10.0.0.1 nas *'' @ [CHR 0x0A] @ ''1900000000 m2 10.0.0.2 nas *'', None) 1800000000000000000)) =
     [(''nas'', ''10.0.0.2'')]"
  by code_simp

end
