(* ===== verification/DhcpIface.thy ===== *)
theory DhcpIface
  imports DhcpServer
begin

text \<open>
  The parts of \<^verbatim>\<open>internal/dhcpd\<close> that read what the host says and decide: \<^verbatim>\<open>iface.go\<close> (whether an
  interface is a container's, the default gateway, the suggested pool), \<^verbatim>\<open>probe.go\<close> (the ARP table)
  and \<^verbatim>\<open>rogue.go\<close> (the other servers that answered a probe). Reading files, opening sockets
  and sleeping are not modelled: the functions take the text or the replies.
\<close>

unbundle bit_operations_syntax

section \<open>iface.go\<close>

definition newline :: char where
  "newline = CHR 0x0A"

definition ueventIsVeth :: "string \<Rightarrow> bool" where
  "ueventIsVeth uevent = list_ex (\<lambda>line. TrimSpace line = ''DEVTYPE=veth'') (Split uevent newline)"

text \<open>\<^verbatim>\<open>hex.DecodeString\<close>.\<close>

definition DecodeHex :: "string \<Rightarrow> int list option" where
  "DecodeHex s = opt_all (map xtoi2 (pairs_of s))"

definition flag2 :: "int \<Rightarrow> bool" where
  "flag2 f = (f div 2 mod 2 = 1)"

definition route_gateway :: "string \<Rightarrow> addr option" where
  "route_gateway line =
     (let f = Fields line
      in if length f < 4 \<or> f ! 1 \<noteq> ''00000000'' then None
         else (case ParseUint16 (f ! 3) of
             None \<Rightarrow> None
           | Some flags \<Rightarrow>
               if \<not> flag2 flags then None
               else (case DecodeHex (f ! 2) of
                   None \<Rightarrow> None
                 | Some raw \<Rightarrow> if length raw \<noteq> 4 then None else Some (Addr4 (of_octets (rev raw))))))"

definition first_some :: "('a \<Rightarrow> 'b option) \<Rightarrow> 'a list \<Rightarrow> 'b option" where
  "first_some f xs = (case List.map_filter f xs of [] \<Rightarrow> None | y # _ \<Rightarrow> Some y)"

definition parseProcRoute :: "string \<Rightarrow> addr option" where
  "parseProcRoute table = first_some route_gateway (tl (Split table newline))"

datatype range_error = NotIPv4 | TooSmall netprefix

definition SuggestRange :: "netprefix \<Rightarrow> (range_error, addr \<times> addr) result" where
  "SuggestRange subnet =
     (case paddr (Masked subnet) of
        Addr4 network \<Rightarrow>
          if pbits subnet > 29 then Inl (TooSmall subnet)
          else let size = push_bit (32 - pbits subnet) 1;
                   startU = network + size div 2;
                   endU = network + size - 2
               in Inr (Addr4 startU, Addr4 endU)
      | _ \<Rightarrow> Inl NotIPv4)"

section \<open>probe.go\<close>

definition arp_live :: "string \<Rightarrow> string \<Rightarrow> addr option" where
  "arp_live iface line =
     (let f = Fields line
      in if length f < 6 \<or> f ! 5 \<noteq> iface then None
         else (case ParseUint16 (TrimPrefix (f ! 2) ''0x'') of
             None \<Rightarrow> None
           | Some flags \<Rightarrow> if \<not> flag2 flags then None else ParseAddr (f ! 0)))"

definition parseARPTable :: "string \<Rightarrow> string \<Rightarrow> (addr, bool) gomap" where
  "parseARPTable table iface =
     fold (\<lambda>line live. case arp_live iface line of None \<Rightarrow> live | Some a \<Rightarrow> m_put a True live)
       (tl (Split table newline)) []"

section \<open>rogue.go\<close>

record foreign =
  f_ServerID :: addr
  f_Offered :: addr

definition foreign_string :: "foreign \<Rightarrow> string" where
  "foreign_string f =
     show_addr (f_ServerID f) @ '' (offering '' @
     (if addr_valid (f_Offered f) then show_addr (f_Offered f) else ''unknown'') @ '')''"

record probe_reply =
  p_Type :: message_type
  p_ServerIdentifier :: "int list"
  p_YourIPAddr :: "int list"
  p_src :: addr

definition slice_addr :: "int list \<Rightarrow> addr" where
  "slice_addr bs = (case AddrFromSlice bs of Some a \<Rightarrow> Unmap a | None \<Rightarrow> AddrZero)"

definition foreign_id :: "probe_reply \<Rightarrow> addr" where
  "foreign_id r =
     (case AddrFromSlice (p_ServerIdentifier r) of
        Some a \<Rightarrow> if IsUnspecified (Unmap a) then p_src r else Unmap a
      | None \<Rightarrow> p_src r)"

definition foreign_step :: "probe_reply \<Rightarrow> addr list \<times> foreign list \<Rightarrow> addr list \<times> foreign list" where
  "foreign_step r st =
     (case st of (seen, out) \<Rightarrow>
        if p_Type r \<noteq> OfferMsg then st
        else let id = foreign_id r
        in if \<not> addr_valid id \<or> id \<in> set seen then st
           else (id # seen, out @ [\<lparr>f_ServerID = id, f_Offered = slice_addr (p_YourIPAddr r)\<rparr>]))"

definition collectForeign :: "probe_reply list \<Rightarrow> foreign list" where
  "collectForeign replies = snd (fold foreign_step replies ([], []))"

text \<open>\<^verbatim>\<open>probeMAC\<close> on the six random bytes it read.\<close>

definition probeMAC :: "8 word list \<Rightarrow> 8 word list" where
  "probeMAC b = ((b ! 0 OR 2) AND NOT 1) # tl b"

section \<open>What they promise\<close>

lemma foreign_run:
  "fold foreign_step rs (seen, out) = (seen', out') \<Longrightarrow> set seen = f_ServerID ` set out \<Longrightarrow> distinct (map f_ServerID out) \<Longrightarrow>
   set seen' = f_ServerID ` set out' \<and> distinct (map f_ServerID out') \<and>
   f_ServerID ` set out' = f_ServerID ` set out \<union> {foreign_id r |r. r \<in> set rs \<and> p_Type r = OfferMsg \<and> addr_valid (foreign_id r)}"
proof (induction rs arbitrary: seen out)
  case Nil
  then show ?case by auto
next
  case (Cons r rs)
  obtain seen1 out1 where st: "foreign_step r (seen, out) = (seen1, out1)" by fastforce
  then have "set seen1 = f_ServerID ` set out1" "distinct (map f_ServerID out1)"
    "f_ServerID ` set out1 = f_ServerID ` set out \<union> {foreign_id q |q. q = r \<and> p_Type q = OfferMsg \<and> addr_valid (foreign_id q)}"
    using Cons.prems(2,3) by (auto simp: foreign_step_def Let_def split: if_splits)
  moreover from this Cons.IH [of seen1 out1] Cons.prems(1) st have
    "set seen' = f_ServerID ` set out' \<and> distinct (map f_ServerID out') \<and>
     f_ServerID ` set out' = f_ServerID ` set out1 \<union> {foreign_id r |r. r \<in> set rs \<and> p_Type r = OfferMsg \<and> addr_valid (foreign_id r)}"
    by simp
  ultimately show ?case by auto
qed

text \<open>
  The rogue check reports every server that offered an address, once: the server identifiers
  of its result are distinct, and they are exactly the valid identifiers of the OFFERs
  among the replies (the sender's address where option 54 is missing or unspecified).
\<close>

theorem collectForeign_each_server_once:
  "distinct (map f_ServerID (collectForeign rs)) \<and>
   f_ServerID ` set (collectForeign rs) =
     {foreign_id r |r. r \<in> set rs \<and> p_Type r = OfferMsg \<and> addr_valid (foreign_id r)}"
  using foreign_run [of rs "[]" "[]"] by (cases "fold foreign_step rs ([], [])") (auto simp: collectForeign_def)

lemma uint_block:
  fixes w :: "32 word"
  shows "uint (w AND NOT (mask n)) = uint w - uint w mod 2 ^ n"
proof -
  have "(w AND NOT (mask n)) + (w AND mask n) = (w AND NOT (mask n)) OR (w AND mask n)"
    by (rule disjunctive_add) (simp add: bit_simps)
  also have "\<dots> = w" by (rule bit_word_eqI) (auto simp: bit_simps)
  finally have eq: "w AND NOT (mask n) = w - (w AND mask n)" by (simp add: eq_diff_eq)
  have le: "w AND mask n \<le> w" by (rule word_and_le2)
  have "uint (w AND mask n) = uint w mod 2 ^ n"
    by (simp only: take_bit_eq_mask [symmetric] unsigned_take_bit_eq) (rule take_bit_eq_mod)
  then show ?thesis using uint_minus_simple_alt [of "w AND mask n" w] le by (simp add: eq)
qed

lemma uint_drop: "uint (drop_bit n (w :: 32 word)) = drop_bit n (uint w)"
proof -
  have "take_bit LENGTH(32) (uint w) = uint w" by (rule take_bit_int_eq_self) (simp, rule uint_bounded)
  then show ?thesis by (simp only: unsigned_drop_bit_eq)
qed

lemma block_add:
  fixes w x :: "32 word"
  assumes "n \<le> 32" and "uint x < 2 ^ n"
  shows "uint ((w AND NOT (mask n)) + x) = uint (w AND NOT (mask n)) + uint x"
    and "drop_bit n ((w AND NOT (mask n)) + x) = drop_bit n w"
proof -
  let ?q = "uint w div 2 ^ n"
  have b: "uint (w AND NOT (mask n)) = ?q * 2 ^ n" by (simp add: uint_block minus_mod_eq_div_mult)
  have pow: "(2 :: int) ^ 32 = 2 ^ (32 - n) * 2 ^ n" using assms(1) by (simp flip: power_add)
  have hi: "uint w < 2 ^ (32 - n) * 2 ^ n" unfolding pow [symmetric] using uint_bounded [of w] by simp
  have "?q * 2 ^ n \<le> uint w"
    by (metis div_mult_mod_eq le_add_same_cancel1 mod_int_pos_iff zero_le_power zero_le_numeral pos_mod_sign zero_less_power zero_less_numeral)
  then have "?q * 2 ^ n < 2 ^ (32 - n) * 2 ^ n" using hi by (rule le_less_trans)
  then have "?q < 2 ^ (32 - n)" by (rule mult_right_less_imp_less) simp
  then have "(?q + 1) * 2 ^ n \<le> 2 ^ (32 - n) * 2 ^ n" by (intro mult_right_mono) auto
  then have small: "?q * 2 ^ n + uint x < 2 ^ 32" using assms(2) pow by (simp add: algebra_simps)
  then show u: "uint ((w AND NOT (mask n)) + x) = uint (w AND NOT (mask n)) + uint x"
    by (simp add: uint_word_ariths b mod_pos_pos_trivial pos_imp_zdiv_nonneg_iff)
  have "uint (drop_bit n ((w AND NOT (mask n)) + x)) = (?q * 2 ^ n + uint x) div 2 ^ n"
    by (simp only: uint_drop drop_bit_eq_div [where 'a = int] u b)
  also have "\<dots> = ?q" using assms(2) by (simp add: div_mult_self3)
  also have "\<dots> = uint (drop_bit n w)" by (simp only: uint_drop drop_bit_eq_div [where 'a = int])
  finally show "drop_bit n ((w AND NOT (mask n)) + x) = drop_bit n w" by (simp add: word_uint_eq_iff)
qed

text \<open>
  The suggested pool is usable. For an IPv4 subnet of 1 to 29 bits the range is not empty and
  lies in the subnet; its first address is not the network address and its last is not the
  broadcast address. A longer prefix, or one that is not IPv4, is refused.
\<close>

theorem SuggestRange_usable:
  assumes "subnet = Prefix (Addr4 w) b" and "0 < b" and "b \<le> 32"
  shows "(29 < b \<longrightarrow> SuggestRange subnet = Inl (TooSmall subnet)) \<and>
    (b \<le> 29 \<longrightarrow> (\<exists>u v. SuggestRange subnet = Inr (Addr4 u, Addr4 v) \<and> u \<le> v \<and>
       Contains subnet (Addr4 u) \<and> Contains subnet (Addr4 v) \<and>
       Addr4 u \<noteq> paddr (Masked subnet) \<and> Addr4 v \<noteq> broadcastOf subnet))"
proof (intro conjI impI)
  show "29 < b \<Longrightarrow> SuggestRange subnet = Inl (TooSmall subnet)" by (simp add: SuggestRange_def assms(1))
  assume b: "b \<le> 29"
  define n where "n = 32 - b"
  have n: "3 \<le> n" "n < 32" "n \<le> 32" using assms(2) b by (auto simp: n_def)
  let ?net = "w AND NOT (mask n)"
  let ?size = "push_bit n (1 :: 32 word)"
  have size: "uint ?size = 2 ^ n" 
  proof -
    have "(2 :: int) ^ n < 2 ^ 32" by (rule power_strict_increasing) (use n in auto)
    then have "take_bit 32 ((2 :: int) ^ n) = 2 ^ n" by (intro take_bit_int_eq_self) simp_all
    then show ?thesis unfolding unsigned_push_bit_eq by (simp add: push_bit_eq_mult)
  qed
  have half: "uint (?size div 2) = 2 ^ (n - 1)"
    using n(1) by (simp only: uint_div size) (simp add: power_diff)
  have "(8 :: int) = 2 ^ 3" by simp
  also have "\<dots> \<le> 2 ^ n" using n(1) by (intro power_increasing) auto
  finally have big: "(8 :: int) \<le> 2 ^ n" .
  have two: "(2 :: int) ^ n = 2 * 2 ^ (n - 1)" using n(1) by (simp add: power_eq_if)
  have top: "uint (?size - 2) = 2 ^ n - 2"
    using uint_minus_simple_alt [of 2 ?size] size big by (simp add: word_le_def)
  have last: "uint (mask n :: 32 word) = 2 ^ n - 1"
    using uint_minus_simple_alt [of 1 ?size] size big by (simp add: word_le_def mask_eq_exp_minus_1 push_bit_eq_mult)
  have lt: "uint (?size div 2) < 2 ^ n" "uint (?size - 2) < 2 ^ n" "uint (mask n :: 32 word) < 2 ^ n"
    using half top last two big by auto
  note add = block_add [OF n(3) lt(1), of w] block_add [OF n(3) lt(2), of w] block_add [OF n(3) lt(3), of w]
  have bc: "?net OR mask n = ?net + mask n"
    by (rule disjunctive_add [symmetric]) (simp add: bit_simps)
  have "SuggestRange subnet = Inr (Addr4 (?net + ?size div 2), Addr4 (?net + (?size - 2)))"
    using b by (simp add: SuggestRange_def assms(1) n_def Let_def)
  moreover have "?net + ?size div 2 \<le> ?net + (?size - 2)"
    using add half top two big by (simp add: word_le_def)
  moreover have "?net + ?size div 2 \<noteq> ?net" using half by auto
  moreover have "?net + (?size - 2) \<noteq> ?net OR mask n" unfolding bc using add(3,5) top last by auto
  moreover have "Contains subnet (Addr4 (?net + ?size div 2))" "Contains subnet (Addr4 (?net + (?size - 2)))"
    using add assms(3) by (simp_all add: assms(1) n_def)
  ultimately show "\<exists>u v. SuggestRange subnet = Inr (Addr4 u, Addr4 v) \<and> u \<le> v \<and>
       Contains subnet (Addr4 u) \<and> Contains subnet (Addr4 v) \<and>
       Addr4 u \<noteq> paddr (Masked subnet) \<and> Addr4 v \<noteq> broadcastOf subnet"
    by (intro exI [of _ "?net + ?size div 2"] exI [of _ "?net + (?size - 2)"])
       (simp add: assms(1) broadcastOf_def n_def)
qed

theorem SuggestRange_usable_witness:
  "SuggestRange (Prefix (Addr4 0xC0A80117) 24) = Inr (Addr4 0xC0A80180, Addr4 0xC0A801FE) \<and>
   Contains (Prefix (Addr4 0xC0A80117) 24) (Addr4 0xC0A801FE)"
proof -
  have "SuggestRange (Prefix (Addr4 0xC0A80117) 24) = Inr (Addr4 0xC0A80180, Addr4 0xC0A801FE)" by code_simp
  with SuggestRange_usable [OF refl, of 24 "0xC0A80117"] show ?thesis by simp
qed

end
