(* ===== verification/DhcpRunner.thy ===== *)
theory DhcpRunner
  imports Discovery DhcpIface Replica
begin

text \<open>
  The life of the built-in DHCP server, \<^verbatim>\<open>internal/app/dhcp.go\<close>: when it starts, what stops it, which settings it runs, and how the
  reservations follow the services while registry writes, settings saves and a promotion race one another.

  The interface, the probe for another server and the bind are the host's and come as an argument. A listener carries an identity, which is what
  the code compares when it compares allocator pointers. Log lines are left out.
\<close>

section \<open>State\<close>

record iface_info =
  if_Addr :: addr
  if_Subnet :: netprefix

record host_env =
  he_qualifies :: "string \<Rightarrow> string option"
  he_inspect :: "string \<Rightarrow> (string, iface_info) result"
  he_detect :: "(string, foreign list) result"
  he_prune_ok :: bool
  he_rows_ok :: bool
  he_bind :: "string option"
  he_now :: int

datatype dr_error =
    DrHost string
  | DrSetting string string
  | DrRange addr addr netprefix
  | DrProbe string
  | DrForeign "foreign list"
  | DrServices store_error
  | DrRestore
  | DrBind string
  | ErrReplicaNoDHCP

record listener =
  li_id :: nat
  li_opt :: doptions
  li_srv :: dserver

record drunner =
  dr_poller :: "app_source poller"
  dr_store :: lease_table
  dr_running :: "listener option"
  dr_current :: settings
  dr_lastError :: "dr_error option"
  dr_foreign :: "foreign list"
  dr_watch :: "nat option"
  dr_alloc :: "(nat \<times> netprefix) option"
  dr_gen :: nat
  dr_problems :: "reservation_problem list"
  dr_next :: nat

section \<open>Decisions\<close>

definition dhcpWanted :: "settings \<Rightarrow> role \<Rightarrow> bool" where
  "dhcpWanted v r = (DHCPEnabled v \<and> DHCPInterface v \<noteq> [] \<and> r \<noteq> RoleReplica)"

definition roleRefusal :: "settings \<Rightarrow> role \<Rightarrow> dr_error option" where
  "roleRefusal v r = (if DHCPEnabled v \<and> DHCPInterface v \<noteq> [] \<and> r = RoleReplica then Some ErrReplicaNoDHCP else None)"

definition dhcpConfigEqual :: "settings \<Rightarrow> settings \<Rightarrow> bool" where
  "dhcpConfigEqual a b = (DHCPEnabled a = DHCPEnabled b \<and> DHCPInterface a = DHCPInterface b \<and> DHCPRangeStart a = DHCPRangeStart b \<and>
     DHCPRangeEnd a = DHCPRangeEnd b \<and> DHCPGateway a = DHCPGateway b \<and> DHCPLeaseSeconds a = DHCPLeaseSeconds b \<and>
     DHCPSecondaryDNS a = DHCPSecondaryDNS b \<and> PrivateDomain a = PrivateDomain b)"

definition foreignVerdict :: "(string, foreign list) result \<Rightarrow> bool \<Rightarrow> dr_error option" where
  "foreignVerdict prb allow =
     (if allow then None
      else case prb of Inl e \<Rightarrow> Some (DrProbe e) | Inr found \<Rightarrow> if found = [] then None else Some (DrForeign found))"

definition parseSetting :: "string \<Rightarrow> string \<Rightarrow> (dr_error, addr) result" where
  "parseSetting key val = (case ParseAddr (TrimSpace val) of None \<Rightarrow> Inl (DrSetting key val) | Some a \<Rightarrow> Inr a)"

text \<open>\<^verbatim>\<open>time.Duration(n) * time.Second\<close>, in 64 signed bits.\<close>

definition seconds :: "int \<Rightarrow> int" where
  "seconds n = (n * 1000000000 + 2 ^ 63) mod 2 ^ 64 - 2 ^ 63"

definition secondary_dns :: "settings \<Rightarrow> (dr_error, addr list) result" where
  "secondary_dns v =
     (if TrimSpace (DHCPSecondaryDNS v) = [] then Inr []
      else case parseSetting ''dhcp.secondary_dns'' (DHCPSecondaryDNS v) of Inl e \<Rightarrow> Inl e | Inr a \<Rightarrow> Inr [a])"

definition build_listener :: "host_env \<Rightarrow> settings \<Rightarrow> bool \<Rightarrow> (dr_error, doptions) result" where
  "build_listener he v prb =
     (case he_qualifies he (DHCPInterface v) of
        Some e \<Rightarrow> Inl (DrHost e)
      | None \<Rightarrow>
     (case he_inspect he (DHCPInterface v) of
        Inl e \<Rightarrow> Inl (DrHost e)
      | Inr info \<Rightarrow>
     (case parseSetting ''dhcp.range_start'' (DHCPRangeStart v) of
        Inl e \<Rightarrow> Inl e
      | Inr start \<Rightarrow>
     (case parseSetting ''dhcp.range_end'' (DHCPRangeEnd v) of
        Inl e \<Rightarrow> Inl e
      | Inr end' \<Rightarrow>
     (case parseSetting ''dhcp.gateway'' (DHCPGateway v) of
        Inl e \<Rightarrow> Inl e
      | Inr gateway \<Rightarrow>
          if \<not> Contains (if_Subnet info) start \<or> \<not> Contains (if_Subnet info) end' then Inl (DrRange start end' (if_Subnet info))
          else
     (case (if prb then foreignVerdict (he_detect he) (DHCPAllowForeign v) else None) of
        Some e \<Rightarrow> Inl e
      | None \<Rightarrow>
     (case secondary_dns v of
        Inl e \<Rightarrow> Inl e
      | Inr second \<Rightarrow>
          Inr \<lparr>o_Addr = if_Addr info,
               o_Cfg = \<lparr>Subnet = if_Subnet info, Start = start, End = end', Host = if_Addr info, Gateway = gateway,
                        LeaseTime = seconds (DHCPLeaseSeconds v)\<rparr>,
               o_DNS = if_Addr info # second, o_Domain = PrivateDomain v\<rparr>)))))))"

definition needsProbe :: "settings \<Rightarrow> drunner \<Rightarrow> bool" where
  "needsProbe v d = (dr_running d = None \<or> DHCPInterface (dr_current d) \<noteq> DHCPInterface v)"

section \<open>Starting and stopping\<close>

definition stopLocked :: "drunner \<Rightarrow> drunner" where
  "stopLocked d =
     (let d = d\<lparr>dr_watch := None, dr_foreign := [], dr_alloc := None, dr_problems := []\<rparr>
      in case dr_running d of
           None \<Rightarrow> d
         | Some l \<Rightarrow> d\<lparr>dr_store := sv_Store (li_srv l), dr_running := None, dr_poller := SetSource None (dr_poller d)\<rparr>)"

definition dr_fail :: "settings \<Rightarrow> dr_error \<Rightarrow> drunner \<Rightarrow> drunner" where
  "dr_fail v e d = d\<lparr>dr_lastError := Some e, dr_current := (if dr_running d = None then v else dr_current d)\<rparr>"

text \<open>\<^verbatim>\<open>Server.Start\<close>: restore the leases, then bind.\<close>

definition start_listener :: "host_env \<Rightarrow> dserver \<Rightarrow> dr_error option \<times> dserver" where
  "start_listener he s =
     (case restore (he_prune_ok he) (he_rows_ok he) (he_now he) s of
        (False, s1) \<Rightarrow> (Some DrRestore, s1)
      | (True, s1) \<Rightarrow> (map_option DrBind (he_bind he), s1))"

definition reconcile :: "host_env \<Rightarrow> settings \<Rightarrow> role \<Rightarrow> (store_error, service list) result \<Rightarrow> drunner \<Rightarrow> drunner" where
  "reconcile he v r svcs d =
     (if \<not> dhcpWanted v r then (stopLocked d)\<lparr>dr_current := v, dr_lastError := roleRefusal v r\<rparr>
      else if dr_running d \<noteq> None \<and> dhcpConfigEqual (dr_current d) v
      then d\<lparr>dr_current := (dr_current d)\<lparr>DHCPAllowForeign := DHCPAllowForeign v\<rparr>, dr_lastError := None\<rparr>
      else case svcs of
          Inl e \<Rightarrow> dr_fail v (DrServices e) d
        | Inr svcs \<Rightarrow>
            (case build_listener he v (needsProbe v d) of
               Inl e \<Rightarrow> dr_fail v e d
             | Inr opt \<Rightarrow>
                 (let alloc = SetReservations (fst (Reservations svcs (Subnet (o_Cfg opt)))) (NewAllocator (o_Cfg opt));
                      d = stopLocked d
                  in case start_listener he \<lparr>sv_Alloc = alloc, sv_Store = dr_store d, sv_ignored = []\<rparr> of
                       (Some e, srv) \<Rightarrow> dr_fail v e (d\<lparr>dr_store := sv_Store srv\<rparr>)
                     | (None, srv) \<Rightarrow>
                         d\<lparr>dr_running := Some \<lparr>li_id = dr_next d, li_opt = opt, li_srv = srv\<rparr>, dr_current := v, dr_lastError := None,
                           dr_alloc := Some (dr_next d, Subnet (o_Cfg opt)), dr_poller := SetSource (Some BuiltIn) (dr_poller d),
                           dr_watch := Some (dr_next d), dr_next := Suc (dr_next d)\<rparr>)))"

section \<open>Reservations\<close>

text \<open>
  \<^verbatim>\<open>RefreshReservations\<close> in its two critical sections, with the read of the services between them: the first draws a number and notes the listener, the
  second publishes unless the listener or the number has moved on.
\<close>

record ticket =
  tk_gen :: nat
  tk_alloc :: nat
  tk_subnet :: netprefix

definition refresh_begin :: "drunner \<Rightarrow> ticket option \<times> drunner" where
  "refresh_begin d =
     (let gen = Suc (dr_gen d)
      in (map_option (\<lambda>(alloc, subnet). \<lparr>tk_gen = gen, tk_alloc = alloc, tk_subnet = subnet\<rparr>) (dr_alloc d), d\<lparr>dr_gen := gen\<rparr>))"

definition arm :: "(string, addr) gomap \<Rightarrow> listener \<Rightarrow> listener" where
  "arm res l = l\<lparr>li_srv := (li_srv l)\<lparr>sv_Alloc := SetReservations res (sv_Alloc (li_srv l))\<rparr>\<rparr>"

definition refresh_publish :: "ticket \<Rightarrow> service list \<Rightarrow> drunner \<Rightarrow> drunner" where
  "refresh_publish t svcs d =
     (let (res, problems) = Reservations svcs (tk_subnet t)
      in if map_option fst (dr_alloc d) \<noteq> Some (tk_alloc t) \<or> dr_gen d \<noteq> tk_gen t then d
         else d\<lparr>dr_running := map_option (arm res) (dr_running d), dr_problems := problems\<rparr>)"

definition RefreshReservations :: "(store_error, service list) result \<Rightarrow> drunner \<Rightarrow> drunner" where
  "RefreshReservations svcs d =
     (case refresh_begin d of
        (None, d) \<Rightarrow> d
      | (Some t, d) \<Rightarrow> (case svcs of Inl e \<Rightarrow> d | Inr svcs \<Rightarrow> refresh_publish t svcs d))"

definition Reconcile ::
  "host_env \<Rightarrow> settings \<Rightarrow> role \<Rightarrow> (store_error, service list) result \<Rightarrow> (store_error, service list) result \<Rightarrow> drunner \<Rightarrow> drunner" where
  "Reconcile he v r svcs again d =
     RefreshReservations again (reconcile he v r (if dhcpWanted v r then svcs else Inr []) d)"

section \<open>What the interface reports\<close>

definition dr_Status :: "drunner \<Rightarrow> bool \<times> dr_error option" where
  "dr_Status d = (dr_running d \<noteq> None, dr_lastError d)"

text \<open>One periodic probe, by the watch of the listener \<open>i\<close>; a cancelled watch writes nothing.\<close>

definition checkForeign :: "nat \<Rightarrow> (string, foreign list) result \<Rightarrow> drunner \<Rightarrow> drunner" where
  "checkForeign i prb d =
     (case prb of Inl e \<Rightarrow> d | Inr found \<Rightarrow> if dr_watch d = Some i then d\<lparr>dr_foreign := found\<rparr> else d)"

definition dr_packet :: "denv \<Rightarrow> dmsg option \<Rightarrow> drunner \<Rightarrow> drunner" where
  "dr_packet e m d = d\<lparr>dr_running := map_option (\<lambda>l. l\<lparr>li_srv := fst (handle (li_opt l) e m (li_srv l))\<rparr>) (dr_running d)\<rparr>"

definition new_runner :: "app_source poller \<Rightarrow> lease_table \<Rightarrow> drunner" where
  "new_runner p t = \<lparr>dr_poller = p, dr_store = t, dr_running = None, dr_current = blank_settings, dr_lastError = None, dr_foreign = [],
     dr_watch = None, dr_alloc = None, dr_gen = 0, dr_problems = [], dr_next = 0\<rparr>"

section \<open>The comparison covers the build\<close>

lemma build_compared: "dhcpConfigEqual a b \<Longrightarrow> build_listener he a False = build_listener he b False"
  unfolding dhcpConfigEqual_def by (elim conjE) (simp add: build_listener_def secondary_dns_def cong: option.case_cong sum.case_cong if_cong)

lemma build_unprobed: "build_listener he v prb = Inr opt \<Longrightarrow> build_listener he v False = Inr opt"
  by (auto simp: build_listener_def split: option.splits sum.splits if_splits)

lemma Contains_is4_prefix: "Contains p a \<Longrightarrow> is4 a \<Longrightarrow> is4 (paddr p)"
  by (cases "(p, a)" rule: Contains.cases) auto

lemma build_subnet: "build_listener he v prb = Inr opt \<Longrightarrow> \<exists>info. he_inspect he (DHCPInterface v) = Inr info \<and> Subnet (o_Cfg opt) = if_Subnet info"
  by (auto simp: build_listener_def split: option.splits sum.splits if_splits)

section \<open>The listener and the settings\<close>

definition runs :: "settings \<Rightarrow> listener \<Rightarrow> bool" where
  "runs v l = (\<exists>he. build_listener he v False = Inr (li_opt l))"

definition dr_inv :: "drunner \<Rightarrow> bool" where
  "dr_inv d = (case dr_running d of
      None \<Rightarrow> dr_alloc d = None \<and> dr_watch d = None \<and> dr_foreign d = [] \<and> dr_problems d = [] \<and> po_src (dr_poller d) \<noteq> Some BuiltIn
    | Some l \<Rightarrow> dr_alloc d = Some (li_id l, Subnet (o_Cfg (li_opt l))) \<and> dr_watch d = Some (li_id l) \<and> po_src (dr_poller d) = Some BuiltIn \<and>
        li_id l < dr_next d \<and> runs (dr_current d) l)"

lemma stopLocked_None [simp]: "dr_running (stopLocked d) = None" "dr_alloc (stopLocked d) = None" "dr_watch (stopLocked d) = None"
    "dr_foreign (stopLocked d) = []" "dr_problems (stopLocked d) = []" "dr_next (stopLocked d) = dr_next d" "dr_gen (stopLocked d) = dr_gen d"
  by (auto simp: stopLocked_def Let_def split: option.split)

lemma stopLocked_source: "dr_inv d \<Longrightarrow> po_src (dr_poller (stopLocked d)) \<noteq> Some BuiltIn"
  by (auto simp: stopLocked_def dr_inv_def Let_def SetSource_def split: option.splits)

lemma runs_compared: "dhcpConfigEqual a b \<Longrightarrow> runs a l \<longleftrightarrow> runs b l"
  using build_compared by (simp add: runs_def)

lemma compared_refl: "dhcpConfigEqual (v\<lparr>DHCPAllowForeign := x\<rparr>) v"
  by (simp add: dhcpConfigEqual_def)

text \<open>How a reconciliation of wanted settings ends.\<close>

lemma reconcile_cases:
  assumes "dhcpWanted v r"
  obtains (same) "dr_running d \<noteq> None" "dhcpConfigEqual (dr_current d) v"
      "reconcile he v r svcs d = d\<lparr>dr_current := (dr_current d)\<lparr>DHCPAllowForeign := DHCPAllowForeign v\<rparr>, dr_lastError := None\<rparr>"
  | (refused) e where "reconcile he v r svcs d = dr_fail v e d"
      "(\<exists>x. svcs = Inl x) \<or> build_listener he v (needsProbe v d) = Inl e"
  | (unbound) e t where "reconcile he v r svcs d = dr_fail v e ((stopLocked d)\<lparr>dr_store := t\<rparr>)" "e \<in> {DrRestore} \<union> range DrBind"
  | (started) opt srv where "build_listener he v (needsProbe v d) = Inr opt"
      "reconcile he v r svcs d = (stopLocked d)\<lparr>dr_running := Some \<lparr>li_id = dr_next d, li_opt = opt, li_srv = srv\<rparr>, dr_current := v,
         dr_lastError := None, dr_alloc := Some (dr_next d, Subnet (o_Cfg opt)), dr_poller := SetSource (Some BuiltIn) (dr_poller (stopLocked d)),
         dr_watch := Some (dr_next d), dr_next := Suc (dr_next d)\<rparr>"
proof (cases "dr_running d \<noteq> None \<and> dhcpConfigEqual (dr_current d) v")
  case True
  then show ?thesis using same assms by (simp add: reconcile_def)
next
  case False
  note f = this
  show ?thesis
  proof (cases svcs)
    case (Inl x)
    then show ?thesis using refused assms f by (auto simp: reconcile_def)
  next
    case (Inr ss)
    show ?thesis
    proof (cases "build_listener he v (needsProbe v d)")
      case (Inl e)
      then show ?thesis using refused assms f Inr by (auto simp: reconcile_def)
    next
      case (Inr opt)
      let ?a = "SetReservations (fst (Reservations ss (Subnet (o_Cfg opt)))) (NewAllocator (o_Cfg opt))"
      obtain e srv where st: "start_listener he \<lparr>sv_Alloc = ?a, sv_Store = dr_store (stopLocked d), sv_ignored = []\<rparr> = (e, srv)" by (meson surj_pair)
      have err: "e = Some x \<Longrightarrow> x \<in> {DrRestore} \<union> range DrBind" for x
        using st by (auto simp: start_listener_def split: prod.splits bool.splits)
      show ?thesis
      proof (cases e)
        case None
        then show ?thesis using started [of opt srv] assms f Inr \<open>svcs = Inr ss\<close> st by (auto simp: reconcile_def Let_def)
      next
        case (Some x)
        then show ?thesis using unbound [of x "sv_Store srv"] err assms f Inr \<open>svcs = Inr ss\<close> st by (auto simp: reconcile_def Let_def)
      qed
    qed
  qed
qed

lemma reconcile_inv: "dr_inv d \<Longrightarrow> dr_inv (reconcile he v r svcs d)"
proof (cases "dhcpWanted v r")
  case False
  assume "dr_inv d"
  then show ?thesis using False stopLocked_source by (simp add: reconcile_def dr_inv_def [of "_\<lparr>dr_current := v, dr_lastError := _\<rparr>"])
next
  case True
  assume inv: "dr_inv d"
  from True show ?thesis
  proof (cases rule: reconcile_cases [where d = d and he = he and svcs = svcs])
    case same
    then show ?thesis using inv runs_compared [OF compared_refl [where v = "dr_current d" and x = "DHCPAllowForeign v"]] by (auto simp: dr_inv_def)
  next
    case (refused e)
    then show ?thesis using inv by (auto simp: dr_inv_def dr_fail_def split: option.splits)
  next
    case (unbound e t)
    then show ?thesis using stopLocked_source [OF inv] by (simp add: dr_fail_def) (simp add: dr_inv_def)
  next
    case (started opt srv)
    then have "runs v \<lparr>li_id = dr_next d, li_opt = opt, li_srv = srv\<rparr>" using build_unprobed [OF started(1)] by (auto simp: runs_def)
    then show ?thesis using started(2) by (simp add: dr_inv_def SetSource_def)
  qed
qed

lemma arm_sel [simp]: "li_id (arm res l) = li_id l" "li_opt (arm res l) = li_opt l"
  by (simp_all add: arm_def)

lemma dr_inv_running:
  "dr_inv d \<Longrightarrow> (\<And>l. li_id (f l) = li_id l \<and> li_opt (f l) = li_opt l) \<Longrightarrow> dr_inv (d\<lparr>dr_running := map_option f (dr_running d)\<rparr>)"
  by (auto simp: dr_inv_def runs_def split: option.splits)

lemma refresh_publish_inv: "dr_inv d \<Longrightarrow> dr_inv (refresh_publish t svcs d)"
  by (auto simp: refresh_publish_def dr_inv_def runs_def split: prod.splits option.splits)

lemma refresh_begin_inv: "dr_inv d \<Longrightarrow> dr_inv (snd (refresh_begin d))"
  by (auto simp: refresh_begin_def dr_inv_def Let_def split: option.splits)

lemma RefreshReservations_inv: "dr_inv d \<Longrightarrow> dr_inv (RefreshReservations svcs d)"
  using refresh_begin_inv [of d] by (auto simp: RefreshReservations_def refresh_publish_inv split: prod.split option.split sum.split)

datatype dr_event =
    EReconcile host_env settings role "(store_error, service list) result" "(store_error, service list) result"
  | ERefresh "(store_error, service list) result"
  | EPacket denv "dmsg option"
  | ECheck nat "(string, foreign list) result"

fun dr_exec :: "dr_event \<Rightarrow> drunner \<Rightarrow> drunner" where
  "dr_exec (EReconcile he v r svcs again) d = Reconcile he v r svcs again d"
| "dr_exec (ERefresh svcs) d = RefreshReservations svcs d"
| "dr_exec (EPacket e m) d = dr_packet e m d"
| "dr_exec (ECheck i found) d = checkForeign i found d"

lemma dr_exec_inv: "dr_inv d \<Longrightarrow> dr_inv (dr_exec ev d)"
proof (cases ev)
  case (ECheck i found)
  assume "dr_inv d"
  then show ?thesis unfolding ECheck by (auto simp: checkForeign_def dr_inv_def split: sum.splits option.splits)
qed (auto simp: Reconcile_def RefreshReservations_inv reconcile_inv dr_packet_def intro!: dr_inv_running)

lemma new_runner_inv: "po_src p \<noteq> Some BuiltIn \<Longrightarrow> dr_inv (new_runner p t)"
  by (simp add: dr_inv_def new_runner_def)

lemma dr_run_inv: "po_src p \<noteq> Some BuiltIn \<Longrightarrow> dr_inv (fold dr_exec evs (new_runner p t))"
  by (rule fold_invariant) (simp_all add: dr_exec_inv new_runner_inv)

text \<open>A refresh moves reservations and their report, nothing else.\<close>

definition serving :: "drunner \<Rightarrow> (nat \<times> doptions \<times> (string, lease) gomap \<times> lease_table) option" where
  "serving d = map_option (\<lambda>l. (li_id l, li_opt l, byMAC (sv_Alloc (li_srv l)), sv_Store (li_srv l))) (dr_running d)"

lemma Refresh_frame:
  "serving (RefreshReservations svcs d) = serving d" "dr_lastError (RefreshReservations svcs d) = dr_lastError d"
  "dr_current (RefreshReservations svcs d) = dr_current d" "dr_poller (RefreshReservations svcs d) = dr_poller d"
  by (auto simp: RefreshReservations_def refresh_begin_def refresh_publish_def serving_def arm_def SetReservations_maps option.map_comp o_def
      split: prod.splits option.splits sum.splits)

lemma serving_None: "serving d = None \<longleftrightarrow> dr_running d = None"
  by (simp add: serving_def)

lemma reconcile_ok:
  assumes "dhcpWanted v r" and "dr_lastError (reconcile he v r svcs d) = None"
  shows "dr_running (reconcile he v r svcs d) \<noteq> None \<and> dhcpConfigEqual (dr_current (reconcile he v r svcs d)) v"
  using assms(1)
proof (cases rule: reconcile_cases [where d = d and he = he and svcs = svcs])
  case same
  then show ?thesis by (simp add: dhcpConfigEqual_def)
next
  case (started opt srv)
  then show ?thesis by (simp add: dhcpConfigEqual_def)
qed (use assms(2) in \<open>simp_all add: dr_fail_def\<close>)

lemma reconcile_refused:
  assumes "dhcpWanted v r" and "dr_lastError (reconcile he v r svcs d) \<noteq> None"
    and "(\<exists>x. svcs = Inl x) \<or> (\<exists>x. build_listener he v (needsProbe v d) = Inl x)"
  shows "serving (reconcile he v r svcs d) = serving d"
  using assms by (auto simp: reconcile_def dr_fail_def serving_def split: sum.splits if_splits)

text \<open>
  C18: the DHCP listener follows the settings. From any state the runner can reach: settings that do not ask for it, or a replica's role, leave no
  listener and no lease source of its own; a reconciliation without an error leaves a listener built from exactly these settings, and the poller reads it; and
  one that refuses, because the services cannot be read or the host does not qualify, leaves the listener that was serving with its leases as they were.
\<close>

theorem dhcp_listener_follows_settings:
  assumes "po_src p \<noteq> Some BuiltIn" and d: "d = fold dr_exec evs (new_runner p t)" and d': "d' = Reconcile he v r svcs again d"
  shows "(\<not> dhcpWanted v r \<longrightarrow> dr_running d' = None \<and> po_src (dr_poller d') \<noteq> Some BuiltIn) \<and>
    (dhcpWanted v r \<and> dr_lastError d' = None \<longrightarrow> (\<exists>l. dr_running d' = Some l \<and> runs v l) \<and> po_src (dr_poller d') = Some BuiltIn) \<and>
    (dhcpWanted v r \<and> dr_lastError d' \<noteq> None \<and> ((\<exists>x. svcs = Inl x) \<or> (\<exists>x. build_listener he v (needsProbe v d) = Inl x)) \<longrightarrow> serving d' = serving d)"
proof -
  let ?d = "reconcile he v r (if dhcpWanted v r then svcs else Inr []) d"
  have inv: "dr_inv d" "dr_inv d'" using dr_run_inv [OF assms(1)] dr_exec_inv [of _ "EReconcile he v r svcs again"] d d' by simp_all
  have frame: "serving d' = serving ?d" "dr_lastError d' = dr_lastError ?d" "dr_poller d' = dr_poller ?d" "dr_current d' = dr_current ?d"
    using Refresh_frame d' by (simp_all add: Reconcile_def)
  show ?thesis
  proof (cases "dhcpWanted v r")
    case False
    then have "dr_running ?d = None" by (simp add: reconcile_def)
    then have "dr_running d' = None" using frame(1) serving_None by metis
    then show ?thesis using False inv(2) by (simp add: dr_inv_def)
  next
    case True
    have run: "dr_running d' = None \<longleftrightarrow> dr_running ?d = None" using frame(1) by (simp flip: serving_None)
    have "dr_running d' \<noteq> None \<and> dhcpConfigEqual (dr_current d') v" if "dr_lastError d' = None"
      unfolding run frame(4) using reconcile_ok [OF True, of he svcs d] that True frame(2) by simp
    then have "(\<exists>l. dr_running d' = Some l \<and> runs v l) \<and> po_src (dr_poller d') = Some BuiltIn" if "dr_lastError d' = None"
      using that inv(2) runs_compared by (auto simp: dr_inv_def split: option.splits)
    moreover have "serving d' = serving d" if "dr_lastError d' \<noteq> None" "(\<exists>x. svcs = Inl x) \<or> (\<exists>x. build_listener he v (needsProbe v d) = Inl x)"
      using reconcile_refused [OF True _ that(2)] that(1) True frame by simp
    ultimately show ?thesis using True by blast
  qed
qed

definition home_host :: host_env where
  "home_host = \<lparr>he_qualifies = (\<lambda>_. None), he_inspect = (\<lambda>_. Inr \<lparr>if_Addr = Addr4 0x0A000002, if_Subnet = Prefix (Addr4 0x0A000000) 24\<rparr>),
     he_detect = Inr [], he_prune_ok = True, he_rows_ok = True, he_bind = None, he_now = 1800000000000000000\<rparr>"

definition home_dhcp :: settings where
  "home_dhcp = blank_settings\<lparr>DHCPEnabled := True, DHCPInterface := ''eth0'', DHCPRangeStart := ''10.0.0.100'', DHCPRangeEnd := ''10.0.0.200'',
     DHCPGateway := ''10.0.0.1'', DHCPLeaseSeconds := 3600, PrivateDomain := ''home''\<rparr>"

theorem dhcp_listener_follows_settings_witness:
  "\<exists>l. dr_running (Reconcile home_host home_dhcp RoleStandalone (Inr []) (Inr []) (new_runner (NewPoller None 30) [])) = Some l \<and> runs home_dhcp l"
proof -
  have "po_src (NewPoller (None :: app_source option) 30) \<noteq> Some BuiltIn" by code_simp
  moreover have "dhcpWanted home_dhcp RoleStandalone" by code_simp
  moreover have "dr_lastError (Reconcile home_host home_dhcp RoleStandalone (Inr []) (Inr []) (new_runner (NewPoller None 30) [])) = None" by code_simp
  ultimately show ?thesis
    using dhcp_listener_follows_settings [where p = "NewPoller None 30" and evs = "[]" and t = "[]" and he = home_host and v = home_dhcp
        and r = RoleStandalone and svcs = "Inr []" and again = "Inr []", OF _ refl refl]
    by simp
qed

section \<open>Reservations catch up\<close>

text \<open>
  The runner among its callers: the stored services, the refreshes between their two critical sections, each with what it has read, how many
  refreshes are still owed, by a registry write that has committed or a reconciliation that has returned from its critical section, and the
  numbers of the refreshes that gave up because the services could not be read.
\<close>

record rsys_state =
  rs_run :: drunner
  rs_services :: "service list"
  rs_pending :: "(ticket \<times> service list option) list"
  rs_owed :: nat
  rs_failed :: "nat set"

definition begin_refresh :: "rsys_state \<Rightarrow> rsys_state" where
  "begin_refresh y =
     (case refresh_begin (rs_run y) of
        (None, d) \<Rightarrow> y\<lparr>rs_run := d, rs_owed := rs_owed y - 1\<rparr>
      | (Some t, d) \<Rightarrow> y\<lparr>rs_run := d, rs_pending := (t, None) # rs_pending y, rs_owed := rs_owed y - 1\<rparr>)"

inductive refresh_step :: "rsys_state \<Rightarrow> rsys_state \<Rightarrow> bool" where
  written: "refresh_step y (y\<lparr>rs_services := svcs, rs_owed := Suc (rs_owed y)\<rparr>)"
| reconciled: "refresh_step y (y\<lparr>rs_run := reconcile he v r svcs (rs_run y), rs_owed := Suc (rs_owed y)\<rparr>)"
| begun: "refresh_step y (begin_refresh y)"
| looked: "rs_pending y = pre @ (t, None) # post \<Longrightarrow>
    refresh_step y (y\<lparr>rs_pending := pre @ (t, Some (rs_services y)) # post\<rparr>)"
| failed: "rs_pending y = pre @ (t, None) # post \<Longrightarrow>
    refresh_step y (y\<lparr>rs_pending := pre @ post, rs_failed := insert (tk_gen t) (rs_failed y)\<rparr>)"
| finished: "rs_pending y = pre @ (t, Some svcs) # post \<Longrightarrow>
    refresh_step y (y\<lparr>rs_run := refresh_publish t svcs (rs_run y), rs_pending := pre @ post\<rparr>)"
| packet: "refresh_step y (y\<lparr>rs_run := dr_packet e m (rs_run y)\<rparr>)"

definition reservations_of :: "allocator \<Rightarrow> (string, addr) gomap \<times> (addr, string) gomap" where
  "reservations_of a = (allocator.reserved a, reservedIP a)"

definition armed_for :: "service list \<Rightarrow> listener \<Rightarrow> bool" where
  "armed_for svcs l = (reservations_of (sv_Alloc (li_srv l)) =
     reservations_of (SetReservations (fst (Reservations svcs (Subnet (o_Cfg (li_opt l))))) (NewAllocator (o_Cfg (li_opt l)))))"

definition settled :: "service list \<Rightarrow> drunner \<Rightarrow> bool" where
  "settled svcs d = (case dr_running d of None \<Rightarrow> True
     | Some l \<Rightarrow> armed_for svcs l \<and> dr_problems d = snd (Reservations svcs (Subnet (o_Cfg (li_opt l)))))"

definition up_to_date :: "rsys_state \<Rightarrow> ticket \<times> service list option \<Rightarrow> bool" where
  "up_to_date y r = (dr_alloc (rs_run y) = Some (tk_alloc (fst r), tk_subnet (fst r)) \<and> snd r \<in> {None, Some (rs_services y)})"

definition catching_up :: "rsys_state \<Rightarrow> bool" where
  "catching_up y = (dr_inv (rs_run y) \<and> (\<forall>r\<in>set (rs_pending y). tk_gen (fst r) \<le> dr_gen (rs_run y)) \<and> distinct (map (tk_gen \<circ> fst) (rs_pending y)) \<and>
     (\<forall>g\<in>rs_failed y. g \<le> dr_gen (rs_run y)) \<and>
     (rs_owed y = 0 \<longrightarrow>
        (\<forall>r\<in>set (rs_pending y). tk_gen (fst r) = dr_gen (rs_run y) \<longrightarrow> up_to_date y r) \<and>
        (settled (rs_services y) (rs_run y) \<or> (\<exists>r\<in>set (rs_pending y). tk_gen (fst r) = dr_gen (rs_run y)) \<or> dr_gen (rs_run y) \<in> rs_failed y)))"

lemma SetReservations_any: "reservations_of (SetReservations rs a) = reservations_of (SetReservations rs b)"
proof -
  have "reservations_of (fold (\<lambda>(mac, ip) a. a\<lparr>allocator.reserved := m_put mac ip (allocator.reserved a), reservedIP := m_put ip mac (reservedIP a)\<rparr>) rs a) =
      reservations_of (fold (\<lambda>(mac, ip) a. a\<lparr>allocator.reserved := m_put mac ip (allocator.reserved a), reservedIP := m_put ip mac (reservedIP a)\<rparr>) rs b)"
    if "reservations_of a = reservations_of b" for a b
    using that
  proof (induction rs arbitrary: a b)
    case (Cons x rs)
    obtain mac ip where x: "x = (mac, ip)" by fastforce
    show ?case unfolding x fold_Cons o_apply prod.case by (rule Cons.IH) (use Cons.prems in \<open>simp add: reservations_of_def\<close>)
  qed simp
  then show ?thesis by (simp add: SetReservations_def reservations_of_def)
qed

lemma arm_armed: "subnet = Subnet (o_Cfg (li_opt l)) \<Longrightarrow> armed_for svcs (arm (fst (Reservations svcs subnet)) l)"
  using SetReservations_any by (simp add: armed_for_def arm_def)

lemma allocate_reservations: "reservations_of (snd (allocate a now mac hn requested ttl tentative)) = reservations_of a"
  using allocate_outcome [of a now mac hn requested ttl tentative]
  by (cases rule: alloc_outcome.cases; simp add: commit_frame reservations_of_def)+

lemma handle_reservations: "reservations_of (sv_Alloc (fst (handle opt e m s))) = reservations_of (sv_Alloc s)"
proof (rule handle_alloc [where P = "\<lambda>a. reservations_of a = reservations_of (sv_Alloc s)"])
  have rel: "reservations_of (snd (Release a mac ip)) = reservations_of a" for a mac ip
    by (auto simp: Release_def reservations_of_def split: option.split)
  then show "reservations_of (snd (Release (sv_Alloc s) mac ip)) = reservations_of (sv_Alloc s)" for mac ip .
  have "reservations_of (Quarantine a now ip) = reservations_of a" for a now ip by (simp add: Quarantine_def reservations_of_def)
  then show "reservations_of (snd (srv_offer e mac m (sv_Alloc s))) = reservations_of (sv_Alloc s)" for mac m
    by (auto simp: srv_offer_def Offer_def Let_def case_prod_beta allocate_reservations rel split: option.split)
  show "reservations_of (snd (srv_request opt e mac m (sv_Alloc s))) = reservations_of (sv_Alloc s)" for mac m
    using allocate_reservations by (simp add: srv_request_def Allocate_def split: prod.split) (metis snd_conv)
  show "reservations_of (snd (Decline (sv_Alloc s) (e_now e) mac ip)) = reservations_of (sv_Alloc s)" for mac ip
    by (auto simp: Decline_def reservations_of_def Let_def)
qed simp

lemma reconcile_gen: "dr_gen (reconcile he v r svcs d) = dr_gen d"
  by (auto simp: reconcile_def dr_fail_def Let_def split: sum.splits prod.splits option.splits)

lemma publish_frame: "dr_gen (refresh_publish t svcs d) = dr_gen d" "dr_alloc (refresh_publish t svcs d) = dr_alloc d"
  by (auto simp: refresh_publish_def split: prod.splits)

lemma catching_up_owed:
  "dr_inv d \<Longrightarrow> dr_gen d = dr_gen (rs_run y) \<Longrightarrow> catching_up y \<Longrightarrow> catching_up (y\<lparr>rs_run := d, rs_services := svcs, rs_owed := Suc n\<rparr>)"
  by (simp add: catching_up_def)

lemma begin_refresh_keeps: "catching_up y \<Longrightarrow> catching_up (begin_refresh y)"
proof -
  assume c: "catching_up y"
  then have inv: "dr_inv (rs_run y)" and old: "\<And>r. r \<in> set (rs_pending y) \<Longrightarrow> tk_gen (fst r) \<le> dr_gen (rs_run y)" by (auto simp: catching_up_def)
  have inv': "dr_inv ((rs_run y)\<lparr>dr_gen := Suc (dr_gen (rs_run y))\<rparr>)" using refresh_begin_inv [OF inv] by (simp add: refresh_begin_def)
  have new: "tk_gen (fst r) \<noteq> Suc (dr_gen (rs_run y))" "tk_gen (fst r) \<le> Suc (dr_gen (rs_run y))" if "r \<in> set (rs_pending y)" for r
    using old [OF that] by auto
  show ?thesis
  proof (cases "dr_alloc (rs_run y)")
    case None
    then have "dr_running (rs_run y) = None" using inv by (auto simp: dr_inv_def split: option.splits)
    then show ?thesis using c None inv' new by (auto simp: begin_refresh_def refresh_begin_def catching_up_def settled_def)
  next
    case (Some al)
    then show ?thesis using c inv' new
      by (cases al) (auto simp: begin_refresh_def refresh_begin_def catching_up_def up_to_date_def image_iff)
  qed
qed

lemma publish_settles:
  assumes "dr_inv d" and "dr_alloc d = Some (tk_alloc t, tk_subnet t)" and "dr_gen d = tk_gen t"
  shows "settled svcs (refresh_publish t svcs d)"
  using assms arm_armed by (auto simp: refresh_publish_def settled_def dr_inv_def split: option.splits prod.split) (metis fst_conv)

lemma publish_overtaken: "dr_gen d \<noteq> tk_gen t \<Longrightarrow> refresh_publish t svcs d = d"
  by (auto simp: refresh_publish_def split: prod.split)

lemma finished_keeps:
  assumes c: "catching_up y" and p: "rs_pending y = pre @ (t, Some svcs) # post"
  shows "catching_up (y\<lparr>rs_run := refresh_publish t svcs (rs_run y), rs_pending := pre @ post\<rparr>)"
proof (cases "tk_gen t = dr_gen (rs_run y)")
  case False
  then have "refresh_publish t svcs (rs_run y) = rs_run y" by (intro publish_overtaken) simp
  then show ?thesis using c p False by (auto simp: catching_up_def up_to_date_def)
next
  case True
  have inv: "dr_inv (refresh_publish t svcs (rs_run y))" using c refresh_publish_inv by (simp add: catching_up_def)
  have other: "tk_gen (fst r) \<noteq> dr_gen (rs_run y)" if "r \<in> set (pre @ post)" for r
    using c p that True by (auto simp: catching_up_def image_iff)
  have "settled (rs_services y) (refresh_publish t svcs (rs_run y))" if "rs_owed y = 0"
    using that c p True publish_settles [of "rs_run y" t svcs] by (auto simp: catching_up_def up_to_date_def)
  then show ?thesis using c p inv other by (auto simp: catching_up_def publish_frame)
qed

lemma packet_keeps: "catching_up y \<Longrightarrow> catching_up (y\<lparr>rs_run := dr_packet e m (rs_run y)\<rparr>)"
proof -
  assume c: "catching_up y"
  have "dr_inv (dr_packet e m (rs_run y))" using c by (auto simp: dr_packet_def catching_up_def intro!: dr_inv_running)
  moreover have "settled svcs (dr_packet e m (rs_run y)) = settled svcs (rs_run y)" for svcs
    by (auto simp: settled_def dr_packet_def armed_for_def handle_reservations split: option.split)
  ultimately show ?thesis using c by (simp add: catching_up_def up_to_date_def dr_packet_def)
qed

lemma refresh_step_keeps: "refresh_step y y' \<Longrightarrow> catching_up y \<Longrightarrow> catching_up y'"
proof (induction rule: refresh_step.induct)
  case (written y svcs)
  then show ?case using catching_up_owed [where d = "rs_run y" and y = y and svcs = svcs and n = "rs_owed y"] by (simp add: catching_up_def)
next
  case (reconciled y he v r svcs)
  then show ?case using catching_up_owed [where d = "reconcile he v r svcs (rs_run y)" and y = y and svcs = "rs_services y" and n = "rs_owed y"] reconcile_inv
    by (simp add: catching_up_def reconcile_gen)
next
  case (looked y pre t post)
  then show ?case by (auto simp: catching_up_def up_to_date_def)
next
  case (failed y pre t post)
  then show ?case by (auto simp: catching_up_def up_to_date_def)
qed (use begin_refresh_keeps finished_keeps packet_keeps in blast)+

definition rsys_init :: "app_source poller \<Rightarrow> lease_table \<Rightarrow> service list \<Rightarrow> rsys_state" where
  "rsys_init p t svcs = \<lparr>rs_run = new_runner p t, rs_services = svcs, rs_pending = [], rs_owed = 0, rs_failed = {}\<rparr>"

lemma rsys_init_catching_up: "po_src p \<noteq> Some BuiltIn \<Longrightarrow> catching_up (rsys_init p t svcs)"
  using new_runner_inv by (simp add: catching_up_def rsys_init_def settled_def new_runner_def)

lemma refresh_steps_keep: "refresh_step\<^sup>*\<^sup>* y y' \<Longrightarrow> catching_up y \<Longrightarrow> catching_up y'"
  by (induction rule: rtranclp_induct) (auto intro: refresh_step_keeps)

text \<open>
  C17: the reservations follow the services through every race. Registry writes, reconciliations, refreshes and packets interleave in any order, and a
  refresh reads the services at any moment between its two critical sections, or fails to read them and gives up. Whenever no refresh is under way or
  owed, and the one that began last could read the services, a running listener holds exactly the reservations that its own subnet and the stored
  services give, however many refreshes were overtaken or failed before it, and the reported problems are those of the same read.
\<close>

theorem reservations_catch_up:
  assumes "po_src p \<noteq> Some BuiltIn" and "refresh_step\<^sup>*\<^sup>* (rsys_init p t svcs) y" and "rs_owed y = 0" and "rs_pending y = []"
    and "dr_gen (rs_run y) \<notin> rs_failed y"
  shows "settled (rs_services y) (rs_run y)"
  using refresh_steps_keep [OF assms(2) rsys_init_catching_up [OF assms(1)]] assms(3-5) by (simp add: catching_up_def)

theorem reservations_catch_up_witness:
  "\<exists>y. refresh_step\<^sup>*\<^sup>* (rsys_init (NewPoller None 30) [] lan_services) y \<and> dr_running (rs_run y) \<noteq> None \<and> settled lan_services (rs_run y)"
proof -
  let ?p = "NewPoller None 30 :: app_source poller"
  let ?y0 = "rsys_init ?p [] lan_services"
  let ?d1 = "reconcile home_host home_dhcp RoleStandalone (Inr []) (rs_run ?y0)"
  let ?y1 = "?y0\<lparr>rs_run := ?d1, rs_owed := Suc (rs_owed ?y0)\<rparr>"
  let ?t = "\<lparr>tk_gen = 1, tk_alloc = 0, tk_subnet = Prefix (Addr4 0x0A000000) 24\<rparr>"
  let ?y3 = "(begin_refresh ?y1)\<lparr>rs_pending := [] @ (?t, Some (rs_services (begin_refresh ?y1))) # []\<rparr>"
  let ?y4 = "?y3\<lparr>rs_run := refresh_publish ?t lan_services (rs_run ?y3), rs_pending := [] @ []\<rparr>"
  have alloc: "dr_alloc ?d1 = Some (0, Prefix (Addr4 0x0A000000) 24)" "dr_gen ?d1 = 0" "dr_running ?d1 \<noteq> None" by code_simp+
  have b: "rs_pending (begin_refresh ?y1) = [] @ (?t, None) # []" "rs_services (begin_refresh ?y1) = lan_services" "rs_owed (begin_refresh ?y1) = 0" "rs_failed (begin_refresh ?y1) = {}"
    "dr_running (rs_run (begin_refresh ?y1)) = dr_running ?d1"
    using alloc by (simp_all add: begin_refresh_def refresh_begin_def rsys_init_def)
  have "refresh_step ?y0 ?y1" "refresh_step ?y1 (begin_refresh ?y1)" by (rule refresh_step.reconciled refresh_step.begun)+
  moreover have "refresh_step (begin_refresh ?y1) ?y3" by (rule refresh_step.looked) (rule b(1))
  moreover have "refresh_step ?y3 ?y4" by (rule refresh_step.finished) (simp add: b(2))
  ultimately have path: "refresh_step\<^sup>*\<^sup>* ?y0 ?y4"
    by (intro rtranclp.rtrancl_into_rtrancl [OF rtranclp.rtrancl_into_rtrancl [OF rtranclp.rtrancl_into_rtrancl [OF r_into_rtranclp]]])
  have "po_src ?p \<noteq> Some BuiltIn" by code_simp
  from reservations_catch_up [OF this path] b have "settled lan_services (rs_run ?y4)" by simp
  moreover have "dr_running (rs_run ?y4) \<noteq> None" using alloc(3) b(5) by (simp add: refresh_publish_def split: prod.split)
  ultimately show ?thesis using path by blast
qed

text \<open>
  An overtaken refresh is discarded whether or not the one that overtook it can still publish; when the later one fails to read the services, neither
  publishes, and the listener keeps the reservations from before both.
\<close>

lemma overtaken_by_a_failed_read:
  assumes "refresh_begin d = (Some t, d1)"
  shows "refresh_publish t svcs (RefreshReservations (Inl e) d1) = RefreshReservations (Inl e) d1 \<and>
    dr_running (RefreshReservations (Inl e) d1) = dr_running d"
  using assms by (auto simp: RefreshReservations_def refresh_begin_def publish_overtaken split: option.split)

end
