(* ===== verification/Registry.thy ===== *)
theory Registry
  imports StoreCopy StoreLocal DhcpReserve Zone_Holder
begin

text \<open>
  The registry, \<^verbatim>\<open>internal/registry/\<close>: the validation every write goes through (\<^verbatim>\<open>validate.go\<close>) and the service that
  validates, writes and then tells the rest of the server (\<^verbatim>\<open>registry.go\<close>). Of a validation error the field and
  the code are kept. The callback \<^verbatim>\<open>onChange\<close> is an argument: it reads the tables, may change a state of its own
  and may fail. The hash of a token and the source of randomness are arguments too. Reads of the store succeed.
\<close>

section \<open>Validation\<close>

definition reg_Normalize :: "string \<Rightarrow> string" where
  "reg_Normalize name =
     (let n = ToLower (TrimSpace name)
      in if n = [] then [] else if HasSuffix n ''.'' then n else n @ ''.'')"

definition label_char :: "char \<Rightarrow> bool" where
  "label_char c = (is_lower c \<or> is_digit c \<or> c = CHR ''-'')"

definition ValidateLabel :: "string \<Rightarrow> app_error option" where
  "ValidateLabel s =
     (if s = [] \<or> 63 < length s then Some (Invalid ''name'' ''label_length'')
      else if hd s = CHR ''-'' \<or> last s = CHR ''-'' then Some (Invalid ''name'' ''label_hyphen'')
      else if \<not> list_all label_char s then Some (Invalid ''name'' ''label_charset'')
      else None)"

fun first_error :: "('a \<Rightarrow> app_error option) \<Rightarrow> 'a list \<Rightarrow> app_error option" where
  "first_error f [] = None"
| "first_error f (x # xs) = (case f x of Some e \<Rightarrow> Some e | None \<Rightarrow> first_error f xs)"

definition ValidateName :: "string \<Rightarrow> string \<Rightarrow> app_error option" where
  "ValidateName name privateFQDN =
     (let n = reg_Normalize name; zone = reg_Normalize privateFQDN
      in if n = [] then Some (Invalid ''name'' ''name_empty'')
         else if 255 < length n then Some (Invalid ''name'' ''name_length'')
         else if CHR ''*'' \<in> set n then Some (Invalid ''name'' ''wildcard_unsupported'')
         else if n = zone then Some (Invalid ''name'' ''name_is_apex'')
         else if \<not> HasSuffix n (''.'' @ zone) then Some (Invalid ''name'' ''name_out_of_zone'')
         else first_error ValidateLabel (Split (TrimSuffix n ''.'') CHR ''.''))"

definition ValidateAddress :: "string \<Rightarrow> app_error option" where
  "ValidateAddress s = (case ParseAddr s of None \<Rightarrow> Some (Invalid ''address'' ''address_invalid'') | Some _ \<Rightarrow> None)"

definition NormalizeMAC :: "string \<Rightarrow> string" where
  "NormalizeMAC s0 = (let s = TrimSpace s0 in case ParseMAC s of Some hw \<Rightarrow> show_mac hw | None \<Rightarrow> ToLower s)"

definition ValidateMAC :: "string \<Rightarrow> app_error option" where
  "ValidateMAC s0 =
     (let s = TrimSpace s0
      in if s = [] then None
         else case ParseMAC s of
             None \<Rightarrow> Some (Invalid ''mac'' ''malformed'')
           | Some hw \<Rightarrow> if length hw \<noteq> 6 then Some (Invalid ''mac'' ''malformed'') else None)"

definition recordTypes :: "string list" where
  "recordTypes = [''A'', ''AAAA'', ''CNAME'', ''PTR'']"

definition ValidateRecordType :: "string \<Rightarrow> app_error option" where
  "ValidateRecordType s = (if s \<notin> set recordTypes then Some (Invalid ''type'' ''type_unsupported'') else None)"

section \<open>Validating a document\<close>

fun address_errors :: "string list \<Rightarrow> nat \<Rightarrow> address list \<Rightarrow> app_error option" where
  "address_errors known i [] = None"
| "address_errors known i (a # as) =
     (case ValidateAddress (addr_Address a) of
        Some e \<Rightarrow> Some e
      | None \<Rightarrow>
          if addr_View a \<noteq> [] \<and> addr_View a \<notin> set known
          then Some (Invalid (''addresses['' @ show_dec (int i) @ ''].view'') ''view_unknown'')
          else address_errors known (Suc i) as)"

definition validateService :: "service \<Rightarrow> string list \<Rightarrow> string \<Rightarrow> (app_error, service) result" where
  "validateService svc0 known zone =
     (let svc = svc0\<lparr>svc_Name := ToLower (TrimSpace (svc_Name svc0))\<rparr>
      in case ValidateName (svc_Name svc @ ''.'' @ zone) zone of
           Some e \<Rightarrow> Inl e
         | None \<Rightarrow>
             if svc_Addresses svc = [] then Inl (Invalid ''addresses'' ''addresses_required'')
             else case address_errors known 0 (svc_Addresses svc) of
               Some e \<Rightarrow> Inl e
             | None \<Rightarrow>
                 (let svc = svc\<lparr>svc_ProxyAddress := TrimSpace (svc_ProxyAddress svc)\<rparr>
                  in if svc_ProxyAddress svc \<noteq> [] \<and> ValidateAddress (svc_ProxyAddress svc) \<noteq> None
                     then Inl (Invalid ''proxy_address'' ''proxy_address_invalid'')
                     else if svc_RouteViaProxy svc \<and> svc_ProxyAddress svc = []
                     then Inl (Invalid ''proxy_address'' ''proxy_address_required'')
                     else let svc = svc\<lparr>svc_Aliases := map (\<lambda>al. ToLower (TrimSpace al)) (svc_Aliases svc)\<rparr>
                          in case first_error (\<lambda>al. ValidateName (al @ ''.'' @ zone) zone) (svc_Aliases svc) of
                               Some e \<Rightarrow> Inl e
                             | None \<Rightarrow>
                                 (case ValidateMAC (svc_MAC svc) of
                                    Some e \<Rightarrow> Inl e
                                  | None \<Rightarrow> Inr (svc\<lparr>svc_MAC := NormalizeMAC (svc_MAC svc)\<rparr>))))"

definition macUnique :: "service \<Rightarrow> service list \<Rightarrow> app_error option" where
  "macUnique svc others =
     (if svc_MAC svc = [] then None
      else if list_ex (\<lambda>o'. svc_MAC o' = svc_MAC svc \<and> (svc_ID svc = 0 \<or> svc_ID o' \<noteq> svc_ID svc)) others
      then Some (Invalid ''mac'' ''duplicate'') else None)"

definition validateRecord :: "record_row \<Rightarrow> string list \<Rightarrow> string \<Rightarrow> (app_error, record_row) result" where
  "validateRecord rec0 known zone =
     (let r = rec0\<lparr>rec_Name := reg_Normalize (rec_Name rec0), rec_Type := ToUpper (TrimSpace (rec_Type rec0))\<rparr>;
          checked =
            (case ValidateRecordType (rec_Type r) of
               Some e \<Rightarrow> Inl e
             | None \<Rightarrow>
                 if rec_Type r = ''A'' \<or> rec_Type r = ''AAAA'' then
                   (case ValidateName (rec_Name r) zone of
                      Some e \<Rightarrow> Inl e
                    | None \<Rightarrow> (case ValidateAddress (rec_Value r) of Some e \<Rightarrow> Inl e | None \<Rightarrow> Inr r))
                 else if rec_Type r = ''CNAME'' then
                   (case ValidateName (rec_Name r) zone of
                      Some e \<Rightarrow> Inl e
                    | None \<Rightarrow> Inr (r\<lparr>rec_Value := reg_Normalize (rec_Value r)\<rparr>))
                 else if \<not> HasSuffix (rec_Name r) ''.in-addr.arpa.'' \<and> \<not> HasSuffix (rec_Name r) ''.ip6.arpa.''
                 then Inl (Invalid ''name'' ''ptr_not_arpa'')
                 else Inr (r\<lparr>rec_Value := reg_Normalize (rec_Value r)\<rparr>))
      in case checked of
           Inl e \<Rightarrow> Inl e
         | Inr r' \<Rightarrow> if rec_View r' \<noteq> [] \<and> rec_View r' \<notin> set known then Inl (Invalid ''view'' ''view_unknown'') else Inr r')"

fun mask_subnets :: "nat \<Rightarrow> string list \<Rightarrow> (app_error, string list) result" where
  "mask_subnets i [] = Inr []"
| "mask_subnets i (c # cs) =
     (case ParsePrefix c of
        None \<Rightarrow> Inl (Invalid (''subnets['' @ show_dec (int i) @ '']'') ''cidr_invalid'')
      | Some p \<Rightarrow>
          (case mask_subnets (Suc i) cs of
             Inl e \<Rightarrow> Inl e
           | Inr ms \<Rightarrow> Inr (show_prefix (Masked p) # ms)))"

definition validateView :: "view \<Rightarrow> (app_error, view) result" where
  "validateView v0 =
     (let v = v0\<lparr>view_Name := ToLower (TrimSpace (view_Name v0))\<rparr>
      in if ValidateLabel (view_Name v) \<noteq> None then Inl (Invalid ''name'' ''view_name_invalid'')
         else if view_Subnets v = [] then Inl (Invalid ''subnets'' ''subnets_required'')
         else case mask_subnets 0 (view_Subnets v) of Inl e \<Rightarrow> Inl e | Inr ms \<Rightarrow> Inr (v\<lparr>view_Subnets := ms\<rparr>))"

section \<open>The service\<close>

record 'h registry =
  rg_tables :: rtables
  rg_local :: ltables
  rg_zone :: string
  rg_live :: 'h

type_synonym 'h on_change = "rtables \<Rightarrow> 'h \<Rightarrow> app_error option \<times> 'h"

definition reg_SetZone :: "string \<Rightarrow> 'h registry \<Rightarrow> 'h registry" where
  "reg_SetZone zoneFQDN s = s\<lparr>rg_zone := reg_Normalize zoneFQDN\<rparr>"

definition registry_New :: "rtables \<Rightarrow> ltables \<Rightarrow> string \<Rightarrow> 'h \<Rightarrow> 'h registry" where
  "registry_New t lt zoneFQDN h = reg_SetZone zoneFQDN \<lparr>rg_tables = t, rg_local = lt, rg_zone = [], rg_live = h\<rparr>"

definition knownViews :: "'h registry \<Rightarrow> string list" where
  "knownViews s = map view_Name (Views (rg_tables s))"

definition changed :: "'h on_change \<Rightarrow> 'a \<Rightarrow> 'h registry \<Rightarrow> (app_error, 'a) result \<times> 'h registry" where
  "changed chg x s =
     (case chg (rg_tables s) (rg_live s) of
        (Some e, h) \<Rightarrow> (Inl e, s\<lparr>rg_live := h\<rparr>)
      | (None, h) \<Rightarrow> (Inr x, s\<lparr>rg_live := h\<rparr>))"

text \<open>A write of the store, then the callback; an error of the store stops before it.\<close>

definition then_changed ::
  "'h on_change \<Rightarrow> (store_error, 'a \<times> rtables) result \<Rightarrow> 'h registry \<Rightarrow> (app_error, 'a) result \<times> 'h registry" where
  "then_changed chg r s =
     (case r of Inl e \<Rightarrow> (Inl (StoreErr e), s) | Inr (x, t) \<Rightarrow> changed chg x (s\<lparr>rg_tables := t\<rparr>))"

definition no_id :: "(store_error, rtables) result \<Rightarrow> (store_error, unit \<times> rtables) result" where
  "no_id r = (case r of Inl e \<Rightarrow> Inl e | Inr t \<Rightarrow> Inr ((), t))"

definition mac_clash :: "service \<Rightarrow> 'h registry \<Rightarrow> app_error option" where
  "mac_clash svc s =
     (if svc_MAC svc = [] then None
      else case Services (rg_tables s) of Inl e \<Rightarrow> Some (StoreErr e) | Inr stored \<Rightarrow> macUnique svc stored)"

definition reg_PutService ::
  "string option \<Rightarrow> 'h on_change \<Rightarrow> service \<Rightarrow> 'h registry \<Rightarrow> (app_error, int) result \<times> 'h registry" where
  "reg_PutService io chg svc0 s =
     (case validateService svc0 (knownViews s) (rg_zone s) of
        Inl e \<Rightarrow> (Inl e, s)
      | Inr svc \<Rightarrow>
          (case mac_clash svc s of
             Some e \<Rightarrow> (Inl e, s)
           | None \<Rightarrow> then_changed chg (PutService io svc (rg_tables s)) s))"

definition reg_DeleteService :: "string option \<Rightarrow> 'h on_change \<Rightarrow> int \<Rightarrow> 'h registry \<Rightarrow> (app_error, unit) result \<times> 'h registry" where
  "reg_DeleteService io chg i s = then_changed chg (no_id (DeleteService io i (rg_tables s))) s"

definition reg_PutRecord ::
  "string option \<Rightarrow> 'h on_change \<Rightarrow> record_row \<Rightarrow> 'h registry \<Rightarrow> (app_error, int) result \<times> 'h registry" where
  "reg_PutRecord io chg rec0 s =
     (case validateRecord rec0 (knownViews s) (rg_zone s) of
        Inl e \<Rightarrow> (Inl e, s)
      | Inr r \<Rightarrow> then_changed chg (PutRecord io r (rg_tables s)) s)"

definition reg_DeleteRecord :: "string option \<Rightarrow> 'h on_change \<Rightarrow> int \<Rightarrow> 'h registry \<Rightarrow> (app_error, unit) result \<times> 'h registry" where
  "reg_DeleteRecord io chg i s = then_changed chg (no_id (DeleteRecord io i (rg_tables s))) s"

definition reg_PutView :: "string option \<Rightarrow> 'h on_change \<Rightarrow> view \<Rightarrow> 'h registry \<Rightarrow> (app_error, unit) result \<times> 'h registry" where
  "reg_PutView io chg v0 s =
     (case validateView v0 of
        Inl e \<Rightarrow> (Inl e, s)
      | Inr v \<Rightarrow> then_changed chg (no_id (PutView io v (rg_tables s))) s)"

definition reg_DeleteView :: "string option \<Rightarrow> 'h on_change \<Rightarrow> string \<Rightarrow> 'h registry \<Rightarrow> (app_error, unit) result \<times> 'h registry" where
  "reg_DeleteView io chg name s = then_changed chg (no_id (DeleteView io name (rg_tables s))) s"

fun validate_services :: "string list \<Rightarrow> string \<Rightarrow> service list \<Rightarrow> service list \<Rightarrow> (app_error, service list) result" where
  "validate_services known zone ss [] = Inr ss"
| "validate_services known zone ss (svc0 # svcs) =
     (case validateService svc0 known zone of
        Inl e \<Rightarrow> Inl e
      | Inr svc \<Rightarrow> (case macUnique svc ss of Some e \<Rightarrow> Inl e | None \<Rightarrow> validate_services known zone (ss @ [svc]) svcs))"

definition reg_ReplaceAll ::
  "string option \<Rightarrow> 'h on_change \<Rightarrow> view list \<Rightarrow> service list \<Rightarrow> record_row list \<Rightarrow> 'h registry \<Rightarrow> (app_error, unit) result \<times> 'h registry" where
  "reg_ReplaceAll io chg views services records s =
     (let zone = rg_zone s
      in case map_result validateView views of
           Inl e \<Rightarrow> (Inl e, s)
         | Inr vs \<Rightarrow>
             (case validate_services (map view_Name vs) zone [] services of
                Inl e \<Rightarrow> (Inl e, s)
              | Inr ss \<Rightarrow>
                  (case map_result (\<lambda>r. validateRecord r (map view_Name vs) zone) records of
                     Inl e \<Rightarrow> (Inl e, s)
                   | Inr rs \<Rightarrow> then_changed chg (no_id (ReplaceAll io vs ss rs (rg_tables s))) s)))"

section \<open>Tokens\<close>

definition tokenPrefix :: string where
  "tokenPrefix = ''kydns_''"

text \<open>\<open>sha\<close> is SHA-256 in hexadecimal, \<open>random\<close> the 64 hexadecimal digits drawn.\<close>

definition HashToken :: "(string \<Rightarrow> string) \<Rightarrow> string \<Rightarrow> string" where
  "HashToken sha plaintext = sha plaintext"

definition GenerateToken :: "(string \<Rightarrow> string) \<Rightarrow> string \<Rightarrow> string \<times> string" where
  "GenerateToken sha random = (let plaintext = tokenPrefix @ random in (plaintext, HashToken sha plaintext))"

definition CreateToken ::
  "string option \<Rightarrow> (string \<Rightarrow> string) \<Rightarrow> string \<Rightarrow> int \<Rightarrow> string \<Rightarrow> 'h registry \<Rightarrow> (app_error, string) result \<times> 'h registry" where
  "CreateToken io sha random now label s =
     (let (plaintext, hash) = GenerateToken sha random
      in case PutToken io now \<lparr>tok_ID = 0, tok_Label = label, tok_Hash = hash, tok_CreatedAt = 0, tok_LastUsedAt = 0\<rparr> (rg_local s) of
           Inl e \<Rightarrow> (Inl (StoreErr e), s)
         | Inr (_, t) \<Rightarrow> (Inr plaintext, s\<lparr>rg_local := t\<rparr>))"

fun touch_all :: "string option \<Rightarrow> int \<Rightarrow> string \<Rightarrow> token list \<Rightarrow> ltables \<Rightarrow> bool \<times> ltables" where
  "touch_all io now want [] t = (False, t)"
| "touch_all io now want (tk # tks) t =
     (if tok_Hash tk = want
      then (True, snd (touch_all io now want tks (case TouchToken io now (tok_ID tk) t of Inl _ \<Rightarrow> t | Inr t' \<Rightarrow> t')))
      else touch_all io now want tks t)"

definition AuthenticateToken ::
  "string option \<Rightarrow> (string \<Rightarrow> string) \<Rightarrow> int \<Rightarrow> string \<Rightarrow> 'h registry \<Rightarrow> bool \<times> 'h registry" where
  "AuthenticateToken io sha now plaintext s =
     (if \<not> HasPrefix plaintext tokenPrefix then (False, s)
      else let (ok, t) = touch_all io now (HashToken sha plaintext) (Tokens (rg_local s)) (rg_local s)
           in (ok, s\<lparr>rg_local := t\<rparr>))"

definition reg_DeleteToken :: "string option \<Rightarrow> int \<Rightarrow> 'h registry \<Rightarrow> (app_error, unit) result \<times> 'h registry" where
  "reg_DeleteToken io i s =
     (case DeleteToken io i (rg_local s) of Inl e \<Rightarrow> (Inl (StoreErr e), s) | Inr t \<Rightarrow> (Inr (), s\<lparr>rg_local := t\<rparr>))"

section \<open>How the server wires it\<close>

text \<open>
  The closures of \<^verbatim>\<open>internal/app/serve.go\<close>: where the zone holder reads from, and what a write of the registry sets off.
  The zone, the reverse zones and the discovered leases are those of the moment; \<open>refresh\<close> is
  \<^verbatim>\<open>dhcpRunner.RefreshReservations\<close> on the state of the DHCP side. Of a failed rebuild the text is not kept.
\<close>

definition serve_source :: "zlease list \<Rightarrow> string \<Rightarrow> netprefix list \<Rightarrow> rtables \<Rightarrow> (zone_error, zinput) result" where
  "serve_source leases zone revs t =
     (case Services t of
        Inl e \<Rightarrow> Inl SourceFailed
      | Inr svcs \<Rightarrow> Inr \<lparr>in_Views = Views t, in_Services = svcs, in_Records = Records t, in_Leases = leases,
          in_Zone = zone, in_ReverseZones = revs, in_Generation = 0\<rparr>)"

definition serve_onChange ::
  "(rtables \<Rightarrow> 'd \<Rightarrow> 'd) \<Rightarrow> zlease list \<Rightarrow> string \<Rightarrow> netprefix list \<Rightarrow> ('d \<times> zholder) on_change" where
  "serve_onChange refresh leases zone revs t dh =
     (let d = refresh t (fst dh); (e, h) = Rebuild (serve_source leases zone revs t) (snd dh)
      in (case e of None \<Rightarrow> None | Some _ \<Rightarrow> Some (OtherErr ''snapshot rebuild''), (d, h)))"

end
