(* ===== verification/RegistrySafety.thy ===== *)
theory RegistrySafety
  imports Registry
begin

text \<open>
  What the registry promises. Whatever is written through it, the tables hold only validated rows and no hardware
  address is reserved twice; a write that reports success is being served, one that is refused changed nothing; a token
  authenticates from its creation until its deletion, and only then.
\<close>

section \<open>Valid rows\<close>

definition name_ok :: "string \<Rightarrow> bool" where
  "name_ok n = list_all (\<lambda>l. ValidateLabel l = None) (Split n CHR ''.'')"

definition mac_ok :: "string \<Rightarrow> bool" where
  "mac_ok m = (m = [] \<or> (\<exists>hw s. ParseMAC s = Some hw \<and> length hw = 6 \<and> m = show_mac hw))"

definition cidr_ok :: "string \<Rightarrow> bool" where
  "cidr_ok c = (\<exists>p s. ParsePrefix s = Some p \<and> c = show_prefix (Masked p))"

definition value_ok :: "string \<Rightarrow> string \<Rightarrow> bool" where
  "value_ok ty v = (ty \<in> {''A'', ''AAAA''} \<longrightarrow> ParseAddr v \<noteq> None)"

definition macs :: "service list \<Rightarrow> string list" where
  "macs rs = filter (\<lambda>m. m \<noteq> []) (map svc_MAC rs)"

definition rows_ok :: "rtables \<Rightarrow> bool" where
  "rows_ok t =
     (list_all (\<lambda>r. name_ok (svc_Name r) \<and> mac_ok (svc_MAC r)) (rt_services t) \<and> distinct (macs (rt_services t)) \<and>
      list_all (\<lambda>a. ParseAddr (ar_Address a) \<noteq> None) (rt_addresses t) \<and> list_all (\<lambda>a. name_ok (al_Name a)) (rt_aliases t) \<and>
      list_all (\<lambda>r. rw_Type r \<in> set recordTypes \<and> value_ok (rw_Type r) (rw_Value r)) (rt_records t) \<and>
      list_all (\<lambda>s. cidr_ok (snd s)) (rt_subnets t) \<and> list_all (\<lambda>v. ValidateLabel v = None) (rt_views t))"

definition service_ok :: "service \<Rightarrow> bool" where
  "service_ok svc = (name_ok (svc_Name svc) \<and> mac_ok (svc_MAC svc) \<and> list_all (\<lambda>a. ParseAddr (addr_Address a) \<noteq> None) (svc_Addresses svc) \<and>
     list_all name_ok (svc_Aliases svc))"

definition record_ok :: "record_row \<Rightarrow> bool" where
  "record_ok r = (rec_Type r \<in> set recordTypes \<and> value_ok (rec_Type r) (rec_Value r))"

definition view_ok :: "view \<Rightarrow> bool" where
  "view_ok v = (ValidateLabel (view_Name v) = None \<and> list_all cidr_ok (view_Subnets v))"

section \<open>What validation establishes\<close>

lemma first_error_None: "first_error f xs = None \<longleftrightarrow> list_all (\<lambda>x. f x = None) xs"
  by (induction xs) (auto split: option.splits)

lemma TrimSpace_ends: "\<not> is_space (hd s) \<Longrightarrow> \<not> is_space (last s) \<Longrightarrow> TrimSpace s = s"
  by (simp add: TrimSpace_def dropWhile_hd hd_rev)

lemma TrimSpace_hd: "TrimSpace s \<noteq> [] \<Longrightarrow> \<not> is_space (hd (TrimSpace s))"
proof -
  let ?d = "dropWhile is_space s"
  assume ne: "TrimSpace s \<noteq> []"
  have "\<exists>u. ?d = TrimSpace s @ u"
    unfolding TrimSpace_def by (metis rev_append rev_rev_ident takeWhile_dropWhile_id)
  then obtain u where u: "?d = TrimSpace s @ u" by blast
  then have "hd (TrimSpace s) = hd ?d" and "?d \<noteq> []" using ne by auto
  then show ?thesis using hd_dropWhile by metis
qed

lemma is_space_lower [simp]: "is_space (lower_char c) = is_space c"
proof (cases "is_upper c")
  case True
  then have "char_code (lower_char c) = char_code c + 32" by (simp add: lower_char_def is_upper_def code_char_of)
  moreover have "char_code CHR '' '' = 32" by (simp add: char_code_def)
  ultimately show ?thesis using True by (auto simp: is_space_def is_upper_def)
qed (simp add: lower_char_def)

text \<open>The name that is checked is the stored name with the zone behind it.\<close>

lemma Normalize_in_zone:
  assumes "n = ToLower (TrimSpace raw)" and "zone = reg_Normalize z"
  shows "reg_Normalize (n @ CHR ''.'' # zone) = n @ CHR ''.'' # zone"
proof -
  have low: "ToLower n = n" "ToLower zone = zone" using assms by (simp_all add: reg_Normalize_def Let_def ToLower_def)
  have last: "last (CHR ''.'' # zone) = CHR ''.''"
    using assms(2) by (auto simp: reg_Normalize_def Let_def HasSuffix_char split: if_splits)
  have "\<not> is_space (hd (n @ CHR ''.'' # zone))"
  proof (cases "n = []")
    case False
    then have "TrimSpace raw \<noteq> []" using assms(1) by auto
    then have "\<not> is_space (hd (TrimSpace raw))" by (rule TrimSpace_hd)
    then show ?thesis using assms(1) False by (cases "TrimSpace raw") (simp_all add: ToLower_def)
  qed (simp add: is_space_def char_code_def)
  then have "TrimSpace (n @ CHR ''.'' # zone) = n @ CHR ''.'' # zone"
    using last by (intro TrimSpace_ends) (auto simp: is_space_def char_code_def)
  moreover have "HasSuffix (n @ CHR ''.'' # zone) ''.''" using last by (simp add: HasSuffix_char)
  moreover have "ToLower (CHR ''.'' # zone) = CHR ''.'' # ToLower zone" by (simp add: ToLower_def lower_char_def is_upper_def char_code_def)
  ultimately show ?thesis using low by (simp add: reg_Normalize_def Let_def)
qed

lemma split_by_append_dot: "P c \<Longrightarrow> split_by P (w @ c # s) = split_by P w @ split_by P s"
proof (induction w)
  case (Cons a w)
  then show ?case by (cases "split_by P w") auto
qed simp

lemma ValidateName_labels:
  assumes ok: "ValidateName (n @ ''.'' @ zone) zone = None" and n: "n = ToLower (TrimSpace raw)" and z: "zone = reg_Normalize z"
  shows "name_ok n"
proof -
  let ?f = "n @ CHR ''.'' # zone"
  have nf: "reg_Normalize ?f = ?f" using n z by (rule Normalize_in_zone)
  have labels: "list_all (\<lambda>l. ValidateLabel l = None) (Split (TrimSuffix ?f ''.'') CHR ''.'')"
    using ok nf by (simp add: ValidateName_def Let_def first_error_None split: if_splits)
  have "\<exists>rest. Split (TrimSuffix ?f ''.'') CHR ''.'' = Split n CHR ''.'' @ rest"
  proof (cases "zone = []")
    case False
    then have "HasSuffix zone ''.''" using z by (simp add: reg_Normalize_def Let_def split: if_splits)
    then obtain y where "zone = y @ ''.''" unfolding HasSuffix_iff by blast
    then have "TrimSuffix ?f ''.'' = n @ CHR ''.'' # y" using TrimSuffix_append_char [of "n @ CHR ''.'' # y"] by simp
    then show ?thesis by (simp add: Split_def split_by_append_dot)
  qed simp
  then show ?thesis using labels by (auto simp: name_ok_def)
qed

lemma address_errors_None: "address_errors known i as = None \<Longrightarrow> list_all (\<lambda>a. ParseAddr (addr_Address a) \<noteq> None) as"
  by (induction as arbitrary: i) (auto simp: ValidateAddress_def split: option.splits if_splits)

lemma ParseMAC_Nil: "ParseMAC [] = None"
  by (simp add: ParseMAC_def)

lemma NormalizeMAC_ok: "ValidateMAC s = None \<Longrightarrow> mac_ok (NormalizeMAC s)"
  by (auto simp: ValidateMAC_def NormalizeMAC_def mac_ok_def Let_def ToLower_def ParseMAC_Nil split: if_splits option.splits)

lemma validateService_ok:
  assumes "validateService svc0 known zone = Inr svc" and z: "zone = reg_Normalize z"
  shows "service_ok svc"
proof -
  let ?n = "ToLower (TrimSpace (svc_Name svc0))" and ?als = "map (\<lambda>al. ToLower (TrimSpace al)) (svc_Aliases svc0)"
  note v = assms(1)[unfolded validateService_def Let_def]
  have n: "ValidateName (?n @ ''.'' @ zone) zone = None" and as: "address_errors known 0 (svc_Addresses svc0) = None"
    and als: "first_error (\<lambda>al. ValidateName (al @ ''.'' @ zone) zone) ?als = None" and m: "ValidateMAC (svc_MAC svc0) = None"
    using v by (simp_all split: option.splits if_splits)
  have svc: "svc_Name svc = ?n" "svc_Addresses svc = svc_Addresses svc0" "svc_Aliases svc = ?als" "svc_MAC svc = NormalizeMAC (svc_MAC svc0)"
    using v by (auto split: option.splits if_splits)
  have "name_ok ?n" using n refl z by (rule ValidateName_labels)
  moreover have "list_all name_ok ?als"
    using als z unfolding first_error_None by (auto simp: list_all_iff simp del: append.simps intro: ValidateName_labels)
  ultimately show ?thesis
    using address_errors_None [OF as] NormalizeMAC_ok [OF m] by (simp add: service_ok_def svc)
qed

lemma validateRecord_ok: "validateRecord r0 known zone = Inr r \<Longrightarrow> record_ok r"
  by (auto simp: validateRecord_def record_ok_def value_ok_def ValidateRecordType_def ValidateAddress_def Let_def
      split: option.splits if_splits sum.splits)

lemma mask_subnets_ok: "mask_subnets i cs = Inr ms \<Longrightarrow> list_all cidr_ok ms"
proof (induction cs arbitrary: i ms)
  case (Cons c cs)
  then obtain p qs where p: "ParsePrefix c = Some p" "mask_subnets (Suc i) cs = Inr qs" "ms = show_prefix (Masked p) # qs"
    by (auto split: option.splits sum.splits)
  moreover have "cidr_ok (show_prefix (Masked p))" unfolding cidr_ok_def using p(1) by blast
  ultimately show ?case using Cons.IH by simp
qed simp

lemma validateView_ok: "validateView v0 = Inr v \<Longrightarrow> view_ok v"
  by (auto simp: validateView_def view_ok_def Let_def split: if_splits sum.splits dest: mask_subnets_ok)

section \<open>What the statements keep\<close>

lemma list_all_filter: "list_all P xs \<Longrightarrow> list_all P (filter Q xs)"
  by (induction xs) auto

text \<open>
  Rules on the fields of the rows, one per table: what every write satisfies, every statement keeps. A rule on a service looks at its columns only.
\<close>

locale row_rules =
  fixes okS :: "service \<Rightarrow> bool" and okA :: "string \<Rightarrow> bool" and okL :: "string \<Rightarrow> bool"
    and okR :: "string \<Rightarrow> string \<Rightarrow> string \<Rightarrow> bool" and okC :: "string \<Rightarrow> bool" and okV :: "string \<Rightarrow> bool"
  assumes okS_columns: "okS (r\<lparr>svc_ID := i, svc_Addresses := as, svc_Aliases := als\<rparr>) = okS r"
begin

definition holds :: "rtables \<Rightarrow> bool" where
  "holds t =
     (list_all okS (rt_services t) \<and> list_all (\<lambda>a. okA (ar_Address a)) (rt_addresses t) \<and> list_all (\<lambda>a. okL (al_Name a)) (rt_aliases t) \<and>
      list_all (\<lambda>r. okR (rw_Name r) (rw_Type r) (rw_Value r)) (rt_records t) \<and> list_all (\<lambda>s. okC (snd s)) (rt_subnets t) \<and> list_all okV (rt_views t))"

definition service_holds :: "service \<Rightarrow> bool" where
  "service_holds svc = (okS svc \<and> list_all (\<lambda>a. okA (addr_Address a)) (svc_Addresses svc) \<and> list_all okL (svc_Aliases svc))"

definition record_holds :: "record_row \<Rightarrow> bool" where
  "record_holds r = okR (rec_Name r) (rec_Type r) (rec_Value r)"

definition view_holds :: "view \<Rightarrow> bool" where
  "view_holds v = (okV (view_Name v) \<and> list_all okC (view_Subnets v))"

lemma okS_ID [simp]: "okS (svc\<lparr>svc_ID := i\<rparr>) = okS svc"
  using okS_columns [where r = svc and i = i and as = "svc_Addresses svc" and als = "svc_Aliases svc"] by simp

lemma okS_service_columns [simp]: "okS (service_columns svc) = okS svc"
  using okS_columns [where r = svc and i = "svc_ID svc" and as = "[]" and als = "[]"] by (simp add: service_columns_def)

lemma holds_bump [simp]: "holds (bump n t) = holds t"
  by (simp add: holds_def bump_def)

lemma holds_empty: "holds empty_registry"
  by (simp add: holds_def empty_registry_def)

lemma holds_delete:
  "holds t \<Longrightarrow> holds (delete_subnets P1 t)" "holds t \<Longrightarrow> holds (delete_addresses P2 t)"
  "holds t \<Longrightarrow> holds (delete_aliases P3 t)" "holds t \<Longrightarrow> holds (delete_records P4 t)"
  by (auto simp: delete_subnets_def delete_addresses_def delete_aliases_def delete_records_def holds_def bump_def intro: list_all_filter)

lemma holds_delete_views: "holds t \<Longrightarrow> holds (delete_views P t)"
  unfolding delete_views_def by (rule holds_delete(1)) (auto simp: holds_def bump_def intro: list_all_filter)

lemma holds_delete_services: "holds t \<Longrightarrow> holds (delete_services P t)"
  unfolding delete_services_def Let_def
  by (rule holds_delete(3), rule holds_delete(2)) (auto simp: holds_def bump_def intro: list_all_filter)

lemma holds_insert_subnets: "insert_subnets v cs t = Inr t' \<Longrightarrow> holds t \<Longrightarrow> list_all okC cs \<Longrightarrow> holds t'"
  by (induction v cs t rule: insert_subnets.induct) (auto simp: holds_def bump_def split: if_splits)

lemma holds_insert_addresses:
  "insert_addresses i as t = Inr t' \<Longrightarrow> holds t \<Longrightarrow> list_all (\<lambda>a. okA (addr_Address a)) as \<Longrightarrow> holds t'"
  by (induction i as t rule: insert_addresses.induct) (auto simp: Let_def holds_def bump_def split: if_splits)

lemma holds_insert_aliases: "insert_aliases i als t = Inr t' \<Longrightarrow> holds t \<Longrightarrow> list_all okL als \<Longrightarrow> holds t'"
  by (induction i als t rule: insert_aliases.induct) (auto simp: holds_def bump_def split: if_splits)

lemma holds_putView: "putView v t = Inr t' \<Longrightarrow> holds t \<Longrightarrow> view_holds v \<Longrightarrow> holds t'"
  unfolding putView_def
  by (erule holds_insert_subnets, rule holds_delete(1)) (auto simp: insert_view_def holds_def view_holds_def bump_def)

lemma holds_put_children: "put_children svc (i, t) = Inr (j, t') \<Longrightarrow> holds t \<Longrightarrow> service_holds svc \<Longrightarrow> holds t'"
  by (auto simp: put_children_def service_holds_def split: sum.splits dest: holds_insert_addresses holds_insert_aliases)

lemma holds_insert_service: "insert_service svc t = Inr (i, t') \<Longrightarrow> holds t \<Longrightarrow> service_holds svc \<Longrightarrow> holds t'"
  by (auto simp: insert_service_def holds_def service_holds_def bump_def Let_def split: if_splits)

lemma holds_update_service: "update_service svc t = Inr t' \<Longrightarrow> holds t \<Longrightarrow> service_holds svc \<Longrightarrow> holds t'"
  by (auto simp: update_service_def update_row_def holds_def service_holds_def bump_def list_all_iff split: if_splits)

lemma holds_putService: "putService svc t = Inr (i, t') \<Longrightarrow> holds t \<Longrightarrow> service_holds svc \<Longrightarrow> holds t'"
  by (auto simp: putService_def split: if_splits sum.splits dest: holds_insert_service intro: holds_put_children)
    (meson holds_put_children holds_update_service holds_delete)

lemma holds_putRecord: "putRecord r t = Inr (i, t') \<Longrightarrow> holds t \<Longrightarrow> record_holds r \<Longrightarrow> holds t'"
  by (auto simp: putRecord_def holds_def record_holds_def bump_def Let_def split: if_splits)

lemma holds_put_views: "put_views vs t = Inr t' \<Longrightarrow> holds t \<Longrightarrow> list_all view_holds vs \<Longrightarrow> holds t'"
  by (induction vs t rule: put_views.induct) (auto split: sum.splits dest: holds_putView)

lemma holds_put_services: "put_services ss t = Inr t' \<Longrightarrow> holds t \<Longrightarrow> list_all service_holds ss \<Longrightarrow> holds t'"
  by (induction ss t rule: put_services.induct) (auto split: sum.splits dest!: holds_putService simp: service_holds_def)

lemma holds_put_records: "put_records rs t = Inr t' \<Longrightarrow> holds t \<Longrightarrow> list_all record_holds rs \<Longrightarrow> holds t'"
  by (induction rs t rule: put_records.induct) (auto split: sum.splits dest!: holds_putRecord simp: record_holds_def)

lemma holds_replaceAll:
  assumes "replaceAll vs ss rs t = Inr t'" and "list_all view_holds vs" and "list_all service_holds ss" and "list_all record_holds rs"
  shows "holds t'"
proof -
  have "holds (wipe t)" by (simp add: holds_def wipe_tables)
  with assms show ?thesis by (auto simp: replaceAll_def split: sum.splits dest: holds_put_views holds_put_services holds_put_records)
qed

text \<open>An operation whose rows satisfy the rules keeps them.\<close>

definition writes_hold :: "reg_op \<Rightarrow> bool" where
  "writes_hold op = (case op of RPutView v \<Rightarrow> view_holds v | RPutService svc \<Rightarrow> service_holds svc | RPutRecord r \<Rightarrow> record_holds r
     | RReplaceAll vs ss rs \<Rightarrow> list_all view_holds vs \<and> list_all service_holds ss \<and> list_all record_holds rs | _ \<Rightarrow> True)"

lemma holds_run: "reg_run io op t = Inr t' \<Longrightarrow> holds t \<Longrightarrow> writes_hold op \<Longrightarrow> holds t'"
  by (cases op) (auto simp: reg_op_defs writes_hold_def split: if_splits
      dest: holds_putView holds_putService holds_putRecord holds_replaceAll intro: holds_delete_views holds_delete_services holds_delete)

end

definition columns_ok :: "service \<Rightarrow> bool" where
  "columns_ok r = (name_ok (svc_Name r) \<and> mac_ok (svc_MAC r))"

definition addr_ok :: "string \<Rightarrow> bool" where
  "addr_ok a = (ParseAddr a \<noteq> None)"

definition rrow_ok :: "string \<Rightarrow> string \<Rightarrow> string \<Rightarrow> bool" where
  "rrow_ok n ty v = (ty \<in> set recordTypes \<and> value_ok ty v)"

definition label_ok :: "string \<Rightarrow> bool" where
  "label_ok v = (ValidateLabel v = None)"

interpretation valid: row_rules columns_ok addr_ok name_ok rrow_ok cidr_ok label_ok
  by unfold_locales (simp add: columns_ok_def)

lemmas valid_rule_defs = columns_ok_def addr_ok_def rrow_ok_def label_ok_def

lemma rows_ok_split: "rows_ok t \<longleftrightarrow> valid.holds t \<and> distinct (macs (rt_services t))"
  by (auto simp: rows_ok_def valid.holds_def valid_rule_defs list_all_iff)

lemma valid_holds:
  "valid.service_holds svc = service_ok svc" "valid.record_holds r = record_ok r" "valid.view_holds v = view_ok v"
  by (auto simp: valid.service_holds_def service_ok_def valid.record_holds_def record_ok_def valid.view_holds_def view_ok_def valid_rule_defs list_all_iff)

subsection \<open>One reservation per hardware address\<close>

lemma set_macs: "set (macs rs) = svc_MAC ` set rs - {[]}"
  by (auto simp: macs_def)

lemma macs_simps [simp]:
  "macs [] = []" "macs (r # rs) = (if svc_MAC r = [] then macs rs else svc_MAC r # macs rs)" "macs (rs @ rs') = macs rs @ macs rs'"
  by (simp_all add: macs_def)

lemma distinct_macs_filter: "distinct (macs rs) \<Longrightarrow> distinct (macs (filter P rs))"
  by (induction rs) (auto simp: set_macs split: if_splits)

lemma distinct_macs_update:
  assumes "distinct (map svc_ID rs)" and "distinct (macs rs)"
    and "\<forall>r\<in>set rs. svc_MAC r = svc_MAC svc \<and> svc_MAC svc \<noteq> [] \<longrightarrow> svc_ID r = svc_ID svc"
  shows "distinct (macs (map (update_row svc) rs))"
  using assms
proof (induction rs)
  case (Cons r rs)
  then have ih: "distinct (macs (map (update_row svc) rs))" by (simp split: if_splits)
  show ?case
  proof (cases "svc_ID r = svc_ID svc")
    case True
    then have "\<forall>q\<in>set rs. svc_ID q \<noteq> svc_ID svc" using Cons.prems(1) by (metis distinct.simps(2) image_eqI list.set_map list.simps(9))
    then have "map (update_row svc) rs = rs" and "svc_MAC svc \<in> svc_MAC ` set rs \<Longrightarrow> svc_MAC svc = []"
      using Cons.prems(3) by (auto simp: update_row_def map_idI)
    moreover have "svc_MAC (update_row svc r) = svc_MAC svc" using True by (simp add: update_row_def service_columns_def)
    ultimately show ?thesis using Cons.prems(2) by (auto simp: set_macs split: if_splits)
  next
    case False
    have "svc_MAC r \<notin> svc_MAC ` set rs" if "svc_MAC r \<noteq> []" using Cons.prems(2) that by (simp add: set_macs)
    then have "svc_MAC q \<noteq> svc_MAC r" if "q \<in> set rs" and "svc_MAC r \<noteq> []" for q
      using that by (metis imageI)
    moreover have "svc_MAC svc \<noteq> svc_MAC r" if "svc_MAC r \<noteq> []"
      using Cons.prems(3) False that by (metis list.set_intros(1))
    ultimately have "svc_MAC (update_row svc q) \<noteq> svc_MAC r" if "q \<in> set rs" and "svc_MAC r \<noteq> []" for q
      using that by (simp add: update_row_def service_columns_def)
    then have "svc_MAC r \<noteq> [] \<Longrightarrow> svc_MAC r \<notin> svc_MAC ` set (map (update_row svc) rs)" by fastforce
    moreover have "update_row svc r = r" using False by (simp add: update_row_def)
    ultimately show ?thesis using ih by (simp add: set_macs)
  qed
qed simp

lemma rt_services_inserts:
  "insert_subnets v cs t = Inr t' \<Longrightarrow> rt_services t' = rt_services t"
  "insert_addresses i as t = Inr t' \<Longrightarrow> rt_services t' = rt_services t"
  "insert_aliases i als t = Inr t' \<Longrightarrow> rt_services t' = rt_services t"
  subgoal by (induction v cs t rule: insert_subnets.induct) (auto split: if_splits)
  subgoal by (induction i as t rule: insert_addresses.induct) (auto simp: Let_def split: if_splits)
  subgoal by (induction i als t rule: insert_aliases.induct) (auto split: if_splits)
  done

lemma rt_services_deletes [simp]:
  "rt_services (delete_subnets P1 t) = rt_services t" "rt_services (delete_addresses P2 t) = rt_services t"
  "rt_services (delete_aliases P3 t) = rt_services t" "rt_services (delete_records P4 t) = rt_services t"
  "rt_services (insert_view n t) = rt_services t" "rt_services (delete_views P5 t) = rt_services t"
  "rt_services (delete_services P6 t) = filter (\<lambda>r. \<not> P6 r) (rt_services t)"
  by (simp_all add: delete_subnets_def delete_addresses_def delete_aliases_def delete_records_def insert_view_def
      delete_views_def delete_services_def Let_def)

lemma rt_services_putView: "putView v t = Inr t' \<Longrightarrow> rt_services t' = rt_services t"
  by (auto simp: putView_def dest: rt_services_inserts)

lemma rt_services_put_children: "put_children svc (i, t) = Inr (j, t') \<Longrightarrow> rt_services t' = rt_services t"
  by (auto simp: put_children_def split: sum.splits dest!: rt_services_inserts(2,3))

lemma rt_services_putRecord: "putRecord r t = Inr (i, t') \<Longrightarrow> rt_services t' = rt_services t"
  by (auto simp: putRecord_def Let_def split: if_splits)

lemma rt_services_putService:
  assumes "putService svc t = Inr (i, t')"
  shows "rt_services t' = (if svc_ID svc = 0 then rt_services t @ [(service_columns svc)\<lparr>svc_ID := next_id (map svc_ID (rt_services t))\<rparr>]
           else map (update_row svc) (rt_services t))"
  using assms
  by (auto simp: putService_def insert_service_def update_service_def Let_def split: if_splits sum.splits dest!: rt_services_put_children)

definition mac_free :: "service \<Rightarrow> service list \<Rightarrow> bool" where
  "mac_free svc rs = (\<forall>r\<in>set rs. svc_MAC svc \<noteq> [] \<and> svc_MAC r = svc_MAC svc \<longrightarrow> svc_ID svc \<noteq> 0 \<and> svc_ID r = svc_ID svc)"

lemma macUnique_None: "macUnique svc rs = None \<longleftrightarrow> mac_free svc rs"
  by (auto simp: macUnique_def mac_free_def list_ex_iff)

lemma distinct_macs_putService:
  assumes put: "putService svc t = Inr (i, t')" and ok: "services_ok t"
    and d: "distinct (macs (rt_services t))" and free: "mac_free svc (rt_services t)"
  shows "distinct (macs (rt_services t'))"
proof (cases "svc_ID svc = 0")
  case True
  then have "rt_services t' = rt_services t @ [(service_columns svc)\<lparr>svc_ID := next_id (map svc_ID (rt_services t))\<rparr>]"
    using rt_services_putService [OF put] by simp
  then show ?thesis using d free True by (auto simp: service_columns_def set_macs mac_free_def)
next
  case False
  then have "rt_services t' = map (update_row svc) (rt_services t)" using rt_services_putService [OF put] by simp
  moreover have "distinct (map svc_ID (rt_services t))" using ok by (auto simp: services_ok_def strict_sorted_iff)
  ultimately show ?thesis using d free by (simp add: distinct_macs_update mac_free_def)
qed

lemma mac_clash_None:
  assumes "mac_clash svc s = None" and "services_ok (rg_tables s)"
  shows "mac_free svc (rt_services (rg_tables s))"
proof (cases "svc_MAC svc = []")
  case False
  then have "mac_free svc (map (load_service (rg_tables s)) (sort_key svc_Name (rt_services (rg_tables s))))"
    using assms by (simp add: mac_clash_def Services_eq macUnique_None)
  then show ?thesis by (simp add: mac_free_def load_service_def)
qed (simp add: mac_free_def)

section \<open>Every write of the registry\<close>

definition no_value :: "(app_error, 'a) result \<times> 'h registry \<Rightarrow> app_error option \<times> 'h registry" where
  "no_value r = (case fst r of Inl e \<Rightarrow> Some e | Inr _ \<Rightarrow> None, snd r)"

fun registry_run :: "string option \<Rightarrow> 'h on_change \<Rightarrow> reg_op \<Rightarrow> 'h registry \<Rightarrow> app_error option \<times> 'h registry" where
  "registry_run io chg (RPutView v) s = no_value (reg_PutView io chg v s)"
| "registry_run io chg (RDeleteView n) s = no_value (reg_DeleteView io chg n s)"
| "registry_run io chg (RPutService svc) s = no_value (reg_PutService io chg svc s)"
| "registry_run io chg (RDeleteService i) s = no_value (reg_DeleteService io chg i s)"
| "registry_run io chg (RPutRecord r) s = no_value (reg_PutRecord io chg r s)"
| "registry_run io chg (RDeleteRecord i) s = no_value (reg_DeleteRecord io chg i s)"
| "registry_run io chg (RReplaceAll vs ss rs) s = no_value (reg_ReplaceAll io chg vs ss rs s)"

text \<open>A run of the registry is one of three things: refused, stopped by the store, or written and announced.\<close>

definition announced :: "'h on_change \<Rightarrow> rtables \<Rightarrow> 'h registry \<Rightarrow> app_error option \<times> 'h registry" where
  "announced chg t s = (let (e, h) = chg t (rg_live s) in (e, s\<lparr>rg_tables := t, rg_live := h\<rparr>))"

lemma then_changed_cases:
  "no_value (then_changed chg r s) =
     (case r of Inl e \<Rightarrow> (Some (StoreErr e), s) | Inr (_, t) \<Rightarrow> announced chg t s)"
  by (auto simp: no_value_def then_changed_def changed_def announced_def split: sum.splits prod.splits option.splits)

lemma no_value_refused [simp]: "no_value (Inl e, s) = (Some e, s)"
  by (simp add: no_value_def)

lemma no_id_Inr [simp]: "no_id r = Inr (x, t) \<longleftrightarrow> r = Inr t"
  by (auto simp: no_id_def split: sum.splits)

fun admitted :: "reg_op \<Rightarrow> 'h registry \<Rightarrow> reg_op \<Rightarrow> bool" where
  "admitted (RPutView v0) s (RPutView v) = (validateView v0 = Inr v)"
| "admitted (RPutService s0) s (RPutService svc) = (validateService s0 (knownViews s) (rg_zone s) = Inr svc \<and> mac_clash svc s = None)"
| "admitted (RPutRecord r0) s (RPutRecord r) = (validateRecord r0 (knownViews s) (rg_zone s) = Inr r)"
| "admitted (RReplaceAll vs0 ss0 rs0) s (RReplaceAll vs ss rs) =
     (map_result validateView vs0 = Inr vs \<and> validate_services (map view_Name vs) (rg_zone s) [] ss0 = Inr ss \<and>
      map_result (\<lambda>r. validateRecord r (map view_Name vs) (rg_zone s)) rs0 = Inr rs)"
| "admitted op s op' = (op = op')"

fun refusal :: "app_error \<Rightarrow> bool" where
  "refusal (OtherErr _) = False"
| "refusal _ = True"

lemma first_error_refusal: "first_error f xs = Some e \<Longrightarrow> (\<And>x e. f x = Some e \<Longrightarrow> refusal e) \<Longrightarrow> refusal e"
  by (induction xs) (auto split: option.splits)

lemma ValidateLabel_refusal: "ValidateLabel s = Some e \<Longrightarrow> refusal e"
  by (auto simp: ValidateLabel_def split: if_splits)

lemma ValidateName_refusal: "ValidateName n z = Some e \<Longrightarrow> refusal e"
  by (auto simp: ValidateName_def Let_def split: if_splits dest: first_error_refusal [OF _ ValidateLabel_refusal])

lemma ValidateAddress_refusal: "ValidateAddress a = Some e \<Longrightarrow> refusal e"
  by (auto simp: ValidateAddress_def split: option.splits)

lemma address_errors_refusal: "address_errors known i as = Some e \<Longrightarrow> refusal e"
  by (induction as arbitrary: i) (auto split: option.splits if_splits dest: ValidateAddress_refusal)

lemma ValidateMAC_refusal: "ValidateMAC m = Some e \<Longrightarrow> refusal e"
  by (auto simp: ValidateMAC_def Let_def split: if_splits option.splits)

lemma validateService_refusal: "validateService svc known zone = Inl e \<Longrightarrow> refusal e"
  unfolding validateService_def Let_def
  by (auto split: option.splits if_splits
      dest: ValidateName_refusal address_errors_refusal ValidateMAC_refusal first_error_refusal [OF _ ValidateName_refusal])

lemma validateRecord_refusal: "validateRecord r known zone = Inl e \<Longrightarrow> refusal e"
  by (auto simp: validateRecord_def ValidateRecordType_def Let_def split: option.splits if_splits sum.splits
      dest: ValidateName_refusal ValidateAddress_refusal)

lemma mask_subnets_refusal: "mask_subnets i cs = Inl e \<Longrightarrow> refusal e"
  by (induction cs arbitrary: i) (auto split: option.splits sum.splits)

lemma validateView_refusal: "validateView v = Inl e \<Longrightarrow> refusal e"
  by (auto simp: validateView_def Let_def split: if_splits sum.splits dest: mask_subnets_refusal)

lemma macUnique_refusal: "macUnique svc rs = Some e \<Longrightarrow> refusal e"
  by (auto simp: macUnique_def split: if_splits)

lemma mac_clash_refusal: "mac_clash svc s = Some e \<Longrightarrow> refusal e"
  by (auto simp: mac_clash_def split: if_splits sum.splits dest: macUnique_refusal)

lemma validate_services_refusal: "validate_services known zone ss svcs = Inl e \<Longrightarrow> refusal e"
  by (induction svcs arbitrary: ss) (auto split: sum.splits option.splits dest: validateService_refusal macUnique_refusal)

lemma map_result_refusal: "map_result f xs = Inl e \<Longrightarrow> (\<And>x e. f x = Inl e \<Longrightarrow> refusal e) \<Longrightarrow> refusal e"
  by (induction xs) (auto split: sum.splits)

lemmas refusals = validateService_refusal validateRecord_refusal validateView_refusal mac_clash_refusal validate_services_refusal
  map_result_refusal [OF _ validateView_refusal] map_result_refusal [OF _ validateRecord_refusal]

lemma run_then_changed:
  assumes "no_value (then_changed chg r s) = (e, s')"
  shows "(\<exists>x. e = Some x \<and> refusal x \<and> s' = s) \<or> (\<exists>y t. r = Inr (y, t) \<and> (e, s') = announced chg t s)"
  using assms by (cases r) (auto simp: then_changed_cases)

lemma registry_run_cases:
  assumes "registry_run io chg op s = (e, s')"
  obtains x where "e = Some x" and "refusal x" and "s' = s"
    | op' t where "admitted op s op'" and "reg_run io op' (rg_tables s) = Inr t" and "(e, s') = announced chg t s"
proof -
  have "(\<exists>x. e = Some x \<and> refusal x \<and> s' = s) \<or>
     (\<exists>op' t. admitted op s op' \<and> reg_run io op' (rg_tables s) = Inr t \<and> (e, s') = announced chg t s)"
  proof (cases op)
    case (RPutView v0)
    then show ?thesis using assms
      by (cases "validateView v0") (auto simp: reg_PutView_def dest!: run_then_changed dest: refusals intro: exI [of _ "RPutView _"])
  next
    case (RPutService s0)
    then show ?thesis using assms
      by (auto simp: reg_PutService_def drop_id_Inr split: sum.splits option.splits dest!: run_then_changed sym [of "Some _"] dest: refusals
          intro: exI [of _ "RPutService _"])
  next
    case (RPutRecord r0)
    then show ?thesis using assms
      by (cases "validateRecord r0 (knownViews s) (rg_zone s)")
        (auto simp: reg_PutRecord_def drop_id_Inr dest!: run_then_changed dest: refusals intro: exI [of _ "RPutRecord _"])
  next
    case (RReplaceAll vs0 ss0 rs0)
    then show ?thesis using assms
      by (auto simp: reg_ReplaceAll_def Let_def split: sum.splits dest!: run_then_changed dest: refusals intro: exI [of _ "RReplaceAll _ _ _"])
  qed (use assms in \<open>auto simp: reg_DeleteView_def reg_DeleteService_def reg_DeleteRecord_def dest!: run_then_changed\<close>)
  then show thesis using that by blast
qed

section \<open>The rows stay valid\<close>

text \<open>A document to import carries no identifiers: \<^verbatim>\<open>adminapi\<close> builds its services without one.\<close>

fun imports_fresh :: "reg_op \<Rightarrow> bool" where
  "imports_fresh (RReplaceAll vs ss rs) = list_all (\<lambda>s. svc_ID s = 0) ss"
| "imports_fresh op = True"

lemma map_result_list_all: "map_result f xs = Inr ys \<Longrightarrow> (\<And>x y. f x = Inr y \<Longrightarrow> P y) \<Longrightarrow> list_all P ys"
  by (induction xs arbitrary: ys) (auto split: sum.splits)

lemma validateService_ID: "validateService svc0 known zone = Inr svc \<Longrightarrow> svc_ID svc = svc_ID svc0"
  by (auto simp: validateService_def Let_def split: option.splits if_splits)

lemma validate_services_ok:
  assumes "validate_services known zone acc svcs = Inr ss" and "zone = reg_Normalize z" and "list_all (\<lambda>s. svc_ID s = 0) svcs"
    and "list_all service_ok acc" and "distinct (macs acc)"
  shows "list_all service_ok ss \<and> distinct (macs ss)"
  using assms
proof (induction svcs arbitrary: acc)
  case (Cons s0 svcs)
  then obtain svc where v: "validateService s0 known zone = Inr svc" and m: "macUnique svc acc = None"
    and rest: "validate_services known zone (acc @ [svc]) svcs = Inr ss" by (auto split: sum.splits option.splits)
  have "svc_ID svc = 0" using validateService_ID [OF v] Cons.prems(3) by simp
  then have "distinct (macs (acc @ [svc]))" using m Cons.prems(5) by (auto simp: macUnique_None mac_free_def set_macs)
  then show ?case using Cons.IH [OF rest] Cons.prems validateService_ok [OF v Cons.prems(2)] by simp
qed simp

lemma macs_put_services:
  assumes "put_services ss t = Inr t'"
  shows "macs (rt_services t') = macs (rt_services t) @ macs ss"
  using assms
  by (induction ss t rule: put_services.induct)
    (auto simp: service_columns_def split: sum.splits dest!: rt_services_putService)

lemma rt_services_put_views: "put_views vs t = Inr t' \<Longrightarrow> rt_services t' = rt_services t"
  by (induction vs t rule: put_views.induct) (auto split: sum.splits dest!: rt_services_putView)

lemma rt_services_put_records: "put_records rs t = Inr t' \<Longrightarrow> rt_services t' = rt_services t"
  by (induction rs t rule: put_records.induct) (auto split: sum.splits dest!: rt_services_putRecord)

lemma macs_replaceAll:
  assumes "replaceAll vs ss rs t = Inr t'"
  shows "macs (rt_services t') = macs ss"
proof -
  obtain t1 t2 where w: "put_views vs (wipe t) = Inr t1" "put_services ss t1 = Inr t2" "put_records rs t2 = Inr t'"
    using assms by (auto simp: replaceAll_def split: sum.splits)
  then show ?thesis using macs_put_services [OF w(2)] rt_services_put_views [OF w(1)] rt_services_put_records [OF w(3)] by (simp add: wipe_tables)
qed

text \<open>What validation admits satisfies any rules that every validated row does.\<close>

definition validated :: "string \<Rightarrow> reg_op \<Rightarrow> bool" where
  "validated zone op = (case op of RPutView v \<Rightarrow> \<exists>v0. validateView v0 = Inr v
     | RPutService svc \<Rightarrow> \<exists>s0 known. validateService s0 known zone = Inr svc | RPutRecord r \<Rightarrow> \<exists>r0 known. validateRecord r0 known zone = Inr r
     | RReplaceAll vs ss rs \<Rightarrow> list_all (\<lambda>v. \<exists>v0. validateView v0 = Inr v) vs \<and> list_all (\<lambda>svc. \<exists>s0 known. validateService s0 known zone = Inr svc) ss \<and>
         list_all (\<lambda>r. \<exists>r0 known. validateRecord r0 known zone = Inr r) rs
     | _ \<Rightarrow> True)"

lemma validate_services_each:
  "validate_services known zone acc svcs = Inr ss \<Longrightarrow> list_all (\<lambda>svc. \<exists>s0 known. validateService s0 known zone = Inr svc) acc \<Longrightarrow>
   list_all (\<lambda>svc. \<exists>s0 known. validateService s0 known zone = Inr svc) ss"
proof (induction svcs arbitrary: acc)
  case (Cons s0 svcs)
  then obtain svc where v: "validateService s0 known zone = Inr svc" "validate_services known zone (acc @ [svc]) svcs = Inr ss"
    by (auto split: sum.splits option.splits)
  then show ?case using Cons.IH [OF v(2)] Cons.prems(2) by auto
qed simp

lemma admitted_validated:
  assumes "admitted op s op'"
  shows "validated (rg_zone s) op'"
proof (cases op)
  case (RReplaceAll vs0 ss0 rs0)
  then obtain vs ss rs where op': "op' = RReplaceAll vs ss rs" and v: "map_result validateView vs0 = Inr vs"
      "validate_services (map view_Name vs) (rg_zone s) [] ss0 = Inr ss" "map_result (\<lambda>r. validateRecord r (map view_Name vs) (rg_zone s)) rs0 = Inr rs"
    using assms by (cases op') auto
  have "list_all (\<lambda>v. \<exists>v0. validateView v0 = Inr v) vs" using v(1) by (rule map_result_list_all) blast
  moreover have "list_all (\<lambda>r. \<exists>r0 known. validateRecord r0 known (rg_zone s) = Inr r) rs" using v(3) by (rule map_result_list_all) blast
  ultimately show ?thesis using validate_services_each [OF v(2)] by (simp add: op' validated_def)
qed (use assms in \<open>cases op'; auto simp: validated_def\<close>)+

lemma validated_holds: "validated zone op \<Longrightarrow> zone = reg_Normalize z \<Longrightarrow> valid.writes_hold op"
  by (cases op) (auto simp: validated_def valid.writes_hold_def valid_holds list_all_iff dest: validateView_ok validateService_ok validateRecord_ok)

lemma distinct_macs_run:
  assumes adm: "admitted op s op'" and run: "reg_run io op' (rg_tables s) = Inr t" and ok: "reg_ok (rg_tables s)"
    and d: "distinct (macs (rt_services (rg_tables s)))" and z: "rg_zone s = reg_Normalize z" and fresh: "imports_fresh op"
  shows "distinct (macs (rt_services t))"
proof (cases op)
  case (RPutService s0)
  then obtain svc i where v: "mac_clash svc s = None" "putService svc (rg_tables s) = Inr (i, t)"
    using adm run by (cases op') (auto simp: reg_op_defs)
  moreover have "services_ok (rg_tables s)" using ok by (simp add: reg_ok_def)
  ultimately show ?thesis using d distinct_macs_putService [OF v(2)] mac_clash_None [OF v(1)] by simp
next
  case (RReplaceAll vs0 ss0 rs0)
  then obtain vs ss rs where v: "validate_services (map view_Name vs) (rg_zone s) [] ss0 = Inr ss" "replaceAll vs ss rs (rg_tables s) = Inr t"
    using adm run by (cases op') (auto simp: reg_op_defs)
  then show ?thesis using macs_replaceAll [OF v(2)] validate_services_ok [OF v(1) z] fresh RReplaceAll by simp
qed (use adm run d in \<open>cases op'; auto simp: reg_op_defs distinct_macs_filter split: if_splits dest: rt_services_putView rt_services_putRecord\<close>)+

lemma admitted_rows_ok:
  assumes "admitted op s op'" and "reg_run io op' (rg_tables s) = Inr t" and "reg_ok (rg_tables s)" "rows_ok (rg_tables s)"
    and "rg_zone s = reg_Normalize z" and "imports_fresh op"
  shows "rows_ok t"
  using assms valid.holds_run [OF assms(2)] validated_holds [OF admitted_validated [OF assms(1)] assms(5)] distinct_macs_run
  by (auto simp: rows_ok_split)

text \<open>The registry between two calls; its zone is always one it normalized.\<close>

definition registry_ok :: "'h registry \<Rightarrow> bool" where
  "registry_ok s = (reg_ok (rg_tables s) \<and> rows_ok (rg_tables s) \<and> (\<exists>z. rg_zone s = reg_Normalize z))"

lemma announced_sel: "(e, s') = announced chg t s \<Longrightarrow> rg_tables s' = t \<and> rg_zone s' = rg_zone s \<and> (e, rg_live s') = chg t (rg_live s)"
  by (auto simp: announced_def split: prod.splits)

lemma registry_run_ok:
  assumes "registry_run io chg op s = (e, s')" and "registry_ok s" and "imports_fresh op"
  shows "registry_ok s'"
  using assms(1)
proof (cases rule: registry_run_cases)
  case (2 op' t)
  then have "reg_ok t" and "rows_ok t"
    using assms(2,3) reg_run_ok admitted_rows_ok unfolding registry_ok_def by blast+
  then show ?thesis using announced_sel [OF 2(3)] assms(2) by (auto simp: registry_ok_def)
qed (use assms(2) in simp)

section \<open>What is written is served\<close>

definition written_live :: "(zone_error, zinput) result \<Rightarrow> zholder \<Rightarrow> zholder \<Rightarrow> bool" where
  "written_live src h h' = (\<exists>inp snap. src = Inr inp \<and> Build (inp\<lparr>in_Generation := zh_gen h + 1\<rparr>) = Inr snap \<and> Current h' = Some snap)"

lemma serve_onChange_outcome:
  assumes "serve_onChange refresh ls zone revs t (d, h) = (e, (d', h'))"
  shows "(e = None \<longrightarrow> written_live (serve_source ls zone revs t) h h') \<and>
    (\<forall>x. e = Some x \<longrightarrow> \<not> refusal x \<and> Current h' = Current h \<and> Rebuild (serve_source ls zone revs t) h \<noteq> (None, h'))"
  using assms by (auto simp: serve_onChange_def written_live_def Rebuild_def Current_def Let_def split: sum.splits)

lemma registry_run_outcome:
  assumes "registry_run io (serve_onChange refresh ls zone revs) op s = (e, s')"
  shows "case e of
      None \<Rightarrow> written_live (serve_source ls zone revs (rg_tables s')) (snd (rg_live s)) (snd (rg_live s'))
    | Some x \<Rightarrow> if refusal x then s' = s else Current (snd (rg_live s')) = Current (snd (rg_live s))"
  using assms
proof (cases rule: registry_run_cases)
  case (2 op' t)
  obtain d h d' h' where l: "rg_live s = (d, h)" "rg_live s' = (d', h')" by (meson surj_pair)
  have "serve_onChange refresh ls zone revs t (d, h) = (e, (d', h'))" "rg_tables s' = t"
    using announced_sel [OF 2(3)] l by auto
  from serve_onChange_outcome [OF this(1)] this(2) l show ?thesis by (auto split: option.splits)
qed simp

section \<open>Tokens\<close>

lemma touch_all_fst: "fst (touch_all io now want tks t) = list_ex (\<lambda>tk. tok_Hash tk = want) tks"
  by (induction tks arbitrary: t) auto

definition issued :: "ltables \<Rightarrow> (int \<times> string) list" where
  "issued t = map (\<lambda>x. (tok_ID x, tok_Hash x)) (lt_tokens t)"

definition tokens_ok :: "ltables \<Rightarrow> bool" where
  "tokens_ok t = (distinct (map fst (issued t)) \<and> distinct (map snd (issued t)))"

lemma touch_all_issued: "issued (snd (touch_all io now want tks t)) = issued t"
proof (induction tks arbitrary: t)
  case (Cons tk tks)
  have "issued (case TouchToken io now (tok_ID tk) t of Inl _ \<Rightarrow> t | Inr t' \<Rightarrow> t') = issued t"
    by (auto simp: TouchToken_def run_tx_def issued_def split: sum.splits option.splits)
  then show ?case using Cons.IH by simp
qed simp

lemma AuthenticateToken_fst:
  "fst (AuthenticateToken io sha now p s) \<longleftrightarrow> HasPrefix p tokenPrefix \<and> sha p \<in> snd ` set (issued (rg_local s))"
  by (simp add: AuthenticateToken_def HashToken_def Tokens_def list_ex_iff touch_all_fst case_prod_beta issued_def image_iff) metis

lemma AuthenticateToken_issued: "issued (rg_local (snd (AuthenticateToken io sha now p s))) = issued (rg_local s)"
  by (simp add: AuthenticateToken_def case_prod_beta touch_all_issued)

datatype tok_op = TCreate string int string | TAuth int string | TDelete int

fun tok_run :: "string option \<Rightarrow> (string \<Rightarrow> string) \<Rightarrow> tok_op \<Rightarrow> 'h registry \<Rightarrow> 'h registry" where
  "tok_run io sha (TCreate random now label) s = snd (CreateToken io sha random now label s)"
| "tok_run io sha (TAuth now p) s = snd (AuthenticateToken io sha now p s)"
| "tok_run io sha (TDelete i) s = snd (reg_DeleteToken io i s)"

fun tok_runs :: "(string \<Rightarrow> string) \<Rightarrow> (string option \<times> tok_op) list \<Rightarrow> 'h registry \<Rightarrow> 'h registry" where
  "tok_runs sha [] s = s"
| "tok_runs sha ((io, op) # ops) s = tok_runs sha ops (tok_run io sha op s)"

lemma issued_create:
  "issued (rg_local (snd (CreateToken io sha random now label s))) =
     (if io = None \<and> sha (tokenPrefix @ random) \<notin> snd ` set (issued (rg_local s))
      then issued (rg_local s) @ [(next_id (map fst (issued (rg_local s))), sha (tokenPrefix @ random))] else issued (rg_local s))"
  by (auto simp: CreateToken_def GenerateToken_def HashToken_def PutToken_def run_tx_def issued_def Let_def image_iff o_def split: option.splits)

lemma issued_delete:
  "issued (rg_local (snd (reg_DeleteToken io i s))) =
     (if io = None then filter (\<lambda>x. fst x \<noteq> i) (issued (rg_local s)) else issued (rg_local s))"
  by (auto simp: reg_DeleteToken_def DeleteToken_def run_tx_def issued_def filter_map o_def image_iff split: option.splits)
    (metis (mono_tags, lifting) filter_True)

lemma tok_run_ok: "tokens_ok (rg_local s) \<Longrightarrow> tokens_ok (rg_local (tok_run io sha op s))"
  by (cases op) (auto simp: tokens_ok_def issued_create issued_delete AuthenticateToken_issued distinct_map_filter next_id_fresh
      simp flip: set_map)

lemma tok_run_keeps:
  "(i, h) \<in> set (issued (rg_local s)) \<Longrightarrow> op \<noteq> TDelete i \<Longrightarrow> (i, h) \<in> set (issued (rg_local (tok_run io sha op s)))"
  by (cases op) (auto simp: issued_create issued_delete AuthenticateToken_issued)

lemma tok_runs_keep:
  assumes "tokens_ok (rg_local s)" and "(i, h) \<in> set (issued (rg_local s))" and "list_all (\<lambda>op. snd op \<noteq> TDelete i) ops"
  shows "tokens_ok (rg_local (tok_runs sha ops s)) \<and> (i, h) \<in> set (issued (rg_local (tok_runs sha ops s)))"
  using assms by (induction sha ops s rule: tok_runs.induct) (simp_all add: tok_run_ok tok_run_keeps)

lemma deleted_token:
  assumes "tokens_ok (rg_local s)" and "(i, sha p) \<in> set (issued (rg_local s))"
  shows "fst (reg_DeleteToken None i s) = Inr () \<and> \<not> fst (AuthenticateToken io sha now p (snd (reg_DeleteToken None i s)))"
proof -
  have "x = (i, sha p)" if "x \<in> set (issued (rg_local s))" "snd x = sha p" for x
    using that assms by (auto simp: tokens_ok_def distinct_map inj_on_def)
  then have "sha p \<notin> snd ` set (filter (\<lambda>x. fst x \<noteq> i) (issued (rg_local s)))" by fastforce
  moreover have "i \<in> tok_ID ` set (lt_tokens (rg_local s))" using assms(2) by (auto simp: issued_def)
  ultimately show ?thesis by (simp add: AuthenticateToken_fst issued_delete) (simp add: reg_DeleteToken_def DeleteToken_def run_tx_def)
qed

section \<open>The theorems\<close>

fun registry_runs :: "'h on_change \<Rightarrow> (string option \<times> reg_op) list \<Rightarrow> 'h registry \<Rightarrow> 'h registry" where
  "registry_runs chg [] s = s"
| "registry_runs chg ((io, op) # ops) s = registry_runs chg ops (snd (registry_run io chg op s))"

lemma registry_runs_ok: "registry_ok s \<Longrightarrow> list_all (\<lambda>op. imports_fresh (snd op)) ops \<Longrightarrow> registry_ok (registry_runs chg ops s)"
proof (induction chg ops s rule: registry_runs.induct)
  case (2 chg io op ops s)
  then show ?case using registry_run_ok [of io chg op s] by (simp add: prod_eq_iff)
qed simp

text \<open>
  C10: whatever sequence of writes reaches the registry, valid or not, and whether the store or the rebuild fails, the
  tables it starts empty hold only validated rows: names made of valid labels, addresses that parse, canonical prefixes, known
  record types, and hardware addresses in canonical form of which no two services reserve the same one.
\<close>

theorem registry_rows_stay_valid:
  assumes "list_all (\<lambda>op. imports_fresh (snd op)) ops"
  shows "rows_ok (rg_tables (registry_runs chg ops (registry_New empty_registry lt zone h)))"
proof -
  have "registry_ok (registry_New empty_registry lt zone h)"
    using empty_registry_ok by (auto simp: registry_ok_def registry_New_def reg_SetZone_def rows_ok_def empty_registry_def)
  then show ?thesis using registry_runs_ok assms unfolding registry_ok_def by blast
qed

definition nas :: service where
  "nas = \<lparr>svc_ID = 0, svc_Name = '' NAS '', svc_Addresses = [\<lparr>addr_ID = 0, addr_Address = ''10.0.0.2'', addr_View = []\<rparr>],
     svc_Aliases = [''files''], svc_CheckURL = [], svc_CheckInsecure = False, svc_ProxyAddress = [], svc_RouteViaProxy = False,
     svc_MAC = ''AA-BB-CC-00-11-22''\<rparr>"

definition quiet :: "unit on_change" where
  "quiet t h = (None, ())"

theorem registry_rows_stay_valid_witness:
  "rows_ok (rg_tables (registry_runs quiet [(None, RPutService nas), (None, RPutService (nas\<lparr>svc_Name := ''other''\<rparr>))]
     (registry_New empty_registry fresh_local ''home.arpa'' ())))"
  by (rule registry_rows_stay_valid) simp

text \<open>
  C26: a write of the registry is live or reported. When it reports success, the holder serves the complete build of the
  tables as they now are. When it is refused, by validation or by the store, nothing at all changed. When only the rebuild failed,
  the error is reported and the snapshot from before is still served.
\<close>

theorem registry_write_live_or_reported:
  "case registry_run io (serve_onChange refresh ls zone revs) op s of
      (None, s') \<Rightarrow> written_live (serve_source ls zone revs (rg_tables s')) (snd (rg_live s)) (snd (rg_live s'))
    | (Some x, s') \<Rightarrow> if refusal x then s' = s else Current (snd (rg_live s')) = Current (snd (rg_live s))"
proof -
  obtain e s' where run: "registry_run io (serve_onChange refresh ls zone revs) op s = (e, s')" by (meson surj_pair)
  show ?thesis using registry_run_outcome [OF run] run by (auto split: option.splits)
qed

text \<open>
  C37: a token authenticates from its creation until its deletion. Between the two any tokens may be created, used and deleted,
  with the database failing at will; afterwards it authenticates no more.
\<close>

theorem token_lifecycle:
  assumes "tokens_ok (rg_local s)" and created: "CreateToken None sha random now label s = (Inr p, s1)"
    and i: "i = next_id (map tok_ID (lt_tokens (rg_local s)))" and "list_all (\<lambda>op. snd op \<noteq> TDelete i) ops" and s2: "s2 = tok_runs sha ops s1"
  shows "fst (AuthenticateToken io sha t p s2) \<and> fst (reg_DeleteToken None i s2) = Inr () \<and>
    \<not> fst (AuthenticateToken io' sha t' p (snd (reg_DeleteToken None i s2)))"
proof -
  have p: "p = tokenPrefix @ random" and s1: "s1 = tok_run None sha (TCreate random now label) s"
    and free: "sha p \<notin> snd ` set (issued (rg_local s))"
    using created
    by (auto simp: CreateToken_def GenerateToken_def HashToken_def PutToken_def run_tx_def issued_def Let_def split: sum.splits if_splits)
  have ok: "tokens_ok (rg_local s1)" using assms(1) tok_run_ok s1 by blast
  have "(i, sha p) \<in> set (issued (rg_local s1))" using free i by (simp add: s1 p issued_create) (simp add: issued_def o_def)
  then have s2_ok: "tokens_ok (rg_local s2)" "(i, sha p) \<in> set (issued (rg_local s2))" using tok_runs_keep [OF ok _ assms(4)] s2 by blast+
  moreover have "HasPrefix p tokenPrefix" by (simp add: p HasPrefix_def)
  ultimately show ?thesis using deleted_token by (force simp: AuthenticateToken_fst)
qed

theorem token_lifecycle_witness:
  "let s = registry_New empty_registry fresh_local ''home.arpa'' ();
       s2 = tok_runs id [(None, TCreate ''ef'' 8 ''ci''), (None, TAuth 9 ''kydns_ab''), (None, TDelete 2)]
              (snd (CreateToken None id ''ab'' 7 ''cli'' s))
   in fst (AuthenticateToken None id 10 ''kydns_ab'' s2) \<and> \<not> fst (AuthenticateToken None id 11 ''kydns_ab'' (snd (reg_DeleteToken None 1 s2)))"
proof -
  let ?s = "registry_New empty_registry fresh_local ''home.arpa'' ()"
  have "tokens_ok (rg_local ?s)" by (simp add: registry_New_def reg_SetZone_def tokens_ok_def issued_def fresh_local_def)
  moreover have "CreateToken None id ''ab'' 7 ''cli'' ?s = (Inr ''kydns_ab'', snd (CreateToken None id ''ab'' 7 ''cli'' ?s))"
    by (simp add: CreateToken_def GenerateToken_def HashToken_def tokenPrefix_def PutToken_def run_tx_def registry_New_def reg_SetZone_def fresh_local_def Let_def)
  moreover have "1 = next_id (map tok_ID (lt_tokens (rg_local ?s)))" by (simp add: registry_New_def reg_SetZone_def fresh_local_def next_id_def)
  ultimately show ?thesis
    using token_lifecycle [of ?s id "''ab''" 7 "''cli''" "''kydns_ab''" _ 1
        "[(None, TCreate ''ef'' 8 ''ci''), (None, TAuth 9 ''kydns_ab''), (None, TDelete 2)]" _ None 10 None 11]
    by (simp add: Let_def)
qed

section \<open>A record that cannot be served\<close>

text \<open>
  Validation looks at one record at a time. An alias record on a name that has an address is stored, the rebuild rejects it,
  and from then on so does every rebuild, the one at the next start included.
\<close>

definition www :: "string \<Rightarrow> string \<Rightarrow> record_row" where
  "www ty v = \<lparr>rec_ID = 0, rec_Name = ''www.home.arpa'', rec_Type = ty, rec_Value = v, rec_View = []\<rparr>"

definition wedged :: "(unit \<times> zholder) registry" where
  "wedged = registry_runs (serve_onChange (\<lambda>_ d. d) [] ''home.arpa.'' [])
     [(None, RPutRecord (www ''A'' ''10.0.0.2'')), (None, RPutRecord (www ''CNAME'' ''nas.home.arpa''))]
     (registry_New empty_registry fresh_local ''home.arpa'' ((), NewHolder))"

lemma wedged_tables: "map rw_Type (rt_records (rg_tables wedged)) = [''A'', ''CNAME'']"
  by code_simp

lemma wedged_restart: "fst (Rebuild (serve_source [] ''home.arpa.'' [] (rg_tables wedged)) NewHolder) \<noteq> None"
  by code_simp

end
