(* ===== verification/AppApply.thy ===== *)
theory AppApply
  imports DnsServer DhcpRunner RegistrySafety SettingsSafety Zone_Holder
begin

text \<open>
  The fan-out of a settings change to the running components (\<^verbatim>\<open>internal/app/apply.go\<close>, with its helpers and the zone source of
  \<^verbatim>\<open>internal/app/serve.go\<close>), and its composition with the settings service: what is saved is what runs.

  The components are those of their own theories. The DNS server's record holds the query allow-list, the authority, the forwarder with its cache and
  the zone holder, which the code shares between the server and the fan-out by pointers; the DHCP runner holds the poller. What the fan-out
  reads while it runs comes as an argument: the host for the DHCP listener, the role, the services, the stored tables and the
  settings holder's current snapshot.
\<close>

section \<open>The fan-out\<close>

record ('p, 'h) live_components =
  lc_srv :: "'p server"
  lc_checker :: checker
  lc_reg :: "'h registry"
  lc_dhcp :: drunner
  lc_prev :: "string list"

record apply_env =
  ae_host :: host_env
  ae_role :: role
  ae_svcs :: "(store_error, service list) result"
  ae_again :: "(store_error, service list) result"
  ae_tables :: rtables
  ae_cur :: set_snapshot

definition zoneChanged :: "string \<Rightarrow> string \<Rightarrow> bool" where
  "zoneChanged run stored = (ZoneSuffix run \<noteq> ZoneSuffix stored)"

definition flushOnUpstreamChange :: "string list \<Rightarrow> string list \<Rightarrow> cache \<Rightarrow> bool \<times> cache" where
  "flushOnUpstreamChange prev nxt c = (if prev = nxt then (False, c) else (True, Flush c))"

definition on_auth :: "(authority \<Rightarrow> authority) \<Rightarrow> 'p server \<Rightarrow> 'p server" where
  "on_auth f s = s\<lparr>sv_auth := f (sv_auth s)\<rparr>"

definition on_forwarder :: "(forwarder \<Rightarrow> forwarder) \<Rightarrow> 'p server \<Rightarrow> 'p server" where
  "on_forwarder f s = s\<lparr>sv_forwarder := map_option f (sv_forwarder s)\<rparr>"

definition on_cache :: "(cache \<Rightarrow> cache) \<Rightarrow> forwarder \<Rightarrow> forwarder" where
  "on_cache g f = f\<lparr>fw_cache := g (fw_cache f)\<rparr>"

text \<open>The private zone first, and with it the cache.\<close>

definition apply_zone :: "dnslib \<Rightarrow> settings \<Rightarrow> ('p, 'h) live_components \<Rightarrow> ('p, 'h) live_components" where
  "apply_zone L v l =
     (if zoneChanged (au_Zone (sv_auth (lc_srv l))) (PrivateDomain v)
      then l\<lparr>lc_srv := on_forwarder (on_cache Flush) (on_auth (SetZone L (PrivateDomain v)) (lc_srv l)), lc_reg := reg_SetZone (PrivateDomain v) (lc_reg l)\<rparr>
      else l)"

text \<open>The cache's loop may in principle not end, hence the option.\<close>

definition retune :: "settings \<Rightarrow> 'p server \<Rightarrow> 'p server option" where
  "retune v s =
     (case sv_forwarder s of
        None \<Rightarrow> Some s
      | Some f \<Rightarrow> map_option (\<lambda>c. s\<lparr>sv_forwarder := Some (f\<lparr>fw_cache := c\<rparr>)\<rparr>)
          (Retune (CacheEntries v) (CacheMinTTL v) (CacheMaxTTL v) (NegativeMaxTTL v) (fw_cache f)))"

definition apply_dns :: "dnslib \<Rightarrow> set_snapshot \<Rightarrow> ('p, 'h) live_components \<Rightarrow> ('p, 'h) live_components option" where
  "apply_dns L s l =
     (let v = ss_Raw s; l = apply_zone L v l;
          srv = (lc_srv l)\<lparr>sv_acl := acl_Replace (ss_AllowQuery s) (sv_acl (lc_srv l))\<rparr>;
          srv = on_forwarder (fw_Replace (ss_Upstreams s)) srv;
          srv = on_forwarder (on_cache (\<lambda>c. snd (flushOnUpstreamChange (lc_prev l) (Upstreams v) c))) srv
      in case retune v srv of
           None \<Rightarrow> None
         | Some srv \<Rightarrow>
             let srv = SetLogging (LogQueries v) (LogClientIP v) srv;
                 srv = on_auth (SetReverseZones (ss_ReverseZones s) \<circ> SetTTL (word_of_int (TTL v))) srv
             in Some (l\<lparr>lc_srv := srv, lc_prev := Upstreams v,
                  lc_checker := Reconfigure (seconds (HealthInterval v)) (seconds (HealthTimeout v)) (HealthWorkers v) (lc_checker l)\<rparr>))"

definition apply_source :: "settings \<Rightarrow> drunner \<Rightarrow> drunner" where
  "apply_source v d =
     (let d = (if fst (dr_Status d) then d
               else d\<lparr>dr_poller := SetSource (if DHCPLeaseFile v \<noteq> [] then Some (FileSource (DHCPLeaseFile v)) else None) (dr_poller d)\<rparr>)
      in d\<lparr>dr_poller := SetInterval (seconds (DiscoveryInterval v)) (dr_poller d)\<rparr>)"

text \<open>What the zone holder reads when it rebuilds.\<close>

definition zone_leases :: "drunner \<Rightarrow> zlease list" where
  "zone_leases d = map (\<lambda>l. \<lparr>zl_Hostname = d_Hostname l, zl_Address = d_IP l\<rparr>) (po_leases (dr_poller d))"

definition zone_source :: "dnslib \<Rightarrow> apply_env \<Rightarrow> drunner \<Rightarrow> (zone_error, zinput) result" where
  "zone_source L ae d =
     serve_source (zone_leases d) (lib_Fqdn L (ToLower (PrivateDomain (ss_Raw (ae_cur ae))))) (ss_ReverseZones (ae_cur ae)) (ae_tables ae)"

definition Apply :: "dnslib \<Rightarrow> apply_env \<Rightarrow> set_snapshot \<Rightarrow> ('p, 'h) live_components \<Rightarrow> ('p, 'h) live_components option" where
  "Apply L ae s l =
     (case apply_dns L s l of
        None \<Rightarrow> None
      | Some l \<Rightarrow>
          let d = apply_source (ss_Raw s) (Reconcile (ae_host ae) (ss_Raw s) (ae_role ae) (ae_svcs ae) (ae_again ae) (lc_dhcp l));
              (e, h) = Rebuild (zone_source L ae d) (sv_holder (lc_srv l))
          in Some (l\<lparr>lc_dhcp := d, lc_srv := (lc_srv l)\<lparr>sv_holder := h\<rparr>\<rparr>))"

section \<open>Spellings of one zone\<close>

definition plain_domain :: "string \<Rightarrow> bool" where
  "plain_domain z = list_all (\<lambda>c. \<not> is_space c \<and> c \<noteq> CHR 0x5C) z"

lemma TrimSpace_plain: "list_all (\<lambda>c. \<not> is_space c) s \<Longrightarrow> TrimSpace s = s"
  by (cases s) (simp add: TrimSpace_def, rule TrimSpace_ends, auto simp: list_all_iff)

lemma TrimDots_dot: "TrimDots (s @ ''.'') = TrimDots s"
proof (cases "\<forall>x \<in> set s. x = CHR ''.''")
  case True
  then have "dropWhile (\<lambda>c. c = CHR ''.'') s = []" "dropWhile (\<lambda>c. c = CHR ''.'') (s @ ''.'') = []" by (auto simp: dropWhile_eq_Nil_conv)
  then show ?thesis unfolding TrimDots_def by (simp only:)
next
  case False
  then have "dropWhile (\<lambda>c. c = CHR ''.'') (s @ ''.'') = dropWhile (\<lambda>c. c = CHR ''.'') s @ ''.''" by (simp add: dropWhile_append)
  then show ?thesis by (simp add: TrimDots_def)
qed

lemma lower_space: "list_all (\<lambda>c. \<not> is_space c) s \<Longrightarrow> list_all (\<lambda>c. \<not> is_space c) (ToLower s)"
  by (simp add: ToLower_def list_all_iff)

lemma ToLower_dot: "ToLower (s @ ''.'') = ToLower s @ ''.''"
  by (simp add: ToLower_def)

lemma ZoneSuffix_spelling:
  assumes "plain_domain z"
  shows "ZoneSuffix (reg_Normalize z) = ZoneSuffix z" and "Fqdn_ok f \<Longrightarrow> ZoneSuffix (ToLower (f z)) = ZoneSuffix z"
proof -
  have sp: "list_all (\<lambda>c. \<not> is_space c) z" "list_all (\<lambda>c. \<not> is_space c) (z @ ''.'')" and bs: "CHR 0x5C \<notin> set z"
    using assms by (auto simp: plain_domain_def list_all_iff is_space_def char_code_def)
  have suffix: "ZoneSuffix s = (let d = TrimDots (ToLower s) in if d = [] then [] else d @ ''.'')" if "list_all (\<lambda>c. \<not> is_space c) s" for s
    by (simp add: ZoneSuffix_def TrimSpace_plain [OF that])
  have dot: "ZoneSuffix (ToLower (z @ ''.'')) = ZoneSuffix z" "ZoneSuffix (ToLower z) = ZoneSuffix z"
    using suffix [OF lower_space [OF sp(2)]] suffix [OF lower_space [OF sp(1)]] suffix [OF sp(1)] TrimDots_dot [of "ToLower z"]
    by (simp_all only: ToLower_dot ToLower_idem)
  then show "Fqdn_ok f \<Longrightarrow> ZoneSuffix (ToLower (f z)) = ZoneSuffix z" using bs by (simp add: Fqdn_ok_def)
  show "ZoneSuffix (reg_Normalize z) = ZoneSuffix z"
    using dot TrimSpace_plain [OF sp(1)] by (auto simp: reg_Normalize_def Let_def)
qed

section \<open>What runs after an apply\<close>

definition live_ok :: "('p, 'h) live_components \<Rightarrow> bool" where
  "live_ok l = (server_ok (lc_srv l) \<and> dr_inv (lc_dhcp l) \<and> ZoneSuffix (rg_zone (lc_reg l)) = ZoneSuffix (au_Zone (sv_auth (lc_srv l))))"

definition cache_configured :: "settings \<Rightarrow> cache \<Rightarrow> bool" where
  "cache_configured v c = (c_maxEntries c = max 1 (CacheEntries v) \<and> Len c \<le> max 1 (CacheEntries v) \<and>
     c_minTTL c = word_of_int (CacheMinTTL v) \<and> c_maxTTL c = word_of_int (CacheMaxTTL v) \<and> c_negMaxTTL c = word_of_int (NegativeMaxTTL v))"

definition dns_configured :: "set_snapshot \<Rightarrow> ('p, 'h) live_components \<Rightarrow> bool" where
  "dns_configured s l =
     (let v = ss_Raw s; srv = lc_srv l
      in acl_allowed (sv_acl srv) = map Masked (ss_AllowQuery s) \<and>
         (case sv_forwarder srv of None \<Rightarrow> True | Some f \<Rightarrow> fw_ups f = ss_Upstreams s \<and> cache_configured v (fw_cache f)) \<and>
         sv_logQueries srv = LogQueries v \<and> sv_logClientIP srv = LogClientIP v \<and>
         au_ttl (sv_auth srv) = word_of_int (TTL v) \<and> au_reverseZones (sv_auth srv) = Some (map Masked (ss_ReverseZones s)) \<and>
         ZoneSuffix (au_Zone (sv_auth srv)) = ZoneSuffix (PrivateDomain v) \<and> ZoneSuffix (rg_zone (lc_reg l)) = ZoneSuffix (PrivateDomain v) \<and>
         ck_interval (lc_checker l) = max minInterval (seconds (HealthInterval v)) \<and> ck_timeout (lc_checker l) = seconds (HealthTimeout v) \<and>
         ck_workers (lc_checker l) = (if HealthWorkers v < 1 then 8 else HealthWorkers v) \<and> lc_prev l = Upstreams v)"

definition source_configured :: "settings \<Rightarrow> drunner \<Rightarrow> bool" where
  "source_configured v d =
     (po_interval (dr_poller d) = max poll_minInterval (seconds (DiscoveryInterval v)) \<and>
      po_src (dr_poller d) =
        (if dr_running d \<noteq> None then Some BuiltIn else if DHCPLeaseFile v \<noteq> [] then Some (FileSource (DHCPLeaseFile v)) else None))"

text \<open>The answers the cache keeps: none when the names or the resolvers have changed, the most recently used otherwise.\<close>

definition cached :: "('p, 'h) live_components \<Rightarrow> centry list" where
  "cached l = (case sv_forwarder (lc_srv l) of None \<Rightarrow> [] | Some f \<Rightarrow> recent (fw_cache f))"

definition kept_answers :: "settings \<Rightarrow> ('p, 'h) live_components \<Rightarrow> centry list" where
  "kept_answers v l =
     (if zoneChanged (au_Zone (sv_auth (lc_srv l))) (PrivateDomain v) \<or> lc_prev l \<noteq> Upstreams v then []
      else take (nat (max 1 (CacheEntries v))) (cached l))"

lemma Retune_works:
  assumes "cache_ok c"
  obtains c' where "Retune (CacheEntries v) (CacheMinTTL v) (CacheMaxTTL v) (NegativeMaxTTL v) c = Some c'" "cache_ok c'" "cache_configured v c'"
    "recent c' = take (nat (max 1 (CacheEntries v))) (recent c)"
proof -
  let ?b = "c\<lparr>c_maxEntries := (if CacheEntries v < 1 then 1 else CacheEntries v), c_minTTL := word_of_int (CacheMinTTL v),
    c_maxTTL := word_of_int (CacheMaxTTL v), c_negMaxTTL := word_of_int (NegativeMaxTTL v)\<rparr>"
  obtain c' where c': "Retune (CacheEntries v) (CacheMinTTL v) (CacheMaxTTL v) (NegativeMaxTTL v) c = Some c'" "cache_ok c'" using Retune_ok [OF assms] by blast
  have "cache_inv ?b" "0 \<le> c_maxEntries ?b" using assms by (simp_all add: cache_ok_def cache_inv_def)
  from evict_returns [OF this] c'(1) have e: "recent c' = take (nat (c_maxEntries ?b)) (recent ?b)" "c_maxEntries c' = c_maxEntries ?b"
      "c_minTTL c' = c_minTTL ?b" "c_maxTTL c' = c_maxTTL ?b" "c_negMaxTTL c' = c_negMaxTTL ?b"
    by (auto simp: Retune_def)
  have mx: "c_maxEntries ?b = max 1 (CacheEntries v)" by simp
  show ?thesis
  proof (rule that [OF c'])
    show "cache_configured v c'" using e mx c'(2) by (simp add: cache_configured_def cache_ok_def)
    show "recent c' = take (nat (max 1 (CacheEntries v))) (recent c)" using e(1) mx by (simp add: recent_def)
  qed
qed

lemma recent_Flush [simp]: "recent (Flush c) = []"
  by (simp add: recent_def Flush_def)

lemma apply_dns_works:
  assumes ok: "live_ok l" and L: "Fqdn_ok (lib_Fqdn L)" and plain: "plain_domain (PrivateDomain (ss_Raw s))"
  obtains l' where "apply_dns L s l = Some l'" "dns_configured s l'" "server_ok (lc_srv l')" "cached l' = kept_answers (ss_Raw s) l" "lc_dhcp l' = lc_dhcp l"
    "sv_holder (lc_srv l') = sv_holder (lc_srv l)"
proof -
  let ?v = "ss_Raw s" and ?z = "apply_zone L (ss_Raw s) l"
  have zone: "ZoneSuffix (au_Zone (sv_auth (lc_srv ?z))) = ZoneSuffix (PrivateDomain ?v)" "ZoneSuffix (rg_zone (lc_reg ?z)) = ZoneSuffix (PrivateDomain ?v)"
    using ok ZoneSuffix_spelling [OF plain] L
    by (auto simp: apply_zone_def zoneChanged_def live_ok_def on_forwarder_def on_auth_def SetZone_def au_Zone_def reg_SetZone_def)
  have frame: "lc_dhcp ?z = lc_dhcp l" "lc_prev ?z = lc_prev l" "lc_checker ?z = lc_checker l" "sv_holder (lc_srv ?z) = sv_holder (lc_srv l)"
    by (simp_all add: apply_zone_def on_forwarder_def on_auth_def)
  let ?srv = "on_forwarder (on_cache (\<lambda>c. snd (flushOnUpstreamChange (lc_prev ?z) (Upstreams ?v) c))) (on_forwarder (fw_Replace (ss_Upstreams s))
    ((lc_srv ?z)\<lparr>sv_acl := acl_Replace (ss_AllowQuery s) (sv_acl (lc_srv ?z))\<rparr>))"
  let ?fin = "\<lambda>srv. ?z\<lparr>lc_srv := on_auth (SetReverseZones (ss_ReverseZones s) \<circ> SetTTL (word_of_int (TTL ?v))) (SetLogging (LogQueries ?v) (LogClientIP ?v) srv),
    lc_prev := Upstreams ?v, lc_checker := Reconfigure (seconds (HealthInterval ?v)) (seconds (HealthTimeout ?v)) (HealthWorkers ?v) (lc_checker ?z)\<rparr>"
  have go: "apply_dns L s l = map_option ?fin (retune ?v ?srv)"
    by (simp add: apply_dns_def Let_def frame(2) split: option.split)
  have dns: "dns_configured s (?fin srv)"
    if "sv_auth srv = sv_auth (lc_srv ?z)" "acl_allowed (sv_acl srv) = map Masked (ss_AllowQuery s)"
      "case sv_forwarder srv of None \<Rightarrow> True | Some f \<Rightarrow> fw_ups f = ss_Upstreams s \<and> cache_configured ?v (fw_cache f)" for srv
    using that zone by (simp add: dns_configured_def SetLogging_def on_auth_def SetReverseZones_def SetTTL_def au_Zone_def Reconfigure_def max_def)
  show thesis
  proof (cases "sv_forwarder (lc_srv l)")
    case None
    then have "sv_forwarder ?srv = None" by (simp add: on_forwarder_def apply_zone_def on_auth_def)
    then have "retune ?v ?srv = Some ?srv" by (simp add: retune_def)
    then have "apply_dns L s l = Some (?fin ?srv)" unfolding go by (simp only: option.map)
    moreover have "dns_configured s (?fin ?srv)" using \<open>sv_forwarder ?srv = None\<close> by (intro dns) (simp_all add: on_forwarder_def acl_Replace_def)
    ultimately show thesis using \<open>sv_forwarder ?srv = None\<close> None frame
      by (intro that [of "?fin ?srv"]) (simp_all add: server_ok_def on_auth_def SetLogging_def cached_def kept_answers_def on_forwarder_def)
  next
    case (Some f)
    have okc: "cache_ok (fw_cache f)" using ok Some by (simp add: live_ok_def server_ok_def)
    let ?c = "if zoneChanged (au_Zone (sv_auth (lc_srv l))) (PrivateDomain ?v) \<or> lc_prev l \<noteq> Upstreams ?v then Flush (fw_cache f) else fw_cache f"
    have FF: "Flush (Flush c) = Flush c" for c by (simp add: Flush_def)
    have fs: "\<exists>g. sv_forwarder ?srv = Some g \<and> fw_ups g = ss_Upstreams s \<and> fw_cache g = ?c"
      using Some by (auto simp: on_forwarder_def apply_zone_def on_auth_def on_cache_def fw_Replace_def flushOnUpstreamChange_def FF)
    then obtain g where g: "sv_forwarder ?srv = Some g" "fw_ups g = ss_Upstreams s" "fw_cache g = ?c" by blast
    have "cache_ok ?c" using okc Flush_ok by simp
    then obtain c' where c': "Retune (CacheEntries ?v) (CacheMinTTL ?v) (CacheMaxTTL ?v) (NegativeMaxTTL ?v) ?c = Some c'" "cache_ok c'"
        "cache_configured ?v c'" "recent c' = take (nat (max 1 (CacheEntries ?v))) (recent ?c)"
      by (rule Retune_works)
    let ?s2 = "?srv\<lparr>sv_forwarder := Some (g\<lparr>fw_cache := c'\<rparr>)\<rparr>"
    have "retune ?v ?srv = Some ?s2" using g c'(1) by (simp add: retune_def)
    then have "apply_dns L s l = Some (?fin ?s2)" unfolding go by (simp only: option.map)
    moreover have "dns_configured s (?fin ?s2)" using g(2) c'(3) by (intro dns) (simp_all add: on_forwarder_def acl_Replace_def)
    moreover have "cached (?fin ?s2) = kept_answers ?v l" using c'(4) Some by (simp add: cached_def kept_answers_def on_auth_def SetLogging_def)
    moreover have "server_ok (lc_srv (?fin ?s2))" using c'(2) by (simp add: server_ok_def on_auth_def SetLogging_def)
    ultimately show thesis using frame by (intro that [of "?fin ?s2"]) (simp_all add: on_auth_def SetLogging_def on_forwarder_def)
  qed
qed

lemma apply_source_works:
  assumes "dr_inv d"
  shows "dr_inv (apply_source v d)" and "source_configured v (apply_source v d)" and "dr_running (apply_source v d) = dr_running d"
    and "dr_lastError (apply_source v d) = dr_lastError d" and "dr_current (apply_source v d) = dr_current d"
  using assms
  by (auto simp: apply_source_def dr_inv_def source_configured_def dr_Status_def SetSource_def SetInterval_def Let_def max_def split: option.splits)

lemma Reconcile_inv: "dr_inv d \<Longrightarrow> dr_inv (Reconcile he v r svcs again d)"
  using dr_exec_inv [of d "EReconcile he v r svcs again"] by simp

lemma Reconcile_settles:
  assumes "dr_inv d" and d'_def: "d' = Reconcile he v r svcs again d"
  shows "(\<not> dhcpWanted v r \<longrightarrow> dr_running d' = None) \<and> (dhcpWanted v r \<and> dr_lastError d' = None \<longrightarrow> dr_running d' \<noteq> None \<and> dhcpConfigEqual (dr_current d') v)"
proof -
  let ?d = "reconcile he v r (if dhcpWanted v r then svcs else Inr []) d"
  have frame: "serving d' = serving ?d" "dr_lastError d' = dr_lastError ?d" "dr_current d' = dr_current ?d"
    using Refresh_frame by (simp_all add: d'_def Reconcile_def)
  have run: "dr_running d' = None \<longleftrightarrow> dr_running ?d = None" using frame(1) by (simp flip: serving_None)
  have "dr_running ?d = None" if "\<not> dhcpWanted v r" using that by (simp add: reconcile_def)
  then show ?thesis unfolding run frame(2,3) using reconcile_ok [of v r he _ d] by blast
qed

lemma Apply_works:
  assumes ok: "live_ok l" and L: "Fqdn_ok (lib_Fqdn L)" and plain: "plain_domain (PrivateDomain (ss_Raw s))"
  obtains l' d where "Apply L ae s l = Some l'" "live_ok l'" "dns_configured s l'" "cached l' = kept_answers (ss_Raw s) l" "lc_dhcp l' = apply_source (ss_Raw s) d"
    "d = Reconcile (ae_host ae) (ss_Raw s) (ae_role ae) (ae_svcs ae) (ae_again ae) (lc_dhcp l)" "dr_inv d"
    "sv_holder (lc_srv l') = snd (Rebuild (zone_source L ae (lc_dhcp l')) (sv_holder (lc_srv l)))"
proof -
  obtain l1 where l1: "apply_dns L s l = Some l1" "dns_configured s l1" "server_ok (lc_srv l1)" "cached l1 = kept_answers (ss_Raw s) l" "lc_dhcp l1 = lc_dhcp l"
      "sv_holder (lc_srv l1) = sv_holder (lc_srv l)"
    by (rule apply_dns_works [OF assms])
  let ?d = "Reconcile (ae_host ae) (ss_Raw s) (ae_role ae) (ae_svcs ae) (ae_again ae) (lc_dhcp l)"
  let ?l = "l1\<lparr>lc_dhcp := apply_source (ss_Raw s) ?d, lc_srv := (lc_srv l1)\<lparr>sv_holder := snd (Rebuild (zone_source L ae (apply_source (ss_Raw s) ?d)) (sv_holder (lc_srv l)))\<rparr>\<rparr>"
  have inv: "dr_inv ?d" using ok Reconcile_inv by (simp add: live_ok_def)
  have "Apply L ae s l = Some ?l" using l1 by (simp add: Apply_def case_prod_beta Let_def)
  moreover have "dns_configured s ?l" using l1(2) by (simp add: dns_configured_def Let_def)
  moreover have "live_ok ?l" using l1(2,3) apply_source_works(1) [OF inv] by (simp add: live_ok_def server_ok_def dns_configured_def Let_def)
  moreover have "cached ?l = kept_answers (ss_Raw s) l" using l1(4) by (simp add: cached_def)
  ultimately show thesis using inv by (intro that [of ?l ?d]) simp_all
qed

text \<open>The closure that the settings service calls: the holder has published the snapshot it hands over.\<close>

definition live_apply :: "dnslib \<Rightarrow> apply_env \<Rightarrow> set_snapshot \<Rightarrow> ('p, 'h) live_components \<Rightarrow> ('p, 'h) live_components" where
  "live_apply L ae snap l = (case Apply L (ae\<lparr>ae_cur := snap\<rparr>) snap l of None \<Rightarrow> l | Some l' \<Rightarrow> l')"

text \<open>
  C14: what is saved is what runs. A save that reports an error changes nothing. One that reports none leaves the query allow-list, the resolvers, the
  cache's limits, the logging, the answers' lifetime, the reverse zones, the private zone of the authority and of the registry, the health
  checks and the lease source as the build of the saved settings has them; a DHCP listener runs exactly when they ask for one, unless it
  reports why not; no answer survives in the cache from other resolvers or under another zone; and the zone served is the build of the
  stored rows under the new zone, or, when that fails, the one served before.
\<close>

theorem saved_settings_run:
  assumes "live_ok (se_live s)" and "Fqdn_ok (lib_Fqdn L)" and "plain_domain (PrivateDomain v)"
  shows "case set_Set Ls i io rd (live_apply L ae) False v c s of
      (Some e, s') \<Rightarrow> s' = s
    | (None, s') \<Rightarrow> \<exists>snap. set_Build Ls i (Canonicalize v) = Inr snap \<and> se_cur s' = Some snap \<and>
        (let l = se_live s; l' = se_live s'; d' = lc_dhcp l'
         in live_ok l' \<and> dns_configured snap l' \<and> source_configured (Canonicalize v) d' \<and> cached l' = kept_answers (Canonicalize v) l \<and>
            (\<not> dhcpWanted (Canonicalize v) (ae_role ae) \<longrightarrow> dr_running d' = None) \<and>
            (dhcpWanted (Canonicalize v) (ae_role ae) \<and> dr_lastError d' = None \<longrightarrow> (\<exists>li. dr_running d' = Some li \<and> runs (Canonicalize v) li)) \<and>
            Current (sv_holder (lc_srv l')) =
              (case zone_build (zone_source L (ae\<lparr>ae_cur := snap\<rparr>) d') (sv_holder (lc_srv l)) of
                 Inl e \<Rightarrow> Current (sv_holder (lc_srv l)) | Inr z \<Rightarrow> Some z))"
proof (cases "fst (set_Set Ls i io rd (live_apply L ae) False v c s)")
  case (Some e)
  then show ?thesis using set_Set_primary [where L = Ls and i = i and io = io and rd = rd and onApply = "live_apply L ae" and v = v and c = c and s = s,
        OF prod.collapse [symmetric]] by (auto split: prod.splits)
next
  case None
  obtain s' where set: "set_Set Ls i io rd (live_apply L ae) False v c s = (None, s')" using None by (metis prod.collapse)
  then obtain snap where snap: "set_Build Ls i (Canonicalize v) = Inr snap" "se_cur s' = Some snap" "se_live s' = live_apply L ae snap (se_live s)"
    using set_Set_primary [OF set] by auto
  have raw: "ss_Raw snap = Canonicalize v" using set_Build_sel(1) [OF snap(1)] .
  then have plain: "plain_domain (PrivateDomain (ss_Raw snap))" using assms(3) by (simp add: Canonicalize_def)
  let ?ae = "ae\<lparr>ae_cur := snap\<rparr>"
  obtain l' d where a: "Apply L ?ae snap (se_live s) = Some l'" "live_ok l'" "dns_configured snap l'" "cached l' = kept_answers (ss_Raw snap) (se_live s)"
      "lc_dhcp l' = apply_source (ss_Raw snap) d"
      "d = Reconcile (ae_host ?ae) (ss_Raw snap) (ae_role ?ae) (ae_svcs ?ae) (ae_again ?ae) (lc_dhcp (se_live s))" "dr_inv d"
      "sv_holder (lc_srv l') = snd (Rebuild (zone_source L ?ae (lc_dhcp l')) (sv_holder (lc_srv (se_live s))))"
    by (rule Apply_works [OF assms(1,2) plain])
  have live: "se_live s' = l'" using snap(3) a(1) by (simp add: live_apply_def)
  have "dr_inv (lc_dhcp (se_live s))" using assms(1) by (simp add: live_ok_def)
  from Reconcile_settles [OF this refl, where he = "ae_host ae" and v = "Canonicalize v" and r = "ae_role ae" and svcs = "ae_svcs ae" and again = "ae_again ae"]
  have d: "\<not> dhcpWanted (Canonicalize v) (ae_role ae) \<Longrightarrow> dr_running d = None"
      "dhcpWanted (Canonicalize v) (ae_role ae) \<Longrightarrow> dr_lastError d = None \<Longrightarrow> dr_running d \<noteq> None \<and> dhcpConfigEqual (dr_current d) (Canonicalize v)"
    using a(6) raw by simp_all
  have runs: "\<exists>li. dr_running d = Some li \<and> runs (Canonicalize v) li" if "dhcpWanted (Canonicalize v) (ae_role ae)" "dr_lastError d = None"
    using d(2) [OF that] a(7) runs_compared by (auto simp: dr_inv_def split: option.splits)
  have cur: "Current (sv_holder (lc_srv l')) = (case zone_build (zone_source L ?ae (lc_dhcp l')) (sv_holder (lc_srv (se_live s))) of
      Inl e \<Rightarrow> Current (sv_holder (lc_srv (se_live s))) | Inr z \<Rightarrow> Some z)"
    unfolding a(8) by (simp add: zh.rebuild_fails zh.rebuild_builds split: sum.split)
  note src = apply_source_works [OF a(7), of "ss_Raw snap", folded a(5), unfolded raw]
  show ?thesis using snap(1,2) a(2,3) a(4) [unfolded raw] d(1) runs cur src by (simp add: set Let_def live)
qed

text \<open>
  Applying the same settings again disturbs nothing. The DHCP listener, when there is one and no error was reported, is the same listener with the same
  leases, and the cache keeps every answer it holds.
\<close>

theorem unchanged_settings_disturb_nothing:
  assumes "live_ok l" and "Fqdn_ok (lib_Fqdn L)" and "plain_domain (PrivateDomain (ss_Raw s))" and "Apply L ae s l = Some l1"
    and "dr_lastError (lc_dhcp l1) = None" and "ae_role ae' = ae_role ae"
  shows "\<exists>l2. Apply L ae' s l1 = Some l2 \<and> serving (lc_dhcp l2) = serving (lc_dhcp l1) \<and> cached l2 = cached l1"
proof -
  let ?v = "ss_Raw s" and ?r = "ae_role ae"
  obtain l1' d1 where a: "Apply L ae s l = Some l1'" "live_ok l1'" "dns_configured s l1'" "lc_dhcp l1' = apply_source ?v d1"
      "d1 = Reconcile (ae_host ae) ?v ?r (ae_svcs ae) (ae_again ae) (lc_dhcp l)" "dr_inv d1"
    by (rule Apply_works [OF assms(1-3), of ae])
  have l1': "l1' = l1" using a(1) assms(4) by simp
  obtain l2 d2 where b: "Apply L ae' s l1 = Some l2" "cached l2 = kept_answers ?v l1" "lc_dhcp l2 = apply_source ?v d2"
      "d2 = Reconcile (ae_host ae') ?v (ae_role ae') (ae_svcs ae') (ae_again ae') (lc_dhcp l1)" "dr_inv d2"
    by (rule Apply_works [OF a(2)[unfolded l1'] assms(2,3), of ae'])
  have "length (cached l1) \<le> nat (max 1 (CacheEntries ?v))"
    using a(3) unfolding l1' by (auto simp: dns_configured_def cache_configured_def cached_def Let_def Len_def length_recent nat_le_iff split: option.splits)
  moreover have "\<not> zoneChanged (au_Zone (sv_auth (lc_srv l1))) (PrivateDomain ?v)" "lc_prev l1 = Upstreams ?v"
    using a(3) unfolding l1' by (simp_all add: dns_configured_def Let_def zoneChanged_def)
  ultimately have cache: "cached l2 = cached l1" using b(2) by (simp add: kept_answers_def)
  have serve: "serving (apply_source v d) = serving d" for v d by (simp add: serving_def apply_source_def Let_def)
  note src = apply_source_works [OF a(6), of ?v, folded a(4), unfolded l1']
  have inv: "dr_inv (lc_dhcp l)" using assms(1) by (simp add: live_ok_def)
  note set = Reconcile_settles [OF inv a(5)]
  have "serving d2 = serving (lc_dhcp l1)"
  proof (cases "dhcpWanted ?v ?r")
    case True
    then have "dr_running (lc_dhcp l1) \<noteq> None" "dhcpConfigEqual (dr_current (lc_dhcp l1)) ?v" using set src(3,4,5) assms(5) by simp_all
    then show ?thesis using True assms(6) Refresh_frame(1) by (simp add: b(4) Reconcile_def reconcile_def serving_def [of "_\<lparr>dr_current := _, dr_lastError := _\<rparr>"]) (simp add: serving_def)
  next
    case False
    then have "dr_running (lc_dhcp l1) = None" using set src(3) by simp
    moreover have "serving d2 = None" using False assms(6) Refresh_frame(1) by (simp add: b(4) Reconcile_def reconcile_def serving_def [of "_\<lparr>dr_current := _, dr_lastError := _\<rparr>"])
    ultimately show ?thesis by (simp add: serving_def)
  qed
  then show ?thesis using b(1,3) cache serve by simp
qed

text \<open>
  The rules for settings bound the periods and lifetimes from below only. A period is multiplied into nanoseconds of 64 bits and a
  lifetime cut to 32 bits, so a large value that the rules accept runs as a small or negative one: here a health
  timeout of nearly three centuries as one that has passed already, and a lifetime of \<open>2 ^ 32\<close> seconds as none.
\<close>

lemma large_settings_wrap: "seconds 9223372037 < 0" "seconds 9223372038 < 0" "(word_of_int (2 ^ 32) :: 32 word) = 0"
  by (simp_all add: seconds_def word_of_int_eq_iff take_bit_eq_mod)

section \<open>Witnesses\<close>

definition lan_live :: "(unit, unit) live_components" where
  "lan_live = \<lparr>lc_srv = New NewHolder (NewACL []) (NewAuthoritative plain_lib ''lan'' 60 []) (Some (NewForwarder [] (NewCache 10 0 86400 300))) None False False,
     lc_checker = NewChecker 30000000000 5000000000 2, lc_reg = registry_New (db_reg fresh_db) fresh_local ''lan'' (), lc_dhcp = new_runner (NewPoller None 30) [],
     lc_prev = [''1.1.1.1'']\<rparr>"

definition lan_env :: apply_env where
  "lan_env = \<lparr>ae_host = home_host, ae_role = RoleStandalone, ae_svcs = Inr [], ae_again = Inr [], ae_tables = db_reg fresh_db, ae_cur = SettingsSafety.home_snapshot\<rparr>"

lemma lan_live_ok: "live_ok lan_live"
proof -
  have "cache_ok (NewCache 10 0 86400 300)" by (rule NewCache_ok) simp
  moreover have "ZoneSuffix (rg_zone (lc_reg lan_live)) = ZoneSuffix (au_Zone (sv_auth (lc_srv lan_live)))" by code_simp
  moreover have "dr_inv (new_runner (NewPoller None 30) [])" by (rule new_runner_inv) code_simp
  ultimately show ?thesis unfolding live_ok_def server_ok_def by (simp add: lan_live_def New_def SetLogging_def NewForwarder_def fw_Replace_def)
qed

lemma plain_Fqdn_ok: "Fqdn_ok (lib_Fqdn plain_lib)"
  using plain_lib_ok by (simp add: dnslib_ok_def)

theorem saved_settings_run_witness:
  "case set_Set home_lib 0 None None (live_apply plain_lib lan_env) False home_settings ''1.2.3.0/24'' \<lparr>se_db = fresh_db, se_cur = None, se_live = lan_live\<rparr> of
      (Some e, s') \<Rightarrow> False
    | (None, s') \<Rightarrow> acl_allowed (sv_acl (lc_srv (se_live s'))) = [Prefix (Addr4 0x0A000000) 8, Prefix (Addr4 0x01020300) 24] \<and>
        ZoneSuffix (rg_zone (lc_reg (se_live s'))) = ''home.arpa.'' \<and> cached (se_live s') = []"
proof -
  let ?s = "\<lparr>se_db = fresh_db, se_cur = None, se_live = lan_live\<rparr>"
  have v: "ValidateWrite home_lib home_settings blank_settings ''1.2.3.0/24'' = None" by code_simp
  have b: "set_Build home_lib 0 (Canonicalize home_settings) = Inr SettingsSafety.home_snapshot" by code_simp
  have p: "persist None blank_settings (Canonicalize home_settings) fresh_db = Inr (putSettings (Canonicalize home_settings) fresh_db)"
    by (simp add: persist_def blank_settings_def ZoneSuffix_def TrimDots_def TrimSpace_def ToLower_def PutSettings_def run_tx_def)
  obtain s' where set: "set_Set home_lib 0 None None (live_apply plain_lib lan_env) False home_settings ''1.2.3.0/24'' ?s = (None, s')"
    using v b p by (simp add: set_Set_def Let_def running_def)
  have plain: "plain_domain (PrivateDomain home_settings)" by code_simp
  have ok: "live_ok (se_live ?s)" using lan_live_ok by simp
  from saved_settings_run [OF ok plain_Fqdn_ok plain, where Ls = home_lib and i = 0 and io = None and rd = None and ae = lan_env and c = "''1.2.3.0/24''"] b
  have "dns_configured SettingsSafety.home_snapshot (se_live s')" "cached (se_live s') = kept_answers (Canonicalize home_settings) lan_live"
    unfolding set by (simp_all add: Let_def)
  moreover have "map Masked (ss_AllowQuery SettingsSafety.home_snapshot) = [Prefix (Addr4 0x0A000000) 8, Prefix (Addr4 0x01020300) 24]"
    "ZoneSuffix (PrivateDomain (ss_Raw SettingsSafety.home_snapshot)) = ''home.arpa.''" by code_simp+
  moreover have "lc_prev lan_live \<noteq> Upstreams (Canonicalize home_settings)" by code_simp
  ultimately show ?thesis unfolding set by (simp add: dns_configured_def Let_def kept_answers_def)
qed

theorem unchanged_settings_disturb_nothing_witness:
  "\<exists>l1 l2. Apply plain_lib lan_env SettingsSafety.home_snapshot lan_live = Some l1 \<and> Apply plain_lib lan_env SettingsSafety.home_snapshot l1 = Some l2 \<and>
     serving (lc_dhcp l2) = serving (lc_dhcp l1)"
proof -
  have plain: "plain_domain (PrivateDomain (ss_Raw SettingsSafety.home_snapshot))" by code_simp
  obtain l1 d where a: "Apply plain_lib lan_env SettingsSafety.home_snapshot lan_live = Some l1" "lc_dhcp l1 = apply_source (ss_Raw SettingsSafety.home_snapshot) d"
      "d = Reconcile (ae_host lan_env) (ss_Raw SettingsSafety.home_snapshot) (ae_role lan_env) (ae_svcs lan_env) (ae_again lan_env) (lc_dhcp lan_live)" "dr_inv d"
    by (rule Apply_works [OF lan_live_ok plain_Fqdn_ok plain])
  have "dr_lastError (Reconcile (ae_host lan_env) (ss_Raw SettingsSafety.home_snapshot) (ae_role lan_env) (ae_svcs lan_env) (ae_again lan_env) (lc_dhcp lan_live)) = None"
    by code_simp
  then have "dr_lastError (lc_dhcp l1) = None" using a(2,3) apply_source_works(4) [OF a(4)] by simp
  from unchanged_settings_disturb_nothing [OF lan_live_ok plain_Fqdn_ok plain a(1) this refl] a(1) show ?thesis by blast
qed

end
