(* ===== verification/WebAuth.thy ===== *)
theory WebAuth
  imports StoreLocal Netip
begin

text \<open>
  Who gets in: sessions and the login backoff (\<^verbatim>\<open>internal/auth/session.go\<close>, \<^verbatim>\<open>password.go\<close>), the claims of an identity
  provider (\<^verbatim>\<open>internal/auth/sso.go\<close>), and the web listener's gates and sign-in handlers (\<^verbatim>\<open>internal/web/middleware.go\<close>,
  \<^verbatim>\<open>auth_handlers.go\<close>, the routes of \<^verbatim>\<open>pages.go\<close>).

  The screens behind the gates are an argument, any function of the request on the node's tables and on the rest of the node's state; what they
  render is opaque. The password hash, the identity provider, the random strings and the failures of single statements come with each
  request. One request reads the clock once.
\<close>

section \<open>Sessions\<close>

definition CookieName :: string where
  "CookieName = ''kydns_session''"

record session =
  sn_ID :: string
  sn_CSRF :: string
  sn_Created :: int
  sn_LastSeen :: int

record sessions =
  sn_byID :: "(string, session) gomap"
  sn_idle :: int
  sn_absolute :: int

definition NewSessions :: "int \<Rightarrow> int \<Rightarrow> sessions" where
  "NewSessions idle absolute = \<lparr>sn_byID = [], sn_idle = idle, sn_absolute = absolute\<rparr>"

text \<open>\<^verbatim>\<open>Time.Sub\<close>: a difference that does not fit a \<^verbatim>\<open>Duration\<close> is the nearest that does.\<close>

definition time_Sub :: "int \<Rightarrow> int \<Rightarrow> int" where
  "time_Sub t u = max (- (2 ^ 63)) (min (2 ^ 63 - 1) (t - u))"

definition sn_Create :: "int \<Rightarrow> string \<Rightarrow> string \<Rightarrow> sessions \<Rightarrow> session \<times> sessions" where
  "sn_Create now i csrf s =
     (let sess = \<lparr>sn_ID = i, sn_CSRF = csrf, sn_Created = now, sn_LastSeen = now\<rparr> in (sess, s\<lparr>sn_byID := m_put i sess (sn_byID s)\<rparr>))"

definition sn_Get :: "int \<Rightarrow> string \<Rightarrow> sessions \<Rightarrow> session option \<times> sessions" where
  "sn_Get now i s =
     (case m_get (sn_byID s) i of
        None \<Rightarrow> (None, s)
      | Some sess \<Rightarrow>
          if sn_idle s < time_Sub now (sn_LastSeen sess) \<or> sn_absolute s < time_Sub now (sn_Created sess)
          then (None, s\<lparr>sn_byID := m_del i (sn_byID s)\<rparr>)
          else let sess = sess\<lparr>sn_LastSeen := now\<rparr> in (Some sess, s\<lparr>sn_byID := m_put i sess (sn_byID s)\<rparr>))"

definition sn_Destroy :: "string \<Rightarrow> sessions \<Rightarrow> sessions" where
  "sn_Destroy i s = s\<lparr>sn_byID := m_del i (sn_byID s)\<rparr>"

definition ValidCSRF :: "int \<Rightarrow> string \<Rightarrow> string \<Rightarrow> sessions \<Rightarrow> bool \<times> sessions" where
  "ValidCSRF now i tok s =
     (case sn_Get now i s of
        (None, s) \<Rightarrow> (False, s)
      | (Some sess, s) \<Rightarrow> (tok \<noteq> [] \<and> sn_CSRF sess = tok, s))"

section \<open>Backoff\<close>

text \<open>Durations are 64 signed bits, in nanoseconds.\<close>

definition backoffBase :: "64 word" where
  "backoffBase = 100000000"

definition backoffCap :: "64 word" where
  "backoffCap = 30000000000"

definition backoffMaxShift :: nat where
  "backoffMaxShift = 18"

definition bo_Delay :: "(string, nat) gomap \<Rightarrow> string \<Rightarrow> 64 word" where
  "bo_Delay b key =
     (let n = (case m_get b key of None \<Rightarrow> 0 | Some n \<Rightarrow> n)
      in if n = 0 then 0
         else if n > backoffMaxShift then backoffCap
         else let d = push_bit (n - 1) backoffBase in if sint backoffCap < sint d then backoffCap else d)"

definition bo_Fail :: "string \<Rightarrow> (string, nat) gomap \<Rightarrow> (string, nat) gomap" where
  "bo_Fail key b = m_put key (Suc (case m_get b key of None \<Rightarrow> 0 | Some n \<Rightarrow> n)) b"

definition bo_Reset :: "string \<Rightarrow> (string, nat) gomap \<Rightarrow> (string, nat) gomap" where
  "bo_Reset key b = m_del key b"

section \<open>Claims\<close>

text \<open>A decoded JSON value; numbers and the like are \<open>COther\<close>.\<close>

datatype claim = CStr string | CArr "claim list" | CObj "(string \<times> claim) list" | COther

record claims =
  cl_Sub :: string
  cl_Username :: string
  cl_PreferredUsername :: string
  cl_Email :: string
  cl_DisplayName :: string
  cl_Role :: string
  cl_Roles :: "string list"
  cl_Groups :: "string list"
  cl_Issuer :: string

definition EqualFold :: "string \<Rightarrow> string \<Rightarrow> bool" where
  "EqualFold a b = (ToLower a = ToLower b)"

definition IsAdmin :: "claims \<Rightarrow> bool" where
  "IsAdmin c = (EqualFold (cl_Role c) ''admin'' \<or> EqualFold (cl_Role c) ''administrator'' \<or>
     list_ex (\<lambda>g. ToLower (TrimSpace g) \<in> {''admin'', ''admins'', ''kydns_admin'', ''kydns-admin'', ''kydns_admins'', ''authentik default admins''})
       (cl_Groups c) \<or>
     list_ex (\<lambda>r. ToLower (TrimSpace r) \<in> {''admin'', ''administrator'', ''kydns_admin''}) (cl_Roles c))"

definition claim_str :: "(string, claim) gomap \<Rightarrow> string \<Rightarrow> string" where
  "claim_str m k = (case m_get m k of Some (CStr s) \<Rightarrow> s | _ \<Rightarrow> [])"

definition as_str :: "claim \<Rightarrow> string option" where
  "as_str c = (case c of CStr s \<Rightarrow> Some s | _ \<Rightarrow> None)"

definition extractStrings :: "claim option \<Rightarrow> string list" where
  "extractStrings v =
     (case v of
        Some (CArr xs) \<Rightarrow> List.map_filter as_str xs
      | Some (CStr s) \<Rightarrow> filter (\<lambda>x. x \<noteq> []) (map TrimSpace (Split s CHR '',''))
      | _ \<Rightarrow> [])"

definition realm_roles :: "(string, claim) gomap \<Rightarrow> claim option" where
  "realm_roles m = (case m_get m ''realm_access'' of Some (CObj ra) \<Rightarrow> m_get ra ''roles'' | _ \<Rightarrow> None)"

definition parseClaimsMap :: "(string, claim) gomap \<Rightarrow> claims" where
  "parseClaimsMap m =
     (let user = claim_str m ''username''; pref = claim_str m ''preferred_username''; email = claim_str m ''email'';
          user = (if user = [] \<and> pref \<noteq> [] then pref else user);
          user = (if user = [] \<and> email \<noteq> [] then email else user)
      in \<lparr>cl_Sub = claim_str m ''sub'', cl_Username = user, cl_PreferredUsername = pref, cl_Email = email,
          cl_DisplayName = claim_str m ''name'', cl_Role = claim_str m ''role'',
          cl_Roles = extractStrings (m_get m ''roles'') @ extractStrings (realm_roles m),
          cl_Groups = extractStrings (m_get m ''groups'') @ extractStrings (m_get m ''ak_groups''),
          cl_Issuer = claim_str m ''iss''\<rparr>)"

text \<open>
  What the OIDC and OAuth libraries answer: discovery or the exchange fails, the response has no ID token or one that does not verify, or a
  verified token with its nonce, subject and claims; then the user info, when it can be read.
\<close>

record id_token =
  it_Nonce :: string
  it_Subject :: string
  it_Claims :: "(string, claim) gomap option"

record user_info =
  ui_Subject :: string
  ui_Claims :: "(string, claim) gomap option"

datatype sso_error = DiscoverFailed | ExchangeFailed | NoIDToken | VerifyFailed | NonceMismatch | ClaimsUndecodable | SubjectEmpty | SubjectMismatch

record idp =
  ip_exchange :: "string \<Rightarrow> string \<Rightarrow> (sso_error, id_token) result"
  ip_userinfo :: "string \<Rightarrow> user_info option"

definition ExchangeCode :: "idp \<Rightarrow> string \<Rightarrow> string \<Rightarrow> string \<Rightarrow> (sso_error, claims) result" where
  "ExchangeCode p code verifier nonce =
     (case ip_exchange p code verifier of
        Inl e \<Rightarrow> Inl e
      | Inr tok \<Rightarrow>
          if nonce = [] \<or> it_Nonce tok \<noteq> nonce then Inl NonceMismatch
          else case it_Claims tok of
              None \<Rightarrow> Inl ClaimsUndecodable
            | Some raw \<Rightarrow>
                if it_Subject tok = [] then Inl SubjectEmpty
                else (case ip_userinfo p code of
                        None \<Rightarrow> Inr (parseClaimsMap raw)
                      | Some ui \<Rightarrow>
                          if ui_Subject ui \<noteq> it_Subject tok then Inl SubjectMismatch
                          else (case ui_Claims ui of
                                  None \<Rightarrow> Inr (parseClaimsMap raw)
                                | Some uc \<Rightarrow> Inr (parseClaimsMap (fold (\<lambda>(k, v) m. m_put k v m) uc raw)))))"

section \<open>Requests\<close>

record wreq =
  rq_method :: string
  rq_path :: string
  rq_cookies :: "(string, string) gomap"
  rq_query :: "(string, string) gomap"
  rq_form :: "(string, string) gomap option"
  rq_remote :: string

record wenv =
  we_now :: int
  we_id :: string
  we_csrf :: string
  we_state :: string
  we_nonce :: string
  we_verifier :: string
  we_rand_fails :: bool
  we_hasadmin_fails :: bool
  we_admin_fails :: bool
  we_sso_fails :: bool
  we_write :: "string option"
  we_sso_write :: "string option"
  we_hash :: "string \<Rightarrow> (string, string) result"
  we_verify :: "string \<Rightarrow> string \<Rightarrow> bool"
  we_idp :: "sso_settings \<Rightarrow> idp"
  we_replica :: bool

datatype 'r wresp =
    Redirect string "(string \<times> string) list"
  | ToIdP "(string \<times> string) list"
  | Plain nat "(string \<times> string) list"
  | Rendered 'r

record 'a wstate =
  w_local :: ltables
  w_sessions :: sessions
  w_backoff :: "(string, nat) gomap"
  w_rest :: 'a

type_synonym ('r, 'a) screens = "wreq \<Rightarrow> ltables \<times> 'a \<Rightarrow> 'r \<times> ltables \<times> 'a"

definition FormValue :: "wreq \<Rightarrow> string \<Rightarrow> string" where
  "FormValue rq k = (case rq_form rq of None \<Rightarrow> [] | Some f \<Rightarrow> (case m_get f k of None \<Rightarrow> [] | Some v \<Rightarrow> v))"

definition QueryValue :: "wreq \<Rightarrow> string \<Rightarrow> string" where
  "QueryValue rq k = (case m_get (rq_query rq) k of None \<Rightarrow> [] | Some v \<Rightarrow> v)"

definition sourceKey :: "wreq \<Rightarrow> string" where
  "sourceKey rq = (case SplitHostPort (rq_remote rq) of None \<Rightarrow> rq_remote rq | Some (host, _) \<Rightarrow> host)"

section \<open>Gates\<close>

definition hasAdmin :: "wenv \<Rightarrow> 'a wstate \<Rightarrow> bool" where
  "hasAdmin e s = (\<not> we_hasadmin_fails e \<and> HasAdmin (w_local s))"

definition web_session :: "wenv \<Rightarrow> wreq \<Rightarrow> 'a wstate \<Rightarrow> session option \<times> 'a wstate" where
  "web_session e rq s =
     (case m_get (rq_cookies rq) CookieName of
        None \<Rightarrow> (None, s)
      | Some c \<Rightarrow> (let (o', ss) = sn_Get (we_now e) c (w_sessions s) in (o', s\<lparr>w_sessions := ss\<rparr>)))"

definition requireSetup :: "wenv \<Rightarrow> ('a wstate \<Rightarrow> 'r wresp \<times> 'a wstate) \<Rightarrow> 'a wstate \<Rightarrow> 'r wresp \<times> 'a wstate" where
  "requireSetup e next s = (if \<not> hasAdmin e s then (Redirect ''/setup'' [], s) else next s)"

definition requireSession :: "wenv \<Rightarrow> wreq \<Rightarrow> ('a wstate \<Rightarrow> 'r wresp \<times> 'a wstate) \<Rightarrow> 'a wstate \<Rightarrow> 'r wresp \<times> 'a wstate" where
  "requireSession e rq next = requireSetup e (\<lambda>s.
     (case web_session e rq s of (None, s) \<Rightarrow> (Redirect ''/login'' [], s) | (Some _, s) \<Rightarrow> next s))"

definition requireSessionJSON :: "wenv \<Rightarrow> wreq \<Rightarrow> ('a wstate \<Rightarrow> 'r wresp \<times> 'a wstate) \<Rightarrow> 'a wstate \<Rightarrow> 'r wresp \<times> 'a wstate" where
  "requireSessionJSON e rq next s =
     (case web_session e rq s of (None, s) \<Rightarrow> (Plain 401 [], s) | (Some _, s) \<Rightarrow> next s)"

definition requireCSRF :: "wenv \<Rightarrow> wreq \<Rightarrow> ('a wstate \<Rightarrow> 'r wresp \<times> 'a wstate) \<Rightarrow> 'a wstate \<Rightarrow> 'r wresp \<times> 'a wstate" where
  "requireCSRF e rq next = requireSetup e (\<lambda>s.
     (case web_session e rq s of
        (None, s) \<Rightarrow> (Redirect ''/login'' [], s)
      | (Some sess, s) \<Rightarrow>
          if rq_form rq = None then (Plain 400 [], s)
          else let (ok, ss) = ValidCSRF (we_now e) (sn_ID sess) (FormValue rq ''csrf_token'') (w_sessions s);
                   s = s\<lparr>w_sessions := ss\<rparr>
               in if ok then next s else (Plain 403 [], s)))"

section \<open>Signing in and out\<close>

definition MinPasswordLen :: nat where
  "MinPasswordLen = 12"

definition setSessionCookie :: "session \<Rightarrow> string \<times> string" where
  "setSessionCookie sess = (CookieName, sn_ID sess)"

definition sign_in :: "wenv \<Rightarrow> 'a wstate \<Rightarrow> 'r wresp \<times> 'a wstate" where
  "sign_in e s =
     (let (sess, ss) = sn_Create (we_now e) (we_id e) (we_csrf e) (w_sessions s)
      in (Redirect ''/'' [setSessionCookie sess], s\<lparr>w_sessions := ss\<rparr>))"

definition we_unix :: "wenv \<Rightarrow> int" where
  "we_unix e = we_now e div 1000000000"

definition getSetup :: "wenv \<Rightarrow> 'a wstate \<Rightarrow> 'r wresp \<times> 'a wstate" where
  "getSetup e s = (if hasAdmin e s then (Redirect ''/login'' [], s) else (Plain 200 [], s))"

definition postSetup :: "string \<Rightarrow> wenv \<Rightarrow> wreq \<Rightarrow> 'a wstate \<Rightarrow> 'r wresp \<times> 'a wstate" where
  "postSetup SetupToken e rq s =
     (if hasAdmin e s then (Redirect ''/login'' [], s)
      else if rq_form rq = None then (Plain 400 [], s)
      else if FormValue rq ''token'' \<noteq> SetupToken then (Plain 400 [], s)
      else if length (FormValue rq ''password'') < MinPasswordLen then (Plain 400 [], s)
      else if FormValue rq ''password'' \<noteq> FormValue rq ''confirm'' then (Plain 400 [], s)
      else case we_hash e (FormValue rq ''password'') of
          Inl _ \<Rightarrow> (Plain 400 [], s)
        | Inr hash \<Rightarrow>
            (case SetAdminPassword (we_write e) (we_unix e) hash (w_local s) of
               Inl _ \<Rightarrow> (Plain 400 [], s)
             | Inr t \<Rightarrow> sign_in e (s\<lparr>w_local := t\<rparr>)))"

definition getLogin :: "wenv \<Rightarrow> wreq \<Rightarrow> 'a wstate \<Rightarrow> 'r wresp \<times> 'a wstate" where
  "getLogin e rq s = (case web_session e rq s of (Some _, s) \<Rightarrow> (Redirect ''/'' [], s) | (None, s) \<Rightarrow> (Plain 200 [], s))"

definition read_hash :: "wenv \<Rightarrow> 'a wstate \<Rightarrow> string option" where
  "read_hash e s = (if we_admin_fails e then None else case AdminHash (w_local s) of Inl _ \<Rightarrow> None | Inr h \<Rightarrow> Some h)"

definition postLogin :: "wenv \<Rightarrow> wreq \<Rightarrow> 'a wstate \<Rightarrow> 'r wresp \<times> 'a wstate" where
  "postLogin e rq s =
     (if rq_form rq = None then (Plain 400 [], s)
      else let key = sourceKey rq
           in if (case read_hash e s of None \<Rightarrow> False | Some hash \<Rightarrow> we_verify e hash (FormValue rq ''password''))
              then sign_in e (s\<lparr>w_backoff := bo_Reset key (w_backoff s)\<rparr>)
              else (Plain 401 [], s\<lparr>w_backoff := bo_Fail key (w_backoff s)\<rparr>))"

definition postLogout :: "wreq \<Rightarrow> 'a wstate \<Rightarrow> 'r wresp \<times> 'a wstate" where
  "postLogout rq s =
     (Redirect ''/login'' [(CookieName, [])],
      (case m_get (rq_cookies rq) CookieName of None \<Rightarrow> s | Some c \<Rightarrow> s\<lparr>w_sessions := sn_Destroy c (w_sessions s)\<rparr>))"

section \<open>Single sign-on\<close>

definition read_ident :: "wenv \<Rightarrow> 'a wstate \<Rightarrow> admin_identity option" where
  "read_ident e s = (if we_admin_fails e then None else case AdminIdentity (w_local s) of Inl _ \<Rightarrow> None | Inr a \<Rightarrow> Some a)"

definition linked_sub :: "wenv \<Rightarrow> 'a wstate \<Rightarrow> string" where
  "linked_sub e s = (case read_ident e s of None \<Rightarrow> [] | Some a \<Rightarrow> ad_SSOSub a)"

definition sso_cookies :: "string list" where
  "sso_cookies = [''kydns_sso_state'', ''kydns_sso_verifier'', ''kydns_sso_nonce'', ''kydns_sso_link'']"

definition clearSSOCookies :: "(string \<times> string) list" where
  "clearSSOCookies = map (\<lambda>c. (c, [])) sso_cookies"

definition getSSOLogin :: "wenv \<Rightarrow> wreq \<Rightarrow> 'a wstate \<Rightarrow> 'r wresp \<times> 'a wstate" where
  "getSSOLogin e rq s =
     (let isLink = (QueryValue rq ''link'' = ''true'')
      in if we_sso_fails e \<or> \<not> (sso_Enabled (SSOSettings (w_local s)) \<or> linked_sub e s \<noteq> [] \<or> isLink)
         then (Redirect ''/login?error=SSO+is+not+enabled'' [], s)
         else if we_rand_fails e then (Plain 500 [], s)
         else (ToIdP [(''kydns_sso_state'', we_state e), (''kydns_sso_verifier'', we_verifier e), (''kydns_sso_nonce'', we_nonce e),
                 (''kydns_sso_link'', if isLink then ''1'' else [])], s))"

definition cookie :: "wreq \<Rightarrow> string \<Rightarrow> string" where
  "cookie rq n = (case m_get (rq_cookies rq) n of None \<Rightarrow> [] | Some v \<Rightarrow> v)"

text \<open>Errors of these two writes are dropped when an identity is linked by signing in.\<close>

definition autolink :: "wenv \<Rightarrow> claims \<Rightarrow> ltables \<Rightarrow> ltables" where
  "autolink e c t =
     (let sso = SSOSettings t;
          t = (case LinkAdminSSO (we_write e) (we_unix e) (cl_Sub c) (cl_Username c) (cl_Email c) t of Inl _ \<Rightarrow> t | Inr t \<Rightarrow> t)
      in case SetSSOSettings (we_sso_write e) (sso\<lparr>sso_Enabled := True\<rparr>) t of Inl _ \<Rightarrow> t | Inr t \<Rightarrow> t)"

definition link_identity :: "wenv \<Rightarrow> wreq \<Rightarrow> claims \<Rightarrow> 'a wstate \<Rightarrow> 'r wresp \<times> 'a wstate" where
  "link_identity e rq c s =
     (case web_session e rq s of
        (None, s) \<Rightarrow> (Redirect ''/login?error=Session+expired+during+linking'' clearSSOCookies, s)
      | (Some _, s) \<Rightarrow>
          (case LinkAdminSSO (we_write e) (we_unix e) (cl_Sub c) (cl_Username c) (cl_Email c) (w_local s) of
             Inl _ \<Rightarrow> (Redirect ''/settings?error=Failed+to+link+identity'' clearSSOCookies, s)
           | Inr t \<Rightarrow> (Redirect ''/settings'' clearSSOCookies,
               s\<lparr>w_local := (case SetSSOSettings (we_sso_write e) ((SSOSettings (w_local s))\<lparr>sso_Enabled := True\<rparr>) t of Inl _ \<Rightarrow> t | Inr t \<Rightarrow> t)\<rparr>)))"

definition getSSOCallback :: "wenv \<Rightarrow> wreq \<Rightarrow> 'a wstate \<Rightarrow> 'r wresp \<times> 'a wstate" where
  "getSSOCallback e rq s =
     (if cookie rq ''kydns_sso_state'' = [] \<or> cookie rq ''kydns_sso_state'' \<noteq> QueryValue rq ''state'' then (Plain 400 clearSSOCookies, s)
      else if cookie rq ''kydns_sso_verifier'' = [] then (Plain 400 clearSSOCookies, s)
      else if cookie rq ''kydns_sso_nonce'' = [] then (Plain 400 clearSSOCookies, s)
      else if we_sso_fails e then (Plain 500 clearSSOCookies, s)
      else case ExchangeCode (we_idp e (SSOSettings (w_local s))) (QueryValue rq ''code'') (cookie rq ''kydns_sso_verifier'')
                 (cookie rq ''kydns_sso_nonce'') of
          Inl _ \<Rightarrow> (Plain 401 clearSSOCookies, s)
        | Inr c \<Rightarrow>
            (case read_ident e s of
               None \<Rightarrow> (Plain 500 clearSSOCookies, s)
             | Some ident \<Rightarrow>
                 let isLink = (cookie rq ''kydns_sso_link'' = ''1'');
                     isAlreadyLinked = (ad_SSOSub ident \<noteq> [] \<and> ad_SSOSub ident = cl_Sub c)
                 in if \<not> isLink \<and> \<not> isAlreadyLinked \<and> \<not> IsAdmin c then (Plain 403 clearSSOCookies, s)
                    else if isLink then link_identity e rq c s
                    else if ad_SSOSub ident \<noteq> []
                    then (if ad_SSOSub ident \<noteq> cl_Sub c then (Plain 401 clearSSOCookies, s) else sign_in e s)
                    else sign_in e (s\<lparr>w_local := autolink e c (w_local s)\<rparr>)))"

definition postSSOSettings :: "wenv \<Rightarrow> wreq \<Rightarrow> 'a wstate \<Rightarrow> 'r wresp \<times> 'a wstate" where
  "postSSOSettings e rq s =
     (let issuer = TrimSpace (FormValue rq ''issuer_url''); client = TrimSpace (FormValue rq ''client_id'')
      in case SetSSOSettings (we_sso_write e)
                \<lparr>sso_Enabled = (FormValue rq ''enabled'' = ''1''), sso_IssuerURL = (if issuer = [] then ''https://auth.urlxl.com'' else issuer),
                 sso_ClientID = (if client = [] then ''kydns'' else client), sso_ClientSecret = TrimSpace (FormValue rq ''client_secret'')\<rparr> (w_local s) of
           Inl _ \<Rightarrow> (Plain 400 [], s)
         | Inr t \<Rightarrow> (Redirect ''/settings'' [], s\<lparr>w_local := t\<rparr>))"

definition postSSOUnlink :: "wenv \<Rightarrow> 'a wstate \<Rightarrow> 'r wresp \<times> 'a wstate" where
  "postSSOUnlink e s =
     (case UnlinkAdminSSO (we_write e) (we_unix e) (w_local s) of
        Inl _ \<Rightarrow> (Plain 400 [], s)
      | Inr t \<Rightarrow> (Redirect ''/settings'' [], s\<lparr>w_local := t\<rparr>))"

section \<open>Routes\<close>

text \<open>
  The routes of the web listener, for the paths the API does not own. The mux serves \<^verbatim>\<open>HEAD\<close> with the route of \<^verbatim>\<open>GET\<close>; the route \<^verbatim>\<open>GET /\<close> takes every
  path no other one takes, so the only requests without a route are those of another method.
\<close>

definition PathSetup :: string where "PathSetup = ''/setup''"

definition PathLogin :: string where "PathLogin = ''/login''"

definition PathLogout :: string where "PathLogout = ''/logout''"

definition PathPromote :: string where "PathPromote = ''/replication/promote''"

definition PathJoin :: string where "PathJoin = ''/replication/join''"

definition PathDHCPSettings :: string where "PathDHCPSettings = ''/dhcp/settings''"

definition PathDHCPSuggest :: string where "PathDHCPSuggest = ''/dhcp/suggest''"

definition webWriteExempt :: "string list" where
  "webWriteExempt = [PathSetup, PathLogin, PathLogout, PathPromote, PathJoin, PathDHCPSettings, PathDHCPSuggest]"

definition post_screens :: "string list" where
  "post_screens =
     [''/services/new'', ''/services/address'', ''/services/routing'', ''/services/delete'', ''/records/new'', ''/records/delete'',
      ''/discovered/promote'', PathDHCPSettings, PathDHCPSuggest, ''/dhcp/reserve'', ''/blacklists/toggle'', ''/blacklists/lists/new'',
      ''/blacklists/lists/toggle'', ''/blacklists/lists/delete'', ''/blacklists/refresh'', ''/blacklists/rules/new'', ''/blacklists/rules/delete'',
      ''/blacklists/test'', ''/replication/invite'', ''/replication/remove'', PathPromote, PathJoin, ''/settings/backup/pair'',
      ''/settings/backup/deposit'', ''/settings/backup/drill'', ''/settings/backup/pin-key'', ''/settings/backup/unpair'',
      ''/settings/backup/schedule'', ''/settings/server'', ''/settings/views/new'', ''/settings/views/delete'', ''/settings/tokens/new'',
      ''/settings/tokens/delete'', ''/settings/cache/flush'']"

definition screen :: "('r, 'a) screens \<Rightarrow> wreq \<Rightarrow> 'a wstate \<Rightarrow> 'r wresp \<times> 'a wstate" where
  "screen page rq s = (let (r, t, x) = page rq (w_local s, w_rest s) in (Rendered r, s\<lparr>w_local := t, w_rest := x\<rparr>))"

definition reads :: "wreq \<Rightarrow> bool" where
  "reads rq = (rq_method rq = ''GET'' \<or> rq_method rq = ''HEAD'')"

definition get_route :: "('r, 'a) screens \<Rightarrow> wenv \<Rightarrow> wreq \<Rightarrow> 'a wstate \<Rightarrow> 'r wresp \<times> 'a wstate" where
  "get_route page e rq =
     (let p = rq_path rq
      in if p = PathSetup then getSetup e
         else if p = PathLogin then requireSetup e (getLogin e rq)
         else if p = ''/auth/sso/login'' then getSSOLogin e rq
         else if p = ''/auth/sso/callback'' then getSSOCallback e rq
         else if p = ''/static'' then Pair (Redirect ''/static/'' [])
         else if HasPrefix p ''/static/'' \<or> p = ''/license'' then Pair (Plain 200 [])
         else if p = ''/stats.json'' \<or> p = ''/services/health.json'' then requireSessionJSON e rq (screen page rq)
         else requireSession e rq (screen page rq))"

definition post_route :: "string \<Rightarrow> ('r, 'a) screens \<Rightarrow> wenv \<Rightarrow> wreq \<Rightarrow> 'a wstate \<Rightarrow> 'r wresp \<times> 'a wstate" where
  "post_route tok page e rq =
     (let p = rq_path rq
      in if p = PathSetup then postSetup tok e rq
         else if p = PathLogin then requireSetup e (postLogin e rq)
         else if p = PathLogout then requireCSRF e rq (postLogout rq)
         else if p = ''/settings/sso'' then requireCSRF e rq (postSSOSettings e rq)
         else if p = ''/settings/sso/unlink'' then requireCSRF e rq (postSSOUnlink e)
         else if p \<in> set post_screens then requireCSRF e rq (screen page rq)
         else Pair (Plain 405 []))"

definition web_mux :: "string \<Rightarrow> ('r, 'a) screens \<Rightarrow> wenv \<Rightarrow> wreq \<Rightarrow> 'a wstate \<Rightarrow> 'r wresp \<times> 'a wstate" where
  "web_mux tok page e rq =
     (if reads rq then get_route page e rq else if rq_method rq = ''POST'' then post_route tok page e rq else Pair (Plain 405 []))"

definition PathPrefix :: string where
  "PathPrefix = ''/api/v1/''"

definition web_WriteGate :: "wenv \<Rightarrow> wreq \<Rightarrow> ('a wstate \<Rightarrow> 'r wresp \<times> 'a wstate) \<Rightarrow> 'a wstate \<Rightarrow> 'r wresp \<times> 'a wstate" where
  "web_WriteGate e rq next s =
     (if reads rq \<or> HasPrefix (rq_path rq) PathPrefix \<or> rq_path rq \<in> set webWriteExempt then next s
      else if \<not> we_replica e then next s
      else case web_session e rq s of (None, s) \<Rightarrow> next s | (Some _, s) \<Rightarrow> (Plain 409 [], s))"

definition web_serve :: "string \<Rightarrow> ('r, 'a) screens \<Rightarrow> wenv \<Rightarrow> wreq \<Rightarrow> 'a wstate \<Rightarrow> 'r wresp \<times> 'a wstate" where
  "web_serve tok page e rq = web_WriteGate e rq (web_mux tok page e rq)"

definition web_start :: "sessions \<Rightarrow> ltables \<Rightarrow> 'a \<Rightarrow> 'a wstate" where
  "web_start ss t x = \<lparr>w_local = t, w_sessions = ss, w_backoff = [], w_rest = x\<rparr>"

definition web_run :: "string \<Rightarrow> ('r, 'a) screens \<Rightarrow> (wenv \<times> wreq) list \<Rightarrow> 'a wstate \<Rightarrow> 'a wstate" where
  "web_run tok page evs = fold (\<lambda>(e, rq) s. snd (web_serve tok page e rq s)) evs"

section \<open>Backoff is bounded\<close>

text \<open>
  The wait before an answer doubles with every failure from a tenth of a second and stops at half a minute; no number of failures makes it
  wrap around. So it never shrinks while failures pile up, it is never a lockout, and it is gone after a good login.
\<close>

theorem backoff_doubles_to_its_cap:
  "sint (bo_Delay b key) = (case m_get b key of None \<Rightarrow> 0 | Some n \<Rightarrow> if n = 0 then 0 else min 30000000000 (100000000 * 2 ^ (n - 1))) \<and>
   sint (bo_Delay b key) \<le> sint (bo_Delay (bo_Fail key b) key) \<and>
   bo_Delay (bo_Reset key b) key = 0"
proof -
  have small: "sint (push_bit k (100000000 :: 64 word)) = 100000000 * 2 ^ k" if "k \<le> 17" for k
  proof -
    have "(2 :: int) ^ k \<le> 2 ^ 17" using that by (rule power_increasing) simp
    then have "signed_take_bit 63 (100000000 * 2 ^ k :: int) = 100000000 * 2 ^ k"
      by (intro signed_take_bit_int_eq_self) (simp_all add: order.trans [of _ 0])
    moreover have "push_bit k (100000000 :: 64 word) = word_of_int (100000000 * 2 ^ k)" by (simp add: push_bit_eq_mult)
    ultimately show ?thesis by (simp add: sint_sbintrunc' del: of_int_mult)
  qed
  have big: "(100000000 :: int) * 2 ^ k \<ge> 30000000000" if "k \<ge> 9" for k
  proof -
    have "(2 :: int) ^ 9 \<le> 2 ^ k" using that by (rule power_increasing) simp
    then show ?thesis by simp
  qed
  have delay: "sint (bo_Delay b key) = (case m_get b key of None \<Rightarrow> 0 | Some n \<Rightarrow> if n = 0 then 0 else min 30000000000 (100000000 * 2 ^ (n - 1)))" for b
    using big [of "_ - 1"] small [of "_ - 1"]
    by (auto simp: bo_Delay_def backoffMaxShift_def backoffBase_def backoffCap_def Let_def min_def split: option.split)
  have "min 30000000000 (100000000 * 2 ^ (n - 1)) \<le> min 30000000000 ((100000000 :: int) * 2 ^ n)" for n
    by (intro min.mono order.refl mult_left_mono power_increasing) simp_all
  then show ?thesis using delay [of b] delay [of "bo_Fail key b"] by (auto simp: bo_Fail_def bo_Reset_def bo_Delay_def split: option.split)
qed

section \<open>Where sessions come from\<close>

text \<open>What it takes to be given a session.\<close>

definition setup_login :: "string \<Rightarrow> wenv \<Rightarrow> wreq \<Rightarrow> 'a wstate \<Rightarrow> bool" where
  "setup_login tok e rq s = (rq_method rq = ''POST'' \<and> rq_path rq = PathSetup \<and> \<not> hasAdmin e s \<and> FormValue rq ''token'' = tok \<and>
     MinPasswordLen \<le> length (FormValue rq ''password''))"

definition password_login :: "wenv \<Rightarrow> wreq \<Rightarrow> 'a wstate \<Rightarrow> bool" where
  "password_login e rq s = (rq_method rq = ''POST'' \<and> rq_path rq = PathLogin \<and>
     (case read_hash e s of None \<Rightarrow> False | Some hash \<Rightarrow> we_verify e hash (FormValue rq ''password'')))"

definition sso_login :: "wenv \<Rightarrow> wreq \<Rightarrow> 'a wstate \<Rightarrow> bool" where
  "sso_login e rq s = (reads rq \<and> rq_path rq = ''/auth/sso/callback'' \<and> cookie rq ''kydns_sso_state'' \<noteq> [] \<and>
     cookie rq ''kydns_sso_state'' = QueryValue rq ''state'' \<and>
     (case ExchangeCode (we_idp e (SSOSettings (w_local s))) (QueryValue rq ''code'') (cookie rq ''kydns_sso_verifier'') (cookie rq ''kydns_sso_nonce'') of
        Inl _ \<Rightarrow> False
      | Inr c \<Rightarrow> (case read_ident e s of None \<Rightarrow> False
                  | Some ident \<Rightarrow> if ad_SSOSub ident = [] then IsAdmin c else ad_SSOSub ident = cl_Sub c)))"

definition signs_in :: "string \<Rightarrow> wenv \<Rightarrow> wreq \<Rightarrow> 'a wstate \<Rightarrow> bool" where
  "signs_in tok e rq s = (setup_login tok e rq s \<or> password_login e rq s \<or> sso_login e rq s)"

definition passes_CSRF :: "wenv \<Rightarrow> wreq \<Rightarrow> 'a wstate \<Rightarrow> bool" where
  "passes_CSRF e rq s = (fst (requireCSRF e rq (\<lambda>s. (Rendered (), s)) s) = Rendered ())"

definition logs_out :: "wenv \<Rightarrow> wreq \<Rightarrow> 'a wstate \<Rightarrow> bool" where
  "logs_out e rq s = (rq_method rq = ''POST'' \<and> rq_path rq = PathLogout \<and> passes_CSRF e rq s)"

definition sn_wf :: "sessions \<Rightarrow> bool" where
  "sn_wf ss = (\<forall>i x. m_get (sn_byID ss) i = Some x \<longrightarrow> sn_ID x = i)"

text \<open>The session under the key \<open>i\<close> is the same after a request, and its clock moves only when the request carries that key within the idle limit.\<close>

definition same_session :: "wenv \<Rightarrow> wreq \<Rightarrow> int \<Rightarrow> string \<Rightarrow> session \<Rightarrow> session \<Rightarrow> bool" where
  "same_session e rq idle i x x' = (sn_ID x' = sn_ID x \<and> sn_CSRF x' = sn_CSRF x \<and> sn_Created x' = sn_Created x \<and>
     (sn_LastSeen x' = sn_LastSeen x \<or>
      sn_LastSeen x' = we_now e \<and> m_get (rq_cookies rq) CookieName = Some i \<and> time_Sub (we_now e) (sn_LastSeen x) \<le> idle))"

text \<open>A request that creates and destroys nothing: sessions slide or lapse, the tables stay.\<close>

definition quiet :: "wenv \<Rightarrow> wreq \<Rightarrow> 'a wstate \<Rightarrow> 'a wstate \<Rightarrow> bool" where
  "quiet e rq s s' = (w_local s' = w_local s \<and> w_rest s' = w_rest s \<and>
     sn_idle (w_sessions s') = sn_idle (w_sessions s) \<and> sn_absolute (w_sessions s') = sn_absolute (w_sessions s) \<and>
     (\<forall>i x'. m_get (sn_byID (w_sessions s')) i = Some x' \<longrightarrow> (\<exists>x. m_get (sn_byID (w_sessions s)) i = Some x \<and> same_session e rq (sn_idle (w_sessions s)) i x x')))"

lemma same_session_refl [simp]: "same_session e rq idle i x x"
  by (simp add: same_session_def)

lemma same_session_trans: "same_session e rq idle i x y \<Longrightarrow> same_session e rq idle i y z \<Longrightarrow> same_session e rq idle i x z"
  by (auto simp: same_session_def)

lemma quietD: "quiet e rq s s' \<Longrightarrow> m_get (sn_byID (w_sessions s')) i = Some x' \<Longrightarrow> \<exists>x. m_get (sn_byID (w_sessions s)) i = Some x \<and> same_session e rq (sn_idle (w_sessions s)) i x x'"
  by (simp add: quiet_def)

lemma quiet_refl [simp]: "quiet e rq s s"
  by (simp add: quiet_def)

lemma quiet_trans: "quiet e rq s s1 \<Longrightarrow> quiet e rq s1 s2 \<Longrightarrow> quiet e rq s s2"
  unfolding quiet_def by (metis same_session_trans)

lemma quiet_local: "quiet e rq s s' \<Longrightarrow> w_local s' = w_local s \<and> hasAdmin e' s' = hasAdmin e' s \<and> read_hash e' s' = read_hash e' s \<and> read_ident e' s' = read_ident e' s"
  by (simp add: quiet_def hasAdmin_def read_hash_def read_ident_def)

definition live :: "wenv \<Rightarrow> session \<Rightarrow> sessions \<Rightarrow> bool" where
  "live e x ss = (time_Sub (we_now e) (sn_LastSeen x) \<le> sn_idle ss \<and> time_Sub (we_now e) (sn_Created x) \<le> sn_absolute ss)"

definition presented :: "wenv \<Rightarrow> wreq \<Rightarrow> session \<Rightarrow> 'a wstate \<Rightarrow> bool" where
  "presented e rq x s = (\<exists>i. m_get (rq_cookies rq) CookieName = Some i \<and> m_get (sn_byID (w_sessions s)) i = Some x \<and> live e x (w_sessions s))"

lemma Get_quiet: "m_get (rq_cookies rq) CookieName = Some i \<Longrightarrow> quiet e rq s (s\<lparr>w_sessions := snd (sn_Get (we_now e) i (w_sessions s))\<rparr>)"
  by (auto simp: quiet_def sn_Get_def same_session_def Let_def split: option.split if_splits)

lemma web_session_quiet: "web_session e rq s = (o', s1) \<Longrightarrow> quiet e rq s s1"
  using Get_quiet [of rq _ e s] by (auto simp: web_session_def split: option.splits prod.splits)

lemma web_session_Some:
  assumes "web_session e rq s = (Some y, s1)"
  obtains x where "presented e rq x s" "sn_ID y = sn_ID x"
  using assms by (auto simp: web_session_def sn_Get_def presented_def live_def Let_def split: option.splits prod.splits if_splits)

lemma ValidCSRF_quiet: "m_get (rq_cookies rq) CookieName = Some i \<Longrightarrow> quiet e rq s (s\<lparr>w_sessions := snd (ValidCSRF (we_now e) i tok (w_sessions s))\<rparr>)"
  using Get_quiet [of rq i e s] by (auto simp: ValidCSRF_def split: prod.split option.split)

lemma ValidCSRF_token:
  "fst (ValidCSRF now i tok ss) \<Longrightarrow> \<exists>x. m_get (sn_byID ss) i = Some x \<and> tok = sn_CSRF x \<and> tok \<noteq> []"
  by (auto simp: ValidCSRF_def sn_Get_def Let_def split: option.splits if_splits)

abbreviation bland :: "'r wresp \<Rightarrow> bool" where
  "bland r \<equiv> (\<forall>b. r \<noteq> Rendered b) \<and> r \<noteq> Redirect ''/login'' [(CookieName, [])]"

text \<open>The gate with its guard: either it answers itself, or it hands on, and then the cookie and the token belong to one live session.\<close>

lemma requireCSRF_cases:
  assumes wf: "sn_wf (w_sessions s)"
  obtains (refused) r s1 where "\<And>next :: 'a wstate \<Rightarrow> 'r wresp \<times> 'a wstate. requireCSRF e rq next s = (r, s1)" "bland r" "quiet e rq s s1" "\<not> passes_CSRF e rq s"
  | (passed) x s1 where "\<And>next :: 'a wstate \<Rightarrow> 'r wresp \<times> 'a wstate. requireCSRF e rq next s = next s1" "quiet e rq s s1" "presented e rq x s"
      "FormValue rq ''csrf_token'' = sn_CSRF x" "passes_CSRF e rq s"
proof (cases "hasAdmin e s")
  case False
  then show ?thesis by (intro refused [of "Redirect ''/setup'' []" s]) (simp_all add: requireCSRF_def requireSetup_def passes_CSRF_def)
next
  case True
  obtain o' s1 where ws: "web_session e rq s = (o', s1)" by fastforce
  note q = web_session_quiet [OF ws]
  show ?thesis
  proof (cases o')
    case None
    then show ?thesis using ws q True
      by (intro refused [of "Redirect ''/login'' []" s1]) (simp_all add: requireCSRF_def requireSetup_def passes_CSRF_def)
  next
    case (Some y)
    note y = this
    show ?thesis
    proof (cases "rq_form rq")
      case None
      then show ?thesis using ws q True y
        by (intro refused [of "Plain 400 []" s1]) (simp_all add: requireCSRF_def requireSetup_def passes_CSRF_def)
    next
      case (Some f)
      let ?v = "ValidCSRF (we_now e) (sn_ID y) (FormValue rq ''csrf_token'') (w_sessions s1)"
      let ?s2 = "s1\<lparr>w_sessions := snd ?v\<rparr>"
      have gate: "requireCSRF e rq next s = (if fst ?v then next ?s2 else (Plain 403 [], ?s2))"
        for "next" :: "'a wstate \<Rightarrow> 'b wresp \<times> 'a wstate"
        using True ws y Some by (simp add: requireCSRF_def requireSetup_def case_prod_beta Let_def)
      obtain x where x: "presented e rq x s" "sn_ID y = sn_ID x" by (rule web_session_Some [OF ws [unfolded y]])
      obtain i where i: "m_get (rq_cookies rq) CookieName = Some i" "m_get (sn_byID (w_sessions s)) i = Some x" using x(1) by (auto simp: presented_def)
      have own: "sn_ID y = i" using wf x(2) i(2) by (auto simp: sn_wf_def)
      have q2: "quiet e rq s ?s2" using quiet_trans [OF q ValidCSRF_quiet] i(1) own by blast
      show ?thesis
      proof (cases "fst ?v")
        case False
        then show ?thesis using gate q2
          by (intro refused [of "Plain 403 []" ?s2]) (simp_all add: passes_CSRF_def requireCSRF_def requireSetup_def True ws y Some case_prod_beta Let_def)
      next
        case ok: True
        obtain x1 where x1: "m_get (sn_byID (w_sessions s1)) (sn_ID y) = Some x1" "FormValue rq ''csrf_token'' = sn_CSRF x1"
          using ValidCSRF_token [OF ok] by blast
        have "sn_CSRF x1 = sn_CSRF x" using quietD [OF q x1(1)] i(2) own by (auto simp: same_session_def)
        then show ?thesis using ok q2 x(1) x1(2)
          by (intro passed [of ?s2 x]) (simp_all add: passes_CSRF_def requireCSRF_def requireSetup_def True ws y Some case_prod_beta Let_def)
      qed
    qed
  qed
qed

text \<open>
  What only an administrator brings about: a screen, a change of what the screens work on, a change of the node's own tables
  other than by signing in, and signing out.
\<close>

definition acts :: "string \<Rightarrow> wenv \<Rightarrow> wreq \<Rightarrow> 'a wstate \<Rightarrow> 'r wresp \<Rightarrow> 'a wstate \<Rightarrow> bool" where
  "acts tok e rq s r s' = ((\<exists>b. r = Rendered b) \<or> w_rest s' \<noteq> w_rest s \<or> (w_local s' \<noteq> w_local s \<and> \<not> signs_in tok e rq s) \<or>
     r = Redirect ''/login'' [(CookieName, [])])"

definition outcome :: "string \<Rightarrow> wenv \<Rightarrow> wreq \<Rightarrow> 'a wstate \<Rightarrow> 'r wresp \<times> 'a wstate \<Rightarrow> bool" where
  "outcome tok e rq s res =
     (let ss = w_sessions s; s' = snd res; ss' = w_sessions s'
      in sn_idle ss' = sn_idle ss \<and> sn_absolute ss' = sn_absolute ss \<and>
         (\<forall>i x'. m_get (sn_byID ss') i = Some x' \<longrightarrow>
            (signs_in tok e rq s \<and> i = we_id e \<and> x' = \<lparr>sn_ID = we_id e, sn_CSRF = we_csrf e, sn_Created = we_now e, sn_LastSeen = we_now e\<rparr>) \<or>
            (\<exists>x. m_get (sn_byID ss) i = Some x \<and> same_session e rq (sn_idle ss) i x x' \<and> \<not> (logs_out e rq s \<and> m_get (rq_cookies rq) CookieName = Some i))) \<and>
         (acts tok e rq s (fst res) s' \<longrightarrow>
            (\<exists>x. presented e rq x s \<and> (reads rq \<or> FormValue rq ''csrf_token'' = sn_CSRF x))))"

lemma outcomeD:
  assumes "outcome tok e rq s res" and "m_get (sn_byID (w_sessions (snd res))) i = Some x'"
  shows "(signs_in tok e rq s \<and> i = we_id e \<and> x' = \<lparr>sn_ID = we_id e, sn_CSRF = we_csrf e, sn_Created = we_now e, sn_LastSeen = we_now e\<rparr>) \<or>
    (\<exists>x. m_get (sn_byID (w_sessions s)) i = Some x \<and> same_session e rq (sn_idle (w_sessions s)) i x x' \<and> \<not> (logs_out e rq s \<and> m_get (rq_cookies rq) CookieName = Some i))"
  using assms unfolding outcome_def Let_def by blast

lemma outcome_frame: "outcome tok e rq s res \<Longrightarrow> sn_idle (w_sessions (snd res)) = sn_idle (w_sessions s) \<and> sn_absolute (w_sessions (snd res)) = sn_absolute (w_sessions s)"
  by (simp add: outcome_def Let_def)

lemma outcome_reached:
  assumes "outcome tok e rq s (r, s')" and "acts tok e rq s r s'"
  obtains x where "presented e rq x s" "reads rq \<or> FormValue rq ''csrf_token'' = sn_CSRF x"
  using assms by (auto simp: outcome_def Let_def)

lemma quiet_outcome: "quiet e rq s s1 \<Longrightarrow> bland r \<Longrightarrow> \<not> logs_out e rq s \<Longrightarrow> outcome tok e rq s (r, s1)"
  by (auto simp: outcome_def quiet_def acts_def Let_def)

lemma presented_outcome:
  "quiet e rq s s1 \<Longrightarrow> presented e rq x s \<Longrightarrow> reads rq \<or> FormValue rq ''csrf_token'' = sn_CSRF x \<Longrightarrow> \<not> logs_out e rq s \<Longrightarrow>
   w_sessions s2 = w_sessions s1 \<Longrightarrow> outcome tok e rq s (r, s2)"
  by (auto simp: outcome_def quiet_def Let_def)

lemma sign_in_outcome:
  "signs_in tok e rq s \<Longrightarrow> w_sessions s1 = w_sessions s \<Longrightarrow> w_rest s1 = w_rest s \<Longrightarrow> \<not> logs_out e rq s \<Longrightarrow> outcome tok e rq s (sign_in e s1)"
  by (auto simp: outcome_def sign_in_def sn_Create_def acts_def Let_def)

lemma screen_outcome:
  assumes "quiet e rq s s1" and "presented e rq x s" and "reads rq \<or> FormValue rq ''csrf_token'' = sn_CSRF x" and "\<not> logs_out e rq s"
  shows "outcome tok e rq s (screen page rq s1)"
  by (simp add: screen_def presented_outcome [OF assms] split: prod.split)

lemma logs_out_path: "logs_out e rq s \<Longrightarrow> rq_path rq = PathLogout \<and> \<not> reads rq"
  by (simp add: logs_out_def reads_def)

lemma gate_outcome:
  assumes "reads rq"
  shows "outcome tok e rq s (requireSession e rq (screen page rq) s)" and "outcome tok e rq s (requireSessionJSON e rq (screen page rq) s)"
proof -
  have nl: "\<not> logs_out e rq s" using assms logs_out_path by blast
  obtain o' s1 where ws: "web_session e rq s = (o', s1)" by fastforce
  note q = web_session_quiet [OF ws]
  have go: "outcome tok e rq s (case web_session e rq s of (None, s) \<Rightarrow> (r, s) | (Some _, s) \<Rightarrow> screen page rq s)" if "bland r" for r
  proof (cases o')
    case None
    then show ?thesis using quiet_outcome [OF q that nl] ws by simp
  next
    case (Some y)
    obtain x where "presented e rq x s" by (rule web_session_Some [OF ws [unfolded Some]])
    then show ?thesis using screen_outcome [OF q _ _ nl] assms ws Some by simp
  qed
  show "outcome tok e rq s (requireSessionJSON e rq (screen page rq) s)" unfolding requireSessionJSON_def by (rule go) simp
  show "outcome tok e rq s (requireSession e rq (screen page rq) s)"
  proof (cases "hasAdmin e s")
    case True
    then show ?thesis using go [of "Redirect ''/login'' []"] by (simp add: requireSession_def requireSetup_def)
  next
    case False
    then show ?thesis using nl by (simp add: requireSession_def requireSetup_def quiet_outcome)
  qed
qed

lemma getSSOCallback_outcome:
  assumes "reads rq" and "rq_path rq = ''/auth/sso/callback''"
  shows "outcome tok e rq s (getSSOCallback e rq s)"
proof -
  have nl: "\<not> logs_out e rq s" using assms logs_out_path by blast
  have stay: "outcome tok e rq s (Plain n cs, s)" for n cs using nl by (simp add: quiet_outcome)
  have link: "outcome tok e rq s (link_identity e rq c s)" for c
  proof -
    obtain o' s1 where ws: "web_session e rq s = (o', s1)" by fastforce
    note q = web_session_quiet [OF ws]
    show ?thesis
    proof (cases o')
      case None
      then show ?thesis using nl ws by (simp add: link_identity_def quiet_outcome [OF q])
    next
      case (Some y)
      obtain x where "presented e rq x s" by (rule web_session_Some [OF ws [unfolded Some]])
      then show ?thesis using nl ws Some assms(1) by (auto simp: link_identity_def presented_outcome [OF q] split: sum.split)
    qed
  qed
  show ?thesis
  proof (cases "cookie rq ''kydns_sso_state'' = [] \<or> cookie rq ''kydns_sso_state'' \<noteq> QueryValue rq ''state'' \<or>
      cookie rq ''kydns_sso_verifier'' = [] \<or> cookie rq ''kydns_sso_nonce'' = [] \<or> we_sso_fails e")
    case True
    then show ?thesis by (auto simp: getSSOCallback_def stay)
  next
    case False
    let ?x = "ExchangeCode (we_idp e (SSOSettings (w_local s))) (QueryValue rq ''code'') (cookie rq ''kydns_sso_verifier'') (cookie rq ''kydns_sso_nonce'')"
    note ok = False
    show ?thesis
    proof (cases ?x)
      case (Inl err)
      then show ?thesis using ok by (simp add: getSSOCallback_def stay)
    next
      case (Inr c)
      note c = this
      show ?thesis
      proof (cases "read_ident e s")
        case None
        then show ?thesis using ok c by (simp add: getSSOCallback_def stay)
      next
        case (Some ident)
        have *: "getSSOCallback e rq s =
            (if cookie rq ''kydns_sso_link'' \<noteq> ''1'' \<and> \<not> (ad_SSOSub ident \<noteq> [] \<and> ad_SSOSub ident = cl_Sub c) \<and> \<not> IsAdmin c then (Plain 403 clearSSOCookies, s)
             else if cookie rq ''kydns_sso_link'' = ''1'' then link_identity e rq c s
             else if ad_SSOSub ident \<noteq> [] then (if ad_SSOSub ident \<noteq> cl_Sub c then (Plain 401 clearSSOCookies, s) else sign_in e s)
             else sign_in e (s\<lparr>w_local := autolink e c (w_local s)\<rparr>))"
          using ok c Some by (simp add: getSSOCallback_def Let_def)
        have si: "signs_in tok e rq s" if "if ad_SSOSub ident = [] then IsAdmin c else ad_SSOSub ident = cl_Sub c"
          using that ok assms c Some by (simp add: signs_in_def sso_login_def)
        show ?thesis unfolding * using si by (simp add: stay link sign_in_outcome [OF _ _ _ nl])
      qed
    qed
  qed
qed

lemma postSetup_outcome:
  assumes "rq_method rq = ''POST''" and "rq_path rq = PathSetup"
  shows "outcome tok e rq s (postSetup tok e rq s)"
proof -
  have nl: "\<not> logs_out e rq s" using assms logs_out_path [of e rq s] by (auto simp: PathSetup_def PathLogout_def)
  have stay: "outcome tok e rq s (r, s)" if "bland r" for r using nl that by (simp add: quiet_outcome)
  show ?thesis
  proof (cases "setup_login tok e rq s")
    case True
    then have si: "signs_in tok e rq s" by (simp add: signs_in_def)
    show ?thesis by (simp add: postSetup_def stay sign_in_outcome [OF si _ _ nl] split: sum.split)
  next
    case False
    then show ?thesis using assms by (auto simp: postSetup_def setup_login_def stay split: sum.split)
  qed
qed

lemma postLogin_outcome:
  assumes "rq_method rq = ''POST''" and "rq_path rq = PathLogin"
  shows "outcome tok e rq s (requireSetup e (postLogin e rq) s)"
proof -
  have nl: "\<not> logs_out e rq s" using assms logs_out_path [of e rq s] by (auto simp: PathLogin_def PathLogout_def)
  have stay: "outcome tok e rq s (r, s\<lparr>w_backoff := b\<rparr>)" if "bland r" for r b
    using nl that by (intro quiet_outcome) (simp_all add: quiet_def)
  have same: "outcome tok e rq s (r, s)" if "bland r" for r using nl that by (simp add: quiet_outcome)
  show ?thesis
  proof (cases "password_login e rq s")
    case True
    then have si: "signs_in tok e rq s" by (simp add: signs_in_def)
    show ?thesis using True by (simp add: requireSetup_def postLogin_def password_login_def Let_def same sign_in_outcome [OF si _ _ nl])
  next
    case False
    then show ?thesis using assms by (simp add: requireSetup_def postLogin_def password_login_def Let_def same stay)
  qed
qed

lemma csrf_outcome:
  fixes "next" :: "'a wstate \<Rightarrow> 'r wresp \<times> 'a wstate"
  assumes wf: "sn_wf (w_sessions s)"
    and "next": "\<And>s1 x. quiet e rq s s1 \<Longrightarrow> presented e rq x s \<Longrightarrow> FormValue rq ''csrf_token'' = sn_CSRF x \<Longrightarrow> outcome tok e rq s (next s1)"
  shows "outcome tok e rq s (requireCSRF e rq next s)"
  using wf
proof (cases rule: requireCSRF_cases [where e = e and rq = rq and 'r = 'r, case_names refused passed])
  case (refused r s1)
  then show ?thesis unfolding refused(1) by (intro quiet_outcome) (simp_all add: logs_out_def)
next
  case (passed x s1)
  then show ?thesis unfolding passed(1) by (intro "next") simp_all
qed

lemma postLogout_outcome:
  assumes "quiet e rq s s1" and "presented e rq x s" and "FormValue rq ''csrf_token'' = sn_CSRF x"
  shows "outcome tok e rq s (postLogout rq s1)"
  using assms by (auto simp: postLogout_def outcome_def quiet_def sn_Destroy_def Let_def split: option.split)

lemma post_route_outcome:
  assumes wf: "sn_wf (w_sessions s)" and m: "rq_method rq = ''POST''"
  shows "outcome tok e rq s (post_route tok page e rq s)"
proof -
  consider "rq_path rq = PathSetup" | "rq_path rq = PathLogin" | "rq_path rq = PathLogout" | "rq_path rq \<notin> {PathSetup, PathLogin, PathLogout}" by blast
  then show ?thesis
  proof cases
    case 1
    then show ?thesis using postSetup_outcome [OF m] by (simp add: post_route_def)
  next
    case 2
    then show ?thesis using postLogin_outcome [OF m] by (simp add: post_route_def PathLogin_def PathSetup_def)
  next
    case 3
    have "outcome tok e rq s (requireCSRF e rq (postLogout rq) s)" by (rule csrf_outcome [OF wf]) (rule postLogout_outcome)
    with 3 show ?thesis by (simp add: post_route_def PathLogin_def PathSetup_def PathLogout_def)
  next
    case 4
    then have nl: "\<not> logs_out e rq s" using logs_out_path by blast
    have local: "outcome tok e rq s (postSSOSettings e rq s1)" "outcome tok e rq s (postSSOUnlink e s1)"
      if "quiet e rq s s1" "presented e rq x s" "FormValue rq ''csrf_token'' = sn_CSRF x" for s1 x
      using nl by (auto simp: postSSOSettings_def postSSOUnlink_def Let_def presented_outcome [OF that(1,2) disjI2 [OF that(3)]] split: sum.split)
    have gated: "outcome tok e rq s (requireCSRF e rq (postSSOSettings e rq) s)" "outcome tok e rq s (requireCSRF e rq (postSSOUnlink e) s)"
      "outcome tok e rq s (requireCSRF e rq (screen page rq) s)"
      by (rule csrf_outcome [OF wf]; simp add: local screen_outcome [OF _ _ _ nl])+
    show ?thesis using 4 nl by (simp add: post_route_def Let_def gated quiet_outcome)
  qed
qed

lemma get_route_outcome:
  assumes r: "reads rq"
  shows "outcome tok e rq s (get_route page e rq s)"
proof -
  have nl: "\<not> logs_out e rq s" using r logs_out_path by blast
  have stay: "outcome tok e rq s (x, s)" if "bland x" for x using nl that by (simp add: quiet_outcome)
  obtain o' s1 where ws: "web_session e rq s = (o', s1)" by fastforce
  have login: "outcome tok e rq s (requireSetup e (getLogin e rq) s)"
    using nl ws by (auto simp: requireSetup_def getLogin_def stay quiet_outcome [OF web_session_quiet [OF ws]] split: option.split)
  have other: "outcome tok e rq s (getSetup e s)" "outcome tok e rq s (getSSOLogin e rq s)" by (simp_all add: getSetup_def getSSOLogin_def Let_def stay)
  show ?thesis by (simp add: get_route_def Let_def login other stay getSSOCallback_outcome [OF r] gate_outcome [OF r])
qed

lemma web_mux_outcome: "sn_wf (w_sessions s) \<Longrightarrow> outcome tok e rq s (web_mux tok page e rq s)"
  by (simp add: web_mux_def get_route_outcome post_route_outcome quiet_outcome logs_out_def)

lemma web_session_lapsed: "web_session e rq s = (None, s1) \<Longrightarrow> \<not> presented e rq x s1"
  by (auto simp: web_session_def sn_Get_def presented_def Let_def split: option.splits prod.splits if_splits)

lemma quiet_wf: "quiet e rq s s1 \<Longrightarrow> sn_wf (w_sessions s) \<Longrightarrow> sn_wf (w_sessions s1)"
  by (fastforce simp: quiet_def sn_wf_def same_session_def)

lemma quiet_signs_in: "quiet e rq s s1 \<Longrightarrow> signs_in tok e rq s1 = signs_in tok e rq s"
  by (drule quiet_local [of e rq s s1 e]) (elim conjE, simp only: signs_in_def setup_login_def password_login_def sso_login_def)

lemma web_serve_outcome:
  assumes wf: "sn_wf (w_sessions s)"
  shows "outcome tok e rq s (web_serve tok page e rq s)"
proof (cases "reads rq \<or> HasPrefix (rq_path rq) PathPrefix \<or> rq_path rq \<in> set webWriteExempt \<or> \<not> we_replica e")
  case True
  then show ?thesis using web_mux_outcome [OF wf] by (auto simp: web_serve_def web_WriteGate_def)
next
  case False
  have nl: "\<not> logs_out e rq s" "\<not> logs_out e rq t" for t :: "'a wstate"
    using False logs_out_path [of e rq] by (auto simp: webWriteExempt_def)
  obtain o' s1 where ws: "web_session e rq s = (o', s1)" by fastforce
  note q = web_session_quiet [OF ws]
  show ?thesis
  proof (cases o')
    case None
    have "outcome tok e rq s1 (web_mux tok page e rq s1)" by (rule web_mux_outcome [OF quiet_wf [OF q wf]])
    moreover have "\<not> presented e rq x s1" for x using web_session_lapsed ws None by blast
    ultimately have "outcome tok e rq s (web_mux tok page e rq s1)"
      using q nl by (auto simp: outcome_def acts_def Let_def quiet_signs_in [OF q] quiet_def) (metis same_session_trans)+
    then show ?thesis using False ws None by (simp add: web_serve_def web_WriteGate_def)
  next
    case (Some y)
    then show ?thesis using False ws nl by (simp add: web_serve_def web_WriteGate_def quiet_outcome [OF q])
  qed
qed

section \<open>Nothing without a login\<close>

text \<open>Times that follow each other with no gap above the idle limit.\<close>

fun within :: "int \<Rightarrow> int \<Rightarrow> int list \<Rightarrow> bool" where
  "within idle l [] = True"
| "within idle l (t # ts) = (time_Sub t l \<le> idle \<and> within idle t ts)"

lemma within_snoc [simp]: "within idle l (ts @ [t]) = (within idle l ts \<and> time_Sub t (last (l # ts)) \<le> idle)"
  by (induction ts arbitrary: l) auto

text \<open>The uses that keep a session: requests with its cookie, each within the idle limit of the one before, the first of the login.\<close>

definition kept_by :: "int \<Rightarrow> string \<Rightarrow> int \<Rightarrow> (wenv \<times> wreq) list \<Rightarrow> int list \<Rightarrow> bool" where
  "kept_by idle i login evs uses = (within idle login uses \<and>
     subseq uses (map (\<lambda>(e, rq). we_now e) (filter (\<lambda>(e, rq). m_get (rq_cookies rq) CookieName = Some i) evs)))"

text \<open>A session held after a run was given out in it, and nobody signed out with it since.\<close>

definition given :: "int \<Rightarrow> string \<Rightarrow> ('r, 'a) screens \<Rightarrow> 'a wstate \<Rightarrow> (wenv \<times> wreq) list \<Rightarrow> session \<Rightarrow> bool" where
  "given idle tok page s0 evs x = (\<exists>pre e0 rq0 post. evs = pre @ (e0, rq0) # post \<and> signs_in tok e0 rq0 (web_run tok page pre s0) \<and>
     sn_ID x = we_id e0 \<and> sn_CSRF x = we_csrf e0 \<and> sn_Created x = we_now e0 \<and> (\<exists>uses. kept_by idle (we_id e0) (we_now e0) post uses \<and> sn_LastSeen x = last (we_now e0 # uses)) \<and>
     (\<forall>mid e rq rest. post = mid @ (e, rq) # rest \<longrightarrow>
        \<not> (logs_out e rq (web_run tok page (pre @ (e0, rq0) # mid) s0) \<and> m_get (rq_cookies rq) CookieName = Some (sn_ID x))))"

lemma web_run_snoc [simp]: "web_run tok page (evs @ [(e, rq)]) s = snd (web_serve tok page e rq (web_run tok page evs s))"
  by (simp add: web_run_def)

lemma kept_step:
  assumes "same_session e rq idle i x x'" and "\<exists>uses. kept_by idle i l evs uses \<and> sn_LastSeen x = last (l # uses)"
  shows "\<exists>uses. kept_by idle i l (evs @ [(e, rq)]) uses \<and> sn_LastSeen x' = last (l # uses)"
proof -
  obtain uses where u: "kept_by idle i l evs uses" "sn_LastSeen x = last (l # uses)" using assms(2) by blast
  consider "sn_LastSeen x' = sn_LastSeen x"
    | "sn_LastSeen x' = we_now e" "m_get (rq_cookies rq) CookieName = Some i" "time_Sub (we_now e) (last (l # uses)) \<le> idle"
    using assms(1) u(2) by (auto simp: same_session_def)
  then show ?thesis
  proof cases
    case 1
    then show ?thesis using u by (intro exI [of _ uses]) (auto simp: kept_by_def)
  next
    case 2
    then show ?thesis using u by (intro exI [of _ "uses @ [we_now e]"]) (simp add: kept_by_def)
  qed
qed

lemma given_step:
  assumes "given idle tok page s0 evs x" and "same_session e rq idle (sn_ID x) x x'"
    and "\<not> (logs_out e rq (web_run tok page evs s0) \<and> m_get (rq_cookies rq) CookieName = Some (sn_ID x))"
  shows "given idle tok page s0 (evs @ [(e, rq)]) x'"
proof -
  obtain pre e0 rq0 post where g: "evs = pre @ (e0, rq0) # post" "signs_in tok e0 rq0 (web_run tok page pre s0)"
      "sn_ID x = we_id e0" "sn_CSRF x = we_csrf e0" "sn_Created x = we_now e0" "\<exists>uses. kept_by idle (we_id e0) (we_now e0) post uses \<and> sn_LastSeen x = last (we_now e0 # uses)"
      "\<And>mid e rq rest. post = mid @ (e, rq) # rest \<Longrightarrow>
        \<not> (logs_out e rq (web_run tok page (pre @ (e0, rq0) # mid) s0) \<and> m_get (rq_cookies rq) CookieName = Some (sn_ID x))"
    using assms(1) unfolding given_def by blast
  have never: "\<not> (logs_out e' rq' (web_run tok page (pre @ (e0, rq0) # mid) s0) \<and> m_get (rq_cookies rq') CookieName = Some (sn_ID x))"
    if "post @ [(e, rq)] = mid @ (e', rq') # rest" for mid e' rq' rest
  proof (cases rest rule: rev_cases)
    case Nil
    then show ?thesis using that assms(3) g(1) by simp
  next
    case (snoc r z)
    then show ?thesis using that g(7) [of mid e' rq' r] by simp
  qed
  have "sn_ID x' = sn_ID x" "sn_CSRF x' = we_csrf e0" "sn_Created x' = we_now e0" using assms(2) g(4,5) by (simp_all add: same_session_def)
  moreover have "\<exists>uses. kept_by idle (we_id e0) (we_now e0) (post @ [(e, rq)]) uses \<and> sn_LastSeen x' = last (we_now e0 # uses)"
    using kept_step [OF assms(2)] g(3,6) by simp
  ultimately show ?thesis unfolding given_def using g(1-3) never
    by (intro exI [of _ pre] exI [of _ e0] exI [of _ rq0] exI [of _ "post @ [(e, rq)]"]) simp
qed

lemma run_given:
  assumes s0_def: "s0 = web_start (NewSessions idle absolute) t x0"
  shows "sn_wf (w_sessions (web_run tok page evs s0)) \<and> sn_idle (w_sessions (web_run tok page evs s0)) = idle \<and>
    sn_absolute (w_sessions (web_run tok page evs s0)) = absolute \<and>
    (\<forall>i x. m_get (sn_byID (w_sessions (web_run tok page evs s0))) i = Some x \<longrightarrow> given idle tok page s0 evs x)"
proof (induction evs rule: rev_induct)
  case Nil
  then show ?case by (simp add: web_run_def s0_def web_start_def NewSessions_def sn_wf_def)
next
  case (snoc ev evs)
  obtain e rq where ev: "ev = (e, rq)" by fastforce
  let ?s = "web_run tok page evs s0"
  have o: "outcome tok e rq ?s (web_serve tok page e rq ?s)" using web_serve_outcome snoc by blast
  have new: "sn_ID x' = i \<and> given idle tok page s0 (evs @ [ev]) x'" if got: "m_get (sn_byID (w_sessions (snd (web_serve tok page e rq ?s)))) i = Some x'" for i x'
  proof -
    consider (new) "signs_in tok e rq ?s" "i = we_id e" "x' = \<lparr>sn_ID = we_id e, sn_CSRF = we_csrf e, sn_Created = we_now e, sn_LastSeen = we_now e\<rparr>"
      | (old) x where "m_get (sn_byID (w_sessions ?s)) i = Some x" "same_session e rq idle i x x'" "\<not> (logs_out e rq ?s \<and> m_get (rq_cookies rq) CookieName = Some i)"
      using outcomeD [OF o got] snoc by blast
    then show ?thesis
    proof cases
      case new
      then have "given idle tok page s0 (evs @ [(e, rq)]) x'" unfolding given_def by (intro exI [of _ evs] exI [of _ e] exI [of _ rq] exI [of _ "[]"]) (simp add: kept_by_def)
      then show ?thesis using new ev by simp
    next
      case (old x)
      have "sn_ID x = i" "given idle tok page s0 evs x" using snoc old(1) by (auto simp: sn_wf_def)
      then show ?thesis using given_step [of idle tok page s0 evs x e rq x'] old ev by (simp add: same_session_def)
    qed
  qed
  show ?case using outcome_frame [OF o] new snoc unfolding ev web_run_snoc by (simp add: sn_wf_def)
qed

text \<open>
  C11: every screen needs a login. Through any sequence of requests from the start of the server, a request that is answered by a screen, that
  changes anything a screen works on or, other than by signing in, the node's own tables (the single sign-on settings and the linked identity), or that signs
  out, carries the cookie of a session that an earlier request was given for the setup token while no
  admin was seen, for the right password, or for an identity that the provider vouched for and that is linked or, with none linked, an administrator's.
  That was at most the absolute limit ago; from then to now there are requests with that cookie of which each came within the idle limit of the
  one before; and nobody has signed out with it since. A form, in addition, carries
  the token that session was given.
\<close>

theorem screens_need_a_login:
  assumes "s0 = web_start (NewSessions idle absolute) t x0" and "s = web_run tok page evs s0" and "web_serve tok page e rq s = (r, s')"
    and "acts tok e rq s r s'"
  shows "\<exists>pre e0 rq0 post. evs = pre @ (e0, rq0) # post \<and> signs_in tok e0 rq0 (web_run tok page pre s0) \<and>
    m_get (rq_cookies rq) CookieName = Some (we_id e0) \<and> (reads rq \<or> FormValue rq ''csrf_token'' = we_csrf e0) \<and>
    time_Sub (we_now e) (we_now e0) \<le> absolute \<and> (\<exists>uses. kept_by idle (we_id e0) (we_now e0) post uses \<and> within idle (we_now e0) (uses @ [we_now e])) \<and>
    (\<forall>mid e' rq' rest. post = mid @ (e', rq') # rest \<longrightarrow>
       \<not> (logs_out e' rq' (web_run tok page (pre @ (e0, rq0) # mid) s0) \<and> m_get (rq_cookies rq') CookieName = Some (we_id e0)))"
proof -
  note inv = run_given [OF assms(1), of tok page evs, folded assms(2)]
  have "outcome tok e rq s (r, s')" using web_serve_outcome [of s tok e rq page] inv assms(3) by simp
  then obtain x where x: "presented e rq x s" "reads rq \<or> FormValue rq ''csrf_token'' = sn_CSRF x" using assms(4) by (rule outcome_reached)
  obtain i where i: "m_get (rq_cookies rq) CookieName = Some i" "m_get (sn_byID (w_sessions s)) i = Some x" and live: "live e x (w_sessions s)"
    using x(1) by (auto simp: presented_def)
  have own: "sn_ID x = i" and "given idle tok page s0 evs x" using inv i(2) by (auto simp: sn_wf_def)
  then obtain pre e0 rq0 post where g: "evs = pre @ (e0, rq0) # post" "signs_in tok e0 rq0 (web_run tok page pre s0)" "sn_ID x = we_id e0" "sn_CSRF x = we_csrf e0"
      "sn_Created x = we_now e0" "\<exists>uses. kept_by idle (we_id e0) (we_now e0) post uses \<and> sn_LastSeen x = last (we_now e0 # uses)"
      "\<forall>mid e rq rest. post = mid @ (e, rq) # rest \<longrightarrow>
        \<not> (logs_out e rq (web_run tok page (pre @ (e0, rq0) # mid) s0) \<and> m_get (rq_cookies rq) CookieName = Some (sn_ID x))"
    unfolding given_def by blast
  have "\<exists>uses. kept_by idle (we_id e0) (we_now e0) post uses \<and> within idle (we_now e0) (uses @ [we_now e])"
  proof -
    obtain uses where u: "kept_by idle (we_id e0) (we_now e0) post uses" "sn_LastSeen x = last (we_now e0 # uses)" using g(6) by blast
    have "time_Sub (we_now e) (last (we_now e0 # uses)) \<le> idle" using live inv u(2) by (simp add: live_def)
    then show ?thesis using u(1) by (intro exI [of _ uses]) (simp add: kept_by_def)
  qed
  moreover have "time_Sub (we_now e) (we_now e0) \<le> absolute" using live inv g(5) by (simp add: live_def)
  ultimately show ?thesis using g(1-4,7) i(1) x(2) own by (intro exI [of _ pre] exI [of _ e0] exI [of _ rq0] exI [of _ post]) simp
qed

definition web_env :: "int \<Rightarrow> wenv" where
  "web_env now = \<lparr>we_now = now, we_id = ''id'', we_csrf = ''csrf'', we_state = ''st'', we_nonce = ''no'', we_verifier = ''ve'', we_rand_fails = False,
     we_hasadmin_fails = False, we_admin_fails = False, we_sso_fails = False, we_write = None, we_sso_write = None, we_hash = Inr,
     we_verify = (=), we_idp = (\<lambda>_. \<lparr>ip_exchange = (\<lambda>_ _. Inl DiscoverFailed), ip_userinfo = (\<lambda>_. None)\<rparr>), we_replica = False\<rparr>"

definition web_get :: "string \<Rightarrow> (string, string) gomap \<Rightarrow> (string, string) gomap \<Rightarrow> wreq" where
  "web_get path cookies query = \<lparr>rq_method = ''GET'', rq_path = path, rq_cookies = cookies, rq_query = query, rq_form = Some [], rq_remote = ''10.0.0.9:5000''\<rparr>"

definition web_post :: "string \<Rightarrow> (string, string) gomap \<Rightarrow> (string, string) gomap \<Rightarrow> wreq" where
  "web_post path cookies form = \<lparr>rq_method = ''POST'', rq_path = path, rq_cookies = cookies, rq_query = [], rq_form = Some form, rq_remote = ''10.0.0.9:5000''\<rparr>"

definition home_admin :: "string \<Rightarrow> ltables" where
  "home_admin sub = fresh_local\<lparr>lt_admin := Some \<lparr>ad_PasswordHash = ''correct horse'', ad_SSOSub = sub, ad_SSOUsername = [], ad_SSOEmail = [],
     ad_SSOLinkedAt = 0, ad_UpdatedAt = 0\<rparr>\<rparr>"

text \<open>A screen that counts its requests.\<close>

definition count_page :: "(nat, nat) screens" where
  "count_page rq = (\<lambda>(t, n). (n, t, Suc n))"

theorem screens_need_a_login_witness:
  "password_login (web_env 5) (web_post ''/login'' [] [(''password'', ''correct horse'')]) (web_start (NewSessions 60 600) (home_admin []) (0 :: nat)) \<and>
   time_Sub 9 5 \<le> 600"
proof -
  let ?start = "web_start (NewSessions 60 600) (home_admin []) (0 :: nat)"
  let ?login = "(web_env 5, web_post ''/login'' [] [(''password'', ''correct horse'')])"
  let ?form = "web_post ''/records/new'' [(CookieName, ''id'')] [(''csrf_token'', ''csrf'')]"
  let ?s = "web_run [] count_page [?login] ?start"
  obtain r s' where sv: "web_serve [] count_page (web_env 9) ?form ?s = (r, s')" by fastforce
  have "w_rest (snd (web_serve [] count_page (web_env 9) ?form ?s)) = 1" "w_rest ?s = 0" by code_simp+
  then have "acts [] (web_env 9) ?form ?s r s'" using sv by (simp add: acts_def)
  from screens_need_a_login [OF refl refl sv this] obtain pre e0 rq0 post where g: "[?login] = pre @ (e0, rq0) # post" "signs_in [] e0 rq0 (web_run [] count_page pre ?start)"
      "time_Sub (we_now (web_env 9)) (we_now e0) \<le> 600"
    by (elim exE conjE) (rule that; assumption)
  then have "pre = []" "(e0, rq0) = ?login" by (simp_all add: Cons_eq_append_conv)
  then have "signs_in [] (web_env 5) (snd ?login) ?start" "time_Sub (we_now (web_env 9)) (we_now (web_env 5)) \<le> 600"
    using g(2,3) by (simp_all add: web_run_def)
  moreover have "\<not> setup_login [] (web_env 5) (snd ?login) ?start" "\<not> sso_login (web_env 5) (snd ?login) ?start" by code_simp+
  ultimately show ?thesis by (simp add: signs_in_def web_env_def)
qed

section \<open>A replica's screens\<close>

lemma mux_unpresented:
  assumes wf: "sn_wf (w_sessions s)" and no: "\<And>x. \<not> presented e rq x s" and "\<not> reads rq" and "rq_path rq \<notin> set webWriteExempt"
  shows "quiet e rq s (snd (web_mux tok page e rq s)) \<and> (\<forall>b. fst (web_mux tok page e rq s) \<noteq> Rendered b)"
proof -
  have gate: "quiet e rq s (snd (requireCSRF e rq n s)) \<and> (\<forall>b. fst (requireCSRF e rq n s) \<noteq> Rendered b)" for n :: "'a wstate \<Rightarrow> 'b wresp \<times> 'a wstate"
    using wf
  proof (cases rule: requireCSRF_cases [where e = e and rq = rq and 'r = 'b, case_names refused passed])
    case (refused r s1)
    then show ?thesis unfolding refused(1) by simp
  qed (use no in blast)
  show ?thesis using assms(3,4) by (simp add: web_mux_def post_route_def webWriteExempt_def Let_def gate)
qed

text \<open>
  A replica edits nothing. On a node that follows a primary, a form posted anywhere but to the exempt paths (setup, login, logout,
  promotion, joining and the node's own DHCP settings) reaches no screen and changes no table, whoever posts it; a stranger is not even told that
  the node is a replica, since only a live session sees the refusal.
\<close>

theorem replica_refuses_forms:
  assumes "s = web_run tok page evs (web_start (NewSessions idle absolute) t node)" and "we_replica e" and "\<not> reads rq"
    and "rq_path rq \<notin> set webWriteExempt" and "\<not> HasPrefix (rq_path rq) PathPrefix" and sv: "web_serve tok page e rq s = (r, s')"
  shows "w_local s' = w_local s \<and> w_rest s' = w_rest s \<and> (\<forall>b. r \<noteq> Rendered b) \<and> (r = Plain 409 [] \<longrightarrow> (\<exists>x. presented e rq x s))"
proof -
  have wf: "sn_wf (w_sessions s)" unfolding assms(1) using run_given [OF refl, of tok page evs idle absolute t node] by (rule conjunct1)
  obtain o' s1 where ws: "web_session e rq s = (o', s1)" by fastforce
  note q = web_session_quiet [OF ws]
  show ?thesis
  proof (cases o')
    case None
    then have no: "\<not> presented e rq x s1" for x using web_session_lapsed ws by blast
    have run: "web_mux tok page e rq s1 = (r, s')" using sv assms(2-5) ws None by (simp add: web_serve_def web_WriteGate_def)
    have "quiet e rq s1 s'" "\<forall>b. r \<noteq> Rendered b" using mux_unpresented [OF quiet_wf [OF q wf] no assms(3,4), of tok page] run by simp_all
    moreover have "r \<noteq> Plain 409 []"
      using run assms(3,4) by (auto simp: web_mux_def post_route_def webWriteExempt_def Let_def requireCSRF_def requireSetup_def ws
          screen_def postSSOSettings_def postSSOUnlink_def split: if_splits prod.splits option.splits sum.splits)
    ultimately show ?thesis using q by (simp add: quiet_def)
  next
    case (Some y)
    then have "r = Plain 409 []" "s' = s1" using sv assms(2-5) ws by (simp_all add: web_serve_def web_WriteGate_def)
    moreover obtain x where "presented e rq x s" by (rule web_session_Some [OF ws [unfolded Some]])
    ultimately show ?thesis using q by (auto simp: quiet_def)
  qed
qed

theorem replica_refuses_forms_witness:
  "fst (web_serve [] count_page (web_env 9\<lparr>we_replica := True\<rparr>) (web_post ''/records/new'' [(CookieName, ''id'')] [(''csrf_token'', ''csrf'')])
     (web_run [] count_page [(web_env 5, web_post ''/login'' [] [(''password'', ''correct horse'')])] (web_start (NewSessions 60 600) (home_admin []) 0))) = Plain 409 [] \<and>
   w_rest (snd (web_serve [] count_page (web_env 9\<lparr>we_replica := True\<rparr>) (web_post ''/records/new'' [(CookieName, ''id'')] [(''csrf_token'', ''csrf'')])
     (web_run [] count_page [(web_env 5, web_post ''/login'' [] [(''password'', ''correct horse'')])] (web_start (NewSessions 60 600) (home_admin []) 0)))) = 0"
  (is "fst (web_serve [] count_page ?e ?rq ?s) = _ \<and> _")
proof -
  have "we_replica ?e" "\<not> reads ?rq" "rq_path ?rq \<notin> set webWriteExempt" "\<not> HasPrefix (rq_path ?rq) PathPrefix" by code_simp+
  from replica_refuses_forms [OF refl this prod.collapse [symmetric], where tok = "[]" and page = count_page and t = "home_admin []" and node = 0
      and idle = 60 and absolute = 600 and evs = "[(web_env 5, web_post ''/login'' [] [(''password'', ''correct horse'')])]"] have "w_rest (snd (web_serve [] count_page ?e ?rq ?s)) = w_rest ?s"
    by (elim conjE) assumption
  moreover have "w_rest ?s = 0" "fst (web_serve [] count_page ?e ?rq ?s) = Plain 409 []" by code_simp+
  ultimately show ?thesis by simp
qed

section \<open>Whose identity\<close>

text \<open>The OIDC library reads a token's subject, and that of the user info, from the claim \<^verbatim>\<open>sub\<close>.\<close>

definition names_subject :: "(string, claim) gomap \<Rightarrow> string \<Rightarrow> bool" where
  "names_subject m sub = (\<forall>(k, v) \<in> set m. k = ''sub'' \<longrightarrow> v = CStr sub)"

lemma fold_put_subject:
  "m_get m ''sub'' = Some (CStr sub) \<Longrightarrow> names_subject uc sub \<Longrightarrow> m_get (fold (\<lambda>(k, v) m. m_put k v m) uc m) ''sub'' = Some (CStr sub)"
  by (induction uc arbitrary: m) (auto simp: names_subject_def)

text \<open>
  The identity that signs in is the one the provider's verified token names. Claims come out of an exchange only with a verified ID token whose
  nonce is the one this browser was given and whose subject is not empty; and merging in the user info, which may bring any other claims, cannot
  change the subject.
\<close>

theorem exchange_keeps_the_subject:
  assumes "ExchangeCode p code verifier nonce = Inr c"
    and "\<And>tok raw. ip_exchange p code verifier = Inr tok \<Longrightarrow> it_Claims tok = Some raw \<Longrightarrow> m_get raw ''sub'' = Some (CStr (it_Subject tok))"
    and "\<And>ui uc. ip_userinfo p code = Some ui \<Longrightarrow> ui_Claims ui = Some uc \<Longrightarrow> names_subject uc (ui_Subject ui)"
  shows "\<exists>tok. ip_exchange p code verifier = Inr tok \<and> it_Nonce tok = nonce \<and> nonce \<noteq> [] \<and> cl_Sub c = it_Subject tok \<and> cl_Sub c \<noteq> []"
proof -
  have sub: "cl_Sub (parseClaimsMap m) = x" if "m_get m ''sub'' = Some (CStr x)" for m x
    using that by (simp add: parseClaimsMap_def claim_str_def Let_def)
  obtain tok raw where tok: "ip_exchange p code verifier = Inr tok" "it_Claims tok = Some raw" "it_Nonce tok = nonce" "nonce \<noteq> []" "it_Subject tok \<noteq> []"
    using assms(1) by (auto simp: ExchangeCode_def split: sum.splits option.splits if_splits)
  have "cl_Sub c = it_Subject tok"
    using assms(1) tok assms(2) [OF tok(1,2)] assms(3)
    by (fastforce simp: ExchangeCode_def split: option.splits if_splits intro!: sub fold_put_subject)
  then show ?thesis using tok by simp
qed

definition kysignon :: "(string, claim) gomap \<Rightarrow> idp" where
  "kysignon ui = \<lparr>ip_exchange = (\<lambda>_ _. Inr \<lparr>it_Nonce = ''no'', it_Subject = ''u1'', it_Claims = Some [(''sub'', CStr ''u1''), (''role'', CStr ''user'')]\<rparr>),
     ip_userinfo = (\<lambda>_. Some \<lparr>ui_Subject = ''u1'', ui_Claims = Some ui\<rparr>)\<rparr>"

theorem exchange_keeps_the_subject_witness:
  "\<exists>c. ExchangeCode (kysignon [(''role'', CStr ''Admin''), (''sub'', CStr ''u1'')]) ''code'' ''ve'' ''no'' = Inr c \<and> cl_Sub c = ''u1'' \<and> IsAdmin c"
proof -
  let ?p = "kysignon [(''role'', CStr ''Admin''), (''sub'', CStr ''u1'')]"
  have "is_ok (ExchangeCode ?p ''code'' ''ve'' ''no'')" by code_simp
  then obtain c where c: "ExchangeCode ?p ''code'' ''ve'' ''no'' = Inr c" by (auto simp: is_ok_def split: sum.splits)
  have "case ExchangeCode ?p ''code'' ''ve'' ''no'' of Inl _ \<Rightarrow> False | Inr c \<Rightarrow> IsAdmin c" by code_simp
  moreover have "\<exists>tok. ip_exchange ?p ''code'' ''ve'' = Inr tok \<and> it_Nonce tok = ''no'' \<and> ''no'' \<noteq> [] \<and> cl_Sub c = it_Subject tok \<and> cl_Sub c \<noteq> []"
    by (rule exchange_keeps_the_subject [OF c]) (auto simp: kysignon_def names_subject_def m_get_def)
  ultimately show ?thesis using c by (simp add: kysignon_def)
qed

section \<open>Two open doors\<close>

text \<open>
  \<^verbatim>\<open>ensureSetupToken\<close> of \<^verbatim>\<open>internal/app/serve.go\<close>: no token is minted for a server that has its admin, so the token is empty. And a read that fails
  counts as no admin: one such failure lets a setup form without any token replace the password of the admin, and gives its sender a session.
\<close>

definition ensureSetupToken :: "bool \<Rightarrow> string \<Rightarrow> string option \<Rightarrow> ltables \<Rightarrow> (string, string) result" where
  "ensureSetupToken fails random write t =
     (if fails then Inl ''read'' else if HasAdmin t then Inr [] else case write of Some e \<Rightarrow> Inl e | None \<Rightarrow> Inr random)"

lemma setup_fails_open:
  assumes "HasAdmin t" and "ensureSetupToken False random w t = Inr tok" and "we_hasadmin_fails e" and "we_write e = None"
    and "we_hash e pw = Inr h" and "12 \<le> length pw"
  shows "let (r, s') = web_serve tok page e (web_post ''/setup'' [] [(''password'', pw), (''confirm'', pw)]) (web_start ss t x0)
    in r = Redirect ''/'' [(CookieName, we_id e)] \<and> AdminHash (w_local s') = Inr h"
  using assms
  by (simp add: web_serve_def web_WriteGate_def webWriteExempt_def web_mux_def reads_def post_route_def web_post_def PathSetup_def Let_def
      postSetup_def hasAdmin_def FormValue_def m_get_def MinPasswordLen_def ensureSetupToken_def sign_in_def sn_Create_def setSessionCookie_def
      SetAdminPassword_def run_tx_def AdminHash_def web_start_def split: option.split)

text \<open>
  The callback never asks whether single sign-on is on. With it off and nobody linked, the link route hands a stranger the three cookies, and
  anyone who is an administrator at the provider then signs in by leaving out the fourth; the link and the switch are set on the way.
\<close>

definition sso_off_visit :: "(string \<times> string) list \<Rightarrow> wreq" where
  "sso_off_visit cookies = web_get ''/auth/sso/callback'' cookies [(''state'', ''st''), (''code'', ''code'')]"

lemma sso_signs_in_while_off:
  "let e = web_env 5\<lparr>we_idp := \<lambda>_. kysignon [(''role'', CStr ''admin'')]\<rparr>;
       s = web_start (NewSessions 60 600) (home_admin []) (0 :: nat);
       (r1, s1) = web_serve [] count_page e (web_get ''/auth/sso/login'' [] [(''link'', ''true'')]) s;
       cookies = (case r1 of ToIdP cs \<Rightarrow> filter (\<lambda>(k, v). k \<noteq> ''kydns_sso_link'') cs | _ \<Rightarrow> []);
       (r2, s2) = web_serve [] count_page e (sso_off_visit cookies) s1
   in \<not> sso_Enabled (SSOSettings (w_local s)) \<and> map fst cookies = [''kydns_sso_state'', ''kydns_sso_verifier'', ''kydns_sso_nonce''] \<and>
      r2 = Redirect ''/'' [(CookieName, ''id'')] \<and> sso_Enabled (SSOSettings (w_local s2))"
  by code_simp

end
