(* ===== verification/AdminApi.thy ===== *)
theory AdminApi
  imports DnsMetrics DnsAuth DhcpIface Health WebAuth BlacklistSafety RegistrySafety SettingsSafety DhcpServer DnsCache
begin

text \<open>
  The JSON API: \<^verbatim>\<open>internal/adminapi/api.go\<close>, \<^verbatim>\<open>settings.go\<close>, \<^verbatim>\<open>blacklists.go\<close> and \<^verbatim>\<open>dhcp.go\<close>. Its handlers decode a document, call the registry, the
  blacklist service or the settings service, and answer with a status and a document. The bearer check and the write gate of a replica stand before them.

  A request's body is given as the parsed JSON value, or nothing when it does not parse; an imported document as the decoder of the YAML library
  leaves it. Paths have no escapes. Every optional part is wired, as \<^verbatim>\<open>serve.go\<close> does it. The pairing, promotion and
  backup endpoints are an argument, any handler on the node.
\<close>

section \<open>Decoding\<close>

datatype json = JNull | JBool bool | JNum int | JFloat | JStr string | JArr "json list" | JObj "(string \<times> json) list"

text \<open>
  \<^verbatim>\<open>encoding/json\<close> onto a value that is there: null leaves it, except a slice, which it clears; an array overwrites
  element by element; a field is found without regard to case; an unknown one is skipped; a wrong type is an error. Beside the letters of ASCII two
  characters fold to one of them: U+017F to \<open>s\<close> and U+212A to \<open>k\<close>. The names of the fields are lower case.
\<close>

fun fold_key :: "string \<Rightarrow> string" where
  "fold_key [] = []"
| "fold_key (c # t) =
     (if c = CHR 0xC5 \<and> take 1 t = [CHR 0xBF] then CHR ''s'' # fold_key (drop 1 t)
      else if c = CHR 0xE2 \<and> take 2 t = [CHR 0x84, CHR 0xAA] then CHR ''k'' # fold_key (drop 2 t)
      else lower_char c # fold_key t)"

definition dec_str :: "json \<Rightarrow> string \<Rightarrow> string option" where
  "dec_str j old = (case j of JNull \<Rightarrow> Some old | JStr s \<Rightarrow> Some s | _ \<Rightarrow> None)"

definition dec_bool :: "json \<Rightarrow> bool \<Rightarrow> bool option" where
  "dec_bool j old = (case j of JNull \<Rightarrow> Some old | JBool b \<Rightarrow> Some b | _ \<Rightarrow> None)"

definition dec_int :: "json \<Rightarrow> int \<Rightarrow> int option" where
  "dec_int j old = (case j of JNull \<Rightarrow> Some old | JNum n \<Rightarrow> if - (2 ^ 63) \<le> n \<and> n < 2 ^ 63 then Some n else None | _ \<Rightarrow> None)"

fun dec_elems :: "(json \<Rightarrow> 'a \<Rightarrow> 'a option) \<Rightarrow> 'a \<Rightarrow> json list \<Rightarrow> 'a list \<Rightarrow> 'a list option" where
  "dec_elems dec zero [] old = Some []"
| "dec_elems dec zero (j # js) old =
     (case dec j (case old of [] \<Rightarrow> zero | x # _ \<Rightarrow> x) of
        None \<Rightarrow> None
      | Some x \<Rightarrow> map_option ((#) x) (dec_elems dec zero js (drop 1 old)))"

definition dec_list :: "(json \<Rightarrow> 'a \<Rightarrow> 'a option) \<Rightarrow> 'a \<Rightarrow> json \<Rightarrow> 'a list \<Rightarrow> 'a list option" where
  "dec_list dec zero j old = (case j of JNull \<Rightarrow> Some [] | JArr js \<Rightarrow> dec_elems dec zero js old | _ \<Rightarrow> None)"

type_synonym 'r field = "string \<times> (json \<Rightarrow> 'r \<Rightarrow> 'r option)"

fun dec_pairs :: "'r field list \<Rightarrow> (string \<times> json) list \<Rightarrow> 'r \<Rightarrow> 'r option" where
  "dec_pairs fs [] r = Some r"
| "dec_pairs fs ((k, j) # kvs) r =
     (case find (\<lambda>f. fst f = fold_key k) fs of
        None \<Rightarrow> dec_pairs fs kvs r
      | Some f \<Rightarrow> (case snd f j r of None \<Rightarrow> None | Some r \<Rightarrow> dec_pairs fs kvs r))"

definition dec_struct :: "'r field list \<Rightarrow> json \<Rightarrow> 'r \<Rightarrow> 'r option" where
  "dec_struct fs j r = (case j of JNull \<Rightarrow> Some r | JObj kvs \<Rightarrow> dec_pairs fs kvs r | _ \<Rightarrow> None)"

definition address_fields :: "address field list" where
  "address_fields =
     [(''address'', \<lambda>j a. map_option (\<lambda>x. a\<lparr>addr_Address := x\<rparr>) (dec_str j (addr_Address a))),
      (''view'', \<lambda>j a. map_option (\<lambda>x. a\<lparr>addr_View := x\<rparr>) (dec_str j (addr_View a)))]"

definition blank_address :: address where
  "blank_address = \<lparr>addr_ID = 0, addr_Address = [], addr_View = []\<rparr>"

definition service_fields :: "service field list" where
  "service_fields =
     [(''id'', \<lambda>j d. map_option (\<lambda>x. d\<lparr>svc_ID := x\<rparr>) (dec_int j (svc_ID d))),
      (''name'', \<lambda>j d. map_option (\<lambda>x. d\<lparr>svc_Name := x\<rparr>) (dec_str j (svc_Name d))),
      (''addresses'', \<lambda>j d. map_option (\<lambda>x. d\<lparr>svc_Addresses := x\<rparr>) (dec_list (dec_struct address_fields) blank_address j (svc_Addresses d))),
      (''aliases'', \<lambda>j d. map_option (\<lambda>x. d\<lparr>svc_Aliases := x\<rparr>) (dec_list dec_str [] j (svc_Aliases d))),
      (''check_url'', \<lambda>j d. map_option (\<lambda>x. d\<lparr>svc_CheckURL := x\<rparr>) (dec_str j (svc_CheckURL d))),
      (''check_insecure'', \<lambda>j d. map_option (\<lambda>x. d\<lparr>svc_CheckInsecure := x\<rparr>) (dec_bool j (svc_CheckInsecure d))),
      (''proxy_address'', \<lambda>j d. map_option (\<lambda>x. d\<lparr>svc_ProxyAddress := x\<rparr>) (dec_str j (svc_ProxyAddress d))),
      (''route_via_proxy'', \<lambda>j d. map_option (\<lambda>x. d\<lparr>svc_RouteViaProxy := x\<rparr>) (dec_bool j (svc_RouteViaProxy d))),
      (''mac'', \<lambda>j d. map_option (\<lambda>x. d\<lparr>svc_MAC := x\<rparr>) (dec_str j (svc_MAC d)))]"

definition blank_service :: service where
  "blank_service = \<lparr>svc_ID = 0, svc_Name = [], svc_Addresses = [], svc_Aliases = [], svc_CheckURL = [], svc_CheckInsecure = False,
     svc_ProxyAddress = [], svc_RouteViaProxy = False, svc_MAC = []\<rparr>"

text \<open>The document has no identifiers of addresses: \<^verbatim>\<open>toServiceDTO\<close> drops them.\<close>

definition toServiceDTO :: "service \<Rightarrow> service" where
  "toServiceDTO s = s\<lparr>svc_Addresses := map (\<lambda>a. a\<lparr>addr_ID := 0\<rparr>) (svc_Addresses s)\<rparr>"

definition record_fields :: "record_row field list" where
  "record_fields =
     [(''id'', \<lambda>j r. map_option (\<lambda>x. r\<lparr>rec_ID := x\<rparr>) (dec_int j (rec_ID r))),
      (''name'', \<lambda>j r. map_option (\<lambda>x. r\<lparr>rec_Name := x\<rparr>) (dec_str j (rec_Name r))),
      (''type'', \<lambda>j r. map_option (\<lambda>x. r\<lparr>rec_Type := x\<rparr>) (dec_str j (rec_Type r))),
      (''value'', \<lambda>j r. map_option (\<lambda>x. r\<lparr>rec_Value := x\<rparr>) (dec_str j (rec_Value r))),
      (''view'', \<lambda>j r. map_option (\<lambda>x. r\<lparr>rec_View := x\<rparr>) (dec_str j (rec_View r)))]"

definition blank_record :: record_row where
  "blank_record = \<lparr>rec_ID = 0, rec_Name = [], rec_Type = [], rec_Value = [], rec_View = []\<rparr>"

definition view_fields :: "view field list" where
  "view_fields =
     [(''name'', \<lambda>j v. map_option (\<lambda>x. v\<lparr>view_Name := x\<rparr>) (dec_str j (view_Name v))),
      (''subnets'', \<lambda>j v. map_option (\<lambda>x. v\<lparr>view_Subnets := x\<rparr>) (dec_list dec_str [] j (view_Subnets v)))]"

definition list_fields :: "blacklist_list field list" where
  "list_fields =
     [(''id'', \<lambda>j l. map_option (\<lambda>x. l\<lparr>bl_ID := x\<rparr>) (dec_int j (bl_ID l))),
      (''name'', \<lambda>j l. map_option (\<lambda>x. l\<lparr>bl_Name := x\<rparr>) (dec_str j (bl_Name l))),
      (''url'', \<lambda>j l. map_option (\<lambda>x. l\<lparr>bl_URL := x\<rparr>) (dec_str j (bl_URL l))),
      (''format'', \<lambda>j l. map_option (\<lambda>x. l\<lparr>bl_Format := x\<rparr>) (dec_str j (bl_Format l))),
      (''description'', \<lambda>j l. map_option (\<lambda>x. l\<lparr>bl_Description := x\<rparr>) (dec_str j (bl_Description l))),
      (''enabled'', \<lambda>j l. map_option (\<lambda>x. l\<lparr>bl_Enabled := x\<rparr>) (dec_bool j (bl_Enabled l))),
      (''builtin'', \<lambda>j l. map_option (\<lambda>x. l\<lparr>bl_Builtin := x\<rparr>) (dec_bool j (bl_Builtin l))),
      (''interval_seconds'', \<lambda>j l. map_option (\<lambda>x. l\<lparr>bl_IntervalSeconds := x\<rparr>) (dec_int j (bl_IntervalSeconds l))),
      (''entry_count'', \<lambda>j l. map_option (\<lambda>_. l) (dec_int j 0)), (''skipped_count'', \<lambda>j l. map_option (\<lambda>_. l) (dec_int j 0)),
      (''last_ok_at'', \<lambda>j l. map_option (\<lambda>_. l) (dec_int j 0)), (''last_attempt_at'', \<lambda>j l. map_option (\<lambda>_. l) (dec_int j 0)),
      (''last_error'', \<lambda>j l. map_option (\<lambda>_. l) (dec_str j []))]"

definition blank_list :: blacklist_list where
  "blank_list = \<lparr>bl_ID = 0, bl_Name = [], bl_URL = [], bl_Format = [], bl_Description = [], bl_Enabled = False, bl_Builtin = False, bl_IntervalSeconds = 0,
     bl_LastAttemptAt = 0, bl_LastOKAt = 0, bl_LastError = [], bl_ETag = [], bl_LastModified = [], bl_EntryCount = 0, bl_SkippedCount = 0, bl_Snapshot = []\<rparr>"

definition fromBlacklistListDTO :: "blacklist_list \<Rightarrow> blacklist_list" where
  "fromBlacklistListDTO d = blank_list\<lparr>bl_ID := bl_ID d, bl_Name := bl_Name d, bl_URL := bl_URL d, bl_Format := bl_Format d, bl_Description := bl_Description d,
     bl_Enabled := bl_Enabled d, bl_Builtin := bl_Builtin d, bl_IntervalSeconds := bl_IntervalSeconds d\<rparr>"

text \<open>The settings with the confirmation that travels beside them.\<close>

definition set_field :: "(json \<Rightarrow> 'a \<Rightarrow> 'a option) \<Rightarrow> (settings \<Rightarrow> 'a) \<Rightarrow> ('a \<Rightarrow> settings \<Rightarrow> settings) \<Rightarrow> json \<Rightarrow> settings \<times> string \<Rightarrow> (settings \<times> string) option" where
  "set_field dec get put j d = map_option (\<lambda>x. (put x (fst d), snd d)) (dec j (get (fst d)))"

definition settings_fields :: "(settings \<times> string) field list" where
  "settings_fields =
     [(''private_domain'', set_field dec_str PrivateDomain (\<lambda>x v. v\<lparr>PrivateDomain := x\<rparr>)),
      (''reverse_zones'', set_field (dec_list dec_str []) ReverseZones (\<lambda>x v. v\<lparr>ReverseZones := x\<rparr>)),
      (''upstreams'', set_field (dec_list dec_str []) Upstreams (\<lambda>x v. v\<lparr>Upstreams := x\<rparr>)),
      (''allow_query'', set_field (dec_list dec_str []) AllowQuery (\<lambda>x v. v\<lparr>AllowQuery := x\<rparr>)),
      (''allow_tailscale'', set_field dec_bool AllowTailscale (\<lambda>x v. v\<lparr>AllowTailscale := x\<rparr>)),
      (''ttl'', set_field dec_int TTL (\<lambda>x v. v\<lparr>TTL := x\<rparr>)),
      (''cache_min_ttl'', set_field dec_int CacheMinTTL (\<lambda>x v. v\<lparr>CacheMinTTL := x\<rparr>)),
      (''cache_max_ttl'', set_field dec_int CacheMaxTTL (\<lambda>x v. v\<lparr>CacheMaxTTL := x\<rparr>)),
      (''negative_max_ttl'', set_field dec_int NegativeMaxTTL (\<lambda>x v. v\<lparr>NegativeMaxTTL := x\<rparr>)),
      (''cache_entries'', set_field dec_int CacheEntries (\<lambda>x v. v\<lparr>CacheEntries := x\<rparr>)),
      (''log_queries'', set_field dec_bool LogQueries (\<lambda>x v. v\<lparr>LogQueries := x\<rparr>)),
      (''log_client_ip'', set_field dec_bool LogClientIP (\<lambda>x v. v\<lparr>LogClientIP := x\<rparr>)),
      (''dhcp_lease_file'', set_field dec_str DHCPLeaseFile (\<lambda>x v. v\<lparr>DHCPLeaseFile := x\<rparr>)),
      (''discovery_interval'', set_field dec_int DiscoveryInterval (\<lambda>x v. v\<lparr>DiscoveryInterval := x\<rparr>)),
      (''health_interval'', set_field dec_int HealthInterval (\<lambda>x v. v\<lparr>HealthInterval := x\<rparr>)),
      (''health_timeout'', set_field dec_int HealthTimeout (\<lambda>x v. v\<lparr>HealthTimeout := x\<rparr>)),
      (''health_workers'', set_field dec_int HealthWorkers (\<lambda>x v. v\<lparr>HealthWorkers := x\<rparr>)),
      (''dhcp_enabled'', set_field dec_bool DHCPEnabled (\<lambda>x v. v\<lparr>DHCPEnabled := x\<rparr>)),
      (''dhcp_interface'', set_field dec_str DHCPInterface (\<lambda>x v. v\<lparr>DHCPInterface := x\<rparr>)),
      (''dhcp_range_start'', set_field dec_str DHCPRangeStart (\<lambda>x v. v\<lparr>DHCPRangeStart := x\<rparr>)),
      (''dhcp_range_end'', set_field dec_str DHCPRangeEnd (\<lambda>x v. v\<lparr>DHCPRangeEnd := x\<rparr>)),
      (''dhcp_gateway'', set_field dec_str DHCPGateway (\<lambda>x v. v\<lparr>DHCPGateway := x\<rparr>)),
      (''dhcp_lease_seconds'', set_field dec_int DHCPLeaseSeconds (\<lambda>x v. v\<lparr>DHCPLeaseSeconds := x\<rparr>)),
      (''dhcp_secondary_dns'', set_field dec_str DHCPSecondaryDNS (\<lambda>x v. v\<lparr>DHCPSecondaryDNS := x\<rparr>)),
      (''dhcp_allow_foreign'', set_field dec_bool DHCPAllowForeign (\<lambda>x v. v\<lparr>DHCPAllowForeign := x\<rparr>)),
      (''confirm_public'', \<lambda>j d. map_option (\<lambda>x. (fst d, x)) (dec_str j (snd d)))]"

section \<open>Answers\<close>

record bl_doc =
  bd_Enabled :: bool
  bd_BlockTTL :: int
  bd_Lists :: "blacklist_list list"
  bd_Rules :: "blacklist_rule list"

record transfer =
  tr_Views :: "view list"
  tr_Services :: "service list"
  tr_Records :: "record_row list"
  tr_Blacklist :: "bl_doc option"
  tr_Settings :: "settings option"

record replica_status =
  rst_Role :: string
  rst_PrimaryAddr :: string
  rst_PrimaryNodeID :: string
  rst_NodeID :: string
  rst_LastSyncUnix :: int
  rst_LastVersion :: int
  rst_LastError :: string
  rst_Stale :: bool

record dhcp_status =
  ds_Running :: bool
  ds_Error :: string
  ds_Supported :: bool
  ds_Reason :: string
  ds_Foreign :: "(string \<times> string) list"
  ds_Problems :: "reservation_problem list"
  ds_DualStack :: bool

record dhcp_suggestion =
  sg_Interface :: string
  sg_Subnet :: string
  sg_RangeStart :: string
  sg_RangeEnd :: string
  sg_Gateway :: string
  sg_LeaseSeconds :: int
  sg_DualStack :: bool

record stats_doc =
  sd_queries :: "(string \<times> 64 word) list"
  sd_lastQuery :: int
  sd_uptime :: int
  sd_history :: "bucket list"
  sd_refusals :: "64 word \<times> 64 word \<times> int"
  sd_cache :: "int \<times> 64 word \<times> 64 word \<times> 64 word"
  sd_blocked :: "64 word \<times> (string, 64 word) gomap \<times> (string \<times> 64 word) list"

text \<open>
  A response is its status with its document: of a token, never the hash. \<open>ARedirect\<close> sends the client to the cleaned path;
  \<open>AWeb\<close> leaves the request to the routes of the web listener, which share the mux.
\<close>

datatype aresp =
    AOk nat
  | AOkID nat int
  | AToken string
  | AFail nat string
  | AServices "service list"
  | AService service
  | ARecords "record_row list"
  | AViews "view list"
  | ATokens "(int \<times> string \<times> int \<times> int) list"
  | AExport bool transfer
  | ALeases "(string \<times> string \<times> string \<times> int) list"
  | AHealth "(int \<times> string \<times> string \<times> int \<times> string) list"
  | AStats stats_doc
  | ABlSettings bool int
  | ALists "blacklist_list list"
  | ARules "blacklist_rule list"
  | ATest string bool string
  | ASettings settings
  | AReplica replica_status
  | ADHCP dhcp_status
  | ASuggest dhcp_suggestion
  | AHealthz bool
  | ARedirect
  | AWeb

definition registry_status :: "app_error \<Rightarrow> aresp" where
  "registry_status e =
     (case e of
        Invalid field code \<Rightarrow> AFail 400 code
      | StoreErr (ErrNotFound x) \<Rightarrow> AFail 404 ''not_found''
      | StoreErr (ErrViewInUse x) \<Rightarrow> AFail 409 ''view_in_use''
      | StoreErr (ErrDuplicateName x) \<Rightarrow> AFail 409 ''conflict''
      | StoreErr (ErrDuplicateCIDR x) \<Rightarrow> AFail 409 ''conflict''
      | _ \<Rightarrow> AFail 500 ''internal'')"

definition settings_status :: "set_error \<Rightarrow> aresp" where
  "settings_status e =
     (case e of
        FieldError f \<Rightarrow> AFail 400 ''invalid''
      | ErrReadOnlyReplica \<Rightarrow> AFail 409 ''read_only_replica''
      | SetStoreErr e \<Rightarrow> registry_status (StoreErr e)
      | _ \<Rightarrow> AFail 500 ''internal'')"

definition malformed :: aresp where
  "malformed = AFail 400 ''malformed_json''"

section \<open>The node and a request\<close>

record ('h, 'k, 'x) node =
  nd_reg :: "'h registry"
  nd_pol :: pol
  nd_set :: "'k set_service"
  nd_cache :: cache
  nd_rest :: 'x

record areq =
  aq_method :: string
  aq_path :: string
  aq_auth :: string
  aq_query :: "(string, string) gomap"
  aq_body :: "json option"
  aq_doc :: "transfer option"

text \<open>
  What a request meets: the errors of its writes, in order, the callback of the registry, the hash and the clock, the settings service's library, read
  error and fan-out, the policy's readers, parsers, manifest and downloads, the role with its status, and the discovered leases; and, for the reads, the
  error a read of the database fails with, the check of the public health, and what the checker, the access list, the counters, the DHCP runner and the
  network interfaces report at that moment.
\<close>

record dhcp_report =
  dh_running :: bool
  dh_error :: "string option"
  dh_foreign :: "foreign list"
  dh_problems :: "reservation_problem list"

record iface_report =
  if_Subnet :: netprefix
  if_Gateway :: addr
  if_HasGlobalIPv6 :: bool

record ('h, 'k) aenv =
  an_io :: "nat \<Rightarrow> string option"
  an_chg :: "'h on_change"
  an_sha :: "string \<Rightarrow> string"
  an_random :: string
  an_now :: int
  an_lib :: setlib
  an_first :: nat
  an_rd :: "string option"
  an_apply :: "set_snapshot \<Rightarrow> 'k \<Rightarrow> 'k"
  an_src :: "string option"
  an_url :: "string \<Rightarrow> (string, url) result"
  an_ascii :: "string \<Rightarrow> string option"
  an_manifest :: "(string, manifest) result"
  an_fetch :: "blacklist_list \<Rightarrow> renv"
  an_status :: replica_status
  an_discovery :: bool
  an_leases :: "disc_lease list"
  an_read :: "string option"
  an_ping :: "string option"
  an_health :: "hstatus list"
  an_acl :: acl
  an_metrics :: metrics
  an_uptime :: int
  an_dhcp :: dhcp_report
  an_Qualifies :: "string \<Rightarrow> string option"
  an_Inspect :: "string \<Rightarrow> (string, iface_report) result"

definition roleReplica :: string where "roleReplica = ''replica''"

definition an_replica :: "('h, 'k) aenv \<Rightarrow> bool" where
  "an_replica e = (rst_Role (an_status e) = roleReplica)"

type_synonym ('h, 'k, 'x) ahandler = "('h, 'k, 'x) node \<Rightarrow> aresp \<times> ('h, 'k, 'x) node"

definition on_reg :: "('h registry \<Rightarrow> (app_error, 'a) result \<times> 'h registry) \<Rightarrow> ('a \<Rightarrow> aresp) \<Rightarrow> ('h, 'k, 'x) ahandler" where
  "on_reg f answer s =
     (case f (nd_reg s) of
        (Inl e, r) \<Rightarrow> (registry_status e, s\<lparr>nd_reg := r\<rparr>)
      | (Inr x, r) \<Rightarrow> (answer x, s\<lparr>nd_reg := r\<rparr>))"

definition on_pol :: "(pol \<Rightarrow> (app_error, 'a) result \<times> pol) \<Rightarrow> ('a \<Rightarrow> aresp) \<Rightarrow> ('h, 'k, 'x) ahandler" where
  "on_pol f answer s =
     (case f (nd_pol s) of
        (Inl e, p) \<Rightarrow> (registry_status e, s\<lparr>nd_pol := p\<rparr>)
      | (Inr x, p) \<Rightarrow> (answer x, s\<lparr>nd_pol := p\<rparr>))"

definition on_set :: "('k set_service \<Rightarrow> set_error option \<times> 'k set_service) \<Rightarrow> aresp \<Rightarrow> ('h, 'k, 'x) ahandler" where
  "on_set f answer s =
     (case f (nd_set s) of
        (Some e, x) \<Rightarrow> (settings_status e, s\<lparr>nd_set := x\<rparr>)
      | (None, x) \<Rightarrow> (answer, s\<lparr>nd_set := x\<rparr>))"

definition decode :: "(json \<Rightarrow> 'r \<Rightarrow> 'r option) \<Rightarrow> 'r \<Rightarrow> areq \<Rightarrow> ('r \<Rightarrow> ('h, 'k, 'x) ahandler) \<Rightarrow> ('h, 'k, 'x) ahandler" where
  "decode dec r rq next s =
     (case aq_body rq of None \<Rightarrow> (malformed, s) | Some j \<Rightarrow> (case dec j r of None \<Rightarrow> (malformed, s) | Some r \<Rightarrow> next r s))"

definition pathID :: "string \<Rightarrow> (int \<Rightarrow> ('h, 'k, 'x) ahandler) \<Rightarrow> ('h, 'k, 'x) ahandler" where
  "pathID raw next s = (case ParseInt64 raw of None \<Rightarrow> (AFail 400 ''id_invalid'', s) | Some i \<Rightarrow> next i s)"

text \<open>A read of the registry or the policy, which may fail.\<close>

definition reading :: "('h, 'k) aenv \<Rightarrow> ('h, 'k, 'x) ahandler \<Rightarrow> ('h, 'k, 'x) ahandler" where
  "reading e next s = (case an_read e of Some m \<Rightarrow> (registry_status (StoreErr (ErrDB m)), s) | None \<Rightarrow> next s)"

section \<open>Services, records, views, tokens\<close>

definition createService :: "('h, 'k) aenv \<Rightarrow> areq \<Rightarrow> ('h, 'k, 'x) ahandler" where
  "createService e rq = decode (dec_struct service_fields) blank_service rq (\<lambda>d. on_reg (reg_PutService (an_io e 0) (an_chg e) d) (AOkID 201))"

definition listServices :: "('h, 'k) aenv \<Rightarrow> ('h, 'k, 'x) ahandler" where
  "listServices e = reading e (\<lambda>s.
     (case Services (rg_tables (nd_reg s)) of Inl err \<Rightarrow> (registry_status (StoreErr err), s) | Inr svcs \<Rightarrow> (AServices (map toServiceDTO svcs), s)))"

definition getService :: "('h, 'k) aenv \<Rightarrow> string \<Rightarrow> ('h, 'k, 'x) ahandler" where
  "getService e raw = pathID raw (\<lambda>i. reading e (\<lambda>s.
     (case Service i (rg_tables (nd_reg s)) of Inl err \<Rightarrow> (registry_status (StoreErr err), s) | Inr svc \<Rightarrow> (AService (toServiceDTO svc), s))))"

text \<open>
  The merge of \<^verbatim>\<open>updateService\<close>: the body must be an object or null, and when it names the addresses, in any case, the old ones are out of the way
  before it is decoded.
\<close>

definition patched :: "service \<Rightarrow> json \<Rightarrow> service option" where
  "patched cur j =
     (case j of
        JNull \<Rightarrow> Some (toServiceDTO cur)
      | JObj kvs \<Rightarrow>
          let d = toServiceDTO cur;
              d = (if ''addresses'' \<in> ToLower ` fst ` set kvs then d\<lparr>svc_Addresses := []\<rparr> else d)
          in dec_pairs service_fields kvs d
      | _ \<Rightarrow> None)"

definition updateService :: "('h, 'k) aenv \<Rightarrow> areq \<Rightarrow> string \<Rightarrow> ('h, 'k, 'x) ahandler" where
  "updateService e rq raw = pathID raw (\<lambda>i s.
     (case Service i (rg_tables (nd_reg s)) of
        Inl err \<Rightarrow> (registry_status (StoreErr err), s)
      | Inr cur \<Rightarrow>
          (case (case aq_body rq of None \<Rightarrow> None | Some j \<Rightarrow> patched cur j) of
             None \<Rightarrow> (malformed, s)
           | Some d \<Rightarrow> on_reg (reg_PutService (an_io e 0) (an_chg e) (d\<lparr>svc_ID := i\<rparr>)) (\<lambda>_. AOkID 200 i) s)))"

definition deleteService :: "('h, 'k) aenv \<Rightarrow> string \<Rightarrow> ('h, 'k, 'x) ahandler" where
  "deleteService e raw = pathID raw (\<lambda>i. on_reg (reg_DeleteService (an_io e 0) (an_chg e) i) (\<lambda>_. AOk 204))"

definition listRecords :: "('h, 'k) aenv \<Rightarrow> ('h, 'k, 'x) ahandler" where
  "listRecords e = reading e (\<lambda>s. (ARecords (Records (rg_tables (nd_reg s))), s))"

definition createRecord :: "('h, 'k) aenv \<Rightarrow> areq \<Rightarrow> ('h, 'k, 'x) ahandler" where
  "createRecord e rq = decode (dec_struct record_fields) blank_record rq (\<lambda>r. on_reg (reg_PutRecord (an_io e 0) (an_chg e) (r\<lparr>rec_ID := 0\<rparr>)) (AOkID 201))"

definition deleteRecord :: "('h, 'k) aenv \<Rightarrow> string \<Rightarrow> ('h, 'k, 'x) ahandler" where
  "deleteRecord e raw = pathID raw (\<lambda>i. on_reg (reg_DeleteRecord (an_io e 0) (an_chg e) i) (\<lambda>_. AOk 204))"

definition listViews :: "('h, 'k) aenv \<Rightarrow> ('h, 'k, 'x) ahandler" where
  "listViews e = reading e (\<lambda>s. (AViews (Views (rg_tables (nd_reg s))), s))"

definition createView :: "('h, 'k) aenv \<Rightarrow> areq \<Rightarrow> ('h, 'k, 'x) ahandler" where
  "createView e rq = decode (dec_struct view_fields) \<lparr>view_Name = [], view_Subnets = []\<rparr> rq (\<lambda>v. on_reg (reg_PutView (an_io e 0) (an_chg e) v) (\<lambda>_. AOk 201))"

definition deleteView :: "('h, 'k) aenv \<Rightarrow> string \<Rightarrow> ('h, 'k, 'x) ahandler" where
  "deleteView e name = on_reg (reg_DeleteView (an_io e 0) (an_chg e) name) (\<lambda>_. AOk 204)"

definition listTokens :: "('h, 'k) aenv \<Rightarrow> ('h, 'k, 'x) ahandler" where
  "listTokens e = reading e (\<lambda>s.
     (ATokens (map (\<lambda>t. (tok_ID t, tok_Label t, tok_CreatedAt t, tok_LastUsedAt t)) (lt_tokens (rg_local (nd_reg s)))), s))"

definition createToken :: "('h, 'k) aenv \<Rightarrow> areq \<Rightarrow> ('h, 'k, 'x) ahandler" where
  "createToken e rq = decode (dec_struct [(''label'', dec_str)]) [] rq (\<lambda>label. on_reg (CreateToken (an_io e 0) (an_sha e) (an_random e) (an_now e) label) AToken)"

definition deleteToken :: "('h, 'k) aenv \<Rightarrow> string \<Rightarrow> ('h, 'k, 'x) ahandler" where
  "deleteToken e raw = pathID raw (\<lambda>i. on_reg (reg_DeleteToken (an_io e 0) i) (\<lambda>_. AOk 204))"

definition listLeases :: "('h, 'k) aenv \<Rightarrow> ('h, 'k, 'x) ahandler" where
  "listLeases e s = (ALeases (map (\<lambda>l. (d_Hostname l, d_IP l, d_MAC l, d_Expires l div 1000000000)) (an_leases e)), s)"

definition promoteLease :: "('h, 'k) aenv \<Rightarrow> string \<Rightarrow> ('h, 'k, 'x) ahandler" where
  "promoteLease e ip s =
     (if \<not> an_discovery e then (AFail 404 ''not_found'', s)
      else case find (\<lambda>l. d_IP l = ip) (an_leases e) of
          None \<Rightarrow> (AFail 404 ''not_found'', s)
        | Some l \<Rightarrow> on_reg (reg_PutService (an_io e 0) (an_chg e)
            (blank_service\<lparr>svc_Name := d_Hostname l, svc_Addresses := [blank_address\<lparr>addr_Address := d_IP l\<rparr>]\<rparr>)) (AOkID 201) s)"

text \<open>A zero time, which a replica's copy of its primary's verdicts carries, is shown as zero.\<close>

definition zero_time :: int where "zero_time = - 62135596800 * 1000000000"

definition listHealth :: "('h, 'k) aenv \<Rightarrow> ('h, 'k, 'x) ahandler" where
  "listHealth e s =
     (AHealth (map (\<lambda>h. (hs_ServiceID h, hs_Name h, hs_State h, if hs_Since h = zero_time then 0 else hs_Since h div 1000000000, hs_LastError h)) (an_health e)), s)"

definition topBlockedShown :: int where "topBlockedShown = 10"

definition stats :: "('h, 'k) aenv \<Rightarrow> ('h, 'k, 'x) ahandler" where
  "stats e s =
     (let m = an_metrics e; (total, byList) = Counters (po_holder (nd_pol s))
      in (AStats \<lparr>sd_queries =
              [(''total'', mt_total m), (''authoritative'', mt_authoritative m), (''forwarded'', mt_forwarded m), (''blocked'', mt_blocked m),
               (''refused'', mt_refused m), (''errors'', mt_errs m), (''noerror'', mt_noerror m), (''nxdomain'', mt_nxdomain m), (''servfail'', mt_servfail m),
               (''avg_ms'', AvgMS m)],
            sd_lastQuery = mt_lastQuery m, sd_uptime = an_uptime e, sd_history = hist_snapshot (an_now e) (mt_hist m),
            sd_refusals = (acl_total (an_acl e), acl_cgnat (an_acl e), acl_lastCGNAT (an_acl e)),
            sd_cache = (Len (nd_cache s), mt_cacheHits m, mt_cacheMisses m, CacheHitRate m),
            sd_blocked = (total, byList, TopBlocked topBlockedShown (po_holder (nd_pol s)))\<rparr>, s))"

definition getReplicaStatus :: "('h, 'k) aenv \<Rightarrow> ('h, 'k, 'x) ahandler" where
  "getReplicaStatus e s = (AReplica (an_status e), s)"

section \<open>DHCP\<close>

definition addrText :: "addr \<Rightarrow> string" where
  "addrText a = (if a = AddrZero then [] else show_addr a)"

definition DHCPStatus :: "('h, 'k) aenv \<Rightarrow> ('h, 'k, 'x) node \<Rightarrow> dhcp_status" where
  "DHCPStatus e s =
     (let d = an_dhcp e;
          out = \<lparr>ds_Running = dh_running d, ds_Error = (case dh_error d of None \<Rightarrow> [] | Some m \<Rightarrow> m), ds_Supported = False, ds_Reason = [],
                 ds_Foreign = map (\<lambda>f. (addrText (f_ServerID f), addrText (f_Offered f))) (dh_foreign d), ds_Problems = dh_problems d, ds_DualStack = False\<rparr>
      in case set_Get (nd_set s) of
           Inl _ \<Rightarrow> out
         | Inr v \<Rightarrow>
             if an_read e \<noteq> None \<or> DHCPInterface v = [] then out
             else case an_Qualifies e (DHCPInterface v) of
                 Some why \<Rightarrow> out\<lparr>ds_Reason := why\<rparr>
               | None \<Rightarrow>
                   out\<lparr>ds_Supported := True,
                     ds_DualStack := (case an_Inspect e (DHCPInterface v) of Inl _ \<Rightarrow> False | Inr info \<Rightarrow> if_HasGlobalIPv6 info)\<rparr>)"

definition getDHCPStatus :: "('h, 'k) aenv \<Rightarrow> ('h, 'k, 'x) ahandler" where
  "getDHCPStatus e s = (ADHCP (DHCPStatus e s), s)"

definition SuggestedLeaseSeconds :: int where "SuggestedLeaseSeconds = 86400"

definition DHCPSuggest :: "('h, 'k) aenv \<Rightarrow> string \<Rightarrow> dhcp_suggestion option" where
  "DHCPSuggest e name =
     (if name = [] then None
      else case an_Qualifies e name of
          Some _ \<Rightarrow> None
        | None \<Rightarrow>
            (case an_Inspect e name of
               Inl _ \<Rightarrow> None
             | Inr info \<Rightarrow>
                 (case SuggestRange (if_Subnet info) of
                    Inl _ \<Rightarrow> None
                  | Inr (start, end') \<Rightarrow>
                      Some \<lparr>sg_Interface = name, sg_Subnet = show_prefix (if_Subnet info), sg_RangeStart = show_addr start, sg_RangeEnd = show_addr end',
                        sg_Gateway = addrText (if_Gateway info), sg_LeaseSeconds = SuggestedLeaseSeconds, sg_DualStack = if_HasGlobalIPv6 info\<rparr>)))"

definition QueryGet :: "areq \<Rightarrow> string \<Rightarrow> string" where
  "QueryGet rq k = (case m_get (aq_query rq) k of None \<Rightarrow> [] | Some v \<Rightarrow> v)"

definition dhcpSuggest :: "('h, 'k) aenv \<Rightarrow> areq \<Rightarrow> ('h, 'k, 'x) ahandler" where
  "dhcpSuggest e rq s = (case DHCPSuggest e (QueryGet rq ''interface'') of None \<Rightarrow> (AFail 400 ''invalid'', s) | Some sug \<Rightarrow> (ASuggest sug, s))"

section \<open>Blacklists and settings\<close>

definition getBlacklistSettings :: "('h, 'k) aenv \<Rightarrow> ('h, 'k, 'x) ahandler" where
  "getBlacklistSettings e = reading e (\<lambda>s. let st = BlacklistSettings (po_tables (nd_pol s)) in (ABlSettings (bs_Enabled st) (bs_BlockTTL st), s))"

definition toBlacklistListDTO :: "blacklist_list \<Rightarrow> blacklist_list" where
  "toBlacklistListDTO l = l\<lparr>bl_ETag := [], bl_LastModified := [], bl_Snapshot := []\<rparr>"

definition listBlacklistLists :: "('h, 'k) aenv \<Rightarrow> ('h, 'k, 'x) ahandler" where
  "listBlacklistLists e = reading e (\<lambda>s. (ALists (map toBlacklistListDTO (BlacklistListMetas (po_tables (nd_pol s)))), s))"

definition patchBlacklistSettings :: "('h, 'k) aenv \<Rightarrow> areq \<Rightarrow> ('h, 'k, 'x) ahandler" where
  "patchBlacklistSettings e rq s =
     (let cur = BlacklistSettings (po_tables (nd_pol s))
      in decode (dec_struct [(''enabled'', \<lambda>j b. map_option (\<lambda>x. b\<lparr>bs_Enabled := x\<rparr>) (dec_bool j (bs_Enabled b))),
                             (''block_ttl'', \<lambda>j b. map_option (\<lambda>x. b\<lparr>bs_BlockTTL := x\<rparr>) (dec_int j (bs_BlockTTL b)))]) cur rq
           (\<lambda>d. on_pol (SetSettings (an_io e 0) (an_src e) (bs_Enabled d) (bs_BlockTTL d)) (\<lambda>_. AOk 200)) s)"

definition createBlacklistList :: "('h, 'k) aenv \<Rightarrow> areq \<Rightarrow> ('h, 'k, 'x) ahandler" where
  "createBlacklistList e rq =
     decode (dec_struct list_fields) (blank_list\<lparr>bl_Enabled := True\<rparr>) rq
       (\<lambda>d. on_pol (PutList (an_io e 0) (an_src e) (an_url e) (fromBlacklistListDTO (d\<lparr>bl_ID := 0\<rparr>))) (AOkID 201))"

text \<open>The list that is updated is the last one with the identifier.\<close>

definition updateBlacklistList :: "('h, 'k) aenv \<Rightarrow> areq \<Rightarrow> string \<Rightarrow> ('h, 'k, 'x) ahandler" where
  "updateBlacklistList e rq raw = pathID raw (\<lambda>i s.
     (case find (\<lambda>l. bl_ID l = i) (rev (BlacklistListMetas (po_tables (nd_pol s)))) of
        None \<Rightarrow> (AFail 404 ''not_found'', s)
      | Some cur \<Rightarrow> decode (dec_struct list_fields) cur rq
          (\<lambda>d. on_pol (PutList (an_io e 0) (an_src e) (an_url e) (fromBlacklistListDTO (d\<lparr>bl_ID := i\<rparr>))) (\<lambda>_. AOkID 200 i)) s))"

definition deleteBlacklistList :: "('h, 'k) aenv \<Rightarrow> string \<Rightarrow> ('h, 'k, 'x) ahandler" where
  "deleteBlacklistList e raw = pathID raw (\<lambda>i. on_pol (DeleteList (an_io e 0) (an_src e) i) (\<lambda>_. AOk 204))"

definition refreshBlacklistList :: "('h, 'k) aenv \<Rightarrow> string \<Rightarrow> ('h, 'k, 'x) ahandler" where
  "refreshBlacklistList e raw =
     (let run = (\<lambda>i s.
            if i = 0 then (case RefreshAll (an_rd e) (an_src e) (an_fetch e) (nd_pol s) of
                             (errs, p) \<Rightarrow> (if errs = [] then AOk 200 else AFail 502 ''refresh_failed'', s\<lparr>nd_pol := p\<rparr>))
            else (case BlacklistListByID i (po_tables (nd_pol s)) of
                    Inl err \<Rightarrow> (registry_status (StoreErr err), s)
                  | Inr l \<Rightarrow> (case RefreshList (an_src e) (an_fetch e l) i (nd_pol s) of
                               (None, p) \<Rightarrow> (AOk 200, s\<lparr>nd_pol := p\<rparr>)
                             | (Some _, p) \<Rightarrow> (AFail 502 ''refresh_failed'', s\<lparr>nd_pol := p\<rparr>))))
      in if raw = ''all'' then run 0 else pathID raw run)"

definition ruleKind :: "string \<Rightarrow> (string \<Rightarrow> ('h, 'k, 'x) ahandler) \<Rightarrow> ('h, 'k, 'x) ahandler" where
  "ruleKind raw next s = (let kind = ToLower raw in if kind \<noteq> PolicyAllow \<and> kind \<noteq> PolicyDeny then (AFail 404 ''not_found'', s) else next kind s)"

definition listBlacklistRules :: "('h, 'k) aenv \<Rightarrow> string \<Rightarrow> ('h, 'k, 'x) ahandler" where
  "listBlacklistRules e raw = ruleKind raw (\<lambda>kind. reading e (\<lambda>s. (ARules (filter (\<lambda>r. br_Kind r = kind) (BlacklistRules (po_tables (nd_pol s)))), s)))"

definition testBlacklist :: "('h, 'k) aenv \<Rightarrow> areq \<Rightarrow> ('h, 'k, 'x) ahandler" where
  "testBlacklist e rq s =
     (let name = QueryGet rq ''name''
      in if TrimSpace name = [] then (AFail 400 ''name_required'', s)
         else case Test (an_ascii e) name (nd_pol s) of
             Inl err \<Rightarrow> (registry_status err, s)
           | Inr d \<Rightarrow> (ATest name (Blocked d) (PolicyName d), s))"

definition createBlacklistRule :: "('h, 'k) aenv \<Rightarrow> areq \<Rightarrow> string \<Rightarrow> ('h, 'k, 'x) ahandler" where
  "createBlacklistRule e rq raw = ruleKind raw (\<lambda>kind. decode (dec_struct [(''domain'', dec_str)]) [] rq
     (\<lambda>domain. on_pol (AddRule (an_io e 0) (an_src e) (an_ascii e) kind domain) (AOkID 201)))"

definition deleteBlacklistRule :: "('h, 'k) aenv \<Rightarrow> string \<Rightarrow> string \<Rightarrow> ('h, 'k, 'x) ahandler" where
  "deleteBlacklistRule e kind raw = ruleKind kind (\<lambda>_. pathID raw (\<lambda>i. on_pol (DeleteRule (an_io e 0) (an_src e) i) (\<lambda>_. AOk 204)))"

definition settings_Set :: "('h, 'k) aenv \<Rightarrow> settings \<Rightarrow> string \<Rightarrow> 'k set_service \<Rightarrow> set_error option \<times> 'k set_service" where
  "settings_Set e v confirm = set_Set (an_lib e) (an_first e) (an_io e 0) (an_rd e) (an_apply e) (an_replica e) v confirm"

definition getSettings :: "('h, 'k) aenv \<Rightarrow> ('h, 'k, 'x) ahandler" where
  "getSettings e = reading e (\<lambda>s. (case set_Get (nd_set s) of Inl err \<Rightarrow> (AFail 500 ''internal'', s) | Inr cur \<Rightarrow> (ASettings cur, s)))"

definition patchSettings :: "('h, 'k) aenv \<Rightarrow> areq \<Rightarrow> ('h, 'k, 'x) ahandler" where
  "patchSettings e rq s =
     (case set_Get (nd_set s) of
        Inl err \<Rightarrow> (AFail 500 ''internal'', s)
      | Inr cur \<Rightarrow> decode (dec_struct settings_fields) (cur, []) rq (\<lambda>(v, confirm). on_set (settings_Set e v confirm) (AOk 200)) s)"

section \<open>Import\<close>

text \<open>A run of writes, each with its own error of the database, that stops at the first failure.\<close>

fun each :: "(nat \<Rightarrow> 'a \<Rightarrow> 's \<Rightarrow> ('e, 'b) result \<times> 's) \<Rightarrow> nat \<Rightarrow> 'a list \<Rightarrow> 's \<Rightarrow> 'e option \<times> 's" where
  "each f k [] s = (None, s)"
| "each f k (x # xs) s = (case f k x s of (Inl e, s) \<Rightarrow> (Some e, s) | (Inr _, s) \<Rightarrow> each f (Suc k) xs s)"

definition also_each :: "(nat \<Rightarrow> 'a \<Rightarrow> 's \<Rightarrow> ('e, 'b) result \<times> 's) \<Rightarrow> nat \<Rightarrow> 'a list \<Rightarrow> 'e option \<times> 's \<Rightarrow> 'e option \<times> 's" where
  "also_each f k xs r = (case r of (Some e, s) \<Rightarrow> (Some e, s) | (None, s) \<Rightarrow> each f k xs s)"

definition merge_registry :: "('h, 'k) aenv \<Rightarrow> transfer \<Rightarrow> 'h registry \<Rightarrow> app_error option \<times> 'h registry" where
  "merge_registry e doc r =
     (let n = length (tr_Views doc); m = n + length (tr_Services doc)
      in also_each (\<lambda>k x. reg_PutRecord (an_io e k) (an_chg e) (x\<lparr>rec_ID := 0\<rparr>)) m (tr_Records doc)
           (also_each (\<lambda>k. reg_PutService (an_io e k) (an_chg e)) n (tr_Services doc)
             (each (\<lambda>k. reg_PutView (an_io e k) (an_chg e)) 0 (tr_Views doc) r)))"

definition applyBlacklistDoc :: "('h, 'k) aenv \<Rightarrow> nat \<Rightarrow> bl_doc option \<Rightarrow> bool \<Rightarrow> pol \<Rightarrow> app_error option \<times> pol" where
  "applyBlacklistDoc e k doc replace p =
     (case doc of
        None \<Rightarrow> (None, p)
      | Some d \<Rightarrow>
          if replace then
            (case ReplacePolicy (an_io e k) (\<lambda>i. an_io e (Suc k + i)) (an_src e) (an_manifest e) (an_url e) (an_ascii e)
                    \<lparr>bs_Enabled = bd_Enabled d, bs_BlockTTL = bd_BlockTTL d\<rparr> (map fromBlacklistListDTO (bd_Lists d)) (bd_Rules d) p of
               (Inl err, p) \<Rightarrow> (Some err, p) | (Inr _, p) \<Rightarrow> (None, p))
          else
            (case SetSettings (an_io e k) (an_src e) (bd_Enabled d) (bd_BlockTTL d) p of
               (Inl err, p) \<Rightarrow> (Some err, p)
             | (Inr _, p) \<Rightarrow>
                 also_each (\<lambda>k r. AddRule (an_io e k) (an_src e) (an_ascii e) (br_Kind r) (br_Domain r)) (Suc k + length (bd_Lists d)) (bd_Rules d)
                   (each (\<lambda>k. PutList (an_io e k) (an_src e) (an_url e)) (Suc k) (map fromBlacklistListDTO (bd_Lists d)) p)))"

definition import_registry :: "('h, 'k) aenv \<Rightarrow> bool \<Rightarrow> transfer \<Rightarrow> 'h registry \<Rightarrow> app_error option \<times> 'h registry" where
  "import_registry e replace doc r =
     (if replace
      then (case reg_ReplaceAll (an_io e 0) (an_chg e) (tr_Views doc) (tr_Services doc) (map (\<lambda>x. x\<lparr>rec_ID := 0\<rparr>) (tr_Records doc)) r of
              (Inl err, r) \<Rightarrow> (Some err, r) | (Inr _, r) \<Rightarrow> (None, r))
      else merge_registry e doc r)"

definition import_writes :: "transfer \<Rightarrow> nat" where
  "import_writes doc = length (tr_Views doc) + length (tr_Services doc) + length (tr_Records doc)"

definition importDoc :: "('h, 'k) aenv \<Rightarrow> areq \<Rightarrow> ('h, 'k, 'x) ahandler" where
  "importDoc e rq s =
     (case aq_doc rq of
        None \<Rightarrow> (AFail 400 ''malformed_document'', s)
      | Some doc \<Rightarrow>
          (case (case tr_Settings doc of None \<Rightarrow> None | Some v \<Rightarrow> CheckWrite (an_lib e) (an_first e) v [] (nd_set s)) of
             Some err \<Rightarrow> (settings_status err, s)
           | None \<Rightarrow>
               let replace = (m_get (aq_query rq) ''mode'' = Some ''replace'')
               in case import_registry e replace doc (nd_reg s) of
                    (Some err, r) \<Rightarrow> (registry_status err, s\<lparr>nd_reg := r\<rparr>)
                  | (None, r) \<Rightarrow>
                      (case applyBlacklistDoc e (import_writes doc) (tr_Blacklist doc) replace (nd_pol s) of
                         (Some err, p) \<Rightarrow> (registry_status err, s\<lparr>nd_reg := r, nd_pol := p\<rparr>)
                       | (None, p) \<Rightarrow>
                           (case tr_Settings doc of
                              None \<Rightarrow> (AOk 200, s\<lparr>nd_reg := r, nd_pol := p\<rparr>)
                            | Some v \<Rightarrow> on_set (settings_Set e v []) (AOk 200) (s\<lparr>nd_reg := r, nd_pol := p\<rparr>)))))"

text \<open>\<^verbatim>\<open>snapshotDoc\<close>: what an export holds. Identifiers and runtime state have no place in it.\<close>

definition snapshotDoc :: "('h, 'k, 'x) node \<Rightarrow> (app_error, transfer) result" where
  "snapshotDoc s =
     (let t = rg_tables (nd_reg s); b = po_tables (nd_pol s)
      in case Services t of
           Inl e \<Rightarrow> Inl (StoreErr e)
         | Inr svcs \<Rightarrow>
             (case set_Get (nd_set s) of
                Inl e \<Rightarrow> Inl (OtherErr ''settings'')
              | Inr cur \<Rightarrow>
                  Inr \<lparr>tr_Views = Views t, tr_Services = map (\<lambda>x. (toServiceDTO x)\<lparr>svc_ID := 0\<rparr>) svcs,
                       tr_Records = map (\<lambda>r. r\<lparr>rec_ID := 0\<rparr>) (Records t),
                       tr_Blacklist = Some \<lparr>bd_Enabled = bs_Enabled (BlacklistSettings b), bd_BlockTTL = bs_BlockTTL (BlacklistSettings b),
                         bd_Lists = map (\<lambda>l. fromBlacklistListDTO (l\<lparr>bl_ID := 0\<rparr>)) (BlacklistListMetas b), bd_Rules = map (\<lambda>r. r\<lparr>br_ID := 0\<rparr>) (BlacklistRules b)\<rparr>,
                       tr_Settings = Some cur\<rparr>))"

definition export_doc :: "('h, 'k) aenv \<Rightarrow> areq \<Rightarrow> ('h, 'k, 'x) ahandler" where
  "export_doc e rq s =
     (case an_read e of
        Some m \<Rightarrow> (AFail 500 ''encode'', s)
      | None \<Rightarrow> (case snapshotDoc s of Inl err \<Rightarrow> (AFail 500 ''encode'', s) | Inr doc \<Rightarrow> (AExport (QueryGet rq ''format'' = ''json'') doc, s)))"

section \<open>Routes and gates\<close>

definition flushCache :: "('h, 'k, 'x) ahandler" where
  "flushCache s = (AOk 204, s\<lparr>nd_cache := Flush (nd_cache s)\<rparr>)"

definition PathReplicaPairPeek :: string where "PathReplicaPairPeek = ''/api/v1/replica/pair/peek''"
definition PathReplicaJoin :: string where "PathReplicaJoin = ''/api/v1/replica/join''"
definition PathReplicaPromote :: string where "PathReplicaPromote = ''/api/v1/replica/promote''"
definition PathSettings :: string where "PathSettings = ''/api/v1/settings''"

definition writeExempt :: "string list" where
  "writeExempt = [PathReplicaPairPeek, PathReplicaJoin, PathReplicaPromote, PathSettings]"

text \<open>The endpoints of \<^verbatim>\<open>replicas.go\<close> and \<^verbatim>\<open>backup.go\<close>, by method and path.\<close>

definition other_routes :: "(string \<times> string list) list" where
  "other_routes =
     [(''POST'', [''backup'', ''drill'']), (''GET'', [''backup'', ''export-capsule'']), (''POST'', [''backup'', ''pair-remote'']),
      (''POST'', [''backup'', ''pin-key'']), (''DELETE'', [''backup'', ''pairing'']), (''PUT'', [''backup'', ''schedule'']),
      (''POST'', [''backup'', ''deposit'']), (''GET'', [''backup'', ''status'']), (''POST'', [''replica'', ''pair'', ''peek'']),
      (''POST'', [''replica'', ''join'']), (''POST'', [''replica'', ''promote'']), (''POST'', [''replicas'', ''invite'']), (''GET'', [''replicas''])]"

definition segments :: "areq \<Rightarrow> string list" where
  "segments rq = drop 3 (Split (aq_path rq) CHR ''/'')"

definition is_get :: "areq \<Rightarrow> bool" where
  "is_get rq = (aq_method rq = ''GET'' \<or> aq_method rq = ''HEAD'')"

definition get_handler :: "('h, 'k) aenv \<Rightarrow> areq \<Rightarrow> string list \<Rightarrow> ('h, 'k, 'x) ahandler option" where
  "get_handler e rq p =
     (if p = [''services''] then Some (listServices e)
      else if length p = 2 \<and> p ! 0 = ''services'' then Some (getService e (p ! 1))
      else if p = [''records''] then Some (listRecords e)
      else if p = [''views''] then Some (listViews e)
      else if p = [''tokens''] then Some (listTokens e)
      else if p = [''export''] then Some (export_doc e rq)
      else if p = [''leases''] then Some (listLeases e)
      else if p = [''dhcp'', ''status''] then Some (getDHCPStatus e)
      else if p = [''dhcp'', ''suggest''] then Some (dhcpSuggest e rq)
      else if p = [''health''] then Some (listHealth e)
      else if p = [''stats''] then Some (stats e)
      else if p = [''blacklists'', ''settings''] then Some (getBlacklistSettings e)
      else if p = [''blacklists'', ''lists''] then Some (listBlacklistLists e)
      else if length p = 3 \<and> take 2 p = [''blacklists'', ''rules''] then Some (listBlacklistRules e (p ! 2))
      else if p = [''blacklists'', ''test''] then Some (testBlacklist e rq)
      else if p = [''settings''] then Some (getSettings e)
      else if p = [''replica'', ''status''] then Some (getReplicaStatus e)
      else None)"

definition post_handler :: "('h, 'k) aenv \<Rightarrow> areq \<Rightarrow> string list \<Rightarrow> ('h, 'k, 'x) ahandler option" where
  "post_handler e rq p =
     (if p = [''services''] then Some (createService e rq)
      else if p = [''records''] then Some (createRecord e rq)
      else if p = [''views''] then Some (createView e rq)
      else if p = [''tokens''] then Some (createToken e rq)
      else if p = [''import''] then Some (importDoc e rq)
      else if length p = 3 \<and> p ! 0 = ''leases'' \<and> p ! 2 = ''promote'' then Some (promoteLease e (p ! 1))
      else if p = [''cache'', ''flush''] then Some flushCache
      else if p = [''blacklists'', ''lists''] then Some (createBlacklistList e rq)
      else if length p = 4 \<and> take 2 p = [''blacklists'', ''lists''] \<and> p ! 3 = ''refresh'' then Some (refreshBlacklistList e (p ! 2))
      else if length p = 3 \<and> take 2 p = [''blacklists'', ''rules''] then Some (createBlacklistRule e rq (p ! 2))
      else None)"

definition patch_handler :: "('h, 'k) aenv \<Rightarrow> areq \<Rightarrow> string list \<Rightarrow> ('h, 'k, 'x) ahandler option" where
  "patch_handler e rq p =
     (if length p = 2 \<and> p ! 0 = ''services'' then Some (updateService e rq (p ! 1))
      else if p = [''blacklists'', ''settings''] then Some (patchBlacklistSettings e rq)
      else if length p = 3 \<and> take 2 p = [''blacklists'', ''lists''] then Some (updateBlacklistList e rq (p ! 2))
      else if p = [''settings''] then Some (patchSettings e rq)
      else None)"

definition delete_handler :: "('h, 'k) aenv \<Rightarrow> (areq \<Rightarrow> ('h, 'k, 'x) ahandler) \<Rightarrow> areq \<Rightarrow> string list \<Rightarrow> ('h, 'k, 'x) ahandler option" where
  "delete_handler e other rq p =
     (if length p = 2 \<and> p ! 0 = ''services'' then Some (deleteService e (p ! 1))
      else if length p = 2 \<and> p ! 0 = ''records'' then Some (deleteRecord e (p ! 1))
      else if length p = 2 \<and> p ! 0 = ''views'' then Some (deleteView e (p ! 1))
      else if length p = 2 \<and> p ! 0 = ''tokens'' then Some (deleteToken e (p ! 1))
      else if length p = 2 \<and> p ! 0 = ''replicas'' then Some (other rq)
      else if length p = 3 \<and> take 2 p = [''blacklists'', ''lists''] then Some (deleteBlacklistList e (p ! 2))
      else if length p = 4 \<and> take 2 p = [''blacklists'', ''rules''] then Some (deleteBlacklistRule e (p ! 2) (p ! 3))
      else None)"

definition api_handler ::
  "('h, 'k) aenv \<Rightarrow> (areq \<Rightarrow> ('h, 'k, 'x) ahandler) \<Rightarrow> areq \<Rightarrow> ('h, 'k, 'x) ahandler option" where
  "api_handler e other rq =
     (let p = segments rq; m = (if is_get rq then ''GET'' else aq_method rq)
      in if \<not> HasPrefix (aq_path rq) PathPrefix \<or> [] \<in> set p then None
         else if (m, p) \<in> set other_routes then Some (other rq)
         else if m = ''GET'' then get_handler e rq p
         else if m = ''POST'' then post_handler e rq p
         else if m = ''PATCH'' then patch_handler e rq p
         else if m = ''DELETE'' then delete_handler e other rq p
         else None)"

definition authenticated :: "('h, 'k) aenv \<Rightarrow> areq \<Rightarrow> ('h, 'k, 'x) node \<Rightarrow> bool \<times> ('h, 'k, 'x) node" where
  "authenticated e rq s =
     (let token = TrimPrefix (aq_auth rq) ''Bearer ''
      in if token = [] then (False, s)
         else case AuthenticateToken (an_io e 0) (an_sha e) (an_now e) token (nd_reg s) of (ok, r) \<Rightarrow> (ok, s\<lparr>nd_reg := r\<rparr>))"

definition api_auth :: "('h, 'k) aenv \<Rightarrow> areq \<Rightarrow> ('h, 'k, 'x) ahandler \<Rightarrow> ('h, 'k, 'x) ahandler" where
  "api_auth e rq h s = (case authenticated e rq s of (False, s) \<Rightarrow> (AFail 401 ''unauthenticated'', s) | (True, s) \<Rightarrow> h s)"

definition api_WriteGate :: "('h, 'k) aenv \<Rightarrow> areq \<Rightarrow> ('h, 'k, 'x) ahandler \<Rightarrow> ('h, 'k, 'x) ahandler" where
  "api_WriteGate e rq next s =
     (if \<not> HasPrefix (aq_path rq) PathPrefix \<or> is_get rq \<or> aq_path rq \<in> set writeExempt then next s
      else if \<not> an_replica e then next s
      else case authenticated e rq s of (False, s) \<Rightarrow> next s | (True, s) \<Rightarrow> (AFail 409 ''read_only_replica'', s))"

text \<open>
  The mux redirects a path that is not clean, before it looks at routes; a request with no route of the API belongs to the web routes when it reads (their
  \<^verbatim>\<open>GET /\<close> takes every path) or is outside the API's prefix, and otherwise has the wrong method.
\<close>

definition unclean :: "string \<Rightarrow> bool" where
  "unclean path =
     (path = [] \<or> hd path \<noteq> CHR ''/'' \<or>
      (let p = tl (Split path CHR ''/'') in [] \<in> set (butlast p) \<or> ''.'' \<in> set p \<or> ''..'' \<in> set p))"

definition api_mux :: "('h, 'k) aenv \<Rightarrow> (areq \<Rightarrow> ('h, 'k, 'x) ahandler) \<Rightarrow> areq \<Rightarrow> ('h, 'k, 'x) ahandler" where
  "api_mux e other rq =
     (if aq_path rq = ''*'' then (\<lambda>s. (AFail 400 [], s))
      else if aq_method rq \<noteq> ''CONNECT'' \<and> unclean (aq_path rq) then (\<lambda>s. (ARedirect, s))
      else if is_get rq \<and> aq_path rq \<in> {''/healthz'', ''/api/v1/healthz''} then (\<lambda>s. (AHealthz (an_ping e = None), s))
      else case api_handler e other rq of
          Some h \<Rightarrow> api_auth e rq h
        | None \<Rightarrow> if is_get rq \<or> \<not> HasPrefix (aq_path rq) PathPrefix then (\<lambda>s. (AWeb, s)) else (\<lambda>s. (AFail 405 [], s)))"

definition api_serve :: "('h, 'k) aenv \<Rightarrow> (areq \<Rightarrow> ('h, 'k, 'x) ahandler) \<Rightarrow> areq \<Rightarrow> ('h, 'k, 'x) ahandler" where
  "api_serve e other rq = api_WriteGate e rq (api_mux e other rq)"

section \<open>Who may change what\<close>

lemma touch_all_unmatched: "\<not> fst (touch_all io now want tks t) \<Longrightarrow> snd (touch_all io now want tks t) = t"
  by (induction tks arbitrary: t) (auto simp: case_prod_beta split: if_splits)

lemma unauthenticated_same: "\<not> fst (authenticated e rq s) \<Longrightarrow> snd (authenticated e rq s) = s"
  using touch_all_unmatched by (auto simp: authenticated_def AuthenticateToken_def case_prod_beta Let_def split: if_splits)

lemma authenticated_fst:
  "fst (authenticated e rq s) \<longleftrightarrow>
     (let tok = TrimPrefix (aq_auth rq) ''Bearer '' in HasPrefix tok tokenPrefix \<and> an_sha e tok \<in> snd ` set (issued (rg_local (nd_reg s))))"
  using AuthenticateToken_fst [of "an_io e 0" "an_sha e" "an_now e" "TrimPrefix (aq_auth rq) ''Bearer ''" "nd_reg s"]
  by (auto simp: authenticated_def case_prod_beta Let_def HasPrefix_def tokenPrefix_def)

text \<open>
  C12: the API does nothing without a token. Whatever the request, on any node: if its bearer token is not one that was issued and not revoked, it changes
  nothing at all, not even the time of the last use of a token, and it is told only that it is unauthenticated, that the method or the request line is wrong, where the
  cleaned path is, or the public health of the node; or it is no request of the API and is left to the web routes, which ask for a login.
\<close>

theorem api_needs_a_token:
  assumes "\<not> (let tok = TrimPrefix (aq_auth rq) ''Bearer '' in HasPrefix tok tokenPrefix \<and> an_sha e tok \<in> snd ` set (issued (rg_local (nd_reg s))))"
  shows "snd (api_serve e other rq s) = s \<and>
    (fst (api_serve e other rq s) \<in> {AFail 401 ''unauthenticated'', AFail 405 [], AFail 400 [], ARedirect} \<or>
     fst (api_serve e other rq s) = AHealthz (an_ping e = None) \<and> aq_path rq \<in> {''/healthz'', ''/api/v1/healthz''} \<or>
     fst (api_serve e other rq s) = AWeb \<and> api_handler e other rq = None)"
proof -
  have no: "authenticated e rq s = (False, s)" using assms unauthenticated_same [of e rq s] authenticated_fst [of e rq s] by (metis prod.collapse)
  have auth: "api_auth e rq h s = (AFail 401 ''unauthenticated'', s)" for h :: "('a, 'b, 'c) ahandler" using no by (simp add: api_auth_def)
  have "api_serve e other rq s = api_mux e other rq s" by (simp add: api_serve_def api_WriteGate_def no)
  then show ?thesis by (simp add: api_mux_def auth split: option.split)
qed

text \<open>What a handler that keeps to the node's own state leaves alone.\<close>

definition shared_part :: "('h, 'k, 'x) node \<Rightarrow> _" where
  "shared_part s = (rg_tables (nd_reg s), nd_pol s, shared_config (se_db (nd_set s)), ConfigVersion (se_db (nd_set s)), issued (rg_local (nd_reg s)))"

lemma authenticated_shared: "shared_part (snd (authenticated e rq s)) = shared_part s"
  using AuthenticateToken_issued [of "an_io e 0" "an_sha e" "an_now e" "TrimPrefix (aq_auth rq) ''Bearer ''" "nd_reg s"]
  by (auto simp: authenticated_def shared_part_def case_prod_beta Let_def AuthenticateToken_def)

lemma patchSettings_shared:
  assumes "an_replica e"
  shows "shared_part (snd (patchSettings e rq s)) = shared_part s"
proof -
  have "shared_part (snd (on_set (settings_Set e v c) a s)) = shared_part s" for v c a
  proof -
    obtain err x where set: "settings_Set e v c (nd_set s) = (err, x)" by fastforce
    have "shared_config (se_db x) = shared_config (se_db (nd_set s)) \<and> ConfigVersion (se_db x) = ConfigVersion (se_db (nd_set s))"
      using replica_saves_stay_local [of "an_lib e" "an_first e" "an_io e 0" "an_rd e" "an_apply e" v c "nd_set s" err x] set assms
      by (simp add: settings_Set_def)
    then show ?thesis using set by (cases err) (simp_all add: on_set_def shared_part_def)
  qed
  then show ?thesis by (auto simp: patchSettings_def decode_def split: sum.split option.split)
qed

lemma get_handler_reads:
  assumes "get_handler e rq p = Some h"
  shows "snd (h s) = s"
proof -
  have rd: "snd (reading e f s) = s" if "\<And>s. snd (f s) = s" for f :: "('a, 'b, 'c) ahandler" using that by (simp add: reading_def split: option.split)
  have id: "snd (pathID raw f s) = s" if "\<And>i. snd (f i s) = s" for raw and f :: "int \<Rightarrow> ('a, 'b, 'c) ahandler"
    using that by (simp add: pathID_def split: option.split)
  have kind: "snd (ruleKind raw f s) = s" if "\<And>k. snd (f k s) = s" for raw and f :: "string \<Rightarrow> ('a, 'b, 'c) ahandler" using that by (simp add: ruleKind_def Let_def)
  have lists: "snd (listServices e s) = s" "snd (listRecords e s) = s" "snd (listViews e s) = s" "snd (listTokens e s) = s"
      "snd (getBlacklistSettings e s) = s" "snd (listBlacklistLists e s) = s" "snd (getSettings e s) = s"
    unfolding listServices_def listRecords_def listViews_def listTokens_def getBlacklistSettings_def listBlacklistLists_def getSettings_def
    by (rule rd, simp add: Let_def split: sum.split)+
  have one: "snd (getService e raw s) = s" "snd (listBlacklistRules e raw s) = s" for raw
    unfolding getService_def listBlacklistRules_def by (intro id kind rd, simp split: sum.split)+
  have plain: "snd (export_doc e rq s) = s" "snd (listLeases e s) = s" "snd (getDHCPStatus e s) = s" "snd (dhcpSuggest e rq s) = s" "snd (listHealth e s) = s"
      "snd (stats e s) = s" "snd (testBlacklist e rq s) = s" "snd (getReplicaStatus e s) = s"
    by (simp_all add: export_doc_def listLeases_def getDHCPStatus_def dhcpSuggest_def listHealth_def stats_def testBlacklist_def getReplicaStatus_def Let_def
        split: option.split sum.split prod.split)
  show ?thesis using assms by (auto simp: get_handler_def lists one plain split: if_splits)
qed

text \<open>The endpoints of pairing, promotion and backup.\<close>

definition peer_route :: "areq \<Rightarrow> bool" where
  "peer_route rq =
     ((if is_get rq then ''GET'' else aq_method rq, segments rq) \<in> set other_routes \<or>
      aq_method rq = ''DELETE'' \<and> length (segments rq) = 2 \<and> segments rq ! 0 = ''replicas'')"

lemma exempt_handlers:
  assumes "aq_path rq \<in> set writeExempt" and "\<not> is_get rq" and "\<not> peer_route rq" and "api_handler e other rq = Some h"
  shows "h = patchSettings e rq"
proof -
  have seg: "segments rq \<in> {[''replica'', ''pair'', ''peek''], [''replica'', ''join''], [''replica'', ''promote''], [''settings'']}"
    using assms(1) by (auto simp: segments_def writeExempt_def PathReplicaPairPeek_def PathReplicaJoin_def PathReplicaPromote_def PathSettings_def Split_def)
  have "h = patchSettings e rq" if "segments rq = p" "p \<in> {[''replica'', ''pair'', ''peek''], [''replica'', ''join''], [''replica'', ''promote''], [''settings'']}" for p
    using that assms(2-4)
    by (auto simp: api_handler_def post_handler_def patch_handler_def delete_handler_def peer_route_def is_get_def Let_def split: if_splits)
  then show ?thesis using seg by blast
qed

lemma get_routes:
  assumes "is_get rq" and "\<not> peer_route rq" and "api_handler e other rq = Some h"
  shows "get_handler e rq (segments rq) = Some h"
  using assms by (auto simp: api_handler_def peer_route_def Let_def split: if_splits)

lemma mux_shared:
  assumes "\<And>h u. api_handler e other rq = Some h \<Longrightarrow> shared_part (snd (h u)) = shared_part u"
  shows "shared_part (snd (api_mux e other rq s)) = shared_part s"
proof -
  have "shared_part (snd (api_auth e rq h s)) = shared_part s" if "\<And>u. shared_part (snd (h u)) = shared_part u" for h :: "('a, 'b, 'c) ahandler"
    using that authenticated_shared [of e rq s] by (auto simp: api_auth_def split: prod.split bool.split)
  then show ?thesis using assms by (simp add: api_mux_def split: option.split)
qed

text \<open>
  C13: a replica's API edits nothing that it shares with its primary, and a read edits nothing on any node. Whatever is asked, by GET, by HEAD or, of a replica, by any method, and
  by whom, the registry, the policy with what is served of it, the shared settings with their version and the issued tokens stay as they are; the one write that reaches a
  table of a replica, the settings, is held to the node's own DHCP. The endpoints of pairing, promotion and backup are set apart.
\<close>

theorem replica_api_is_read_only:
  assumes "an_replica e \<or> is_get rq" and "\<not> peer_route rq"
  shows "shared_part (snd (api_serve e other rq s)) = shared_part s"
proof (cases "is_get rq")
  case True
  have "shared_part (snd (h u)) = shared_part u" if "api_handler e other rq = Some h" for h :: "('a, 'b, 'c) ahandler" and u
    using get_handler_reads [OF get_routes [OF True assms(2) that], of u] by simp
  then show ?thesis using True mux_shared [of e other rq s] by (simp add: api_serve_def api_WriteGate_def)
next
  case w: False
  then have rep: "an_replica e" using assms(1) by simp
  show ?thesis
  proof (cases "aq_path rq \<in> set writeExempt")
    case True
    have "shared_part (snd (h u)) = shared_part u" if "api_handler e other rq = Some h" for h :: "('a, 'b, 'c) ahandler" and u
      using exempt_handlers [OF True w assms(2) that] patchSettings_shared [OF rep] by simp
    then show ?thesis using True mux_shared [of e other rq s] by (simp add: api_serve_def api_WriteGate_def)
  next
    case ex: False
    show ?thesis
    proof (cases "HasPrefix (aq_path rq) PathPrefix")
      case False
      then have "api_handler e other rq = None" by (simp add: api_handler_def Let_def)
      then show ?thesis using False mux_shared [of e other rq s] by (simp add: api_serve_def api_WriteGate_def)
    next
      case True
      obtain ok t where a: "authenticated e rq s = (ok, t)" by fastforce
      have t: "shared_part t = shared_part s" using authenticated_shared [of e rq s] a by simp
      have "t = s" if "\<not> ok" using unauthenticated_same [of e rq s] a that by simp
      then have "api_auth e rq h t = (AFail 401 ''unauthenticated'', t)" if "\<not> ok" for h :: "('a, 'b, 'c) ahandler" using that a by (simp add: api_auth_def)
      then show ?thesis using ex w True rep a t by (cases ok) (auto simp: api_serve_def api_WriteGate_def api_mux_def split: option.split)
    qed
  qed
qed

section \<open>What a PATCH of a service changes\<close>

text \<open>The keys of a body, as the decoder compares them.\<close>

definition named :: "(string \<times> json) list \<Rightarrow> string set" where
  "named kvs = fold_key ` fst ` set kvs"

lemma named_simps: "named [] = {}" "named ((k, j) # kvs) = insert (fold_key k) (named kvs)" "named (xs @ ys) = named xs \<union> named ys"
  by (auto simp: named_def)

lemma find_field: "find (\<lambda>f. fst f = fold_key k) fs = Some f \<Longrightarrow> fst f = fold_key k \<and> f \<in> set fs"
  by (auto simp: find_Some_iff)

text \<open>A key that is a field's name in the letters of ASCII, of whatever case, is that field's.\<close>

lemma fold_key_lower: "ToLower k = n \<Longrightarrow> CHR 0xC5 \<notin> set n \<Longrightarrow> CHR 0xE2 \<notin> set n \<Longrightarrow> fold_key k = n"
proof (induction k arbitrary: n)
  case (Cons c k)
  have "lower_char CHR 0xC5 = CHR 0xC5" "lower_char CHR 0xE2 = CHR 0xE2" by code_simp+
  then have "c \<noteq> CHR 0xC5" "c \<noteq> CHR 0xE2" using Cons.prems by (auto simp: ToLower_def)
  then show ?case using Cons by (auto simp: ToLower_def)
qed (simp add: ToLower_def)

lemma addresses_key: "ToLower k = ''addresses'' \<Longrightarrow> fold_key k = ''addresses''"
  by (rule fold_key_lower) simp_all

text \<open>A field that no key names keeps its value, if only its own entry of the table writes it.\<close>

definition only_writer :: "string \<Rightarrow> ('r \<Rightarrow> 'v) \<Rightarrow> 'r field list \<Rightarrow> bool" where
  "only_writer n get fs = (\<forall>f\<in>set fs. fst f \<noteq> n \<longrightarrow> (\<forall>j r x. snd f j r = Some x \<longrightarrow> get x = get r))"

lemma dec_pairs_keeps: "dec_pairs fs kvs r = Some d \<Longrightarrow> only_writer n get fs \<Longrightarrow> n \<notin> named kvs \<Longrightarrow> get d = get r"
proof (induction fs kvs r rule: dec_pairs.induct)
  case (2 fs k j kvs r)
  then show ?case
    using find_field [of k fs] by (auto simp: named_simps only_writer_def split: option.splits)
qed simp

lemma dec_pairs_append: "dec_pairs fs (xs @ ys) r = Option.bind (dec_pairs fs xs r) (dec_pairs fs ys)"
  by (induction fs xs r rule: dec_pairs.induct) (auto split: option.split)

lemma service_writers:
  "only_writer ''name'' svc_Name service_fields" "only_writer ''addresses'' svc_Addresses service_fields"
  "only_writer ''aliases'' svc_Aliases service_fields" "only_writer ''check_url'' svc_CheckURL service_fields"
  "only_writer ''check_insecure'' svc_CheckInsecure service_fields" "only_writer ''proxy_address'' svc_ProxyAddress service_fields"
  "only_writer ''route_via_proxy'' svc_RouteViaProxy service_fields" "only_writer ''mac'' svc_MAC service_fields"
  by (auto simp: only_writer_def service_fields_def)

lemma addresses_field:
  assumes "fold_key k = ''addresses''" and "dec_pairs service_fields ((k, JArr js) # kvs) r = Some d" and "''addresses'' \<notin> named kvs"
  shows "dec_elems (dec_struct address_fields) blank_address js (svc_Addresses r) = Some (svc_Addresses d)"
proof -
  have "find (\<lambda>f. fst f = fold_key k) service_fields =
      Some (''addresses'', \<lambda>j d. map_option (\<lambda>x. d\<lparr>svc_Addresses := x\<rparr>) (dec_list (dec_struct address_fields) blank_address j (svc_Addresses d)))"
    using assms(1) by (simp add: service_fields_def)
  then obtain as where as: "dec_elems (dec_struct address_fields) blank_address js (svc_Addresses r) = Some as"
      and d: "dec_pairs service_fields kvs (r\<lparr>svc_Addresses := as\<rparr>) = Some d"
    using assms(2) by (auto simp: dec_list_def split: option.splits)
  then show ?thesis using dec_pairs_keeps [OF d service_writers(2) assms(3)] by simp
qed

text \<open>What a decoded update keeps of the service, and where its addresses come from.\<close>

definition merged_onto :: "service \<Rightarrow> (string \<times> json) list \<Rightarrow> service \<Rightarrow> bool" where
  "merged_onto cur kvs d =
     ((''name'' \<notin> named kvs \<longrightarrow> svc_Name d = svc_Name cur) \<and>
      (''aliases'' \<notin> named kvs \<longrightarrow> svc_Aliases d = svc_Aliases cur) \<and>
      (''check_url'' \<notin> named kvs \<longrightarrow> svc_CheckURL d = svc_CheckURL cur) \<and>
      (''check_insecure'' \<notin> named kvs \<longrightarrow> svc_CheckInsecure d = svc_CheckInsecure cur) \<and>
      (''proxy_address'' \<notin> named kvs \<longrightarrow> svc_ProxyAddress d = svc_ProxyAddress cur) \<and>
      (''route_via_proxy'' \<notin> named kvs \<longrightarrow> svc_RouteViaProxy d = svc_RouteViaProxy cur) \<and>
      (''mac'' \<notin> named kvs \<longrightarrow> svc_MAC d = svc_MAC cur) \<and>
      (''addresses'' \<notin> named kvs \<longrightarrow>
         map (\<lambda>a. (addr_Address a, addr_View a)) (svc_Addresses d) = map (\<lambda>a. (addr_Address a, addr_View a)) (svc_Addresses cur)))"

lemma patched_merges:
  assumes "patched cur (JObj kvs) = Some d"
  shows "merged_onto cur kvs d"
proof -
  let ?gone = "''addresses'' \<in> ToLower ` fst ` set kvs"
  let ?r = "if ?gone then (toServiceDTO cur)\<lparr>svc_Addresses := []\<rparr> else toServiceDTO cur"
  have dec: "dec_pairs service_fields kvs ?r = Some d" using assms by (simp add: patched_def Let_def)
  note keeps = service_writers [THEN dec_pairs_keeps [OF dec]]
  have "\<not> ?gone" if "''addresses'' \<notin> named kvs" using that addresses_key by (force simp: named_def)
  then show ?thesis unfolding merged_onto_def
    using keeps by (auto simp: toServiceDTO_def)
qed

lemma patched_addresses:
  assumes "patched cur (JObj (xs @ (k, JArr js) # ys)) = Some d" and "ToLower k = ''addresses''" and "''addresses'' \<notin> named (xs @ ys)"
  shows "dec_elems (dec_struct address_fields) blank_address js [] = Some (svc_Addresses d)"
proof -
  let ?r = "(toServiceDTO cur)\<lparr>svc_Addresses := []\<rparr>"
  have "''addresses'' \<in> ToLower ` fst ` set (xs @ (k, JArr js) # ys)" using assms(2) by simp
  then have "dec_pairs service_fields (xs @ (k, JArr js) # ys) ?r = Some d" using assms(1) by (simp add: patched_def Let_def)
  then obtain r where r: "dec_pairs service_fields xs ?r = Some r" and d: "dec_pairs service_fields ((k, JArr js) # ys) r = Some d"
    by (auto simp: dec_pairs_append bind_eq_Some_conv simp del: dec_pairs.simps)
  have "svc_Addresses r = []" using dec_pairs_keeps [OF r service_writers(2)] assms(3) by (simp add: named_simps)
  then show ?thesis using addresses_field [OF addresses_key [OF assms(2)] d] assms(3) by (simp add: named_simps)
qed

text \<open>
  C34: a PATCH of a service changes what it names and nothing else. The write it makes is for the service of the path, whatever identifier the body gives;
  every field that no key of the body names, as the decoder folds keys, has its old value; and a list of addresses given once, under a key in the letters of ASCII of whatever
  case, is decoded from blank addresses, so that no address takes over the view of the one that had its place. A body that does not decode changes nothing.
\<close>

theorem patch_changes_what_it_names:
  assumes "ParseInt64 raw = Some i" and "Service i (rg_tables (nd_reg s)) = Inr cur" and "aq_body rq = Some (JObj kvs)"
  shows "case patched cur (JObj kvs) of
      None \<Rightarrow> updateService e rq raw s = (malformed, s)
    | Some d \<Rightarrow> updateService e rq raw s = on_reg (reg_PutService (an_io e 0) (an_chg e) (d\<lparr>svc_ID := i\<rparr>)) (\<lambda>_. AOkID 200 i) s \<and> merged_onto cur kvs d \<and>
        (\<forall>xs k js ys. kvs = xs @ (k, JArr js) # ys \<and> ToLower k = ''addresses'' \<and> ''addresses'' \<notin> named (xs @ ys) \<longrightarrow>
           dec_elems (dec_struct address_fields) blank_address js [] = Some (svc_Addresses d))"
proof (cases "patched cur (JObj kvs)")
  case None
  then show ?thesis using assms by (simp add: updateService_def pathID_def)
next
  case (Some d)
  then show ?thesis using assms patched_merges [OF Some] patched_addresses [of cur _ _ _ _ d] by (simp add: updateService_def pathID_def) blast
qed

section \<open>Where a document is not what it seems\<close>

text \<open>
  The addresses are cleared before a body is decoded, the aliases are not: a null among the given aliases stands for the old alias in its place, where the
  comment of \<^verbatim>\<open>updateService\<close> has the whole list replaced.
\<close>

lemma null_alias_keeps_the_old:
  "map_option svc_Aliases (patched nas (JObj [(''aliases'', JArr [JNull, JStr ''www''])])) = Some [''files'', ''www'']"
  by code_simp

text \<open>
  The presence of the addresses is tested with \<^verbatim>\<open>strings.ToLower\<close>, which leaves the long s alone, while the decoder folds it: under a key spelled with U+017F
  the old addresses are not cleared, and a new address inherits the view of the one that had its place.
\<close>

lemma long_s_inherits_the_view:
  "map_option svc_Addresses (patched (nas\<lparr>svc_Addresses := [\<lparr>addr_ID = 1, addr_Address = ''10.8.0.2'', addr_View = ''vpn''\<rparr>]\<rparr>)
     (JObj [(''addres'' @ [CHR 0xC5, CHR 0xBF] @ ''es'', JArr [JObj [(''address'', JStr ''10.0.0.9'')]])])) =
   Some [\<lparr>addr_ID = 0, addr_Address = ''10.0.0.9'', addr_View = ''vpn''\<rparr>]"
  by code_simp

text \<open>
  An import is checked as far as its settings before anything is written; its policy is not. With \<^verbatim>\<open>mode=replace\<close> and a policy block that is refused, the
  answer is the refusal and the registry is the document's.
\<close>

lemma half_an_import:
  assumes "aq_doc rq = Some doc" "tr_Settings doc = None" "m_get (aq_query rq) ''mode'' = Some ''replace''"
    and "reg_ReplaceAll (an_io e 0) (an_chg e) (tr_Views doc) (tr_Services doc) (map (\<lambda>x. x\<lparr>rec_ID := 0\<rparr>) (tr_Records doc)) (nd_reg s) = (Inr (), r)"
    and "applyBlacklistDoc e (import_writes doc) (tr_Blacklist doc) True (nd_pol s) = (Some (Invalid f c), nd_pol s)"
  shows "importDoc e rq s = (AFail 400 c, s\<lparr>nd_reg := r\<rparr>)"
  using assms by (simp add: importDoc_def import_registry_def registry_status_def)

section \<open>Witnesses\<close>

definition api_node :: "(unit, nat, unit) node" where
  "api_node = \<lparr>nd_reg = snd (CreateToken None id ''ab'' 7 ''cli'' (snd (registry_run None quiet (RPutService nas) (registry_New empty_registry fresh_local ''home.arpa'' ())))),
     nd_pol = \<lparr>po_tables = ads_tables, po_holder = policy_NewHolder\<rparr>, nd_set = home_service, nd_cache = NewCache 10 0 86400 300, nd_rest = ()\<rparr>"

definition standalone :: replica_status where
  "standalone = \<lparr>rst_Role = ''standalone'', rst_PrimaryAddr = [], rst_PrimaryNodeID = [], rst_NodeID = [], rst_LastSyncUnix = 0, rst_LastVersion = 0,
     rst_LastError = [], rst_Stale = False\<rparr>"

definition api_env :: "bool \<Rightarrow> (unit, nat) aenv" where
  "api_env replica = \<lparr>an_io = (\<lambda>_. None), an_chg = quiet, an_sha = id, an_random = ''cd'', an_now = 9, an_lib = home_lib, an_first = 0, an_rd = None,
     an_apply = counted, an_src = None, an_url = be_parse shipped_env, an_ascii = Some, an_manifest = be_manifest shipped_env,
     an_fetch = (\<lambda>_. https_env []), an_status = (if replica then standalone\<lparr>rst_Role := roleReplica\<rparr> else standalone), an_discovery = False, an_leases = [],
     an_read = None, an_ping = None, an_health = [], an_acl = NewACL [], an_metrics = NewMetrics, an_uptime = 0,
     an_dhcp = \<lparr>dh_running = False, dh_error = None, dh_foreign = [], dh_problems = []\<rparr>, an_Qualifies = (\<lambda>_. None),
     an_Inspect = (\<lambda>_. Inl ''no such interface'')\<rparr>"

definition api_request :: "string \<Rightarrow> string \<Rightarrow> string \<Rightarrow> json \<Rightarrow> areq" where
  "api_request method path token body = \<lparr>aq_method = method, aq_path = path, aq_auth = ''Bearer '' @ token, aq_query = [], aq_body = Some body, aq_doc = None\<rparr>"

definition api_nas :: service where
  "api_nas = nas\<lparr>svc_ID := 1, svc_Name := ''nas'', svc_Addresses := [\<lparr>addr_ID = 1, addr_Address = ''10.0.0.2'', addr_View = []\<rparr>], svc_MAC := ''aa:bb:cc:00:11:22''\<rparr>"

theorem api_needs_a_token_witness:
  "snd (api_serve (api_env False) (\<lambda>_ s. (AOk 200, s)) (api_request ''DELETE'' ''/api/v1/services/1'' ''kydns_xy'' JNull) api_node) = api_node"
proof -
  let ?rq = "api_request ''DELETE'' ''/api/v1/services/1'' ''kydns_xy'' JNull"
  have "\<not> (let tok = TrimPrefix (aq_auth ?rq) ''Bearer '' in HasPrefix tok tokenPrefix \<and> an_sha (api_env False) tok \<in> snd ` set (issued (rg_local (nd_reg api_node))))"
    by code_simp
  from api_needs_a_token [OF this, of "\<lambda>_ s. (AOk 200, s)"] show ?thesis by simp
qed

theorem replica_api_is_read_only_witness:
  "let s = snd (api_serve (api_env True) (\<lambda>_ s. (AOk 200, s)) (api_request ''DELETE'' ''/api/v1/services/1'' ''kydns_ab'' JNull) api_node)
   in rg_tables (nd_reg s) = rg_tables (nd_reg api_node) \<and> s \<noteq> api_node"
proof -
  let ?rq = "api_request ''DELETE'' ''/api/v1/services/1'' ''kydns_ab'' JNull"
  let ?s = "snd (api_serve (api_env True) (\<lambda>_ s. (AOk 200, s)) ?rq api_node)"
  have "an_replica (api_env True) \<or> is_get ?rq" by (simp add: api_env_def an_replica_def)
  moreover have "\<not> peer_route ?rq" by code_simp
  note this = calculation this
  from replica_api_is_read_only [OF this, of "\<lambda>_ s. (AOk 200, s)" api_node] have "shared_part ?s = shared_part api_node" .
  moreover have "map tok_LastUsedAt (lt_tokens (rg_local (nd_reg ?s))) \<noteq> map tok_LastUsedAt (lt_tokens (rg_local (nd_reg api_node)))" by code_simp
  ultimately show ?thesis by (auto simp: shared_part_def Let_def)
qed

theorem patch_changes_what_it_names_witness:
  "let rq = api_request ''PATCH'' ''/api/v1/services/1'' ''kydns_ab'' (JObj [(''ID'', JNum 7), (''Addresses'', JArr [JObj [(''address'', JStr ''10.0.0.9'')]])]);
       s = snd (updateService (api_env False) rq ''1'' api_node)
   in map_sum id svc_Addresses (Service 1 (rg_tables (nd_reg s))) = Inr [\<lparr>addr_ID = 1, addr_Address = ''10.0.0.9'', addr_View = []\<rparr>]"
proof -
  let ?kvs = "[(''ID'', JNum 7), (''Addresses'', JArr [JObj [(''address'', JStr ''10.0.0.9'')]])]"
  let ?rq = "api_request ''PATCH'' ''/api/v1/services/1'' ''kydns_ab'' (JObj ?kvs)"
  let ?d = "api_nas\<lparr>svc_ID := 7, svc_Addresses := [\<lparr>addr_ID = 0, addr_Address = ''10.0.0.9'', addr_View = []\<rparr>]\<rparr>"
  have cur: "Service 1 (rg_tables (nd_reg api_node)) = Inr api_nas" by code_simp
  moreover have "patched api_nas (JObj ?kvs) = Some ?d" by code_simp
  moreover have "map_sum id svc_Addresses (Service 1 (rg_tables (nd_reg (snd (on_reg (reg_PutService None quiet (?d\<lparr>svc_ID := 1\<rparr>)) (\<lambda>_. AOkID 200 1) api_node))))) =
      Inr [\<lparr>addr_ID = 1, addr_Address = ''10.0.0.9'', addr_View = []\<rparr>]"
    by code_simp
  moreover have "ParseInt64 ''1'' = Some 1" by code_simp
  moreover have "aq_body ?rq = Some (JObj ?kvs)" by (simp add: api_request_def)
  ultimately show ?thesis
    using patch_changes_what_it_names [OF _ cur, of "''1''" ?rq ?kvs "api_env False"] by (simp add: Let_def api_env_def)
qed

end
