(* ===== verification/Restore.thy ===== *)
theory Restore
  imports AdminApi NetipRound
begin

text \<open>
  Taking an export back. Every row the registry stores is one that its validation leaves as it is, so the registry part of an export, imported with
  \<^verbatim>\<open>mode=replace\<close> on any node of the same zone, is admitted whole and reads back the same.
\<close>

section \<open>Validation twice is validation once\<close>

lemma TrimSpace_last: "TrimSpace s \<noteq> [] \<Longrightarrow> \<not> is_space (last (TrimSpace s))"
  unfolding TrimSpace_def by (metis hd_dropWhile last_rev rev.simps(1))

lemma TrimSpace_idem [simp]: "TrimSpace (TrimSpace s) = TrimSpace s"
proof (cases "TrimSpace s = []")
  case True
  then show ?thesis by (simp only:) (simp add: TrimSpace_def)
qed (simp add: TrimSpace_ends TrimSpace_hd TrimSpace_last)

lemma TrimSpace_ToLower: "TrimSpace (ToLower s) = ToLower (TrimSpace s)"
proof -
  have "is_space \<circ> lower_char = is_space" by (rule ext) simp
  then show ?thesis by (simp add: TrimSpace_def ToLower_def dropWhile_map rev_map)
qed

lemma lower_trim_idem [simp]: "ToLower (TrimSpace (ToLower (TrimSpace s))) = ToLower (TrimSpace s)"
  by (simp add: TrimSpace_ToLower)

lemma reg_Normalize_fix: "ToLower m = m \<Longrightarrow> TrimSpace m = m \<Longrightarrow> m = [] \<or> HasSuffix m ''.'' \<Longrightarrow> reg_Normalize m = m"
  by (auto simp: reg_Normalize_def Let_def)

lemma reg_Normalize_idem [simp]: "reg_Normalize (reg_Normalize s) = reg_Normalize s"
proof (cases "ToLower (TrimSpace s) = []")
  case False
  let ?n = "ToLower (TrimSpace s)"
  have hd: "\<not> is_space (hd ?n)" using False TrimSpace_hd [of s] by (cases "TrimSpace s") (auto simp: ToLower_def)
  have dot: "\<not> is_space CHR ''.''" "lower_char CHR ''.'' = CHR ''.''" by code_simp+
  have "TrimSpace (?n @ ''.'') = ?n @ ''.''" using hd dot False by (intro TrimSpace_ends) simp_all
  moreover have "ToLower (?n @ ''.'') = ?n @ ''.''" using dot by (simp add: ToLower_def)
  moreover have "TrimSpace ?n = ?n" by (simp add: TrimSpace_ToLower)
  ultimately have "reg_Normalize m = m" if "m = ?n \<and> HasSuffix ?n ''.'' \<or> m = ?n @ ''.''" for m
    using that by (auto intro!: reg_Normalize_fix simp: HasSuffix_char)
  then show ?thesis using False by (simp add: reg_Normalize_def [of s] Let_def)
qed (simp add: reg_Normalize_def Let_def TrimSpace_def)

lemma ValidateName_Normalize: "ValidateName (reg_Normalize n) z = ValidateName n z"
  by (simp add: ValidateName_def)

text \<open>Hardware addresses and prefixes are printed as they parse.\<close>

lemma hex_val_range: "hex_val c = Some d \<Longrightarrow> 0 \<le> d \<and> d < 16"
  by (auto simp: hex_val_def is_digit_def split: if_splits)

lemma xtoi2_range: "xtoi2 s = Some b \<Longrightarrow> 0 \<le> b \<and> b < 256"
proof -
  assume x: "xtoi2 s = Some b"
  then obtain c d where s: "s = [c, d]" "is_hex c" "is_hex d" by (auto simp: xtoi2_def numeral_2_eq_2 length_Suc_conv split: if_splits)
  then obtain v w where "hex_val c = Some v" "hex_val d = Some w" by (auto simp: is_hex_def)
  then show ?thesis using x s hex_val_range [of c v] hex_val_range [of d w] by (auto simp: xtoi2_def hex_num_def split: if_splits)
qed

lemma opt_all_list_all: "opt_all (map f xs) = Some ys \<Longrightarrow> (\<And>x y. f x = Some y \<Longrightarrow> P y) \<Longrightarrow> list_all P ys"
proof (induction xs arbitrary: ys)
  case (Cons x xs)
  then show ?case by (cases "f x") auto
qed simp

lemma ParseMAC_bytes: "ParseMAC s = Some hw \<Longrightarrow> list_all (\<lambda>b. 0 \<le> b \<and> b < 256) hw"
  by (auto simp: ParseMAC_def Let_def split: if_splits dest!: opt_all_list_all [where P = "\<lambda>b. 0 \<le> b \<and> b < 256"] xtoi2_range)

definition hex_pair :: "int \<Rightarrow> string" where
  "hex_pair b = [hex_char (b div 16), hex_char (b mod 16)]"

lemma xtoi2_hex_pair:
  assumes "0 \<le> b" and "b < 256"
  shows "xtoi2 (hex_pair b) = Some b" and "list_all is_hex (hex_pair b)"
proof -
  have r: "0 \<le> b div 16" "b div 16 < 16" "0 \<le> b mod 16" "b mod 16 < 16" using assms by auto
  then show "list_all is_hex (hex_pair b)" by (simp add: hex_pair_def is_hex_hex_char)
  then show "xtoi2 (hex_pair b) = Some b" using r by (simp add: xtoi2_def hex_num_def hex_pair_def hex_val_hex_char)
qed

lemma ParseMAC_show:
  assumes "length hw = 6" and "list_all (\<lambda>b. 0 \<le> b \<and> b < 256) hw"
  shows "ParseMAC (show_mac hw) = Some hw" and "TrimSpace (show_mac hw) = show_mac hw"
proof -
  obtain a b c d e f where hw: "hw = [a, b, c, d, e, f]" using assms(1) by (auto simp: length_Suc_conv eval_nat_numeral)
  have sm: "show_mac hw = Join (map hex_pair hw) '':''" by (simp add: show_mac_def hex_pair_def [abs_def])
  have pair: "xtoi2 (hex_pair x) = Some x" "list_all is_hex (hex_pair x)" if "x \<in> set hw" for x
    using that assms(2) xtoi2_hex_pair by (auto simp: list_all_iff)
  have "list_all (list_all (\<lambda>x. x \<noteq> CHR '':'')) (map hex_pair hw)" using pair(2) is_hex_neq by (fastforce simp: list_all_iff)
  then have sp: "Split (show_mac hw) CHR '':'' = map hex_pair hw" unfolding sm using hw by (intro Split_Join) simp_all
  have "opt_all (map xtoi2 (map hex_pair hw)) = Some hw" using pair(1) by (simp add: hw)
  moreover have "show_mac hw ! 2 = CHR '':''" "length (show_mac hw) = 17" by (simp_all add: show_mac_def hw)
  ultimately show "ParseMAC (show_mac hw) = Some hw" using sp assms(1) by (simp add: ParseMAC_def mac_len_ok_def)
  have "\<not> is_space x" if "is_hex x" for x
    using that by (auto simp: is_hex_def hex_val_def is_digit_def is_space_def char_code_def split: if_splits)
  then show "TrimSpace (show_mac hw) = show_mac hw"
    using pair(2) [of a] pair(2) [of f] by (intro TrimSpace_ends) (simp_all add: show_mac_def hw hex_pair_def)
qed

lemma NormalizeMAC_idem:
  assumes "ValidateMAC m = None"
  shows "NormalizeMAC (NormalizeMAC m) = NormalizeMAC m" and "ValidateMAC (NormalizeMAC m) = None"
proof -
  have "NormalizeMAC (NormalizeMAC m) = NormalizeMAC m \<and> ValidateMAC (NormalizeMAC m) = None"
  proof (cases "TrimSpace m = []")
    case True
    then have "NormalizeMAC m = []" by (simp add: NormalizeMAC_def ParseMAC_Nil ToLower_def)
    then show ?thesis by (simp only:) (simp add: NormalizeMAC_def ValidateMAC_def TrimSpace_def ParseMAC_Nil ToLower_def)
  next
    case False
    then obtain hw where hw: "ParseMAC (TrimSpace m) = Some hw" "length hw = 6" using assms by (auto simp: ValidateMAC_def Let_def split: option.splits if_splits)
    then have "NormalizeMAC m = show_mac hw" by (simp add: NormalizeMAC_def)
    then show ?thesis using hw ParseMAC_show [OF hw(2) ParseMAC_bytes [OF hw(1)]] by (simp add: NormalizeMAC_def ValidateMAC_def Let_def)
  qed
  then show "NormalizeMAC (NormalizeMAC m) = NormalizeMAC m" and "ValidateMAC (NormalizeMAC m) = None" by blast+
qed

definition canon_cidr :: "string \<Rightarrow> bool" where
  "canon_cidr c = (map_option (\<lambda>p. show_prefix (Masked p)) (ParsePrefix c) = Some c)"

lemma cidr_ok_canon: "cidr_ok c \<Longrightarrow> canon_cidr c"
proof -
  assume "cidr_ok c"
  then obtain p s where p: "ParsePrefix s = Some p" "c = show_prefix (Masked p)" by (auto simp: cidr_ok_def)
  have "prefix_valid (Masked p)" using ParsePrefix_valid [OF p(1)] by simp
  then show ?thesis using p(2) by (simp add: canon_cidr_def ParsePrefix_show)
qed

lemma mask_subnets_canon: "list_all canon_cidr cs \<Longrightarrow> mask_subnets i cs = Inr cs"
  by (induction cs arbitrary: i) (auto simp: canon_cidr_def)

section \<open>Canonical rows\<close>

definition canon_name :: "string \<Rightarrow> string \<Rightarrow> bool" where
  "canon_name zone n = (ToLower (TrimSpace n) = n \<and> ValidateName (n @ ''.'' @ zone) zone = None)"

definition canon_columns :: "string \<Rightarrow> service \<Rightarrow> bool" where
  "canon_columns zone r =
     (canon_name zone (svc_Name r) \<and> TrimSpace (svc_ProxyAddress r) = svc_ProxyAddress r \<and>
      (svc_ProxyAddress r \<noteq> [] \<longrightarrow> ValidateAddress (svc_ProxyAddress r) = None) \<and> (svc_RouteViaProxy r \<longrightarrow> svc_ProxyAddress r \<noteq> []) \<and>
      ValidateMAC (svc_MAC r) = None \<and> NormalizeMAC (svc_MAC r) = svc_MAC r)"

definition canon_record :: "string \<Rightarrow> string \<Rightarrow> string \<Rightarrow> string \<Rightarrow> bool" where
  "canon_record zone n ty v =
     (let r = \<lparr>rec_ID = 0, rec_Name = n, rec_Type = ty, rec_Value = v, rec_View = []\<rparr> in validateRecord r [] zone = Inr r)"

interpretation canon: row_rules "canon_columns zone" addr_ok "canon_name zone" "canon_record zone" canon_cidr label_ok for zone
  by unfold_locales (simp add: canon_columns_def)

lemma validateView_canon_holds: "validateView v0 = Inr v \<Longrightarrow> canon.view_holds v \<and> view_Subnets v \<noteq> []"
proof -
  assume v: "validateView v0 = Inr v"
  then have "view_Subnets v \<noteq> []" by (cases "view_Subnets v0") (auto simp: validateView_def Let_def split: if_splits sum.splits option.splits)
  then show ?thesis using validateView_ok [OF v] by (auto simp: view_ok_def canon.view_holds_def label_ok_def list_all_iff cidr_ok_canon)
qed

lemma validateService_canon_holds:
  assumes "validateService s0 known zone = Inr svc"
  shows "canon.service_holds zone svc \<and> svc_Addresses svc \<noteq> []"
proof -
  note v = assms [unfolded validateService_def Let_def]
  let ?n = "ToLower (TrimSpace (svc_Name s0))" and ?als = "map (\<lambda>al. ToLower (TrimSpace al)) (svc_Aliases s0)"
  have ok: "ValidateName (?n @ ''.'' @ zone) zone = None" "svc_Addresses s0 \<noteq> []" "address_errors known 0 (svc_Addresses s0) = None"
      "first_error (\<lambda>al. ValidateName (al @ ''.'' @ zone) zone) ?als = None" "ValidateMAC (svc_MAC s0) = None"
      "TrimSpace (svc_ProxyAddress s0) \<noteq> [] \<longrightarrow> ValidateAddress (TrimSpace (svc_ProxyAddress s0)) = None"
      "svc_RouteViaProxy s0 \<longrightarrow> TrimSpace (svc_ProxyAddress s0) \<noteq> []"
    using v by (auto split: option.splits if_splits)
  have svc: "svc_Name svc = ?n" "svc_Addresses svc = svc_Addresses s0" "svc_Aliases svc = ?als" "svc_MAC svc = NormalizeMAC (svc_MAC s0)"
      "svc_ProxyAddress svc = TrimSpace (svc_ProxyAddress s0)" "svc_RouteViaProxy svc = svc_RouteViaProxy s0"
    using v by (auto split: option.splits if_splits)
  have "canon_columns zone svc" using ok NormalizeMAC_idem [OF ok(5)] by (simp add: canon_columns_def canon_name_def svc)
  moreover have "list_all (canon_name zone) (svc_Aliases svc)" using ok(4) by (auto simp: svc canon_name_def first_error_None list_all_iff)
  moreover have "list_all (\<lambda>a. addr_ok (addr_Address a)) (svc_Addresses svc)"
    using address_errors_None [OF ok(3)] by (auto simp: svc addr_ok_def list_all_iff)
  ultimately show ?thesis using ok(2) by (simp add: canon.service_holds_def svc)
qed

lemma record_type_fix: "ty \<in> set recordTypes \<Longrightarrow> ToUpper (TrimSpace ty) = ty"
proof -
  have "list_all (\<lambda>ty. ToUpper (TrimSpace ty) = ty) recordTypes" by code_simp
  then show "ty \<in> set recordTypes \<Longrightarrow> ToUpper (TrimSpace ty) = ty" by (simp add: list_all_iff)
qed

definition record_checks :: "string list \<Rightarrow> string \<Rightarrow> record_row \<Rightarrow> bool" where
  "record_checks known zone r =
     (rec_Type r \<in> set recordTypes \<and>
      (if rec_Type r \<in> {''A'', ''AAAA''} then ValidateName (rec_Name r) zone = None \<and> ValidateAddress (rec_Value r) = None
       else if rec_Type r = ''CNAME'' then ValidateName (rec_Name r) zone = None
       else HasSuffix (rec_Name r) ''.in-addr.arpa.'' \<or> HasSuffix (rec_Name r) ''.ip6.arpa.'') \<and>
      (rec_View r = [] \<or> rec_View r \<in> set known))"

definition record_form :: "record_row \<Rightarrow> record_row" where
  "record_form r0 =
     (let r = r0\<lparr>rec_Name := reg_Normalize (rec_Name r0), rec_Type := ToUpper (TrimSpace (rec_Type r0))\<rparr>
      in if rec_Type r \<in> {''A'', ''AAAA''} then r else r\<lparr>rec_Value := reg_Normalize (rec_Value r)\<rparr>)"

lemma validateRecord_Inr: "validateRecord r0 known zone = Inr r \<longleftrightarrow> r = record_form r0 \<and> record_checks known zone (record_form r0)"
  unfolding validateRecord_def record_form_def record_checks_def ValidateRecordType_def Let_def
  by (auto split: option.split)

lemma record_form_idem: "record_checks known zone (record_form r) \<Longrightarrow> record_form (record_form r) = record_form r"
  using record_type_fix [of "rec_Type (record_form r)"] by (auto simp: record_checks_def record_form_def Let_def split: if_splits)

lemma validateRecord_fix:
  "validateRecord r known zone = Inr r \<longleftrightarrow> canon_record zone (rec_Name r) (rec_Type r) (rec_Value r) \<and> (rec_View r = [] \<or> rec_View r \<in> set known)"
  by (cases r) (auto simp: canon_record_def Let_def validateRecord_Inr record_form_def record_checks_def split: if_splits)

lemma validateRecord_canon_holds: "validateRecord r0 known zone = Inr r \<Longrightarrow> canon.record_holds zone r"
  using record_form_idem [of known zone r0] validateRecord_fix [of r known zone] by (simp add: validateRecord_Inr canon.record_holds_def)

lemma validated_canon: "validated zone op \<Longrightarrow> canon.writes_hold zone op"
  by (cases op) (auto simp: validated_def canon.writes_hold_def list_all_iff
      dest: validateView_canon_holds validateService_canon_holds validateRecord_canon_holds)

section \<open>Canonical rows validate to themselves\<close>

lemma validateView_canon:
  assumes "canon.view_holds v" and "view_Subnets v \<noteq> []"
  shows "validateView v = Inr v"
proof -
  have ok: "ValidateLabel (view_Name v) = None" "list_all canon_cidr (view_Subnets v)" using assms(1) by (auto simp: canon.view_holds_def label_ok_def)
  have chars: "list_all Registry.label_char (view_Name v)" "view_Name v \<noteq> []" using ok(1) by (auto simp: ValidateLabel_def split: if_splits)
  have lc: "\<not> is_space c \<and> lower_char c = c" if "Registry.label_char c" for c
    using that by (auto simp: Registry.label_char_def is_lower_def is_digit_def is_space_def lower_char_def is_upper_def char_code_def split: if_splits)
  have "TrimSpace (view_Name v) = view_Name v" using chars lc by (intro TrimSpace_ends) (auto simp: list_all_iff)
  moreover have "ToLower (view_Name v) = view_Name v" using chars lc by (auto simp: ToLower_def list_all_iff intro: map_idI)
  ultimately show ?thesis using ok assms(2) by (simp add: validateView_def mask_subnets_canon)
qed

lemma validateService_canon:
  assumes "canon.service_holds zone svc" and "svc_Addresses svc \<noteq> []" and "list_all (\<lambda>a. addr_View a = [] \<or> addr_View a \<in> set known) (svc_Addresses svc)"
  shows "validateService svc known zone = Inr svc"
proof -
  have ok: "canon_columns zone svc" "list_all (\<lambda>a. addr_ok (addr_Address a)) (svc_Addresses svc)" "list_all (canon_name zone) (svc_Aliases svc)"
    using assms(1) by (auto simp: canon.service_holds_def)
  have "address_errors known i as = None"
    if "list_all (\<lambda>a. addr_ok (addr_Address a)) as" "list_all (\<lambda>a. addr_View a = [] \<or> addr_View a \<in> set known) as" for i as
    using that by (induction as arbitrary: i) (auto simp: addr_ok_def ValidateAddress_def)
  moreover have "map (\<lambda>al. ToLower (TrimSpace al)) (svc_Aliases svc) = svc_Aliases svc" using ok(3) by (auto simp: canon_name_def list_all_iff intro: map_idI)
  moreover have "first_error (\<lambda>al. ValidateName (al @ ''.'' @ zone) zone) (svc_Aliases svc) = None"
    using ok(3) by (simp add: first_error_None canon_name_def list_all_iff)
  ultimately show ?thesis using ok assms(2,3) by (cases svc) (auto simp: validateService_def canon_columns_def canon_name_def Let_def)
qed

lemma validate_services_canon:
  assumes "list_all (\<lambda>svc. validateService svc known zone = Inr svc \<and> svc_ID svc = 0) svcs" and "distinct (macs (acc @ svcs))"
  shows "validate_services known zone acc svcs = Inr (acc @ svcs)"
  using assms
proof (induction svcs arbitrary: acc)
  case (Cons svc svcs)
  have "macUnique svc acc = None" using Cons.prems by (auto simp: macUnique_None mac_free_def set_macs rev_image_eqI split: if_splits)
  then show ?case using Cons.prems Cons.IH [of "acc @ [svc]"] by simp
qed simp

section \<open>No empty views, no services without an address\<close>

definition inhabited :: "rtables \<Rightarrow> bool" where
  "inhabited t = (set (rt_views t) \<subseteq> fst ` set (rt_subnets t) \<and> svc_ID ` set (rt_services t) \<subseteq> ar_Service ` set (rt_addresses t))"

definition op_inhabited :: "reg_op \<Rightarrow> bool" where
  "op_inhabited op = (case op of RPutView v \<Rightarrow> view_Subnets v \<noteq> [] | RPutService svc \<Rightarrow> svc_Addresses svc \<noteq> []
     | RReplaceAll vs ss rs \<Rightarrow> list_all (\<lambda>v. view_Subnets v \<noteq> []) vs \<and> list_all (\<lambda>svc. svc_Addresses svc \<noteq> []) ss | _ \<Rightarrow> True)"

lemma validated_inhabited: "validated zone op \<Longrightarrow> op_inhabited op"
  by (cases op) (auto simp: validated_def op_inhabited_def list_all_iff dest: validateView_canon_holds validateService_canon_holds)

text \<open>What the inserts add.\<close>

lemma insert_subnets_adds:
  "insert_subnets v cs t = Inr t' \<Longrightarrow> rt_views t' = rt_views t \<and> rt_subnets t' = rt_subnets t @ map (Pair v) cs \<and>
   rt_services t' = rt_services t \<and> rt_addresses t' = rt_addresses t"
  by (induction v cs t rule: insert_subnets.induct) (auto split: if_splits)

lemma insert_addresses_adds:
  "insert_addresses i as t = Inr t' \<Longrightarrow> rt_views t' = rt_views t \<and> rt_subnets t' = rt_subnets t \<and> rt_services t' = rt_services t \<and>
   ar_Service ` set (rt_addresses t') = ar_Service ` set (rt_addresses t) \<union> (if as = [] then {} else {i})"
  by (induction i as t rule: insert_addresses.induct) (auto simp: Let_def split: if_splits)

lemma insert_aliases_adds:
  "insert_aliases i als t = Inr t' \<Longrightarrow> rt_views t' = rt_views t \<and> rt_subnets t' = rt_subnets t \<and> rt_services t' = rt_services t \<and> rt_addresses t' = rt_addresses t"
  by (induction i als t rule: insert_aliases.induct) (auto split: if_splits)

lemma put_children_adds:
  "put_children svc (i, t) = Inr (j, t') \<Longrightarrow> rt_views t' = rt_views t \<and> rt_subnets t' = rt_subnets t \<and> rt_services t' = rt_services t \<and>
   ar_Service ` set (rt_addresses t') = ar_Service ` set (rt_addresses t) \<union> (if svc_Addresses svc = [] then {} else {i})"
  by (auto simp: put_children_def split: sum.splits dest!: insert_addresses_adds insert_aliases_adds)

lemma image_filter_key: "k ` set (filter (\<lambda>x. Q (k x)) xs) = {y \<in> k ` set xs. Q y}"
  by auto

lemma inhabited_putView:
  assumes "putView v t = Inr t'" and "inhabited t" and "view_Subnets v \<noteq> []"
  shows "inhabited t'"
proof -
  let ?u = "delete_subnets (\<lambda>s. fst s = view_Name v) (insert_view (view_Name v) t)"
  have u: "set (rt_views ?u) = insert (view_Name v) (set (rt_views t))" "rt_subnets ?u = filter (\<lambda>s. fst s \<noteq> view_Name v) (rt_subnets t)"
    "rt_services ?u = rt_services t" "rt_addresses ?u = rt_addresses t" by (auto simp: delete_subnets_def insert_view_def)
  have add: "rt_views t' = rt_views ?u" "rt_subnets t' = rt_subnets ?u @ map (Pair (view_Name v)) (view_Subnets v)" "rt_services t' = rt_services ?u"
    "rt_addresses t' = rt_addresses ?u" using insert_subnets_adds [OF assms(1) [unfolded putView_def]] by simp_all
  have sub: "fst ` set (rt_subnets t') = insert (view_Name v) (fst ` set (rt_subnets t) - {view_Name v})"
  proof -
    have "fst ` set (filter (\<lambda>s. fst s \<noteq> view_Name v) (rt_subnets t)) = {n \<in> fst ` set (rt_subnets t). n \<noteq> view_Name v}" by (rule image_filter_key)
    moreover have "fst ` set (map (Pair (view_Name v)) (view_Subnets v)) = {view_Name v}" using assms(3) by (cases "view_Subnets v") auto
    ultimately show ?thesis unfolding add(2) u(2) set_append image_Un by blast
  qed
  have "set (rt_views t') \<subseteq> fst ` set (rt_subnets t')" using assms(2) unfolding inhabited_def sub add(1) u(1) by blast
  then show ?thesis using assms(2) by (simp add: inhabited_def add(3,4) u(3,4))
qed

lemma inhabited_putService:
  assumes "putService svc t = Inr (i, t')" and "inhabited t" and "svc_Addresses svc \<noteq> []" and "services_ok t"
  shows "inhabited t'"
proof (cases "svc_ID svc = 0")
  case True
  then show ?thesis using assms
    by (auto simp: putService_def insert_service_def Let_def inhabited_def image_subset_iff split: sum.splits if_splits dest!: put_children_adds)
next
  case False
  have "svc_ID (update_row svc r) = svc_ID r" for r by (simp add: update_row_def service_columns_def)
  then have ids: "svc_ID ` set (map (update_row svc) (rt_services t)) = svc_ID ` set (rt_services t)" by (simp add: image_image)
  obtain u where u: "update_service svc t = Inr u" and c: "put_children svc (svc_ID svc, delete_aliases (\<lambda>a. al_Service a = svc_ID svc)
      (delete_addresses (\<lambda>a. ar_Service a = svc_ID svc) u)) = Inr (i, t')"
    using assms(1) False by (auto simp: putService_def split: sum.splits)
  have cols: "rt_views u = rt_views t" "rt_subnets u = rt_subnets t" "rt_services u = map (update_row svc) (rt_services t)" "rt_addresses u = rt_addresses t"
    using u by (auto simp: update_service_def split: if_splits)
  have "ar_Service ` set (filter (\<lambda>a. \<not> ar_Service a = svc_ID svc) (rt_addresses t)) = {i \<in> ar_Service ` set (rt_addresses t). \<not> i = svc_ID svc}"
    by (rule image_filter_key)
  then have all: "ar_Service ` set (rt_addresses t') = {i \<in> ar_Service ` set (rt_addresses t). \<not> i = svc_ID svc} \<union> {svc_ID svc}"
    and rest: "rt_views t' = rt_views t" "rt_subnets t' = rt_subnets t" "rt_services t' = map (update_row svc) (rt_services t)"
    using put_children_adds [OF c] assms(3) by (simp_all add: delete_aliases_def delete_addresses_def cols)
  have "svc_ID ` set (rt_services t') \<subseteq> ar_Service ` set (rt_addresses t')" using assms(2) unfolding inhabited_def rest(3) ids all by blast
  then show ?thesis using assms(2) by (simp add: inhabited_def rest(1,2))
qed

lemma inhabited_cong:
  "rt_views t' = rt_views t \<Longrightarrow> rt_subnets t' = rt_subnets t \<Longrightarrow> rt_services t' = rt_services t \<Longrightarrow> rt_addresses t' = rt_addresses t \<Longrightarrow>
   inhabited t' = inhabited t"
  by (simp add: inhabited_def)

lemma inhabited_putRecord: "putRecord r t = Inr (i, t') \<Longrightarrow> inhabited t \<Longrightarrow> inhabited t'"
  by (auto simp: putRecord_def Let_def inhabited_def image_subset_iff split: if_splits)

lemma inhabited_put_views: "put_views vs t = Inr t' \<Longrightarrow> inhabited t \<Longrightarrow> list_all (\<lambda>v. view_Subnets v \<noteq> []) vs \<Longrightarrow> inhabited t'"
  by (induction vs t rule: put_views.induct) (auto split: sum.splits dest: inhabited_putView)

lemma inhabited_put_services:
  "put_services ss t = Inr t' \<Longrightarrow> inhabited t \<Longrightarrow> reg_ok t \<Longrightarrow> list_all (\<lambda>svc. svc_Addresses svc \<noteq> []) ss \<Longrightarrow> inhabited t'"
proof (induction ss t rule: put_services.induct)
  case (2 svc ss t)
  then obtain i u where put: "putService (svc\<lparr>svc_ID := 0\<rparr>) t = Inr (i, u)" and rest: "put_services ss u = Inr t'" by (auto split: sum.splits)
  have "inhabited u" using inhabited_putService [OF put] 2 by (simp add: reg_ok_def)
  moreover have "reg_ok u" using put 2(4) by (rule putService_ok)
  ultimately show ?case using 2 put rest by simp
qed simp

lemma inhabited_put_records: "put_records rs t = Inr t' \<Longrightarrow> inhabited t \<Longrightarrow> inhabited t'"
  by (induction rs t rule: put_records.induct) (auto split: sum.splits dest: inhabited_putRecord)

lemma inhabited_replaceAll:
  assumes "replaceAll vs ss rs t = Inr t'" and "list_all (\<lambda>v. view_Subnets v \<noteq> []) vs" and "list_all (\<lambda>svc. svc_Addresses svc \<noteq> []) ss"
  shows "inhabited t'"
proof -
  obtain t1 t2 where w: "put_views vs (wipe t) = Inr t1" "put_services ss t1 = Inr t2" "put_records rs t2 = Inr t'"
    using assms(1) by (auto simp: replaceAll_def split: sum.splits)
  have "inhabited (wipe t)" by (simp add: inhabited_def wipe_tables)
  then show ?thesis
    using inhabited_put_records [OF w(3) inhabited_put_services [OF w(2) inhabited_put_views [OF w(1)]]] put_views_ok [OF w(1) wipe_ok] assms(2,3) by blast
qed

lemma inhabited_delete_views: "inhabited t \<Longrightarrow> inhabited (delete_views P t)"
  using image_filter_key [of fst "\<lambda>n. \<not> P n" "rt_subnets t"] by (auto simp: inhabited_def delete_views_def delete_subnets_def)

lemma inhabited_delete_services:
  assumes "inhabited t" and "services_ok t"
  shows "inhabited (delete_services P t)"
proof -
  let ?gone = "svc_ID ` set (filter P (rt_services t))"
  have "svc_ID r \<notin> ?gone" if "r \<in> set (rt_services t)" "\<not> P r" for r
    using that assms(2) by (auto simp: services_ok_def distinct_map dest: inj_onD)
  then show ?thesis
    using assms(1) image_filter_key [of ar_Service "\<lambda>i. i \<notin> ?gone" "rt_addresses t"]
    by (auto simp: inhabited_def delete_services_def delete_aliases_def delete_addresses_def Let_def)
qed

lemma inhabited_run:
  assumes "reg_run io op t = Inr t'" and "inhabited t" and "reg_ok t" and "op_inhabited op"
  shows "inhabited t'"
proof -
  have ok: "services_ok t" using assms(3) by (simp add: reg_ok_def)
  show ?thesis using assms ok inhabited_putService
    by (cases op) (auto simp: reg_op_defs op_inhabited_def split: if_splits
        dest: inhabited_putView inhabited_putRecord inhabited_replaceAll intro: inhabited_delete_views inhabited_delete_services
        simp: delete_records_def inhabited_cong [of "bump _ _"])
qed

section \<open>What is stored is canonical\<close>

definition registry_canon :: "'h registry \<Rightarrow> bool" where
  "registry_canon s =
     (reg_ok (rg_tables s) \<and> canon.holds (rg_zone s) (rg_tables s) \<and> inhabited (rg_tables s) \<and> distinct (macs (rt_services (rg_tables s))) \<and>
      (\<exists>z. rg_zone s = reg_Normalize z))"

lemma registry_run_canon:
  assumes "registry_run io chg op s = (e, s')" and "registry_canon s" and "imports_fresh op"
  shows "registry_canon s'"
  using assms(1)
proof (cases rule: registry_run_cases)
  case (2 op' t)
  have v: "validated (rg_zone s) op'" using 2(1) by (rule admitted_validated)
  obtain z where ok: "reg_ok (rg_tables s)" "canon.holds (rg_zone s) (rg_tables s)" "inhabited (rg_tables s)"
      "distinct (macs (rt_services (rg_tables s)))" "rg_zone s = reg_Normalize z" using assms(2) by (auto simp: registry_canon_def)
  have "reg_ok t" using 2(2) ok(1) by (rule reg_run_ok)
  moreover have "canon.holds (rg_zone s) t" using 2(2) ok(2) validated_canon [OF v] by (rule canon.holds_run)
  moreover have "inhabited t" using 2(2) ok(3,1) validated_inhabited [OF v] by (rule inhabited_run)
  moreover have "distinct (macs (rt_services t))" using 2(1,2) ok(1,4,5) assms(3) by (rule distinct_macs_run)
  ultimately show ?thesis using announced_sel [OF 2(3)] ok(5) by (auto simp: registry_canon_def)
qed (use assms(2) in simp)

lemma registry_runs_canon: "registry_canon s \<Longrightarrow> list_all (\<lambda>op. imports_fresh (snd op)) ops \<Longrightarrow> registry_canon (registry_runs chg ops s)"
proof (induction chg ops s rule: registry_runs.induct)
  case (2 chg io op ops s)
  then show ?case using registry_run_canon [of io chg op s] by (simp add: prod_eq_iff)
qed simp

lemma registry_New_canon: "registry_canon (registry_New empty_registry lt zone h)"
  using empty_registry_ok by (auto simp: registry_canon_def registry_New_def reg_SetZone_def canon.holds_def inhabited_def empty_registry_def)

section \<open>What is read validates\<close>

lemma canon_cidr_not_Nil: "canon_cidr c \<Longrightarrow> c \<noteq> []"
proof
  assume "canon_cidr c" and "c = []"
  moreover have "ParsePrefix [] = None" by code_simp
  ultimately show False by (simp add: canon_cidr_def)
qed

lemma Views_validate:
  assumes "registry_canon s" and "v \<in> set (Views (rg_tables s))"
  shows "validateView v = Inr v"
proof -
  let ?t = "rg_tables s"
  have ok: "views_ok ?t" "canon.holds (rg_zone s) ?t" "inhabited ?t" using assms(1) by (auto simp: registry_canon_def reg_ok_def)
  obtain n where n: "n \<in> set (rt_views ?t)" and v: "v = \<lparr>view_Name = n, view_Subnets = filter (\<lambda>c. c \<noteq> []) (cidrs_of n ?t)\<rparr>"
    using assms(2) ok(1) by (auto simp: Views_eq views_ok_def)
  have cidr: "canon_cidr c" if "c \<in> set (cidrs_of n ?t)" for c using that ok(2) by (auto simp: cidrs_of_def canon.holds_def list_all_iff)
  obtain c where "c \<in> set (cidrs_of n ?t)" using ok(3) n by (force simp: inhabited_def cidrs_of_def)
  then have "view_Subnets v \<noteq> []" using cidr canon_cidr_not_Nil by (auto simp: v filter_empty_conv)
  moreover have "canon.view_holds v" using cidr n ok(2) by (auto simp: v canon.view_holds_def canon.holds_def list_all_iff)
  ultimately show ?thesis by (simp add: validateView_canon)
qed

lemma set_known: "registry_canon s \<Longrightarrow> view_Name ` set (Views (rg_tables s)) = set (rt_views (rg_tables s))"
  by (auto simp: registry_canon_def reg_ok_def Views_eq views_ok_def image_iff)

lemma ref_known: "ref_ok vs v \<Longrightarrow> coalesce v = [] \<or> coalesce v \<in> set vs"
  by (cases v) (auto simp: coalesce_def)

lemma services_validate:
  assumes "registry_canon s" and "svc \<in> set (services_of (rg_tables s))"
  shows "validateService (svc_content svc) (map view_Name (Views (rg_tables s))) (rg_zone s) = Inr (svc_content svc)"
proof (rule validateService_canon)
  let ?t = "rg_tables s"
  have ok: "children_ok ?t" "canon.holds (rg_zone s) ?t" "inhabited ?t" using assms(1) by (auto simp: registry_canon_def reg_ok_def)
  obtain r where r: "r \<in> set (rt_services ?t)" "svc = load_service ?t r" using assms(2) by (auto simp: services_of_def)
  have addr: "\<exists>x\<in>set (rt_addresses ?t). addr_Address a = ar_Address x \<and> addr_View a = coalesce (ar_View x)"
    if "a \<in> set (svc_Addresses (svc_content svc))" for a
    using that by (auto simp: r(2) svc_content_def load_service_def addresses_of_def addr_content_def)
  have "canon_columns (rg_zone s) (svc_content svc)"
    using ok(2) r by (auto simp: canon.holds_def list_all_iff canon_columns_def svc_content_def load_service_def)
  moreover have "list_all (\<lambda>a. addr_ok (addr_Address a)) (svc_Addresses (svc_content svc))"
    using addr ok(2) by (fastforce simp: canon.holds_def list_all_iff)
  moreover have "list_all (canon_name (rg_zone s)) (svc_Aliases (svc_content svc))"
    using ok(2) by (auto simp: r(2) svc_content_def load_service_def aliases_of_def canon.holds_def list_all_iff)
  ultimately show "canon.service_holds (rg_zone s) (svc_content svc)" by (simp add: canon.service_holds_def)
  show "list_all (\<lambda>a. addr_View a = [] \<or> addr_View a \<in> set (map view_Name (Views ?t))) (svc_Addresses (svc_content svc))"
    using addr ok(1) ref_known [of "rt_views ?t"] set_known [OF assms(1)] by (fastforce simp: children_ok_def list_all_iff)
  obtain x where "x \<in> set (rt_addresses ?t)" "ar_Service x = svc_ID r" using ok(3) r(1) by (force simp: inhabited_def)
  then have "filter (\<lambda>a. ar_Service a = svc_ID r) (rt_addresses ?t) \<noteq> []" by (auto simp: filter_empty_conv)
  then have "sort_key ar_ID (filter (\<lambda>a. ar_Service a = svc_ID r) (rt_addresses ?t)) \<noteq> []" by (metis length_0_conv length_sort)
  then show "svc_Addresses (svc_content svc) \<noteq> []" by (simp add: r(2) svc_content_def load_service_def addresses_of_def)
qed

lemma records_validate:
  assumes "registry_canon s" and "r \<in> set (Records (rg_tables s))"
  shows "validateRecord (rec_content r) (map view_Name (Views (rg_tables s))) (rg_zone s) = Inr (rec_content r)"
proof -
  let ?t = "rg_tables s"
  have ok: "records_ok ?t" "canon.holds (rg_zone s) ?t" using assms(1) by (auto simp: registry_canon_def reg_ok_def)
  obtain w where w: "w \<in> set (rt_records ?t)" "r = record_of w" using assms(2) by (auto simp: Records_def)
  then show ?thesis
    using ok ref_known [of "rt_views ?t" "rw_View w"] set_known [OF assms(1)]
    by (auto simp: validateRecord_fix rec_content_def record_of_def canon.holds_def records_ok_def list_all_iff)
qed

section \<open>An export comes back\<close>

text \<open>The identifiers of the exporting node play no part in the import.\<close>

lemma insert_addresses_content: "insert_addresses i (map addr_content as) t = insert_addresses i as t"
  by (induction i as t rule: insert_addresses.induct) (auto simp: addr_content_def Let_def)

lemma putService_content: "putService ((svc_content svc)\<lparr>svc_ID := 0\<rparr>) t = putService (svc\<lparr>svc_ID := 0\<rparr>) t"
proof -
  have "put_children ((svc_content svc)\<lparr>svc_ID := 0\<rparr>) it = put_children (svc\<lparr>svc_ID := 0\<rparr>) it" for it
    by (simp add: put_children_def svc_content_def insert_addresses_content split: sum.split)
  moreover have "insert_service ((svc_content svc)\<lparr>svc_ID := 0\<rparr>) t = insert_service (svc\<lparr>svc_ID := 0\<rparr>) t"
    by (simp add: insert_service_def service_columns_def svc_content_def Let_def)
  ultimately show ?thesis by (simp add: putService_def split: sum.split)
qed

lemma replaceAll_content: "replaceAll vs (map svc_content ss) (map rec_content rs) t = replaceAll vs ss rs t"
proof -
  have "put_services (map svc_content ss) t = put_services ss t" for t
    by (induction ss t rule: put_services.induct) (simp_all add: putService_content split: sum.split)
  moreover have "put_records (map rec_content rs) t = put_records rs t" for t
    by (induction rs t rule: put_records.induct) (simp_all add: rec_content_def split: sum.split)
  ultimately show ?thesis by (simp add: replaceAll_def split: sum.split)
qed

lemma distinct_macs_read:
  assumes "registry_canon s"
  shows "distinct (macs (map svc_content (services_of (rg_tables s))))"
proof -
  let ?rs = "rt_services (rg_tables s)"
  have "macs (map svc_content (services_of (rg_tables s))) = filter (\<lambda>m. m \<noteq> []) (map svc_MAC (sort_key svc_Name ?rs))"
    by (simp add: macs_def services_of_def svc_content_def load_service_def comp_def)
  also have "\<dots> = map svc_MAC (sort_key svc_Name (filter (\<lambda>r. svc_MAC r \<noteq> []) ?rs))" by (simp add: filter_map filter_sort comp_def)
  finally show ?thesis using assms by (auto simp: registry_canon_def macs_def filter_map comp_def distinct_map)
qed

lemma restore_admitted:
  assumes s: "registry_canon s" and zone: "rg_zone s2 = rg_zone s"
  shows "\<exists>t. reg_ReplaceAll None chg (Views (rg_tables s)) (map svc_content (services_of (rg_tables s))) (map rec_content (Records (rg_tables s))) s2 =
    changed chg () (s2\<lparr>rg_tables := t\<rparr>) \<and> reg_content t = reg_content (rg_tables s)"
proof -
  let ?t = "rg_tables s"
  have "map_result validateView (Views ?t) = Inr (Views ?t)" using Views_validate [OF s] map_result_all [of "Views ?t" validateView id] by simp
  moreover have "validate_services (map view_Name (Views ?t)) (rg_zone s2) [] (map svc_content (services_of ?t)) = Inr (map svc_content (services_of ?t))"
    using services_validate [OF s] distinct_macs_read [OF s] validate_services_canon [of "map view_Name (Views ?t)" "rg_zone s" _ "[]"]
    by (simp add: zone list_all_iff) (simp add: svc_content_def)
  moreover have "map_result (\<lambda>r. validateRecord r (map view_Name (Views ?t)) (rg_zone s2)) (map rec_content (Records ?t)) = Inr (map rec_content (Records ?t))"
    by (subst map_result_all [where g = id]) (auto simp: zone records_validate [OF s])
  moreover obtain t' where "replaceAll (Views ?t) (services_of ?t) (Records ?t) (rg_tables s2) = Inr t'" "reg_content t' = reg_content ?t"
    using replaceAll_copies [of ?t "rg_tables s2"] s by (auto simp: registry_canon_def)
  ultimately show ?thesis
    by (auto simp: reg_ReplaceAll_def ReplaceAll_def run_tx_def replaceAll_content then_changed_def no_id_def)
qed

lemma snapshotDoc_content:
  assumes "snapshotDoc s = Inr doc" and "reg_ok (rg_tables (nd_reg s))"
  shows "tr_Views doc = Views (rg_tables (nd_reg s))" "tr_Services doc = map svc_content (services_of (rg_tables (nd_reg s)))"
    "map (\<lambda>x. x\<lparr>rec_ID := 0\<rparr>) (tr_Records doc) = map rec_content (Records (rg_tables (nd_reg s)))"
proof -
  have svcs: "Services (rg_tables (nd_reg s)) = Inr (services_of (rg_tables (nd_reg s)))" using assms(2) by (simp add: Services_eq services_of_def reg_ok_def)
  have "(toServiceDTO x)\<lparr>svc_ID := 0\<rparr> = svc_content x" for x by (cases x) (simp add: toServiceDTO_def svc_content_def addr_content_def [abs_def])
  then show "tr_Views doc = Views (rg_tables (nd_reg s))" "tr_Services doc = map svc_content (services_of (rg_tables (nd_reg s)))"
    "map (\<lambda>x. x\<lparr>rec_ID := 0\<rparr>) (tr_Records doc) = map rec_content (Records (rg_tables (nd_reg s)))"
    using assms(1) svcs by (auto simp: snapshotDoc_def rec_content_def Let_def split: sum.splits)
qed

lemma changed_tables: "rg_tables (snd (changed chg x s)) = rg_tables s"
  by (auto simp: changed_def split: prod.split option.split)

text \<open>
  C15: an export comes back. Take the export of a node whose registry was written in any way, and import it with \<^verbatim>\<open>mode=replace\<close> on any node of the same
  zone, whatever that node holds. If its settings block is refused, nothing changed. Otherwise every view, service and record of the document passes
  validation and is stored, and the registry reads the same as the one exported, identifiers apart; no rebuild that fails and no policy block that is refused
  takes anything from that.
\<close>

theorem export_comes_back:
  assumes "list_all (\<lambda>op. imports_fresh (snd op)) ops" and "nd_reg s = registry_runs chg ops (registry_New empty_registry lt zone h)"
    and "snapshotDoc s = Inr doc" and "rg_zone (nd_reg s2) = rg_zone (nd_reg s)"
    and "aq_doc rq = Some doc" and "m_get (aq_query rq) ''mode'' = Some ''replace''" and "an_io e 0 = None"
    and imp: "importDoc e rq s2 = (r, s2')"
  shows "case (case tr_Settings doc of None \<Rightarrow> None | Some v \<Rightarrow> CheckWrite (an_lib e) (an_first e) v [] (nd_set s2)) of
      Some err \<Rightarrow> r = settings_status err \<and> s2' = s2
    | None \<Rightarrow> reg_content (rg_tables (nd_reg s2')) = reg_content (rg_tables (nd_reg s))"
proof -
  have canon: "registry_canon (nd_reg s)" using registry_runs_canon [OF registry_New_canon assms(1)] assms(2) by simp
  note doc = snapshotDoc_content [OF assms(3)]
  obtain t where rep: "reg_ReplaceAll None (an_chg e) (tr_Views doc) (tr_Services doc) (map (\<lambda>x. x\<lparr>rec_ID := 0\<rparr>) (tr_Records doc)) (nd_reg s2) =
      changed (an_chg e) () ((nd_reg s2)\<lparr>rg_tables := t\<rparr>)" and t: "reg_content t = reg_content (rg_tables (nd_reg s))"
    using restore_admitted [OF canon assms(4)] doc canon by (auto simp: registry_canon_def)
  obtain a r2 where c: "changed (an_chg e) () ((nd_reg s2)\<lparr>rg_tables := t\<rparr>) = (a, r2)" by fastforce
  have "rg_tables r2 = t" using changed_tables [of "an_chg e" "()" "(nd_reg s2)\<lparr>rg_tables := t\<rparr>"] c by simp
  moreover have "nd_reg s2' = r2" if "(case tr_Settings doc of None \<Rightarrow> None | Some v \<Rightarrow> CheckWrite (an_lib e) (an_first e) v [] (nd_set s2)) = None"
    using imp that assms(5-7) rep c
    by (auto simp: importDoc_def import_registry_def on_set_def split: sum.splits prod.splits option.splits)
  ultimately show ?thesis using t imp assms(5) by (auto simp: importDoc_def split: option.splits)
qed

definition backup_node :: "(unit, nat, unit) node" where
  "backup_node = api_node\<lparr>nd_reg := registry_runs quiet [(None, RPutService nas)] (registry_New empty_registry fresh_local ''home.arpa'' ()),
     nd_set := \<lparr>se_db = putSettings (Canonicalize home_settings) fresh_db, se_cur = Some SettingsSafety.home_snapshot, se_live = 1\<rparr>\<rparr>"

theorem export_comes_back_witness:
  "let s2 = backup_node\<lparr>nd_reg := registry_New empty_registry fresh_local ''home.arpa'' ()\<rparr>;
       rq = (api_request ''POST'' ''/api/v1/import'' ''kydns_ab'' JNull)\<lparr>aq_query := [(''mode'', ''replace'')], aq_doc := Some (projr (snapshotDoc backup_node))\<rparr>
   in reg_content (rg_tables (nd_reg (snd (importDoc (api_env False) rq s2)))) = reg_content (rg_tables (nd_reg backup_node))"
proof -
  let ?doc = "projr (snapshotDoc backup_node)" and ?s2 = "backup_node\<lparr>nd_reg := registry_New empty_registry fresh_local ''home.arpa'' ()\<rparr>"
  let ?rq = "(api_request ''POST'' ''/api/v1/import'' ''kydns_ab'' JNull)\<lparr>aq_query := [(''mode'', ''replace'')], aq_doc := Some ?doc\<rparr>"
  have doc: "snapshotDoc backup_node = Inr ?doc" by code_simp
  have check: "(case tr_Settings ?doc of None \<Rightarrow> None | Some v \<Rightarrow> CheckWrite (an_lib (api_env False)) (an_first (api_env False)) v [] (nd_set ?s2)) = None" by code_simp
  have zone: "rg_zone (nd_reg ?s2) = rg_zone (nd_reg backup_node)" by code_simp
  have reg: "nd_reg backup_node = registry_runs quiet [(None, RPutService nas)] (registry_New empty_registry fresh_local ''home.arpa'' ())" by (simp add: backup_node_def)
  have "list_all (\<lambda>op. imports_fresh (snd op)) [(None :: string option, RPutService nas)]" by simp
  moreover obtain r s' where imp: "importDoc (api_env False) ?rq ?s2 = (r, s')" by fastforce
  moreover have "aq_doc ?rq = Some ?doc" "m_get (aq_query ?rq) ''mode'' = Some ''replace''" "an_io (api_env False) 0 = None" by (simp_all add: m_get_def api_env_def)
  ultimately show ?thesis using export_comes_back [OF _ reg doc zone, of ?rq "api_env False" r s'] check by (simp add: Let_def)
qed

end
