(* ===== verification/ProcessConfig.thy ===== *)
theory ProcessConfig
  imports SettingsSafety Replica
begin

text \<open>
  The process configuration, \<^verbatim>\<open>internal/config/config.go\<close>: what the file says, the five keys the environment may replace, the backup variables, the defaults and
  the checks, and the seed a fresh database gets from it, with \<^verbatim>\<open>time.ParseDuration\<close> and \<^verbatim>\<open>strconv.ParseBool\<close> as it uses them. The file is given as the YAML library decodes it, or as the error of reading or decoding it; the
  environment as a partial function. Shown: a configuration that loads is sound, and the smallest one starts a server that is closed to strangers.
\<close>

section \<open>Durations\<close>

text \<open>
  \<^verbatim>\<open>time.ParseDuration\<close>: a sign, then numbers with units. The sums are in 64 bits; \<open>fl\<close> is the one floating-point product of it, of a fraction, the number of its
  digits and the unit.
\<close>

definition unitMap :: "(string, int) gomap" where
  "unitMap = [(''ns'', 1), (''us'', 1000), ([CHR 0xC2, CHR 0xB5] @ ''s'', 1000), ([CHR 0xCE, CHR 0xBC] @ ''s'', 1000), (''ms'', 1000000),
     (''s'', 1000000000), (''m'', 60000000000), (''h'', 3600000000000)]"

fun leadingInt :: "int \<Rightarrow> string \<Rightarrow> (int \<times> string) option" where
  "leadingInt x [] = Some (x, [])"
| "leadingInt x (c # s) =
     (if \<not> is_digit c then Some (x, c # s)
      else if 2 ^ 63 div 10 < x then None
      else let x = x * 10 + (char_code c - 48) in if 2 ^ 63 < x then None else leadingInt x s)"

fun leadingFraction :: "int \<Rightarrow> nat \<Rightarrow> bool \<Rightarrow> string \<Rightarrow> int \<times> nat \<times> string" where
  "leadingFraction x k overflow [] = (x, k, [])"
| "leadingFraction x k overflow (c # s) =
     (if \<not> is_digit c then (x, k, c # s)
      else let y = x * 10 + (char_code c - 48)
           in if overflow \<or> (2 ^ 63 - 1) div 10 < x \<or> 2 ^ 63 < y then leadingFraction x k True s
              else leadingFraction y (k + 1) False s)"

text \<open>One number and its unit: the value, and what is left of the string.\<close>

definition duration_term :: "(int \<Rightarrow> nat \<Rightarrow> int \<Rightarrow> int) \<Rightarrow> string \<Rightarrow> (int \<times> string) option" where
  "duration_term fl s =
     (if \<not> (hd s = CHR ''.'' \<or> is_digit (hd s)) then None
      else case leadingInt 0 s of
        None \<Rightarrow> None
      | Some (v, s1) \<Rightarrow>
          let (f, k, s2) = (if s1 \<noteq> [] \<and> hd s1 = CHR ''.'' then leadingFraction 0 0 False (tl s1) else (0, 0, s1));
              pre = (length s1 \<noteq> length s); post = (s1 \<noteq> [] \<and> hd s1 = CHR ''.'' \<and> length s2 \<noteq> length (tl s1));
              u = takeWhile (\<lambda>c. \<not> (c = CHR ''.'' \<or> is_digit c)) s2
          in if \<not> pre \<and> \<not> post \<or> u = [] then None
             else case m_get unitMap u of
                 None \<Rightarrow> None
               | Some unit \<Rightarrow>
                   if 2 ^ 63 div unit < v then None
                   else let w = (if 0 < f then (v * unit + fl f k unit) mod 2 ^ 64 else v * unit)
                        in if 0 < f \<and> 2 ^ 63 < w then None else Some (w, drop (length u) s2))"

lemma leadingInt_length: "leadingInt x s = Some (v, s') \<Longrightarrow> length s' \<le> length s"
  by (induction x s rule: leadingInt.induct) (auto simp: Let_def split: if_splits)

lemma leadingFraction_length: "leadingFraction x k b s = (f, n, s') \<Longrightarrow> length s' \<le> length s"
  by (induction x k b s rule: leadingFraction.induct) (auto simp: Let_def split: if_splits)

lemma duration_term_length: "duration_term fl s = Some (w, s') \<Longrightarrow> length s' < length s"
  by (auto simp: duration_term_def Let_def split: if_splits option.splits prod.splits dest!: leadingInt_length leadingFraction_length)

function duration_sum :: "(int \<Rightarrow> nat \<Rightarrow> int \<Rightarrow> int) \<Rightarrow> int \<Rightarrow> string \<Rightarrow> int option" where
  "duration_sum fl d s =
     (if s = [] then Some d
      else case duration_term fl s of
          None \<Rightarrow> None
        | Some (v, s') \<Rightarrow> let d = (d + v) mod 2 ^ 64 in if 2 ^ 63 < d then None else duration_sum fl d s')"
  by pat_completeness auto
termination
  by (relation "measure (\<lambda>(_, _, s). length s)") (auto dest: duration_term_length)

declare duration_sum.simps [simp del]

definition ParseDuration :: "(int \<Rightarrow> nat \<Rightarrow> int \<Rightarrow> int) \<Rightarrow> string \<Rightarrow> int option" where
  "ParseDuration fl s0 =
     (let neg = (s0 \<noteq> [] \<and> hd s0 = CHR ''-''); s = (if s0 \<noteq> [] \<and> (hd s0 = CHR ''-'' \<or> hd s0 = CHR ''+'') then tl s0 else s0)
      in if s = ''0'' then Some 0
         else if s = [] then None
         else case duration_sum fl 0 s of
             None \<Rightarrow> None
           | Some d \<Rightarrow> if neg then Some (- d) else if 2 ^ 63 - 1 < d then None else Some d)"

text \<open>\<^verbatim>\<open>strconv.ParseBool\<close>.\<close>

definition ParseBool :: "string \<Rightarrow> bool option" where
  "ParseBool s =
     (if s \<in> {''1'', ''t'', ''T'', ''TRUE'', ''true'', ''True''} then Some True
      else if s \<in> {''0'', ''f'', ''F'', ''FALSE'', ''false'', ''False''} then Some False else None)"

section \<open>The configuration\<close>

record dns_config =
  dc_Listen :: string
  dc_PrivateDomain :: string
  dc_ReverseZones :: "string list"
  dc_Upstreams :: "string list"
  dc_AllowQuery :: "string list"
  dc_AllowTailscale :: bool
  dc_TTL :: int
  dc_CacheMinTTL :: int
  dc_CacheMaxTTL :: int
  dc_NegativeMaxTTL :: int
  dc_CacheEntries :: int
  dc_LogQueries :: bool
  dc_LogClientIP :: bool

record discovery_config =
  di_DHCPLeaseFile :: string
  di_Interval :: int

record health_config =
  hc_Interval :: int
  hc_Timeout :: int
  hc_Workers :: int

record replication_config =
  rc_Listen :: string
  rc_Primary :: string

text \<open>What the file can name, and what the process adds to it.\<close>

record config_file =
  cf_DNS :: dns_config
  cf_AdminListen :: string
  cf_Discovery :: discovery_config
  cf_Health :: health_config
  cf_DataDir :: string
  cf_Replication :: replication_config

record config = config_file +
  cf_BackupDepositInterval :: int
  cf_BackupDir :: string
  cf_BackupKeep :: int
  cf_BackupAllowPrivateRecovery :: bool
  cf_explicitEmptyDomain :: bool
  cf_envApplied :: "string list"

type_synonym environment = "string \<Rightarrow> string option"

definition Getenv :: "environment \<Rightarrow> string \<Rightarrow> string" where
  "Getenv env name = (case env name of None \<Rightarrow> [] | Some v \<Rightarrow> v)"

definition set_DNSListen :: "string \<Rightarrow> config \<Rightarrow> config" where
  "set_DNSListen v c = c\<lparr>cf_DNS := (cf_DNS c)\<lparr>dc_Listen := v\<rparr>\<rparr>"

definition overlay :: "environment \<Rightarrow> string \<times> (string \<Rightarrow> config \<Rightarrow> config) \<Rightarrow> config \<Rightarrow> config" where
  "overlay env o' c =
     (let v = TrimSpace (Getenv env (fst o'))
      in if v = [] then c else (snd o' v c)\<lparr>cf_envApplied := cf_envApplied c @ [fst o']\<rparr>)"

definition overlay_table :: "(string \<times> (string \<Rightarrow> config \<Rightarrow> config)) list" where
  "overlay_table =
     [(''KYDNS_DATA_DIR'', \<lambda>v c. c\<lparr>cf_DataDir := v\<rparr>), (''KYDNS_DNS_LISTEN'', set_DNSListen), (''KYDNS_ADMIN_LISTEN'', \<lambda>v c. c\<lparr>cf_AdminListen := v\<rparr>),
      (''KYDNS_REPLICATION_LISTEN'', \<lambda>v c. c\<lparr>cf_Replication := (cf_Replication c)\<lparr>rc_Listen := v\<rparr>\<rparr>),
      (''KYDNS_REPLICATION_PRIMARY'', \<lambda>v c. c\<lparr>cf_Replication := (cf_Replication c)\<lparr>rc_Primary := v\<rparr>\<rparr>)]"

definition overlayEnv :: "environment \<Rightarrow> config \<Rightarrow> config" where
  "overlayEnv env c = fold (overlay env) overlay_table c"

definition defaultAllowQuery :: "string list" where
  "defaultAllowQuery = [''127.0.0.0/8'', ''::1/128'', ''10.0.0.0/8'', ''172.16.0.0/12'', ''192.168.0.0/16'', ''169.254.0.0/16'', ''fe80::/10'', ''fc00::/7'']"

definition or_str :: "string \<Rightarrow> string \<Rightarrow> string" where
  "or_str p v = (if p = [] then v else p)"

definition or_int :: "int \<Rightarrow> int \<Rightarrow> int" where
  "or_int p v = (if p = 0 then v else p)"

definition applyDefaults :: "config \<Rightarrow> config" where
  "applyDefaults c =
     (let d = cf_DNS c; h = cf_Health c; i = cf_Discovery c
      in c\<lparr>cf_AdminListen := or_str (cf_AdminListen c) ''127.0.0.1:8053'',
           cf_DNS := d\<lparr>dc_Listen := or_str (dc_Listen d) '':53'',
             dc_PrivateDomain := (if dc_PrivateDomain d = [] \<and> \<not> cf_explicitEmptyDomain c then ''home.arpa'' else dc_PrivateDomain d),
             dc_TTL := or_int (dc_TTL d) 60, dc_CacheMinTTL := or_int (dc_CacheMinTTL d) 5, dc_CacheMaxTTL := or_int (dc_CacheMaxTTL d) 3600,
             dc_NegativeMaxTTL := or_int (dc_NegativeMaxTTL d) 300, dc_CacheEntries := or_int (dc_CacheEntries d) 10000,
             dc_Upstreams := (if dc_Upstreams d = [] then [''tls://1.1.1.1:853'', ''tls://9.9.9.9:853''] else dc_Upstreams d),
             dc_AllowQuery := (if dc_AllowQuery d = [] then defaultAllowQuery else dc_AllowQuery d)\<rparr>,
           cf_Discovery := i\<lparr>di_Interval := or_int (di_Interval i) 30\<rparr>,
           cf_Health := h\<lparr>hc_Interval := or_int (hc_Interval h) 30, hc_Timeout := or_int (hc_Timeout h) 5, hc_Workers := or_int (hc_Workers h) 8\<rparr>\<rparr>)"

section \<open>Checks\<close>

datatype config_error =
    CfRead string
  | CfParse string
  | CfBackupInterval
  | CfBackupDir
  | CfBackupKeep
  | CfBackupRecovery
  | CfDataDir
  | CfDNSListen
  | CfAdminListen
  | CfBothRoles string string
  | CfReplicationListen
  | CfReplicationPrimary

definition MinBackupDepositInterval :: int where
  "MinBackupDepositInterval = 15 * 60 * 1000000000"

definition applyBackupDestinationEnv :: "environment \<Rightarrow> config \<Rightarrow> (config_error, config) result" where
  "applyBackupDestinationEnv env c0 =
     (let c = c0\<lparr>cf_BackupKeep := 7\<rparr>; dir = TrimSpace (Getenv env ''KYDNS_BACKUP_DIR''); keep = TrimSpace (Getenv env ''KYDNS_BACKUP_KEEP'');
          rec = TrimSpace (Getenv env ''KYDNS_BACKUP_ALLOW_PRIVATE_RECOVERY'')
      in if dir \<noteq> [] \<and> \<not> HasPrefix dir ''/'' then Inl CfBackupDir
         else let c = (if dir \<noteq> [] then c\<lparr>cf_BackupDir := dir\<rparr> else c)
              in case (if keep = [] then Some (cf_BackupKeep c) else ParseInt64 keep) of
                   None \<Rightarrow> Inl CfBackupKeep
                 | Some n \<Rightarrow>
                     if n < 1 then Inl CfBackupKeep
                     else let c = c\<lparr>cf_BackupKeep := n\<rparr>
                          in if rec = [] then Inr c
                             else case ParseBool rec of None \<Rightarrow> Inl CfBackupRecovery | Some b \<Rightarrow> Inr (c\<lparr>cf_BackupAllowPrivateRecovery := b\<rparr>))"

definition applyBackupEnv :: "(int \<Rightarrow> nat \<Rightarrow> int \<Rightarrow> int) \<Rightarrow> environment \<Rightarrow> config \<Rightarrow> (config_error, config) result" where
  "applyBackupEnv fl env c =
     (let raw = TrimSpace (Getenv env ''KYDNS_BACKUP_DEPOSIT_INTERVAL'')
      in if raw = [] then applyBackupDestinationEnv env (c\<lparr>cf_BackupDepositInterval := 24 * 3600 * 1000000000\<rparr>)
         else case ParseDuration fl raw of
             None \<Rightarrow> Inl CfBackupInterval
           | Some d \<Rightarrow>
               if d < 0 \<or> 0 < d \<and> d < MinBackupDepositInterval then Inl CfBackupInterval
               else applyBackupDestinationEnv env (c\<lparr>cf_BackupDepositInterval := d\<rparr>))"

definition config_source :: "string \<Rightarrow> config \<Rightarrow> string" where
  "config_source env c = (if env \<in> set (cf_envApplied c) then env else ''the config file'')"

definition dialAddress :: "string \<Rightarrow> bool" where
  "dialAddress raw =
     (case SplitHostPort raw of
        None \<Rightarrow> False
      | Some (host, port) \<Rightarrow> host \<noteq> [] \<and> (case ParseInt64 port of None \<Rightarrow> False | Some n \<Rightarrow> 1 \<le> n \<and> n \<le> 65535))"

definition config_validate :: "config \<Rightarrow> config_error option" where
  "config_validate c =
     (let listen = rc_Listen (cf_Replication c); primary = rc_Primary (cf_Replication c)
      in if cf_DataDir c = [] then Some CfDataDir
         else if SplitHostPort (dc_Listen (cf_DNS c)) = None then Some CfDNSListen
         else if SplitHostPort (cf_AdminListen c) = None then Some CfAdminListen
         else if listen \<noteq> [] \<and> primary \<noteq> []
         then Some (CfBothRoles (config_source ''KYDNS_REPLICATION_LISTEN'' c) (config_source ''KYDNS_REPLICATION_PRIMARY'' c))
         else if listen \<noteq> [] \<and> SplitHostPort listen = None then Some CfReplicationListen
         else if primary \<noteq> [] \<and> \<not> dialAddress primary then Some CfReplicationPrimary
         else None)"

definition EnvOverrides :: "config \<Rightarrow> string list" where
  "EnvOverrides c = cf_envApplied c"

text \<open>The file is the error of reading it, the error of decoding it, or what it decodes to and, of the second decoding, the private domain if it names one.\<close>

definition config_Load :: "(int \<Rightarrow> nat \<Rightarrow> int \<Rightarrow> int) \<Rightarrow> environment \<Rightarrow> string + string + config_file \<times> string option \<Rightarrow> (config_error, config) result" where
  "config_Load fl env file =
     (case file of
        Inl e \<Rightarrow> Inl (CfRead e)
      | Inr (Inl e) \<Rightarrow> Inl (CfParse e)
      | Inr (Inr (f, named)) \<Rightarrow>
          (case applyBackupEnv fl env (applyDefaults (overlayEnv env (config_file.extend f (config.fields 0 [] 0 False (named = Some []) [])))) of
             Inl e \<Rightarrow> Inl e
           | Inr c \<Rightarrow> (case config_validate c of Some e \<Rightarrow> Inl e | None \<Rightarrow> Inr c)))"

definition SeedSettings :: "'a config_file_scheme \<Rightarrow> settings" where
  "SeedSettings c =
     (let d = cf_DNS c
      in blank_settings\<lparr>PrivateDomain := dc_PrivateDomain d, ReverseZones := dc_ReverseZones d, Upstreams := dc_Upstreams d, AllowQuery := dc_AllowQuery d,
           AllowTailscale := dc_AllowTailscale d, TTL := dc_TTL d, CacheMinTTL := dc_CacheMinTTL d, CacheMaxTTL := dc_CacheMaxTTL d,
           NegativeMaxTTL := dc_NegativeMaxTTL d, CacheEntries := dc_CacheEntries d, LogQueries := dc_LogQueries d, LogClientIP := dc_LogClientIP d,
           DHCPLeaseFile := di_DHCPLeaseFile (cf_Discovery c), DiscoveryInterval := di_Interval (cf_Discovery c), HealthInterval := hc_Interval (cf_Health c),
           HealthTimeout := hc_Timeout (cf_Health c), HealthWorkers := hc_Workers (cf_Health c)\<rparr>)"

section \<open>What a configuration that loads is\<close>

lemma applyBackupDestinationEnv_Inr:
  assumes "applyBackupDestinationEnv env c = Inr c'"
  shows "config_file.truncate c' = config_file.truncate c" "cf_envApplied c' = cf_envApplied c" "cf_BackupDepositInterval c' = cf_BackupDepositInterval c"
    "1 \<le> cf_BackupKeep c'" "cf_BackupDir c = [] \<Longrightarrow> cf_BackupDir c' = [] \<or> HasPrefix (cf_BackupDir c') ''/''"
  using assms by (auto simp: applyBackupDestinationEnv_def Let_def config_file.defs split: if_splits option.splits)

lemma applyBackupEnv_Inr:
  assumes "applyBackupEnv fl env c = Inr c'"
  shows "config_file.truncate c' = config_file.truncate c" "cf_envApplied c' = cf_envApplied c"
    "cf_BackupDepositInterval c' = 0 \<or> MinBackupDepositInterval \<le> cf_BackupDepositInterval c'"
    "1 \<le> cf_BackupKeep c'" "cf_BackupDir c = [] \<Longrightarrow> cf_BackupDir c' = [] \<or> HasPrefix (cf_BackupDir c') ''/''"
  using assms applyBackupDestinationEnv_Inr
  by (fastforce simp: applyBackupEnv_def Let_def MinBackupDepositInterval_def config_file.defs split: if_splits option.splits)+

definition env_names :: "string list" where
  "env_names = [''KYDNS_DATA_DIR'', ''KYDNS_DNS_LISTEN'', ''KYDNS_ADMIN_LISTEN'', ''KYDNS_REPLICATION_LISTEN'', ''KYDNS_REPLICATION_PRIMARY'']"

text \<open>The value of a key the environment may name: the variable unless it is blank, else the file, else the default.\<close>

definition owned :: "environment \<Rightarrow> string \<Rightarrow> string \<Rightarrow> string \<Rightarrow> string" where
  "owned env name infile dflt =
     (if TrimSpace (Getenv env name) \<noteq> [] then TrimSpace (Getenv env name) else if infile \<noteq> [] then infile else dflt)"

lemma overlay_sel:
  "cf_DataDir (overlay env (n, f) c) = (if TrimSpace (Getenv env n) = [] then cf_DataDir c else cf_DataDir (f (TrimSpace (Getenv env n)) c))"
  "cf_DNS (overlay env (n, f) c) = (if TrimSpace (Getenv env n) = [] then cf_DNS c else cf_DNS (f (TrimSpace (Getenv env n)) c))"
  "cf_AdminListen (overlay env (n, f) c) = (if TrimSpace (Getenv env n) = [] then cf_AdminListen c else cf_AdminListen (f (TrimSpace (Getenv env n)) c))"
  "cf_Replication (overlay env (n, f) c) = (if TrimSpace (Getenv env n) = [] then cf_Replication c else cf_Replication (f (TrimSpace (Getenv env n)) c))"
  "cf_BackupDir (overlay env (n, f) c) = (if TrimSpace (Getenv env n) = [] then cf_BackupDir c else cf_BackupDir (f (TrimSpace (Getenv env n)) c))"
  "cf_explicitEmptyDomain (overlay env (n, f) c) = (if TrimSpace (Getenv env n) = [] then cf_explicitEmptyDomain c else cf_explicitEmptyDomain (f (TrimSpace (Getenv env n)) c))"
  "cf_envApplied (overlay env (n, f) c) = cf_envApplied c @ (if TrimSpace (Getenv env n) = [] then [] else [n])"
  "SeedSettings (overlay env (n, f) c) = (if TrimSpace (Getenv env n) = [] then SeedSettings c else SeedSettings (f (TrimSpace (Getenv env n)) c))"
  by (simp_all add: overlay_def Let_def SeedSettings_def)

lemma dc_Listen_set [simp]: "cf_DNS (set_DNSListen v c) = (cf_DNS c)\<lparr>dc_Listen := v\<rparr>" "cf_DataDir (set_DNSListen v c) = cf_DataDir c"
  "cf_AdminListen (set_DNSListen v c) = cf_AdminListen c" "cf_Replication (set_DNSListen v c) = cf_Replication c" "cf_BackupDir (set_DNSListen v c) = cf_BackupDir c"
  "cf_explicitEmptyDomain (set_DNSListen v c) = cf_explicitEmptyDomain c"
  by (simp_all add: set_DNSListen_def)

lemma SeedSettings_keys [simp]:
  "SeedSettings (c\<lparr>cf_DataDir := v\<rparr>) = SeedSettings c" "SeedSettings (c\<lparr>cf_AdminListen := v\<rparr>) = SeedSettings c"
  "SeedSettings (c\<lparr>cf_Replication := r\<rparr>) = SeedSettings c" "SeedSettings (set_DNSListen v d) = SeedSettings d"
  by (simp_all add: SeedSettings_def set_DNSListen_def Let_def)

lemma overlayEnv_sel:
  "cf_DataDir (overlayEnv env c) = owned env ''KYDNS_DATA_DIR'' (cf_DataDir c) []"
  "cf_DNS (overlayEnv env c) = (if TrimSpace (Getenv env ''KYDNS_DNS_LISTEN'') = [] then cf_DNS c else (cf_DNS c)\<lparr>dc_Listen := TrimSpace (Getenv env ''KYDNS_DNS_LISTEN'')\<rparr>)"
  "cf_AdminListen (overlayEnv env c) = owned env ''KYDNS_ADMIN_LISTEN'' (cf_AdminListen c) []"
  "rc_Listen (cf_Replication (overlayEnv env c)) = owned env ''KYDNS_REPLICATION_LISTEN'' (rc_Listen (cf_Replication c)) []"
  "rc_Primary (cf_Replication (overlayEnv env c)) = owned env ''KYDNS_REPLICATION_PRIMARY'' (rc_Primary (cf_Replication c)) []"
  "cf_BackupDir (overlayEnv env c) = cf_BackupDir c" "cf_explicitEmptyDomain (overlayEnv env c) = cf_explicitEmptyDomain c"
  "cf_envApplied (overlayEnv env c) = cf_envApplied c @ filter (\<lambda>n. TrimSpace (Getenv env n) \<noteq> []) env_names"
  "SeedSettings (overlayEnv env c) = SeedSettings c"
  by (simp_all add: overlayEnv_def overlay_table_def overlay_sel owned_def env_names_def)

text \<open>What the defaults make of a seed.\<close>

definition seed_defaults :: "bool \<Rightarrow> settings \<Rightarrow> settings" where
  "seed_defaults b v =
     v\<lparr>PrivateDomain := (if PrivateDomain v = [] \<and> \<not> b then ''home.arpa'' else PrivateDomain v),
       Upstreams := (if Upstreams v = [] then [''tls://1.1.1.1:853'', ''tls://9.9.9.9:853''] else Upstreams v),
       AllowQuery := (if AllowQuery v = [] then defaultAllowQuery else AllowQuery v),
       TTL := or_int (TTL v) 60, CacheMinTTL := or_int (CacheMinTTL v) 5, CacheMaxTTL := or_int (CacheMaxTTL v) 3600, NegativeMaxTTL := or_int (NegativeMaxTTL v) 300,
       CacheEntries := or_int (CacheEntries v) 10000, DiscoveryInterval := or_int (DiscoveryInterval v) 30, HealthInterval := or_int (HealthInterval v) 30,
       HealthTimeout := or_int (HealthTimeout v) 5, HealthWorkers := or_int (HealthWorkers v) 8\<rparr>"

lemma applyDefaults_sel:
  "cf_DataDir (applyDefaults c) = cf_DataDir c" "dc_Listen (cf_DNS (applyDefaults c)) = or_str (dc_Listen (cf_DNS c)) '':53''"
  "cf_AdminListen (applyDefaults c) = or_str (cf_AdminListen c) ''127.0.0.1:8053''" "cf_Replication (applyDefaults c) = cf_Replication c"
  "cf_BackupDir (applyDefaults c) = cf_BackupDir c" "cf_envApplied (applyDefaults c) = cf_envApplied c"
  "SeedSettings (applyDefaults c) = seed_defaults (cf_explicitEmptyDomain c) (SeedSettings c)"
  by (simp_all add: applyDefaults_def Let_def seed_defaults_def SeedSettings_def blank_settings_def)

lemma file_sel [simp]:
  "cf_DataDir (config_file.extend f m) = cf_DataDir f" "cf_DNS (config_file.extend f m) = cf_DNS f" "cf_AdminListen (config_file.extend f m) = cf_AdminListen f"
  "cf_Replication (config_file.extend f m) = cf_Replication f" "SeedSettings (config_file.extend f m) = SeedSettings f"
  by (simp_all add: config_file.defs SeedSettings_def Let_def)

lemma fresh_sel [simp]:
  "cf_BackupDir (config_file.extend f (config.fields i d k p b es)) = d" "cf_explicitEmptyDomain (config_file.extend f (config.fields i d k p b es)) = b"
  "cf_envApplied (config_file.extend f (config.fields i d k p b es)) = es"
  by (simp_all add: config_file.defs config.defs)

lemma SeedSettings_truncate: "SeedSettings (config_file.truncate c) = SeedSettings c"
  by (simp add: SeedSettings_def config_file.defs Let_def)

lemma config_Load_Inr:
  assumes "config_Load fl env (Inr (Inr (f, named))) = Inr c"
  obtains c0 where "c0 = applyDefaults (overlayEnv env (config_file.extend f (config.fields 0 [] 0 False (named = Some []) [])))"
    "applyBackupEnv fl env c0 = Inr c" "config_validate c = None"
  using assms by (auto simp: config_Load_def split: sum.splits option.splits)

lemma truncate_cong:
  assumes "config_file.truncate c = config_file.truncate c0"
  shows "cf_DataDir c = cf_DataDir c0" "cf_DNS c = cf_DNS c0" "cf_AdminListen c = cf_AdminListen c0" "cf_Replication c = cf_Replication c0" "SeedSettings c = SeedSettings c0"
  using assms SeedSettings_truncate [of c] SeedSettings_truncate [of c0] by (simp_all add: config_file.defs)

lemma loaded_sel:
  assumes "config_Load fl env (Inr (Inr (f, named))) = Inr c"
  shows "cf_DataDir c = owned env ''KYDNS_DATA_DIR'' (cf_DataDir f) []" "dc_Listen (cf_DNS c) = owned env ''KYDNS_DNS_LISTEN'' (dc_Listen (cf_DNS f)) '':53''"
    "cf_AdminListen c = owned env ''KYDNS_ADMIN_LISTEN'' (cf_AdminListen f) ''127.0.0.1:8053''"
    "rc_Listen (cf_Replication c) = owned env ''KYDNS_REPLICATION_LISTEN'' (rc_Listen (cf_Replication f)) []"
    "rc_Primary (cf_Replication c) = owned env ''KYDNS_REPLICATION_PRIMARY'' (rc_Primary (cf_Replication f)) []"
    "cf_envApplied c = filter (\<lambda>n. TrimSpace (Getenv env n) \<noteq> []) env_names" "cf_BackupDir c = [] \<or> HasPrefix (cf_BackupDir c) ''/''"
    "cf_BackupDepositInterval c = 0 \<or> MinBackupDepositInterval \<le> cf_BackupDepositInterval c" "1 \<le> cf_BackupKeep c"
    "SeedSettings c = seed_defaults (named = Some []) (SeedSettings f)"
proof -
  obtain c0 where c0: "c0 = applyDefaults (overlayEnv env (config_file.extend f (config.fields 0 [] 0 False (named = Some []) [])))"
    and bk: "applyBackupEnv fl env c0 = Inr c" using config_Load_Inr [OF assms] by metis
  note sel = truncate_cong [OF applyBackupEnv_Inr(1) [OF bk]]
  show "cf_DataDir c = owned env ''KYDNS_DATA_DIR'' (cf_DataDir f) []" "dc_Listen (cf_DNS c) = owned env ''KYDNS_DNS_LISTEN'' (dc_Listen (cf_DNS f)) '':53''"
    "cf_AdminListen c = owned env ''KYDNS_ADMIN_LISTEN'' (cf_AdminListen f) ''127.0.0.1:8053''"
    "rc_Listen (cf_Replication c) = owned env ''KYDNS_REPLICATION_LISTEN'' (rc_Listen (cf_Replication f)) []"
    "rc_Primary (cf_Replication c) = owned env ''KYDNS_REPLICATION_PRIMARY'' (rc_Primary (cf_Replication f)) []"
    "SeedSettings c = seed_defaults (named = Some []) (SeedSettings f)"
    unfolding sel c0 by (simp_all add: applyDefaults_sel overlayEnv_sel) (simp_all add: owned_def or_str_def)
  show "cf_envApplied c = filter (\<lambda>n. TrimSpace (Getenv env n) \<noteq> []) env_names"
    using applyBackupEnv_Inr(2) [OF bk] by (simp add: c0 applyDefaults_sel overlayEnv_sel)
  show "cf_BackupDir c = [] \<or> HasPrefix (cf_BackupDir c) ''/''"
    using applyBackupEnv_Inr(5) [OF bk] by (simp add: c0 applyDefaults_sel overlayEnv_sel)
qed (use config_Load_Inr [OF assms] applyBackupEnv_Inr in metis)+

lemma config_validate_None:
  assumes "config_validate c = None"
  shows "cf_DataDir c \<noteq> []" "SplitHostPort (dc_Listen (cf_DNS c)) \<noteq> None" "SplitHostPort (cf_AdminListen c) \<noteq> None"
    "rc_Listen (cf_Replication c) = [] \<or> rc_Primary (cf_Replication c) = []"
    "rc_Listen (cf_Replication c) \<noteq> [] \<Longrightarrow> SplitHostPort (rc_Listen (cf_Replication c)) \<noteq> None"
    "rc_Primary (cf_Replication c) \<noteq> [] \<Longrightarrow> dialAddress (rc_Primary (cf_Replication c))"
  using assms by (auto simp: config_validate_def Let_def split: if_splits)

lemma loaded_role:
  assumes "config_validate c = None"
  shows "case RoleFrom (rc_Listen (cf_Replication c)) (rc_Primary (cf_Replication c)) of
        RolePrimary \<Rightarrow> rc_Primary (cf_Replication c) = [] \<and> SplitHostPort (rc_Listen (cf_Replication c)) \<noteq> None
      | RoleReplica \<Rightarrow> rc_Listen (cf_Replication c) = [] \<and> (\<exists>host port n. SplitHostPort (rc_Primary (cf_Replication c)) = Some (host, port) \<and> host \<noteq> [] \<and>
          ParseInt64 port = Some n \<and> n \<in> {1..65535})
      | RoleStandalone \<Rightarrow> rc_Listen (cf_Replication c) = [] \<and> rc_Primary (cf_Replication c) = []"
  using config_validate_None(4-6) [OF assms] by (auto simp: RoleFrom_def dialAddress_def split: option.splits)

text \<open>
  C32: a configuration that loads is sound, and the environment owns five keys of it. Each of the five is the variable unless that is blank, else the file's, else the
  default, and the overrides the server reports are the variables that are not blank. A data directory is named, the listeners split into host and port, a node is not
  primary and replica at once, and a primary to follow has a host and a port that reads as a number from 1 to 65535, perhaps with a sign. Scheduled deposits are off or at least a quarter of an hour apart, and
  local copies go to an absolute path with at least one kept. The seed of a fresh database does not depend on the environment.
\<close>

theorem loaded_config_is_sound:
  assumes "config_Load fl env (Inr (Inr (f, named))) = Inr c"
  shows "(cf_DataDir c = owned env ''KYDNS_DATA_DIR'' (cf_DataDir f) [] \<and> dc_Listen (cf_DNS c) = owned env ''KYDNS_DNS_LISTEN'' (dc_Listen (cf_DNS f)) '':53'' \<and>
      cf_AdminListen c = owned env ''KYDNS_ADMIN_LISTEN'' (cf_AdminListen f) ''127.0.0.1:8053'' \<and>
      rc_Listen (cf_Replication c) = owned env ''KYDNS_REPLICATION_LISTEN'' (rc_Listen (cf_Replication f)) [] \<and>
      rc_Primary (cf_Replication c) = owned env ''KYDNS_REPLICATION_PRIMARY'' (rc_Primary (cf_Replication f)) [] \<and>
      EnvOverrides c = filter (\<lambda>n. TrimSpace (Getenv env n) \<noteq> []) env_names) \<and>
    (cf_DataDir c \<noteq> [] \<and> SplitHostPort (dc_Listen (cf_DNS c)) \<noteq> None \<and> SplitHostPort (cf_AdminListen c) \<noteq> None) \<and>
    (case RoleFrom (rc_Listen (cf_Replication c)) (rc_Primary (cf_Replication c)) of
        RolePrimary \<Rightarrow> rc_Primary (cf_Replication c) = [] \<and> SplitHostPort (rc_Listen (cf_Replication c)) \<noteq> None
      | RoleReplica \<Rightarrow> rc_Listen (cf_Replication c) = [] \<and> (\<exists>host port n. SplitHostPort (rc_Primary (cf_Replication c)) = Some (host, port) \<and> host \<noteq> [] \<and>
          ParseInt64 port = Some n \<and> n \<in> {1..65535})
      | RoleStandalone \<Rightarrow> rc_Listen (cf_Replication c) = [] \<and> rc_Primary (cf_Replication c) = []) \<and>
    ((cf_BackupDepositInterval c = 0 \<or> 900000000000 \<le> cf_BackupDepositInterval c) \<and> 1 \<le> cf_BackupKeep c \<and> (cf_BackupDir c = [] \<or> HasPrefix (cf_BackupDir c) ''/'')) \<and>
    (\<forall>env2 c2. config_Load fl env2 (Inr (Inr (f, named))) = Inr c2 \<longrightarrow> SeedSettings c2 = SeedSettings c)"
proof -
  note sel = loaded_sel [OF assms]
  have v: "config_validate c = None" using config_Load_Inr [OF assms] by metis
  have "\<forall>env2 c2. config_Load fl env2 (Inr (Inr (f, named))) = Inr c2 \<longrightarrow> SeedSettings c2 = SeedSettings c" using loaded_sel(10) assms by metis
  then show ?thesis
    using sel(1-9) config_validate_None(1-3) [OF v] loaded_role [OF v] by (simp only: EnvOverrides_def MinBackupDepositInterval_def simp_thms) simp
qed

section \<open>The first start\<close>

text \<open>What the library says of the default upstreams and of the default domain.\<close>

definition knows_defaults :: "'a setlib_scheme \<Rightarrow> bool" where
  "knows_defaults L =
     (nl_parse L ''tls://1.1.1.1:853'' = Inr \<lparr>u_Scheme = ''tls'', u_Host = ''1.1.1.1:853'', u_User = False, u_Path = [], u_Fragment = []\<rparr> \<and>
      nl_parse L ''tls://9.9.9.9:853'' = Inr \<lparr>u_Scheme = ''tls'', u_Host = ''9.9.9.9:853'', u_User = False, u_Path = [], u_Fragment = []\<rparr> \<and>
      nl_port L ''853'' \<and> sl_IsDomainName L ''home.arpa'' \<and> sl_SplitDomainName L ''home.arpa'' = [''home'', ''arpa''])"

lemma dot_default:
  assumes "nl_parse N (''tls://'' @ hp) = Inr \<lparr>u_Scheme = ''tls'', u_Host = hp, u_User = False, u_Path = [], u_Fragment = []\<rparr>"
    and "TrimSpace (''tls://'' @ hp) = ''tls://'' @ hp" and "has_scheme (''tls://'' @ hp)"
    and "SplitHostPort hp = Some (h, ''853'')" and "ParseAddr (TrimBrackets h) = Some a" and "nl_port N ''853''"
  shows "\<exists>sp. up_Parse N (''tls://'' @ hp) = Inr sp \<and> sp_Transport sp = DoT"
  using assms by (simp add: up_Parse_def hostPort_def scheme_of_def)

lemma default_upstreams:
  assumes "knows_defaults L"
  obtains s1 s2 where "ParseAll (netlib.truncate L) [''tls://1.1.1.1:853'', ''tls://9.9.9.9:853''] = Inr [s1, s2]" "sp_Transport s1 = DoT" "sp_Transport s2 = DoT"
proof -
  have e: "TrimSpace (''tls://'' @ ''1.1.1.1:853'') = ''tls://'' @ ''1.1.1.1:853''" "has_scheme (''tls://'' @ ''1.1.1.1:853'')"
    "SplitHostPort ''1.1.1.1:853'' = Some (''1.1.1.1'', ''853'')" "ParseAddr (TrimBrackets ''1.1.1.1'') = Some (Addr4 0x01010101)"
    "TrimSpace (''tls://'' @ ''9.9.9.9:853'') = ''tls://'' @ ''9.9.9.9:853''" "has_scheme (''tls://'' @ ''9.9.9.9:853'')"
    "SplitHostPort ''9.9.9.9:853'' = Some (''9.9.9.9'', ''853'')" "ParseAddr (TrimBrackets ''9.9.9.9'') = Some (Addr4 0x09090909)"
    by code_simp+
  obtain s1 where "up_Parse (netlib.truncate L) (''tls://'' @ ''1.1.1.1:853'') = Inr s1" "sp_Transport s1 = DoT"
    using dot_default [of "netlib.truncate L", OF _ e(1-4)] assms by (auto simp: knows_defaults_def netlib.defs)
  moreover obtain s2 where "up_Parse (netlib.truncate L) (''tls://'' @ ''9.9.9.9:853'') = Inr s2" "sp_Transport s2 = DoT"
    using dot_default [of "netlib.truncate L", OF _ e(5-8)] assms by (auto simp: knows_defaults_def netlib.defs)
  ultimately show ?thesis using that [of s1 s2] by (simp add: ParseAll_def)
qed

text \<open>The default prefixes are the private ranges without the one of Tailscale, which is the last of them.\<close>

definition tailnet :: netprefix where
  "tailnet = Prefix (Addr4 0x64400000) 10"

lemma default_prefixes: "masked_all ''allow_query'' defaultAllowQuery = Inr (butlast privateRanges)"
  by code_simp

lemma prefixes_meet:
  assumes "Contains p a" "Contains q a" "Contains p (paddr p)" "Contains q (paddr q)"
  shows "Contains p (paddr q) \<or> Contains q (paddr p)"
  using assms Contains_nested by (metis linorder_le_cases)

lemma default_prefix_closed:
  assumes "p \<in> set (butlast privateRanges)" and "Contains p a"
  shows "private_addr a \<and> \<not> Contains tailnet a"
proof -
  have "list_all (\<lambda>p. Contains p (paddr p) \<and> \<not> Contains p (paddr tailnet) \<and> \<not> Contains tailnet (paddr p)) (butlast privateRanges)" by code_simp
  moreover have "Contains tailnet (paddr tailnet)" by code_simp
  ultimately have "\<not> Contains tailnet a" using prefixes_meet [of p a tailnet] assms by (auto simp: list_all_iff)
  then show ?thesis using assms by (auto simp: private_addr_def list_ex_iff dest: in_set_butlastD)
qed

lemma default_seed:
  "PrivateDomain (seed_defaults False blank_settings) = ''home.arpa''" "ReverseZones (seed_defaults False blank_settings) = []"
  "Upstreams (seed_defaults False blank_settings) = [''tls://1.1.1.1:853'', ''tls://9.9.9.9:853'']" "AllowQuery (seed_defaults False blank_settings) = defaultAllowQuery"
  "\<not> AllowTailscale (seed_defaults False blank_settings)" "DHCPLeaseFile (seed_defaults False blank_settings) = []"
  "CacheMinTTL (seed_defaults False blank_settings) = 5" "CacheMaxTTL (seed_defaults False blank_settings) = 3600"
  "HealthInterval (seed_defaults False blank_settings) = 30" "HealthTimeout (seed_defaults False blank_settings) = 5"
  by (simp_all add: seed_defaults_def blank_settings_def or_int_def)

lemma default_seed_valid:
  assumes "knows_defaults L"
  shows "ValidateStored L (seed_defaults False blank_settings) = None"
proof -
  have "list_all (\<lambda>label. label \<noteq> [] \<and> \<not> HasPrefix label ''-'' \<and> \<not> HasSuffix label ''-'' \<and> list_all domain_char label) [''home'', ''arpa'']" by code_simp
  then have dom: "validDomainName L ''home.arpa''" using assms unfolding knows_defaults_def validDomainName_def by metis
  have e: "TrimSpace ''home.arpa'' \<noteq> []" "validateAllowQuery defaultAllowQuery = None" by code_simp+
  have v: "validateDHCP (seed_defaults False blank_settings) = None" "find (\<lambda>p. snd p < 1) (positives (seed_defaults False blank_settings)) = None" by code_simp+
  obtain s1 s2 where u: "ParseAll (netlib.truncate L) [''tls://1.1.1.1:853'', ''tls://9.9.9.9:853''] = Inr [s1, s2]" using default_upstreams [OF assms] .
  show ?thesis unfolding ValidateStored_def default_seed u sum.case e v option.case by (simp add: dom e(1))
qed

lemma default_build:
  assumes "knows_defaults L"
  obtains snap where "set_Build L i (Canonicalize (seed_defaults False blank_settings)) = Inr snap" "ss_AllowQuery snap = butlast privateRanges"
    "length (ss_Upstreams snap) = 2" "\<forall>u\<in>set (ss_Upstreams snap). up_Secure u"
proof -
  let ?v = "Canonicalize (seed_defaults False blank_settings)"
  have "ValidateStored L ?v = None" by (simp add: ValidateStored_canonical default_seed_valid [OF assms])
  then obtain snap where snap: "set_Build L i ?v = Inr snap" using ValidateStored_builds by blast
  have seed: "AllowQuery ?v = canonicalPrefixes defaultAllowQuery" "\<not> AllowTailscale ?v" "Upstreams ?v = [''tls://1.1.1.1:853'', ''tls://9.9.9.9:853'']"
    by (simp_all add: default_seed)
  have "ss_AllowQuery snap = butlast privateRanges"
    using set_Build_sel(2) [OF snap] masked_all_canonical [of "''allow_query''" defaultAllowQuery "[]"] default_prefixes seed by simp
  moreover obtain s1 s2 where "ParseAll (netlib.truncate L) (Upstreams ?v) = Inr [s1, s2]" "sp_Transport s1 = DoT" "sp_Transport s2 = DoT"
    using default_upstreams [OF assms] seed(3) by metis
  then have "ss_Upstreams snap = [\<lparr>up_Id = i, up_Spec = sp_Raw s1, up_Secure = True\<rparr>, \<lparr>up_Id = Suc i, up_Spec = sp_Raw s2, up_Secure = True\<rparr>]"
    using set_Build_sel(4) [OF snap] by (simp add: NewAll_def up_New_def transport_Secure_def)
  then have "length (ss_Upstreams snap) = 2" "\<forall>u\<in>set (ss_Upstreams snap). up_Secure u" by simp_all
  ultimately show ?thesis using that snap by blast
qed

text \<open>
  C16: the smallest configuration starts a server that is closed to strangers. Take a file that names none of the keys that seed the database, whatever the environment
  says, and a database with no settings yet: the start stores the defaults and builds from them, every address that may query is a private one and not of a tailnet, and
  all queries that leave are authenticated. From then on the database owns these settings: a start with any other file finds the same ones and changes nothing.
\<close>

theorem first_start_is_closed:
  assumes "config_Load fl env (Inr (Inr (f, None))) = Inr c" and "SeedSettings f = blank_settings" and "Settings d = None" and "knows_defaults L"
  shows "\<exists>v d' snap. ensureSettings L None None (SeedSettings c) d = (Inr v, d') \<and> set_Build L i v = Inr snap \<and>
    (\<forall>p\<in>set (ss_AllowQuery snap). \<forall>a. Contains p a \<longrightarrow> private_addr a \<and> \<not> Contains tailnet a) \<and>
    ss_Upstreams snap \<noteq> [] \<and> (\<forall>u\<in>set (ss_Upstreams snap). up_Secure u) \<and>
    (\<forall>io other. ensureSettings L None io (SeedSettings (other :: config)) d' = (Inr v, d'))"
proof -
  let ?seed = "seed_defaults False blank_settings" and ?d = "putSettings (Canonicalize (seed_defaults False blank_settings)) d"
  have seed: "SeedSettings c = ?seed" using loaded_sel(10) [OF assms(1)] assms(2) by simp
  have ok: "ValidateStored L ?seed = None" by (rule default_seed_valid [OF assms(4)])
  have "list_all (\<lambda>u. CHR 0x0A \<notin> set u) (Upstreams ?seed)" by code_simp
  then have "Settings ?d = Some (Canonicalize ?seed)"
    using saved_row_reads_back [OF ok] by (simp add: Settings_def putSettings_def write_row_def)
  then have again: "ensureSettings L None io s ?d = (Inr (Canonicalize ?seed), ?d)" for io s
    by (simp add: ensureSettings_def ValidateStored_canonical ok)
  have first: "ensureSettings L None None (SeedSettings c) d = (Inr (Canonicalize ?seed), ?d)"
    using assms(3) ok by (simp add: ensureSettings_def seed PutSettings_def run_tx_def Let_def)
  obtain snap where "set_Build L i (Canonicalize ?seed) = Inr snap" "ss_AllowQuery snap = butlast privateRanges" "length (ss_Upstreams snap) = 2"
    "\<forall>u\<in>set (ss_Upstreams snap). up_Secure u" using default_build [OF assms(4)] by blast
  then show ?thesis using first again default_prefix_closed by (intro exI [of _ "Canonicalize ?seed"] exI [of _ ?d] exI [of _ snap]) auto
qed

section \<open>Witnesses\<close>

text \<open>A file with nothing in it, and a library that knows the defaults.\<close>

definition empty_file :: config_file where
  "empty_file = \<lparr>cf_DNS = \<lparr>dc_Listen = [], dc_PrivateDomain = [], dc_ReverseZones = [], dc_Upstreams = [], dc_AllowQuery = [], dc_AllowTailscale = False, dc_TTL = 0,
       dc_CacheMinTTL = 0, dc_CacheMaxTTL = 0, dc_NegativeMaxTTL = 0, dc_CacheEntries = 0, dc_LogQueries = False, dc_LogClientIP = False\<rparr>,
     cf_AdminListen = [], cf_Discovery = \<lparr>di_DHCPLeaseFile = [], di_Interval = 0\<rparr>, cf_Health = \<lparr>hc_Interval = 0, hc_Timeout = 0, hc_Workers = 0\<rparr>,
     cf_DataDir = [], cf_Replication = \<lparr>rc_Listen = [], rc_Primary = []\<rparr>\<rparr>"

definition unraid_env :: environment where
  "unraid_env = [''KYDNS_DATA_DIR'' \<mapsto> ''/data '', ''KYDNS_REPLICATION_LISTEN'' \<mapsto> '' '', ''KYDNS_REPLICATION_PRIMARY'' \<mapsto> ''10.0.0.2:8443'',
     ''KYDNS_BACKUP_DEPOSIT_INTERVAL'' \<mapsto> ''1h30m'', ''KYDNS_BACKUP_DIR'' \<mapsto> ''/backup'', ''KYDNS_BACKUP_KEEP'' \<mapsto> ''3'']"

definition default_lib :: setlib where
  "default_lib = \<lparr>nl_parse = (\<lambda>s. if HasPrefix s ''tls://'' then Inr \<lparr>u_Scheme = ''tls'', u_Host = drop 6 s, u_User = False, u_Path = [], u_Fragment = []\<rparr> else Inl ''unused''),
     nl_port = (\<lambda>p. p = ''853''), sl_IsDomainName = (\<lambda>s. True), sl_SplitDomainName = (\<lambda>s. Split s CHR ''.'')\<rparr>"

definition whole :: "int \<Rightarrow> nat \<Rightarrow> int \<Rightarrow> int" where
  "whole f k unit = f * unit div 10 ^ k"

definition unraid_config :: config where
  "unraid_config = projr (config_Load whole unraid_env (Inr (Inr (empty_file, None))))"

lemma unraid_loads: "config_Load whole unraid_env (Inr (Inr (empty_file, None))) = Inr unraid_config"
  by code_simp

theorem loaded_config_is_sound_witness:
  "cf_DataDir unraid_config = ''/data'' \<and> EnvOverrides unraid_config = [''KYDNS_DATA_DIR'', ''KYDNS_REPLICATION_PRIMARY''] \<and>
   cf_BackupDepositInterval unraid_config = 5400000000000 \<and>
   RoleFrom (rc_Listen (cf_Replication unraid_config)) (rc_Primary (cf_Replication unraid_config)) = RoleReplica"
proof -
  have "TrimSpace (Getenv unraid_env ''KYDNS_DATA_DIR'') = ''/data''" by code_simp
  moreover have "filter (\<lambda>n. TrimSpace (Getenv unraid_env n) \<noteq> []) env_names = [''KYDNS_DATA_DIR'', ''KYDNS_REPLICATION_PRIMARY'']" by code_simp
  moreover have "cf_BackupDepositInterval unraid_config = 5400000000000" by code_simp
  moreover have "RoleFrom (rc_Listen (cf_Replication unraid_config)) (rc_Primary (cf_Replication unraid_config)) = RoleReplica" by code_simp
  ultimately show ?thesis using loaded_config_is_sound [OF unraid_loads] by (simp add: owned_def)
qed

theorem first_start_is_closed_witness:
  "\<exists>v d' snap. ensureSettings default_lib None None (SeedSettings unraid_config) fresh_db = (Inr v, d') \<and> set_Build default_lib 0 v = Inr snap \<and>
    (\<forall>p\<in>set (ss_AllowQuery snap). \<forall>a. Contains p a \<longrightarrow> private_addr a \<and> \<not> Contains tailnet a) \<and>
    ss_Upstreams snap \<noteq> [] \<and> (\<forall>u\<in>set (ss_Upstreams snap). up_Secure u) \<and>
    (\<forall>io other. ensureSettings default_lib None io (SeedSettings (other :: config)) d' = (Inr v, d'))"
proof (rule first_start_is_closed [OF unraid_loads])
  show "SeedSettings empty_file = blank_settings" by (simp add: SeedSettings_def empty_file_def blank_settings_def)
  show "Settings fresh_db = None" by (simp add: Settings_def fresh_db_def)
  show "knows_defaults default_lib" by code_simp
qed

text \<open>A port with a sign passes the check and stays in the address as it is written, although no URL can hold it.\<close>

lemma signed_port_passes: "dialAddress ''dns.lan:+8443''"
  by code_simp

end
