(* ===== verification/Spec2Isabelle.thy ===== *)
theory Spec2Isabelle
  imports DhcpSafety BlacklistSafety StoreSync ReplicaSafety ReplicaPairing AppApply Restore ProcessConfig
begin

text \<open>
  A verification development of KyDNS, a DNS server for a home network with split-horizon
  views, a service registry, a filtering policy, an upstream forwarder, a DHCP server and one-way
  replication between nodes.

  \<^bold>\<open>The program and the theories.\<close>
  Everything persistent is a row of one SQLite database; everything served is an immutable snapshot built
  from rows and swapped in whole. The theories follow the packages under \<^verbatim>\<open>internal/\<close>.

  \<^item> \<open>KyPrelude\<close>, \<open>Netip\<close>: Go strings, numbers and maps, \<^verbatim>\<open>net/netip\<close> addresses and prefixes, and
    two interfaces as locales: \<open>go_map\<close> and \<open>snapshot_holder\<close> (build fully, then swap), which the zone and the
    policy holder interpret.
  \<^item> \<open>StoreModel\<close>, \<open>StoreReg\<close>, \<open>StoreCopy\<close>, \<open>StoreLocal\<close>, \<open>BlacklistStore\<close>, \<open>StoreDB\<close>, \<open>StoreSync\<close>: the rows and every
    write of \<^verbatim>\<open>store/\<close>, with the constraints, cascades and triggers of the schema. Shown: the constraints hold
    after any writes; the configuration version moves with the shared configuration and only with it;
    applying a snapshot copies the shared configuration and nothing else.
  \<^item> \<open>Zone\<close>, \<open>Zone_Holder\<close>: \<^verbatim>\<open>zone/\<close>. Lookups refine the documented precedence, except at the names whose untagged
    records the code hides, which the statement names; readers see complete builds only.
  \<^item> \<open>DhcpAlloc\<close>, \<open>DhcpReserve\<close>, \<open>DhcpServer\<close>, \<open>DhcpSafety\<close>, \<open>DhcpIface\<close>: \<^verbatim>\<open>dhcpd/\<close>. No address is given twice; an acknowledged
    lease survives a restart; a DISCOVER is harmless.
  \<^item> \<open>DnsMsg\<close>, \<open>DnsAuth\<close>, \<open>DnsCache\<close>, \<open>DnsMetrics\<close>, \<open>DnsForward\<close>, \<open>DnsServer\<close>: \<^verbatim>\<open>dnsserver/\<close>. Local names stay local, blocked
    names never leave, every query is answered once, plaintext upstreams never authenticate.
  \<^item> \<open>Policy\<close>, \<open>PolicyParse\<close>, \<open>Blacklist\<close>, \<open>BlacklistSafety\<close>: \<^verbatim>\<open>policy/\<close>. Decisions refine the documented precedence, the bounded
    parser equals its line-by-line reference, a failed refresh keeps the last good list; a write is live or has not happened, but for an
    import whose seeding fails (\<open>failed_seed_parts_tables_and_policy\<close>).
  \<^item> \<open>Registry\<close>, \<open>RegistrySafety\<close>: \<^verbatim>\<open>registry/\<close> and the closures \<^verbatim>\<open>app.Serve\<close> wires it to. Whatever is asked of it, the tables hold validated
    rows only; a write is live or reported; a token works from creation to deletion. \<open>wedged_restart\<close> records that an accepted
    CNAME conflict stops every rebuild and the next start.
  \<^item> \<open>Upstream\<close>, \<open>NetipRound\<close>, \<open>ServerSettings\<close>, \<open>SettingsSafety\<close>: \<^verbatim>\<open>upstream/parse.go\<close>, printing and parsing of addresses, \<^verbatim>\<open>settings/\<close> and
    \<^verbatim>\<open>app.ensureSettings\<close>. A save is all or nothing, never exposes the resolver without a confirmation, and reads back at the next
    start; on a replica it stays local.
  \<^item> \<open>Health\<close>: \<^verbatim>\<open>health/\<close>. The status is the verdict of the service's own probes, however they interleave.
  \<^item> \<open>Replica\<close>, \<open>ReplicaSafety\<close>, \<open>ReplicaPairing\<close>: \<^verbatim>\<open>replica/\<close>, \<^verbatim>\<open>app/replication.go\<close> and \<^verbatim>\<open>app/role.go\<close>. A primary and its replica are a step
    relation with writes on the primary at every moment, also between the reads of one snapshot, failures of every call, restarts and local
    writes; in every reachable state a held version means a held configuration, and one undisturbed tick converges. Strangers need a code,
    joining pins the confirmed key, a promotion survives a crash at any point.
  \<^item> \<open>Discovery\<close>: \<^verbatim>\<open>discovery/\<close>. The lease file parser equals a reference, which says where an endless lease loses; the poller, over the locale \<open>lease_source\<close> that the file and
    the built-in server interpret, publishes what its source reads, unless a semicolon in an IPv6 zone hides a change, and who is told of changes only holds what is published.
  \<^item> \<open>DhcpRunner\<close>, \<open>AppApply\<close>: \<^verbatim>\<open>app/dhcp.go\<close>, \<^verbatim>\<open>app/apply.go\<close>. The DHCP listener follows the settings and the role; its reservations catch up with
    the services through every interleaving of refreshes, unless the last one could not read them; a saved setting is what every component runs with, and saving it again disturbs nothing.
  \<^item> \<open>WebAuth\<close>: \<^verbatim>\<open>auth/\<close> and the guards, sign-in and routes of \<^verbatim>\<open>web/\<close>. Over any sequence of requests a screen, a change of the single sign-on and a sign-out need a login that was kept alive by its own
    cookie, and a form the token of its session; a replica refuses forms; the wait after failures doubles to its cap; an exchange keeps the verified subject.
    \<open>setup_fails_open\<close> and \<open>sso_signs_in_while_off\<close> record two open doors.
  \<^item> \<open>AdminApi\<close>: \<^verbatim>\<open>adminapi/api.go\<close>, \<^verbatim>\<open>blacklists.go\<close>, \<^verbatim>\<open>settings.go\<close>, \<^verbatim>\<open>dhcp.go\<close>: decoding, every endpoint of them, reads and writes, import and export, the bearer check, the
    write gate and the mux. Nothing happens without a token, reads and a replica's API edit nothing shared, a PATCH changes what it names (\<open>long_s_inherits_the_view\<close> records a key
    that slips past).
  \<^item> \<open>Restore\<close>: an export imported with \<^verbatim>\<open>mode=replace\<close> on a node of the same zone is admitted whole and reads back the same, because the rows of
    the registry are fixed points of its validation (the locale \<open>row_rules\<close> of \<open>RegistrySafety\<close>, interpreted a second time).
  \<^item> \<open>ProcessConfig\<close>: \<^verbatim>\<open>config/config.go\<close>. A configuration that loads is sound and the environment owns five keys of it; the smallest one starts a server
    that is closed to strangers, and from then on the database owns the settings. \<open>signed_port_passes\<close> records a port that passes and cannot be dialled.

  \<^bold>\<open>How the code is rendered.\<close>
  A mutex-protected object is a record passed through its operations; a transaction is one step whose failure is an
  argument (\<open>io\<close>, \<open>rd\<close>: the error the database answers with, if any), so every theorem covers the failing paths; clocks,
  random bytes and replies of the network are arguments. Code outside the repository (the DNS message library, IDNA, URL
  parsing, hashes) is a parameter. Loops are structural recursion or have a termination proof; the one loop that can spin, the cache
  eviction, is a partial function into \<open>option\<close> (never returning is \<open>None\<close>), and \<open>cache_runs_within_ceiling\<close> shows it returns for every
  ceiling the validator accepts.

  \<^bold>\<open>Not modelled.\<close>
  Sockets, TLS, HTTP transports and certificates; the HTML screens behind the guards, the command line client and the syntax of JSON and YAML; the endpoints over pairing and backup, backup archives and drills; the
  migrations of old databases; the wiring of \<^verbatim>\<open>app.Serve\<close> beyond the closures named above. Goroutines appear only through the interleavings that
  matter (rebuilds, probes, refreshes, writes between two reads of a snapshot).
\<close>

end
